(* ===== verification/Prelude.thy ===== *)
theory Prelude
  imports Main
begin

text \<open>
  Shared vocabulary of the development.

  Every write of the store runs inside one SQLite transaction (\<open>Store.WithTx\<close>): a callback
  that either returns an error, and then nothing it did is kept, or commits.  A callback is
  modelled as a value of type \<open>tx\<close>: a function from the database to an error or to a result
  with the new database.  \<open>with_tx\<close> is the commit/rollback boundary.  Facts about a callback
  are stated with \<open>wp\<close>, its weakest precondition with one postcondition for the normal
  and one for the error exit; the collection \<open>wp_simps\<close> computes it structurally.
\<close>

named_theorems wp_simps "weakest preconditions of the transaction combinators"
named_theorems wp_rules "weakest preconditions of loops, as introduction rules"

section \<open>Transactions: a state monad with errors\<close>

type_synonym ('e, 's, 'a) tx = "'s \<Rightarrow> 'e + 'a \<times> 's"

definition tx_return :: "'a \<Rightarrow> ('e, 's, 'a) tx" where
  "tx_return x = (\<lambda>s. Inr (x, s))"

definition tx_fail :: "'e \<Rightarrow> ('e, 's, 'a) tx" where
  "tx_fail e = (\<lambda>s. Inl e)"

definition tx_bind :: "('e, 's, 'a) tx \<Rightarrow> ('a \<Rightarrow> ('e, 's, 'b) tx) \<Rightarrow> ('e, 's, 'b) tx" where
  "tx_bind m f = (\<lambda>s. case m s of Inl e \<Rightarrow> Inl e | Inr (x, s') \<Rightarrow> f x s')"

definition tx_read :: "('s \<Rightarrow> 'a) \<Rightarrow> ('e, 's, 'a) tx" where
  "tx_read f = (\<lambda>s. Inr (f s, s))"

definition tx_modify :: "('s \<Rightarrow> 's) \<Rightarrow> ('e, 's, unit) tx" where
  "tx_modify f = (\<lambda>s. Inr ((), f s))"

definition tx_check :: "bool \<Rightarrow> 'e \<Rightarrow> ('e, 's, unit) tx" where
  "tx_check b e = (if b then tx_return () else tx_fail e)"

text \<open>\<open>tx_lift\<close> runs a pure computation that may fail.\<close>

definition tx_lift :: "'e + 'a \<Rightarrow> ('e, 's, 'a) tx" where
  "tx_lift r = (case r of Inl e \<Rightarrow> tx_fail e | Inr x \<Rightarrow> tx_return x)"

text \<open>The loops: \<open>tx_each\<close> for effects, \<open>tx_fold\<close> with an accumulator.\<close>

fun tx_each :: "('a \<Rightarrow> ('e, 's, unit) tx) \<Rightarrow> 'a list \<Rightarrow> ('e, 's, unit) tx" where
  "tx_each f [] = tx_return ()"
| "tx_each f (x # xs) = tx_bind (f x) (\<lambda>_. tx_each f xs)"

fun tx_fold :: "('b \<Rightarrow> 'a \<Rightarrow> ('e, 's, 'b) tx) \<Rightarrow> 'b \<Rightarrow> 'a list \<Rightarrow> ('e, 's, 'b) tx" where
  "tx_fold f b [] = tx_return b"
| "tx_fold f b (x # xs) = tx_bind (f b x) (\<lambda>b'. tx_fold f b' xs)"

text \<open>The transaction boundary: an error leaves the state as it was.\<close>

definition with_tx :: "('e, 's, 'a) tx \<Rightarrow> 's \<Rightarrow> ('e + 'a) \<times> 's" where
  "with_tx m s = (case m s of Inl e \<Rightarrow> (Inl e, s) | Inr (x, s') \<Rightarrow> (Inr x, s'))"

section \<open>Weakest preconditions\<close>

definition wp :: "('e, 's, 'a) tx \<Rightarrow> ('a \<Rightarrow> 's \<Rightarrow> bool) \<Rightarrow> ('e \<Rightarrow> bool) \<Rightarrow> 's \<Rightarrow> bool" where
  "wp m Q E s = (case m s of Inl e \<Rightarrow> E e | Inr (x, s') \<Rightarrow> Q x s')"

lemma wp_return [wp_simps]: "wp (tx_return x) Q E s = Q x s"
  by (simp add: wp_def tx_return_def)

lemma wp_fail [wp_simps]: "wp (tx_fail e) Q E s = E e"
  by (simp add: wp_def tx_fail_def)

lemma wp_bind [wp_simps]: "wp (tx_bind m f) Q E s = wp m (\<lambda>x. wp (f x) Q E) E s"
  by (simp add: wp_def tx_bind_def split: sum.splits prod.splits)

lemma wp_read [wp_simps]: "wp (tx_read f) Q E s = Q (f s) s"
  by (simp add: wp_def tx_read_def)

lemma wp_modify [wp_simps]: "wp (tx_modify f) Q E s = Q () (f s)"
  by (simp add: wp_def tx_modify_def)

lemma wp_check [wp_simps]: "wp (tx_check b e) Q E s = (if b then Q () s else E e)"
  by (simp add: tx_check_def wp_simps)

lemma wp_lift [wp_simps]: "wp (tx_lift r) Q E s = (case r of Inl e \<Rightarrow> E e | Inr x \<Rightarrow> Q x s)"
  by (simp add: tx_lift_def wp_simps split: sum.splits)

lemma wp_if [wp_simps]: "wp (if b then m else n) Q E s = (if b then wp m Q E s else wp n Q E s)"
  by simp

lemma wp_case_option [wp_simps]:
  "wp (case x of None \<Rightarrow> m | Some y \<Rightarrow> f y) Q E s =
     (case x of None \<Rightarrow> wp m Q E s | Some y \<Rightarrow> wp (f y) Q E s)"
  by (simp split: option.splits)

lemma wp_case_prod [wp_simps]:
  "wp (case x of (a, b) \<Rightarrow> f a b) Q E s = (case x of (a, b) \<Rightarrow> wp (f a b) Q E s)"
  by (simp split: prod.splits)

lemma wp_let [wp_simps]: "wp (let x = a in f x) Q E s = (let x = a in wp (f x) Q E s)"
  by simp

lemma wp_return_fun [wp_simps]: "wp (tx_return x) Q E = Q x"
  by (simp add: fun_eq_iff wp_return)

lemma wp_bind_fun [wp_simps]: "wp (tx_bind m f) Q E = wp m (\<lambda>x. wp (f x) Q E) E"
  by (simp add: fun_eq_iff wp_bind)

lemma wp_lift_Inr_fun [wp_simps]: "wp (tx_lift (Inr x)) Q E = Q x"
  by (simp add: fun_eq_iff wp_lift)

lemma wp_read_fun: "wp (tx_read f) Q E = (\<lambda>s. Q (f s) s)"
  by (simp add: fun_eq_iff wp_read)

lemma wp_modify_fun: "wp (tx_modify f) Q E = (\<lambda>s. Q () (f s))"
  by (simp add: fun_eq_iff wp_modify)

lemma wp_mono:
  assumes "wp m Q E s"
    and "\<And>x s'. Q x s' \<Longrightarrow> Q' x s'"
    and "\<And>e. E e \<Longrightarrow> E' e"
  shows "wp m Q' E' s"
  using assms by (auto simp: wp_def split: sum.splits prod.splits)

lemma wp_conj: "wp m (\<lambda>x s'. Q x s' \<and> R x s') E s \<longleftrightarrow> wp m Q E s \<and> wp m R E s"
  by (auto simp: wp_def split: sum.splits prod.splits)

lemma wp_InrD: "wp m Q E s \<Longrightarrow> m s = Inr (x, s') \<Longrightarrow> Q x s'"
  by (simp add: wp_def)

lemma wp_InlD: "wp m Q E s \<Longrightarrow> m s = Inl e \<Longrightarrow> E e"
  by (simp add: wp_def)

lemma wpI:
  assumes "\<And>x s'. m s = Inr (x, s') \<Longrightarrow> Q x s'" and "\<And>e. m s = Inl e \<Longrightarrow> E e"
  shows "wp m Q E s"
  using assms by (auto simp: wp_def split: sum.splits)

text \<open>Loops: an invariant kept by every iteration.\<close>

lemma wp_each [wp_rules]:
  assumes "I s"
    and "\<And>x s. x \<in> set xs \<Longrightarrow> I s \<Longrightarrow> wp (f x) (\<lambda>_. I) E s"
  shows "wp (tx_each f xs) (\<lambda>_. I) E s"
  using assms
proof (induction xs arbitrary: s)
  case Nil
  then show ?case by (simp add: wp_simps)
next
  case (Cons x xs)
  have "wp (f x) (\<lambda>_. I) E s" using Cons.prems by simp
  then show ?case
    by (simp add: wp_simps) (rule wp_mono, assumption, rule Cons.IH, auto simp: Cons.prems)
qed

lemma wp_fold [wp_rules]:
  assumes "I b s"
    and "\<And>b x s. x \<in> set xs \<Longrightarrow> I b s \<Longrightarrow> wp (f b x) I E s"
  shows "wp (tx_fold f b xs) I E s"
  using assms
proof (induction xs arbitrary: b s)
  case Nil
  then show ?case by (simp add: wp_simps)
next
  case (Cons x xs)
  have "wp (f b x) I E s" using Cons.prems by simp
  then show ?case
    by (simp add: wp_simps) (rule wp_mono, assumption, rule Cons.IH, auto simp: Cons.prems)
qed

text \<open>An invariant that may also mention what is left to do.\<close>

lemma wp_each_rest:
  assumes "I xs s"
    and "\<And>x rest s. I (x # rest) s \<Longrightarrow> wp (f x) (\<lambda>_. I rest) E s"
  shows "wp (tx_each f xs) (\<lambda>_. I []) E s"
  using assms(1)
proof (induction xs arbitrary: s)
  case Nil
  then show ?case by (simp add: wp_simps)
next
  case (Cons x xs)
  show ?case
    by (simp add: wp_simps) (rule wp_mono [OF assms(2) [OF Cons.prems]], auto intro: Cons.IH)
qed

lemma wp_fold_rest:
  assumes "I b xs s"
    and "\<And>b x rest s. I b (x # rest) s \<Longrightarrow> wp (f b x) (\<lambda>b'. I b' rest) E s"
  shows "wp (tx_fold f b xs) (\<lambda>b'. I b' []) E s"
  using assms(1)
proof (induction xs arbitrary: b s)
  case Nil
  then show ?case by (simp add: wp_simps)
next
  case (Cons x xs)
  show ?case
    by (simp add: wp_simps) (rule wp_mono [OF assms(2) [OF Cons.prems]], auto intro: Cons.IH)
qed

text \<open>What \<open>wp\<close> says about the transaction boundary.\<close>

lemma with_tx_wp:
  assumes "wp m (\<lambda>_. I) E s" and "I s"
  shows "I (snd (with_tx m s))"
  using assms by (auto simp: wp_def with_tx_def split: sum.splits prod.splits)

lemma with_tx_error:
  assumes "wp m Q E s" and "fst (with_tx m s) = Inl e"
  shows "E e"
  using assms by (auto simp: wp_def with_tx_def split: sum.splits prod.splits)

lemma with_tx_rollback: "fst (with_tx m s) = Inl e \<Longrightarrow> snd (with_tx m s) = s"
  by (auto simp: with_tx_def split: sum.splits prod.splits)

lemma with_tx_commit:
  "with_tx m s = (Inr x, s') \<longleftrightarrow> m s = Inr (x, s')"
  by (auto simp: with_tx_def split: sum.splits prod.splits)

lemma with_tx_post:
  assumes "wp m Q E s" and "fst (with_tx m s) = Inr x"
  shows "Q x (snd (with_tx m s))"
  using assms by (auto simp: wp_def with_tx_def split: sum.splits prod.splits)

lemma with_tx_postI:
  assumes "fst (with_tx m s) = Inr x" and "\<And>Q. (\<And>y t. R y t \<Longrightarrow> Q y t) \<Longrightarrow> wp m Q (\<lambda>_. True) s"
  shows "R x (snd (with_tx m s))"
  using assms(2) [of R] assms(1) by (auto intro: with_tx_post)

section \<open>Tables as lists of rows\<close>

text \<open>
  A table is the list of its rows.  \<open>rows_update\<close>, \<open>rows_delete\<close> are the effects of
  \<open>UPDATE\<close> and \<open>DELETE\<close>; \<open>next_rowid\<close> is the identifier SQLite gives a new row of
  an \<open>INTEGER PRIMARY KEY\<close> table: one more than the largest in use.
\<close>

definition rows_update :: "('r \<Rightarrow> bool) \<Rightarrow> ('r \<Rightarrow> 'r) \<Rightarrow> 'r list \<Rightarrow> 'r list" where
  "rows_update p f rs = map (\<lambda>r. if p r then f r else r) rs"

definition rows_delete :: "('r \<Rightarrow> bool) \<Rightarrow> 'r list \<Rightarrow> 'r list" where
  "rows_delete p rs = filter (\<lambda>r. \<not> p r) rs"

fun max_of :: "int list \<Rightarrow> int" where
  "max_of [] = 0"
| "max_of (x # xs) = max x (max_of xs)"

definition next_rowid :: "int list \<Rightarrow> int" where
  "next_rowid ids = max_of ids + 1"

lemma max_of_ge: "x \<in> set xs \<Longrightarrow> x \<le> max_of xs"
  by (induction xs) auto

lemma max_of_nonneg: "0 \<le> max_of xs"
  by (induction xs) auto

lemma max_of_in: "max_of xs = 0 \<or> max_of xs \<in> set xs"
  by (induction xs) (auto simp: max_def)

lemma max_of_le: "(\<And>x. x \<in> set xs \<Longrightarrow> x \<le> b) \<Longrightarrow> 0 \<le> b \<Longrightarrow> max_of xs \<le> b"
  by (induction xs) auto

lemma next_rowid_fresh: "next_rowid ids \<notin> set ids"
  using max_of_ge [of "next_rowid ids" ids] by (auto simp: next_rowid_def)

lemma next_rowid_pos: "0 < next_rowid ids"
  using max_of_nonneg [of ids] by (simp add: next_rowid_def)

lemma set_rows_update: "set (rows_update p f rs) = (\<lambda>r. if p r then f r else r) ` set rs"
  by (simp add: rows_update_def)

lemma set_rows_delete [simp]: "set (rows_delete p rs) = {r \<in> set rs. \<not> p r}"
  by (simp add: rows_delete_def)

lemma in_rows_updateE:
  assumes "r \<in> set (rows_update p f rs)"
  obtains (old) "r \<in> set rs" "\<not> p r" | (new) r0 where "r0 \<in> set rs" "p r0" "r = f r0"
  using assms by (auto simp: set_rows_update split: if_splits)

lemma in_rows_update_other:
  assumes "\<not> p u" and "\<And>r. p r \<Longrightarrow> f r \<noteq> u"
  shows "u \<in> set (rows_update p f rs) \<longleftrightarrow> u \<in> set rs"
  using assms by (induction rs) (auto simp: rows_update_def)

lemma length_rows_update [simp]: "length (rows_update p f rs) = length rs"
  by (simp add: rows_update_def)

lemma map_rows_update:
  "(\<And>r. r \<in> set rs \<Longrightarrow> p r \<Longrightarrow> g (f r) = g r) \<Longrightarrow> map g (rows_update p f rs) = map g rs"
  by (auto simp: rows_update_def)

lemma distinct_rows_delete [intro]: "distinct (map g rs) \<Longrightarrow> distinct (map g (rows_delete p rs))"
  by (simp add: rows_delete_def distinct_map_filter)

lemma rows_update_none: "(\<And>r. r \<in> set rs \<Longrightarrow> \<not> p r) \<Longrightarrow> rows_update p f rs = rs"
  by (induction rs) (auto simp: rows_update_def)

lemma rows_delete_none: "(\<And>r. r \<in> set rs \<Longrightarrow> \<not> p r) \<Longrightarrow> rows_delete p rs = rs"
  by (simp add: rows_delete_def filter_id_conv)

text \<open>
  Changing the key \<open>g\<close> of the rows that satisfy \<open>p\<close> keeps keys distinct when the new keys
  are distinct among themselves and none of them belongs to a row that is left alone.
\<close>

lemma distinct_rows_update:
  assumes "distinct (map g rs)"
    and "\<And>r q. r \<in> set rs \<Longrightarrow> q \<in> set rs \<Longrightarrow> p r \<Longrightarrow> p q \<Longrightarrow> g (f r) = g (f q) \<Longrightarrow> r = q"
    and "\<And>r q. r \<in> set rs \<Longrightarrow> q \<in> set rs \<Longrightarrow> p r \<Longrightarrow> \<not> p q \<Longrightarrow> g (f r) \<noteq> g q"
  shows "distinct (map g (rows_update p f rs))"
proof -
  let ?h = "\<lambda>r. g (if p r then f r else r)"
  have "distinct rs" and inj: "inj_on g (set rs)"
    using assms(1) by (simp_all add: distinct_map)
  moreover have "inj_on ?h (set rs)"
  proof (rule inj_onI)
    fix r q assume "r \<in> set rs" "q \<in> set rs" "?h r = ?h q"
    then show "r = q"
      using assms(2,3) [of r q] assms(3) [of q r] inj by (auto simp: inj_on_def split: if_splits)
  qed
  ultimately have "distinct (map ?h rs)" by (simp add: distinct_map)
  then show ?thesis by (simp add: rows_update_def comp_def)
qed

lemma distinct_map_inj: "distinct (map g rs) \<Longrightarrow> r \<in> set rs \<Longrightarrow> q \<in> set rs \<Longrightarrow> g r = g q \<Longrightarrow> r = q"
  by (auto simp: distinct_map inj_on_def)

text \<open>\<open>List.find\<close> with a key that only one row has.\<close>

lemma find_SomeD: "List.find p xs = Some x \<Longrightarrow> x \<in> set xs \<and> p x"
  by (auto simp: find_Some_iff)

lemma find_NoneD: "List.find p xs = None \<Longrightarrow> x \<in> set xs \<Longrightarrow> \<not> p x"
  by (auto simp: find_None_iff)

lemma find_unique:
  assumes "x \<in> set xs" "p x" "\<And>y. y \<in> set xs \<Longrightarrow> p y \<Longrightarrow> y = x"
  shows "List.find p xs = Some x"
proof (cases "List.find p xs")
  case None
  then show ?thesis using assms(1,2) by (auto simp: find_None_iff)
next
  case (Some y)
  then show ?thesis using assms(3) by (auto dest: find_SomeD)
qed

lemma filter_one_iff:
  assumes "distinct (map g xs)" and "\<And>x. P x \<Longrightarrow> g x = i"
  shows "length (filter P xs) = Suc 0 \<longleftrightarrow> (\<exists>x\<in>set xs. P x)"
  using assms(1)
proof (induction xs)
  case (Cons x xs)
  show ?case
  proof (cases "P x")
    case True
    then have "\<not> P y" if "y \<in> set xs" for y using Cons.prems assms(2) that by force
    then show ?thesis using True by (simp add: filter_False)
  next
    case False
    then show ?thesis using Cons by simp
  qed
qed simp

section \<open>Go integers\<close>

text \<open>
  \<open>int64\<close> values are integers of that range; \<open>wrap64\<close> is the two's complement value a Go
  operation stores when the exact result leaves the range.
\<close>

definition max_int64 :: int where
  "max_int64 = 2 ^ 63 - 1"

definition wrap64 :: "int \<Rightarrow> int" where
  "wrap64 x = (x + 2 ^ 63) mod 2 ^ 64 - 2 ^ 63"

lemma wrap64_id: "- (2 ^ 63) \<le> x \<Longrightarrow> x \<le> max_int64 \<Longrightarrow> wrap64 x = x"
  by (simp add: wrap64_def max_int64_def)

lemma wrap64_overflow: "wrap64 (max_int64 + 1) = - (2 ^ 63)"
  by (simp add: wrap64_def max_int64_def)

end
