(* ===== verification/Paths.thy ===== *)
theory Paths
  imports Prelude "HOL-Library.Sublist"
begin

text \<open>
  Filesystem paths on a build whose \<open>runtime.GOOS\<close> is not Windows: Go's lexical
  \<open>filepath.Clean\<close>, \<open>Join\<close>, \<open>IsAbs\<close> and \<open>Rel\<close>, and the three places of the
  repository that ask whether a path lies under a directory: the scheduler's
  \<open>pathWithin\<close>, the store's \<open>directoryRelative\<close> and the debouncer's
  \<open>pathWithinPrefix\<close>.  \<open>pathKey\<close> is the identity of a path in every table.  The lemmas
  show that cleaning is idempotent and that the three containment tests agree with one
  specification over path components.
\<close>

section \<open>Components\<close>

fun split_slash :: "string \<Rightarrow> string list" where
  "split_slash [] = [[]]"
| "split_slash (c # cs) =
     (if c = CHR ''/'' then [] # split_slash cs
      else (case split_slash cs of [] \<Rightarrow> [[c]] | w # ws \<Rightarrow> (c # w) # ws))"

fun join_slash :: "string list \<Rightarrow> string" where
  "join_slash [] = []"
| "join_slash [w] = w"
| "join_slash (w # v # ws) = w @ CHR ''/'' # join_slash (v # ws)"

abbreviation dotdot :: string where
  "dotdot \<equiv> ''..''"

definition rooted :: "string \<Rightarrow> bool" where
  "rooted p = (case p of [] \<Rightarrow> False | c # _ \<Rightarrow> c = CHR ''/'')"

text \<open>
  \<open>filepath.Clean\<close>: components are read left to right; empty and \<open>.\<close> components are
  dropped, \<open>..\<close> removes the component before it, stays at the front of a relative path and
  vanishes at the front of a rooted one.  The stack is kept in reverse.
\<close>

definition clean_step :: "bool \<Rightarrow> string list \<Rightarrow> string \<Rightarrow> string list" where
  "clean_step r st c =
     (if c = [] \<or> c = ''.'' then st
      else if c = dotdot then
        (case st of
           [] \<Rightarrow> if r then [] else [dotdot]
         | prev # below \<Rightarrow> if prev = dotdot then dotdot # st else below)
      else c # st)"

definition clean_comps :: "string \<Rightarrow> string list" where
  "clean_comps p = rev (foldl (clean_step (rooted p)) [] (split_slash p))"

definition render :: "bool \<Rightarrow> string list \<Rightarrow> string" where
  "render r cs =
     (if r then CHR ''/'' # join_slash cs
      else if cs = [] then ''.'' else join_slash cs)"

definition clean :: "string \<Rightarrow> string" where
  "clean p = render (rooted p) (clean_comps p)"

definition is_abs :: "string \<Rightarrow> bool" where
  "is_abs p = rooted p"

text \<open>\<open>filepath.Join\<close> of two elements: empty elements are ignored, the result is cleaned.\<close>

definition join_path :: "string \<Rightarrow> string \<Rightarrow> string" where
  "join_path a b =
     (if a = [] \<and> b = [] then []
      else if a = [] then clean b
      else if b = [] then clean a
      else clean (a @ CHR ''/'' # b))"

text \<open>
  \<open>filepath.Rel\<close> walks over the components the two clean paths share.  \<open>None\<close> is its error.
\<close>

definition rel_comps :: "string \<Rightarrow> string list" where
  "rel_comps p = (if p = [] then [] else if p = ''/'' then [[]] else split_slash p)"

fun rel_walk :: "string list \<Rightarrow> string list \<Rightarrow> string list option" where
  "rel_walk [] ts = Some ts"
| "rel_walk (b # bs) [] = Some (replicate (length (b # bs)) dotdot)"
| "rel_walk (b # bs) (t # ts) =
     (if b = t then rel_walk bs ts
      else if b = dotdot then None
      else Some (replicate (length (b # bs)) dotdot @ t # ts))"

definition rel_path :: "string \<Rightarrow> string \<Rightarrow> string option" where
  "rel_path basepath targpath =
     (let targ = clean targpath; base0 = clean basepath;
          base = (if base0 = ''.'' then [] else base0)
      in if targ = base0 then Some ''.''
         else if rooted base \<noteq> rooted targ then None
         else map_option join_slash (rel_walk (rel_comps base) (rel_comps targ)))"

section \<open>The repository's path functions\<close>

definition has_prefix :: "string \<Rightarrow> string \<Rightarrow> bool" where
  "has_prefix s p = (take (length p) s = p)"

definition has_suffix_slash :: "string \<Rightarrow> bool" where
  "has_suffix_slash s = (s \<noteq> [] \<and> last s = CHR ''/'')"

definition path_key :: "string \<Rightarrow> string" where
  "path_key p = clean p"

definition path_key_algorithm :: string where
  "path_key_algorithm = ''go-filepath-clean-exact-v1''"

definition nullable_path_key :: "string option \<Rightarrow> string option" where
  "nullable_path_key p = (case p of None \<Rightarrow> None | Some s \<Rightarrow> Some (path_key s))"

text \<open>\<open>scheduler.normalizePath\<close> and \<open>scheduler.pathWithin\<close>.\<close>

definition normalize_path :: "string \<Rightarrow> string" where
  "normalize_path p = clean p"

definition path_within :: "string \<Rightarrow> string \<Rightarrow> bool" where
  "path_within pre p =
     (pre = p \<or>
      has_prefix p (if has_suffix_slash pre then pre else pre @ ''/''))"

text \<open>\<open>store.directoryRelative\<close>: \<open>None\<close> is \<open>("", false)\<close>.\<close>

definition directory_relative :: "string \<Rightarrow> string \<Rightarrow> string option" where
  "directory_relative directory p =
     (let d = clean directory; q = clean p;
          ds = (if has_suffix_slash d then d else d @ ''/'')
      in if d = q then None
         else if \<not> has_prefix q ds then None
         else (case rel_path d q of
             None \<Rightarrow> None
           | Some r \<Rightarrow>
               if r = ''.'' \<or> r = dotdot \<or> is_abs r \<or> has_prefix r (dotdot @ ''/'') then None
               else Some r))"

text \<open>\<open>debounce.pathWithinPrefix\<close>, \<open>debounce.childPrefix\<close>.\<close>

definition path_within_prefix :: "string \<Rightarrow> string \<Rightarrow> bool" where
  "path_within_prefix p pre =
     (if p = [] \<or> pre = [] then False
      else (case rel_path (clean pre) (clean p) of
          None \<Rightarrow> False
        | Some r \<Rightarrow>
            if is_abs r then False
            else if r = ''.'' then True
            else r \<noteq> dotdot \<and> \<not> has_prefix r (dotdot @ ''/'')))"

definition child_prefix :: "string \<Rightarrow> string" where
  "child_prefix p = (let c = clean p in if has_suffix_slash c then c else c @ ''/'')"

section \<open>Splitting and joining\<close>

definition plain :: "string \<Rightarrow> bool" where
  "plain c \<longleftrightarrow> CHR ''/'' \<notin> set c"

lemma split_slash_nonempty [simp]: "split_slash p \<noteq> []"
  by (induction p) (auto split: list.splits)

lemma split_slash_plain: "c \<in> set (split_slash p) \<Longrightarrow> plain c"
  by (induction p arbitrary: c) (auto simp: plain_def split: if_splits list.splits)

lemma join_split_slash [simp]: "join_slash (split_slash p) = p"
proof (induction p)
  case (Cons c cs)
  then show ?case
    by (cases "split_slash cs") (auto, (metis join_slash.simps(2,3) neq_Nil_conv append_Cons)+)
qed simp

lemma split_slash_plain_word: "plain w \<Longrightarrow> split_slash w = [w]"
  by (induction w) (auto simp: plain_def)

lemma split_slash_append: "plain w \<Longrightarrow> split_slash (w @ CHR ''/'' # q) = w # split_slash q"
  by (induction w) (auto simp: plain_def split: list.splits)

lemma split_join_slash: "ws \<noteq> [] \<Longrightarrow> \<forall>w\<in>set ws. plain w \<Longrightarrow> split_slash (join_slash ws) = ws"
  by (induction ws rule: join_slash.induct)
    (auto simp: split_slash_plain_word split_slash_append)


lemma split_slash_sep: "split_slash (a @ CHR ''/'' # b) = split_slash a @ split_slash b"
  by (induction a) (auto split: list.splits)

lemma join_slash_append:
  "xs \<noteq> [] \<Longrightarrow> ys \<noteq> [] \<Longrightarrow> join_slash (xs @ ys) = join_slash xs @ CHR ''/'' # join_slash ys"
proof (induction xs rule: join_slash.induct)
  case (2 w)
  then show ?case by (cases ys) auto
qed auto

lemma join_slash_rooted: "cs \<noteq> [] \<Longrightarrow> CHR ''/'' # join_slash cs = join_slash ([] # cs)"
  by (cases cs) auto

section \<open>Cleaning is idempotent\<close>

text \<open>
  The stacks \<open>clean_step\<close> builds: ordinary names over leading \<open>..\<close> components, and none of
  the latter when the path is rooted.
\<close>

definition ordinary :: "string \<Rightarrow> bool" where
  "ordinary w \<longleftrightarrow> plain w \<and> w \<noteq> [] \<and> w \<noteq> ''.'' \<and> w \<noteq> dotdot"

definition canonical :: "bool \<Rightarrow> string list \<Rightarrow> bool" where
  "canonical r st \<longleftrightarrow>
     (\<exists>names n. st = names @ replicate n dotdot \<and> (r \<longrightarrow> n = 0) \<and> list_all ordinary names)"

lemma canonical_Nil [simp]: "canonical r []"
  by (auto simp: canonical_def)

lemma plain_dotdot [simp]: "plain dotdot"
  by (simp add: plain_def)

lemma canonical_step:
  assumes "canonical r st" and "plain c"
  shows "canonical r (clean_step r st c)"
proof -
  from assms(1) obtain names n where st: "st = names @ replicate n dotdot"
    and n: "r \<longrightarrow> n = 0" and names: "list_all ordinary names"
    by (auto simp: canonical_def)
  consider (skip) "c = [] \<or> c = ''.''" | (up) "c = dotdot" | (name) "ordinary c"
    using assms(2) by (auto simp: ordinary_def)
  then show ?thesis
  proof cases
    case skip
    then show ?thesis using assms(1) by (auto simp: clean_step_def)
  next
    case up
    show ?thesis
    proof (cases names)
      case Nil
      have "clean_step r st dotdot = (if r then [] else replicate (Suc n) dotdot)"
        using st n Nil by (cases n) (auto simp: clean_step_def)
      moreover have "canonical False (replicate (Suc n) dotdot)"
        unfolding canonical_def by (intro exI [of _ "[]"] exI [of _ "Suc n"]) simp
      ultimately show ?thesis using up by (cases r) auto
    next
      case (Cons w ws)
      then have "clean_step r st c = ws @ replicate n dotdot"
        using up st names by (simp add: clean_step_def ordinary_def)
      then show ?thesis using n names Cons by (auto simp: canonical_def)
    qed
  next
    case name
    then have "clean_step r st c = (c # names) @ replicate n dotdot"
      using st by (auto simp: clean_step_def ordinary_def)
    moreover have "list_all ordinary (c # names)" using names name by simp
    ultimately show ?thesis unfolding canonical_def using n by blast
  qed
qed

lemma canonical_fold:
  "canonical r st \<Longrightarrow> list_all plain cs \<Longrightarrow> canonical r (foldl (clean_step r) st cs)"
  by (induction cs arbitrary: st) (auto intro: canonical_step)

lemma canonical_clean_comps: "canonical (rooted p) (rev (clean_comps p))"
proof -
  have "list_all plain (split_slash p)"
    by (auto simp: list_all_iff dest: split_slash_plain)
  then show ?thesis unfolding clean_comps_def by (simp add: canonical_fold)
qed

lemma canonical_tl:
  assumes "canonical r (c # st)"
  shows "canonical r st"
proof -
  from assms obtain names n where *: "c # st = names @ replicate n dotdot"
    "r \<longrightarrow> n = 0" "list_all ordinary names" by (auto simp: canonical_def)
  show ?thesis
  proof (cases names)
    case Nil
    then obtain m where "n = Suc m" "st = replicate m dotdot" using * by (cases n) auto
    then show ?thesis unfolding canonical_def
      using * by (intro exI [of _ "[]"] exI [of _ m]) simp
  next
    case (Cons w ws)
    then show ?thesis using * by (auto simp: canonical_def)
  qed
qed

lemma clean_step_canonical:
  assumes "canonical r (c # st)"
  shows "clean_step r st c = c # st"
proof -
  from assms obtain names n where *: "c # st = names @ replicate n dotdot"
    "r \<longrightarrow> n = 0" "list_all ordinary names" by (auto simp: canonical_def)
  show ?thesis
  proof (cases names)
    case Nil
    then obtain m where "n = Suc m" "st = replicate m dotdot" "c = dotdot" using * by (cases n) auto
    then show ?thesis using * by (cases m) (auto simp: clean_step_def)
  next
    case (Cons w ws)
    then show ?thesis using * by (auto simp: clean_step_def ordinary_def)
  qed
qed

lemma fold_canonical: "canonical r st \<Longrightarrow> foldl (clean_step r) [] (rev st) = st"
proof (induction st)
  case (Cons c st)
  then have "foldl (clean_step r) [] (rev st) = st" by (auto intro: canonical_tl)
  then show ?case using clean_step_canonical [OF Cons.prems] by simp
qed simp

lemma canonical_words:
  assumes "canonical r st" and "w \<in> set st"
  shows "plain w" and "w \<noteq> []" and "w \<noteq> ''.''" and "r \<Longrightarrow> w \<noteq> dotdot"
proof -
  from assms(1) obtain names n where *: "st = names @ replicate n dotdot"
    "r \<longrightarrow> n = 0" "list_all ordinary names" by (auto simp: canonical_def)
  then consider (name) "ordinary w" | (up) "w = dotdot" "\<not> r"
    using assms(2) by (cases r) (auto simp: list_all_iff)
  then have "plain w \<and> w \<noteq> [] \<and> w \<noteq> ''.'' \<and> (r \<longrightarrow> w \<noteq> dotdot)"
    by cases (simp_all add: ordinary_def)
  then show "plain w" "w \<noteq> []" "w \<noteq> ''.''" "r \<Longrightarrow> w \<noteq> dotdot" by simp_all
qed

lemma rooted_render: "canonical r (rev cs) \<Longrightarrow> rooted (render r cs) = r"
proof (cases cs)
  case (Cons w ws)
  assume "canonical r (rev cs)"
  then have "plain w" "w \<noteq> []" using Cons canonical_words [of r "rev cs" w] by auto
  then obtain a u where "w = a # u" "a \<noteq> CHR ''/''" by (cases w) (auto simp: plain_def)
  then show ?thesis using Cons by (cases ws) (auto simp: rooted_def render_def)
qed (auto simp: rooted_def render_def)

lemma split_render:
  assumes "canonical r (rev cs)" and "cs \<noteq> []"
  shows "split_slash (render r cs) = (if r then [] # cs else cs)"
proof -
  have "\<forall>w\<in>set cs. plain w" using assms(1) canonical_words(1) by fastforce
  then show ?thesis using assms(2) by (simp add: render_def split_join_slash)
qed

lemma clean_comps_render:
  assumes "canonical r (rev cs)"
  shows "clean_comps (render r cs) = cs"
proof (cases "cs = []")
  case True
  then show ?thesis by (auto simp: clean_comps_def render_def rooted_def clean_step_def)
next
  case False
  have "foldl (clean_step r) [] cs = rev cs" using fold_canonical [OF assms] by simp
  moreover have "clean_step r [] [] = []" by (simp add: clean_step_def)
  ultimately show ?thesis
    unfolding clean_comps_def rooted_render [OF assms] split_render [OF assms False]
    by (cases r) simp_all
qed

lemma rooted_clean [simp]: "rooted (clean p) = rooted p"
  by (simp add: clean_def rooted_render canonical_clean_comps)

lemma clean_comps_clean [simp]: "clean_comps (clean p) = clean_comps p"
  by (simp add: clean_def clean_comps_render canonical_clean_comps)

lemma clean_idem [simp]: "clean (clean p) = clean p"
proof -
  have "clean (clean p) = render (rooted (clean p)) (clean_comps (clean p))" by (rule clean_def)
  also have "\<dots> = clean p" by (simp add: clean_def [of p, symmetric])
  finally show ?thesis .
qed

lemma clean_nonempty [simp]: "clean p \<noteq> []"
proof (cases "clean_comps p")
  case (Cons w ws)
  then have "w \<noteq> []" using canonical_words(2) [OF canonical_clean_comps, of w p] by simp
  then show ?thesis using Cons by (cases ws) (auto simp: clean_def render_def)
qed (simp add: clean_def render_def)

lemma clean_eq_iff: "clean p = clean q \<longleftrightarrow> rooted p = rooted q \<and> clean_comps p = clean_comps q"
proof
  assume "clean p = clean q"
  from arg_cong [OF this, of rooted] arg_cong [OF this, of clean_comps]
  show "rooted p = rooted q \<and> clean_comps p = clean_comps q" by simp
qed (simp add: clean_def)

lemma path_key_nonempty [simp]: "path_key p \<noteq> []"
  by (simp add: path_key_def)

lemma path_key_idem [simp]: "path_key (path_key p) = path_key p"
  by (simp add: path_key_def)

section \<open>Containment\<close>

text \<open>
  The specification: the components of the directory are a prefix of those of the path.  It is
  stated for rooted directories, the only ones the node watches.
\<close>

definition under :: "string \<Rightarrow> string \<Rightarrow> bool" where
  "under d p \<longleftrightarrow> rooted p \<and> prefix (clean_comps d) (clean_comps p)"

lemma has_prefix_iff: "has_prefix s p \<longleftrightarrow> prefix p s"
  by (auto simp: has_prefix_def prefix_def) (metis append_take_drop_id)

lemma comps_ordinary: "rooted p \<Longrightarrow> w \<in> set (clean_comps p) \<Longrightarrow> ordinary w"
  using canonical_words [OF canonical_clean_comps, of w p] by (simp add: ordinary_def)

lemma comps_plain: "w \<in> set (clean_comps p) \<Longrightarrow> plain w"
  using canonical_words(1) [OF canonical_clean_comps, of w p] by simp

lemma clean_rooted: "rooted p \<Longrightarrow> clean p = CHR ''/'' # join_slash (clean_comps p)"
  by (simp add: clean_def render_def)

lemma clean_rooted_join:
  "rooted p \<Longrightarrow> clean_comps p \<noteq> [] \<Longrightarrow> clean p = join_slash ([] # clean_comps p)"
  by (simp add: clean_rooted join_slash_rooted)

lemma split_clean:
  "rooted p \<Longrightarrow> clean_comps p \<noteq> [] \<Longrightarrow> split_slash (clean p) = [] # clean_comps p"
  using comps_plain by (simp add: clean_rooted_join split_join_slash plain_def)

lemma last_join_slash: "ws \<noteq> [] \<Longrightarrow> last ws \<noteq> [] \<Longrightarrow> join_slash ws \<noteq> [] \<and> last (join_slash ws) = last (last ws)"
  by (induction ws rule: join_slash.induct) auto

lemma clean_no_trailing_slash:
  assumes "rooted p" and "clean_comps p \<noteq> []"
  shows "\<not> has_suffix_slash (clean p)"
proof -
  let ?w = "last (clean_comps p)"
  have w: "ordinary ?w" using assms comps_ordinary by simp
  then have "last (clean p) = last ?w"
    using assms last_join_slash [of "[] # clean_comps p"]
    by (simp add: clean_rooted_join ordinary_def)
  moreover have "last ?w \<noteq> CHR ''/''"
  proof -
    have "last ?w \<in> set ?w" using w by (simp add: ordinary_def)
    then show ?thesis using w by (metis ordinary_def plain_def)
  qed
  ultimately show ?thesis by (simp add: has_suffix_slash_def)
qed

lemma clean_root: "rooted p \<Longrightarrow> clean_comps p = [] \<Longrightarrow> clean p = ''/''"
  by (simp add: clean_rooted)

lemma has_prefix_root: "has_prefix p ''/'' \<longleftrightarrow> rooted p"
  by (cases p) (auto simp: has_prefix_def rooted_def)

lemma clean_extends_iff:
  assumes d: "rooted d" and ds: "clean_comps d \<noteq> []"
  shows "has_prefix (clean p) (clean d @ ''/'') \<longleftrightarrow>
    rooted p \<and> strict_prefix (clean_comps d) (clean_comps p)"
proof
  assume "has_prefix (clean p) (clean d @ ''/'')"
  then obtain q where q: "clean p = clean d @ CHR ''/'' # q"
    by (auto simp: has_prefix_iff prefix_def)
  have "rooted (clean p)" using d unfolding q by (simp add: clean_rooted rooted_def)
  then have r: "rooted p" by simp
  have split: "split_slash (clean p) = ([] # clean_comps d) @ split_slash q"
    unfolding q by (simp add: split_slash_sep split_clean d ds)
  have ps: "clean_comps p \<noteq> []"
  proof
    assume "clean_comps p = []"
    then have "clean p = ''/''" using r by (rule clean_root [rotated])
    then have "length (split_slash (clean p)) = 2" by simp
    with split ds show False by (cases "clean_comps d"; cases "split_slash q") auto
  qed
  then have "clean_comps p = clean_comps d @ split_slash q"
    using split by (simp add: split_clean r)
  then show "rooted p \<and> strict_prefix (clean_comps d) (clean_comps p)"
    using r by (auto simp: strict_prefix_def)
next
  assume *: "rooted p \<and> strict_prefix (clean_comps d) (clean_comps p)"
  then obtain e where e: "clean_comps p = clean_comps d @ e" "e \<noteq> []"
    by (auto simp: strict_prefix_def prefix_def)
  then have "clean p = join_slash (([] # clean_comps d) @ e)"
    using * clean_rooted_join [of p] by simp
  also have "\<dots> = clean d @ CHR ''/'' # join_slash e"
    using e(2) by (subst join_slash_append) (simp_all add: clean_rooted_join d ds)
  finally show "has_prefix (clean p) (clean d @ ''/'')"
    by (simp add: has_prefix_iff prefix_def)
qed

lemma path_within_under:
  assumes "rooted d"
  shows "path_within (clean d) (clean p) \<longleftrightarrow> under d p"
proof (cases "clean_comps d = []")
  case True
  then have root: "clean d = ''/''" using assms by (simp add: clean_root)
  then have "path_within (clean d) (clean p) \<longleftrightarrow> ''/'' = clean p \<or> rooted (clean p)"
    by (simp add: path_within_def has_suffix_slash_def has_prefix_root)
  moreover have "''/'' = clean p \<Longrightarrow> rooted (clean p)" by (erule subst) (simp add: rooted_def)
  ultimately show ?thesis using True by (auto simp: under_def)
next
  case False
  have "path_within (clean d) (clean p) \<longleftrightarrow>
      clean d = clean p \<or> (rooted p \<and> strict_prefix (clean_comps d) (clean_comps p))"
    using clean_no_trailing_slash [OF assms False] clean_extends_iff [OF assms False]
    by (simp add: path_within_def)
  then show ?thesis
    using assms by (auto simp: clean_eq_iff under_def strict_prefix_def)
qed

lemma rel_walk_prefix: "rel_walk bs (bs @ e) = Some e"
  by (induction bs) auto

lemma rel_walk_diverging:
  "dotdot \<notin> set bs \<Longrightarrow> \<not> prefix bs ts \<Longrightarrow>
     \<exists>n rest. rel_walk bs ts = Some (replicate (Suc n) dotdot @ rest)"
proof (induction bs ts rule: rel_walk.induct)
  case (2 b bs)
  then show ?case by (intro exI [of _ "length bs"] exI [of _ "[]"]) simp
next
  case (3 b bs t ts)
  then show ?case
    by (cases "b = t") (auto intro!: exI [of _ "length bs"])
qed simp

lemma rel_comps_clean: "rooted p \<Longrightarrow> rel_comps (clean p) = [] # clean_comps p"
proof (cases "clean_comps p = []")
  case False
  assume "rooted p"
  have "clean_comps ''/'' = []" by (simp add: clean_comps_def clean_step_def)
  then have "clean p \<noteq> ''/''" using False by (metis clean_comps_clean)
  then show ?thesis using False \<open>rooted p\<close> by (simp add: rel_comps_def split_clean)
qed (simp add: clean_root rel_comps_def)

lemma rel_path_rooted:
  assumes "rooted d" and "rooted p" and "clean p \<noteq> clean d"
  shows "rel_path d p = map_option join_slash (rel_walk (clean_comps d) (clean_comps p))"
proof -
  have "clean d \<noteq> ''.''" using assms(1) by (simp add: clean_rooted)
  then show ?thesis using assms
    by (simp add: rel_path_def rel_comps_clean)
qed

lemma join_ordinary:
  assumes "e \<noteq> []" and "\<forall>w\<in>set e. ordinary w"
  shows "join_slash e \<noteq> ''.''" and "join_slash e \<noteq> dotdot" and "\<not> rooted (join_slash e)"
    and "\<not> has_prefix (join_slash e) (dotdot @ ''/'')"
proof -
  have sp: "split_slash (join_slash e) = e"
    using assms by (intro split_join_slash) (auto simp: ordinary_def)
  have word: "join_slash e \<noteq> w" if "plain w" "\<not> ordinary w" for w
  proof
    assume "join_slash e = w"
    then have "e = [w]" using sp split_slash_plain_word [OF that(1)] by simp
    then show False using assms(2) that(2) by simp
  qed
  show "join_slash e \<noteq> ''.''" by (rule word) (simp_all add: plain_def ordinary_def)
  show "join_slash e \<noteq> dotdot" by (rule word) (simp_all add: ordinary_def)
  show "\<not> rooted (join_slash e)"
  proof
    assume "rooted (join_slash e)"
    then obtain u where "join_slash e = CHR ''/'' # u"
      by (cases "join_slash e") (auto simp: rooted_def)
    then have "[] \<in> set e" using sp by (metis list.set_intros(1) split_slash.simps(2))
    then show False using assms(2) by (auto simp: ordinary_def)
  qed
  show "\<not> has_prefix (join_slash e) (dotdot @ ''/'')"
  proof
    assume "has_prefix (join_slash e) (dotdot @ ''/'')"
    then obtain u where "join_slash e = dotdot @ CHR ''/'' # u"
      by (auto simp: has_prefix_iff prefix_def)
    then have "e = dotdot # split_slash u" using sp split_slash_append [of dotdot u] by simp
    then show False using assms(2) by (auto simp: ordinary_def)
  qed
qed

lemma directory_relative_spec:
  assumes d: "rooted d"
  shows "directory_relative d p =
    (if rooted p \<and> strict_prefix (clean_comps d) (clean_comps p)
     then Some (join_slash (drop (length (clean_comps d)) (clean_comps p))) else None)"
proof (cases "rooted p \<and> strict_prefix (clean_comps d) (clean_comps p)")
  case True
  then obtain e where e: "clean_comps p = clean_comps d @ e" "e \<noteq> []"
    by (auto simp: strict_prefix_def prefix_def)
  have ord: "\<forall>w\<in>set e. ordinary w" using comps_ordinary True e by auto
  have ne: "clean p \<noteq> clean d" using True e by (simp add: clean_eq_iff)
  have "rel_path (clean d) (clean p) = Some (join_slash e)"
    using rel_path_rooted [of "clean d" "clean p"] d True ne e by (simp add: rel_walk_prefix)
  moreover have "has_prefix (clean p)
      (if has_suffix_slash (clean d) then clean d else clean d @ ''/'')"
  proof (cases "clean_comps d = []")
    case root: True
    then show ?thesis using d True by (simp add: clean_root has_suffix_slash_def has_prefix_root)
  next
    case False
    then show ?thesis
      using clean_extends_iff [OF d False, of p] clean_no_trailing_slash [OF d False] True by simp
  qed
  ultimately show ?thesis
    using True e ne join_ordinary [OF e(2) ord] by (auto simp: directory_relative_def is_abs_def)
next
  case False
  have "\<not> has_prefix (clean p) (if has_suffix_slash (clean d) then clean d else clean d @ ''/'')"
    if ne: "clean p \<noteq> clean d"
  proof (cases "clean_comps d = []")
    case True
    then have "\<not> rooted p" using False ne d by (auto simp: clean_eq_iff strict_prefix_def)
    then show ?thesis using True d by (simp add: clean_root has_suffix_slash_def has_prefix_root)
  next
    case ds: False
    then show ?thesis
      using clean_extends_iff [OF d ds, of p] clean_no_trailing_slash [OF d ds] False by simp
  qed
  then show ?thesis using False
    unfolding directory_relative_def Let_def by (cases "clean p = clean d") auto
qed

lemma path_within_prefix_under:
  assumes d: "rooted d"
  shows "path_within_prefix p d \<longleftrightarrow> under d p"
proof (cases "rooted p")
  case r: True
  have ne: "p \<noteq> []" "d \<noteq> []" using r d by (auto simp: rooted_def)
  show ?thesis
  proof (cases "clean p = clean d")
    case True
    then have "rel_path (clean d) (clean p) = Some ''.''" by (simp add: rel_path_def)
    moreover have "under d p" using True r by (simp add: under_def clean_eq_iff)
    ultimately show ?thesis using ne by (simp add: path_within_prefix_def is_abs_def rooted_def)
  next
    case neq: False
    have rel: "rel_path (clean d) (clean p) =
        map_option join_slash (rel_walk (clean_comps d) (clean_comps p))"
      using rel_path_rooted [of "clean d" "clean p"] d r neq by simp
    show ?thesis
    proof (cases "prefix (clean_comps d) (clean_comps p)")
      case True
      then obtain e where e: "clean_comps p = clean_comps d @ e" by (auto simp: prefix_def)
      have e2: "e \<noteq> []" using neq e r d by (auto simp: clean_eq_iff)
      have ord: "\<forall>w\<in>set e. ordinary w" using comps_ordinary r e by auto
      show ?thesis
        using rel e True r ne join_ordinary [OF e2 ord]
        by (simp add: path_within_prefix_def under_def rel_walk_prefix is_abs_def)
    next
      case False
      have "dotdot \<notin> set (clean_comps d)" using comps_ordinary [OF d] by (auto simp: ordinary_def)
      then obtain n rest where
        w: "rel_walk (clean_comps d) (clean_comps p) = Some (replicate (Suc n) dotdot @ rest)"
        using rel_walk_diverging False by blast
      have "join_slash (dotdot # vs) = dotdot \<or> has_prefix (join_slash (dotdot # vs)) (dotdot @ ''/'')"
        for vs by (cases vs) (auto simp: has_prefix_def)
      moreover have "join_slash (dotdot # vs) \<noteq> ''.''" for vs by (cases vs) auto
      ultimately have "\<not> path_within_prefix p d" using rel w by (auto simp: path_within_prefix_def)
      then show ?thesis using False by (simp add: under_def)
    qed
  qed
next
  case False
  have "clean d \<noteq> ''.''" using d by (simp add: clean_rooted)
  moreover have "clean p \<noteq> clean d" using False d by (auto simp: clean_eq_iff)
  ultimately have "rel_path (clean d) (clean p) = None" using d False by (simp add: rel_path_def)
  then show ?thesis using False by (simp add: path_within_prefix_def under_def)
qed

end
