(* ===== verification/Store_Model.thy ===== *)
theory Store_Model
  imports Paths
begin

text \<open>
  The durable data of the node (\<open>internal/store/models.go\<close> and the schema under
  \<open>internal/store/migrations\<close>): catalog rows, queue rows, dead letters and the audit outbox,
  with the SQL statements the store issues on them as table operations inside a transaction.

  The two unique indexes that matter, \<open>files(path_key)\<close> and \<open>tasks(path_key, state)\<close>, are
  checked by every write: a write that would break one fails with \<open>ErrConstraint\<close>.  The
  lemmas of the operations show that this error never leaves a well-formed database, so the
  weaker conflict clause of \<open>UNIQUE(path, state) ON CONFLICT IGNORE\<close> is never reached.
\<close>

section \<open>Rows\<close>

datatype file_kind =
  FileKindText | FileKindImage | FileKindVideo | FileKindOther | FileKindInvalid string

datatype file_status =
  FileStatusIndexed | FileStatusPending | FileStatusFailed | FileStatusDeleted
| FileStatusEmpty | FileStatusInvalid string

datatype task_op = TaskOpUpsert | TaskOpRemove | TaskOpRelocate | TaskOpInvalid string

datatype task_state =
  TaskStatePending | TaskStateInFlight | TaskStateRetryWait | TaskStateWaitingDep
| TaskStateDone | TaskStateDead

record catalog_file =
  f_id :: int
  f_path :: string
  f_path_key :: string
  f_size :: int
  f_mtime_ns :: int
  f_inode :: "int option"
  f_sample_hash :: "int list"
  f_kind :: file_kind
  f_generation :: int
  f_status :: file_status
  f_extractor_version :: "string option"
  f_embed_model_version :: "string option"
  f_indexed_at_ms :: "int option"

text \<open>
  The JSON arrays \<open>attempts_log\<close> and \<open>error_chain\<close>: the entries the store itself appends and
  raw values supplied by callers.
\<close>

datatype history_entry =
  AttemptEntry int int string string  \<comment> \<open>attempt, at_ms, class, error\<close>
| ErrorEntry string string            \<comment> \<open>type, message\<close>
| RawEntry string

datatype last_error = ErrText string | ErrHistory "history_entry list"

record task =
  t_id :: int
  t_file_id :: "int option"
  t_path :: string
  t_path_key :: string
  t_op :: task_op
  t_old_path :: "string option"
  t_old_path_key :: "string option"
  t_generation :: int
  t_state :: task_state
  t_priority :: int
  t_attempts :: int
  t_crash_count :: int
  t_next_attempt_at :: int
  t_last_error :: "last_error option"
  t_created_at :: int
  t_updated_at :: int
  t_charge :: int
  t_attempts_log :: "history_entry list"
  t_error_chain :: "history_entry list"

text \<open>\<open>FailureAttempts\<close>: the executions consumed if the current lease ends in a failure.\<close>

definition failure_attempts :: "task \<Rightarrow> int" where
  "failure_attempts t = (if t_charge t = 0 then t_attempts t + 1 else t_attempts t)"

text \<open>A failure history as text: empty, a JSON array, another JSON value, or not JSON.\<close>

datatype history_text =
  HistEmpty | HistArray "history_entry list" | HistOther | HistMalformed

record dead_letter =
  d_file_id :: int
  d_path :: string
  d_generation :: int
  d_stage :: string
  d_error_class :: string
  d_error_chain :: history_text
  d_attempts_log :: history_text
  d_extractor_version :: "string option"
  d_embed_model_version :: "string option"
  d_created_at :: int
  d_updated_at :: int

record audit_details =
  ad_stage :: string
  ad_error_class :: string
  ad_error_chain :: "history_entry list"
  ad_attempts_log :: "history_entry list"
  ad_extractor_version :: "string option"
  ad_embed_model_version :: "string option"
  ad_dead_generation :: int

record audit_entry =
  au_id :: int
  au_action :: string
  au_source :: string
  au_task_id :: int
  au_file_id :: int
  au_generation :: int
  au_target :: string
  au_details :: audit_details
  au_created_at :: int

text \<open>
  \<open>db_audit_seq\<close> is the \<open>AUTOINCREMENT\<close> counter of \<open>audit_outbox\<close>: unlike the row
  identifiers of the other tables, an outbox identifier is never used twice.
\<close>

record db =
  db_files :: "catalog_file list"
  db_tasks :: "task list"
  db_dead :: "dead_letter list"
  db_audit :: "audit_entry list"
  db_audit_seq :: int
  db_meta :: "string \<Rightarrow> string option"

datatype store_error =
  ErrNotFound | ErrInvalidTransition | ErrStaleGeneration | ErrTaskMismatch | ErrPathOwnership
| ErrPathKeyCollision | ErrClosed | ErrInvalidDirectoryTask | ErrAmbiguousFileIdentity
| ErrInvalidArgument string  \<comment> \<open>the other \<open>errors.New\<close> values\<close>
| ErrGenerationExhausted     \<comment> \<open>the generation does not fit in \<open>int64\<close>\<close>
| ErrHistory_Invalid         \<comment> \<open>\<open>mergeFailureHistory\<close>\<close>
| ErrConstraint              \<comment> \<open>a unique index would be violated\<close>

type_synonym 'a stx = "(store_error, db, 'a) tx"

section \<open>Statements\<close>

definition t_slot :: "task \<Rightarrow> string \<times> task_state" where
  "t_slot t = (t_path_key t, t_state t)"

definition put_tasks :: "task list \<Rightarrow> unit stx" where
  "put_tasks ts = (\<lambda>db.
     if distinct (map t_slot ts) then Inr ((), db\<lparr>db_tasks := ts\<rparr>) else Inl ErrConstraint)"

definition put_files :: "catalog_file list \<Rightarrow> unit stx" where
  "put_files fs = (\<lambda>db.
     if distinct (map f_path_key fs) then Inr ((), db\<lparr>db_files := fs\<rparr>) else Inl ErrConstraint)"

text \<open>\<open>UPDATE tasks SET \<dots> WHERE \<dots>\<close>, returning the number of rows that matched.\<close>

definition update_tasks :: "(task \<Rightarrow> bool) \<Rightarrow> (task \<Rightarrow> task) \<Rightarrow> nat stx" where
  "update_tasks p f =
     tx_bind (tx_read db_tasks) (\<lambda>ts.
     tx_bind (put_tasks (rows_update p f ts)) (\<lambda>_.
     tx_return (length (filter p ts))))"

definition update_files :: "(catalog_file \<Rightarrow> bool) \<Rightarrow> (catalog_file \<Rightarrow> catalog_file) \<Rightarrow> nat stx" where
  "update_files p f =
     tx_bind (tx_read db_files) (\<lambda>fs.
     tx_bind (put_files (rows_update p f fs)) (\<lambda>_.
     tx_return (length (filter p fs))))"

definition delete_tasks :: "(task \<Rightarrow> bool) \<Rightarrow> unit stx" where
  "delete_tasks p = tx_modify (\<lambda>db. db\<lparr>db_tasks := rows_delete p (db_tasks db)\<rparr>)"

definition insert_task :: "task \<Rightarrow> task stx" where
  "insert_task t =
     tx_bind (tx_read db_tasks) (\<lambda>ts.
     let row = t\<lparr>t_id := next_rowid (map t_id ts)\<rparr> in
     tx_bind (put_tasks (ts @ [row])) (\<lambda>_. tx_return row))"

definition insert_file :: "catalog_file \<Rightarrow> catalog_file stx" where
  "insert_file f =
     tx_bind (tx_read db_files) (\<lambda>fs.
     let row = f\<lparr>f_id := next_rowid (map f_id fs)\<rparr> in
     tx_bind (put_files (fs @ [row])) (\<lambda>_. tx_return row))"

definition find_task :: "(task \<Rightarrow> bool) \<Rightarrow> task option stx" where
  "find_task p = tx_read (\<lambda>db. List.find p (db_tasks db))"

definition find_file :: "(catalog_file \<Rightarrow> bool) \<Rightarrow> catalog_file option stx" where
  "find_file p = tx_read (\<lambda>db. List.find p (db_files db))"

definition find_dead :: "(dead_letter \<Rightarrow> bool) \<Rightarrow> dead_letter option stx" where
  "find_dead p = tx_read (\<lambda>db. List.find p (db_dead db))"

definition delete_dead :: "(dead_letter \<Rightarrow> bool) \<Rightarrow> nat stx" where
  "delete_dead p =
     tx_bind (tx_read (\<lambda>db. length (filter p (db_dead db)))) (\<lambda>n.
     tx_bind (tx_modify (\<lambda>db. db\<lparr>db_dead := rows_delete p (db_dead db)\<rparr>)) (\<lambda>_.
     tx_return n))"

text \<open>\<open>SELECT \<dots> ORDER BY \<dots>\<close>: a stable sort by the ordering columns.\<close>

definition order_by :: "('r \<Rightarrow> 'k::linorder) \<Rightarrow> 'r list \<Rightarrow> 'r list" where
  "order_by k rs = sort_key k rs"

text \<open>\<open>requireChanged\<close>, and the \<open>changed == 0\<close> tests of the catalog.\<close>

definition require_changed :: "nat \<Rightarrow> unit stx" where
  "require_changed n = tx_check (n \<noteq> 0) ErrInvalidTransition"

definition require_current :: "nat \<Rightarrow> unit stx" where
  "require_current n = tx_check (n \<noteq> 0) ErrStaleGeneration"

section \<open>Well-formed databases\<close>

definition max_task_failure_history :: nat where
  "max_task_failure_history = 32"

definition op_ok :: "task_op \<Rightarrow> string option \<Rightarrow> bool" where
  "op_ok op old = (case op of
     TaskOpUpsert \<Rightarrow> old = None
   | TaskOpRemove \<Rightarrow> old = None
   | TaskOpRelocate \<Rightarrow> (case old of None \<Rightarrow> False | Some p \<Rightarrow> p \<noteq> [])
   | TaskOpInvalid _ \<Rightarrow> False)"

text \<open>
  The \<open>CHECK\<close> constraints of \<open>tasks\<close>, the agreement of paths with their keys, and the account of
  attempts: a row in flight has been charged what its claim costs; and its histories are capped.
\<close>

definition task_ok :: "task \<Rightarrow> bool" where
  "task_ok t \<longleftrightarrow>
     t_path t \<noteq> [] \<and> t_path_key t = path_key (t_path t) \<and>
     t_old_path_key t = nullable_path_key (t_old_path t) \<and>
     op_ok (t_op t) (t_old_path t) \<and> 1 \<le> t_generation t \<and> 0 \<le> t_priority t \<and>
     0 \<le> t_attempts t \<and> 0 \<le> t_crash_count t \<and> t_charge t \<in> {0, 1} \<and>
     (t_state t = TaskStateInFlight \<longrightarrow> t_charge t \<le> t_attempts t) \<and>
     length (t_attempts_log t) \<le> max_task_failure_history \<and>
     length (t_error_chain t) \<le> max_task_failure_history"

definition kind_ok :: "file_kind \<Rightarrow> bool" where
  "kind_ok k = (case k of FileKindInvalid _ \<Rightarrow> False | _ \<Rightarrow> True)"

definition status_ok :: "file_status \<Rightarrow> bool" where
  "status_ok st = (case st of FileStatusInvalid _ \<Rightarrow> False | FileStatusEmpty \<Rightarrow> False | _ \<Rightarrow> True)"

definition file_ok :: "catalog_file \<Rightarrow> bool" where
  "file_ok f \<longleftrightarrow>
     f_path_key f = path_key (f_path f) \<and> 0 \<le> f_size f \<and>
     kind_ok (f_kind f) \<and> 1 \<le> f_generation f \<and> status_ok (f_status f)"

definition dead_ok :: "dead_letter \<Rightarrow> bool" where
  "dead_ok d \<longleftrightarrow>
     0 < d_file_id d \<and> d_path d \<noteq> [] \<and> 1 \<le> d_generation d \<and> d_stage d \<noteq> [] \<and>
     d_error_class d \<noteq> [] \<and>
     (\<exists>h. d_error_chain d = HistArray h \<and> length h \<le> max_task_failure_history) \<and>
     (\<exists>h. d_attempts_log d = HistArray h \<and> length h \<le> max_task_failure_history)"

definition audit_ok :: "audit_entry \<Rightarrow> bool" where
  "audit_ok a \<longleftrightarrow>
     0 < au_task_id a \<and> 0 < au_file_id a \<and> 1 \<le> au_generation a \<and> au_target a \<noteq> [] \<and>
     au_source a \<noteq> []"

definition tasks_wf :: "task list \<Rightarrow> bool" where
  "tasks_wf ts \<longleftrightarrow>
     distinct (map t_id ts) \<and> distinct (map t_slot ts) \<and> (\<forall>t\<in>set ts. 0 < t_id t \<and> task_ok t)"

definition files_wf :: "catalog_file list \<Rightarrow> bool" where
  "files_wf fs \<longleftrightarrow>
     distinct (map f_id fs) \<and> distinct (map f_path_key fs) \<and> (\<forall>f\<in>set fs. 0 < f_id f \<and> file_ok f)"

definition dead_wf :: "dead_letter list \<Rightarrow> bool" where
  "dead_wf ds \<longleftrightarrow> distinct (map d_file_id ds) \<and> (\<forall>d\<in>set ds. dead_ok d)"

definition audit_wf :: "audit_entry list \<Rightarrow> int \<Rightarrow> bool" where
  "audit_wf as n \<longleftrightarrow>
     0 \<le> n \<and> sorted_wrt (<) (map au_id as) \<and> (\<forall>a\<in>set as. 0 < au_id a \<and> au_id a \<le> n \<and> audit_ok a)"

definition db_wf :: "db \<Rightarrow> bool" where
  "db_wf db \<longleftrightarrow>
     tasks_wf (db_tasks db) \<and> files_wf (db_files db) \<and> dead_wf (db_dead db) \<and>
     audit_wf (db_audit db) (db_audit_seq db)"

definition empty_db :: db where
  "empty_db = \<lparr>db_files = [], db_tasks = [], db_dead = [], db_audit = [], db_audit_seq = 0,
     db_meta = (\<lambda>k. if k = ''clean_shutdown'' then Some ''true''
                    else if k = ''schema_version'' then Some ''6'' else None)\<rparr>"

lemma empty_db_wf: "db_wf empty_db"
  by (simp add: db_wf_def empty_db_def tasks_wf_def files_wf_def dead_wf_def audit_wf_def)

lemmas wf_defs = db_wf_def tasks_wf_def files_wf_def dead_wf_def audit_wf_def

section \<open>Weakest preconditions of the statements\<close>

lemma wp_put_tasks [wp_simps]:
  "wp (put_tasks ts) Q E db =
     (if distinct (map t_slot ts) then Q () (db\<lparr>db_tasks := ts\<rparr>) else E ErrConstraint)"
  by (simp add: wp_def put_tasks_def)

lemma wp_put_files [wp_simps]:
  "wp (put_files fs) Q E db =
     (if distinct (map f_path_key fs) then Q () (db\<lparr>db_files := fs\<rparr>) else E ErrConstraint)"
  by (simp add: wp_def put_files_def)

lemma wp_update_tasks [wp_simps]:
  "wp (update_tasks p f) Q E db =
     (if distinct (map t_slot (rows_update p f (db_tasks db)))
      then Q (length (filter p (db_tasks db))) (db\<lparr>db_tasks := rows_update p f (db_tasks db)\<rparr>)
      else E ErrConstraint)"
  by (simp add: update_tasks_def wp_simps)

lemma wp_update_files [wp_simps]:
  "wp (update_files p f) Q E db =
     (if distinct (map f_path_key (rows_update p f (db_files db)))
      then Q (length (filter p (db_files db))) (db\<lparr>db_files := rows_update p f (db_files db)\<rparr>)
      else E ErrConstraint)"
  by (simp add: update_files_def wp_simps)

lemma wp_delete_tasks [wp_simps]:
  "wp (delete_tasks p) Q E db = Q () (db\<lparr>db_tasks := rows_delete p (db_tasks db)\<rparr>)"
  by (simp add: delete_tasks_def wp_simps)

lemma wp_insert_task [wp_simps]:
  "wp (insert_task t) Q E db =
     (let row = t\<lparr>t_id := next_rowid (map t_id (db_tasks db))\<rparr>; ts = db_tasks db @ [row]
      in if distinct (map t_slot ts) then Q row (db\<lparr>db_tasks := ts\<rparr>) else E ErrConstraint)"
  by (simp add: insert_task_def wp_simps Let_def)

lemma wp_insert_file [wp_simps]:
  "wp (insert_file f) Q E db =
     (let row = f\<lparr>f_id := next_rowid (map f_id (db_files db))\<rparr>; fs = db_files db @ [row]
      in if distinct (map f_path_key fs) then Q row (db\<lparr>db_files := fs\<rparr>) else E ErrConstraint)"
  by (simp add: insert_file_def wp_simps Let_def)

lemma wp_find_task [wp_simps]: "wp (find_task p) Q E db = Q (List.find p (db_tasks db)) db"
  by (simp add: find_task_def wp_simps)

lemma wp_find_file [wp_simps]: "wp (find_file p) Q E db = Q (List.find p (db_files db)) db"
  by (simp add: find_file_def wp_simps)

lemma wp_find_dead [wp_simps]: "wp (find_dead p) Q E db = Q (List.find p (db_dead db)) db"
  by (simp add: find_dead_def wp_simps)

lemma wp_delete_dead [wp_simps]:
  "wp (delete_dead p) Q E db =
     Q (length (filter p (db_dead db))) (db\<lparr>db_dead := rows_delete p (db_dead db)\<rparr>)"
  by (simp add: delete_dead_def wp_simps)

lemma wp_require_changed [wp_simps]:
  "wp (require_changed n) Q E db = (if n \<noteq> 0 then Q () db else E ErrInvalidTransition)"
  by (simp add: require_changed_def wp_simps)

lemma wp_require_current [wp_simps]:
  "wp (require_current n) Q E db = (if n \<noteq> 0 then Q () db else E ErrStaleGeneration)"
  by (simp add: require_current_def wp_simps)

section \<open>Tables stay well-formed\<close>

lemma tasks_wfD:
  assumes "tasks_wf ts" and "t \<in> set ts"
  shows "0 < t_id t" and "task_ok t" and "t_path_key t = path_key (t_path t)"
  using assms by (auto simp: tasks_wf_def task_ok_def)

lemma files_wfD:
  assumes "files_wf fs" and "f \<in> set fs"
  shows "0 < f_id f" and "file_ok f" and "f_path_key f = path_key (f_path f)"
  using assms by (auto simp: files_wf_def file_ok_def)

lemma tasks_wf_id: "tasks_wf ts \<Longrightarrow> t \<in> set ts \<Longrightarrow> u \<in> set ts \<Longrightarrow> t_id t = t_id u \<Longrightarrow> t = u"
  by (auto simp: tasks_wf_def dest: distinct_map_inj)

lemma tasks_wf_slot: "tasks_wf ts \<Longrightarrow> t \<in> set ts \<Longrightarrow> u \<in> set ts \<Longrightarrow> t_slot t = t_slot u \<Longrightarrow> t = u"
  by (auto simp: tasks_wf_def dest: distinct_map_inj)

lemma files_wf_id: "files_wf fs \<Longrightarrow> f \<in> set fs \<Longrightarrow> g \<in> set fs \<Longrightarrow> f_id f = f_id g \<Longrightarrow> f = g"
  by (auto simp: files_wf_def dest: distinct_map_inj)

lemma files_wf_key:
  "files_wf fs \<Longrightarrow> f \<in> set fs \<Longrightarrow> g \<in> set fs \<Longrightarrow> f_path_key f = f_path_key g \<Longrightarrow> f = g"
  by (auto simp: files_wf_def dest: distinct_map_inj)

lemma tasks_wf_delete [intro]: "tasks_wf ts \<Longrightarrow> tasks_wf (rows_delete p ts)"
  by (auto simp: tasks_wf_def)

lemma task_ok_id [simp]: "task_ok (t\<lparr>t_id := i\<rparr>) = task_ok t"
  by (simp add: task_ok_def)

lemma t_slot_id [simp]: "t_slot (t\<lparr>t_id := i\<rparr>) = t_slot t"
  by (simp add: t_slot_def)

lemma file_ok_id [simp]: "file_ok (f\<lparr>f_id := i\<rparr>) = file_ok f"
  by (simp add: file_ok_def)

lemma tasks_wf_insert:
  assumes "tasks_wf ts" and "task_ok t" and "t_slot t \<notin> t_slot ` set ts"
  shows "tasks_wf (ts @ [t\<lparr>t_id := next_rowid (map t_id ts)\<rparr>])"
  using assms next_rowid_fresh [of "map t_id ts"] next_rowid_pos [of "map t_id ts"]
  by (auto simp: tasks_wf_def)

lemma files_wf_insert:
  assumes "files_wf fs" and "file_ok f" and "f_path_key f \<notin> f_path_key ` set fs"
  shows "files_wf (fs @ [f\<lparr>f_id := next_rowid (map f_id fs)\<rparr>])"
  using assms next_rowid_fresh [of "map f_id fs"] next_rowid_pos [of "map f_id fs"]
  by (auto simp: files_wf_def)

text \<open>An update of one row, by identifier.\<close>

lemma tasks_wf_update_one:
  assumes wf: "tasks_wf ts"
    and one: "\<And>r. r \<in> set ts \<Longrightarrow> p r \<Longrightarrow> t_id r = i"
    and ok: "\<And>r. r \<in> set ts \<Longrightarrow> p r \<Longrightarrow> task_ok (f r) \<and> t_id (f r) = t_id r"
    and slot: "\<And>r u. r \<in> set ts \<Longrightarrow> p r \<Longrightarrow> u \<in> set ts \<Longrightarrow> t_id u \<noteq> i \<Longrightarrow> t_slot u \<noteq> t_slot (f r)"
  shows "tasks_wf (rows_update p f ts)"
proof -
  have uniq: "r = q" if "r \<in> set ts" "q \<in> set ts" "p r" "t_id q = i" for r q
    using tasks_wf_id [OF wf that(1,2)] one that by auto
  have "distinct (map t_id (rows_update p f ts))"
    using wf ok by (subst map_rows_update) (auto simp: tasks_wf_def)
  moreover have "distinct (map t_slot (rows_update p f ts))"
  proof (rule distinct_rows_update)
    show "distinct (map t_slot ts)" using wf by (simp add: tasks_wf_def)
  next
    fix r q assume "r \<in> set ts" "q \<in> set ts" "p r" "p q"
    then show "r = q" using uniq one by auto
  next
    fix r q assume "r \<in> set ts" "q \<in> set ts" "p r" "\<not> p q"
    then show "t_slot (f r) \<noteq> t_slot q" using slot [of r q] uniq [of r q] by metis
  qed
  ultimately show ?thesis
    using wf ok by (auto simp: tasks_wf_def set_rows_update)
qed

lemma files_wf_update_one:
  assumes wf: "files_wf fs"
    and one: "\<And>r. r \<in> set fs \<Longrightarrow> p r \<Longrightarrow> f_id r = i"
    and ok: "\<And>r. r \<in> set fs \<Longrightarrow> p r \<Longrightarrow> file_ok (h r) \<and> f_id (h r) = f_id r"
    and key: "\<And>r u. r \<in> set fs \<Longrightarrow> p r \<Longrightarrow> u \<in> set fs \<Longrightarrow> f_id u \<noteq> i \<Longrightarrow> f_path_key u \<noteq> f_path_key (h r)"
  shows "files_wf (rows_update p h fs)"
proof -
  have uniq: "r = q" if "r \<in> set fs" "q \<in> set fs" "p r" "f_id q = i" for r q
    using files_wf_id [OF wf that(1,2)] one that by auto
  have "distinct (map f_id (rows_update p h fs))"
    using wf ok by (subst map_rows_update) (auto simp: files_wf_def)
  moreover have "distinct (map f_path_key (rows_update p h fs))"
  proof (rule distinct_rows_update)
    show "distinct (map f_path_key fs)" using wf by (simp add: files_wf_def)
  next
    fix r q assume "r \<in> set fs" "q \<in> set fs" "p r" "p q"
    then show "r = q" using uniq one by auto
  next
    fix r q assume "r \<in> set fs" "q \<in> set fs" "p r" "\<not> p q"
    then show "f_path_key (h r) \<noteq> f_path_key q" using key [of r q] uniq [of r q] by metis
  qed
  ultimately show ?thesis
    using wf ok by (auto simp: files_wf_def set_rows_update)
qed

text \<open>An update that leaves identifiers and slots alone.\<close>

lemma tasks_wf_update_frame:
  assumes "tasks_wf ts"
    and "\<And>r. r \<in> set ts \<Longrightarrow> p r \<Longrightarrow> task_ok (f r) \<and> t_id (f r) = t_id r \<and> t_slot (f r) = t_slot r"
  shows "tasks_wf (rows_update p f ts)"
  using assms by (auto simp: tasks_wf_def set_rows_update map_rows_update)

lemma files_wf_update_frame:
  assumes "files_wf fs"
    and "\<And>r. r \<in> set fs \<Longrightarrow> p r \<Longrightarrow> file_ok (h r) \<and> f_id (h r) = f_id r \<and> f_path_key (h r) = f_path_key r"
  shows "files_wf (rows_update p h fs)"
  using assms by (auto simp: files_wf_def set_rows_update map_rows_update)

lemma tasks_wf_slots [simp]: "tasks_wf ts \<Longrightarrow> distinct (map t_slot ts)"
  by (simp add: tasks_wf_def)

lemma files_wf_keys [simp]: "files_wf fs \<Longrightarrow> distinct (map f_path_key fs)"
  by (simp add: files_wf_def)

lemma filter_id_nonempty: "t \<in> set ts \<Longrightarrow> p t \<Longrightarrow> filter p ts \<noteq> []"
  by (auto simp: filter_empty_conv)

text \<open>
  One row per slot: the two facts the scheduler relies on, at most one in-flight and at most one
  pending row per path key.
\<close>

lemma tasks_wf_one_per_slot:
  assumes "tasks_wf ts" and "t \<in> set ts" and "u \<in> set ts"
    and "t_path_key t = t_path_key u" and "t_state t = t_state u"
  shows "t = u"
  using assms by (auto intro: tasks_wf_slot simp: t_slot_def)

section \<open>Failure histories\<close>

fun collect_histories :: "history_text list \<Rightarrow> store_error + history_entry list" where
  "collect_histories [] = Inr []"
| "collect_histories (h # hs) =
     (case h of
        HistOther \<Rightarrow> Inl ErrHistory_Invalid
      | HistMalformed \<Rightarrow> Inl ErrHistory_Invalid
      | HistEmpty \<Rightarrow> collect_histories hs
      | HistArray es \<Rightarrow> map_sum id (\<lambda>rest. es @ rest) (collect_histories hs))"

text \<open>\<open>mergeFailureHistory\<close>: concatenation, capped to the most recent entries.\<close>

definition merge_failure_history :: "history_text list \<Rightarrow> store_error + history_entry list" where
  "merge_failure_history hs =
     map_sum id (\<lambda>merged. drop (length merged - max_task_failure_history) merged)
       (collect_histories hs)"

definition append_failure_history ::
    "history_entry list \<Rightarrow> history_entry \<Rightarrow> store_error + history_entry list" where
  "append_failure_history history entry = merge_failure_history [HistArray history, HistArray [entry]]"

lemma append_failure_history_eq:
  "append_failure_history h e = Inr (drop (Suc (length h) - max_task_failure_history) (h @ [e]))"
  by (simp add: append_failure_history_def merge_failure_history_def)

lemma merge_failure_history_errors:
  "merge_failure_history hs = Inl e \<Longrightarrow> e = ErrHistory_Invalid"
  unfolding merge_failure_history_def
  by (induction hs) (auto split: history_text.splits sum.splits simp: map_sum_def)

lemma merge_failure_history_length:
  "merge_failure_history hs = Inr h \<Longrightarrow> length h \<le> max_task_failure_history"
  by (auto simp: merge_failure_history_def map_sum_def split: sum.splits)

section \<open>The invariant of write transactions\<close>

text \<open>
  \<open>catalog_le\<close>: no catalog row disappears and no generation goes backwards.  \<open>tx_inv\<close> is what
  every write transaction keeps, relative to the database it started from.
\<close>

definition catalog_le :: "catalog_file list \<Rightarrow> catalog_file list \<Rightarrow> bool" where
  "catalog_le fs gs \<longleftrightarrow>
     (\<forall>f\<in>set fs. \<exists>g\<in>set gs. f_id g = f_id f \<and> f_generation f \<le> f_generation g)"

definition tx_inv :: "db \<Rightarrow> db \<Rightarrow> bool" where
  "tx_inv db0 db \<longleftrightarrow> db_wf db \<and> catalog_le (db_files db0) (db_files db)"

abbreviation no_conflict :: "store_error \<Rightarrow> bool" where
  "no_conflict e \<equiv> e \<noteq> ErrConstraint"

lemma catalog_le_refl [simp]: "catalog_le fs fs"
  by (auto simp: catalog_le_def)

lemma catalog_le_trans: "catalog_le fs gs \<Longrightarrow> catalog_le gs hs \<Longrightarrow> catalog_le fs hs"
  unfolding catalog_le_def by (metis order_trans)

lemma catalog_le_append: "catalog_le fs gs \<Longrightarrow> catalog_le fs (gs @ hs)"
  by (auto simp: catalog_le_def)

lemma catalog_le_update:
  assumes "\<And>r. r \<in> set fs \<Longrightarrow> p r \<Longrightarrow> f_id (h r) = f_id r \<and> f_generation r \<le> f_generation (h r)"
  shows "catalog_le fs (rows_update p h fs)"
  unfolding catalog_le_def set_rows_update
proof
  fix r assume "r \<in> set fs"
  then show "\<exists>g\<in>(\<lambda>r. if p r then h r else r) ` set fs. f_id g = f_id r \<and> f_generation r \<le> f_generation g"
    using assms [of r] by (intro bexI [of _ "if p r then h r else r"]) auto
qed

lemma inv_refl: "db_wf db \<Longrightarrow> tx_inv db db"
  by (simp add: tx_inv_def)

lemma inv_wf [dest]: "tx_inv db0 db \<Longrightarrow> db_wf db"
  by (simp add: tx_inv_def)

lemma inv_tables:
  assumes "tx_inv db0 db"
  shows "tasks_wf (db_tasks db)" and "files_wf (db_files db)" and "dead_wf (db_dead db)"
    and "audit_wf (db_audit db) (db_audit_seq db)"
  using assms by (simp_all add: tx_inv_def db_wf_def)

lemma inv_tasks: "tx_inv db0 db \<Longrightarrow> tasks_wf ts \<Longrightarrow> tx_inv db0 (db\<lparr>db_tasks := ts\<rparr>)"
  by (simp add: tx_inv_def db_wf_def)

lemma inv_files:
  "tx_inv db0 db \<Longrightarrow> files_wf fs \<Longrightarrow> catalog_le (db_files db) fs \<Longrightarrow> tx_inv db0 (db\<lparr>db_files := fs\<rparr>)"
  by (auto simp: tx_inv_def db_wf_def intro: catalog_le_trans)

lemma inv_dead: "tx_inv db0 db \<Longrightarrow> dead_wf ds \<Longrightarrow> tx_inv db0 (db\<lparr>db_dead := ds\<rparr>)"
  by (simp add: tx_inv_def db_wf_def)

lemma inv_meta: "tx_inv db0 db \<Longrightarrow> tx_inv db0 (db\<lparr>db_meta := m\<rparr>)"
  by (simp add: tx_inv_def db_wf_def)

lemma dead_wf_delete [intro]: "dead_wf ds \<Longrightarrow> dead_wf (rows_delete p ds)"
  by (auto simp: dead_wf_def)

lemma inv_delete_tasks: "tx_inv db0 db \<Longrightarrow> tx_inv db0 (db\<lparr>db_tasks := rows_delete p (db_tasks db)\<rparr>)"
  by (intro inv_tasks) (auto dest: inv_tables)

lemma inv_delete_dead: "tx_inv db0 db \<Longrightarrow> tx_inv db0 (db\<lparr>db_dead := rows_delete p (db_dead db)\<rparr>)"
  by (intro inv_dead) (auto dest: inv_tables)

section \<open>Reading a row for a transition\<close>

text \<open>\<open>taskForTransition\<close> and \<open>clearOlderStateSlot\<close>.\<close>

definition task_for_transition :: "int \<Rightarrow> task_state \<Rightarrow> task stx" where
  "task_for_transition task_id expected =
     tx_bind (find_task (\<lambda>t. t_id t = task_id)) (\<lambda>r.
     case r of
       None \<Rightarrow> tx_fail ErrNotFound
     | Some t \<Rightarrow> if t_state t \<noteq> expected then tx_fail ErrInvalidTransition else tx_return t)"

definition clear_older_state_slot :: "task \<Rightarrow> task_state \<Rightarrow> unit stx" where
  "clear_older_state_slot task target =
     tx_bind (find_task (\<lambda>u. t_path_key u = path_key (t_path task) \<and> t_state u = target \<and>
                              t_id u \<noteq> t_id task)) (\<lambda>r.
     case r of
       None \<Rightarrow> tx_return ()
     | Some other \<Rightarrow>
         if t_generation task < t_generation other then tx_fail ErrStaleGeneration
         else delete_tasks (\<lambda>u. t_id u = t_id other))"

lemma wp_task_for_transition [wp_simps]:
  "wp (task_for_transition i st) Q E db =
     (case List.find (\<lambda>t. t_id t = i) (db_tasks db) of
        None \<Rightarrow> E ErrNotFound
      | Some t \<Rightarrow> if t_state t \<noteq> st then E ErrInvalidTransition else Q t db)"
  by (simp add: task_for_transition_def wp_simps split: option.splits)

lemma wp_task_for_transitionI:
  assumes "\<And>t. t \<in> set (db_tasks db) \<Longrightarrow> t_id t = i \<Longrightarrow> t_state t = st \<Longrightarrow> Q t db"
    and "E ErrNotFound" and "E ErrInvalidTransition"
  shows "wp (task_for_transition i st) Q E db"
  using assms by (auto simp: wp_simps split: option.splits dest: find_SomeD)

text \<open>What clearing a slot establishes: no other row holds it, and \<open>task\<close> is untouched.\<close>

definition slot_free :: "task list \<Rightarrow> task \<Rightarrow> task_state \<Rightarrow> bool" where
  "slot_free ts task target \<longleftrightarrow>
     (\<forall>u\<in>set ts. t_path_key u = t_path_key task \<and> t_state u = target \<longrightarrow> t_id u = t_id task)"

lemma slot_freeD:
  "slot_free ts task target \<Longrightarrow> u \<in> set ts \<Longrightarrow> t_path_key u = t_path_key task \<Longrightarrow>
     t_state u = target \<Longrightarrow> t_id u = t_id task"
  by (auto simp: slot_free_def)

lemma wp_clear_older_state_slot:
  assumes inv: "tx_inv db0 db" and task: "task \<in> set (db_tasks db)" and E: "E ErrStaleGeneration"
    and Q: "\<And>ts. tasks_wf ts \<Longrightarrow> set ts \<subseteq> set (db_tasks db) \<Longrightarrow> task \<in> set ts \<Longrightarrow>
      slot_free ts task target \<Longrightarrow>
      (\<forall>u\<in>set (db_tasks db) - set ts. t_path_key u = t_path_key task \<and> t_state u = target \<and>
         t_id u \<noteq> t_id task \<and> t_generation u \<le> t_generation task) \<Longrightarrow> Q () (db\<lparr>db_tasks := ts\<rparr>)"
  shows "wp (clear_older_state_slot task target) Q E db"
proof -
  let ?p = "\<lambda>u. t_path_key u = path_key (t_path task) \<and> t_state u = target \<and> t_id u \<noteq> t_id task"
  let ?ts = "db_tasks db"
  have wf: "tasks_wf ?ts" using inv by (rule inv_tables)
  have key: "path_key (t_path task) = t_path_key task" using tasks_wfD(3) [OF wf task] by simp
  show ?thesis
  proof (cases "List.find ?p ?ts")
    case None
    then have "slot_free ?ts task target" by (auto simp: slot_free_def find_None_iff key)
    then have "Q () (db\<lparr>db_tasks := ?ts\<rparr>)" using wf task by (intro Q) auto
    then show ?thesis using None by (simp add: clear_older_state_slot_def wp_simps)
  next
    case (Some other)
    then have o: "other \<in> set ?ts" "?p other" by (auto dest: find_SomeD)
    let ?us = "rows_delete (\<lambda>u. t_id u = t_id other) ?ts"
    have "u = other" if "u \<in> set ?ts" "t_path_key u = t_path_key task" "t_state u = target"
      "t_id u \<noteq> t_id task" for u
      using tasks_wf_one_per_slot [OF wf that(1) o(1)] that o key by simp
    then have "slot_free ?us task target" by (auto simp: slot_free_def)
    moreover have "u = other" if "u \<in> set ?ts" "t_id u = t_id other" for u
      using tasks_wf_id [OF wf that(1) o(1)] that by auto
    ultimately have "Q () (db\<lparr>db_tasks := ?us\<rparr>)" if "t_generation other \<le> t_generation task"
      using wf task o that by (intro Q) (auto simp: key)
    then show ?thesis using Some E by (simp add: clear_older_state_slot_def wp_simps)
  qed
qed

text \<open>Moving one row to a slot that is free keeps the table well-formed.\<close>

lemma tasks_wf_move:
  assumes wf: "tasks_wf ts" and task: "task \<in> set ts"
    and one: "\<And>r. r \<in> set ts \<Longrightarrow> p r \<Longrightarrow> t_id r = t_id task"
    and ok: "task_ok (f task)" "t_id (f task) = t_id task" "t_path_key (f task) = t_path_key task"
    and free: "slot_free ts task (t_state (f task))"
  shows "tasks_wf (rows_update p f ts)"
proof (rule tasks_wf_update_one [where i = "t_id task", OF wf one])
  fix r assume "r \<in> set ts" "p r"
  then have "r = task" using tasks_wf_id [OF wf _ task] one by blast
  then show "task_ok (f r) \<and> t_id (f r) = t_id r" using ok by simp
next
  fix r u assume *: "r \<in> set ts" "p r" "u \<in> set ts" "t_id u \<noteq> t_id task"
  then have "r = task" using tasks_wf_id [OF wf _ task] one by blast
  then show "t_slot u \<noteq> t_slot (f r)" using ok * slot_freeD [OF free] by (auto simp: t_slot_def)
qed

lemma inv_move:
  assumes "tx_inv db0 db" and "tasks_wf ts" and "task \<in> set ts"
    and "\<And>r. r \<in> set ts \<Longrightarrow> p r \<Longrightarrow> t_id r = t_id task"
    and "task_ok (f task)" "t_id (f task) = t_id task" "t_path_key (f task) = t_path_key task"
    and "slot_free ts task (t_state (f task))"
  shows "tx_inv db0 (db\<lparr>db_tasks := rows_update p f ts\<rparr>)"
  using assms by (intro inv_tasks tasks_wf_move)

end
