(* ===== verification/Store_Catalog.thy ===== *)
theory Store_Catalog
  imports Store_Model "HOL-Library.List_Lexorder" "HOL-Library.Char_ord"
begin

text \<open>
  The catalog operations of \<open>internal/store/catalog.go\<close> and \<open>catalog_identity.go\<close>: the
  generation fence on writes, path ownership, prefix listing with its pages, and the identity
  lookup.  The lemmas give, for each write, what it keeps (\<open>tx_inv\<close>) and what it establishes.
\<close>

section \<open>Operations\<close>

definition default_file_prefix_page_limit :: int where
  "default_file_prefix_page_limit = 1000"

definition max_file_prefix_page_limit :: int where
  "max_file_prefix_page_limit = 10000"

definition validate_file :: "catalog_file \<Rightarrow> store_error + unit" where
  "validate_file f =
     (if f_path f = [] then Inl (ErrInvalidArgument ''file path is empty'')
      else if f_size f < 0 then Inl (ErrInvalidArgument ''file size is negative'')
      else if f_generation f < 1 then Inl (ErrInvalidArgument ''file generation must be positive'')
      else if \<not> kind_ok (f_kind f) then Inl (ErrInvalidArgument ''invalid file kind'')
      else if \<not> status_ok (f_status f) then Inl (ErrInvalidArgument ''invalid file status'')
      else Inr ())"

text \<open>The \<open>DO UPDATE SET\<close> list of the catalog upsert.\<close>

definition upsert_row :: "catalog_file \<Rightarrow> catalog_file \<Rightarrow> catalog_file" where
  "upsert_row excluded old = old\<lparr>
     f_path := f_path excluded, f_size := f_size excluded, f_mtime_ns := f_mtime_ns excluded,
     f_inode := f_inode excluded, f_sample_hash := f_sample_hash excluded,
     f_kind := f_kind excluded, f_generation := f_generation excluded,
     f_status := f_status excluded, f_extractor_version := f_extractor_version excluded,
     f_embed_model_version := f_embed_model_version excluded,
     f_indexed_at_ms := f_indexed_at_ms excluded\<rparr>"

definition upsert_file_tx :: "catalog_file \<Rightarrow> catalog_file stx" where
  "upsert_file_tx f =
     tx_bind (tx_lift (validate_file f)) (\<lambda>_.
     let key = path_key (f_path f) in
     tx_bind (find_file (\<lambda>r. f_path_key r = key)) (\<lambda>existing.
     case existing of
       None \<Rightarrow> insert_file (f\<lparr>f_path_key := key\<rparr>)
     | Some old \<Rightarrow>
         if f_generation old \<le> f_generation f then
           tx_bind (update_files (\<lambda>r. f_path_key r = key) (upsert_row f)) (\<lambda>_.
           tx_return (upsert_row f old))
         else tx_fail ErrStaleGeneration))"

definition upsert_file :: "catalog_file \<Rightarrow> db \<Rightarrow> (store_error + catalog_file) \<times> db" where
  "upsert_file f = with_tx (upsert_file_tx f)"

text \<open>\<open>prepareAnchoredFileTx\<close>: the row of the task's own file, if the path is free or its own.\<close>

definition prepared_row :: "catalog_file \<Rightarrow> catalog_file \<Rightarrow> catalog_file" where
  "prepared_row f old = old\<lparr>
     f_path := f_path f, f_path_key := path_key (f_path f), f_size := f_size f,
     f_mtime_ns := f_mtime_ns f, f_inode := f_inode f, f_sample_hash := f_sample_hash f,
     f_kind := f_kind f, f_status := f_status f,
     f_extractor_version := f_extractor_version f,
     f_embed_model_version := f_embed_model_version f,
     f_indexed_at_ms := f_indexed_at_ms f\<rparr>"

definition prepare_anchored_file_tx :: "int \<Rightarrow> catalog_file \<Rightarrow> catalog_file stx" where
  "prepare_anchored_file_tx file_id f =
     tx_bind (find_file (\<lambda>r. f_path_key r = path_key (f_path f))) (\<lambda>owner.
     if (case owner of None \<Rightarrow> False | Some r \<Rightarrow> f_id r \<noteq> file_id) then tx_fail ErrPathOwnership
     else
       tx_bind (find_file (\<lambda>r. f_id r = file_id)) (\<lambda>row.
       case row of
         None \<Rightarrow> tx_fail ErrNotFound
       | Some old \<Rightarrow>
           if f_generation old \<noteq> f_generation f then tx_fail ErrStaleGeneration
           else if \<not> (0 \<le> f_size f \<and> kind_ok (f_kind f) \<and> status_ok (f_status f)) then
             tx_fail (ErrInvalidArgument ''CHECK constraint failed'')
           else
             tx_bind (update_files (\<lambda>r. f_id r = file_id \<and> f_generation r = f_generation f)
                       (prepared_row f)) (\<lambda>_.
             tx_return (prepared_row f old))))"

definition prepare_file_for_task :: "int \<Rightarrow> int \<Rightarrow> catalog_file \<Rightarrow> catalog_file stx" where
  "prepare_file_for_task now task_id f0 =
     (let f = (if f_status f0 = FileStatusEmpty then f0\<lparr>f_status := FileStatusPending\<rparr> else f0) in
     tx_bind (task_for_transition task_id TaskStateInFlight) (\<lambda>task.
     if path_key (t_path task) \<noteq> path_key (f_path f) \<or> t_generation task \<noteq> f_generation f then
       tx_fail ErrTaskMismatch
     else
       tx_bind (case t_file_id task of
                  Some file_id \<Rightarrow> prepare_anchored_file_tx file_id f
                | None \<Rightarrow> upsert_file_tx f) (\<lambda>prepared.
       if (case t_file_id task of Some file_id \<Rightarrow> file_id \<noteq> f_id prepared | None \<Rightarrow> False) then
         tx_fail ErrPathOwnership
       else
         tx_bind (update_tasks (\<lambda>t. t_id t = task_id \<and> t_state t = TaskStateInFlight)
                    (\<lambda>t. t\<lparr>t_file_id := Some (f_id prepared), t_updated_at := now\<rparr>)) (\<lambda>n.
         tx_bind (require_changed n) (\<lambda>_. tx_return prepared)))))"

section \<open>Reads\<close>

definition get_file_by_path :: "db \<Rightarrow> string \<Rightarrow> store_error + catalog_file" where
  "get_file_by_path db p =
     (case List.find (\<lambda>f. f_path_key f = path_key p) (db_files db) of
        None \<Rightarrow> Inl ErrNotFound | Some f \<Rightarrow> Inr f)"

definition get_file_by_id :: "db \<Rightarrow> int \<Rightarrow> store_error + catalog_file" where
  "get_file_by_id db i =
     (case List.find (\<lambda>f. f_id f = i) (db_files db) of
        None \<Rightarrow> Inl ErrNotFound | Some f \<Rightarrow> Inr f)"

text \<open>\<open>GetFilesByIDs\<close>: a map of the rows that exist; any identifier that is not positive fails.\<close>

definition get_files_by_ids :: "db \<Rightarrow> int list \<Rightarrow> store_error + (int \<rightharpoonup> catalog_file)" where
  "get_files_by_ids db ids =
     (if \<exists>i\<in>set ids. i \<le> 0 then Inl (ErrInvalidArgument ''file ID must be positive'')
      else Inr (\<lambda>i. if i \<in> set ids then List.find (\<lambda>f. f_id f = i) (db_files db) else None))"

definition is_path_separator :: "char \<Rightarrow> bool" where
  "is_path_separator c = (c = CHR ''/'' \<or> c = CHR 0x5C)"

text \<open>\<open>pathKeyPrefixFilter\<close> as the predicate its SQL clause denotes.\<close>

definition path_key_prefix_filter :: "string \<Rightarrow> string \<Rightarrow> bool" where
  "path_key_prefix_filter pre k =
     (if pre = [] then True
      else
        let key = path_key pre;
            trailing = is_path_separator (last pre);
            children = (if is_path_separator (last key) then [key]
                        else [key @ ''/'', key @ [CHR 0x5C]])
        in (\<not> trailing \<and> k = key) \<or> (\<exists>c\<in>set children. has_prefix k c))"

definition list_limit :: "int \<Rightarrow> nat" where
  "list_limit limit = (if limit \<le> 0 then 1000 else nat limit)"

definition list_files_by_prefix :: "db \<Rightarrow> string \<Rightarrow> int \<Rightarrow> catalog_file list" where
  "list_files_by_prefix db pre limit =
     take (list_limit limit)
       (order_by f_path_key (filter (\<lambda>f. path_key_prefix_filter pre (f_path_key f)) (db_files db)))"

definition file_prefix_page_limit :: "int \<Rightarrow> nat" where
  "file_prefix_page_limit limit =
     nat (if limit \<le> 0 then default_file_prefix_page_limit
          else min limit max_file_prefix_page_limit)"

definition list_files_by_prefix_page :: "db \<Rightarrow> string \<Rightarrow> string \<Rightarrow> int \<Rightarrow> catalog_file list" where
  "list_files_by_prefix_page db pre after limit =
     (let after_key = (if after = [] then [] else path_key after) in
      take (file_prefix_page_limit limit)
        (order_by f_path_key
          (filter (\<lambda>f. after_key < f_path_key f \<and> path_key_prefix_filter pre (f_path_key f))
            (db_files db))))"

definition list_files_by_status :: "db \<Rightarrow> file_status \<Rightarrow> int \<Rightarrow> catalog_file list" where
  "list_files_by_status db st limit =
     take (list_limit limit) (order_by f_id (filter (\<lambda>f. f_status f = st) (db_files db)))"

definition find_file_by_identity :: "db \<Rightarrow> int \<Rightarrow> int \<Rightarrow> int \<Rightarrow> store_error + catalog_file" where
  "find_file_by_identity db sz mtime_ns inode =
     (case take 2 (order_by f_id (filter (\<lambda>f. f_size f = sz \<and> f_mtime_ns f = mtime_ns \<and>
          f_inode f = Some inode \<and> f_status f \<noteq> FileStatusDeleted) (db_files db))) of
        [] \<Rightarrow> Inl ErrNotFound
      | [f] \<Rightarrow> Inr f
      | _ \<Rightarrow> Inl ErrAmbiguousFileIdentity)"

definition is_current_generation :: "db \<Rightarrow> int \<Rightarrow> int \<Rightarrow> store_error + bool" where
  "is_current_generation db file_id generation =
     (case List.find (\<lambda>f. f_id f = file_id) (db_files db) of
        None \<Rightarrow> Inl ErrNotFound | Some f \<Rightarrow> Inr (f_generation f = generation))"

definition current_generations :: "db \<Rightarrow> int list \<Rightarrow> (int \<rightharpoonup> int)" where
  "current_generations db ids =
     (\<lambda>i. if i \<in> set ids
          then map_option f_generation (List.find (\<lambda>f. f_id f = i) (db_files db)) else None)"

section \<open>Generations, moves and deletions\<close>

text \<open>
  \<open>generation=generation+1,status='pending'\<close>.  SQLite turns the largest \<open>int64\<close> plus one into a
  floating-point value that \<open>scanFile\<close> refuses, so the statement fails there.
\<close>

definition bump_row :: "catalog_file \<Rightarrow> catalog_file" where
  "bump_row f = f\<lparr>f_generation := f_generation f + 1, f_status := FileStatusPending\<rparr>"

definition bump_where :: "(catalog_file \<Rightarrow> bool) \<Rightarrow> catalog_file stx" where
  "bump_where p =
     tx_bind (find_file p) (\<lambda>r.
     case r of
       None \<Rightarrow> tx_fail ErrNotFound
     | Some f \<Rightarrow>
         if max_int64 \<le> f_generation f then tx_fail ErrGenerationExhausted
         else tx_bind (update_files p bump_row) (\<lambda>_. tx_return (bump_row f)))"

definition bump_generation_tx :: "string \<Rightarrow> catalog_file stx" where
  "bump_generation_tx p = bump_where (\<lambda>f. f_path_key f = path_key p)"

definition bump_file_generation_by_id_tx :: "int \<Rightarrow> catalog_file stx" where
  "bump_file_generation_by_id_tx i = bump_where (\<lambda>f. f_id f = i)"

definition bump_generation :: "string \<Rightarrow> db \<Rightarrow> (store_error + catalog_file) \<times> db" where
  "bump_generation p = with_tx (bump_generation_tx p)"

definition relocate_file :: "int \<Rightarrow> int \<Rightarrow> string \<Rightarrow> catalog_file stx" where
  "relocate_file file_id generation new_path =
     (if new_path = [] then tx_fail (ErrInvalidArgument ''relocate destination is empty'')
      else
        tx_bind (find_file (\<lambda>r. f_path_key r = path_key new_path)) (\<lambda>owner.
        if (case owner of None \<Rightarrow> False | Some r \<Rightarrow> f_id r \<noteq> file_id) then tx_fail ErrPathOwnership
        else
          tx_bind (find_file (\<lambda>r. f_id r = file_id)) (\<lambda>row.
          case row of
            None \<Rightarrow> tx_fail ErrNotFound
          | Some old \<Rightarrow>
              if f_generation old \<noteq> generation then tx_fail ErrStaleGeneration
              else
                tx_bind (update_files (\<lambda>r. f_id r = file_id \<and> f_generation r = generation)
                  (\<lambda>r. r\<lparr>f_path := new_path, f_path_key := path_key new_path\<rparr>)) (\<lambda>_.
                tx_return (old\<lparr>f_path := new_path, f_path_key := path_key new_path\<rparr>)))))"

definition mark_file_deleted :: "int \<Rightarrow> int \<Rightarrow> unit stx" where
  "mark_file_deleted file_id generation =
     tx_bind (update_files (\<lambda>r. f_id r = file_id \<and> f_generation r = generation)
       (\<lambda>r. r\<lparr>f_status := FileStatusDeleted, f_indexed_at_ms := None\<rparr>)) (\<lambda>n.
     require_current n)"

section \<open>What the writes keep and establish\<close>

lemma file_ok_bump [simp]: "file_ok f \<Longrightarrow> file_ok (bump_row f)"
  by (simp add: file_ok_def bump_row_def status_ok_def)

lemma bump_row_simps [simp]:
  "f_id (bump_row f) = f_id f" "f_path_key (bump_row f) = f_path_key f"
  "f_path (bump_row f) = f_path f" "f_generation (bump_row f) = f_generation f + 1"
  "f_status (bump_row f) = FileStatusPending"
  by (simp_all add: bump_row_def)

lemma inv_update_files_frame:
  assumes inv: "tx_inv db0 db"
    and ok: "\<And>r. r \<in> set (db_files db) \<Longrightarrow> p r \<Longrightarrow>
      file_ok (h r) \<and> f_id (h r) = f_id r \<and> f_path_key (h r) = f_path_key r \<and>
      f_generation r \<le> f_generation (h r)"
  shows "tx_inv db0 (db\<lparr>db_files := rows_update p h (db_files db)\<rparr>)"
    and "distinct (map f_path_key (rows_update p h (db_files db)))"
proof -
  have wf: "files_wf (rows_update p h (db_files db))"
    using inv_tables(2) [OF inv] ok by (intro files_wf_update_frame) auto
  then show "tx_inv db0 (db\<lparr>db_files := rows_update p h (db_files db)\<rparr>)"
    using ok by (intro inv_files [OF inv]) (auto intro: catalog_le_update)
  show "distinct (map f_path_key (rows_update p h (db_files db)))"
    using wf by simp
qed

lemma wp_bump_where:
  assumes inv: "tx_inv db0 db" and E: "E ErrNotFound" "E ErrGenerationExhausted"
    and Q: "\<And>f fs. f \<in> set (db_files db) \<Longrightarrow> p f \<Longrightarrow>
      fs = rows_update p bump_row (db_files db) \<Longrightarrow> bump_row f \<in> set fs \<Longrightarrow>
      tx_inv db0 (db\<lparr>db_files := fs\<rparr>) \<Longrightarrow> Q (bump_row f) (db\<lparr>db_files := fs\<rparr>)"
  shows "wp (bump_where p) Q E db"
proof (cases "List.find p (db_files db)")
  case None
  then show ?thesis using E by (simp add: bump_where_def wp_simps)
next
  case (Some f)
  then have f: "f \<in> set (db_files db)" "p f" by (auto dest: find_SomeD)
  let ?fs = "rows_update p bump_row (db_files db)"
  have frame: "tx_inv db0 (db\<lparr>db_files := ?fs\<rparr>)" "distinct (map f_path_key ?fs)"
    using inv_update_files_frame [OF inv, of p bump_row] files_wfD(2) [OF inv_tables(2) [OF inv]]
    by simp_all
  have "bump_row f \<in> set ?fs" using f by (force simp: set_rows_update)
  then have "Q (bump_row f) (db\<lparr>db_files := ?fs\<rparr>)" using Q f frame by blast
  then show ?thesis using Some E frame(2) by (simp add: bump_where_def wp_simps)
qed

lemma wp_upsert_file_tx:
  assumes inv: "tx_inv db0 db" and E: "\<And>e. no_conflict e \<Longrightarrow> E e"
    and Q: "\<And>r fs. r \<in> set fs \<Longrightarrow> f_path_key r = path_key (f_path f) \<Longrightarrow>
      f_generation r = f_generation f \<Longrightarrow> tx_inv db0 (db\<lparr>db_files := fs\<rparr>) \<Longrightarrow>
      Q r (db\<lparr>db_files := fs\<rparr>)"
  shows "wp (upsert_file_tx f) Q E db"
proof (cases "validate_file f")
  case (Inl e)
  then have "no_conflict e" by (auto simp: validate_file_def split: if_splits)
  then show ?thesis using Inl E by (simp add: upsert_file_tx_def wp_simps)
next
  case (Inr u)
  let ?key = "path_key (f_path f)" and ?fs = "db_files db"
  let ?new = "f\<lparr>f_path_key := ?key\<rparr>"
  have ok: "file_ok ?new"
    using Inr by (auto simp: validate_file_def file_ok_def split: if_splits)
  have wf: "files_wf ?fs" using inv by (rule inv_tables)
  show ?thesis
  proof (cases "List.find (\<lambda>r. f_path_key r = ?key) ?fs")
    case None
    let ?row = "?new\<lparr>f_id := next_rowid (map f_id ?fs)\<rparr>"
    have wf': "files_wf (?fs @ [?row])"
      using None by (intro files_wf_insert [OF wf ok]) (auto simp: find_None_iff)
    have "tx_inv db0 (db\<lparr>db_files := ?fs @ [?row]\<rparr>)"
      by (rule inv_files [OF inv wf']) (simp add: catalog_le_append)
    moreover have "distinct (map f_path_key (?fs @ [?row]))"
      using wf' by (rule files_wf_keys)
    moreover have "Q ?row (db\<lparr>db_files := ?fs @ [?row]\<rparr>)"
      using calculation(1) by (intro Q) simp_all
    ultimately show ?thesis using None Inr by (simp add: upsert_file_tx_def wp_simps Let_def)
  next
    case (Some old)
    then have old: "old \<in> set ?fs" "f_path_key old = ?key" by (auto dest: find_SomeD)
    show ?thesis
    proof (cases "f_generation old \<le> f_generation f")
      case True
      let ?us = "rows_update (\<lambda>r. f_path_key r = ?key) (upsert_row f) ?fs"
      have "file_ok (upsert_row f r) \<and> f_id (upsert_row f r) = f_id r \<and>
          f_path_key (upsert_row f r) = f_path_key r \<and> f_generation r \<le> f_generation (upsert_row f r)"
        if "r \<in> set ?fs" "f_path_key r = ?key" for r
        using files_wf_key [OF wf that(1) old(1)] that old ok True
        by (auto simp: upsert_row_def file_ok_def)
      then have fr: "tx_inv db0 (db\<lparr>db_files := ?us\<rparr>)" "distinct (map f_path_key ?us)"
        using inv_update_files_frame [OF inv, of "\<lambda>r. f_path_key r = ?key" "upsert_row f"] by blast+
      have "upsert_row f old \<in> set ?us" using old by (force simp: set_rows_update)
      then have "Q (upsert_row f old) (db\<lparr>db_files := ?us\<rparr>)"
        using old fr by (intro Q) (auto simp: upsert_row_def)
      then show ?thesis using Some Inr True fr(2) by (simp add: upsert_file_tx_def wp_simps Let_def)
    next
      case False
      then show ?thesis using Some Inr E by (simp add: upsert_file_tx_def wp_simps Let_def)
    qed
  qed
qed


lemma owner_key:
  assumes wf: "files_wf fs"
    and own: "\<And>r. List.find (\<lambda>r. f_path_key r = k) fs = Some r \<Longrightarrow> f_id r = i"
    and u: "u \<in> set fs" "f_id u \<noteq> i"
  shows "f_path_key u \<noteq> k"
proof
  assume k: "f_path_key u = k"
  have "List.find (\<lambda>r. f_path_key r = k) fs = Some u"
    using u k files_wf_key [OF wf] by (intro find_unique) auto
  then show False using own u by blast
qed

text \<open>An update of one catalog row under the generation fence, possibly to a new path.\<close>

lemma inv_update_file_row:
  assumes inv: "tx_inv db0 db"
    and old: "old \<in> set (db_files db)" "f_id old = i" "f_generation old = g"
    and own: "\<And>r. List.find (\<lambda>r. f_path_key r = f_path_key (h old)) (db_files db) = Some r \<Longrightarrow> f_id r = i"
    and ok: "file_ok (h old)" "f_id (h old) = i" "f_generation (h old) = g"
  defines "fs \<equiv> rows_update (\<lambda>r. f_id r = i \<and> f_generation r = g) h (db_files db)"
  shows "tx_inv db0 (db\<lparr>db_files := fs\<rparr>)" and "distinct (map f_path_key fs)" and "h old \<in> set fs"
proof -
  have wf: "files_wf (db_files db)" using inv by (rule inv_tables)
  have only: "r = old" if "r \<in> set (db_files db)" "f_id r = i" for r
    using files_wf_id [OF wf that(1) old(1)] that old by simp
  have wf': "files_wf fs" unfolding fs_def
  proof (rule files_wf_update_one [where i = i, OF wf])
    fix r u assume "r \<in> set (db_files db)" "f_id r = i \<and> f_generation r = g"
      "u \<in> set (db_files db)" "f_id u \<noteq> i"
    then show "f_path_key u \<noteq> f_path_key (h r)"
      using owner_key [OF wf own] only by blast
  next
    fix r assume "r \<in> set (db_files db)" "f_id r = i \<and> f_generation r = g"
    then have "r = old" using only by blast
    then show "file_ok (h r) \<and> f_id (h r) = f_id r" using ok old by simp
  qed simp
  have "catalog_le (db_files db) fs" unfolding fs_def
  proof (rule catalog_le_update)
    fix r assume "r \<in> set (db_files db)" "f_id r = i \<and> f_generation r = g"
    then have "r = old" using only by blast
    then show "f_id (h r) = f_id r \<and> f_generation r \<le> f_generation (h r)" using ok old by simp
  qed
  then show "tx_inv db0 (db\<lparr>db_files := fs\<rparr>)" by (rule inv_files [OF inv wf'])
  show "distinct (map f_path_key fs)" using wf' by simp
  show "h old \<in> set fs" using old by (force simp: fs_def set_rows_update)
qed

lemma wp_prepare_anchored_file_tx:
  assumes inv: "tx_inv db0 db" and E: "\<And>e. no_conflict e \<Longrightarrow> E e"
    and Q: "\<And>r fs. r \<in> set fs \<Longrightarrow> f_id r = file_id \<Longrightarrow> f_path_key r = path_key (f_path f) \<Longrightarrow>
      f_generation r = f_generation f \<Longrightarrow> tx_inv db0 (db\<lparr>db_files := fs\<rparr>) \<Longrightarrow>
      Q r (db\<lparr>db_files := fs\<rparr>)"
  shows "wp (prepare_anchored_file_tx file_id f) Q E db"
proof -
  let ?fs = "db_files db"
  {
    fix old
    assume old: "old \<in> set ?fs" "f_id old = file_id" "f_generation old = f_generation f"
      and own: "\<And>r. List.find (\<lambda>r. f_path_key r = path_key (f_path f)) ?fs = Some r \<Longrightarrow> f_id r = file_id"
      and chk: "0 \<le> f_size f" "kind_ok (f_kind f)" "status_ok (f_status f)"
    let ?us = "rows_update (\<lambda>r. f_id r = file_id \<and> f_generation r = f_generation f) (prepared_row f) ?fs"
    have "file_ok (prepared_row f old)"
      using chk old files_wfD(2) [OF inv_tables(2) [OF inv] old(1)]
      by (simp add: file_ok_def prepared_row_def)
    then have "tx_inv db0 (db\<lparr>db_files := ?us\<rparr>)" "distinct (map f_path_key ?us)"
      "prepared_row f old \<in> set ?us"
      using inv_update_file_row [OF inv old, of "prepared_row f"] own old
      by (simp_all add: prepared_row_def)
    then have "distinct (map f_path_key ?us)" "Q (prepared_row f old) (db\<lparr>db_files := ?us\<rparr>)"
      using old by (auto intro!: Q simp: prepared_row_def)
  }
  then show ?thesis
    using E by (fastforce simp: prepare_anchored_file_tx_def wp_simps split: option.splits
        dest: find_SomeD)
qed

lemma wp_prepare_file_for_task:
  assumes inv: "tx_inv db0 db" and E: "\<And>e. no_conflict e \<Longrightarrow> E e"
    and Q: "\<And>r db'. tx_inv db0 db' \<Longrightarrow> r \<in> set (db_files db') \<Longrightarrow>
      f_path_key r = path_key (f_path f) \<Longrightarrow> f_generation r = f_generation f \<Longrightarrow>
      (\<exists>t\<in>set (db_tasks db'). t_id t = task_id \<and> t_state t = TaskStateInFlight \<and>
         t_file_id t = Some (f_id r) \<and> t_generation t = f_generation r \<and> t_path_key t = f_path_key r) \<Longrightarrow>
      Q r db'"
  shows "wp (prepare_file_for_task now task_id f) Q E db"
proof -
  let ?f = "if f_status f = FileStatusEmpty then f\<lparr>f_status := FileStatusPending\<rparr> else f"
  let ?p = "\<lambda>t. t_id t = task_id \<and> t_state t = TaskStateInFlight"
  let ?g = "\<lambda>r t. t\<lparr>t_file_id := Some (f_id r), t_updated_at := now\<rparr>"
  have bind: "wp (tx_bind (update_tasks ?p (?g r)) (\<lambda>n. tx_bind (require_changed n) (\<lambda>_. tx_return r))) Q E
      (db\<lparr>db_files := fs\<rparr>)"
    if t: "t \<in> set (db_tasks db)" "?p t" "t_generation t = f_generation f"
        "t_path_key t = path_key (f_path f)"
      and r: "r \<in> set fs" "f_path_key r = path_key (f_path f)" "f_generation r = f_generation f"
      and i: "tx_inv db0 (db\<lparr>db_files := fs\<rparr>)" for t r fs
  proof -
    let ?us = "rows_update ?p (?g r) (db_tasks db)"
    have wf: "tasks_wf (db_tasks db)" using inv by (rule inv_tables)
    have us: "tasks_wf ?us"
      using tasks_wfD(2) [OF wf]
      by (intro tasks_wf_update_frame [OF wf]) (auto simp: task_ok_def t_slot_def)
    have "?g r t \<in> set ?us" using t by (force simp: set_rows_update)
    then have "Q r (db\<lparr>db_files := fs, db_tasks := ?us\<rparr>)"
      using t r inv_tasks [OF i us] by (intro Q) (auto intro!: bexI [of _ "?g r t"])
    then show ?thesis
      using us filter_id_nonempty [of t "db_tasks db" ?p] t by (simp add: wp_simps)
  qed
  show ?thesis
    unfolding prepare_file_for_task_def Let_def wp_bind
  proof (rule wp_task_for_transitionI)
    fix t assume t: "t \<in> set (db_tasks db)" "t_id t = task_id" "t_state t = TaskStateInFlight"
    have key: "t_path_key t = path_key (t_path t)" using tasks_wfD(3) [OF inv_tables(1) [OF inv] t(1)] .
    show "wp (if path_key (t_path t) \<noteq> path_key (f_path ?f) \<or> t_generation t \<noteq> f_generation ?f
          then tx_fail ErrTaskMismatch
          else tx_bind (case t_file_id t of None \<Rightarrow> upsert_file_tx ?f
                 | Some file_id \<Rightarrow> prepare_anchored_file_tx file_id ?f)
               (\<lambda>prepared. if (case t_file_id t of None \<Rightarrow> False | Some file_id \<Rightarrow> file_id \<noteq> f_id prepared)
                  then tx_fail ErrPathOwnership
                  else tx_bind (update_tasks ?p (?g prepared))
                    (\<lambda>n. tx_bind (require_changed n) (\<lambda>_. tx_return prepared)))) Q E db"
    proof (cases "path_key (t_path t) \<noteq> path_key (f_path ?f) \<or> t_generation t \<noteq> f_generation ?f")
      case True
      then show ?thesis using E by (simp add: wp_simps)
    next
      case False
      then have eq: "t_generation t = f_generation f" "t_path_key t = path_key (f_path f)"
        using key by (auto split: if_splits)
      show ?thesis
      proof (cases "t_file_id t")
        case None
        have "wp (upsert_file_tx ?f) (\<lambda>r. wp (tx_bind (update_tasks ?p (?g r))
            (\<lambda>n. tx_bind (require_changed n) (\<lambda>_. tx_return r))) Q E) E db"
          by (rule wp_upsert_file_tx [OF inv E]) (auto intro!: bind [of t] simp: t eq)
        then show ?thesis using False None by (simp add: wp_bind)
      next
        case (Some file_id)
        have "wp (prepare_anchored_file_tx file_id ?f) (\<lambda>r. wp (if file_id \<noteq> f_id r
            then tx_fail ErrPathOwnership else tx_bind (update_tasks ?p (?g r))
            (\<lambda>n. tx_bind (require_changed n) (\<lambda>_. tx_return r))) Q E) E db"
          by (rule wp_prepare_anchored_file_tx [OF inv E]) (auto intro!: bind [of t] simp: t eq)
        then show ?thesis using False Some by (simp add: wp_bind)
      qed
    qed
  qed (use E in auto)
qed

lemma wp_relocate_file:
  assumes inv: "tx_inv db0 db" and E: "\<And>e. no_conflict e \<Longrightarrow> E e"
    and Q: "\<And>r fs. r \<in> set fs \<Longrightarrow> f_id r = file_id \<Longrightarrow> f_path r = new_path \<Longrightarrow>
      f_generation r = generation \<Longrightarrow> tx_inv db0 (db\<lparr>db_files := fs\<rparr>) \<Longrightarrow>
      Q r (db\<lparr>db_files := fs\<rparr>)"
  shows "wp (relocate_file file_id generation new_path) Q E db"
proof -
  let ?fs = "db_files db" and ?h = "\<lambda>r. r\<lparr>f_path := new_path, f_path_key := path_key new_path\<rparr>"
  {
    fix old
    assume old: "old \<in> set ?fs" "f_id old = file_id" "f_generation old = generation"
      and own: "\<And>r. List.find (\<lambda>r. f_path_key r = path_key new_path) ?fs = Some r \<Longrightarrow> f_id r = file_id"
    let ?us = "rows_update (\<lambda>r. f_id r = file_id \<and> f_generation r = generation) ?h ?fs"
    have "file_ok (?h old)"
      using files_wfD(2) [OF inv_tables(2) [OF inv] old(1)] by (simp add: file_ok_def)
    then have "tx_inv db0 (db\<lparr>db_files := ?us\<rparr>)" "distinct (map f_path_key ?us)"
      "?h old \<in> set ?us"
      using inv_update_file_row [OF inv old, of ?h] own old by simp_all
    then have "distinct (map f_path_key ?us)" "Q (?h old) (db\<lparr>db_files := ?us\<rparr>)"
      using old by (auto intro!: Q)
  }
  then show ?thesis
    using E by (fastforce simp: relocate_file_def wp_simps split: option.splits dest: find_SomeD)
qed

lemma wp_mark_file_deleted:
  assumes inv: "tx_inv db0 db" and E: "E ErrStaleGeneration"
    and Q: "\<And>fs r. tx_inv db0 (db\<lparr>db_files := fs\<rparr>) \<Longrightarrow> r \<in> set fs \<Longrightarrow> f_id r = file_id \<Longrightarrow>
      f_generation r = generation \<Longrightarrow> f_status r = FileStatusDeleted \<Longrightarrow> Q () (db\<lparr>db_files := fs\<rparr>)"
  shows "wp (mark_file_deleted file_id generation) Q E db"
proof -
  let ?p = "\<lambda>r. f_id r = file_id \<and> f_generation r = generation"
  let ?h = "\<lambda>r. r\<lparr>f_status := FileStatusDeleted, f_indexed_at_ms := None\<rparr>"
  let ?us = "rows_update ?p ?h (db_files db)"
  have "file_ok (?h r)" if "r \<in> set (db_files db)" for r
    using files_wfD(2) [OF inv_tables(2) [OF inv] that] by (simp add: file_ok_def status_ok_def)
  then have frame: "tx_inv db0 (db\<lparr>db_files := ?us\<rparr>)" "distinct (map f_path_key ?us)"
    using inv_update_files_frame [OF inv, of ?p ?h] by simp_all
  have "Q () (db\<lparr>db_files := ?us\<rparr>)" if "filter ?p (db_files db) \<noteq> []"
  proof -
    from that obtain r where "r \<in> set (db_files db)" "?p r" by (auto simp: filter_empty_conv)
    then have "?h r \<in> set ?us" by (force simp: set_rows_update)
    then show ?thesis using frame \<open>?p r\<close> by (intro Q) auto
  qed
  then show ?thesis using frame(2) E by (simp add: mark_file_deleted_def wp_simps)
qed

section \<open>Pages\<close>

text \<open>
  A caller streams the catalog under a prefix by asking for the page after the last path it got.
  \<open>stream_pages\<close> is that loop, with fuel; one unit per row and one for the empty last page is
  enough.
\<close>

definition prefix_listing :: "db \<Rightarrow> string \<Rightarrow> catalog_file list" where
  "prefix_listing db pre =
     order_by f_path_key (filter (\<lambda>f. path_key_prefix_filter pre (f_path_key f)) (db_files db))"

fun stream_pages :: "nat \<Rightarrow> db \<Rightarrow> string \<Rightarrow> string \<Rightarrow> int \<Rightarrow> catalog_file list option" where
  "stream_pages 0 db pre after limit = None"
| "stream_pages (Suc fuel) db pre after limit =
     (let page = list_files_by_prefix_page db pre after limit in
      if page = [] then Some []
      else map_option (\<lambda>rest. page @ rest)
             (stream_pages fuel db pre (f_path (last page)) limit))"

lemma page_limit_pos: "0 < file_prefix_page_limit limit"
  by (simp add: file_prefix_page_limit_def default_file_prefix_page_limit_def
      max_file_prefix_page_limit_def)

lemma page_eq:
  "list_files_by_prefix_page db pre after limit =
     take (file_prefix_page_limit limit)
       (filter (\<lambda>f. (if after = [] then [] else path_key after) < f_path_key f) (prefix_listing db pre))"
  by (simp add: list_files_by_prefix_page_def prefix_listing_def order_by_def filter_sort Let_def
      conj_commute)

lemma prefix_listing_sorted:
  assumes "files_wf (db_files db)"
  shows "sorted_wrt (<) (map f_path_key (prefix_listing db pre))"
proof -
  let ?xs = "filter (\<lambda>f. path_key_prefix_filter pre (f_path_key f)) (db_files db)"
  have "distinct (map f_path_key ?xs)" using assms by (simp add: files_wf_def distinct_map_filter)
  then have "distinct (map f_path_key (prefix_listing db pre))"
    by (simp add: prefix_listing_def order_by_def distinct_map)
  moreover have "sorted (map f_path_key (prefix_listing db pre))"
    by (simp add: prefix_listing_def order_by_def)
  ultimately show ?thesis by (simp add: strict_sorted_iff)
qed

lemma prefix_listing_keys:
  "files_wf (db_files db) \<Longrightarrow> f \<in> set (prefix_listing db pre) \<Longrightarrow> f_path_key f = path_key (f_path f)"
  by (auto simp: prefix_listing_def order_by_def dest: files_wfD)

lemma filter_gt_nth:
  assumes "sorted_wrt (<) (map k xs)" and "i < length xs"
  shows "filter (\<lambda>x. k (xs ! i) < (k x :: 'a::linorder)) xs = drop (Suc i) xs"
  using assms
proof (induction xs arbitrary: i)
  case (Cons x xs)
  then show ?case
  proof (cases i)
    case 0
    then show ?thesis using Cons.prems by (auto simp: filter_id_conv)
  next
    case (Suc j)
    then have j: "j < length xs" using Cons.prems by simp
    then have "k x < k (xs ! j)" using Cons.prems by (simp add: nth_mem)
    then have "\<not> k (xs ! j) < k x" by simp
    moreover have "filter (\<lambda>y. k (xs ! j) < k y) xs = drop (Suc j) xs"
      using Cons.prems j by (intro Cons.IH) simp_all
    ultimately show ?thesis using Suc by simp
  qed
qed simp

lemma take_drop_page: "take n (drop i xs) @ drop (i + min n (length xs - i)) xs = drop i xs"
proof (cases "n \<le> length xs - i")
  case True
  have "take n (drop i xs) @ drop n (drop i xs) = drop i xs" by (rule append_take_drop_id)
  then show ?thesis using True by (simp add: min_def add.commute)
qed simp

lemma stream_pages_from:
  assumes wf: "files_wf (db_files db)" and paths: "\<forall>f\<in>set (db_files db). f_path f \<noteq> []"
    and "drop i (prefix_listing db pre) =
      filter (\<lambda>f. (if after = [] then [] else path_key after) < f_path_key f) (prefix_listing db pre)"
    and "length (prefix_listing db pre) - i < fuel"
  shows "stream_pages fuel db pre after limit = Some (drop i (prefix_listing db pre))"
  using assms(3,4)
proof (induction fuel arbitrary: i after)
  case (Suc fuel)
  let ?L = "prefix_listing db pre" and ?n = "file_prefix_page_limit limit"
  let ?page = "take ?n (drop i ?L)" and ?m = "min ?n (length (prefix_listing db pre) - i)"
  have page: "list_files_by_prefix_page db pre after limit = ?page"
    using Suc.prems(1) by (simp add: page_eq)
  show ?case
  proof (cases "i < length ?L")
    case i: True
    then have m: "0 < ?m" using page_limit_pos [of limit] by simp
    have ne: "?page \<noteq> []" using i page_limit_pos [of limit] by simp
    let ?x = "?L ! (i + (?m - 1))"
    have lt: "i + (?m - 1) < length ?L" using i m by linarith
    have len: "length ?page = ?m" by (simp add: min.commute)
    have "last ?page = ?page ! (?m - 1)" using last_conv_nth [OF ne] by (simp only: len)
    also have "\<dots> = drop i ?L ! (?m - 1)" using m by (intro nth_take) linarith
    also have "\<dots> = ?x" using i by simp
    finally have last: "last ?page = ?x" .
    have x: "?x \<in> set ?L" using lt by (rule nth_mem)
    then have "?x \<in> set (db_files db)" by (simp add: prefix_listing_def order_by_def)
    then have np: "f_path ?x \<noteq> []" using paths by blast
    have "i + ?m = Suc (i + (?m - 1))" using m by linarith
    then have "drop (i + ?m) ?L = drop (Suc (i + (?m - 1))) ?L" by (rule arg_cong)
    also have "\<dots> = filter (\<lambda>f. f_path_key ?x < f_path_key f) ?L"
      using prefix_listing_sorted [OF wf] lt by (rule filter_gt_nth [symmetric])
    finally have rest: "drop (i + ?m) ?L =
        filter (\<lambda>f. (if f_path ?x = [] then [] else path_key (f_path ?x)) < f_path_key f) ?L"
      using np prefix_listing_keys [OF wf x] by simp
    have "length ?L - (i + ?m) < fuel" using Suc.prems(2) m i by linarith
    then have "stream_pages fuel db pre (f_path ?x) limit = Some (drop (i + ?m) ?L)"
      using rest by (intro Suc.IH)
    moreover have "?page @ drop (i + ?m) ?L = drop i ?L"
      by (rule take_drop_page)
    ultimately show ?thesis using page ne last by simp
  qed (use page in simp)
qed simp

lemma stream_pages_complete:
  assumes "files_wf (db_files db)" and "\<forall>f\<in>set (db_files db). f_path f \<noteq> []"
  shows "stream_pages (Suc (length (db_files db))) db pre [] limit = Some (prefix_listing db pre)"
proof -
  have k: "[] < f_path_key f" if "f \<in> set (prefix_listing db pre)" for f
    using prefix_listing_keys [OF assms(1) that] path_key_nonempty [of "f_path f"]
    by (cases "path_key (f_path f)") auto
  have "length (prefix_listing db pre) \<le> length (db_files db)"
    by (simp add: prefix_listing_def order_by_def)
  then have "stream_pages (Suc (length (db_files db))) db pre [] limit = Some (drop 0 (prefix_listing db pre))"
    using k by (intro stream_pages_from [OF assms]) (simp_all add: filter_True)
  then show ?thesis by simp
qed

end
