(* ===== verification/Store_Dead.thy ===== *)
theory Store_Dead
  imports Store_Catalog
begin

text \<open>
  Dead letters and the audit outbox: \<open>internal/store/audit_outbox.go\<close> and the part of
  \<open>internal/store/deadletter.go\<close> that does not touch the queue (validation, the fenced upsert,
  the reads and the deletes).  Redriving is in \<open>Store_Redrive\<close>.
\<close>

section \<open>The audit outbox\<close>

definition audit_action_create :: string where
  "audit_action_create = ''dead_letter.create''"

definition audit_action_redrive :: string where
  "audit_action_redrive = ''dead_letter.redrive''"

definition audit_source_pipeline :: string where "audit_source_pipeline = ''pipeline''"
definition audit_source_manual :: string where "audit_source_manual = ''manual''"
definition audit_source_version_mismatch :: string where
  "audit_source_version_mismatch = ''version_mismatch''"
definition audit_source_crash_recovery :: string where
  "audit_source_crash_recovery = ''crash_recovery''"

definition insert_audit :: "audit_entry \<Rightarrow> unit stx" where
  "insert_audit a = tx_modify (\<lambda>db. db\<lparr>
     db_audit := db_audit db @ [a\<lparr>au_id := db_audit_seq db + 1\<rparr>],
     db_audit_seq := db_audit_seq db + 1\<rparr>)"

definition enqueue_dead_letter_audit_tx ::
    "int \<Rightarrow> string \<Rightarrow> string \<Rightarrow> int \<Rightarrow> int \<Rightarrow> string \<Rightarrow> dead_letter \<Rightarrow> unit stx" where
  "enqueue_dead_letter_audit_tx now action source task_id generation target dead =
     (if action \<noteq> audit_action_create \<and> action \<noteq> audit_action_redrive then
        tx_fail (ErrInvalidArgument ''invalid dead-letter audit action'')
      else if source = [] then
        tx_fail (ErrInvalidArgument ''dead-letter audit source is empty'')
      else if task_id \<le> 0 \<or> d_file_id dead \<le> 0 \<or> generation < 1 \<or> target = [] then
        tx_fail (ErrInvalidArgument ''dead-letter audit correlation is incomplete'')
      else
        tx_bind (tx_lift (merge_failure_history [d_error_chain dead])) (\<lambda>error_chain.
        tx_bind (tx_lift (merge_failure_history [d_attempts_log dead])) (\<lambda>attempts_log.
        insert_audit \<lparr>au_id = 0, au_action = action, au_source = source, au_task_id = task_id,
          au_file_id = d_file_id dead, au_generation = generation, au_target = target,
          au_details = \<lparr>ad_stage = d_stage dead, ad_error_class = d_error_class dead,
            ad_error_chain = error_chain, ad_attempts_log = attempts_log,
            ad_extractor_version = d_extractor_version dead,
            ad_embed_model_version = d_embed_model_version dead,
            ad_dead_generation = d_generation dead\<rparr>,
          au_created_at = now\<rparr>)))"

definition list_audit_outbox :: "db \<Rightarrow> int \<Rightarrow> audit_entry list" where
  "list_audit_outbox db limit = take (list_limit limit) (order_by au_id (db_audit db))"

definition delete_audit_outbox_if_match :: "int \<Rightarrow> bool stx" where
  "delete_audit_outbox_if_match i =
     (if i \<le> 0 then tx_fail (ErrInvalidArgument ''audit outbox ID must be positive'')
      else
        tx_bind (tx_read (\<lambda>db. length (filter (\<lambda>a. au_id a = i) (db_audit db)))) (\<lambda>n.
        tx_bind (tx_modify (\<lambda>db. db\<lparr>db_audit := rows_delete (\<lambda>a. au_id a = i) (db_audit db)\<rparr>)) (\<lambda>_.
        tx_return (n = 1))))"

definition count_audit_outbox :: "db \<Rightarrow> nat" where
  "count_audit_outbox db = length (db_audit db)"

section \<open>Dead letters\<close>

text \<open>The merged histories are JSON by construction, so \<open>json.Valid\<close> is the array case.\<close>

definition validate_dead_letter :: "dead_letter \<Rightarrow> store_error + unit" where
  "validate_dead_letter dead =
     (if d_file_id dead \<le> 0 then
        Inl (ErrInvalidArgument ''dead letter file ID must be positive'')
      else if d_path dead = [] \<or> d_generation dead < 1 \<or> d_stage dead = [] \<or>
          d_error_class dead = [] then
        Inl (ErrInvalidArgument ''dead letter is missing required fields'')
      else if d_error_chain dead \<in> {HistEmpty, HistMalformed} then
        Inl (ErrInvalidArgument ''dead letter error_chain is not valid JSON'')
      else if d_attempts_log dead \<in> {HistEmpty, HistMalformed} then
        Inl (ErrInvalidArgument ''dead letter attempts_log is not valid JSON'')
      else Inr ())"

definition upsert_dead_row :: "dead_letter \<Rightarrow> dead_letter \<Rightarrow> dead_letter" where
  "upsert_dead_row excluded old = old\<lparr>
     d_path := d_path excluded, d_generation := d_generation excluded,
     d_stage := d_stage excluded, d_error_class := d_error_class excluded,
     d_error_chain := d_error_chain excluded, d_attempts_log := d_attempts_log excluded,
     d_extractor_version := d_extractor_version excluded,
     d_embed_model_version := d_embed_model_version excluded,
     d_updated_at := d_updated_at excluded\<rparr>"

text \<open>
  \<open>INSERT \<dots> ON CONFLICT(file_id) DO UPDATE \<dots> WHERE excluded.generation >= dead_letters.generation\<close>:
  an older generation leaves the row as it is, without an error.
\<close>

definition put_dead_letter :: "dead_letter \<Rightarrow> dead_letter list \<Rightarrow> dead_letter list" where
  "put_dead_letter dead ds =
     (if List.find (\<lambda>d. d_file_id d = d_file_id dead) ds = None then ds @ [dead]
      else rows_update (\<lambda>d. d_file_id d = d_file_id dead \<and> d_generation d \<le> d_generation dead)
             (upsert_dead_row dead) ds)"

definition upsert_dead_letter_tx :: "int \<Rightarrow> dead_letter \<Rightarrow> unit stx" where
  "upsert_dead_letter_tx now dead0 =
     (let dead1 = dead0\<lparr>
        d_created_at := (if d_created_at dead0 = 0 then now else d_created_at dead0),
        d_updated_at := (if d_updated_at dead0 = 0 then now else d_updated_at dead0)\<rparr> in
      tx_bind (tx_lift (merge_failure_history [d_error_chain dead1])) (\<lambda>error_chain.
      tx_bind (tx_lift (merge_failure_history [d_attempts_log dead1])) (\<lambda>attempts_log.
      let dead = dead1\<lparr>d_error_chain := HistArray error_chain,
                       d_attempts_log := HistArray attempts_log\<rparr> in
      tx_bind (tx_lift (validate_dead_letter dead)) (\<lambda>_.
      tx_modify (\<lambda>db. db\<lparr>db_dead := put_dead_letter dead (db_dead db)\<rparr>)))))"

definition get_dead_letter :: "db \<Rightarrow> int \<Rightarrow> store_error + dead_letter" where
  "get_dead_letter db i =
     (case List.find (\<lambda>d. d_file_id d = i) (db_dead db) of
        None \<Rightarrow> Inl ErrNotFound | Some d \<Rightarrow> Inr d)"

definition get_dead_letter_by_task_id :: "db \<Rightarrow> int \<Rightarrow> store_error + dead_letter" where
  "get_dead_letter_by_task_id db task_id =
     (if task_id \<le> 0 then Inl (ErrInvalidArgument ''dead-letter task ID must be positive'')
      else case List.find (\<lambda>t. t_id t = task_id) (db_tasks db) of
        None \<Rightarrow> Inl ErrNotFound
      | Some t \<Rightarrow> (case t_file_id t of None \<Rightarrow> Inl ErrNotFound | Some i \<Rightarrow> get_dead_letter db i))"

text \<open>\<open>ORDER BY updated_at DESC,file_id\<close>: the first key is negated.\<close>

definition list_dead_letters :: "db \<Rightarrow> string \<Rightarrow> int \<Rightarrow> dead_letter list" where
  "list_dead_letters db error_class limit =
     take (list_limit limit)
       (order_by (\<lambda>d. - d_updated_at d) (order_by d_file_id
         (filter (\<lambda>d. error_class = [] \<or> d_error_class d = error_class) (db_dead db))))"

definition list_dead_letters_after :: "db \<Rightarrow> int \<Rightarrow> int \<Rightarrow> store_error + dead_letter list" where
  "list_dead_letters_after db after limit =
     (if after < 0 then Inl (ErrInvalidArgument ''dead-letter page cursor is negative'')
      else Inr (take (list_limit limit)
             (order_by d_file_id (filter (\<lambda>d. after < d_file_id d) (db_dead db)))))"

definition by_updated_at :: "dead_letter list \<Rightarrow> dead_letter list" where
  "by_updated_at ds = order_by d_updated_at (order_by d_file_id ds)"

definition list_dead_letters_before :: "db \<Rightarrow> int \<Rightarrow> int \<Rightarrow> dead_letter list" where
  "list_dead_letters_before db cutoff limit =
     take (list_limit limit) (by_updated_at (filter (\<lambda>d. d_updated_at d < cutoff) (db_dead db)))"

definition count_dead_letters :: "db \<Rightarrow> nat" where
  "count_dead_letters db = length (db_dead db)"

definition delete_dead_letter :: "int \<Rightarrow> unit stx" where
  "delete_dead_letter file_id =
     tx_bind (delete_dead (\<lambda>d. d_file_id d = file_id)) (\<lambda>n.
     tx_check (n \<noteq> 0) ErrNotFound)"

definition delete_dead_letter_if_unchanged :: "int \<Rightarrow> int \<Rightarrow> int \<Rightarrow> bool stx" where
  "delete_dead_letter_if_unchanged file_id generation updated_at =
     (if file_id \<le> 0 \<or> generation < 1 \<or> updated_at \<le> 0 then
        tx_fail (ErrInvalidArgument ''invalid conditional dead letter delete key'')
      else
        tx_bind (delete_dead (\<lambda>d. d_file_id d = file_id \<and> d_generation d = generation \<and>
            d_updated_at d = updated_at)) (\<lambda>n.
        tx_return (n = 1)))"

section \<open>The outbox keeps its order\<close>

lemma wp_insert_audit [wp_simps]:
  "wp (insert_audit a) Q E db =
     Q () (db\<lparr>db_audit := db_audit db @ [a\<lparr>au_id := db_audit_seq db + 1\<rparr>],
              db_audit_seq := db_audit_seq db + 1\<rparr>)"
  by (simp add: insert_audit_def wp_simps)

lemma audit_wf_insert:
  "audit_wf as n \<Longrightarrow> audit_ok a \<Longrightarrow> au_id a = n + 1 \<Longrightarrow> audit_wf (as @ [a]) (n + 1)"
  by (auto simp: audit_wf_def sorted_wrt_append)

lemma audit_wf_delete: "audit_wf as n \<Longrightarrow> audit_wf (rows_delete p as) n"
  by (auto simp: audit_wf_def rows_delete_def sorted_wrt_filter sorted_wrt_map)

lemma inv_audit:
  "tx_inv db0 db \<Longrightarrow> audit_wf as n \<Longrightarrow> tx_inv db0 (db\<lparr>db_audit := as, db_audit_seq := n\<rparr>)"
  by (simp add: tx_inv_def db_wf_def)

lemma wp_enqueue_audit:
  assumes inv: "tx_inv db0 db" and E: "\<And>e. no_conflict e \<Longrightarrow> E e"
    and Q: "\<And>a. au_action a = action \<Longrightarrow> au_source a = source \<Longrightarrow> au_task_id a = task_id \<Longrightarrow>
      au_file_id a = d_file_id dead \<Longrightarrow> au_generation a = generation \<Longrightarrow> au_target a = target \<Longrightarrow>
      au_id a = db_audit_seq db + 1 \<Longrightarrow>
      tx_inv db0 (db\<lparr>db_audit := db_audit db @ [a], db_audit_seq := db_audit_seq db + 1\<rparr>) \<Longrightarrow>
      Q () (db\<lparr>db_audit := db_audit db @ [a], db_audit_seq := db_audit_seq db + 1\<rparr>)"
  shows "wp (enqueue_dead_letter_audit_tx now action source task_id generation target dead) Q E db"
proof -
  note wf = inv_tables(4) [OF inv]
  have "no_conflict e" if "merge_failure_history hs = Inl e" for e hs
    using merge_failure_history_errors [OF that] by simp
  then show ?thesis
    using E by (auto simp: enqueue_dead_letter_audit_tx_def wp_simps Let_def split: sum.splits
        intro!: Q inv_audit [OF inv] audit_wf_insert [OF wf] simp: audit_ok_def)
qed

text \<open>Identifiers of the outbox are in insertion order, so listing is a prefix of the table.\<close>

lemma audit_order: "audit_wf as n \<Longrightarrow> order_by au_id as = as"
  unfolding order_by_def audit_wf_def
  by (intro sort_key_id_if_sorted) (auto simp: strict_sorted_iff)

lemma list_audit_outbox_eq:
  "audit_wf (db_audit db) (db_audit_seq db) \<Longrightarrow>
     list_audit_outbox db limit = take (list_limit limit) (db_audit db)"
  by (simp add: list_audit_outbox_def audit_order)

lemma wp_delete_audit:
  assumes inv: "tx_inv db0 db" and E: "\<And>e. no_conflict e \<Longrightarrow> E e"
    and Q: "\<And>b as. as = rows_delete (\<lambda>a. au_id a = i) (db_audit db) \<Longrightarrow>
      b = (\<exists>a\<in>set (db_audit db). au_id a = i) \<Longrightarrow> tx_inv db0 (db\<lparr>db_audit := as\<rparr>) \<Longrightarrow>
      Q b (db\<lparr>db_audit := as\<rparr>)"
  shows "wp (delete_audit_outbox_if_match i) Q E db"
proof -
  let ?as = "db_audit db"
  have wf: "audit_wf ?as (db_audit_seq db)" using inv by (rule inv_tables)
  then have d: "distinct (map au_id ?as)" by (auto simp: audit_wf_def strict_sorted_iff)
  have "length (filter (\<lambda>a. au_id a = i) ?as) = 1 \<longleftrightarrow> (\<exists>a\<in>set ?as. au_id a = i)"
    using filter_one_iff [OF d, of "\<lambda>a. au_id a = i" i] by simp
  moreover have "tx_inv db0 (db\<lparr>db_audit := rows_delete (\<lambda>a. au_id a = i) ?as\<rparr>)"
    using inv_audit [OF inv audit_wf_delete [OF wf, of "\<lambda>a. au_id a = i"]] by simp
  ultimately show ?thesis
    using E by (auto simp: delete_audit_outbox_if_match_def wp_simps intro!: Q)
qed

section \<open>Dead letters stay well-formed\<close>

lemma dead_wf_unique:
  "dead_wf ds \<Longrightarrow> d \<in> set ds \<Longrightarrow> e \<in> set ds \<Longrightarrow> d_file_id d = d_file_id e \<Longrightarrow> d = e"
  by (auto simp: dead_wf_def dest: distinct_map_inj)

lemma dead_wf_put:
  assumes "dead_wf ds" and "dead_ok dead"
  shows "dead_wf (put_dead_letter dead ds)"
proof -
  have "d_file_id (upsert_dead_row dead d) = d_file_id d" for d by (simp add: upsert_dead_row_def)
  moreover have "dead_ok d \<Longrightarrow> dead_ok (upsert_dead_row dead d)" for d
    using assms(2) by (simp add: dead_ok_def upsert_dead_row_def)
  ultimately show ?thesis
    using assms by (auto simp: put_dead_letter_def dead_wf_def find_None_iff set_rows_update
        map_rows_update)
qed

lemma put_dead_letter_covers:
  "\<exists>d\<in>set (put_dead_letter dead ds). d_file_id d = d_file_id dead \<and> d_generation dead \<le> d_generation d"
proof (cases "List.find (\<lambda>d. d_file_id d = d_file_id dead) ds")
  case None
  then show ?thesis by (auto simp: put_dead_letter_def)
next
  case (Some d)
  then have d: "d \<in> set ds" "d_file_id d = d_file_id dead" by (auto dest: find_SomeD)
  let ?p = "\<lambda>d. d_file_id d = d_file_id dead \<and> d_generation d \<le> d_generation dead"
  let ?d = "if ?p d then upsert_dead_row dead d else d"
  have "?d \<in> set (put_dead_letter dead ds)"
    using Some d by (auto simp: put_dead_letter_def set_rows_update)
  moreover have "d_file_id ?d = d_file_id dead \<and> d_generation dead \<le> d_generation ?d"
    using d by (auto simp: upsert_dead_row_def)
  ultimately show ?thesis by blast
qed

lemma wp_upsert_dead_letter:
  assumes inv: "tx_inv db0 db" and E: "\<And>e. no_conflict e \<Longrightarrow> E e"
    and Q: "\<And>d ds. ds = put_dead_letter d (db_dead db) \<Longrightarrow> dead_ok d \<Longrightarrow>
      d_file_id d = d_file_id dead \<Longrightarrow> d_generation d = d_generation dead \<Longrightarrow>
      tx_inv db0 (db\<lparr>db_dead := ds\<rparr>) \<Longrightarrow> Q () (db\<lparr>db_dead := ds\<rparr>)"
  shows "wp (upsert_dead_letter_tx now dead) Q E db"
proof -
  have merge: "no_conflict e" if "merge_failure_history hs = Inl e" for e hs
    using merge_failure_history_errors [OF that] by simp
  have val: "no_conflict e" if "validate_dead_letter d = Inl e" for e d
    using that by (auto simp: validate_dead_letter_def split: if_splits)
  have Q': "Q () (db\<lparr>db_dead := put_dead_letter d (db_dead db)\<rparr>)"
    if "validate_dead_letter d = Inr u" "d_file_id d = d_file_id dead"
      "d_generation d = d_generation dead" "d_error_chain d = HistArray h" "d_attempts_log d = HistArray g"
      "merge_failure_history hs = Inr h" "merge_failure_history gs = Inr g"
    for d u h g hs gs
  proof -
    have ok: "dead_ok d"
      using that merge_failure_history_length [OF that(6)] merge_failure_history_length [OF that(7)]
      by (auto simp: validate_dead_letter_def dead_ok_def split: if_splits)
    show ?thesis
      using ok that
      by (intro Q [where d = d] inv_dead [OF inv] dead_wf_put inv_tables(3) [OF inv]) auto
  qed
  show ?thesis
    using E merge val
    by (auto simp: upsert_dead_letter_tx_def wp_simps Let_def split: sum.splits intro!: Q')
qed

lemma wp_delete_dead_letter:
  assumes "tx_inv db0 db" and "\<And>e. no_conflict e \<Longrightarrow> E e"
    and "\<And>ds. (\<forall>d\<in>set ds. d_file_id d \<noteq> i) \<Longrightarrow> tx_inv db0 (db\<lparr>db_dead := ds\<rparr>) \<Longrightarrow> Q () (db\<lparr>db_dead := ds\<rparr>)"
  shows "wp (delete_dead_letter i) Q E db"
proof -
  have "Q () (db\<lparr>db_dead := rows_delete (\<lambda>d. d_file_id d = i) (db_dead db)\<rparr>)"
    by (rule assms(3)) (simp_all add: inv_delete_dead [OF assms(1)])
  then show ?thesis using assms(2) by (simp add: delete_dead_letter_def wp_simps)
qed

text \<open>
  The conditional delete of the archive reaper removes the row exactly when it is still the one
  observed, and nothing else in any case.
\<close>

lemma wp_delete_dead_letter_if_unchanged:
  assumes inv: "tx_inv db0 db" and E: "\<And>e. no_conflict e \<Longrightarrow> E e"
    and Q: "\<And>b ds. ds = rows_delete (\<lambda>d. d_file_id d = i \<and> d_generation d = g \<and> d_updated_at d = u) (db_dead db) \<Longrightarrow>
      b = (\<exists>d\<in>set (db_dead db). d_file_id d = i \<and> d_generation d = g \<and> d_updated_at d = u) \<Longrightarrow>
      tx_inv db0 (db\<lparr>db_dead := ds\<rparr>) \<Longrightarrow> Q b (db\<lparr>db_dead := ds\<rparr>)"
  shows "wp (delete_dead_letter_if_unchanged i g u) Q E db"
proof -
  let ?p = "\<lambda>d. d_file_id d = i \<and> d_generation d = g \<and> d_updated_at d = u"
  have "distinct (map d_file_id (db_dead db))" using inv_tables(3) [OF inv] by (simp add: dead_wf_def)
  then have "length (filter ?p (db_dead db)) = 1 \<longleftrightarrow> (\<exists>d\<in>set (db_dead db). ?p d)"
    using filter_one_iff [of d_file_id "db_dead db" ?p i] by simp
  then show ?thesis
    using E by (auto simp: delete_dead_letter_if_unchanged_def wp_simps
        intro!: Q inv_delete_dead [OF inv])
qed

end
