(* ===== verification/Store_Queue.thy ===== *)
theory Store_Queue
  imports Store_Dead "HOL-Library.Product_Lexorder"
begin

text \<open>
  The task queue, \<open>internal/store/taskqueue.go\<close>: enqueueing with its coalescing upsert, the
  generation bump of filesystem events, claiming, and the transitions out of \<open>in_flight\<close>.
  Every operation is the body of its transaction; \<open>with_tx\<close> of \<open>Prelude\<close> is the boundary.
\<close>

section \<open>Enqueueing\<close>

record enqueue_params =
  ep_file_id :: "int option"
  ep_path :: string
  ep_op :: task_op
  ep_old_path :: "string option"
  ep_generation :: int
  ep_priority :: int
  ep_next_attempt_at :: int

record enqueue_result =
  er_task :: task
  er_inserted :: bool

definition validate_enqueue :: "enqueue_params \<Rightarrow> store_error + unit" where
  "validate_enqueue params =
     (if ep_path params = [] then Inl (ErrInvalidArgument ''task path is empty'')
      else if ep_generation params < 1 then
        Inl (ErrInvalidArgument ''task generation must be positive'')
      else if ep_priority params < 0 then Inl (ErrInvalidArgument ''task priority is negative'')
      else case ep_op params of
        TaskOpUpsert \<Rightarrow>
          if ep_old_path params \<noteq> None then
            Inl (ErrInvalidArgument ''task cannot have old_path'') else Inr ()
      | TaskOpRemove \<Rightarrow>
          if ep_old_path params \<noteq> None then
            Inl (ErrInvalidArgument ''task cannot have old_path'') else Inr ()
      | TaskOpRelocate \<Rightarrow>
          if ep_old_path params = None \<or> ep_old_path params = Some [] then
            Inl (ErrInvalidArgument ''relocate task requires old_path'') else Inr ()
      | TaskOpInvalid _ \<Rightarrow> Inl (ErrInvalidArgument ''invalid task operation''))"

text \<open>The inserted row, with the column defaults of the schema.\<close>

definition new_pending_row :: "int \<Rightarrow> enqueue_params \<Rightarrow> task" where
  "new_pending_row now params =
     \<lparr>t_id = 0, t_file_id = ep_file_id params, t_path = ep_path params,
      t_path_key = path_key (ep_path params), t_op = ep_op params,
      t_old_path = ep_old_path params, t_old_path_key = nullable_path_key (ep_old_path params),
      t_generation = ep_generation params, t_state = TaskStatePending,
      t_priority = ep_priority params, t_attempts = 0, t_crash_count = 0,
      t_next_attempt_at = ep_next_attempt_at params, t_last_error = None,
      t_created_at = now, t_updated_at = now, t_charge = 1, t_attempts_log = [],
      t_error_chain = []\<rparr>"

text \<open>
  The \<open>DO UPDATE SET\<close> list: the newer of the two generations wins the description of the work,
  a strictly newer one also starts a fresh failure history.
\<close>

definition coalesce_row :: "int \<Rightarrow> enqueue_params \<Rightarrow> task \<Rightarrow> task" where
  "coalesce_row now params old =
     (let wins = t_generation old \<le> ep_generation params;
          newer = t_generation old < ep_generation params
      in old\<lparr>
        t_file_id := (if wins then (case ep_file_id params of Some i \<Rightarrow> Some i | None \<Rightarrow> t_file_id old)
                      else t_file_id old),
        t_path := (if wins then ep_path params else t_path old),
        t_op := (if wins then ep_op params else t_op old),
        t_old_path := (if wins then ep_old_path params else t_old_path old),
        t_old_path_key := (if wins then nullable_path_key (ep_old_path params) else t_old_path_key old),
        t_charge := (if newer then 1 else t_charge old),
        t_attempts := (if newer then 0 else t_attempts old),
        t_crash_count := (if newer then 0 else t_crash_count old),
        t_attempts_log := (if newer then [] else t_attempts_log old),
        t_error_chain := (if newer then [] else t_error_chain old),
        t_last_error := (if newer then None else t_last_error old),
        t_generation := max (t_generation old) (ep_generation params),
        t_priority := min (t_priority old) (ep_priority params),
        t_next_attempt_at := min (t_next_attempt_at old) (ep_next_attempt_at params),
        t_updated_at := now\<rparr>)"

definition enqueue_tx :: "int \<Rightarrow> enqueue_params \<Rightarrow> enqueue_result stx" where
  "enqueue_tx now params =
     tx_bind (tx_lift (validate_enqueue params)) (\<lambda>_.
     let key = path_key (ep_path params) in
     tx_bind (find_task (\<lambda>t. t_path_key t = key \<and> t_state t = TaskStatePending)) (\<lambda>existing.
     case existing of
       None \<Rightarrow>
         tx_bind (insert_task (new_pending_row now params)) (\<lambda>row.
         tx_return \<lparr>er_task = row, er_inserted = True\<rparr>)
     | Some old \<Rightarrow>
         tx_bind (update_tasks (\<lambda>t. t_path_key t = key \<and> t_state t = TaskStatePending)
                    (coalesce_row now params)) (\<lambda>_.
         tx_return \<lparr>er_task = coalesce_row now params old, er_inserted = False\<rparr>)))"

definition enqueue :: "int \<Rightarrow> enqueue_params \<Rightarrow> db \<Rightarrow> (store_error + enqueue_result) \<times> db" where
  "enqueue now params = with_tx (enqueue_tx now params)"

section \<open>Events: bump and enqueue\<close>

text \<open>\<open>SELECT COALESCE(MAX(generation),0) FROM tasks WHERE path_key IN (...)\<close>.\<close>

definition max_task_generation :: "string list \<Rightarrow> task list \<Rightarrow> int" where
  "max_task_generation keys ts =
     max_of (map t_generation (filter (\<lambda>t. t_path_key t \<in> set keys) ts))"

text \<open>
  The generation of work on a path the catalog does not know yet.  The addition is a Go
  \<open>int64\<close> addition, and wraps.
\<close>

definition pre_catalog_generation :: "int \<Rightarrow> int \<Rightarrow> int" where
  "pre_catalog_generation maximum generation =
     (let g = (if generation \<le> maximum then wrap64 (maximum + 1) else generation)
      in if g < 1 then 1 else g)"

text \<open>
  The path whose catalog row an event concerns: the old one for a relocation.  Its key is also
  the second key of the \<open>MAX(generation)\<close> query.
\<close>

definition event_catalog_path :: "enqueue_params \<Rightarrow> string" where
  "event_catalog_path params =
     (if ep_op params = TaskOpRelocate
      then (case ep_old_path params of Some old_path \<Rightarrow> old_path | None \<Rightarrow> ep_path params)
      else ep_path params)"

text \<open>
  The parameters after the generation fence has been advanced.  \<open>BumpGenerationTx\<close> fails with
  \<open>ErrNotFound\<close> exactly when the catalog has no row of that path key; its other errors are
  returned.
\<close>

definition advance_generation :: "enqueue_params \<Rightarrow> enqueue_params stx" where
  "advance_generation params =
     (let catalog_path = event_catalog_path params in
     tx_bind (find_file (\<lambda>f. f_path_key f = path_key catalog_path)) (\<lambda>known.
     if known \<noteq> None then
       tx_bind (bump_generation_tx catalog_path) (\<lambda>f.
       tx_return (params\<lparr>ep_file_id := Some (f_id f), ep_generation := f_generation f\<rparr>))
     else
       tx_bind (find_task (\<lambda>t. t_path_key t = path_key (ep_path params) \<and>
                               t_state t = TaskStatePending)) (\<lambda>pending.
       case (case pending of None \<Rightarrow> None | Some p \<Rightarrow> map_option (\<lambda>i. (p, i)) (t_file_id p)) of
         Some (p, anchor) \<Rightarrow>
           tx_bind (bump_file_generation_by_id_tx anchor) (\<lambda>f.
           let params' = params\<lparr>ep_file_id := Some (f_id f), ep_generation := f_generation f\<rparr> in
           tx_return
             (if t_op p = TaskOpRelocate \<and> ep_op params = TaskOpUpsert
              then params'\<lparr>ep_op := TaskOpRelocate, ep_old_path := t_old_path p\<rparr>
              else params'))
       | None \<Rightarrow>
           tx_bind (tx_read (\<lambda>db. max_task_generation
             [path_key (ep_path params), path_key catalog_path] (db_tasks db))) (\<lambda>maximum.
           tx_return (params\<lparr>ep_generation :=
             pre_catalog_generation maximum (ep_generation params)\<rparr>)))))"

definition enqueue_and_bump_generation_tx :: "int \<Rightarrow> enqueue_params \<Rightarrow> enqueue_result stx" where
  "enqueue_and_bump_generation_tx now params =
     tx_bind (advance_generation params) (enqueue_tx now)"

definition enqueue_and_bump_generation ::
    "int \<Rightarrow> enqueue_params \<Rightarrow> db \<Rightarrow> (store_error + enqueue_result) \<times> db" where
  "enqueue_and_bump_generation now params = with_tx (enqueue_and_bump_generation_tx now params)"

section \<open>Claiming\<close>

datatype claim_source = ClaimAny | ClaimFresh | ClaimRetry

definition source_predicate :: "claim_source \<Rightarrow> task \<Rightarrow> bool" where
  "source_predicate source t = (case source of
     ClaimAny \<Rightarrow> True
   | ClaimFresh \<Rightarrow> t_attempts t = 0 \<or> t_charge t = 0
   | ClaimRetry \<Rightarrow> t_attempts t > 0 \<and> t_charge t \<noteq> 0)"

definition claimable :: "int \<Rightarrow> claim_source \<Rightarrow> task list \<Rightarrow> task \<Rightarrow> bool" where
  "claimable now source ts t \<longleftrightarrow>
     t_state t = TaskStatePending \<and> t_next_attempt_at t \<le> now \<and> source_predicate source t \<and>
     \<not> (\<exists>u\<in>set ts. t_path_key u = t_path_key t \<and> t_state u = TaskStateInFlight)"

definition claim_order :: "task \<Rightarrow> int \<times> int" where
  "claim_order t = (t_priority t, t_id t)"

definition claim_candidates :: "int \<Rightarrow> int \<Rightarrow> claim_source \<Rightarrow> task list \<Rightarrow> task list" where
  "claim_candidates n now source ts =
     take (nat n) (order_by claim_order (filter (claimable now source ts) ts))"

definition claimed_row :: "int \<Rightarrow> task \<Rightarrow> task" where
  "claimed_row now t = t\<lparr>t_state := TaskStateInFlight, t_attempts := t_attempts t + t_charge t,
     t_updated_at := now\<rparr>"

definition claim_tx :: "int \<Rightarrow> int \<Rightarrow> claim_source \<Rightarrow> task list stx" where
  "claim_tx n now source =
     (if n \<le> 0 then tx_return []
      else
        tx_bind (tx_read (\<lambda>db. map t_id (claim_candidates n now source (db_tasks db)))) (\<lambda>ids.
        tx_bind (update_tasks (\<lambda>t. t_id t \<in> set ids) (claimed_row now)) (\<lambda>_.
        tx_bind (tx_read (\<lambda>db. filter (\<lambda>t. t_id t \<in> set ids) (db_tasks db))) (\<lambda>returned.
        tx_return (order_by claim_order returned)))))"

definition claim :: "int \<Rightarrow> int \<Rightarrow> claim_source \<Rightarrow> db \<Rightarrow> (store_error + task list) \<times> db" where
  "claim n now source = with_tx (claim_tx n now source)"

section \<open>Reads\<close>

definition get_task :: "db \<Rightarrow> int \<Rightarrow> store_error + task" where
  "get_task db task_id =
     (case List.find (\<lambda>t. t_id t = task_id) (db_tasks db) of
        None \<Rightarrow> Inl ErrNotFound | Some t \<Rightarrow> Inr t)"

definition list_tasks :: "db \<Rightarrow> task_state \<Rightarrow> int \<Rightarrow> task list" where
  "list_tasks db st limit =
     take (list_limit limit) (order_by claim_order (filter (\<lambda>t. t_state t = st) (db_tasks db)))"

definition count_tasks :: "db \<Rightarrow> task_state \<Rightarrow> nat" where
  "count_tasks db st = length (filter (\<lambda>t. t_state t = st) (db_tasks db))"

section \<open>Completion\<close>

definition mark_done_tx :: "int \<Rightarrow> int \<Rightarrow> bool \<Rightarrow> unit stx" where
  "mark_done_tx now task_id clear_resolved =
     tx_bind (task_for_transition task_id TaskStateInFlight) (\<lambda>task.
     tx_bind (delete_tasks (\<lambda>t. t_path_key t = path_key (t_path task) \<and>
                t_state t = TaskStateDone \<and> t_id t \<noteq> t_id task)) (\<lambda>_.
     tx_bind (update_tasks (\<lambda>t. t_id t = task_id \<and> t_state t = TaskStateInFlight)
                (\<lambda>t. t\<lparr>t_state := TaskStateDone, t_updated_at := now\<rparr>)) (\<lambda>n.
     tx_bind (require_changed n) (\<lambda>_.
     case t_file_id task of
       Some file_id \<Rightarrow>
         if clear_resolved then
           tx_bind (delete_dead (\<lambda>d. d_file_id d = file_id \<and> d_generation d < t_generation task))
             (\<lambda>_. tx_return ())
         else tx_return ()
     | None \<Rightarrow> tx_return ()))))"

definition mark_done :: "int \<Rightarrow> int \<Rightarrow> db \<Rightarrow> (store_error + unit) \<times> db" where
  "mark_done now task_id = with_tx (mark_done_tx now task_id True)"

record complete_params =
  cp_task_id :: int
  cp_file_id :: int
  cp_generation :: int
  cp_status :: file_status
  cp_indexed_at :: "int option"
  cp_extractor_version :: "string option"
  cp_embed_model_version :: "string option"

text \<open>A fenced catalog update; the status is checked only when a row is written.\<close>

definition update_file_status ::
    "int \<Rightarrow> int \<Rightarrow> file_status \<Rightarrow> (catalog_file \<Rightarrow> catalog_file) \<Rightarrow> unit stx" where
  "update_file_status file_id generation st h =
     tx_bind (find_file (\<lambda>r. f_id r = file_id \<and> f_generation r = generation)) (\<lambda>row.
     if row \<noteq> None \<and> \<not> status_ok st then
       tx_fail (ErrInvalidArgument ''CHECK constraint failed'')
     else
       tx_bind (update_files (\<lambda>r. f_id r = file_id \<and> f_generation r = generation)
         (\<lambda>r. (h r)\<lparr>f_status := st\<rparr>)) (\<lambda>n.
       require_current n))"

definition complete_task_tx :: "int \<Rightarrow> complete_params \<Rightarrow> unit stx" where
  "complete_task_tx now params =
     (let st = (if cp_status params = FileStatusEmpty then FileStatusIndexed else cp_status params) in
     tx_bind (task_for_transition (cp_task_id params) TaskStateInFlight) (\<lambda>task.
     if t_file_id task \<noteq> Some (cp_file_id params) \<or> t_generation task \<noteq> cp_generation params then
       tx_fail ErrTaskMismatch
     else
       tx_bind (update_file_status (cp_file_id params) (cp_generation params) st
         (\<lambda>r. r\<lparr>f_indexed_at_ms := cp_indexed_at params,
                f_extractor_version := cp_extractor_version params,
                f_embed_model_version := cp_embed_model_version params\<rparr>)) (\<lambda>_.
       mark_done_tx now (cp_task_id params) True)))"

definition complete_task :: "int \<Rightarrow> complete_params \<Rightarrow> db \<Rightarrow> (store_error + unit) \<times> db" where
  "complete_task now params = with_tx (complete_task_tx now params)"

record committed_task =
  ct_task_id :: int
  ct_file_id :: int
  ct_generation :: int
  ct_stale :: bool
  ct_status :: file_status
  ct_indexed_at :: "int option"

definition committed_status :: "committed_task \<Rightarrow> file_status" where
  "committed_status item =
     (if ct_status item = FileStatusEmpty then FileStatusIndexed else ct_status item)"

definition complete_committed_tx :: "int \<Rightarrow> committed_task \<Rightarrow> unit stx" where
  "complete_committed_tx now item =
     (let st = committed_status item in
      if st \<noteq> FileStatusIndexed \<and> st \<noteq> FileStatusDeleted then
        tx_fail (ErrInvalidArgument ''invalid committed status'')
      else
        tx_bind (task_for_transition (ct_task_id item) TaskStateInFlight) (\<lambda>task.
        if t_file_id task \<noteq> Some (ct_file_id item) \<or> t_generation task \<noteq> ct_generation item then
          tx_fail ErrTaskMismatch
        else
          tx_bind (if ct_stale item then tx_return ()
                   else update_file_status (ct_file_id item) (ct_generation item) st
                          (\<lambda>r. r\<lparr>f_indexed_at_ms := ct_indexed_at item\<rparr>)) (\<lambda>_.
          mark_done_tx now (ct_task_id item) (\<not> ct_stale item))))"

definition complete_committed_batch ::
    "int \<Rightarrow> committed_task list \<Rightarrow> db \<Rightarrow> (store_error + unit) \<times> db" where
  "complete_committed_batch now items =
     (if items = [] then (\<lambda>db. (Inr (), db))
      else with_tx (tx_each (complete_committed_tx now) items))"

section \<open>Retry and dependency waits\<close>

text \<open>
  \<open>markRetry\<close>: a real failure is charged once, whether or not the lease was free, and recorded;
  a refunded one leaves attempts and histories as they were before the claim.
\<close>

definition retry_row ::
    "int \<Rightarrow> int \<Rightarrow> string \<Rightarrow> bool \<Rightarrow> history_entry list \<Rightarrow> history_entry list \<Rightarrow> task \<Rightarrow> task" where
  "retry_row now next_attempt last_error refund attempts_log error_chain t = t\<lparr>
     t_state := TaskStateRetryWait,
     t_attempts := (if refund then max (t_attempts t - t_charge t) 0
                    else t_attempts t + (1 - t_charge t)),
     t_charge := (if refund then t_charge t else 1),
     t_next_attempt_at := next_attempt, t_last_error := Some (ErrText last_error),
     t_attempts_log := attempts_log, t_error_chain := error_chain, t_updated_at := now\<rparr>"

definition mark_retry_tx :: "int \<Rightarrow> int \<Rightarrow> int \<Rightarrow> string \<Rightarrow> bool \<Rightarrow> unit stx" where
  "mark_retry_tx now task_id next_attempt last_error refund =
     tx_bind (task_for_transition task_id TaskStateInFlight) (\<lambda>task.
     tx_bind (clear_older_state_slot task TaskStateRetryWait) (\<lambda>_.
     tx_bind (tx_lift (if refund then Inr (t_attempts_log task)
                       else append_failure_history (t_attempts_log task)
                              (AttemptEntry (t_attempts task + (1 - t_charge task)) now
                                ''transient'' last_error))) (\<lambda>attempts_log.
     tx_bind (tx_lift (if refund then Inr (t_error_chain task)
                       else append_failure_history (t_error_chain task)
                              (ErrorEntry ''retry'' last_error))) (\<lambda>error_chain.
     tx_bind (update_tasks (\<lambda>t. t_id t = task_id \<and> t_state t = TaskStateInFlight)
                (retry_row now next_attempt last_error refund attempts_log error_chain)) (\<lambda>n.
     require_changed n)))))"

definition mark_retry :: "int \<Rightarrow> int \<Rightarrow> int \<Rightarrow> string \<Rightarrow> db \<Rightarrow> (store_error + unit) \<times> db" where
  "mark_retry now task_id next_attempt last_error =
     with_tx (mark_retry_tx now task_id next_attempt last_error False)"

definition mark_dispatch_retry :: "int \<Rightarrow> int \<Rightarrow> int \<Rightarrow> string \<Rightarrow> db \<Rightarrow> (store_error + unit) \<times> db" where
  "mark_dispatch_retry now task_id next_attempt last_error =
     with_tx (mark_retry_tx now task_id next_attempt last_error True)"

fun validate_dependency_batch :: "int set \<Rightarrow> int list \<Rightarrow> store_error + unit" where
  "validate_dependency_batch seen [] = Inr ()"
| "validate_dependency_batch seen (i # ids) =
     (if i \<le> 0 then Inl (ErrInvalidArgument ''dependency batch contains invalid task id'')
      else if i \<in> seen then Inl (ErrInvalidArgument ''dependency batch contains duplicate task id'')
      else validate_dependency_batch (insert i seen) ids)"

definition waiting_dep_row :: "int \<Rightarrow> string \<Rightarrow> task \<Rightarrow> task" where
  "waiting_dep_row now last_error t = t\<lparr>t_state := TaskStateWaitingDep,
     t_attempts := max (t_attempts t - t_charge t) 0, t_charge := 0,
     t_last_error := Some (ErrText last_error), t_updated_at := now\<rparr>"

text \<open>The loop that reads and checks every task before the first one is changed.\<close>

fun tasks_for_transition :: "int list \<Rightarrow> task list stx" where
  "tasks_for_transition [] = tx_return []"
| "tasks_for_transition (i # ids) =
     tx_bind (task_for_transition i TaskStateInFlight) (\<lambda>t.
     tx_bind (tasks_for_transition ids) (\<lambda>ts. tx_return (t # ts)))"

definition park_task_tx :: "int \<Rightarrow> string \<Rightarrow> int \<Rightarrow> unit stx" where
  "park_task_tx now last_error task_id =
     tx_bind (update_tasks (\<lambda>t. t_id t = task_id \<and> t_state t = TaskStateInFlight)
       (waiting_dep_row now last_error)) require_changed"

definition mark_waiting_dep_batch_tx :: "int \<Rightarrow> int list \<Rightarrow> string \<Rightarrow> unit stx" where
  "mark_waiting_dep_batch_tx now task_ids last_error =
     tx_bind (tasks_for_transition task_ids) (\<lambda>tasks.
     tx_bind (tx_each (\<lambda>t. clear_older_state_slot t TaskStateWaitingDep) tasks) (\<lambda>_.
     tx_each (park_task_tx now last_error) task_ids))"

definition mark_waiting_dep_batch ::
    "int \<Rightarrow> int list \<Rightarrow> string \<Rightarrow> db \<Rightarrow> (store_error + unit) \<times> db" where
  "mark_waiting_dep_batch now task_ids last_error db =
     (if task_ids = [] then (Inl (ErrInvalidArgument ''dependency batch is empty''), db)
      else case validate_dependency_batch {} task_ids of
        Inl e \<Rightarrow> (Inl e, db)
      | Inr _ \<Rightarrow> with_tx (mark_waiting_dep_batch_tx now task_ids last_error) db)"

definition mark_waiting_dep :: "int \<Rightarrow> int \<Rightarrow> string \<Rightarrow> db \<Rightarrow> (store_error + unit) \<times> db" where
  "mark_waiting_dep now task_id = mark_waiting_dep_batch now [task_id]"

section \<open>Release\<close>

definition release_candidates :: "task_state \<Rightarrow> int \<Rightarrow> int \<Rightarrow> task list \<Rightarrow> task list" where
  "release_candidates st due limit ts =
     take (list_limit limit) (order_by claim_order
       (filter (\<lambda>t. t_state t = st \<and> (st = TaskStateRetryWait \<longrightarrow> t_next_attempt_at t \<le> due)) ts))"

definition absorb_released :: "int \<Rightarrow> task \<Rightarrow> task \<Rightarrow> task" where
  "absorb_released now candidate pending = pending\<lparr>
     t_file_id := t_file_id candidate, t_path := t_path candidate,
     t_path_key := path_key (t_path candidate), t_op := t_op candidate,
     t_old_path := t_old_path candidate,
     t_old_path_key := nullable_path_key (t_old_path candidate),
     t_generation := t_generation candidate,
     t_priority := min (t_priority pending) (t_priority candidate),
     t_attempts := t_attempts candidate, t_crash_count := t_crash_count candidate,
     t_charge := t_charge candidate, t_next_attempt_at := 0,
     t_last_error := t_last_error candidate, t_attempts_log := t_attempts_log candidate,
     t_error_chain := t_error_chain candidate, t_updated_at := now\<rparr>"

definition release_one :: "int \<Rightarrow> task_state \<Rightarrow> nat \<Rightarrow> task \<Rightarrow> nat stx" where
  "release_one now st released candidate =
     tx_bind (find_task (\<lambda>t. t_path_key t = path_key (t_path candidate) \<and>
                             t_state t = TaskStatePending)) (\<lambda>pending.
     tx_bind (case pending of
         None \<Rightarrow>
           tx_bind (update_tasks (\<lambda>t. t_id t = t_id candidate \<and> t_state t = st)
             (\<lambda>t. t\<lparr>t_state := TaskStatePending, t_next_attempt_at := 0, t_updated_at := now\<rparr>))
             (\<lambda>_. tx_return ())
       | Some p \<Rightarrow>
           tx_bind (if t_generation p < t_generation candidate
                    then tx_bind (update_tasks (\<lambda>t. t_id t = t_id p) (absorb_released now candidate))
                           (\<lambda>_. tx_return ())
                    else tx_return ()) (\<lambda>_.
           delete_tasks (\<lambda>t. t_id t = t_id candidate))) (\<lambda>_.
     tx_return (released + 1)))"

definition release_to_pending_tx :: "int \<Rightarrow> task_state \<Rightarrow> int \<Rightarrow> int \<Rightarrow> nat stx" where
  "release_to_pending_tx now st due limit =
     tx_bind (tx_read (\<lambda>db. release_candidates st due limit (db_tasks db)))
       (tx_fold (release_one now st) 0)"

definition release_waiting_dep :: "int \<Rightarrow> int \<Rightarrow> db \<Rightarrow> (store_error + nat) \<times> db" where
  "release_waiting_dep now limit = with_tx (release_to_pending_tx now TaskStateWaitingDep 0 limit)"

definition release_retry_wait :: "int \<Rightarrow> int \<Rightarrow> db \<Rightarrow> (store_error + nat) \<times> db" where
  "release_retry_wait now limit = with_tx (release_to_pending_tx now TaskStateRetryWait now limit)"

section \<open>Death\<close>

record dead_letter_info =
  di_stage :: string
  di_error_class :: string
  di_error_chain :: history_text
  di_attempts_log :: history_text
  di_extractor_version :: "string option"
  di_embed_model_version :: "string option"

definition failure_placeholder :: "task \<Rightarrow> catalog_file" where
  "failure_placeholder task =
     \<lparr>f_id = 0, f_path = t_path task, f_path_key = path_key (t_path task), f_size = 0,
      f_mtime_ns = 0, f_inode = None, f_sample_hash = [], f_kind = FileKindOther,
      f_generation = t_generation task, f_status = FileStatusFailed,
      f_extractor_version = None, f_embed_model_version = None, f_indexed_at_ms = None\<rparr>"

definition ensure_failure_file_tx :: "task \<Rightarrow> int stx" where
  "ensure_failure_file_tx task =
     tx_bind (find_file (\<lambda>f. f_path_key f = path_key (t_path task))) (\<lambda>known.
     case known of
       Some f \<Rightarrow>
         if f_generation f \<le> t_generation task then
           tx_bind (update_files (\<lambda>r. f_id r = f_id f)
             (\<lambda>r. r\<lparr>f_generation := t_generation task, f_status := FileStatusFailed\<rparr>))
             (\<lambda>_. tx_return (f_id f))
         else tx_return (f_id f)
     | None \<Rightarrow> tx_bind (insert_file (failure_placeholder task)) (\<lambda>f. tx_return (f_id f)))"

definition dead_row :: "int \<Rightarrow> history_entry list \<Rightarrow> history_entry list \<Rightarrow> task \<Rightarrow> task" where
  "dead_row now error_chain attempts_log t = t\<lparr>t_state := TaskStateDead,
     t_attempts := t_attempts t + (1 - t_charge t), t_charge := 1,
     t_last_error := Some (ErrHistory error_chain), t_attempts_log := attempts_log,
     t_error_chain := error_chain, t_updated_at := now\<rparr>"

text \<open>The catalog identity of a dead task: its own, or the placeholder made for it.\<close>

definition anchor_dead_task :: "task \<Rightarrow> int stx" where
  "anchor_dead_task task =
     (case t_file_id task of
        Some i \<Rightarrow> tx_return i
      | None \<Rightarrow>
          tx_bind (ensure_failure_file_tx task) (\<lambda>i.
          tx_bind (update_tasks (\<lambda>t. t_id t = t_id task) (\<lambda>t. t\<lparr>t_file_id := Some i\<rparr>)) (\<lambda>_.
          tx_return i)))"

definition dead_letter_of ::
    "int \<Rightarrow> task \<Rightarrow> dead_letter_info \<Rightarrow> string \<Rightarrow> history_entry list \<Rightarrow> history_entry list \<Rightarrow> int \<Rightarrow>
     dead_letter" where
  "dead_letter_of now task info stage error_chain attempts_log file_id =
     \<lparr>d_file_id = file_id, d_path = t_path task, d_generation = t_generation task,
      d_stage = stage, d_error_class = di_error_class info,
      d_error_chain = HistArray error_chain, d_attempts_log = HistArray attempts_log,
      d_extractor_version = di_extractor_version info,
      d_embed_model_version = di_embed_model_version info,
      d_created_at = now, d_updated_at = now\<rparr>"

text \<open>The dead letter, the catalog status and the audit event of a death.\<close>

definition record_death :: "int \<Rightarrow> task \<Rightarrow> string \<Rightarrow> dead_letter \<Rightarrow> unit stx" where
  "record_death now t source dead =
     tx_bind (upsert_dead_letter_tx now dead) (\<lambda>_.
     tx_bind (update_files (\<lambda>f. f_id f = d_file_id dead \<and> f_generation f = t_generation t)
       (\<lambda>f. f\<lparr>f_status := FileStatusFailed\<rparr>)) (\<lambda>_.
     enqueue_dead_letter_audit_tx now audit_action_create source (t_id t)
       (t_generation t) (t_path t) dead))"

definition mark_dead_tx :: "int \<Rightarrow> int \<Rightarrow> dead_letter_info \<Rightarrow> string \<Rightarrow> unit stx" where
  "mark_dead_tx now task_id info source =
     (let stage = (if di_stage info = [] then ''unknown'' else di_stage info) in
      tx_bind (task_for_transition task_id TaskStateInFlight) (\<lambda>task.
      tx_bind (clear_older_state_slot task TaskStateDead) (\<lambda>_.
      tx_bind (tx_lift (merge_failure_history [HistArray (t_error_chain task), di_error_chain info]))
        (\<lambda>error_chain.
      tx_bind (tx_lift (merge_failure_history [HistArray (t_attempts_log task), di_attempts_log info]))
        (\<lambda>attempts_log.
      tx_bind (update_tasks (\<lambda>t. t_id t = task_id \<and> t_state t = TaskStateInFlight)
        (dead_row now error_chain attempts_log)) (\<lambda>n.
      tx_bind (require_changed n) (\<lambda>_.
      tx_bind (anchor_dead_task task) (\<lambda>file_id.
      record_death now task source
        (dead_letter_of now task info stage error_chain attempts_log file_id)))))))))"

definition mark_dead_with_source ::
    "int \<Rightarrow> int \<Rightarrow> dead_letter_info \<Rightarrow> string \<Rightarrow> db \<Rightarrow> (store_error + unit) \<times> db" where
  "mark_dead_with_source now task_id info source db =
     (if di_error_class info = [] then
        (Inl (ErrInvalidArgument ''dead letter error class is empty''), db)
      else with_tx (mark_dead_tx now task_id info source) db)"

definition mark_dead :: "int \<Rightarrow> int \<Rightarrow> dead_letter_info \<Rightarrow> db \<Rightarrow> (store_error + unit) \<times> db" where
  "mark_dead now task_id info = mark_dead_with_source now task_id info audit_source_pipeline"

end
