(* ===== verification/Store_Queue_Laws.thy ===== *)
theory Store_Queue_Laws
  imports Store_Queue
begin

text \<open>
  What the queue operations keep and establish.  For each transaction body there is one \<open>wp\<close>
  lemma: from the invariant \<open>tx_inv\<close> it gives the invariant again, the absence of index
  violations, and the effect on the rows.  Three notions describe the effects:
  \<open>work_le\<close> (no path loses its newest queued generation), \<open>transition\<close> (one row moves to another
  slot, at most the row that held that slot disappears) and \<open>settled\<close> (the executions a row has
  been charged for, not counting a lease still open).
\<close>

section \<open>Effects on the queue\<close>

definition work_le :: "task list \<Rightarrow> task list \<Rightarrow> bool" where
  "work_le ts us \<longleftrightarrow>
     (\<forall>u\<in>set ts. \<exists>v\<in>set us. t_path_key v = t_path_key u \<and> t_generation u \<le> t_generation v)"

definition transition :: "task list \<Rightarrow> task \<Rightarrow> task \<Rightarrow> task list \<Rightarrow> bool" where
  "transition ts t t' us \<longleftrightarrow>
     t \<in> set ts \<and> t' \<in> set us \<and> t_id t' = t_id t \<and> t_path_key t' = t_path_key t \<and>
     (\<forall>u\<in>set us. u = t' \<or> (u \<in> set ts \<and> t_id u \<noteq> t_id t)) \<and>
     (\<forall>u\<in>set ts. t_id u \<noteq> t_id t \<longrightarrow> u \<in> set us \<or> t_slot u = t_slot t')"

definition settled :: "task \<Rightarrow> int" where
  "settled t = (if t_state t = TaskStateInFlight then t_attempts t - t_charge t else t_attempts t)"

lemma work_le_refl [simp]: "work_le ts ts"
  by (auto simp: work_le_def)

lemma work_le_trans: "work_le ts us \<Longrightarrow> work_le us vs \<Longrightarrow> work_le ts vs"
  unfolding work_le_def by (metis order_trans)

lemma work_le_append: "work_le ts (ts @ us)"
  by (auto simp: work_le_def)

lemma work_le_update:
  assumes "\<And>r. r \<in> set ts \<Longrightarrow> p r \<Longrightarrow> t_path_key (f r) = t_path_key r \<and> t_generation r \<le> t_generation (f r)"
  shows "work_le ts (rows_update p f ts)"
  unfolding work_le_def
proof
  fix r assume "r \<in> set ts"
  then show "\<exists>v\<in>set (rows_update p f ts). t_path_key v = t_path_key r \<and> t_generation r \<le> t_generation v"
    using assms [of r] by (intro bexI [of _ "if p r then f r else r"]) (auto simp: set_rows_update)
qed

definition pending_le :: "task list \<Rightarrow> task list \<Rightarrow> bool" where
  "pending_le ts us \<longleftrightarrow> (\<forall>u\<in>set ts. t_state u = TaskStatePending \<longrightarrow>
     (\<exists>v\<in>set us. t_slot v = t_slot u \<and> t_generation u \<le> t_generation v))"

lemma pending_le_refl [simp]: "pending_le ts ts"
  by (auto simp: pending_le_def)

lemma pending_le_trans: "pending_le ts us \<Longrightarrow> pending_le us vs \<Longrightarrow> pending_le ts vs"
  unfolding pending_le_def
proof
  fix u
  assume *: "\<forall>u\<in>set ts. t_state u = TaskStatePending \<longrightarrow>
      (\<exists>v\<in>set us. t_slot v = t_slot u \<and> t_generation u \<le> t_generation v)"
    "\<forall>u\<in>set us. t_state u = TaskStatePending \<longrightarrow>
      (\<exists>v\<in>set vs. t_slot v = t_slot u \<and> t_generation u \<le> t_generation v)" "u \<in> set ts"
  show "t_state u = TaskStatePending \<longrightarrow> (\<exists>v\<in>set vs. t_slot v = t_slot u \<and> t_generation u \<le> t_generation v)"
  proof
    assume "t_state u = TaskStatePending"
    then obtain v where "v \<in> set us" "t_slot v = t_slot u" "t_generation u \<le> t_generation v"
      using * by blast
    moreover from this have "t_state v = TaskStatePending"
      using \<open>t_state u = _\<close> by (simp add: t_slot_def)
    ultimately show "\<exists>v\<in>set vs. t_slot v = t_slot u \<and> t_generation u \<le> t_generation v"
      using *(2) by (metis order_trans)
  qed
qed

lemma pending_le_append: "pending_le ts (ts @ us)"
  by (auto simp: pending_le_def)

lemma pending_le_update:
  assumes "\<And>r. r \<in> set ts \<Longrightarrow> p r \<Longrightarrow> t_slot (f r) = t_slot r \<and> t_generation r \<le> t_generation (f r)"
  shows "pending_le ts (rows_update p f ts)"
  unfolding pending_le_def
proof (intro ballI impI)
  fix r assume "r \<in> set ts"
  then show "\<exists>v\<in>set (rows_update p f ts). t_slot v = t_slot r \<and> t_generation r \<le> t_generation v"
    using assms [of r] by (intro bexI [of _ "if p r then f r else r"]) (auto simp: set_rows_update)
qed

lemma transition_refl: "t \<in> set ts \<Longrightarrow> tasks_wf ts \<Longrightarrow> transition ts t t ts"
  by (auto simp: transition_def dest: tasks_wf_id)

text \<open>Updating one row of a table whose target slot has been cleared.\<close>

lemma wp_move_row:
  assumes inv: "tx_inv db0 db" and ts: "tasks_wf ts" "set ts \<subseteq> set (db_tasks db)"
    and task: "task \<in> set ts" "t_state task = st"
    and free: "slot_free ts task (t_state (f task))"
    and gone: "\<forall>u\<in>set (db_tasks db) - set ts. t_slot u = t_slot (f task)"
    and ok: "task_ok (f task)" "t_id (f task) = t_id task" "t_path_key (f task) = t_path_key task"
    and Q: "\<And>us n. n \<noteq> 0 \<Longrightarrow> transition (db_tasks db) task (f task) us \<Longrightarrow>
      us = rows_update (\<lambda>t. t_id t = t_id task \<and> t_state t = st) f ts \<Longrightarrow>
      tx_inv db0 (db\<lparr>db_tasks := us\<rparr>) \<Longrightarrow> Q n (db\<lparr>db_tasks := us\<rparr>)"
  shows "wp (update_tasks (\<lambda>t. t_id t = t_id task \<and> t_state t = st) f) Q E (db\<lparr>db_tasks := ts\<rparr>)"
proof -
  let ?p = "\<lambda>t. t_id t = t_id task \<and> t_state t = st"
  let ?us = "rows_update ?p f ts"
  have wf: "tasks_wf ?us" 
    by (rule tasks_wf_move [where f = f, OF ts(1) task(1) _ ok free]) simp
  have inv': "tx_inv db0 (db\<lparr>db_tasks := ?us\<rparr>)" by (rule inv_tasks [OF inv wf])
  have only: "u = task" if "u \<in> set (db_tasks db)" "t_id u = t_id task" for u
    using tasks_wf_id [OF inv_tables(1) [OF inv] that(1) _ that(2)] task(1) ts(2) by blast
  have "f task = (if ?p task then f task else task)" using task by simp
  then have "f task \<in> set ?us" unfolding set_rows_update using task(1) by (rule image_eqI)
  moreover have "u = f task \<or> (u \<in> set (db_tasks db) \<and> t_id u \<noteq> t_id task)" if "u \<in> set ?us" for u
    using that
  proof (cases rule: in_rows_updateE)
    case old
    then have "t_id u \<noteq> t_id task" using only ts(2) task(2) by blast
    then show ?thesis using old ts(2) by blast
  next
    case (new r0)
    then have "r0 = task" using only ts(2) by blast
    then show ?thesis using new by simp
  qed
  moreover have "u \<in> set ?us \<or> t_slot u = t_slot (f task)"
    if "u \<in> set (db_tasks db)" "t_id u \<noteq> t_id task" for u
  proof (cases "u \<in> set ts")
    case True
    then have "u \<in> set ?us" using that by (auto simp: set_rows_update)
    then show ?thesis ..
  qed (use that gone in blast)
  ultimately have tr: "transition (db_tasks db) task (f task) ?us"
    unfolding transition_def using subsetD [OF ts(2) task(1)] ok(2,3) by blast
  have "filter ?p ts \<noteq> []" using task by (auto simp: filter_empty_conv)
  then have "length (filter ?p ts) \<noteq> 0" by simp
  then have "Q (length (filter ?p ts)) (db\<lparr>db_tasks := ?us\<rparr>)" using tr refl inv' by (rule Q)
  then show ?thesis using tasks_wf_slots [OF wf] by (simp add: wp_simps)
qed

section \<open>Enqueueing\<close>

lemma validate_enqueue_ok:
  "validate_enqueue params = Inr u \<Longrightarrow>
     ep_path params \<noteq> [] \<and> 1 \<le> ep_generation params \<and> 0 \<le> ep_priority params \<and>
     op_ok (ep_op params) (ep_old_path params)"
  by (auto simp: validate_enqueue_def op_ok_def split: if_splits task_op.splits option.splits)

lemma validate_enqueue_error: "validate_enqueue params = Inl e \<Longrightarrow> no_conflict e"
  by (auto simp: validate_enqueue_def split: if_splits task_op.splits)

lemma new_pending_row_ok:
  "validate_enqueue params = Inr u \<Longrightarrow> task_ok (new_pending_row now params)"
  by (drule validate_enqueue_ok) (simp add: task_ok_def new_pending_row_def)

lemma coalesce_row_ok:
  assumes "validate_enqueue params = Inr u" and "task_ok old" and "t_state old = TaskStatePending"
    and "t_path_key old = path_key (ep_path params)"
  shows "task_ok (coalesce_row now params old)"
  using validate_enqueue_ok [OF assms(1)] assms(2-)
  by (auto simp: task_ok_def coalesce_row_def Let_def)

lemma coalesce_row_simps [simp]:
  "t_id (coalesce_row now params old) = t_id old"
  "t_path_key (coalesce_row now params old) = t_path_key old"
  "t_state (coalesce_row now params old) = t_state old"
  "t_generation (coalesce_row now params old) = max (t_generation old) (ep_generation params)"
  "t_priority (coalesce_row now params old) = min (t_priority old) (ep_priority params)"
  by (simp_all add: coalesce_row_def Let_def)

lemma wp_enqueue_tx:
  assumes inv: "tx_inv db0 db" and E: "\<And>e. no_conflict e \<Longrightarrow> E e"
    and Q: "\<And>r us. tx_inv db0 (db\<lparr>db_tasks := us\<rparr>) \<Longrightarrow> er_task r \<in> set us \<Longrightarrow>
      t_slot (er_task r) = (path_key (ep_path params), TaskStatePending) \<Longrightarrow>
      ep_generation params \<le> t_generation (er_task r) \<Longrightarrow>
      t_priority (er_task r) \<le> ep_priority params \<Longrightarrow>
      (\<forall>u. t_slot u \<noteq> (path_key (ep_path params), TaskStatePending) \<longrightarrow>
         u \<in> set us \<longleftrightarrow> u \<in> set (db_tasks db)) \<Longrightarrow>
      work_le (db_tasks db) us \<Longrightarrow> pending_le (db_tasks db) us \<Longrightarrow>
      (\<forall>t\<in>set (db_tasks db). t_slot t = (path_key (ep_path params), TaskStatePending) \<longrightarrow>
         t_generation t \<le> ep_generation params) \<longrightarrow> t_op (er_task r) = ep_op params \<and>
         t_generation (er_task r) = ep_generation params \<Longrightarrow> Q r (db\<lparr>db_tasks := us\<rparr>)"
  shows "wp (enqueue_tx now params) Q E db"
proof (cases "validate_enqueue params")
  case (Inl e)
  then show ?thesis using E validate_enqueue_error by (simp add: enqueue_tx_def wp_simps)
next
  case (Inr u)
  let ?key = "path_key (ep_path params)" and ?ts = "db_tasks db"
  let ?p = "\<lambda>t. t_path_key t = ?key \<and> t_state t = TaskStatePending"
  have wf: "tasks_wf ?ts" using inv by (rule inv_tables)
  show ?thesis
  proof (cases "List.find ?p ?ts")
    case None
    let ?row = "(new_pending_row now params)\<lparr>t_id := next_rowid (map t_id ?ts)\<rparr>"
    have slot: "t_slot (new_pending_row now params) = (?key, TaskStatePending)"
      by (simp add: t_slot_def new_pending_row_def)
    then have wf': "tasks_wf (?ts @ [?row])"
      using None by (intro tasks_wf_insert [OF wf new_pending_row_ok [OF Inr]])
        (auto simp: find_None_iff t_slot_def)
    have "Q \<lparr>er_task = ?row, er_inserted = True\<rparr> (db\<lparr>db_tasks := ?ts @ [?row]\<rparr>)"
      using slot inv_tasks [OF inv wf']
      by (intro Q) (auto simp: work_le_append pending_le_append, simp_all add: new_pending_row_def)
    moreover have "distinct (map t_slot (?ts @ [?row]))" using wf' by (rule tasks_wf_slots)
    ultimately show ?thesis
      using None Inr by (simp add: enqueue_tx_def wp_simps Let_def)
  next
    case (Some old)
    then have old: "old \<in> set ?ts" "?p old" by (auto dest: find_SomeD)
    let ?us = "rows_update ?p (coalesce_row now params) ?ts"
    have frame: "task_ok (coalesce_row now params r) \<and> t_id (coalesce_row now params r) = t_id r \<and>
        t_slot (coalesce_row now params r) = t_slot r" if "r \<in> set ?ts" "?p r" for r
      using that coalesce_row_ok [OF Inr] tasks_wfD(2) [OF wf] by (simp add: t_slot_def)
    have wf': "tasks_wf ?us" using wf frame by (rule tasks_wf_update_frame)
    have "coalesce_row now params old \<in> set ?us" using old by (force simp: set_rows_update)
    moreover have "u \<in> set ?us \<longleftrightarrow> u \<in> set ?ts" if "t_slot u \<noteq> (?key, TaskStatePending)" for u
      using that by (force simp: set_rows_update t_slot_def)
    moreover have "work_le ?ts ?us" by (rule work_le_update) simp
    moreover have "pending_le ?ts ?us" by (rule pending_le_update) (simp add: t_slot_def)
    moreover have "t_op (coalesce_row now params old) = ep_op params"
      if "t_generation old \<le> ep_generation params" using that by (simp add: coalesce_row_def Let_def)
    ultimately have "Q \<lparr>er_task = coalesce_row now params old, er_inserted = False\<rparr> (db\<lparr>db_tasks := ?us\<rparr>)"
      using old inv_tasks [OF inv wf'] by (intro Q) (auto simp: t_slot_def)
    then show ?thesis using Some Inr wf' by (simp add: enqueue_tx_def wp_simps Let_def)
  qed
qed

section \<open>Events advance the fence\<close>

lemma pre_catalog_generation_pos: "1 \<le> pre_catalog_generation m g"
  by (simp add: pre_catalog_generation_def Let_def)

lemma pre_catalog_generation_gt:
  "0 \<le> m \<Longrightarrow> m < max_int64 \<Longrightarrow> m < pre_catalog_generation m g"
  using wrap64_id [of "m + 1"] by (auto simp: pre_catalog_generation_def Let_def max_int64_def)

text \<open>At the largest \<open>int64\<close> the addition wraps and the generation restarts at one.\<close>

lemma pre_catalog_generation_wraps: "pre_catalog_generation max_int64 g = 1" if "g \<le> max_int64"
  using that by (simp add: pre_catalog_generation_def Let_def wrap64_overflow)

text \<open>
  What the fence is after an event: the identity of a catalog row whose generation went up, or,
  for a path the catalog does not know, a generation above all queued ones.
\<close>

definition advanced :: "db \<Rightarrow> enqueue_params \<Rightarrow> catalog_file list \<Rightarrow> bool" where
  "advanced db params fs \<longleftrightarrow>
     (\<exists>old\<in>set (db_files db). bump_row old \<in> set fs \<and> ep_file_id params = Some (f_id old) \<and>
        ep_generation params = f_generation old + 1) \<or>
     (fs = db_files db \<and> 1 \<le> ep_generation params \<and>
        (\<forall>t\<in>set (db_tasks db). t_path_key t = path_key (ep_path params) \<longrightarrow>
           t_generation t < max_int64 \<longrightarrow> (\<forall>u\<in>set (db_tasks db). t_generation u < max_int64) \<longrightarrow>
           t_generation t < ep_generation params))"

lemma wp_advance_generation:
  assumes inv: "tx_inv db0 db" and E: "\<And>e. no_conflict e \<Longrightarrow> E e"
    and Q: "\<And>params' fs. ep_path params' = ep_path params \<Longrightarrow>
      ep_priority params' = ep_priority params \<Longrightarrow> advanced db params' fs \<Longrightarrow>
      (\<And>f. f \<in> set (db_files db) \<Longrightarrow> f_path_key f = path_key (ep_path params) \<Longrightarrow>
         (ep_op params \<noteq> TaskOpRelocate \<or> ep_old_path params = None) \<Longrightarrow>
         bump_row f \<in> set fs \<and> ep_file_id params' = Some (f_id f)) \<Longrightarrow>
      tx_inv db0 (db\<lparr>db_files := fs\<rparr>) \<Longrightarrow> Q params' (db\<lparr>db_files := fs\<rparr>)"
  shows "wp (advance_generation params) Q E db"
proof -
  let ?cat = "event_catalog_path params"
  have wff: "files_wf (db_files db)" using inv by (rule inv_tables)
  have cat: "?cat = ep_path params" if "ep_op params \<noteq> TaskOpRelocate \<or> ep_old_path params = None"
    using that by (auto simp: event_catalog_path_def)
  show ?thesis
  proof (cases "List.find (\<lambda>f. f_path_key f = path_key ?cat) (db_files db)")
    case (Some known)
    have "wp (bump_generation_tx ?cat) (\<lambda>f. Q (params\<lparr>ep_file_id := Some (f_id f),
        ep_generation := f_generation f\<rparr>)) E db"
      unfolding bump_generation_tx_def
    proof (rule wp_bump_where [OF inv])
      fix f fs
      assume f: "f \<in> set (db_files db)" "f_path_key f = path_key ?cat" "bump_row f \<in> set fs"
        "tx_inv db0 (db\<lparr>db_files := fs\<rparr>)"
      have "g = f" if "g \<in> set (db_files db)" "f_path_key g = path_key (ep_path params)"
        "ep_op params \<noteq> TaskOpRelocate \<or> ep_old_path params = None" for g
        using files_wf_key [OF wff that(1) f(1)] that f(2) cat by simp
      then show "Q (params\<lparr>ep_file_id := Some (f_id (bump_row f)),
          ep_generation := f_generation (bump_row f)\<rparr>) (db\<lparr>db_files := fs\<rparr>)"
        using f by (intro Q) (auto simp: advanced_def)
    qed (use E in auto)
    then show ?thesis using Some by (simp add: advance_generation_def wp_simps Let_def)
  next
    case None
    have no: "\<not> (f \<in> set (db_files db) \<and> f_path_key f = path_key (ep_path params) \<and>
        (ep_op params \<noteq> TaskOpRelocate \<or> ep_old_path params = None))" for f
    proof
      assume *: "f \<in> set (db_files db) \<and> f_path_key f = path_key (ep_path params) \<and>
        (ep_op params \<noteq> TaskOpRelocate \<or> ep_old_path params = None)"
      then have "?cat = ep_path params" using cat by blast
      then show False using None * by (auto simp: find_None_iff)
    qed
    let ?p = "\<lambda>t. t_path_key t = path_key (ep_path params) \<and> t_state t = TaskStatePending"
    let ?anchor = "case List.find ?p (db_tasks db) of None \<Rightarrow> None
      | Some p \<Rightarrow> map_option (\<lambda>i. (p, i)) (t_file_id p)"
    show ?thesis
    proof (cases ?anchor)
      case None': None
      let ?keys = "[path_key (ep_path params), path_key ?cat]"
      let ?m = "max_task_generation ?keys (db_tasks db)"
      let ?g = "pre_catalog_generation ?m (ep_generation params)"
      have "t_generation t < ?g" if t: "t \<in> set (db_tasks db)" "t_path_key t = path_key (ep_path params)"
        and small: "\<forall>u\<in>set (db_tasks db). t_generation u < max_int64" for t
      proof -
        have "t_generation t \<le> ?m" using t by (auto simp: max_task_generation_def intro!: max_of_ge)
        moreover have "0 \<le> ?m" by (simp add: max_task_generation_def max_of_nonneg)
        moreover have "?m \<le> max_int64 - 1" unfolding max_task_generation_def
          using small by (intro max_of_le) (auto simp: max_int64_def)
        ultimately show ?thesis using pre_catalog_generation_gt [of ?m "ep_generation params"] by simp
      qed
      then have "Q (params\<lparr>ep_generation := ?g\<rparr>) (db\<lparr>db_files := db_files db\<rparr>)"
        using no inv pre_catalog_generation_pos [of ?m "ep_generation params"]
        by (intro Q) (auto simp: advanced_def)
      then show ?thesis using None None' by (simp add: advance_generation_def wp_simps Let_def)
    next
      case (Some pa)
      obtain p anchor where pa: "pa = (p, anchor)" by (cases pa)
      let ?params = "\<lambda>f. if t_op p = TaskOpRelocate \<and> ep_op params = TaskOpUpsert
          then params\<lparr>ep_file_id := Some (f_id f), ep_generation := f_generation f,
            ep_op := TaskOpRelocate, ep_old_path := t_old_path p\<rparr>
          else params\<lparr>ep_file_id := Some (f_id f), ep_generation := f_generation f\<rparr>"
      have "wp (bump_file_generation_by_id_tx anchor) (\<lambda>f. Q (?params f)) E db"
        unfolding bump_file_generation_by_id_tx_def
      proof (rule wp_bump_where [OF inv])
        fix f fs
        assume f: "f \<in> set (db_files db)" "f_id f = anchor" "bump_row f \<in> set fs"
          "tx_inv db0 (db\<lparr>db_files := fs\<rparr>)"
        show "Q (?params (bump_row f)) (db\<lparr>db_files := fs\<rparr>)"
          using f no by (intro Q) (auto simp: advanced_def)
      qed (use E in auto)
      then show ?thesis
        using None Some pa by (simp add: advance_generation_def wp_simps Let_def)
    qed
  qed
qed

section \<open>Claims\<close>

lemma order_by_map: "(\<And>x. x \<in> set xs \<Longrightarrow> k (f x) = k x) \<Longrightarrow> order_by k (map f xs) = map f (order_by k xs)"
proof (induction xs)
  case (Cons x xs)
  have "insort_key k (f x) (map f ys) = map f (insort_key k x ys)"
    if "\<forall>y\<in>set ys. k (f y) = k y" "k (f x) = k x" for ys
    using that by (induction ys) auto
  then show ?case using Cons by (simp add: order_by_def)
qed (simp add: order_by_def)

lemma set_order_by [simp]: "set (order_by k xs) = set xs"
  by (simp add: order_by_def)

lemma claim_order_inj: "tasks_wf ts \<Longrightarrow> inj_on claim_order (set ts)"
  by (auto simp: inj_on_def claim_order_def dest: tasks_wf_id)

lemma claim_candidates_props:
  assumes "tasks_wf ts"
  shows "set (claim_candidates n now source ts) \<subseteq> {t \<in> set ts. claimable now source ts t}"
    and "sorted (map claim_order (claim_candidates n now source ts))"
    and "distinct (claim_candidates n now source ts)"
    and "length (claim_candidates n now source ts) \<le> nat n"
  using assms
  by (auto simp: claim_candidates_def order_by_def tasks_wf_def distinct_map dest!: in_set_takeD
      simp flip: take_map)

lemma claimed_set_eq:
  assumes wf: "tasks_wf ts" and cs: "set cs \<subseteq> set ts"
  shows "{t \<in> set ts. t_id t \<in> t_id ` set cs} = set cs"
  using cs tasks_wf_id [OF wf] by (auto 4 3)

lemma claimed_row_simps [simp]:
  "t_id (claimed_row now t) = t_id t" "t_path_key (claimed_row now t) = t_path_key t"
  "t_state (claimed_row now t) = TaskStateInFlight" "t_generation (claimed_row now t) = t_generation t"
  "t_attempts (claimed_row now t) = t_attempts t + t_charge t" "t_charge (claimed_row now t) = t_charge t"
  "claim_order (claimed_row now t) = claim_order t" "t_path (claimed_row now t) = t_path t"
  by (simp_all add: claimed_row_def claim_order_def)

lemma claimed_row_ok: "task_ok t \<Longrightarrow> task_ok (claimed_row now t)"
  by (auto simp: task_ok_def claimed_row_def)

lemma wp_claim_tx:
  assumes inv: "tx_inv db0 db"
    and Q: "\<And>us. tx_inv db0 (db\<lparr>db_tasks := us\<rparr>) \<Longrightarrow>
      us = map (\<lambda>t. if t \<in> set (claim_candidates n now source (db_tasks db)) then claimed_row now t else t)
             (db_tasks db) \<Longrightarrow> work_le (db_tasks db) us \<Longrightarrow>
      Q (map (claimed_row now) (claim_candidates n now source (db_tasks db))) (db\<lparr>db_tasks := us\<rparr>)"
  shows "wp (claim_tx n now source) Q E db"
proof -
  let ?ts = "db_tasks db"
  define cs where "cs = claim_candidates n now source ?ts"
  let ?p = "\<lambda>t. t_id t \<in> set (map t_id cs)"
  let ?us = "rows_update ?p (claimed_row now) ?ts"
  have wf: "tasks_wf ?ts" using inv by (rule inv_tables)
  note props = claim_candidates_props [OF wf, of n now source, folded cs_def]
  have mem: "?p t \<longleftrightarrow> t \<in> set cs" if "t \<in> set ?ts" for t
    using claimed_set_eq [OF wf, of cs] props(1) that by auto
  have slots: "distinct (map t_slot ?us)"
  proof (rule distinct_rows_update)
    fix r q assume "r \<in> set ?ts" "q \<in> set ?ts" "?p r" "?p q"
      "t_slot (claimed_row now r) = t_slot (claimed_row now q)"
    moreover from this have "claimable now source ?ts r" "claimable now source ?ts q"
      using props(1) mem by blast+
    ultimately show "r = q"
      by (intro tasks_wf_one_per_slot [OF wf]) (auto simp: claimable_def t_slot_def)
  next
    fix r q assume *: "r \<in> set ?ts" "q \<in> set ?ts" "?p r"
    then have "claimable now source ?ts r" using props(1) mem by blast
    then show "t_slot (claimed_row now r) \<noteq> t_slot q"
      using *(2) by (auto simp: claimable_def t_slot_def)
  qed (use wf in \<open>simp add: tasks_wf_def\<close>)
  moreover have "map t_id ?us = map t_id ?ts" by (rule map_rows_update) simp
  ultimately have wf': "tasks_wf ?us"
    using wf claimed_row_ok by (auto simp: tasks_wf_def set_rows_update)
  have us: "?us = map (\<lambda>t. if t \<in> set cs then claimed_row now t else t) ?ts"
    using mem by (auto simp: rows_update_def)
  have "filter ?p ?us = map (claimed_row now) (filter ?p ?ts)"
    by (simp add: rows_update_def filter_map comp_def if_distrib cong: if_cong)
  then have "order_by claim_order (filter ?p ?us) = map (claimed_row now) (order_by claim_order (filter ?p ?ts))"
    by (simp add: order_by_map)
  also have "order_by claim_order (filter ?p ?ts) = cs"
  proof (rule map_sorted_distinct_set_unique [where f = claim_order])
    have s: "set (order_by claim_order (filter ?p ?ts)) = set cs"
      using claimed_set_eq [OF wf, of cs] props(1) by auto
    then show "set (order_by claim_order (filter ?p ?ts)) = set cs" .
    show inj: "inj_on claim_order (set (order_by claim_order (filter ?p ?ts)) \<union> set cs)"
      using claim_order_inj [OF wf] s props(1) by (auto intro: inj_on_subset)
    show "sorted (map claim_order (order_by claim_order (filter ?p ?ts)))" by (simp add: order_by_def)
    have "distinct ?ts" using wf by (simp add: tasks_wf_def distinct_map)
    then show "distinct (map claim_order (order_by claim_order (filter ?p ?ts)))"
      using inj by (simp add: distinct_map order_by_def inj_on_Un)
    show "sorted (map claim_order cs)" by (rule props)
    show "distinct (map claim_order cs)" using props(3) inj by (simp add: distinct_map inj_on_Un)
  qed
  finally have ret: "order_by claim_order (filter ?p ?us) = map (claimed_row now) cs" .
  have inv': "tx_inv db0 (db\<lparr>db_tasks := ?us\<rparr>)" by (rule inv_tasks [OF inv wf'])
  have w: "work_le ?ts ?us" by (rule work_le_update) simp
  have "Q (map (claimed_row now) cs) (db\<lparr>db_tasks := ?us\<rparr>)"
    unfolding cs_def by (rule Q) (use inv' us w in \<open>simp_all add: cs_def\<close>)
  then show ?thesis
  proof (cases "n \<le> 0")
    case True
    then have "cs = []" by (simp add: cs_def claim_candidates_def)
    moreover have "?us = ?ts" using \<open>cs = []\<close> by (simp add: rows_update_none)
    ultimately show ?thesis using True \<open>Q _ _\<close> by (simp add: claim_tx_def wp_simps)
  next
    case False
    then show ?thesis using \<open>Q _ _\<close> ret tasks_wf_slots [OF wf']
      by (simp add: claim_tx_def wp_simps flip: cs_def)
  qed
qed

section \<open>Completion\<close>

text \<open>Catalog writes that touch no identity: the fields a completion may set.\<close>

definition same_identity :: "(catalog_file \<Rightarrow> catalog_file) \<Rightarrow> bool" where
  "same_identity h \<longleftrightarrow> (\<forall>r. f_id (h r) = f_id r \<and> f_path (h r) = f_path r \<and>
     f_path_key (h r) = f_path_key r \<and> f_generation (h r) = f_generation r \<and>
     f_size (h r) = f_size r \<and> f_kind (h r) = f_kind r)"

lemma wp_update_file_status:
  assumes inv: "tx_inv db0 db" and E: "\<And>e. no_conflict e \<Longrightarrow> E e" and h: "same_identity h"
    and Q: "\<And>r fs. tx_inv db0 (db\<lparr>db_files := fs\<rparr>) \<Longrightarrow> r \<in> set fs \<Longrightarrow> f_id r = file_id \<Longrightarrow>
      f_generation r = generation \<Longrightarrow> f_status r = st \<Longrightarrow> status_ok st \<Longrightarrow> Q () (db\<lparr>db_files := fs\<rparr>)"
  shows "wp (update_file_status file_id generation st h) Q E db"
proof -
  let ?p = "\<lambda>r. f_id r = file_id \<and> f_generation r = generation" and ?h = "\<lambda>r. (h r)\<lparr>f_status := st\<rparr>"
  show ?thesis
  proof (cases "List.find ?p (db_files db)")
    case None
    then have "filter ?p (db_files db) = []" by (auto simp: find_None_iff filter_empty_conv)
    moreover have "rows_update ?p ?h (db_files db) = db_files db"
      using None by (intro rows_update_none) (auto simp: find_None_iff)
    ultimately show ?thesis
      using None E files_wf_keys [OF inv_tables(2) [OF inv]]
      by (simp add: update_file_status_def wp_simps)
  next
    case (Some old)
    then have old: "old \<in> set (db_files db)" "?p old" by (auto dest: find_SomeD)
    show ?thesis
    proof (cases "status_ok st")
      case True
      let ?fs = "rows_update ?p ?h (db_files db)"
      have "file_ok (?h r)" if "r \<in> set (db_files db)" for r
        using files_wfD(2) [OF inv_tables(2) [OF inv] that] h True
        by (simp add: file_ok_def same_identity_def)
      then have fr: "tx_inv db0 (db\<lparr>db_files := ?fs\<rparr>)" "distinct (map f_path_key ?fs)"
        using inv_update_files_frame [OF inv, of ?p ?h] h by (simp_all add: same_identity_def)
      have "?h old \<in> set ?fs" using old by (force simp: set_rows_update)
      then have "Q () (db\<lparr>db_files := ?fs\<rparr>)"
        using fr(1) old h True by (intro Q [of _ "?h old"]) (auto simp: same_identity_def)
      moreover have "filter ?p (db_files db) \<noteq> []" using old by (auto simp: filter_empty_conv)
      ultimately show ?thesis
        using Some True fr(2) by (simp add: update_file_status_def wp_simps)
    next
      case False
      then show ?thesis using Some E by (simp add: update_file_status_def wp_simps)
    qed
  qed
qed

lemma wp_mark_done_tx:
  assumes inv: "tx_inv db0 db" and E: "\<And>e. no_conflict e \<Longrightarrow> E e"
    and Q: "\<And>t us ds. t \<in> set (db_tasks db) \<Longrightarrow> t_id t = task_id \<Longrightarrow> t_state t = TaskStateInFlight \<Longrightarrow>
      transition (db_tasks db) t (t\<lparr>t_state := TaskStateDone, t_updated_at := now\<rparr>) us \<Longrightarrow>
      set ds \<subseteq> set (db_dead db) \<Longrightarrow>
      (clear \<longrightarrow> (\<forall>i. t_file_id t = Some i \<longrightarrow>
         (\<forall>d\<in>set ds. d_file_id d = i \<longrightarrow> t_generation t \<le> d_generation d))) \<Longrightarrow>
      tx_inv db0 (db\<lparr>db_tasks := us, db_dead := ds\<rparr>) \<Longrightarrow> Q () (db\<lparr>db_tasks := us, db_dead := ds\<rparr>)"
  shows "wp (mark_done_tx now task_id clear) Q E db"
  unfolding mark_done_tx_def wp_bind
proof (rule wp_task_for_transitionI, goal_cases)
  case (1 t)
  note t = 1
  let ?h = "\<lambda>t. t\<lparr>t_state := TaskStateDone, t_updated_at := now\<rparr>"
  let ?d = "\<lambda>u. t_path_key u = path_key (t_path t) \<and> t_state u = TaskStateDone \<and> t_id u \<noteq> t_id t"
  let ?ts = "rows_delete ?d (db_tasks db)"
  have wf: "tasks_wf (db_tasks db)" using inv by (rule inv_tables)
  have key: "t_path_key t = path_key (t_path t)" using wf t(1) by (rule tasks_wfD)
  have "wp (update_tasks (\<lambda>t. t_id t = task_id \<and> t_state t = TaskStateInFlight) ?h)
      (\<lambda>n. wp (require_changed n) (\<lambda>_. wp (case t_file_id t of Some i \<Rightarrow>
         if clear then tx_bind (delete_dead (\<lambda>d. d_file_id d = i \<and> d_generation d < t_generation t))
             (\<lambda>_. tx_return ()) else tx_return () | None \<Rightarrow> tx_return ()) Q E) E)
      E (db\<lparr>db_tasks := ?ts\<rparr>)"
    unfolding t(2) [symmetric]
  proof (rule wp_move_row [OF inv])
    show "tasks_wf ?ts" using wf by (rule tasks_wf_delete)
    show "slot_free ?ts t (t_state (?h t))" by (auto simp: slot_free_def key)
    show "task_ok (?h t)" using tasks_wfD(2) [OF wf t(1)] by (simp add: task_ok_def)
    fix us and n :: nat
    assume *: "n \<noteq> 0" "transition (db_tasks db) t (?h t) us" "tx_inv db0 (db\<lparr>db_tasks := us\<rparr>)"
    have "Q () (db\<lparr>db_tasks := us, db_dead := ds\<rparr>)"
      if "ds = db_dead db \<and> \<not> (clear \<and> (\<exists>i. t_file_id t = Some i)) \<or>
          (\<exists>i. t_file_id t = Some i \<and> ds = rows_delete (\<lambda>d. d_file_id d = i \<and> d_generation d < t_generation t) (db_dead db))"
      for ds
    proof (rule Q [OF t *(2)])
      show "tx_inv db0 (db\<lparr>db_tasks := us, db_dead := ds\<rparr>)"
        using that *(3) inv_dead [OF *(3), of ds] inv_tables(3) [OF inv] by auto
    qed (use that in auto)
    from this [of "db_dead db"] this
    show "wp (require_changed n) (\<lambda>_. wp (case t_file_id t of Some i \<Rightarrow>
         if clear then tx_bind (delete_dead (\<lambda>d. d_file_id d = i \<and> d_generation d < t_generation t))
             (\<lambda>_. tx_return ()) else tx_return () | None \<Rightarrow> tx_return ()) Q E) E (db\<lparr>db_tasks := us\<rparr>)"
      using *(1) by (auto simp: wp_simps split: option.splits)
  qed (use t in \<open>auto simp: t_slot_def key\<close>)
  then show ?case by (simp only: wp_delete_tasks wp_bind wp_bind_fun)
qed (use E in auto)

text \<open>A successful completion: the lease was current, and the row, the task and the file agree.\<close>

definition completed :: "db \<Rightarrow> int \<Rightarrow> int \<Rightarrow> int \<Rightarrow> file_status \<Rightarrow> db \<Rightarrow> bool" where
  "completed db task_id file_id generation st db' \<longleftrightarrow>
     (\<exists>t\<in>set (db_tasks db). t_id t = task_id \<and> t_state t = TaskStateInFlight \<and>
        t_file_id t = Some file_id \<and> t_generation t = generation) \<and>
     (\<exists>f\<in>set (db_files db'). f_id f = file_id \<and> f_generation f = generation \<and> f_status f = st) \<and>
     (\<exists>t\<in>set (db_tasks db'). t_id t = task_id \<and> t_state t = TaskStateDone) \<and>
     (\<forall>d\<in>set (db_dead db'). d_file_id d = file_id \<longrightarrow> generation \<le> d_generation d)"

lemma transition_new: "transition ts t t' us \<Longrightarrow> t' \<in> set us \<and> t_id t' = t_id t"
  by (simp add: transition_def)

lemma wp_complete_task_tx:
  assumes inv: "tx_inv db0 db" and E: "\<And>e. no_conflict e \<Longrightarrow> E e"
    and Q: "\<And>db'. tx_inv db0 db' \<Longrightarrow>
      completed db (cp_task_id params) (cp_file_id params) (cp_generation params)
        (if cp_status params = FileStatusEmpty then FileStatusIndexed else cp_status params) db' \<Longrightarrow>
      Q () db'"
  shows "wp (complete_task_tx now params) Q E db"
  unfolding complete_task_tx_def wp_bind Let_def
proof (rule wp_task_for_transitionI, goal_cases)
  case (1 t)
  show ?case
  proof (cases "t_file_id t \<noteq> Some (cp_file_id params) \<or> t_generation t \<noteq> cp_generation params")
    case True
    then show ?thesis using E by (simp add: wp_simps)
  next
    case False
    have "wp (update_file_status (cp_file_id params) (cp_generation params)
        (if cp_status params = FileStatusEmpty then FileStatusIndexed else cp_status params)
        (\<lambda>r. r\<lparr>f_indexed_at_ms := cp_indexed_at params, f_extractor_version := cp_extractor_version params,
               f_embed_model_version := cp_embed_model_version params\<rparr>))
        (\<lambda>_. wp (mark_done_tx now (cp_task_id params) True) Q E) E db"
    proof (rule wp_update_file_status [OF inv E], assumption)
      fix r fs
      assume f: "tx_inv db0 (db\<lparr>db_files := fs\<rparr>)" "r \<in> set fs" "f_id r = cp_file_id params"
        "f_generation r = cp_generation params"
        "f_status r = (if cp_status params = FileStatusEmpty then FileStatusIndexed else cp_status params)"
      show "wp (mark_done_tx now (cp_task_id params) True) Q E (db\<lparr>db_files := fs\<rparr>)"
      proof (rule wp_mark_done_tx [OF f(1) E], assumption)
        fix t' us ds
        assume d: "t' \<in> set (db_tasks (db\<lparr>db_files := fs\<rparr>))" "t_id t' = cp_task_id params"
          "t_state t' = TaskStateInFlight"
          "transition (db_tasks (db\<lparr>db_files := fs\<rparr>)) t' (t'\<lparr>t_state := TaskStateDone, t_updated_at := now\<rparr>) us"
          "True \<longrightarrow> (\<forall>i. t_file_id t' = Some i \<longrightarrow> (\<forall>d\<in>set ds. d_file_id d = i \<longrightarrow> t_generation t' \<le> d_generation d))"
          "tx_inv db0 (db\<lparr>db_files := fs, db_tasks := us, db_dead := ds\<rparr>)"
        have t': "t' = t" using tasks_wf_id [OF inv_tables(1) [OF inv], of t' t] d 1 by simp
        show "Q () (db\<lparr>db_files := fs, db_tasks := us, db_dead := ds\<rparr>)"
          using d f 1 False t' transition_new [OF d(4)]
          by (intro Q) (auto simp: completed_def intro: rev_bexI)
      qed
    qed (simp add: same_identity_def)
    then show ?thesis using False by (simp add: wp_simps)
  qed
qed (use E in auto)

text \<open>One item of a committed batch.\<close>

lemma wp_complete_committed_tx:
  assumes inv: "tx_inv db0 db" and E: "\<And>e. no_conflict e \<Longrightarrow> E e"
    and Q: "\<And>t us fs ds. tx_inv db0 (db\<lparr>db_files := fs, db_tasks := us, db_dead := ds\<rparr>) \<Longrightarrow>
      transition (db_tasks db) t (t\<lparr>t_state := TaskStateDone, t_updated_at := now\<rparr>) us \<Longrightarrow>
      t_id t = ct_task_id item \<Longrightarrow> t_file_id t = Some (ct_file_id item) \<Longrightarrow>
      t_generation t = ct_generation item \<Longrightarrow>
      (if ct_stale item then fs = db_files db
       else \<exists>f\<in>set fs. f_id f = ct_file_id item \<and> f_generation f = ct_generation item \<and>
         f_status f = committed_status item) \<Longrightarrow>
      Q () (db\<lparr>db_files := fs, db_tasks := us, db_dead := ds\<rparr>)"
  shows "wp (complete_committed_tx now item) Q E db"
proof (cases "committed_status item \<noteq> FileStatusIndexed \<and> committed_status item \<noteq> FileStatusDeleted")
  case True
  then show ?thesis using E by (simp add: complete_committed_tx_def wp_simps Let_def)
next
  case False
  have finish: "wp (mark_done_tx now (ct_task_id item) (\<not> ct_stale item)) Q E (db\<lparr>db_files := fs\<rparr>)"
    if i: "tx_inv db0 (db\<lparr>db_files := fs\<rparr>)"
      and t: "t \<in> set (db_tasks db)" "t_id t = ct_task_id item" "t_file_id t = Some (ct_file_id item)"
        "t_generation t = ct_generation item"
      and fs: "if ct_stale item then fs = db_files db
       else \<exists>f\<in>set fs. f_id f = ct_file_id item \<and> f_generation f = ct_generation item \<and>
         f_status f = committed_status item" for fs t
  proof (rule wp_mark_done_tx [OF i E], assumption, goal_cases)
    case (1 t' us ds)
    then have t': "t' = t" using tasks_wf_id [OF inv_tables(1) [OF inv], of t' t] t by simp
    show ?case using 1 t fs unfolding t' by (intro Q [where t = t]) simp_all
  qed
  show ?thesis
    unfolding complete_committed_tx_def wp_bind Let_def if_not_P [OF False]
  proof (rule wp_task_for_transitionI, goal_cases)
    case (1 t)
    show ?case
    proof (cases "t_file_id t \<noteq> Some (ct_file_id item) \<or> t_generation t \<noteq> ct_generation item")
      case True
      then show ?thesis using E by (simp add: wp_simps)
    next
      case match: False
      show ?thesis
      proof (cases "ct_stale item")
        case True
        have "wp (mark_done_tx now (ct_task_id item) (\<not> ct_stale item)) Q E (db\<lparr>db_files := db_files db\<rparr>)"
          using 1 match inv True by (intro finish [of _ t]) auto
        then show ?thesis using match True by (simp add: wp_simps)
      next
        case False
        have "wp (update_file_status (ct_file_id item) (ct_generation item) (committed_status item)
            (\<lambda>r. r\<lparr>f_indexed_at_ms := ct_indexed_at item\<rparr>))
            (\<lambda>_. wp (mark_done_tx now (ct_task_id item) (\<not> ct_stale item)) Q E) E db"
          using 1 match False
          by (intro wp_update_file_status [OF inv E] finish [of _ t]) (auto simp: same_identity_def)
        then show ?thesis using match False by (simp add: wp_simps)
      qed
    qed
  qed (use E in auto)
qed

section \<open>Retries\<close>

lemma retry_row_simps [simp]:
  "t_id (retry_row now next err refund al ec t) = t_id t"
  "t_path_key (retry_row now next err refund al ec t) = t_path_key t"
  "t_state (retry_row now next err refund al ec t) = TaskStateRetryWait"
  "t_generation (retry_row now next err refund al ec t) = t_generation t"
  "t_next_attempt_at (retry_row now next err refund al ec t) = next"
  "t_attempts_log (retry_row now next err refund al ec t) = al"
  "t_error_chain (retry_row now next err refund al ec t) = ec"
  by (simp_all add: retry_row_def)

lemma retry_row_ok:
  "task_ok t \<Longrightarrow> length al \<le> max_task_failure_history \<Longrightarrow> length ec \<le> max_task_failure_history \<Longrightarrow>
     task_ok (retry_row now next err refund al ec t)"
  by (auto simp: task_ok_def retry_row_def)

lemma retry_row_settled:
  assumes "task_ok t" and "t_state t = TaskStateInFlight"
  shows "settled (retry_row now next err refund al ec t) = settled t + (if refund then 0 else 1)"
  using assms by (auto simp: settled_def retry_row_def task_ok_def)

lemma work_le_transition:
  assumes tr: "transition ts t t' us" and g: "t_generation t \<le> t_generation t'"
    and drop: "\<forall>u\<in>set ts - set us. t_id u \<noteq> t_id t \<longrightarrow> t_generation u \<le> t_generation t'"
    and wf: "tasks_wf ts"
  shows "work_le ts us"
  unfolding work_le_def
proof
  fix u assume u: "u \<in> set ts"
  show "\<exists>v\<in>set us. t_path_key v = t_path_key u \<and> t_generation u \<le> t_generation v"
  proof (cases "t_id u = t_id t")
    case True
    then have "u = t" using tasks_wf_id [OF wf u] tr by (simp add: transition_def)
    then show ?thesis using tr g by (auto simp: transition_def)
  next
    case False
    then have "u \<in> set us \<or> (t_path_key u = t_path_key t' \<and> t_generation u \<le> t_generation t')"
      using tr u drop by (auto simp: transition_def t_slot_def)
    then show ?thesis using tr by (auto simp: transition_def)
  qed
qed

text \<open>The common shape of leaving \<open>in_flight\<close>: clear the target slot, then move the row.\<close>

lemma wp_clear_and_move:
  assumes inv: "tx_inv db0 db" and E: "\<And>e. no_conflict e \<Longrightarrow> E e"
    and t: "t \<in> set (db_tasks db)" "t_id t = i" "t_state t = TaskStateInFlight"
    and f: "task_ok (f t)" "t_id (f t) = t_id t" "t_path_key (f t) = t_path_key t"
      "t_state (f t) = target" "t_generation (f t) = t_generation t"
    and Q: "\<And>us n. n \<noteq> 0 \<Longrightarrow> transition (db_tasks db) t (f t) us \<Longrightarrow> work_le (db_tasks db) us \<Longrightarrow>
      tx_inv db0 (db\<lparr>db_tasks := us\<rparr>) \<Longrightarrow> Q n (db\<lparr>db_tasks := us\<rparr>)"
  shows "wp (clear_older_state_slot t target)
    (\<lambda>_. wp (update_tasks (\<lambda>u. t_id u = i \<and> t_state u = TaskStateInFlight) f) Q E) E db"
proof (rule wp_clear_older_state_slot [OF inv t(1)])
  fix ts
  assume ts: "tasks_wf ts" "set ts \<subseteq> set (db_tasks db)" "t \<in> set ts" "slot_free ts t target"
    "\<forall>u\<in>set (db_tasks db) - set ts. t_path_key u = t_path_key t \<and> t_state u = target \<and>
       t_id u \<noteq> t_id t \<and> t_generation u \<le> t_generation t"
  show "wp (update_tasks (\<lambda>u. t_id u = i \<and> t_state u = TaskStateInFlight) f) Q E (db\<lparr>db_tasks := ts\<rparr>)"
    unfolding t(2) [symmetric]
  proof (rule wp_move_row [OF inv ts(1,2,3) t(3)])
    show "\<forall>u\<in>set (db_tasks db) - set ts. t_slot u = t_slot (f t)" using ts(5) f by (simp add: t_slot_def)
    fix us and n :: nat
    assume *: "n \<noteq> 0" "transition (db_tasks db) t (f t) us" "tx_inv db0 (db\<lparr>db_tasks := us\<rparr>)"
      "us = rows_update (\<lambda>u. t_id u = t_id t \<and> t_state u = TaskStateInFlight) f ts"
    have "work_le (db_tasks db) us"
    proof (rule work_le_transition [OF *(2)])
      show "\<forall>u\<in>set (db_tasks db) - set us. t_id u \<noteq> t_id t \<longrightarrow> t_generation u \<le> t_generation (f t)"
      proof (intro ballI impI)
        fix u assume u: "u \<in> set (db_tasks db) - set us" "t_id u \<noteq> t_id t"
        then have "u \<notin> set ts" unfolding *(4) by (auto simp: set_rows_update)
        then show "t_generation u \<le> t_generation (f t)" using ts(5) u(1) f(5) by simp
      qed
    qed (use f inv_tables(1) [OF inv] in simp_all)
    then show "Q n (db\<lparr>db_tasks := us\<rparr>)" using * by (intro Q)
  qed (use f ts in simp_all)
qed (use E in simp)

lemma wp_mark_retry_tx:
  assumes inv: "tx_inv db0 db" and E: "\<And>e. no_conflict e \<Longrightarrow> E e"
    and Q: "\<And>t t' us. t \<in> set (db_tasks db) \<Longrightarrow> t_id t = task_id \<Longrightarrow> t_state t = TaskStateInFlight \<Longrightarrow>
      transition (db_tasks db) t t' us \<Longrightarrow> work_le (db_tasks db) us \<Longrightarrow>
      t_state t' = TaskStateRetryWait \<Longrightarrow> t_next_attempt_at t' = next_attempt \<Longrightarrow>
      t_generation t' = t_generation t \<Longrightarrow> settled t' = settled t + (if refund then 0 else 1) \<Longrightarrow>
      (if refund then t_attempts_log t' = t_attempts_log t \<and> t_error_chain t' = t_error_chain t
       else length (t_attempts_log t') \<le> 32 \<and> length (t_error_chain t') \<le> 32) \<Longrightarrow>
      tx_inv db0 (db\<lparr>db_tasks := us\<rparr>) \<Longrightarrow> Q () (db\<lparr>db_tasks := us\<rparr>)"
  shows "wp (mark_retry_tx now task_id next_attempt err refund) Q E db"
  unfolding mark_retry_tx_def wp_bind
proof (rule wp_task_for_transitionI, goal_cases)
  case (1 t)
  have ok: "task_ok t" using inv_tables(1) [OF inv] 1(1) by (rule tasks_wfD)
  have "wp (clear_older_state_slot t TaskStateRetryWait)
      (\<lambda>_. wp (update_tasks (\<lambda>u. t_id u = task_id \<and> t_state u = TaskStateInFlight)
         (retry_row now next_attempt err refund al ec)) (\<lambda>n. wp (require_changed n) Q E) E) E db"
    if h: "if refund then al = t_attempts_log t \<and> ec = t_error_chain t
           else length al \<le> 32 \<and> length ec \<le> 32" for al ec
  proof -
    have len: "length al \<le> max_task_failure_history" "length ec \<le> max_task_failure_history"
      using h ok by (simp_all add: task_ok_def max_task_failure_history_def split: if_splits)
    show ?thesis
  proof (rule wp_clear_and_move [where f = "retry_row now next_attempt err refund al ec",
        OF inv E 1 retry_row_ok [OF ok len]], assumption, goal_cases)
    case (5 us n)
    have "Q () (db\<lparr>db_tasks := us\<rparr>)"
      by (rule Q [OF 1 5(2,3)]) (use 5 h retry_row_settled [OF ok 1(3)] in simp_all)
    then show ?case using 5(1) by (simp add: wp_simps)
  qed simp_all
  qed
  note move = this
  have len: "length (drop (Suc (length h) - max_task_failure_history) (h @ [e])) \<le> 32"
    for h :: "history_entry list" and e by (simp add: max_task_failure_history_def)
  show ?case
  proof (cases refund)
    case True
    then show ?thesis
      using move [of "t_attempts_log t" "t_error_chain t"]
      by (simp only: if_True simp_thms wp_lift_Inr_fun wp_bind_fun)
  next
    case False
    then show ?thesis
      using move [of "drop (Suc (length (t_attempts_log t)) - max_task_failure_history)
          (t_attempts_log t @ [AttemptEntry (t_attempts t + (1 - t_charge t)) now ''transient'' err])"
          "drop (Suc (length (t_error_chain t)) - max_task_failure_history)
          (t_error_chain t @ [ErrorEntry ''retry'' err])"]
      by (simp only: if_False simp_thms len append_failure_history_eq wp_lift_Inr_fun wp_bind_fun)
  qed
qed (use E in auto)

section \<open>Parking a batch on a dependency\<close>

lemma wp_tasks_for_transition:
  assumes "\<And>ts. map t_id ts = ids \<Longrightarrow>
      (\<forall>t\<in>set ts. t \<in> set (db_tasks db) \<and> t_state t = TaskStateInFlight) \<Longrightarrow> Q ts db"
    and "E ErrNotFound" and "E ErrInvalidTransition"
  shows "wp (tasks_for_transition ids) Q E db"
  using assms
proof (induction ids arbitrary: Q)
  case Nil
  then show ?case by (simp add: wp_simps)
next
  case (Cons i ids)
  show ?case unfolding tasks_for_transition.simps wp_bind wp_bind_fun wp_return_fun
  proof (rule wp_task_for_transitionI, goal_cases)
    case (1 t)
    show ?case
      by (rule Cons.IH [of "\<lambda>ts. Q (t # ts)"]) (use 1 Cons.prems in auto)
  qed (use Cons.prems in auto)
qed

lemma slot_free_subset: "slot_free ts t target \<Longrightarrow> set us \<subseteq> set ts \<Longrightarrow> slot_free us t target"
  by (auto simp: slot_free_def)

definition cleared :: "task list \<Rightarrow> task list \<Rightarrow> task_state \<Rightarrow> task list \<Rightarrow> bool" where
  "cleared orig tasks target ts \<longleftrightarrow>
     tasks_wf ts \<and> set ts \<subseteq> set orig \<and> set tasks \<subseteq> set ts \<and>
     (\<forall>u\<in>set orig - set ts. t_state u = target \<and>
        (\<exists>t\<in>set tasks. t_path_key u = t_path_key t \<and> t_generation u \<le> t_generation t))"

lemma wp_clear_all:
  assumes inv: "tx_inv db0 db" and E: "E ErrStaleGeneration"
    and tasks: "\<forall>t\<in>set tasks. t \<in> set (db_tasks db) \<and> t_state t \<noteq> target"
    and Q: "\<And>ts. cleared (db_tasks db) tasks target ts \<Longrightarrow> (\<forall>t\<in>set tasks. slot_free ts t target) \<Longrightarrow>
      Q () (db\<lparr>db_tasks := ts\<rparr>)"
  shows "wp (tx_each (\<lambda>t. clear_older_state_slot t target) tasks) Q E db"
proof -
  define I where "I rest db' \<longleftrightarrow> (\<exists>ts. db' = db\<lparr>db_tasks := ts\<rparr> \<and> cleared (db_tasks db) tasks target ts \<and>
      set rest \<subseteq> set tasks \<and> (\<forall>t\<in>set tasks. t \<in> set rest \<or> slot_free ts t target))" for rest db'
  have "wp (tx_each (\<lambda>t. clear_older_state_slot t target) tasks) (\<lambda>_. I []) E db"
  proof (rule wp_each_rest)
    show "I tasks db" unfolding I_def cleared_def
      using tasks inv_tables(1) [OF inv] by (intro exI [of _ "db_tasks db"]) auto
  next
    fix t rest db'
    assume "I (t # rest) db'"
    then obtain ts where db': "db' = db\<lparr>db_tasks := ts\<rparr>" and c: "cleared (db_tasks db) tasks target ts"
      and rest: "set (t # rest) \<subseteq> set tasks"
      and free: "\<forall>u\<in>set tasks. u \<in> set (t # rest) \<or> slot_free ts u target"
      unfolding I_def by blast
    show "wp (clear_older_state_slot t target) (\<lambda>_. I rest) E db'"
    proof (rule wp_clear_older_state_slot [of db0])
      show "tx_inv db0 db'" unfolding db' using c by (intro inv_tasks [OF inv]) (simp add: cleared_def)
      show "t \<in> set (db_tasks db')" using c rest by (auto simp: db' cleared_def)
      fix us
      assume us: "tasks_wf us" "set us \<subseteq> set (db_tasks db')" "t \<in> set us" "slot_free us t target"
        "\<forall>u\<in>set (db_tasks db') - set us. t_path_key u = t_path_key t \<and> t_state u = target \<and>
           t_id u \<noteq> t_id t \<and> t_generation u \<le> t_generation t"
      have sub: "set us \<subseteq> set ts" using us(2) by (simp add: db')
      have gone: "t_state u = target \<and> t_path_key u = t_path_key t \<and> t_generation u \<le> t_generation t"
        if "u \<in> set ts" "u \<notin> set us" for u using us(5) that by (simp add: db')
      have "cleared (db_tasks db) tasks target us" unfolding cleared_def
      proof (intro conjI ballI)
        show "set tasks \<subseteq> set us" using c gone tasks unfolding cleared_def by blast
        fix u assume u: "u \<in> set (db_tasks db) - set us"
        show "t_state u = target" using u gone [of u] c by (cases "u \<in> set ts") (auto simp: cleared_def)
        show "\<exists>t\<in>set tasks. t_path_key u = t_path_key t \<and> t_generation u \<le> t_generation t"
          using u gone [of u] c rest by (cases "u \<in> set ts") (auto simp: cleared_def)
      qed (use us sub c in \<open>auto simp: cleared_def\<close>)
      moreover have "\<forall>u\<in>set tasks. u \<in> set rest \<or> slot_free us u target"
        using free us(4) slot_free_subset [OF _ sub] by auto
      ultimately show "I rest (db'\<lparr>db_tasks := us\<rparr>)"
        unfolding I_def db' using rest by (intro exI [of _ us]) auto
    qed (use E in simp)
  qed
  then show ?thesis
    by (rule wp_mono) (auto simp: I_def intro: Q)
qed

lemma waiting_dep_row_simps [simp]:
  "t_id (waiting_dep_row now err t) = t_id t"
  "t_path_key (waiting_dep_row now err t) = t_path_key t"
  "t_state (waiting_dep_row now err t) = TaskStateWaitingDep"
  "t_generation (waiting_dep_row now err t) = t_generation t"
  "t_charge (waiting_dep_row now err t) = 0"
  by (simp_all add: waiting_dep_row_def)

lemma waiting_dep_row_ok: "task_ok t \<Longrightarrow> task_ok (waiting_dep_row now err t)"
  by (auto simp: task_ok_def waiting_dep_row_def)

lemma waiting_dep_row_settled:
  "task_ok t \<Longrightarrow> t_state t = TaskStateInFlight \<Longrightarrow> settled (waiting_dep_row now err t) = settled t"
  by (auto simp: settled_def waiting_dep_row_def task_ok_def)

lemma wp_park_all:
  assumes inv: "tx_inv db0 db" and E: "\<And>e. no_conflict e \<Longrightarrow> E e"
    and tasks: "set tasks \<subseteq> set (db_tasks db)" "distinct (map t_id tasks)"
      "\<forall>t\<in>set tasks. t_state t = TaskStateInFlight \<and> slot_free (db_tasks db) t TaskStateWaitingDep"
    and Q: "\<And>us. tx_inv db0 (db\<lparr>db_tasks := us\<rparr>) \<Longrightarrow> work_le (db_tasks db) us \<Longrightarrow>
      (\<forall>t\<in>set tasks. waiting_dep_row now err t \<in> set us) \<Longrightarrow> Q () (db\<lparr>db_tasks := us\<rparr>)"
  shows "wp (tx_each (park_task_tx now err) (map t_id tasks)) Q E db"
proof -
  define I where "I rest db' \<longleftrightarrow> (\<exists>us later. db' = db\<lparr>db_tasks := us\<rparr> \<and> tx_inv db0 db' \<and>
      rest = map t_id later \<and> set later \<subseteq> set tasks \<and> distinct rest \<and> work_le (db_tasks db) us \<and>
      (\<forall>t\<in>set tasks. if t \<in> set later then t \<in> set us \<and> slot_free us t TaskStateWaitingDep
         else waiting_dep_row now err t \<in> set us))" for rest db'
  have ids: "t = u" if "t \<in> set tasks" "u \<in> set tasks" "t_id t = t_id u" for t u
    using tasks(2) that by (auto dest: distinct_map_inj)
  have "wp (tx_each (park_task_tx now err) (map t_id tasks)) (\<lambda>_. I []) E db"
  proof (rule wp_each_rest)
    show "I (map t_id tasks) db" unfolding I_def
      using tasks inv by (intro exI [of _ "db_tasks db"] exI [of _ tasks]) auto
  next
    fix i rest db'
    assume "I (i # rest) db'"
    then obtain us later where db': "db' = db\<lparr>db_tasks := us\<rparr>" and inv': "tx_inv db0 db'"
      and later: "i # rest = map t_id later" "set later \<subseteq> set tasks" "distinct (i # rest)"
      and w: "work_le (db_tasks db) us"
      and st: "\<forall>t\<in>set tasks. if t \<in> set later then t \<in> set us \<and> slot_free us t TaskStateWaitingDep
         else waiting_dep_row now err t \<in> set us"
      unfolding I_def by (elim exE conjE)
    obtain t lat where l: "later = t # lat" "i = t_id t" "rest = map t_id lat" using later(1) by (cases later) auto
    have t: "t \<in> set us" "t_state t = TaskStateInFlight" "slot_free us t TaskStateWaitingDep" "t \<in> set tasks"
      using st later(2) l tasks(3) by auto
    have wf: "tasks_wf us" using inv_tables(1) [OF inv'] by (simp add: db')
    have again: "db\<lparr>db_tasks := us\<rparr> = (db\<lparr>db_tasks := us\<rparr>)\<lparr>db_tasks := us\<rparr>" by simp
    show "wp (park_task_tx now err i) (\<lambda>_. I rest) E db'"
      unfolding park_task_tx_def wp_bind l(2) db'
    proof (subst again, rule wp_move_row [where task = t and f = "waiting_dep_row now err", OF inv' [unfolded db']])
      fix vs and n :: nat
      assume *: "n \<noteq> 0" "transition (db_tasks (db\<lparr>db_tasks := us\<rparr>)) t (waiting_dep_row now err t) vs"
        "vs = rows_update (\<lambda>u. t_id u = t_id t \<and> t_state u = TaskStateInFlight) (waiting_dep_row now err) us"
        "tx_inv db0 ((db\<lparr>db_tasks := us\<rparr>)\<lparr>db_tasks := vs\<rparr>)"
      have "work_le us vs" unfolding *(3) by (rule work_le_update) simp
      then have w': "work_le (db_tasks db) vs" by (rule work_le_trans [OF w])
      have keep: "u \<in> set vs" if "u \<in> set us" "t_id u \<noteq> t_id t" for u
        using that by (force simp: *(3) set_rows_update)
      have key: "t_path_key u \<noteq> t_path_key t" if "u \<in> set us" "t_state u = TaskStateInFlight" "u \<noteq> t" for u
        using tasks_wf_one_per_slot [OF wf that(1) t(1)] that t(2) by auto
      have "if u \<in> set lat then u \<in> set vs \<and> slot_free vs u TaskStateWaitingDep
            else waiting_dep_row now err u \<in> set vs" if u: "u \<in> set tasks" for u
      proof (cases "u \<in> set lat")
        case True
        then have "t_id u \<in> set (map t_id lat)" by simp
        then have "t_id u \<noteq> t_id t" using later(3) l by (metis distinct.simps(2))
        moreover have "u \<in> set us" "slot_free us u TaskStateWaitingDep" using st u True l by auto
        moreover from this(1) have "t_path_key u \<noteq> t_path_key t"
          using key u tasks(3) \<open>t_id u \<noteq> t_id t\<close> by auto
        ultimately show ?thesis
          using True keep *(2) by (auto simp: slot_free_def transition_def)
      next
        case False
        show ?thesis
        proof (cases "u = t")
          case True
          then show ?thesis using False *(2) by (simp add: transition_def)
        next
          case ne: False
          then have "waiting_dep_row now err u \<in> set us" using st u False l by auto
          moreover have "t_id (waiting_dep_row now err u) \<noteq> t_id t" using ids [OF u t(4)] ne by auto
          ultimately have "waiting_dep_row now err u \<in> set vs" by (rule keep)
          then show ?thesis using False by simp
        qed
      qed
      then have "I rest (db\<lparr>db_tasks := vs\<rparr>)"
        unfolding I_def using * w' later l by (intro exI [of _ vs] exI [of _ lat]) auto
      then show "wp (require_changed n) (\<lambda>_. I rest) E ((db\<lparr>db_tasks := us\<rparr>)\<lparr>db_tasks := vs\<rparr>)"
        using *(1) by (simp add: wp_simps)
    qed (use t wf waiting_dep_row_ok [OF tasks_wfD(2) [OF wf t(1)]] in simp_all)
  qed
  then show ?thesis by (rule wp_mono) (auto simp: I_def intro!: Q)
qed

lemma wp_mark_waiting_dep_batch_tx:
  assumes inv: "tx_inv db0 db" and E: "\<And>e. no_conflict e \<Longrightarrow> E e" and ids: "distinct task_ids"
    and Q: "\<And>us. tx_inv db0 (db\<lparr>db_tasks := us\<rparr>) \<Longrightarrow> work_le (db_tasks db) us \<Longrightarrow>
      (\<forall>i\<in>set task_ids. \<exists>t\<in>set (db_tasks db). \<exists>t'\<in>set us. t_id t = i \<and> t_id t' = i \<and>
         t_state t = TaskStateInFlight \<and> t_state t' = TaskStateWaitingDep \<and>
         t_generation t' = t_generation t \<and> t_charge t' = 0 \<and> settled t' = settled t) \<Longrightarrow>
      Q () (db\<lparr>db_tasks := us\<rparr>)"
  shows "wp (mark_waiting_dep_batch_tx now task_ids err) Q E db"
  unfolding mark_waiting_dep_batch_tx_def wp_bind wp_bind_fun
proof (rule wp_tasks_for_transition)
  fix tasks
  assume m: "map t_id tasks = task_ids"
    and tasks: "\<forall>t\<in>set tasks. t \<in> set (db_tasks db) \<and> t_state t = TaskStateInFlight"
  show "wp (tx_each (\<lambda>t. clear_older_state_slot t TaskStateWaitingDep) tasks)
      (\<lambda>_. wp (tx_each (park_task_tx now err) task_ids) Q E) E db"
  proof (rule wp_clear_all [OF inv])
    fix ts
    assume c: "cleared (db_tasks db) tasks TaskStateWaitingDep ts"
      and free: "\<forall>t\<in>set tasks. slot_free ts t TaskStateWaitingDep"
    have w: "work_le (db_tasks db) ts" unfolding work_le_def
    proof
      fix u assume u: "u \<in> set (db_tasks db)"
      show "\<exists>v\<in>set ts. t_path_key v = t_path_key u \<and> t_generation u \<le> t_generation v"
      proof (cases "u \<in> set ts")
        case False
        then obtain t where "t \<in> set tasks" "t_path_key u = t_path_key t" "t_generation u \<le> t_generation t"
          using c u unfolding cleared_def by blast
        moreover from this(1) have "t \<in> set ts" using c by (auto simp: cleared_def)
        ultimately show ?thesis by (intro bexI [of _ t]) auto
      qed auto
    qed
    have inv': "tx_inv db0 (db\<lparr>db_tasks := ts\<rparr>)" using c by (intro inv_tasks [OF inv]) (simp add: cleared_def)
    show "wp (tx_each (park_task_tx now err) task_ids) Q E (db\<lparr>db_tasks := ts\<rparr>)"
      unfolding m [symmetric]
    proof (rule wp_park_all [OF inv' E], assumption)
      fix us
      assume us: "tx_inv db0 ((db\<lparr>db_tasks := ts\<rparr>)\<lparr>db_tasks := us\<rparr>)"
        "work_le (db_tasks (db\<lparr>db_tasks := ts\<rparr>)) us" "\<forall>t\<in>set tasks. waiting_dep_row now err t \<in> set us"
      have "\<exists>t\<in>set (db_tasks db). \<exists>t'\<in>set us. t_id t = i \<and> t_id t' = i \<and>
         t_state t = TaskStateInFlight \<and> t_state t' = TaskStateWaitingDep \<and>
         t_generation t' = t_generation t \<and> t_charge t' = 0 \<and> settled t' = settled t"
        if i: "i \<in> set task_ids" for i
      proof -
        obtain t where t: "t \<in> set tasks" "t_id t = i" using i unfolding m [symmetric] by force
        then have db: "t \<in> set (db_tasks db)" "t_state t = TaskStateInFlight" using tasks by auto
        then have "task_ok t" using tasks_wfD(2) [OF inv_tables(1) [OF inv]] by blast
        then have "settled (waiting_dep_row now err t) = settled t"
          using db(2) by (rule waiting_dep_row_settled)
        moreover have "waiting_dep_row now err t \<in> set us" using us(3) t(1) by blast
        ultimately show ?thesis
          using t(2) db by (intro bexI [of _ t] bexI [of _ "waiting_dep_row now err t"]) simp_all
      qed
      then show "Q () ((db\<lparr>db_tasks := ts\<rparr>)\<lparr>db_tasks := us\<rparr>)"
        using us work_le_trans [OF w] by (simp add: Q)
    qed (use c tasks free ids m in \<open>auto simp: cleared_def\<close>)
  qed (use E tasks in auto)
qed (use E in auto)

end
