(* ===== verification/Store_Queue_Exits.thy ===== *)
theory Store_Queue_Exits
  imports Store_Queue_Laws
begin

text \<open>
  The remaining laws of the queue: releasing waiting rows to \<open>pending\<close>, where they may meet newer
  work on the same path, and the terminal failure, which writes the queue, the catalog, the dead
  letters and the audit outbox in one transaction.
\<close>

section \<open>Release\<close>

definition released_row :: "int \<Rightarrow> task \<Rightarrow> task" where
  "released_row now t = t\<lparr>t_state := TaskStatePending, t_next_attempt_at := 0, t_updated_at := now\<rparr>"

definition released_to :: "task list \<Rightarrow> task \<Rightarrow> task list \<Rightarrow> bool" where
  "released_to ts c us \<longleftrightarrow>
     work_le ts us \<and> pending_le ts us \<and>
     (\<exists>p\<in>set us. t_slot p = (t_path_key c, TaskStatePending) \<and> t_generation c \<le> t_generation p) \<and>
     (\<forall>u\<in>set ts. t_id u \<noteq> t_id c \<longrightarrow> t_state u \<noteq> TaskStatePending \<longrightarrow> u \<in> set us)"

lemma absorb_released_ok:
  assumes "task_ok c" and "task_ok p" and "t_path_key p = t_path_key c" and "t_state p = TaskStatePending"
  shows "task_ok (absorb_released now c p)" and "t_slot (absorb_released now c p) = t_slot p"
  using assms by (auto simp: task_ok_def absorb_released_def t_slot_def)

lemma wp_release_one:
  assumes inv: "tx_inv db0 db" and E: "\<And>e. no_conflict e \<Longrightarrow> E e"
    and c: "c \<in> set (db_tasks db)" "t_state c = st" "st \<noteq> TaskStatePending"
    and Q: "\<And>us. tx_inv db0 (db\<lparr>db_tasks := us\<rparr>) \<Longrightarrow> released_to (db_tasks db) c us \<Longrightarrow>
      Q (n + 1) (db\<lparr>db_tasks := us\<rparr>)"
  shows "wp (release_one now st n c) Q E db"
proof -
  let ?ts = "db_tasks db" and ?key = "path_key (t_path c)"
  let ?p = "\<lambda>t. t_path_key t = ?key \<and> t_state t = TaskStatePending"
  have wf: "tasks_wf ?ts" using inv by (rule inv_tables)
  have key: "t_path_key c = ?key" and cok: "task_ok c" using tasks_wfD [OF wf c(1)] by simp_all
  show ?thesis
  proof (cases "List.find ?p ?ts")
    case None
    then have free: "slot_free ?ts c TaskStatePending" by (auto simp: slot_free_def find_None_iff key)
    have again: "db = db\<lparr>db_tasks := ?ts\<rparr>" by simp
    have "wp (update_tasks (\<lambda>t. t_id t = t_id c \<and> t_state t = st) (released_row now))
        (\<lambda>_. Q (n + 1)) E (db\<lparr>db_tasks := ?ts\<rparr>)"
    proof (rule wp_move_row [where task = c and f = "released_row now", OF inv wf])
      fix us and m :: nat
      assume us: "transition ?ts c (released_row now c) us" "tx_inv db0 (db\<lparr>db_tasks := us\<rparr>)"
        "us = rows_update (\<lambda>t. t_id t = t_id c \<and> t_state t = st) (released_row now) ?ts"
      have keep: "u \<in> set us" if "u \<in> set ?ts" "t_id u \<noteq> t_id c" for u
        using that by (force simp: us(3) set_rows_update)
      have "work_le ?ts us" unfolding us(3) by (rule work_le_update) (simp add: released_row_def)
      moreover have "pending_le ?ts us" unfolding pending_le_def
        using keep tasks_wf_id [OF wf _ c(1)] c(2,3) by (metis order_refl)
      moreover have "released_row now c \<in> set us" using us(1) by (simp add: transition_def)
      ultimately have "released_to ?ts c us"
        using keep by (auto simp: released_to_def t_slot_def released_row_def
            intro!: bexI [of _ "released_row now c"])
      then show "Q (n + 1) (db\<lparr>db_tasks := us\<rparr>)" using us(2) by (intro Q)
    qed (use c free cok in \<open>auto simp: released_row_def task_ok_def\<close>)
    then show ?thesis
      using None by (simp add: release_one_def wp_bind wp_bind_fun wp_find_task wp_return_fun
          released_row_def [abs_def])
  next
    case (Some p)
    then have p: "p \<in> set ?ts" "?p p" by (auto dest: find_SomeD)
    have pc: "t_id p \<noteq> t_id c" using tasks_wf_id [OF wf p(1) c(1)] p(2) c by auto
    have fin: "Q (n + 1) (db\<lparr>db_tasks := rows_delete (\<lambda>t. t_id t = t_id c) us\<rparr>)"
      if us: "tasks_wf us" "p' \<in> set us" "t_slot p' = t_slot p" "t_id p' = t_id p"
        "t_generation p \<le> t_generation p'" "t_generation c \<le> t_generation p'"
        "\<And>u. u \<in> set ?ts \<Longrightarrow> u \<noteq> p \<Longrightarrow> u \<in> set us" for us p'
    proof (rule Q)
      let ?vs = "rows_delete (\<lambda>t. t_id t = t_id c) us"
      show "tx_inv db0 (db\<lparr>db_tasks := ?vs\<rparr>)" using us(1) by (intro inv_tasks [OF inv]) auto
      have p': "p' \<in> set ?vs" using us(2,4) pc by simp
      have slot: "t_slot p' = (t_path_key c, TaskStatePending)"
        using us(3) p(2) key by (simp add: t_slot_def)
      have rest: "u \<in> set ?vs \<or> u = p \<or> u = c" if "u \<in> set ?ts" for u
        using us(7) [OF that] tasks_wf_id [OF wf that c(1)] by auto
      have "\<exists>v\<in>set ?vs. t_path_key v = t_path_key u \<and> t_generation u \<le> t_generation v"
        if "u \<in> set ?ts" for u
        using rest [OF that] p' us(3,5,6) slot by (auto simp: t_slot_def)
      moreover have "\<exists>v\<in>set ?vs. t_slot v = t_slot u \<and> t_generation u \<le> t_generation v"
        if "u \<in> set ?ts" "t_state u = TaskStatePending" for u
        using rest [OF that(1)] p' us(3,5) that(2) c(2,3) by auto
      moreover have "u \<in> set ?vs" if "u \<in> set ?ts" "t_id u \<noteq> t_id c" "t_state u \<noteq> TaskStatePending" for u
        using rest [OF that(1)] that(2,3) p(2) by auto
      ultimately show "released_to ?ts c ?vs"
        using p' slot us(6) unfolding released_to_def work_le_def pending_le_def by blast
    qed
    show ?thesis
    proof (cases "t_generation p < t_generation c")
      case True
      let ?us = "rows_update (\<lambda>t. t_id t = t_id p) (absorb_released now c) ?ts"
      have only: "r = p" if "r \<in> set ?ts" "t_id r = t_id p" for r using tasks_wf_id [OF wf that(1) p(1)] that by simp
      have ok: "task_ok (absorb_released now c p)" "t_slot (absorb_released now c p) = t_slot p"
        using absorb_released_ok [OF cok tasks_wfD(2) [OF wf p(1)]] p(2) key by simp_all
      have us: "tasks_wf ?us"
        using only ok by (intro tasks_wf_update_frame [OF wf]) (auto simp: absorb_released_def)
      have "absorb_released now c p \<in> set ?us" using p(1) by (force simp: set_rows_update)
      moreover have "u \<in> set ?us" if "u \<in> set ?ts" "u \<noteq> p" for u
        using that only by (force simp: set_rows_update)
      ultimately have "Q (n + 1) (db\<lparr>db_tasks := rows_delete (\<lambda>t. t_id t = t_id c) ?us\<rparr>)"
        using us ok True by (intro fin [of _ "absorb_released now c p"]) (auto simp: absorb_released_def)
      then show ?thesis
        using Some True tasks_wf_slots [OF us] by (simp add: release_one_def wp_simps)
    next
      case False
      then have "Q (n + 1) (db\<lparr>db_tasks := rows_delete (\<lambda>t. t_id t = t_id c) ?ts\<rparr>)"
        using wf p by (intro fin [of _ p]) auto
      then show ?thesis using Some False by (simp add: release_one_def wp_simps)
    qed
  qed
qed

lemma release_candidates_props:
  assumes "tasks_wf ts"
  shows "\<forall>c\<in>set (release_candidates st due limit ts). c \<in> set ts \<and> t_state c = st \<and>
      (st = TaskStateRetryWait \<longrightarrow> t_next_attempt_at c \<le> due)"
    and "distinct (map t_id (release_candidates st due limit ts))"
    and "length (release_candidates st due limit ts) \<le> list_limit limit"
  using assms
  by (auto simp: release_candidates_def order_by_def tasks_wf_def distinct_map inj_on_def
      dest!: in_set_takeD)

lemma wp_release_to_pending_tx:
  assumes inv: "tx_inv db0 db" and E: "\<And>e. no_conflict e \<Longrightarrow> E e"
    and st: "st \<noteq> TaskStatePending"
    and Q: "\<And>us. tx_inv db0 (db\<lparr>db_tasks := us\<rparr>) \<Longrightarrow> work_le (db_tasks db) us \<Longrightarrow>
      pending_le (db_tasks db) us \<Longrightarrow>
      (\<forall>c\<in>set (release_candidates st due limit (db_tasks db)).
         \<exists>p\<in>set us. t_slot p = (t_path_key c, TaskStatePending) \<and> t_generation c \<le> t_generation p) \<Longrightarrow>
      Q (length (release_candidates st due limit (db_tasks db))) (db\<lparr>db_tasks := us\<rparr>)"
  shows "wp (release_to_pending_tx now st due limit) Q E db"
proof -
  let ?ts = "db_tasks db"
  define cs where "cs = release_candidates st due limit ?ts"
  have wf: "tasks_wf ?ts" using inv by (rule inv_tables)
  note props = release_candidates_props [OF wf, of st due limit, folded cs_def]
  define I where "I n rest db' \<longleftrightarrow> (\<exists>us. db' = db\<lparr>db_tasks := us\<rparr> \<and> tx_inv db0 db' \<and> work_le ?ts us \<and>
      pending_le ?ts us \<and> n + length rest = length cs \<and> set rest \<subseteq> set us \<and> set rest \<subseteq> set cs \<and>
      distinct (map t_id rest) \<and>
      (\<forall>c\<in>set cs. c \<in> set rest \<or>
         (\<exists>p\<in>set us. t_slot p = (t_path_key c, TaskStatePending) \<and> t_generation c \<le> t_generation p)))"
    for n rest db'
  have "wp (tx_fold (release_one now st) 0 cs) (\<lambda>n. I n []) E db"
  proof (rule wp_fold_rest)
    show "I 0 cs db" unfolding I_def using props inv by (intro exI [of _ ?ts]) auto
  next
    fix n c rest db'
    assume "I n (c # rest) db'"
    then obtain us where db': "db' = db\<lparr>db_tasks := us\<rparr>" and inv': "tx_inv db0 db'"
      and w: "work_le ?ts us" and pl: "pending_le ?ts us" and len: "n + length (c # rest) = length cs"
      and rest: "set (c # rest) \<subseteq> set us" "set (c # rest) \<subseteq> set cs" "distinct (map t_id (c # rest))"
      and cov: "\<forall>d\<in>set cs. d \<in> set (c # rest) \<or>
         (\<exists>p\<in>set us. t_slot p = (t_path_key d, TaskStatePending) \<and> t_generation d \<le> t_generation p)"
      unfolding I_def by (elim exE conjE)
    show "wp (release_one now st n c) (\<lambda>n. I n rest) E db'"
    proof (rule wp_release_one [OF inv' E], assumption)
      show "c \<in> set (db_tasks db')" "t_state c = st" "st \<noteq> TaskStatePending"
        using rest(1,2) props(1) st by (auto simp: db')
      fix vs
      assume vs: "tx_inv db0 (db'\<lparr>db_tasks := vs\<rparr>)" "released_to (db_tasks db') c vs"
      have r: "work_le us vs" "pending_le us vs"
        "\<exists>p\<in>set vs. t_slot p = (t_path_key c, TaskStatePending) \<and> t_generation c \<le> t_generation p"
        and keep: "\<And>u. u \<in> set us \<Longrightarrow> t_id u \<noteq> t_id c \<Longrightarrow> t_state u \<noteq> TaskStatePending \<Longrightarrow> u \<in> set vs"
        using vs(2) by (simp_all add: released_to_def db')
      have "d \<in> set rest \<or> (\<exists>p\<in>set vs. t_slot p = (t_path_key d, TaskStatePending) \<and>
          t_generation d \<le> t_generation p)" if d: "d \<in> set cs" for d
      proof -
        consider "d = c" | "d \<in> set rest"
          | p where "p \<in> set us" "t_slot p = (t_path_key d, TaskStatePending)" "t_generation d \<le> t_generation p"
          using cov d by auto
        then show ?thesis
        proof cases
          case 3
          then have "t_state p = TaskStatePending" by (simp add: t_slot_def)
          then obtain v where "v \<in> set vs" "t_slot v = t_slot p" "t_generation p \<le> t_generation v"
            using r(2) 3(1) unfolding pending_le_def by blast
          then show ?thesis using 3 by (intro disjI2 bexI [of _ v]) auto
        qed (use r(3) in auto)
      qed
      moreover have "set rest \<subseteq> set vs"
      proof
        fix u assume u: "u \<in> set rest"
        then have "t_id u \<in> set (map t_id rest)" by simp
        then have "t_id u \<noteq> t_id c" using rest(3) by (metis distinct.simps(2) list.simps(9))
        moreover have "t_state u = st" using u rest(2) props(1) by auto
        ultimately show "u \<in> set vs" using u rest(1) st by (intro keep) auto
      qed
      ultimately show "I (n + 1) rest (db'\<lparr>db_tasks := vs\<rparr>)"
        unfolding I_def db'
        using vs(1) [unfolded db'] work_le_trans [OF w r(1)] pending_le_trans [OF pl r(2)] len rest
        by (intro exI [of _ vs] conjI) auto
    qed
  qed
  then have "wp (tx_fold (release_one now st) 0 cs) Q E db"
    by (rule wp_mono) (auto simp: I_def cs_def intro!: Q)
  then show ?thesis by (simp add: release_to_pending_tx_def wp_simps cs_def)
qed

section \<open>Terminal failures\<close>

lemma wp_ensure_failure_file_tx:
  assumes inv: "tx_inv db0 db" and E: "\<And>e. no_conflict e \<Longrightarrow> E e" and t: "task_ok t"
    and Q: "\<And>f fs. tx_inv db0 (db\<lparr>db_files := fs\<rparr>) \<Longrightarrow> f \<in> set fs \<Longrightarrow>
      f_path_key f = t_path_key t \<Longrightarrow> Q (f_id f) (db\<lparr>db_files := fs\<rparr>)"
  shows "wp (ensure_failure_file_tx t) Q E db"
proof -
  let ?fs = "db_files db" and ?key = "path_key (t_path t)"
  have wf: "files_wf ?fs" using inv by (rule inv_tables)
  have key: "t_path_key t = ?key" using t by (simp add: task_ok_def)
  show ?thesis
  proof (cases "List.find (\<lambda>f. f_path_key f = ?key) ?fs")
    case None
    let ?new = "failure_placeholder t" and ?row = "(failure_placeholder t)\<lparr>f_id := next_rowid (map f_id ?fs)\<rparr>"
    have "file_ok ?new" using t by (simp add: file_ok_def failure_placeholder_def kind_ok_def status_ok_def task_ok_def)
    then have wf': "files_wf (?fs @ [?row])"
      using None by (intro files_wf_insert [OF wf]) (auto simp: find_None_iff failure_placeholder_def)
    have "Q (f_id ?row) (db\<lparr>db_files := ?fs @ [?row]\<rparr>)"
      by (intro Q inv_files [OF inv wf']) (simp_all add: catalog_le_append failure_placeholder_def key)
    moreover have "distinct (map f_path_key (?fs @ [?row]))" using wf' by (rule files_wf_keys)
    ultimately show ?thesis using None by (simp add: ensure_failure_file_tx_def wp_simps Let_def)
  next
    case (Some f)
    then have f: "f \<in> set ?fs" "f_path_key f = ?key" by (auto dest: find_SomeD)
    show ?thesis
    proof (cases "f_generation f \<le> t_generation t")
      case True
      let ?h = "\<lambda>r. r\<lparr>f_generation := t_generation t, f_status := FileStatusFailed\<rparr>"
      let ?gs = "rows_update (\<lambda>r. f_id r = f_id f) ?h ?fs"
      have "file_ok (?h r) \<and> f_id (?h r) = f_id r \<and> f_path_key (?h r) = f_path_key r \<and>
          f_generation r \<le> f_generation (?h r)" if "r \<in> set ?fs" "f_id r = f_id f" for r
        using files_wf_id [OF wf that(1) f(1) that(2)] files_wfD(2) [OF wf that(1)] True t
        by (simp add: file_ok_def status_ok_def task_ok_def)
      then have fr: "tx_inv db0 (db\<lparr>db_files := ?gs\<rparr>)" "distinct (map f_path_key ?gs)"
        using inv_update_files_frame [OF inv, of "\<lambda>r. f_id r = f_id f" ?h] by blast+
      have "?h f \<in> set ?gs" using f(1) by (force simp: set_rows_update)
      then have "Q (f_id (?h f)) (db\<lparr>db_files := ?gs\<rparr>)"
        using f(2) key by (intro Q fr(1)) simp_all
      then show ?thesis using Some True fr(2) by (simp add: ensure_failure_file_tx_def wp_simps)
    next
      case False
      have "Q (f_id f) (db\<lparr>db_files := ?fs\<rparr>)" using f key inv by (intro Q) simp_all
      then show ?thesis using Some False by (simp add: ensure_failure_file_tx_def wp_simps)
    qed
  qed
qed

lemma wp_anchor_dead_task:
  assumes inv: "tx_inv db0 db" and E: "\<And>e. no_conflict e \<Longrightarrow> E e" and t: "task_ok t"
    and t': "t' \<in> set (db_tasks db)" "t_id t' = t_id t"
    and Q: "\<And>i us fs. tx_inv db0 (db\<lparr>db_files := fs, db_tasks := us\<rparr>) \<Longrightarrow>
      (\<forall>j. t_file_id t = Some j \<longrightarrow> i = j) \<Longrightarrow>
      (\<exists>u\<in>set us. t_id u = t_id t \<and> t_state u = t_state t' \<and> t_attempts u = t_attempts t' \<and>
         t_crash_count u = t_crash_count t') \<Longrightarrow>
      work_le (db_tasks db) us \<Longrightarrow>
      (\<forall>u. t_id u \<noteq> t_id t \<longrightarrow> u \<in> set us \<longleftrightarrow> u \<in> set (db_tasks db)) \<Longrightarrow>
      (\<forall>u\<in>set us. t_id u = t_id t \<longrightarrow> t_state u = t_state t' \<and> t_path_key u = t_path_key t') \<Longrightarrow> Q i (db\<lparr>db_files := fs, db_tasks := us\<rparr>)"
  shows "wp (anchor_dead_task t) Q E db"
proof -
  have wf: "tasks_wf (db_tasks db)" using inv by (rule inv_tables)
  have only: "u = t'" if "u \<in> set (db_tasks db)" "t_id u = t_id t" for u
    using tasks_wf_id [OF wf that(1) t'(1)] that(2) t'(2) by simp
  show ?thesis
proof (cases "t_file_id t")
  case (Some i)
  have "\<forall>u\<in>set (db_tasks db). t_id u = t_id t \<longrightarrow> t_state u = t_state t' \<and> t_path_key u = t_path_key t'"
    using only by blast
  moreover have "\<exists>u\<in>set (db_tasks db). t_id u = t_id t \<and> t_state u = t_state t' \<and>
      t_attempts u = t_attempts t' \<and> t_crash_count u = t_crash_count t'" using t' by blast
  ultimately have "Q i (db\<lparr>db_files := db_files db, db_tasks := db_tasks db\<rparr>)"
    using inv Some by (intro Q) simp_all
  then show ?thesis using Some by (simp add: anchor_dead_task_def wp_simps)
next
  case None
  let ?p = "\<lambda>u. t_id u = t_id t"
  have "wp (ensure_failure_file_tx t) (\<lambda>i. wp (update_tasks ?p (\<lambda>u. u\<lparr>t_file_id := Some i\<rparr>)) (\<lambda>_. Q i) E) E db"
  proof (rule wp_ensure_failure_file_tx [OF inv E t], assumption)
    fix f fs
    assume i: "tx_inv db0 (db\<lparr>db_files := fs\<rparr>)"
    let ?h = "\<lambda>u. u\<lparr>t_file_id := Some (f_id f)\<rparr>"
    let ?us = "rows_update ?p ?h (db_tasks db)"
    have us: "tasks_wf ?us"
      using tasks_wfD(2) [OF wf] by (intro tasks_wf_update_frame [OF wf]) (simp add: task_ok_def t_slot_def)
    have "?h t' \<in> set ?us" using t' by (force simp: set_rows_update)
    then have "\<exists>u\<in>set ?us. t_id u = t_id t \<and> t_state u = t_state t' \<and> t_attempts u = t_attempts t' \<and>
        t_crash_count u = t_crash_count t'"
      using t'(2) by (intro bexI [of _ "?h t'"]) simp_all
    moreover have "u \<in> set ?us \<longleftrightarrow> u \<in> set (db_tasks db)" if "t_id u \<noteq> t_id t" for u
      using that by (intro in_rows_update_other) auto
    moreover have "t_state u = t_state t' \<and> t_path_key u = t_path_key t'"
      if "u \<in> set ?us" "t_id u = t_id t" for u
      using that(1)
    proof (cases rule: in_rows_updateE)
      case (new r0)
      then have "r0 = t'" using only by blast
      then show ?thesis using new by simp
    qed (use that in simp)
    moreover have "work_le (db_tasks db) ?us" by (rule work_le_update) simp
    ultimately have "Q (f_id f) (db\<lparr>db_files := fs, db_tasks := ?us\<rparr>)"
      using inv_tasks [OF i us] None by (intro Q) simp_all
    then show "wp (update_tasks ?p ?h) (\<lambda>_. Q (f_id f)) E (db\<lparr>db_files := fs\<rparr>)"
      using tasks_wf_slots [OF us] by (simp add: wp_simps)
  qed
  then show ?thesis using None by (simp add: anchor_dead_task_def wp_bind wp_bind_fun wp_return_fun)
qed
qed

lemma dead_row_simps [simp]:
  "t_id (dead_row now ec al t) = t_id t" "t_path_key (dead_row now ec al t) = t_path_key t"
  "t_state (dead_row now ec al t) = TaskStateDead" "t_generation (dead_row now ec al t) = t_generation t"
  by (simp_all add: dead_row_def)

lemma dead_row_ok:
  "task_ok t \<Longrightarrow> length ec \<le> max_task_failure_history \<Longrightarrow> length al \<le> max_task_failure_history \<Longrightarrow>
     task_ok (dead_row now ec al t)"
  by (auto simp: task_ok_def dead_row_def)

lemma dead_row_settled:
  "task_ok t \<Longrightarrow> t_state t = TaskStateInFlight \<Longrightarrow> t_attempts (dead_row now ec al t) = settled t + 1"
  by (auto simp: settled_def dead_row_def task_ok_def)

text \<open>What a terminal failure records, in every table.\<close>

definition died :: "db \<Rightarrow> task \<Rightarrow> string \<Rightarrow> db \<Rightarrow> bool" where
  "died db t source db' \<longleftrightarrow>
     t \<in> set (db_tasks db) \<and> t_state t = TaskStateInFlight \<and>
     (\<exists>u\<in>set (db_tasks db'). t_id u = t_id t \<and> t_state u = TaskStateDead \<and> t_attempts u = settled t + 1) \<and>
     work_le (db_tasks db) (db_tasks db') \<and>
     (\<exists>i. (\<forall>j. t_file_id t = Some j \<longrightarrow> i = j) \<and>
        (\<exists>d\<in>set (db_dead db'). d_file_id d = i \<and> t_generation t \<le> d_generation d) \<and>
        (\<forall>f\<in>set (db_files db'). f_id f = i \<and> f_generation f = t_generation t \<longrightarrow> f_status f = FileStatusFailed) \<and>
        (\<exists>a. db_audit db' = db_audit db @ [a] \<and> au_action a = audit_action_create \<and> au_source a = source \<and>
           au_task_id a = t_id t \<and> au_file_id a = i \<and> au_generation a = t_generation t \<and> au_target a = t_path t))"

lemma wp_record_death:
  assumes inv: "tx_inv db0 db" and E: "\<And>e. no_conflict e \<Longrightarrow> E e"
    and gen: "d_generation dead = t_generation t"
    and Q: "\<And>fs ds a n. (\<exists>d\<in>set ds. d_file_id d = d_file_id dead \<and> t_generation t \<le> d_generation d) \<Longrightarrow>
      (\<forall>f\<in>set fs. f_id f = d_file_id dead \<and> f_generation f = t_generation t \<longrightarrow> f_status f = FileStatusFailed) \<Longrightarrow>
      au_action a = audit_action_create \<and> au_source a = source \<and> au_task_id a = t_id t \<and>
        au_file_id a = d_file_id dead \<and> au_generation a = t_generation t \<and> au_target a = t_path t \<Longrightarrow>
      tx_inv db0 (db\<lparr>db_dead := ds, db_files := fs, db_audit := db_audit db @ [a], db_audit_seq := n\<rparr>) \<Longrightarrow>
      Q () (db\<lparr>db_dead := ds, db_files := fs, db_audit := db_audit db @ [a], db_audit_seq := n\<rparr>)"
  shows "wp (record_death now t source dead) Q E db"
  unfolding record_death_def wp_bind
proof (rule wp_upsert_dead_letter [OF inv E], assumption, goal_cases)
  case (1 d ds)
  let ?p = "\<lambda>f. f_id f = d_file_id dead \<and> f_generation f = t_generation t"
  let ?h = "\<lambda>f. f\<lparr>f_status := FileStatusFailed\<rparr>"
  note d = 1(1,3,4) and i = 1(5)
  let ?fs = "rows_update ?p ?h (db_files db)"
  have "file_ok (?h r)" if "r \<in> set (db_files db)" for r
    using files_wfD(2) [OF inv_tables(2) [OF inv] that] by (simp add: file_ok_def status_ok_def)
  then have fr: "tx_inv db0 (db\<lparr>db_dead := ds, db_files := ?fs\<rparr>)" "distinct (map f_path_key ?fs)"
    using inv_update_files_frame [OF i, of ?p ?h] by simp_all
  have cov: "\<exists>d\<in>set ds. d_file_id d = d_file_id dead \<and> t_generation t \<le> d_generation d"
    using put_dead_letter_covers [of d "db_dead db"] d gen by simp
  have failed: "\<forall>f\<in>set ?fs. ?p f \<longrightarrow> f_status f = FileStatusFailed" by (auto simp: set_rows_update)
  have "wp (enqueue_dead_letter_audit_tx now audit_action_create source (t_id t) (t_generation t)
      (t_path t) dead) Q E (db\<lparr>db_dead := ds, db_files := ?fs\<rparr>)"
  proof (rule wp_enqueue_audit [OF fr(1) E], assumption, goal_cases)
    case (1 a)
    then show ?case using Q [OF cov failed, of a] by simp
  qed
  then show ?case using fr(2) by (simp add: wp_bind wp_bind_fun wp_update_files)
qed

lemma wp_mark_dead_tx:
  assumes inv: "tx_inv db0 db" and E: "\<And>e. no_conflict e \<Longrightarrow> E e"
    and Q: "\<And>t db'. tx_inv db0 db' \<Longrightarrow> t_id t = task_id \<Longrightarrow> died db t source db' \<Longrightarrow> Q () db'"
  shows "wp (mark_dead_tx now task_id info source) Q E db"
  unfolding mark_dead_tx_def wp_bind wp_bind_fun Let_def
proof (rule wp_task_for_transitionI, goal_cases)
  case (1 t)
  let ?stage = "if di_stage info = [] then ''unknown'' else di_stage info"
  let ?rest = "\<lambda>ec al i. wp (record_death now t source (dead_letter_of now t info ?stage ec al i)) Q E"
  have ok: "task_ok t" using inv_tables(1) [OF inv] 1(1) by (rule tasks_wfD)
  have tail: "?rest ec al i (db\<lparr>db_files := fs, db_tasks := us\<rparr>)"
    if i: "tx_inv db0 (db\<lparr>db_files := fs, db_tasks := us\<rparr>)" "\<forall>j. t_file_id t = Some j \<longrightarrow> i = j"
      "\<exists>u\<in>set us. t_id u = t_id t \<and> t_state u = TaskStateDead \<and> t_attempts u = settled t + 1"
      "work_le (db_tasks db) us" for ec al i us fs
  proof (rule wp_record_death [OF i(1) E], assumption)
    show "d_generation (dead_letter_of now t info ?stage ec al i) = t_generation t"
      by (simp add: dead_letter_of_def)
    fix gs ds a n
    let ?db' = "(db\<lparr>db_files := fs, db_tasks := us\<rparr>)\<lparr>db_dead := ds, db_files := gs,
        db_audit := db_audit (db\<lparr>db_files := fs, db_tasks := us\<rparr>) @ [a], db_audit_seq := n\<rparr>"
    have id: "d_file_id (dead_letter_of now t info ?stage ec al i) = i" by (simp add: dead_letter_of_def)
    assume *: "\<exists>d\<in>set ds. d_file_id d = d_file_id (dead_letter_of now t info ?stage ec al i) \<and>
          t_generation t \<le> d_generation d"
        "\<forall>f\<in>set gs. f_id f = d_file_id (dead_letter_of now t info ?stage ec al i) \<and>
          f_generation f = t_generation t \<longrightarrow> f_status f = FileStatusFailed"
        "au_action a = audit_action_create \<and> au_source a = source \<and> au_task_id a = t_id t \<and>
        au_file_id a = d_file_id (dead_letter_of now t info ?stage ec al i) \<and>
        au_generation a = t_generation t \<and> au_target a = t_path t"
        "tx_inv db0 ?db'"
    have "died db t source ?db'"
      unfolding died_def
    proof (intro conjI exI [of _ i])
      show "\<exists>a. db_audit ?db' = db_audit db @ [a] \<and> au_action a = audit_action_create \<and>
          au_source a = source \<and> au_task_id a = t_id t \<and> au_file_id a = i \<and>
          au_generation a = t_generation t \<and> au_target a = t_path t"
        using *(3) unfolding id by (intro exI [of _ a]) simp
    qed (use 1 i *(1,2) in \<open>simp_all add: id\<close>)
    then show "Q () ?db'" by (rule Q [OF *(4) 1(2)])
  qed
  have body: "wp (clear_older_state_slot t TaskStateDead)
      (\<lambda>_. wp (update_tasks (\<lambda>u. t_id u = task_id \<and> t_state u = TaskStateInFlight) (dead_row now ec al))
        (\<lambda>n. wp (require_changed n) (\<lambda>_. wp (anchor_dead_task t) (?rest ec al) E) E) E) E db"
    if len: "length ec \<le> max_task_failure_history" "length al \<le> max_task_failure_history" for ec al
  proof (rule wp_clear_and_move [where f = "dead_row now ec al", OF inv E 1 dead_row_ok [OF ok len]],
      assumption, goal_cases)
    case (5 us n)
    have "wp (anchor_dead_task t) (?rest ec al) E (db\<lparr>db_tasks := us\<rparr>)"
    proof (rule wp_anchor_dead_task [where t' = "dead_row now ec al t", OF 5(4) E ok], assumption, goal_cases)
      case (3 i vs fs)
      have "?rest ec al i (db\<lparr>db_files := fs, db_tasks := vs\<rparr>)"
      proof (rule tail)
        show "work_le (db_tasks db) vs" using 3(4) work_le_trans [OF 5(3)] by simp
        show "\<exists>u\<in>set vs. t_id u = t_id t \<and> t_state u = TaskStateDead \<and> t_attempts u = settled t + 1"
          using 3(3) dead_row_settled [OF ok 1(3), of now ec al] by auto
      qed (use 3 in simp_all)
      then show ?case by simp
    qed (use 5(2) in \<open>simp_all add: transition_def\<close>)
    then show ?case using 5(1) by (simp add: wp_require_changed)
  qed simp_all
  have merge: "E e" if "merge_failure_history hs = Inl e" for e hs
    using merge_failure_history_errors [OF that] E by simp
  let ?ec = "merge_failure_history [HistArray (t_error_chain t), di_error_chain info]"
    and ?al = "merge_failure_history [HistArray (t_attempts_log t), di_attempts_log info]"
  show ?case
  proof (cases ?ec)
    case (Inl e)
    then show ?thesis using merge [OF Inl] by (intro wp_mono [OF body [of "[]" "[]"]]) (simp_all add: wp_lift)
  next
    case ec: (Inr ec)
    show ?thesis
    proof (cases ?al)
      case (Inl e)
      then show ?thesis
        using merge [OF Inl] ec by (intro wp_mono [OF body [of "[]" "[]"]]) (simp_all add: wp_lift)
    next
      case (Inr al)
      have "length ec \<le> max_task_failure_history" "length al \<le> max_task_failure_history"
        using ec Inr by (auto intro: merge_failure_history_length)
      then show ?thesis using body [of ec al] by (simp only: ec Inr wp_lift_Inr_fun)
    qed
  qed
qed (use E in auto)

end
