(* ===== verification/Store_Expand.thy ===== *)
theory Store_Expand
  imports Store_Queue_Exits
begin

text \<open>
  Directory work and its fences: \<open>internal/store/directory.go\<close> (a remove or relocate of a
  directory becomes one task per catalogued file), \<open>internal/store/reconcile_enqueue.go\<close> (the
  scanner's conditional enqueue) and \<open>internal/store/supersede.go\<close>.
\<close>

section \<open>Directory paths\<close>

definition ascii_spaces :: "char list" where
  "ascii_spaces = [CHR 0x09, CHR 0x0A, CHR 0x0B, CHR 0x0C, CHR 0x0D, CHR 0x20]"

definition spaces2 :: "string list" where
  "spaces2 = [[CHR 0xC2, CHR 0x85], [CHR 0xC2, CHR 0xA0]]"

definition spaces3 :: "string list" where
  "spaces3 = [[CHR 0xE1, CHR 0x9A, CHR 0x80],
     [CHR 0xE2, CHR 0x80, CHR 0x80], [CHR 0xE2, CHR 0x80, CHR 0x81], [CHR 0xE2, CHR 0x80, CHR 0x82],
     [CHR 0xE2, CHR 0x80, CHR 0x83], [CHR 0xE2, CHR 0x80, CHR 0x84], [CHR 0xE2, CHR 0x80, CHR 0x85],
     [CHR 0xE2, CHR 0x80, CHR 0x86], [CHR 0xE2, CHR 0x80, CHR 0x87], [CHR 0xE2, CHR 0x80, CHR 0x88],
     [CHR 0xE2, CHR 0x80, CHR 0x89], [CHR 0xE2, CHR 0x80, CHR 0x8A], [CHR 0xE2, CHR 0x80, CHR 0xA8],
     [CHR 0xE2, CHR 0x80, CHR 0xA9], [CHR 0xE2, CHR 0x80, CHR 0xAF], [CHR 0xE2, CHR 0x81, CHR 0x9F],
     [CHR 0xE3, CHR 0x80, CHR 0x80]]"

text \<open>\<open>strings.TrimSpace(path) == ""\<close> on UTF-8: the bytes are a sequence of encoded white space.\<close>

fun blank :: "string \<Rightarrow> bool" where
  "blank [] = True"
| "blank (c # cs) =
     (if c \<in> set ascii_spaces then blank cs
      else case cs of
        [] \<Rightarrow> False
      | d # ds \<Rightarrow>
          if [c, d] \<in> set spaces2 then blank ds
          else (case ds of [] \<Rightarrow> False | e # es \<Rightarrow> [c, d, e] \<in> set spaces3 \<and> blank es))"

definition validate_directory_path :: "string \<Rightarrow> store_error + unit" where
  "validate_directory_path p =
     (if blank p then Inl ErrInvalidDirectoryTask
      else if CHR 0x00 \<in> set p then Inl ErrInvalidDirectoryTask
      else Inr ())"

section \<open>Expansion\<close>

record expansion =
  ex_matched :: nat
  ex_inserted :: nat
  ex_coalesced :: nat

text \<open>\<open>listDirectoryChildrenTx\<close>: the catalogued files below a directory, each with its relative path.\<close>

definition list_directory_children :: "string \<Rightarrow> catalog_file list \<Rightarrow> (catalog_file \<times> string) list" where
  "list_directory_children dir fs =
     List.map_filter (\<lambda>f. map_option (\<lambda>r. (f, r)) (directory_relative dir (f_path f)))
       (order_by f_path fs)"

definition child_params ::
    "string \<Rightarrow> task_op \<Rightarrow> int \<Rightarrow> catalog_file \<Rightarrow> string \<Rightarrow> enqueue_params" where
  "child_params destination op priority bumped relative =
     (if op = TaskOpRelocate then
        \<lparr>ep_file_id = Some (f_id bumped), ep_path = join_path (clean destination) relative,
         ep_op = TaskOpRelocate, ep_old_path = Some (f_path bumped),
         ep_generation = f_generation bumped, ep_priority = priority, ep_next_attempt_at = 0\<rparr>
      else
        \<lparr>ep_file_id = Some (f_id bumped), ep_path = f_path bumped, ep_op = TaskOpRemove,
         ep_old_path = None, ep_generation = f_generation bumped, ep_priority = priority,
         ep_next_attempt_at = 0\<rparr>)"

definition count_enqueued :: "enqueue_result \<Rightarrow> expansion \<Rightarrow> expansion" where
  "count_enqueued r ex =
     (if er_inserted r then ex\<lparr>ex_inserted := ex_inserted ex + 1\<rparr>
      else ex\<lparr>ex_coalesced := ex_coalesced ex + 1\<rparr>)"

definition expand_child ::
    "int \<Rightarrow> string \<Rightarrow> task_op \<Rightarrow> int \<Rightarrow> expansion \<Rightarrow> catalog_file \<times> string \<Rightarrow> expansion stx" where
  "expand_child now destination op priority ex child =
     tx_bind (bump_file_generation_by_id_tx (f_id (fst child))) (\<lambda>bumped.
     tx_bind (enqueue_tx now (child_params destination op priority bumped (snd child))) (\<lambda>r.
     tx_return (count_enqueued r ex)))"

definition expand_directory_tx ::
    "int \<Rightarrow> string \<Rightarrow> string \<Rightarrow> task_op \<Rightarrow> int \<Rightarrow> expansion stx" where
  "expand_directory_tx now source destination op priority =
     tx_bind (tx_read (\<lambda>db. list_directory_children source (db_files db))) (\<lambda>children.
     tx_fold (expand_child now destination op priority)
       \<lparr>ex_matched = length children, ex_inserted = 0, ex_coalesced = 0\<rparr> children)"

definition directory_endpoints :: "task \<Rightarrow> store_error + string \<times> string" where
  "directory_endpoints parent =
     (case t_op parent of
        TaskOpRemove \<Rightarrow> Inr (t_path parent, [])
      | TaskOpRelocate \<Rightarrow>
          (case t_old_path parent of
             None \<Rightarrow> Inl ErrInvalidDirectoryTask
           | Some old_path \<Rightarrow>
               if old_path = [] then Inl ErrInvalidDirectoryTask else Inr (old_path, t_path parent))
      | _ \<Rightarrow> Inl ErrInvalidDirectoryTask)"

definition expand_directory_task_tx :: "int \<Rightarrow> int \<Rightarrow> expansion stx" where
  "expand_directory_task_tx now parent_id =
     tx_bind (task_for_transition parent_id TaskStateInFlight) (\<lambda>parent.
     if t_file_id parent \<noteq> None then tx_fail ErrInvalidDirectoryTask
     else
       tx_bind (tx_lift (directory_endpoints parent)) (\<lambda>ends.
       tx_bind (tx_lift (validate_directory_path (fst ends))) (\<lambda>_.
       tx_bind (tx_lift (if snd ends = [] then Inr () else validate_directory_path (snd ends))) (\<lambda>_.
       tx_bind (expand_directory_tx now (fst ends) (snd ends) (t_op parent) (t_priority parent)) (\<lambda>ex.
       tx_bind (mark_done_tx now (t_id parent) True) (\<lambda>_.
       tx_return ex))))))"

definition expand_directory_task :: "int \<Rightarrow> int \<Rightarrow> db \<Rightarrow> (store_error + expansion) \<times> db" where
  "expand_directory_task now parent_id db =
     (if parent_id \<le> 0 then (Inl ErrInvalidDirectoryTask, db)
      else with_tx (expand_directory_task_tx now parent_id) db)"

section \<open>Removal of a watch root\<close>

record task_group =
  tg_key :: string
  tg_path :: string
  tg_generation :: int
  tg_pending :: bool
  tg_in_flight :: bool
  tg_parked :: "task list"

definition active_states :: "task_state list" where
  "active_states = [TaskStatePending, TaskStateInFlight, TaskStateRetryWait, TaskStateWaitingDep]"

definition new_group :: "task \<Rightarrow> task_group" where
  "new_group t = \<lparr>tg_key = path_key (t_path t), tg_path = t_path t, tg_generation = 0,
     tg_pending = False, tg_in_flight = False, tg_parked = []\<rparr>"

definition add_to_group :: "task \<Rightarrow> task_group \<Rightarrow> task_group" where
  "add_to_group t g0 =
     (let g = (if tg_generation g0 < t_generation t
               then g0\<lparr>tg_generation := t_generation t, tg_path := t_path t\<rparr> else g0)
      in case t_state t of
        TaskStatePending \<Rightarrow> g\<lparr>tg_pending := True\<rparr>
      | TaskStateInFlight \<Rightarrow> g\<lparr>tg_in_flight := True\<rparr>
      | TaskStateRetryWait \<Rightarrow> g\<lparr>tg_parked := tg_parked g @ [t]\<rparr>
      | TaskStateWaitingDep \<Rightarrow> g\<lparr>tg_parked := tg_parked g @ [t]\<rparr>
      | _ \<Rightarrow> g)"

text \<open>The map \<open>groups\<close> as an association list in order of first insertion.\<close>

fun group_task :: "task \<Rightarrow> task_group list \<Rightarrow> task_group list" where
  "group_task t [] = [add_to_group t (new_group t)]"
| "group_task t (g # gs) =
     (if tg_key g = path_key (t_path t) then add_to_group t g # gs else g # group_task t gs)"

definition inside_directory :: "string \<Rightarrow> string \<Rightarrow> bool" where
  "inside_directory dir p = (directory_relative dir p \<noteq> None)"

text \<open>\<open>ORDER BY path,generation DESC,task_id DESC\<close>, as three stable sorts.\<close>

definition active_prefix_tasks :: "string \<Rightarrow> task list \<Rightarrow> task list" where
  "active_prefix_tasks dir ts =
     filter (\<lambda>t. inside_directory dir (t_path t))
       (order_by t_path (order_by (\<lambda>t. - t_generation t) (order_by (\<lambda>t. - t_id t)
         (filter (\<lambda>t. t_state t \<in> set active_states) ts))))"

definition prefix_groups :: "string \<Rightarrow> task list \<Rightarrow> task_group list" where
  "prefix_groups dir ts = foldl (\<lambda>gs t. group_task t gs) [] (active_prefix_tasks dir ts)"

definition supersede_parked_tx :: "int \<Rightarrow> task \<Rightarrow> unit stx" where
  "supersede_parked_tx now task =
     tx_bind (delete_tasks (\<lambda>t. t_path_key t = path_key (t_path task) \<and>
                t_state t = TaskStateDone \<and> t_id t \<noteq> t_id task)) (\<lambda>_.
     tx_bind (update_tasks (\<lambda>t. t_id t = t_id task \<and>
                t_state t \<in> {TaskStateRetryWait, TaskStateWaitingDep})
       (\<lambda>t. t\<lparr>t_state := TaskStateDone,
              t_last_error := Some (ErrText ''superseded by watch-root removal''),
              t_updated_at := now\<rparr>)) require_changed)"

definition remove_params :: "string \<Rightarrow> int \<Rightarrow> int \<Rightarrow> enqueue_params" where
  "remove_params p generation priority =
     \<lparr>ep_file_id = None, ep_path = p, ep_op = TaskOpRemove, ep_old_path = None,
      ep_generation = generation, ep_priority = priority, ep_next_attempt_at = 0\<rparr>"

definition fence_group :: "int \<Rightarrow> int \<Rightarrow> string set \<Rightarrow> expansion \<Rightarrow> task_group \<Rightarrow> expansion stx" where
  "fence_group now priority catalog_keys ex0 g =
     tx_bind (tx_each (supersede_parked_tx now) (tg_parked g)) (\<lambda>_.
     if tg_key g \<in> catalog_keys then tx_return ex0
     else
       let ex = ex0\<lparr>ex_matched := ex_matched ex0 + 1\<rparr> in
       if \<not> tg_pending g \<and> \<not> tg_in_flight g then
         tx_return (ex\<lparr>ex_coalesced := ex_coalesced ex + 1\<rparr>)
       else if tg_generation g = max_int64 then tx_fail ErrGenerationExhausted
       else
         tx_bind (enqueue_tx now (remove_params (tg_path g) (tg_generation g + 1) priority)) (\<lambda>r.
         tx_return (count_enqueued r ex)))"

text \<open>
  Go ranges over the map \<open>groups\<close> in an unspecified order: \<open>map_order\<close> is that choice, a
  function that permutes the list.
\<close>

definition enqueue_prefix_removals_tx ::
    "(task_group list \<Rightarrow> task_group list) \<Rightarrow> int \<Rightarrow> string \<Rightarrow> int \<Rightarrow> expansion stx" where
  "enqueue_prefix_removals_tx map_order now dir priority =
     tx_bind (tx_read (\<lambda>db. (\<lambda>c. path_key (f_path (fst c))) `
        set (list_directory_children dir (db_files db)))) (\<lambda>catalog_keys.
     tx_bind (expand_directory_tx now dir [] TaskOpRemove priority) (\<lambda>ex.
     tx_bind (tx_read (\<lambda>db. prefix_groups dir (db_tasks db))) (\<lambda>groups.
     tx_fold (fence_group now priority catalog_keys) ex (map_order groups))))"

definition enqueue_prefix_removals ::
    "(task_group list \<Rightarrow> task_group list) \<Rightarrow> int \<Rightarrow> string \<Rightarrow> int \<Rightarrow> db \<Rightarrow>
     (store_error + expansion) \<times> db" where
  "enqueue_prefix_removals map_order now dir priority db =
     (case validate_directory_path dir of
        Inl e \<Rightarrow> (Inl e, db)
      | Inr _ \<Rightarrow>
          if priority < 0 then
            (Inl (ErrInvalidArgument ''directory removal priority is negative''), db)
          else with_tx (enqueue_prefix_removals_tx map_order now dir priority) db)"

section \<open>The scanner's conditional enqueue\<close>

datatype reconcile_outcome = ReconcileEnqueued | ReconcileCovered | ReconcileStale

record reconcile_params =
  rp_path :: string
  rp_old_path :: "string option"
  rp_op :: task_op
  rp_observed_file_id :: "int option"
  rp_observed_generation :: "int option"
  rp_priority :: int

record reconcile_result =
  rr_outcome :: reconcile_outcome
  rr_task :: "task option"

definition validate_reconcile_enqueue :: "reconcile_params \<Rightarrow> store_error + unit" where
  "validate_reconcile_enqueue params =
     (if rp_path params = [] then Inl (ErrInvalidArgument ''reconcile path is empty'')
      else if rp_priority params < 0 then
        Inl (ErrInvalidArgument ''reconcile priority is negative'')
      else if rp_op params \<notin> {TaskOpUpsert, TaskOpRemove, TaskOpRelocate} then
        Inl (ErrInvalidArgument ''invalid scanner operation'')
      else if rp_op params = TaskOpRelocate \<and> (rp_old_path params = None \<or> rp_old_path params = Some []) then
        Inl (ErrInvalidArgument ''scanner relocate requires old_path'')
      else if rp_op params = TaskOpRelocate \<and> rp_observed_file_id params = None then
        Inl (ErrInvalidArgument ''scanner relocate requires a catalog observation'')
      else if rp_op params \<noteq> TaskOpRelocate \<and> rp_old_path params \<noteq> None then
        Inl (ErrInvalidArgument ''scanner operation cannot have old_path'')
      else if (rp_observed_file_id params = None) \<noteq> (rp_observed_generation params = None) then
        Inl (ErrInvalidArgument ''reconcile observation requires both file_id and generation or neither'')
      else case rp_observed_file_id params of
        None \<Rightarrow> Inr ()
      | Some i \<Rightarrow>
          if i \<le> 0 then Inl (ErrInvalidArgument ''observed file_id must be positive'')
          else if (case rp_observed_generation params of None \<Rightarrow> True | Some g \<Rightarrow> g < 1) then
            Inl (ErrInvalidArgument ''observed generation must be positive'')
          else Inr ())"

definition catalog_identity_by_path :: "string \<Rightarrow> catalog_file option stx" where
  "catalog_identity_by_path p = find_file (\<lambda>f. f_path_key f = path_key p)"

text \<open>The covering task: the first by \<open>generation DESC,task_id DESC\<close>.\<close>

definition covers_reconcile :: "string \<Rightarrow> task_op \<Rightarrow> int \<Rightarrow> task \<Rightarrow> bool" where
  "covers_reconcile p desired minimum t \<longleftrightarrow>
     ((t_path_key t = path_key p \<and> t_state t \<in> set active_states) \<or>
      (desired = TaskOpRemove \<and> t_op t = TaskOpRelocate \<and> t_old_path_key t = Some (path_key p) \<and>
       t_state t \<in> set active_states)) \<and>
     t_op t \<in> {TaskOpUpsert, TaskOpRemove, TaskOpRelocate} \<and> minimum \<le> t_generation t"

definition active_reconcile_task :: "string \<Rightarrow> task_op \<Rightarrow> int \<Rightarrow> task option stx" where
  "active_reconcile_task p desired minimum =
     tx_read (\<lambda>db. case order_by (\<lambda>t. (- t_generation t, - t_id t))
         (filter (covers_reconcile p desired minimum) (db_tasks db)) of
       [] \<Rightarrow> None | t # _ \<Rightarrow> Some t)"

definition next_task_generation_for_path :: "string \<Rightarrow> int stx" where
  "next_task_generation_for_path p =
     tx_bind (tx_read (\<lambda>db. max_of (map t_generation (filter (\<lambda>t. t_path_key t = path_key p \<or>
        t_old_path_key t = Some (path_key p)) (db_tasks db))))) (\<lambda>maximum.
     if maximum = max_int64 then tx_fail ErrGenerationExhausted else tx_return (maximum + 1))"

definition reconcile_stale :: reconcile_result where
  "reconcile_stale = \<lparr>rr_outcome = ReconcileStale, rr_task = None\<rparr>"

definition observation_current :: "reconcile_params \<Rightarrow> catalog_file option \<Rightarrow> bool" where
  "observation_current params current =
     (case rp_observed_file_id params of
        None \<Rightarrow> current = None
      | Some i \<Rightarrow> (case current of None \<Rightarrow> False
          | Some f \<Rightarrow> f_id f = i \<and> Some (f_generation f) = rp_observed_generation params))"

definition reconcile_work :: "int \<Rightarrow> reconcile_params \<Rightarrow> string \<Rightarrow> reconcile_result stx" where
  "reconcile_work now params catalog_path =
     tx_bind (active_reconcile_task (rp_path params) (rp_op params)
       (case rp_observed_generation params of None \<Rightarrow> 0 | Some g \<Rightarrow> g)) (\<lambda>covering.
     case covering of
       Some t \<Rightarrow> tx_return \<lparr>rr_outcome = ReconcileCovered, rr_task = Some t\<rparr>
     | None \<Rightarrow>
         tx_bind (if rp_observed_file_id params \<noteq> None
                  then tx_bind (bump_generation_tx catalog_path) (\<lambda>f.
                         tx_return (Some (f_id f), f_generation f))
                  else tx_bind (next_task_generation_for_path (rp_path params)) (\<lambda>g.
                         tx_return (None, g))) (\<lambda>identity.
         tx_bind (enqueue_tx now
           \<lparr>ep_file_id = fst identity, ep_path = rp_path params, ep_op = rp_op params,
            ep_old_path = rp_old_path params, ep_generation = snd identity,
            ep_priority = rp_priority params, ep_next_attempt_at = 0\<rparr>) (\<lambda>r.
         tx_return \<lparr>rr_outcome = ReconcileEnqueued, rr_task = Some (er_task r)\<rparr>)))"

definition enqueue_reconcile_tx :: "int \<Rightarrow> reconcile_params \<Rightarrow> reconcile_result stx" where
  "enqueue_reconcile_tx now params =
     (let catalog_path = (if rp_op params = TaskOpRelocate
          then (case rp_old_path params of Some p \<Rightarrow> p | None \<Rightarrow> []) else rp_path params) in
     tx_bind (catalog_identity_by_path (rp_path params)) (\<lambda>destination.
     if rp_op params = TaskOpRelocate \<and> destination \<noteq> None then tx_return reconcile_stale
     else
       tx_bind (catalog_identity_by_path catalog_path) (\<lambda>current.
       if \<not> observation_current params current then tx_return reconcile_stale
       else reconcile_work now params catalog_path)))"

definition enqueue_reconcile_if_current ::
    "int \<Rightarrow> reconcile_params \<Rightarrow> db \<Rightarrow> (store_error + reconcile_result) \<times> db" where
  "enqueue_reconcile_if_current now params db =
     (case validate_reconcile_enqueue params of
        Inl e \<Rightarrow> (Inl e, db)
      | Inr _ \<Rightarrow> with_tx (enqueue_reconcile_tx now params) db)"

section \<open>Superseded leases\<close>

definition retire_task_if_superseded_tx :: "int \<Rightarrow> int \<Rightarrow> bool stx" where
  "retire_task_if_superseded_tx now task_id =
     tx_bind (task_for_transition task_id TaskStateInFlight) (\<lambda>task.
     tx_bind (find_file (\<lambda>f. Some (f_id f) = t_file_id task)) (\<lambda>file.
     tx_bind (tx_read (\<lambda>db. max_of (map t_generation (filter (\<lambda>t.
        t_path_key t = path_key (t_path task) \<and> t_id t \<noteq> t_id task) (db_tasks db))))) (\<lambda>task_maximum.
     let maximum = max (case file of None \<Rightarrow> 0 | Some f \<Rightarrow> f_generation f) task_maximum in
     if maximum \<le> t_generation task then tx_return False
     else
       tx_bind (delete_tasks (\<lambda>t. t_path_key t = path_key (t_path task) \<and>
                  t_state t = TaskStateDone \<and> t_id t \<noteq> t_id task)) (\<lambda>_.
       tx_bind (update_tasks (\<lambda>t. t_id t = t_id task \<and> t_state t = TaskStateInFlight)
         (\<lambda>t. t\<lparr>t_state := TaskStateDone,
                t_last_error := Some (ErrText ''superseded by newer generation''),
                t_updated_at := now\<rparr>)) (\<lambda>n.
       tx_bind (require_changed n) (\<lambda>_. tx_return True))))))"

definition retire_task_if_superseded :: "int \<Rightarrow> int \<Rightarrow> db \<Rightarrow> (store_error + bool) \<times> db" where
  "retire_task_if_superseded now task_id = with_tx (retire_task_if_superseded_tx now task_id)"

end
