(* ===== verification/Store_Recovery.thy ===== *)
theory Store_Recovery
  imports Store_Expand
begin

text \<open>
  Redriving dead letters (\<open>internal/store/deadletter.go\<close>) and what the store does when it opens:
  the clean-shutdown marker and the recovery of rows a crashed process left in flight
  (\<open>beginStartup\<close>, \<open>recoverInFlightTx\<close> in \<open>internal/store/store.go\<close>).
\<close>

section \<open>Redriving\<close>

record redrive_result =
  rd_dead_letter :: dead_letter
  rd_enqueue_result :: enqueue_result

fun select_dead_ids :: "int set \<Rightarrow> int list \<Rightarrow> dead_letter list stx" where
  "select_dead_ids seen [] = tx_return []"
| "select_dead_ids seen (i # ids) =
     (if i \<le> 0 then tx_fail (ErrInvalidArgument ''redrive file ID must be positive'')
      else if i \<in> seen then select_dead_ids seen ids
      else
        tx_bind (find_dead (\<lambda>d. d_file_id d = i)) (\<lambda>r.
        case r of
          None \<Rightarrow> tx_fail ErrNotFound
        | Some d \<Rightarrow> tx_bind (select_dead_ids (insert i seen) ids) (\<lambda>ds. tx_return (d # ds))))"

definition select_dead_letters_for_redrive :: "int list \<Rightarrow> string \<Rightarrow> dead_letter list stx" where
  "select_dead_letters_for_redrive file_ids error_class =
     (if file_ids = [] then
        tx_read (\<lambda>db. by_updated_at (filter (\<lambda>d. d_error_class d = error_class) (db_dead db)))
      else select_dead_ids {} file_ids)"

definition redrive_one ::
    "int \<Rightarrow> int \<Rightarrow> string \<Rightarrow> redrive_result list \<Rightarrow> dead_letter \<Rightarrow> redrive_result list stx" where
  "redrive_one now priority source results dead =
     tx_bind (find_file (\<lambda>f. f_id f = d_file_id dead)) (\<lambda>r.
     case r of
       None \<Rightarrow> tx_fail ErrNotFound
     | Some f \<Rightarrow>
         if d_generation dead < f_generation f then tx_return results
         else
           tx_bind (enqueue_tx now
             \<lparr>ep_file_id = Some (d_file_id dead), ep_path = d_path dead, ep_op = TaskOpUpsert,
              ep_old_path = None, ep_generation = f_generation f, ep_priority = priority,
              ep_next_attempt_at = 0\<rparr>) (\<lambda>enqueued.
           tx_bind (delete_dead (\<lambda>d. d_file_id d = d_file_id dead \<and>
             d_generation d = d_generation dead \<and> d_updated_at d = d_updated_at dead)) (\<lambda>n.
           tx_bind (require_changed n) (\<lambda>_.
           tx_bind (update_files (\<lambda>g. f_id g = d_file_id dead \<and> f_generation g = f_generation f)
             (\<lambda>g. g\<lparr>f_status := FileStatusPending\<rparr>)) (\<lambda>m.
           tx_bind (require_changed m) (\<lambda>_.
           tx_bind (enqueue_dead_letter_audit_tx now audit_action_redrive source
             (t_id (er_task enqueued)) (t_generation (er_task enqueued))
             (t_path (er_task enqueued)) dead) (\<lambda>_.
           tx_return (results @ [\<lparr>rd_dead_letter = dead, rd_enqueue_result = enqueued\<rparr>]))))))))"

definition redrive_dead_letters_tx ::
    "int \<Rightarrow> dead_letter list \<Rightarrow> int \<Rightarrow> string \<Rightarrow> redrive_result list stx" where
  "redrive_dead_letters_tx now ds priority source =
     tx_fold (redrive_one now priority source) [] ds"

definition redrive_selected_tx ::
    "int \<Rightarrow> int list \<Rightarrow> string \<Rightarrow> int \<Rightarrow> string \<Rightarrow> redrive_result list stx" where
  "redrive_selected_tx now file_ids error_class priority source =
     tx_bind (select_dead_letters_for_redrive file_ids error_class) (\<lambda>ds.
     redrive_dead_letters_tx now ds priority source)"

definition redrive_dead_letters_with_source ::
    "int \<Rightarrow> int list \<Rightarrow> string \<Rightarrow> int \<Rightarrow> string \<Rightarrow> db \<Rightarrow> (store_error + redrive_result list) \<times> db" where
  "redrive_dead_letters_with_source now file_ids error_class priority source db =
     (if source = [] then (Inl (ErrInvalidArgument ''redrive audit source is empty''), db)
      else if priority < 0 then (Inl (ErrInvalidArgument ''redrive priority is negative''), db)
      else if (file_ids = []) = (error_class = []) then
        (Inl (ErrInvalidArgument ''redrive requires either file IDs or error class''), db)
      else with_tx (redrive_selected_tx now file_ids error_class priority source) db)"

definition redrive_dead_letters ::
    "int \<Rightarrow> int list \<Rightarrow> string \<Rightarrow> int \<Rightarrow> db \<Rightarrow> (store_error + redrive_result list) \<times> db" where
  "redrive_dead_letters now file_ids error_class priority =
     redrive_dead_letters_with_source now file_ids error_class priority audit_source_manual"

definition redrive_dead_letter ::
    "int \<Rightarrow> int \<Rightarrow> int \<Rightarrow> db \<Rightarrow> (store_error + enqueue_result) \<times> db" where
  "redrive_dead_letter now file_id priority db =
     (let (r, db') = redrive_dead_letters_with_source now [file_id] [] priority audit_source_manual db
      in (case r of
            Inl e \<Rightarrow> Inl e
          | Inr results \<Rightarrow> (case results of [x] \<Rightarrow> Inr (rd_enqueue_result x) | _ \<Rightarrow> Inl ErrNotFound), db'))"

text \<open>A \<open>NULL\<close> version is not a mismatch: that dependency was not reached.\<close>

definition version_mismatch :: "string \<Rightarrow> string \<Rightarrow> dead_letter \<Rightarrow> bool" where
  "version_mismatch extractor embedder d \<longleftrightarrow>
     (extractor \<noteq> [] \<and> (case d_extractor_version d of None \<Rightarrow> False | Some v \<Rightarrow> v \<noteq> extractor)) \<or>
     (embedder \<noteq> [] \<and> (case d_embed_model_version d of None \<Rightarrow> False | Some v \<Rightarrow> v \<noteq> embedder))"

definition redrive_mismatched_tx ::
    "int \<Rightarrow> string \<Rightarrow> string \<Rightarrow> int \<Rightarrow> string \<Rightarrow> redrive_result list stx" where
  "redrive_mismatched_tx now extractor embedder priority source =
     tx_bind (tx_read (\<lambda>db. by_updated_at (filter (version_mismatch extractor embedder) (db_dead db)))) (\<lambda>ds.
     redrive_dead_letters_tx now ds priority source)"

definition redrive_version_mismatches_with_source ::
    "int \<Rightarrow> string \<Rightarrow> string \<Rightarrow> int \<Rightarrow> string \<Rightarrow> db \<Rightarrow> (store_error + redrive_result list) \<times> db" where
  "redrive_version_mismatches_with_source now extractor embedder priority source db =
     (if source = [] then (Inl (ErrInvalidArgument ''redrive audit source is empty''), db)
      else if extractor = [] \<and> embedder = [] then
        (Inl (ErrInvalidArgument ''current redrive versions are empty''), db)
      else if priority < 0 then (Inl (ErrInvalidArgument ''redrive priority is negative''), db)
      else with_tx (redrive_mismatched_tx now extractor embedder priority source) db)"

definition redrive_version_mismatches ::
    "int \<Rightarrow> string \<Rightarrow> string \<Rightarrow> int \<Rightarrow> db \<Rightarrow> (store_error + redrive_result list) \<times> db" where
  "redrive_version_mismatches now extractor embedder priority =
     redrive_version_mismatches_with_source now extractor embedder priority audit_source_version_mismatch"

section \<open>Metadata\<close>

definition clean_shutdown_key :: string where "clean_shutdown_key = ''clean_shutdown''"
definition active_extractor_version_key :: string where
  "active_extractor_version_key = ''active_extractor_version''"
definition active_embed_version_key :: string where
  "active_embed_version_key = ''active_embed_model_version''"

definition set_meta_tx :: "string \<Rightarrow> string \<Rightarrow> unit stx" where
  "set_meta_tx k v = tx_modify (\<lambda>db. db\<lparr>db_meta := (db_meta db)(k \<mapsto> v)\<rparr>)"

definition set_meta :: "string \<Rightarrow> string \<Rightarrow> db \<Rightarrow> (store_error + unit) \<times> db" where
  "set_meta k v db =
     (if k = [] then (Inl (ErrInvalidArgument ''meta key is empty''), db)
      else with_tx (set_meta_tx k v) db)"

definition get_meta :: "db \<Rightarrow> string \<Rightarrow> store_error + string" where
  "get_meta db k = (case db_meta db k of None \<Rightarrow> Inl ErrNotFound | Some v \<Rightarrow> Inr v)"

definition mark_clean_shutdown :: "db \<Rightarrow> (store_error + unit) \<times> db" where
  "mark_clean_shutdown = set_meta clean_shutdown_key ''true''"

definition set_runtime_versions :: "string \<Rightarrow> string \<Rightarrow> db \<Rightarrow> (store_error + unit) \<times> db" where
  "set_runtime_versions extractor embedder db =
     (if blank extractor then (Inl (ErrInvalidArgument ''active extractor version is empty''), db)
      else with_tx (tx_bind (set_meta_tx active_extractor_version_key extractor) (\<lambda>_.
             set_meta_tx active_embed_version_key embedder)) db)"

definition optional_meta_string :: "string \<Rightarrow> string option stx" where
  "optional_meta_string k = tx_read (\<lambda>db. case db_meta db k of
     None \<Rightarrow> None | Some v \<Rightarrow> if v = [] then None else Some v)"

section \<open>Crash recovery\<close>

record recovery_result =
  re_crashed :: bool
  re_requeued :: int
  re_poisoned :: int
  re_poisoned_dead_letters :: "dead_letter list"

definition recovery_target :: "task \<Rightarrow> task_state" where
  "recovery_target task =
     (if t_crash_count task + 1 \<ge> 2 then TaskStateDead else TaskStatePending)"

definition crash_message :: "task_state \<Rightarrow> string" where
  "crash_message target =
     (if target = TaskStateDead then ''task crashed the process repeatedly''
      else ''process exited while task was in flight'')"

definition recovered_row ::
    "int \<Rightarrow> task \<Rightarrow> history_entry list \<Rightarrow> history_entry list \<Rightarrow> task \<Rightarrow> task" where
  "recovered_row now task attempts_log error_chain t = t\<lparr>
     t_crash_count := t_crash_count task + 1, t_state := recovery_target task,
     t_next_attempt_at := 0, t_last_error := Some (ErrText (crash_message (recovery_target task))),
     t_attempts_log := attempts_log, t_error_chain := error_chain, t_updated_at := now\<rparr>"

definition poison_letter ::
    "int \<Rightarrow> string option \<Rightarrow> string option \<Rightarrow> task \<Rightarrow> history_entry list \<Rightarrow> history_entry list \<Rightarrow> int \<Rightarrow>
     dead_letter" where
  "poison_letter now extractor embedder task attempts_log error_chain file_id =
     \<lparr>d_file_id = file_id, d_path = t_path task, d_generation = t_generation task,
      d_stage = ''unknown'', d_error_class = ''poison'',
      d_error_chain = HistArray error_chain, d_attempts_log = HistArray attempts_log,
      d_extractor_version = extractor, d_embed_model_version = embedder,
      d_created_at = now, d_updated_at = now\<rparr>"

definition record_poison :: "int \<Rightarrow> task \<Rightarrow> dead_letter \<Rightarrow> unit stx" where
  "record_poison now task dead =
     tx_bind (upsert_dead_letter_tx now dead) (\<lambda>_.
     tx_bind (enqueue_dead_letter_audit_tx now audit_action_create audit_source_crash_recovery
       (t_id task) (t_generation task) (t_path task) dead) (\<lambda>_.
     tx_bind (update_files (\<lambda>f. f_id f = d_file_id dead \<and> f_generation f = t_generation task)
       (\<lambda>f. f\<lparr>f_status := FileStatusFailed\<rparr>)) (\<lambda>_.
     tx_return ())))"

definition count_recovered :: "task \<Rightarrow> recovery_result \<Rightarrow> recovery_result" where
  "count_recovered task res =
     (if recovery_target task = TaskStateDead then res\<lparr>re_poisoned := re_poisoned res + 1\<rparr>
      else res\<lparr>re_requeued := re_requeued res + 1\<rparr>)"

definition recover_task ::
    "int \<Rightarrow> string option \<Rightarrow> string option \<Rightarrow> recovery_result \<Rightarrow> task \<Rightarrow> recovery_result stx" where
  "recover_task now extractor embedder res0 task =
     (let target = recovery_target task;
          message = crash_message target;
          attempted_at = (if t_updated_at task \<le> 0 then now else t_updated_at task);
          res = count_recovered task res0 in
      tx_bind (tx_lift (append_failure_history (t_attempts_log task)
        (AttemptEntry (t_attempts task) attempted_at ''poison'' message))) (\<lambda>attempts_log.
      tx_bind (tx_lift (append_failure_history (t_error_chain task)
        (ErrorEntry ''process_crash'' message))) (\<lambda>error_chain.
      tx_bind (update_tasks (\<lambda>t. t_id t = t_id task \<and> t_state t = TaskStateInFlight)
        (recovered_row now task attempts_log error_chain)) (\<lambda>n.
      tx_bind (require_changed n) (\<lambda>_.
      if target \<noteq> TaskStateDead then tx_return res
      else
        tx_bind (anchor_dead_task task) (\<lambda>file_id.
        let dead = poison_letter now extractor embedder task attempts_log error_chain file_id in
        tx_bind (record_poison now task dead) (\<lambda>_.
        tx_return (res\<lparr>re_poisoned_dead_letters := re_poisoned_dead_letters res @ [dead]\<rparr>))))))))"

text \<open>
  The occupant of the target slot: newer work wins and the crashed row is discarded, otherwise
  the occupant makes room.
\<close>

definition recover_one ::
    "int \<Rightarrow> string option \<Rightarrow> string option \<Rightarrow> recovery_result \<Rightarrow> task \<Rightarrow> recovery_result stx" where
  "recover_one now extractor embedder res task =
     tx_bind (find_task (\<lambda>u. t_path_key u = path_key (t_path task) \<and>
                t_state u = recovery_target task \<and> t_id u \<noteq> t_id task)) (\<lambda>occupant.
     case occupant of
       None \<Rightarrow> recover_task now extractor embedder res task
     | Some other \<Rightarrow>
         if t_generation task < t_generation other then
           tx_bind (delete_tasks (\<lambda>u. t_id u = t_id task)) (\<lambda>_. tx_return res)
         else
           tx_bind (delete_tasks (\<lambda>u. t_id u = t_id other)) (\<lambda>_.
           recover_task now extractor embedder res task))"

definition recover_in_flight_tx :: "int \<Rightarrow> recovery_result \<Rightarrow> recovery_result stx" where
  "recover_in_flight_tx now res =
     tx_bind (optional_meta_string active_extractor_version_key) (\<lambda>extractor.
     tx_bind (optional_meta_string active_embed_version_key) (\<lambda>embedder.
     tx_bind (tx_read (\<lambda>db. order_by t_id
       (filter (\<lambda>t. t_state t = TaskStateInFlight) (db_tasks db)))) (\<lambda>tasks.
     tx_fold (recover_one now extractor embedder) res tasks)))"

definition begin_startup_tx :: "int \<Rightarrow> recovery_result stx" where
  "begin_startup_tx now =
     tx_bind (tx_read (\<lambda>db. db_meta db clean_shutdown_key \<noteq> Some ''true'')) (\<lambda>crashed.
     let res = \<lparr>re_crashed = crashed, re_requeued = 0, re_poisoned = 0, re_poisoned_dead_letters = []\<rparr> in
     tx_bind (if crashed then recover_in_flight_tx now res else tx_return res) (\<lambda>res'.
     tx_bind (set_meta_tx clean_shutdown_key ''false'') (\<lambda>_.
     tx_return res')))"

definition begin_startup :: "int \<Rightarrow> db \<Rightarrow> (store_error + recovery_result) \<times> db" where
  "begin_startup now = with_tx (begin_startup_tx now)"

end
