(* ===== verification/Store_Expand_Laws.thy ===== *)
theory Store_Expand_Laws
  imports Store_Expand
begin

text \<open>
  Laws of directory expansion, of the watch-root fence, of the scanner's conditional enqueue and
  of retiring superseded leases.
\<close>

section \<open>Children of a directory\<close>

lemma directory_children:
  "(f, r) \<in> set (list_directory_children dir fs) \<longleftrightarrow>
     f \<in> set fs \<and> directory_relative dir (f_path f) = Some r"
  by (auto simp: list_directory_children_def List.map_filter_def intro!: rev_image_eqI [of f])

lemma directory_children_distinct:
  "files_wf fs \<Longrightarrow> distinct (map (\<lambda>c. f_id (fst c)) (list_directory_children dir fs))"
proof -
  assume wf: "files_wf fs"
  have "map (\<lambda>c. f_id (fst c)) (list_directory_children dir fs) =
      map f_id (filter (\<lambda>f. directory_relative dir (f_path f) \<noteq> None) (order_by f_path fs))"
    by (auto simp: list_directory_children_def List.map_filter_def)
  moreover have "distinct (map f_id (order_by f_path fs))"
    using wf by (simp add: files_wf_def order_by_def distinct_map)
  ultimately show ?thesis by (simp add: distinct_map_filter)
qed

text \<open>What expansion leaves for one child: a bumped catalog row and a pending task at its new generation.\<close>

definition child_done :: "string \<Rightarrow> task_op \<Rightarrow> int \<Rightarrow> db \<Rightarrow> catalog_file \<times> string \<Rightarrow> bool" where
  "child_done destination op priority db c \<longleftrightarrow>
     bump_row (fst c) \<in> set (db_files db) \<and>
     (\<exists>t\<in>set (db_tasks db).
        t_slot t = (path_key (ep_path (child_params destination op priority (bump_row (fst c)) (snd c))),
                    TaskStatePending) \<and>
        f_generation (fst c) < t_generation t)"

definition only_pending_changed :: "task list \<Rightarrow> task list \<Rightarrow> bool" where
  "only_pending_changed ts us \<longleftrightarrow> (\<forall>u. t_state u \<noteq> TaskStatePending \<longrightarrow> u \<in> set us \<longleftrightarrow> u \<in> set ts)"

lemma child_params_generation [simp]:
  "ep_generation (child_params d op pr f r) = f_generation f"
  "ep_priority (child_params d op pr f r) = pr"
  by (simp_all add: child_params_def)

lemma wp_expand_child:
  assumes inv: "tx_inv db0 db" and E: "\<And>e. no_conflict e \<Longrightarrow> E e"
    and c: "fst c \<in> set (db_files db)"
    and Q: "\<And>r fs us. tx_inv db0 (db\<lparr>db_files := fs, db_tasks := us\<rparr>) \<Longrightarrow>
      fs = rows_update (\<lambda>f. f_id f = f_id (fst c)) bump_row (db_files db) \<Longrightarrow>
      child_done destination op priority (db\<lparr>db_files := fs, db_tasks := us\<rparr>) c \<Longrightarrow>
      work_le (db_tasks db) us \<Longrightarrow> pending_le (db_tasks db) us \<Longrightarrow>
      only_pending_changed (db_tasks db) us \<Longrightarrow>
      Q (count_enqueued r ex) (db\<lparr>db_files := fs, db_tasks := us\<rparr>)"
  shows "wp (expand_child now destination op priority ex c) Q E db"
  unfolding expand_child_def bump_file_generation_by_id_tx_def wp_bind wp_bind_fun wp_return_fun
proof (rule wp_bump_where [OF inv], goal_cases)
  case (3 f fs)
  have "f = fst c" using files_wf_id [OF inv_tables(2) [OF inv] 3(1) c] 3(2) by simp
  note 3 = 3 [unfolded this]
  show ?case unfolding \<open>f = fst c\<close>
  proof (rule wp_enqueue_tx [OF 3(5) E], assumption, goal_cases)
    case (1 r us)
    have "child_done destination op priority (db\<lparr>db_files := fs, db_tasks := us\<rparr>) c"
      unfolding child_done_def using 1(2,3,4) 3(4) by (auto intro!: bexI [of _ "er_task r"])
    moreover have "only_pending_changed (db_tasks db) us"
      using 1(6) by (auto simp: only_pending_changed_def t_slot_def)
    ultimately show ?case using 1(1,7,8) 3(3) by (intro Q) simp_all
  qed
qed (use E in auto)

lemma child_done_mono:
  assumes "child_done d op pr db c" and "pending_le (db_tasks db) us"
    and "bump_row (fst c) \<in> set fs"
  shows "child_done d op pr (db\<lparr>db_files := fs, db_tasks := us\<rparr>) c"
proof -
  obtain t where t: "t \<in> set (db_tasks db)" "t_slot t = (path_key (ep_path (child_params d op pr
      (bump_row (fst c)) (snd c))), TaskStatePending)" "f_generation (fst c) < t_generation t"
    using assms(1) by (auto simp: child_done_def)
  then have "t_state t = TaskStatePending" by (simp add: t_slot_def)
  then obtain v where "v \<in> set us" "t_slot v = t_slot t" "t_generation t \<le> t_generation v"
    using assms(2) t(1) unfolding pending_le_def by blast
  then show ?thesis using t(2,3) assms(3) by (auto simp: child_done_def intro!: bexI [of _ v])
qed

lemma only_pending_changed_trans:
  "only_pending_changed ts us \<Longrightarrow> only_pending_changed us vs \<Longrightarrow> only_pending_changed ts vs"
  by (simp add: only_pending_changed_def)

lemma count_enqueued_simps [simp]:
  "ex_matched (count_enqueued r ex) = ex_matched ex"
  "ex_inserted (count_enqueued r ex) + ex_coalesced (count_enqueued r ex) =
     Suc (ex_inserted ex + ex_coalesced ex)"
  by (simp_all add: count_enqueued_def)

lemma wp_expand_directory_tx:
  assumes inv: "tx_inv db0 db" and E: "\<And>e. no_conflict e \<Longrightarrow> E e"
    and Q: "\<And>ex fs us. tx_inv db0 (db\<lparr>db_files := fs, db_tasks := us\<rparr>) \<Longrightarrow>
      ex_matched ex = length (list_directory_children source (db_files db)) \<Longrightarrow>
      ex_inserted ex + ex_coalesced ex = ex_matched ex \<Longrightarrow>
      (\<forall>c\<in>set (list_directory_children source (db_files db)).
         child_done destination op priority (db\<lparr>db_files := fs, db_tasks := us\<rparr>) c) \<Longrightarrow>
      work_le (db_tasks db) us \<Longrightarrow> pending_le (db_tasks db) us \<Longrightarrow>
      only_pending_changed (db_tasks db) us \<Longrightarrow> Q ex (db\<lparr>db_files := fs, db_tasks := us\<rparr>)"
  shows "wp (expand_directory_tx now source destination op priority) Q E db"
proof -
  define cs where "cs = list_directory_children source (db_files db)"
  let ?start = "\<lparr>ex_matched = length cs, ex_inserted = 0, ex_coalesced = 0\<rparr>"
  define I where "I ex rest db' \<longleftrightarrow> (\<exists>fs us. db' = db\<lparr>db_files := fs, db_tasks := us\<rparr> \<and> tx_inv db0 db' \<and>
      ex_matched ex = length cs \<and> ex_inserted ex + ex_coalesced ex + length rest = length cs \<and>
      work_le (db_tasks db) us \<and> pending_le (db_tasks db) us \<and> only_pending_changed (db_tasks db) us \<and>
      fst ` set rest \<subseteq> set fs \<and> distinct (map (\<lambda>c. f_id (fst c)) rest) \<and> set rest \<subseteq> set cs \<and>
      (\<forall>c\<in>set cs. c \<in> set rest \<or> child_done destination op priority db' c))" for ex :: expansion and rest db'
  have dist: "distinct (map (\<lambda>c. f_id (fst c)) cs)"
    unfolding cs_def by (rule directory_children_distinct [OF inv_tables(2) [OF inv]])
  have "wp (tx_fold (expand_child now destination op priority) ?start cs) (\<lambda>ex. I ex []) E db"
  proof (rule wp_fold_rest)
    show "I ?start cs db"
      unfolding I_def using inv dist directory_children [of _ _ source "db_files db"]
      by (intro exI [of _ "db_files db"] exI [of _ "db_tasks db"])
        (auto simp: only_pending_changed_def cs_def)
  next
    fix ex c rest db'
    assume "I ex (c # rest) db'"
    then obtain fs us where db': "db' = db\<lparr>db_files := fs, db_tasks := us\<rparr>" and inv': "tx_inv db0 db'"
      and cnt: "ex_matched ex = length cs" "ex_inserted ex + ex_coalesced ex + length (c # rest) = length cs"
      and le: "work_le (db_tasks db) us" "pending_le (db_tasks db) us" "only_pending_changed (db_tasks db) us"
      and rest: "fst ` set (c # rest) \<subseteq> set fs" "distinct (map (\<lambda>c. f_id (fst c)) (c # rest))"
        "set (c # rest) \<subseteq> set cs"
      and st: "\<forall>d\<in>set cs. d \<in> set (c # rest) \<or> child_done destination op priority db' d"
      unfolding I_def by (elim exE conjE)
    show "wp (expand_child now destination op priority ex c) (\<lambda>ex. I ex rest) E db'"
    proof (rule wp_expand_child [OF inv' E], assumption)
      show "fst c \<in> set (db_files db')" using rest(1) by (simp add: db')
      fix r gs vs
      assume *: "tx_inv db0 (db'\<lparr>db_files := gs, db_tasks := vs\<rparr>)"
        "gs = rows_update (\<lambda>f. f_id f = f_id (fst c)) bump_row (db_files db')"
        "child_done destination op priority (db'\<lparr>db_files := gs, db_tasks := vs\<rparr>) c"
        "work_le (db_tasks db') vs" "pending_le (db_tasks db') vs" "only_pending_changed (db_tasks db') vs"
      have keep: "f \<in> set gs" if "f \<in> set fs" "f_id f \<noteq> f_id (fst c)" for f
        using that by (force simp: *(2) db' set_rows_update)
      have ids: "f_id (fst d) \<noteq> f_id (fst c)" if "d \<in> set cs" "d \<noteq> c" for d
        using dist that rest(3) by (auto dest: distinct_map_inj)
      have "d \<in> set rest \<or> child_done destination op priority (db'\<lparr>db_files := gs, db_tasks := vs\<rparr>) d"
        if d: "d \<in> set cs" for d
      proof (cases "d = c \<or> d \<in> set rest")
        case False
        then have cd: "child_done destination op priority db' d" using st d by auto
        then have "bump_row (fst d) \<in> set gs"
          using keep ids [OF d] False by (auto simp: child_done_def db')
        with cd *(5) show ?thesis by (auto intro: child_done_mono)
      qed (use *(3) in auto)
      moreover have "fst ` set rest \<subseteq> set gs"
      proof
        fix f assume "f \<in> fst ` set rest"
        then obtain d where d: "d \<in> set rest" "f = fst d" by auto
        then have "d \<noteq> c" using rest(2) by auto
        then show "f \<in> set gs" using keep ids [of d] d rest(1,3) by auto
      qed
      ultimately have "I (count_enqueued r ex) rest (db\<lparr>db_files := gs, db_tasks := vs\<rparr>)"
        unfolding I_def using * cnt rest work_le_trans [OF le(1)] pending_le_trans [OF le(2)]
          only_pending_changed_trans [OF le(3)] count_enqueued_simps(2) [of r ex]
        by (intro exI [of _ gs] exI [of _ vs]) (auto simp: db')
      then show "I (count_enqueued r ex) rest (db'\<lparr>db_files := gs, db_tasks := vs\<rparr>)"
        by (simp add: db')
    qed
  qed
  then have "wp (tx_fold (expand_child now destination op priority) ?start cs) Q E db"
    by (rule wp_mono) (auto simp: I_def cs_def intro!: Q)
  then show ?thesis by (simp add: expand_directory_tx_def wp_simps cs_def)
qed

section \<open>Expanding a claimed directory task\<close>

definition expanded :: "db \<Rightarrow> int \<Rightarrow> expansion \<Rightarrow> db \<Rightarrow> bool" where
  "expanded db parent_id ex db' \<longleftrightarrow>
     (\<exists>parent\<in>set (db_tasks db). \<exists>source destination. t_id parent = parent_id \<and>
        t_state parent = TaskStateInFlight \<and> directory_endpoints parent = Inr (source, destination) \<and>
        ex_matched ex = length (list_directory_children source (db_files db)) \<and>
        ex_inserted ex + ex_coalesced ex = ex_matched ex \<and>
        (\<forall>c\<in>set (list_directory_children source (db_files db)).
           child_done destination (t_op parent) (t_priority parent) db' c)) \<and>
     (\<exists>t\<in>set (db_tasks db'). t_id t = parent_id \<and> t_state t = TaskStateDone)"

lemma child_done_tasks:
  "child_done d op pr db c \<Longrightarrow> db_files db' = db_files db \<Longrightarrow>
     (\<And>t. t \<in> set (db_tasks db) \<Longrightarrow> t_state t = TaskStatePending \<Longrightarrow> t \<in> set (db_tasks db')) \<Longrightarrow>
     child_done d op pr db' c"
  by (auto simp: child_done_def t_slot_def)

lemma wp_expand_directory_task_tx:
  assumes inv: "tx_inv db0 db" and E: "\<And>e. no_conflict e \<Longrightarrow> E e"
    and Q: "\<And>ex db'. tx_inv db0 db' \<Longrightarrow> expanded db parent_id ex db' \<Longrightarrow> Q ex db'"
  shows "wp (expand_directory_task_tx now parent_id) Q E db"
  unfolding expand_directory_task_tx_def wp_bind
proof (rule wp_task_for_transitionI, goal_cases)
  case (1 parent)
  show ?case
  proof (cases "directory_endpoints parent")
    case (Inl e)
    then have "e = ErrInvalidDirectoryTask"
      by (auto simp: directory_endpoints_def split: task_op.splits option.splits if_splits)
    then show ?thesis using E Inl by (simp add: wp_if wp_fail wp_bind wp_lift)
  next
    case (Inr ends)
    obtain source destination where ends: "ends = (source, destination)" by (cases ends)
    have val: "no_conflict e" if "validate_directory_path p = Inl e" for e p
      using that by (auto simp: validate_directory_path_def split: if_splits)
    have main: "wp (expand_directory_tx now source destination (t_op parent) (t_priority parent))
        (\<lambda>ex. wp (mark_done_tx now (t_id parent) True) (\<lambda>_. Q ex) E) E db"
    proof (rule wp_expand_directory_tx [OF inv E], assumption, goal_cases)
      case ex: (1 ex fs us)
      let ?db = "db\<lparr>db_files := fs, db_tasks := us\<rparr>"
      show ?case
      proof (rule wp_mark_done_tx [OF ex(1) E], assumption, goal_cases)
        case (1 t vs ds)
        have pend: "u \<in> set vs" if "u \<in> set us" "t_state u = TaskStatePending" for u
        proof -
          have "u \<noteq> t" using that(2) 1(3) by auto
          then have "t_id u \<noteq> t_id t" using tasks_wf_id [OF inv_tables(1) [OF ex(1)]] that(1) 1(1) by auto
          then show ?thesis using 1(4) that by (auto simp: transition_def t_slot_def)
        qed
        let ?db' = "?db\<lparr>db_tasks := vs, db_dead := ds\<rparr>"
        have "\<forall>c\<in>set (list_directory_children source (db_files db)).
            child_done destination (t_op parent) (t_priority parent) ?db' c"
          using ex(4) pend by (auto intro: child_done_tasks [where db = ?db])
        moreover have "\<exists>t\<in>set (db_tasks ?db'). t_id t = parent_id \<and> t_state t = TaskStateDone"
          using transition_new [OF 1(4)] 1(2) \<open>t_id parent = parent_id\<close> by (auto intro!: rev_bexI)
        ultimately have "expanded db parent_id ex ?db'"
          unfolding expanded_def
          using ex(2,3) \<open>parent \<in> _\<close> \<open>t_id parent = _\<close> \<open>t_state parent = _\<close> Inr ends by blast
        then show ?case using 1(7) by (intro Q) simp_all
      qed
    qed
    show ?thesis
    proof (cases "t_file_id parent")
      case None
      then show ?thesis
        using main E val Inr ends
        by (auto simp: wp_if wp_fail wp_bind wp_bind_fun wp_lift wp_return_fun split: sum.splits)
    next
      case (Some i)
      then show ?thesis using E by (simp add: wp_fail)
    qed
  qed
qed (use E in auto)

section \<open>The scanner\<close>

definition reconciled :: "db \<Rightarrow> reconcile_params \<Rightarrow> reconcile_result \<Rightarrow> db \<Rightarrow> bool" where
  "reconciled db params r db' \<longleftrightarrow>
     (case rr_outcome r of
        ReconcileStale \<Rightarrow> db' = db \<and> rr_task r = None
      | ReconcileCovered \<Rightarrow> db' = db \<and>
          (\<exists>t\<in>set (db_tasks db). rr_task r = Some t \<and> covers_reconcile (rp_path params) (rp_op params)
             (case rp_observed_generation params of None \<Rightarrow> 0 | Some g \<Rightarrow> g) t)
      | ReconcileEnqueued \<Rightarrow>
          (\<exists>t\<in>set (db_tasks db'). rr_task r = Some t \<and>
             t_slot t = (path_key (rp_path params), TaskStatePending) \<and>
             (case rp_observed_generation params of None \<Rightarrow> 1 \<le> t_generation t | Some g \<Rightarrow> g < t_generation t)))"

lemma wp_reconcile_work:
  assumes inv: "tx_inv db0 db" and E: "\<And>e. no_conflict e \<Longrightarrow> E e"
    and obs: "(rp_observed_file_id params = None) = (rp_observed_generation params = None)"
    and cur: "\<And>g. rp_observed_generation params = Some g \<Longrightarrow>
      \<exists>f\<in>set (db_files db). f_path_key f = path_key catalog_path \<and> f_generation f = g"
    and Q: "\<And>r db'. tx_inv db0 db' \<Longrightarrow> reconciled db params r db' \<Longrightarrow> Q r db'"
  shows "wp (reconcile_work now params catalog_path) Q E db"
proof -
  let ?min = "case rp_observed_generation params of None \<Rightarrow> 0 | Some g \<Rightarrow> g"
  let ?cs = "order_by (\<lambda>t. (- t_generation t, - t_id t))
      (filter (covers_reconcile (rp_path params) (rp_op params) ?min) (db_tasks db))"
  let ?params = "\<lambda>i g. \<lparr>ep_file_id = i, ep_path = rp_path params, ep_op = rp_op params,
      ep_old_path = rp_old_path params, ep_generation = g, ep_priority = rp_priority params,
      ep_next_attempt_at = 0\<rparr>"
  have enq: "wp (enqueue_tx now (?params i g)) (\<lambda>r. Q \<lparr>rr_outcome = ReconcileEnqueued, rr_task = Some (er_task r)\<rparr>) E
      (db\<lparr>db_files := fs\<rparr>)"
    if i: "tx_inv db0 (db\<lparr>db_files := fs\<rparr>)"
      and g: "case rp_observed_generation params of None \<Rightarrow> 1 \<le> g | Some g0 \<Rightarrow> g0 < g" for fs i g
  proof (rule wp_enqueue_tx [OF i E], assumption, goal_cases)
    case (1 r us)
    then show ?case
      using g by (intro Q) (auto simp: reconciled_def split: option.splits)
  qed
  show ?thesis
  proof (cases ?cs)
    case (Cons t ts)
    then have "t \<in> set ?cs" by simp
    then have "t \<in> set (db_tasks db)" "covers_reconcile (rp_path params) (rp_op params) ?min t" by auto
    then have "Q \<lparr>rr_outcome = ReconcileCovered, rr_task = Some t\<rparr> db"
      using inv by (intro Q) (auto simp: reconciled_def)
    then show ?thesis
      using Cons by (simp add: reconcile_work_def active_reconcile_task_def wp_simps)
  next
    case Nil
    show ?thesis
    proof (cases "rp_observed_generation params")
      case None
      let ?m = "max_of (map t_generation (filter (\<lambda>t. t_path_key t = path_key (rp_path params) \<or>
        t_old_path_key t = Some (path_key (rp_path params))) (db_tasks db)))"
      have "wp (enqueue_tx now (?params None (?m + 1)))
          (\<lambda>r. Q \<lparr>rr_outcome = ReconcileEnqueued, rr_task = Some (er_task r)\<rparr>) E (db\<lparr>db_files := db_files db\<rparr>)"
        using None max_of_nonneg inv by (intro enq) (simp_all add: max_of_nonneg)
      then show ?thesis
        using Nil None obs E
        by (simp add: reconcile_work_def active_reconcile_task_def next_task_generation_for_path_def wp_simps)
    next
      case (Some g)
      obtain f0 where f0: "f0 \<in> set (db_files db)" "f_path_key f0 = path_key catalog_path" "f_generation f0 = g"
        using cur [OF Some] by blast
      have "wp (bump_generation_tx catalog_path) (\<lambda>f. wp (enqueue_tx now (?params (Some (f_id f)) (f_generation f)))
          (\<lambda>r. Q \<lparr>rr_outcome = ReconcileEnqueued, rr_task = Some (er_task r)\<rparr>) E) E db"
        unfolding bump_generation_tx_def
      proof (rule wp_bump_where [OF inv], goal_cases)
        case (3 f fs)
        have "f = f0" using files_wf_key [OF inv_tables(2) [OF inv] 3(1) f0(1)] 3(2) f0(2) by simp
        then show ?case using 3 Some f0(3) by (intro enq) simp_all
      qed (use E in auto)
      then show ?thesis
        using Nil Some obs
        by (simp add: reconcile_work_def active_reconcile_task_def wp_bind wp_bind_fun wp_return_fun wp_read)
    qed
  qed
qed

lemma wp_enqueue_reconcile_tx:
  assumes inv: "tx_inv db0 db" and E: "\<And>e. no_conflict e \<Longrightarrow> E e"
    and val: "validate_reconcile_enqueue params = Inr u"
    and Q: "\<And>r db'. tx_inv db0 db' \<Longrightarrow> reconciled db params r db' \<Longrightarrow> Q r db'"
  shows "wp (enqueue_reconcile_tx now params) Q E db"
proof -
  let ?cat = "if rp_op params = TaskOpRelocate
      then (case rp_old_path params of Some p \<Rightarrow> p | None \<Rightarrow> []) else rp_path params"
  have obs: "(rp_observed_file_id params = None) = (rp_observed_generation params = None)"
    using val by (auto simp: validate_reconcile_enqueue_def split: if_splits)
  have stale: "Q reconcile_stale db"
    using inv by (intro Q) (simp_all add: reconciled_def reconcile_stale_def)
  have work: "wp (reconcile_work now params ?cat) Q E db"
    if "observation_current params (List.find (\<lambda>f. f_path_key f = path_key ?cat) (db_files db))"
  proof (rule wp_reconcile_work [OF inv E obs], assumption, goal_cases)
    case (1 g)
    then obtain i where "rp_observed_file_id params = Some i" using obs by auto
    with that 1 obtain f where "List.find (\<lambda>f. f_path_key f = path_key ?cat) (db_files db) = Some f"
        "f_generation f = g"
      by (auto simp: observation_current_def split: option.splits)
    then show ?case using find_SomeD by (intro bexI [of _ f]) force+
  qed (rule Q)
  then show ?thesis
    using stale by (simp add: enqueue_reconcile_tx_def catalog_identity_by_path_def wp_bind wp_bind_fun
        wp_find_file wp_if wp_return Let_def)
qed

section \<open>Superseded leases\<close>

lemma wp_retire_task_if_superseded_tx:
  assumes inv: "tx_inv db0 db" and E: "\<And>e. no_conflict e \<Longrightarrow> E e"
    and Q: "\<And>b us. tx_inv db0 (db\<lparr>db_tasks := us\<rparr>) \<Longrightarrow> (\<not> b \<longrightarrow> us = db_tasks db) \<Longrightarrow>
      (b \<longrightarrow> (\<exists>t\<in>set (db_tasks db). t_id t = task_id \<and> t_state t = TaskStateInFlight \<and>
         ((\<exists>f\<in>set (db_files db). t_file_id t = Some (f_id f) \<and> t_generation t < f_generation f) \<or>
          (\<exists>u\<in>set (db_tasks db). t_path_key u = t_path_key t \<and> t_id u \<noteq> t_id t \<and>
             t_generation t < t_generation u)) \<and>
         (\<exists>u\<in>set us. t_id u = task_id \<and> t_state u = TaskStateDone))) \<Longrightarrow> Q b (db\<lparr>db_tasks := us\<rparr>)"
  shows "wp (retire_task_if_superseded_tx now task_id) Q E db"
  unfolding retire_task_if_superseded_tx_def wp_bind
proof (rule wp_task_for_transitionI, goal_cases)
  case t: (1 t)
  let ?file = "List.find (\<lambda>f. Some (f_id f) = t_file_id t) (db_files db)"
  let ?tm = "max_of (map t_generation (filter (\<lambda>u. t_path_key u = path_key (t_path t) \<and> t_id u \<noteq> t_id t) (db_tasks db)))"
  let ?max = "max (case ?file of None \<Rightarrow> 0 | Some f \<Rightarrow> f_generation f) ?tm"
  let ?h = "\<lambda>t. t\<lparr>t_state := TaskStateDone,
      t_last_error := Some (ErrText ''superseded by newer generation''), t_updated_at := now\<rparr>"
  let ?d = "\<lambda>u. t_path_key u = path_key (t_path t) \<and> t_state u = TaskStateDone \<and> t_id u \<noteq> t_id t"
  let ?ts = "rows_delete ?d (db_tasks db)"
  have wf: "tasks_wf (db_tasks db)" using inv by (rule inv_tables)
  have key: "t_path_key t = path_key (t_path t)" and tok: "task_ok t" using wf t(1) by (rule tasks_wfD)+
  have same: "Q False db" using Q [of "db_tasks db" False] inv by simp
  have newer: "(\<exists>f\<in>set (db_files db). t_file_id t = Some (f_id f) \<and> t_generation t < f_generation f) \<or>
      (\<exists>u\<in>set (db_tasks db). t_path_key u = t_path_key t \<and> t_id u \<noteq> t_id t \<and> t_generation t < t_generation u)"
    if "t_generation t < ?max"
  proof (cases "t_generation t < ?tm")
    case True
    then have "?tm \<in> set (map t_generation (filter (\<lambda>u. t_path_key u = path_key (t_path t) \<and> t_id u \<noteq> t_id t) (db_tasks db)))"
      using max_of_in [of "map t_generation (filter (\<lambda>u. t_path_key u = path_key (t_path t) \<and>
        t_id u \<noteq> t_id t) (db_tasks db))"] tok by (simp add: task_ok_def)
    then show ?thesis using True key by auto
  next
    case False
    then have "t_generation t < (case ?file of None \<Rightarrow> 0 | Some f \<Rightarrow> f_generation f)" using that by simp
    then obtain f where "?file = Some f" "t_generation t < f_generation f"
      using tok by (auto simp: task_ok_def split: option.splits)
    then show ?thesis by (auto dest!: find_SomeD)
  qed
  have retire: "wp (update_tasks (\<lambda>u. t_id u = t_id t \<and> t_state u = TaskStateInFlight) ?h)
      (\<lambda>n. wp (require_changed n) (\<lambda>_. Q True) E) E (db\<lparr>db_tasks := ?ts\<rparr>)" if "t_generation t < ?max"
  proof (rule wp_move_row [OF inv])
    show "tasks_wf ?ts" using wf by (rule tasks_wf_delete)
    show "slot_free ?ts t (t_state (?h t))" by (auto simp: slot_free_def key)
    show "task_ok (?h t)" using tok by (simp add: task_ok_def)
    fix us and n :: nat
    assume *: "n \<noteq> 0" "transition (db_tasks db) t (?h t) us" "tx_inv db0 (db\<lparr>db_tasks := us\<rparr>)"
    have "Q True (db\<lparr>db_tasks := us\<rparr>)"
    proof (rule Q [OF *(3)])
      show "True \<longrightarrow> (\<exists>t\<in>set (db_tasks db). t_id t = task_id \<and> t_state t = TaskStateInFlight \<and>
         ((\<exists>f\<in>set (db_files db). t_file_id t = Some (f_id f) \<and> t_generation t < f_generation f) \<or>
          (\<exists>u\<in>set (db_tasks db). t_path_key u = t_path_key t \<and> t_id u \<noteq> t_id t \<and>
             t_generation t < t_generation u)) \<and>
         (\<exists>u\<in>set us. t_id u = task_id \<and> t_state u = TaskStateDone))"
      proof
        have "\<exists>u\<in>set us. t_id u = task_id \<and> t_state u = TaskStateDone"
          using transition_new [OF *(2)] t(2) by (intro bexI [of _ "?h t"]) simp_all
        then show "\<exists>t\<in>set (db_tasks db). t_id t = task_id \<and> t_state t = TaskStateInFlight \<and>
         ((\<exists>f\<in>set (db_files db). t_file_id t = Some (f_id f) \<and> t_generation t < f_generation f) \<or>
          (\<exists>u\<in>set (db_tasks db). t_path_key u = t_path_key t \<and> t_id u \<noteq> t_id t \<and>
             t_generation t < t_generation u)) \<and>
         (\<exists>u\<in>set us. t_id u = task_id \<and> t_state u = TaskStateDone)"
          using t newer [OF that] by blast
      qed
    qed simp
    then show "wp (require_changed n) (\<lambda>_. Q True) E (db\<lparr>db_tasks := us\<rparr>)"
      using *(1) by (simp add: wp_require_changed)
  qed (use t in \<open>auto simp: t_slot_def key\<close>)
  show ?case
  proof (cases "?max \<le> t_generation t")
    case True
    then show ?thesis using same by (simp add: wp_find_file wp_bind wp_bind_fun wp_read wp_return Let_def)
  next
    case False
    then have "t_generation t < ?max" by (simp only: not_le)
    from retire [OF this] False show ?thesis
      by (simp only: wp_find_file wp_bind wp_bind_fun wp_read wp_return_fun Let_def if_False wp_delete_tasks)
  qed
qed (use E in auto)

end
