(* ===== verification/Store_Prefix_Laws.thy ===== *)
theory Store_Prefix_Laws
  imports Store_Expand_Laws
begin

text \<open>
  Removing a watch root (\<open>EnqueuePrefixRemovals\<close>): after the transaction no work of the removed
  tree is left that could resurrect a file.  The argument is about the groups the code builds,
  for any order in which Go ranges over their map.
\<close>

section \<open>Groups\<close>

definition parked :: "task_state set" where
  "parked = {TaskStateRetryWait, TaskStateWaitingDep}"

definition group_covers :: "task_group \<Rightarrow> task \<Rightarrow> bool" where
  "group_covers g t \<longleftrightarrow>
     tg_key g = path_key (t_path t) \<and> t_generation t \<le> tg_generation g \<and>
     (t_state t = TaskStatePending \<longrightarrow> tg_pending g) \<and>
     (t_state t = TaskStateInFlight \<longrightarrow> tg_in_flight g) \<and>
     (t_state t \<in> parked \<longrightarrow> t \<in> set (tg_parked g))"

definition group_ok :: "task list \<Rightarrow> task_group \<Rightarrow> bool" where
  "group_ok xs g \<longleftrightarrow>
     tg_key g = path_key (tg_path g) \<and> distinct (tg_parked g) \<and>
     tg_key g \<in> (\<lambda>t. path_key (t_path t)) ` set xs \<and>
     set (tg_parked g) \<subseteq> {t \<in> set xs. t_state t \<in> parked \<and> path_key (t_path t) = tg_key g}"

definition groups_ok :: "task list \<Rightarrow> task_group list \<Rightarrow> bool" where
  "groups_ok xs gs \<longleftrightarrow>
     distinct (map tg_key gs) \<and> (\<forall>t\<in>set xs. \<exists>g\<in>set gs. group_covers g t) \<and>
     (\<forall>g\<in>set gs. group_ok xs g)"

lemma add_to_group_simps [simp]: "tg_key (add_to_group t g) = tg_key g"
  by (simp add: add_to_group_def Let_def split: task_state.splits)

lemma add_to_group_covers: "tg_key g = path_key (t_path t) \<Longrightarrow> group_covers (add_to_group t g) t"
  by (auto simp: add_to_group_def group_covers_def Let_def parked_def split: task_state.splits)

lemma add_to_group_keeps: "group_covers g u \<Longrightarrow> group_covers (add_to_group t g) u"
  by (auto simp: add_to_group_def group_covers_def Let_def split: task_state.splits)

lemma add_to_group_path:
  "tg_key g = path_key (tg_path g) \<Longrightarrow> tg_key g = path_key (t_path t) \<Longrightarrow>
     tg_key g = path_key (tg_path (add_to_group t g))"
  by (auto simp: add_to_group_def Let_def split: task_state.splits)

lemma add_to_group_parked:
  "tg_parked (add_to_group t g) = (if t_state t \<in> parked then tg_parked g @ [t] else tg_parked g)"
  by (auto simp: add_to_group_def Let_def parked_def split: task_state.splits)

lemma group_task_keys:
  "set (map tg_key (group_task t gs)) = insert (path_key (t_path t)) (set (map tg_key gs))"
  by (induction gs) (auto simp: new_group_def)

lemma group_task_distinct: "distinct (map tg_key gs) \<Longrightarrow> distinct (map tg_key (group_task t gs))"
proof (induction gs)
  case (Cons g gs)
  then show ?case using group_task_keys [of t gs] by auto
qed simp

lemma group_task_in:
  "h \<in> set (group_task t gs) \<Longrightarrow> h \<in> set gs \<or>
     (\<exists>g. (g \<in> set gs \<or> g = new_group t) \<and> tg_key g = path_key (t_path t) \<and> h = add_to_group t g)"
  by (induction gs) (auto simp: new_group_def split: if_splits)

lemma group_task_covers: "\<exists>h\<in>set (group_task t gs). group_covers h t"
  by (induction gs) (auto simp: add_to_group_covers new_group_def)

lemma group_task_keeps: "g \<in> set gs \<Longrightarrow> group_covers g u \<Longrightarrow> \<exists>h\<in>set (group_task t gs). group_covers h u"
  by (induction gs) (auto intro: add_to_group_keeps)

lemma groups_ok_step:
  assumes "groups_ok xs gs" and "t \<notin> set xs"
  shows "groups_ok (xs @ [t]) (group_task t gs)"
  unfolding groups_ok_def
proof (intro conjI ballI)
  show "distinct (map tg_key (group_task t gs))" using assms(1) by (simp add: groups_ok_def group_task_distinct)
next
  fix u assume "u \<in> set (xs @ [t])"
  then show "\<exists>g\<in>set (group_task t gs). group_covers g u"
    using assms(1) group_task_covers group_task_keeps by (auto simp: groups_ok_def)
next
  fix h assume "h \<in> set (group_task t gs)"
  then consider "h \<in> set gs"
    | g where "g \<in> set gs" "tg_key g = path_key (t_path t)" "h = add_to_group t g"
    | "h = add_to_group t (new_group t)"
    using group_task_in by blast
  then show "group_ok (xs @ [t]) h"
  proof cases
    case 1
    then have "group_ok xs h" using assms(1) by (simp add: groups_ok_def)
    then show ?thesis unfolding group_ok_def set_append by blast
  next
    case 2
    then have g: "group_ok xs g" using assms(1) by (simp add: groups_ok_def)
    then have "tg_key g = path_key (tg_path (add_to_group t g))"
      using 2(2) by (intro add_to_group_path) (simp_all add: group_ok_def)
    moreover have "distinct (tg_parked h)" "set (tg_parked h) \<subseteq> {u \<in> set (xs @ [t]). t_state u \<in> parked \<and>
        path_key (t_path u) = tg_key h}"
      using g 2(2,3) assms(2) by (auto simp: group_ok_def add_to_group_parked)
    ultimately show ?thesis using 2(2,3) by (simp add: group_ok_def)
  next
    case 3
    have n: "tg_key (new_group t) = path_key (t_path t)" "tg_key (new_group t) = path_key (tg_path (new_group t))"
      "tg_parked (new_group t) = []"
      by (simp_all add: new_group_def)
    then have "tg_key (new_group t) = path_key (tg_path (add_to_group t (new_group t)))"
      by (intro add_to_group_path)
    then show ?thesis using 3 n by (auto simp: group_ok_def add_to_group_parked)
  qed
qed

lemma groups_ok_fold: "distinct xs \<Longrightarrow> groups_ok xs (foldl (\<lambda>gs t. group_task t gs) [] xs)"
proof (induction xs rule: rev_induct)
  case (snoc t xs)
  then show ?case using groups_ok_step by simp
qed (simp add: groups_ok_def)

lemma active_prefix_set:
  "set (active_prefix_tasks dir ts) =
     {t \<in> set ts. t_state t \<in> set active_states \<and> inside_directory dir (t_path t)}"
  by (auto simp: active_prefix_tasks_def)

lemma prefix_groups_ok: "tasks_wf ts \<Longrightarrow> groups_ok (active_prefix_tasks dir ts) (prefix_groups dir ts)"
  unfolding prefix_groups_def
  by (intro groups_ok_fold) (auto simp: active_prefix_tasks_def order_by_def tasks_wf_def distinct_map)

section \<open>Superseding parked work\<close>

text \<open>\<open>retired ts X us\<close>: of the rows that are not done exactly those of \<open>X\<close> went away.\<close>

definition retired :: "task list \<Rightarrow> task set \<Rightarrow> task list \<Rightarrow> bool" where
  "retired ts X us \<longleftrightarrow> (\<forall>u. t_state u \<noteq> TaskStateDone \<longrightarrow> u \<in> set us \<longleftrightarrow> u \<in> set ts \<and> u \<notin> X)"

lemma wp_update_tasks_cong:
  assumes "\<And>u. u \<in> set (db_tasks db) \<Longrightarrow> p u = p' u"
  shows "wp (update_tasks p f) Q E db = wp (update_tasks p' f) Q E db"
proof -
  have "rows_update p f (db_tasks db) = rows_update p' f (db_tasks db)"
    "filter p (db_tasks db) = filter p' (db_tasks db)"
    using assms by (auto simp: rows_update_def cong: filter_cong)
  then show ?thesis by (simp add: wp_update_tasks)
qed

lemma wp_supersede_parked_tx:
  assumes inv: "tx_inv db0 db" and E: "\<And>e. no_conflict e \<Longrightarrow> E e"
    and t: "t \<in> set (db_tasks db)" "t_state t \<in> parked"
    and Q: "\<And>us. tx_inv db0 (db\<lparr>db_tasks := us\<rparr>) \<Longrightarrow> retired (db_tasks db) {t} us \<Longrightarrow>
      Q () (db\<lparr>db_tasks := us\<rparr>)"
  shows "wp (supersede_parked_tx now t) Q E db"
proof -
  let ?h = "\<lambda>t. t\<lparr>t_state := TaskStateDone,
      t_last_error := Some (ErrText ''superseded by watch-root removal''), t_updated_at := now\<rparr>"
  let ?d = "\<lambda>u. t_path_key u = path_key (t_path t) \<and> t_state u = TaskStateDone \<and> t_id u \<noteq> t_id t"
  let ?ts = "rows_delete ?d (db_tasks db)"
  let ?p = "\<lambda>u. t_id u = t_id t \<and> t_state u = t_state t"
  let ?q = "\<lambda>u. t_id u = t_id t \<and> t_state u \<in> {TaskStateRetryWait, TaskStateWaitingDep}"
  have wf: "tasks_wf (db_tasks db)" using inv by (rule inv_tables)
  have key: "t_path_key t = path_key (t_path t)" and tok: "task_ok t" using wf t(1) by (rule tasks_wfD)+
  have nd: "t_state t \<noteq> TaskStateDone" using t(2) by (auto simp: parked_def)
  have only: "u = t" if "u \<in> set (db_tasks db)" "t_id u = t_id t" for u
    using tasks_wf_id [OF wf that(1) t(1)] that(2) by simp
  have pq: "?q u = ?p u" if "u \<in> set ?ts" for u
    using only [of u] that t(2) by (auto simp: parked_def)
  have "wp (update_tasks ?p ?h) (\<lambda>n. wp (require_changed n) Q E) E (db\<lparr>db_tasks := ?ts\<rparr>)"
  proof (rule wp_move_row [OF inv])
    show "tasks_wf ?ts" using wf by (rule tasks_wf_delete)
    show "slot_free ?ts t (t_state (?h t))" by (auto simp: slot_free_def key)
    show "task_ok (?h t)" using tok by (simp add: task_ok_def)
    fix us and n :: nat
    assume *: "n \<noteq> 0" "tx_inv db0 (db\<lparr>db_tasks := us\<rparr>)" "us = rows_update ?p ?h ?ts"
    have "retired (db_tasks db) {t} us"
      unfolding retired_def
    proof (intro allI impI iffI conjI)
      fix u assume u: "t_state u \<noteq> TaskStateDone" "u \<in> set us"
      have "u \<in> set (db_tasks db) \<and> u \<notin> {t}"
      proof -
        have "u \<in> set ?ts \<and> \<not> ?p u" using u unfolding *(3)
          by (elim in_rows_updateE) simp_all
        then show ?thesis by auto
      qed
      then show "u \<in> set (db_tasks db)" "u \<notin> {t}" by simp_all
    next
      fix u assume u: "t_state u \<noteq> TaskStateDone" "u \<in> set (db_tasks db) \<and> u \<notin> {t}"
      then have "u \<in> set ?ts" "\<not> ?p u" using only by auto
      then have "u = (if ?p u then ?h u else u)" by (simp only: if_False)
      then show "u \<in> set us" unfolding *(3) set_rows_update using \<open>u \<in> set ?ts\<close> by (rule image_eqI)
    qed
    then show "wp (require_changed n) Q E (db\<lparr>db_tasks := us\<rparr>)"
      using *(1,2) by (simp add: wp_require_changed Q)
  qed (use t nd in \<open>auto simp: t_slot_def key\<close>)
  moreover have "wp (update_tasks ?q ?h) R E (db\<lparr>db_tasks := ?ts\<rparr>) =
      wp (update_tasks ?p ?h) R E (db\<lparr>db_tasks := ?ts\<rparr>)" for R
  proof (rule wp_update_tasks_cong)
    fix u assume "u \<in> set (db_tasks (db\<lparr>db_tasks := ?ts\<rparr>))"
    then have "u \<in> set ?ts" by simp
    then show "?q u = ?p u" by (rule pq)
  qed
  ultimately have "wp (update_tasks ?q ?h) (\<lambda>n. wp (require_changed n) Q E) E (db\<lparr>db_tasks := ?ts\<rparr>)"
    by blast
  then show ?thesis
    by (simp only: supersede_parked_tx_def wp_bind wp_delete_tasks wp_bind_fun)
qed

lemma wp_supersede_all:
  assumes inv: "tx_inv db0 db" and E: "\<And>e. no_conflict e \<Longrightarrow> E e"
    and ps: "distinct ps" "\<forall>t\<in>set ps. t \<in> set (db_tasks db) \<and> t_state t \<in> parked"
    and Q: "\<And>us. tx_inv db0 (db\<lparr>db_tasks := us\<rparr>) \<Longrightarrow> retired (db_tasks db) (set ps) us \<Longrightarrow>
      Q () (db\<lparr>db_tasks := us\<rparr>)"
  shows "wp (tx_each (supersede_parked_tx now) ps) Q E db"
  using assms
proof (induction ps arbitrary: db)
  case Nil
  then have "Q () (db\<lparr>db_tasks := db_tasks db\<rparr>)" by (intro Nil.prems(5)) (auto simp: retired_def)
  then show ?case by (simp add: wp_simps)
next
  case (Cons t ps)
  show ?case unfolding tx_each.simps wp_bind
  proof (rule wp_supersede_parked_tx [OF Cons.prems(1,2)], assumption)
    fix us
    assume us: "tx_inv db0 (db\<lparr>db_tasks := us\<rparr>)" "retired (db_tasks db) {t} us"
    show "wp (tx_each (supersede_parked_tx now) ps) Q E (db\<lparr>db_tasks := us\<rparr>)"
    proof (rule Cons.IH [OF us(1) Cons.prems(2)], assumption)
      show "distinct ps" using Cons.prems(3) by simp
      show "\<forall>t\<in>set ps. t \<in> set (db_tasks (db\<lparr>db_tasks := us\<rparr>)) \<and> t_state t \<in> parked"
        using Cons.prems(3,4) us(2) by (auto simp: retired_def parked_def)
      fix vs
      assume vs: "tx_inv db0 ((db\<lparr>db_tasks := us\<rparr>)\<lparr>db_tasks := vs\<rparr>)"
        "retired (db_tasks (db\<lparr>db_tasks := us\<rparr>)) (set ps) vs"
      have "retired (db_tasks db) (set (t # ps)) vs" using us(2) vs(2) by (auto simp: retired_def)
      then show "Q () ((db\<lparr>db_tasks := us\<rparr>)\<lparr>db_tasks := vs\<rparr>)" using Cons.prems(5) [of vs] vs(1) by simp
    qed
  qed (use Cons.prems(4) in simp_all)
qed

section \<open>The fence\<close>

definition fence_step :: "string set \<Rightarrow> task_group \<Rightarrow> task list \<Rightarrow> task list \<Rightarrow> bool" where
  "fence_step catalog_keys g ts us \<longleftrightarrow>
     (\<forall>u. t_state u \<in> parked \<longrightarrow> u \<in> set us \<longleftrightarrow> u \<in> set ts \<and> u \<notin> set (tg_parked g)) \<and>
     (\<forall>u. t_state u = TaskStateInFlight \<longrightarrow> u \<in> set us \<longleftrightarrow> u \<in> set ts) \<and>
     (\<forall>u. t_state u = TaskStatePending \<and> t_path_key u \<noteq> tg_key g \<longrightarrow> u \<in> set us \<longleftrightarrow> u \<in> set ts) \<and>
     pending_le ts us \<and>
     (tg_key g \<notin> catalog_keys \<and> (tg_pending g \<or> tg_in_flight g) \<longrightarrow>
        (\<exists>p\<in>set us. t_slot p = (tg_key g, TaskStatePending) \<and> t_op p = TaskOpRemove \<and>
           t_generation p = tg_generation g + 1))"

lemma retired_pending_le: "retired ts X us \<Longrightarrow> X \<subseteq> {t. t_state t \<in> parked} \<Longrightarrow> pending_le ts us"
  unfolding pending_le_def
proof (intro ballI impI)
  fix u assume *: "retired ts X us" "X \<subseteq> {t. t_state t \<in> parked}" "u \<in> set ts" "t_state u = TaskStatePending"
  then have "u \<in> set us" by (auto simp: retired_def parked_def)
  then show "\<exists>v\<in>set us. t_slot v = t_slot u \<and> t_generation u \<le> t_generation v" by auto
qed

lemma wp_fence_group:
  assumes inv: "tx_inv db0 db" and E: "\<And>e. no_conflict e \<Longrightarrow> E e"
    and g: "tg_key g = path_key (tg_path g)" "distinct (tg_parked g)"
      "\<forall>t\<in>set (tg_parked g). t \<in> set (db_tasks db) \<and> t_state t \<in> parked"
      "\<forall>t\<in>set (db_tasks db). t_slot t = (tg_key g, TaskStatePending) \<longrightarrow> t_generation t \<le> tg_generation g"
    and Q: "\<And>ex' us. tx_inv db0 (db\<lparr>db_tasks := us\<rparr>) \<Longrightarrow> fence_step catalog_keys g (db_tasks db) us \<Longrightarrow>
      Q ex' (db\<lparr>db_tasks := us\<rparr>)"
  shows "wp (fence_group now priority catalog_keys ex g) Q E db"
  unfolding fence_group_def wp_bind
proof (rule wp_supersede_all [OF inv E g(2,3)], assumption)
  fix us
  assume us: "tx_inv db0 (db\<lparr>db_tasks := us\<rparr>)" "retired (db_tasks db) (set (tg_parked g)) us"
  let ?ts = "db_tasks db"
  have sub: "set (tg_parked g) \<subseteq> {t. t_state t \<in> parked}" using g(3) by auto
  have un: "u \<in> set us \<longleftrightarrow> u \<in> set ?ts" if "t_state u \<in> {TaskStatePending, TaskStateInFlight}" for u
    using us(2) sub that by (auto simp: retired_def parked_def)
  have pk: "u \<in> set us \<longleftrightarrow> u \<in> set ?ts \<and> u \<notin> set (tg_parked g)" if "t_state u \<in> parked" for u
    using us(2) that by (auto simp: retired_def parked_def)
  have pl: "pending_le ?ts us" using us(2) sub by (rule retired_pending_le)
  have skip: "Q ex' (db\<lparr>db_tasks := us\<rparr>)"
    if "tg_key g \<in> catalog_keys \<or> (\<not> tg_pending g \<and> \<not> tg_in_flight g)" for ex'
    using that us(1) un pk pl by (intro Q) (auto simp: fence_step_def)
  have enq: "wp (enqueue_tx now (remove_params (tg_path g) (tg_generation g + 1) priority))
      (\<lambda>r. Q (count_enqueued r ex')) E (db\<lparr>db_tasks := us\<rparr>)" for ex'
  proof (rule wp_enqueue_tx [OF us(1) E], assumption, goal_cases)
    case (1 r vs)
    let ?slot = "(tg_key g, TaskStatePending)"
    have key: "path_key (ep_path (remove_params (tg_path g) (tg_generation g + 1) priority)) = tg_key g"
      using g(1) by (simp add: remove_params_def)
    have frame: "u \<in> set vs \<longleftrightarrow> u \<in> set us" if "t_slot u \<noteq> ?slot" for u using 1(6) that key by simp
    have "t_generation t \<le> tg_generation g + 1" if "t \<in> set us" "t_slot t = ?slot" for t
      using g(4) un [of t] that by (auto simp: t_slot_def)
    then have new: "t_op (er_task r) = TaskOpRemove \<and> t_generation (er_task r) = tg_generation g + 1"
      using 1(9) key by (auto simp: remove_params_def)
    have "fence_step catalog_keys g ?ts vs"
      unfolding fence_step_def
    proof (intro conjI allI impI)
      show "pending_le ?ts vs" using pending_le_trans [OF pl] 1(8) by simp
      show "\<exists>p\<in>set vs. t_slot p = ?slot \<and> t_op p = TaskOpRemove \<and> t_generation p = tg_generation g + 1"
        using new 1(2,3) key by (intro bexI [of _ "er_task r"]) simp_all
    qed (use frame un pk in \<open>auto simp: t_slot_def parked_def\<close>)
    then show ?case using 1(1) Q [of vs] by simp
  qed
  show "wp (if tg_key g \<in> catalog_keys then tx_return ex
     else let ex = ex\<lparr>ex_matched := ex_matched ex + 1\<rparr> in
       if \<not> tg_pending g \<and> \<not> tg_in_flight g then tx_return (ex\<lparr>ex_coalesced := ex_coalesced ex + 1\<rparr>)
       else if tg_generation g = max_int64 then tx_fail ErrGenerationExhausted
       else tx_bind (enqueue_tx now (remove_params (tg_path g) (tg_generation g + 1) priority))
         (\<lambda>r. tx_return (count_enqueued r ex))) Q E (db\<lparr>db_tasks := us\<rparr>)"
    using skip enq E by (simp add: wp_if wp_return wp_fail wp_bind wp_bind_fun wp_return_fun Let_def)
qed

lemma inside_directory_key: "path_key p = path_key q \<Longrightarrow> inside_directory dir p = inside_directory dir q"
  by (simp add: inside_directory_def directory_relative_def path_key_def)

text \<open>All groups, in any order.\<close>

definition fenced :: "string \<Rightarrow> string set \<Rightarrow> db \<Rightarrow> bool" where
  "fenced dir catalog_keys db \<longleftrightarrow>
     (\<forall>t\<in>set (db_tasks db). inside_directory dir (t_path t) \<longrightarrow>
        t_state t \<noteq> TaskStateRetryWait \<and> t_state t \<noteq> TaskStateWaitingDep \<and>
        (t_state t = TaskStateInFlight \<and> t_path_key t \<notin> catalog_keys \<longrightarrow>
           (\<exists>p\<in>set (db_tasks db). t_slot p = (t_path_key t, TaskStatePending) \<and> t_op p = TaskOpRemove \<and>
              t_generation t < t_generation p)))"

lemma fence_step_parked: "fence_step cat g ts us \<Longrightarrow> t_state u \<in> parked \<Longrightarrow> u \<in> set us \<longleftrightarrow> u \<in> set ts \<and> u \<notin> set (tg_parked g)"
  and fence_step_in_flight: "fence_step cat g ts us \<Longrightarrow> t_state u = TaskStateInFlight \<Longrightarrow> u \<in> set us \<longleftrightarrow> u \<in> set ts"
  and fence_step_pending: "fence_step cat g ts us \<Longrightarrow> t_state u = TaskStatePending \<Longrightarrow> t_path_key u \<noteq> tg_key g \<Longrightarrow>
      u \<in> set us \<longleftrightarrow> u \<in> set ts"
  and fence_step_le: "fence_step cat g ts us \<Longrightarrow> pending_le ts us"
  and fence_step_new: "fence_step cat g ts us \<Longrightarrow> tg_key g \<notin> cat \<Longrightarrow> tg_pending g \<or> tg_in_flight g \<Longrightarrow>
      \<exists>p\<in>set us. t_slot p = (tg_key g, TaskStatePending) \<and> t_op p = TaskOpRemove \<and> t_generation p = tg_generation g + 1"
  unfolding fence_step_def by blast+

text \<open>The groups as the transaction uses them: disjoint by key, and covering the active rows.\<close>

definition covering_groups :: "string \<Rightarrow> task list \<Rightarrow> task_group list \<Rightarrow> bool" where
  "covering_groups dir ts gs \<longleftrightarrow>
     inj_on tg_key (set gs) \<and>
     (\<forall>g\<in>set gs. tg_key g = path_key (tg_path g) \<and> distinct (tg_parked g) \<and>
        (\<forall>t\<in>set (tg_parked g). t \<in> set ts \<and> t_state t \<in> parked \<and> t_path_key t = tg_key g) \<and>
        (\<forall>t\<in>set ts. t_slot t = (tg_key g, TaskStatePending) \<longrightarrow> t_generation t \<le> tg_generation g)) \<and>
     (\<forall>t\<in>set ts. inside_directory dir (t_path t) \<and> t_state t \<in> set active_states \<longrightarrow>
        (\<exists>g\<in>set gs. group_covers g t))"

lemma covering_prefix_groups:
  assumes wf: "tasks_wf ts"
  shows "covering_groups dir ts (prefix_groups dir ts)"
proof -
  let ?gs = "prefix_groups dir ts"
  have ok: "groups_ok (active_prefix_tasks dir ts) ?gs" using wf by (rule prefix_groups_ok)
  then have inj: "inj_on tg_key (set ?gs)" by (simp add: groups_ok_def distinct_map)
  have cov: "\<exists>g\<in>set ?gs. group_covers g t"
    if "t \<in> set ts" "inside_directory dir (t_path t)" "t_state t \<in> set active_states" for t
    using ok that by (simp add: groups_ok_def active_prefix_set)
  have key: "t_path_key t = path_key (t_path t)" if "t \<in> set ts" for t using wf that by (rule tasks_wfD)
  have gen: "t_generation t \<le> tg_generation g"
    if g: "g \<in> set ?gs" and t: "t \<in> set ts" "t_slot t = (tg_key g, TaskStatePending)" for g t
  proof -
    have "tg_key g \<in> (\<lambda>t. path_key (t_path t)) ` set (active_prefix_tasks dir ts)"
      using ok g unfolding groups_ok_def group_ok_def by blast
    then obtain u where "u \<in> set (active_prefix_tasks dir ts)" and ku: "tg_key g = path_key (t_path u)" by blast
    then have "inside_directory dir (t_path u)" by (simp add: active_prefix_set)
    moreover have kt: "path_key (t_path t) = tg_key g" using t key by (simp add: t_slot_def)
    ultimately have "inside_directory dir (t_path t)"
      using ku by (simp add: inside_directory_key [of "t_path t" "t_path u"])
    moreover have "t_state t \<in> set active_states" using t(2) by (simp add: t_slot_def active_states_def)
    ultimately obtain h where h: "h \<in> set ?gs" "group_covers h t" using cov [OF t(1)] by blast
    then have "tg_key h = tg_key g" using kt by (simp add: group_covers_def)
    then have "h = g" using inj_onD [OF inj _ h(1) g] by blast
    then show ?thesis using h(2) by (simp add: group_covers_def)
  qed
  have grp: "tg_key g = path_key (tg_path g) \<and> distinct (tg_parked g) \<and>
      (\<forall>t\<in>set (tg_parked g). t \<in> set ts \<and> t_state t \<in> parked \<and> t_path_key t = tg_key g)"
    if "g \<in> set ?gs" for g
  proof -
    have k: "group_ok (active_prefix_tasks dir ts) g" using ok that by (simp add: groups_ok_def)
    have "t \<in> set ts \<and> t_state t \<in> parked \<and> t_path_key t = tg_key g" if "t \<in> set (tg_parked g)" for t
    proof -
      have "t \<in> set (active_prefix_tasks dir ts) \<and> t_state t \<in> parked \<and> path_key (t_path t) = tg_key g"
        using k that unfolding group_ok_def by blast
      then show ?thesis using key [of t] by (simp add: active_prefix_set)
    qed
    then show ?thesis using k unfolding group_ok_def by blast
  qed
  show ?thesis unfolding covering_groups_def using inj grp gen cov by blast
qed

definition fence_inv :: "string set \<Rightarrow> task list \<Rightarrow> task_group list \<Rightarrow> task_group list \<Rightarrow> task list \<Rightarrow> bool" where
  "fence_inv catalog_keys ts gs rest us \<longleftrightarrow>
     pending_le ts us \<and> set rest \<subseteq> set gs \<and> distinct rest \<and>
     (\<forall>u. t_state u = TaskStateInFlight \<longrightarrow> u \<in> set us \<longleftrightarrow> u \<in> set ts) \<and>
     (\<forall>u. t_state u \<in> parked \<longrightarrow> u \<in> set us \<longleftrightarrow>
        u \<in> set ts \<and> (\<forall>g\<in>set gs - set rest. u \<notin> set (tg_parked g))) \<and>
     (\<forall>g\<in>set rest. \<forall>u. t_state u = TaskStatePending \<and> t_path_key u = tg_key g \<longrightarrow> u \<in> set us \<longleftrightarrow> u \<in> set ts) \<and>
     (\<forall>g\<in>set gs - set rest. tg_key g \<notin> catalog_keys \<and> (tg_pending g \<or> tg_in_flight g) \<longrightarrow>
       (\<exists>p\<in>set us. t_slot p = (tg_key g, TaskStatePending) \<and> t_op p = TaskOpRemove \<and>
          t_generation p = tg_generation g + 1))"

lemma fence_inv_step:
  fixes us vs :: "task list"
  assumes i: "fence_inv catalog_keys ts gs (g # rest) us" and st: "fence_step catalog_keys g us vs"
    and inj: "inj_on tg_key (set gs)"
  shows "fence_inv catalog_keys ts gs rest vs"
proof -
  note i = i [unfolded fence_inv_def]
  have g: "g \<in> set gs" and rest: "set rest \<subseteq> set gs" "g \<notin> set rest" "distinct rest" using i by auto
  have diff: "set gs - set rest = insert g (set gs - set (g # rest))" using g rest(2) by auto
  have other: "tg_key h \<noteq> tg_key g" if "h \<in> set gs" "h \<noteq> g" for h
    using inj_onD [OF inj _ that(1) g] that(2) by blast
  show ?thesis
    unfolding fence_inv_def
  proof (intro conjI)
    show "pending_le ts vs" using i pending_le_trans [OF _ fence_step_le [OF st]] by blast
    show "\<forall>u. t_state u = TaskStateInFlight \<longrightarrow> u \<in> set vs \<longleftrightarrow> u \<in> set ts"
      using fence_step_in_flight [OF st] i by blast
    show "\<forall>u. t_state u \<in> parked \<longrightarrow> u \<in> set vs \<longleftrightarrow>
        u \<in> set ts \<and> (\<forall>h\<in>set gs - set rest. u \<notin> set (tg_parked h))"
    proof (intro allI impI)
      fix u :: task assume u: "t_state u \<in> parked"
      have "u \<in> set us \<longleftrightarrow> u \<in> set ts \<and> (\<forall>h\<in>set gs - set (g # rest). u \<notin> set (tg_parked h))"
        using i u by blast
      then show "u \<in> set vs \<longleftrightarrow> u \<in> set ts \<and> (\<forall>h\<in>set gs - set rest. u \<notin> set (tg_parked h))"
        unfolding diff fence_step_parked [OF st u] by blast
    qed
    show "\<forall>h\<in>set rest. \<forall>u. t_state u = TaskStatePending \<and> t_path_key u = tg_key h \<longrightarrow>
        u \<in> set vs \<longleftrightarrow> u \<in> set ts"
    proof (intro ballI allI impI)
      fix h and u :: task assume h: "h \<in> set rest" and u: "t_state u = TaskStatePending \<and> t_path_key u = tg_key h"
      have "tg_key h \<noteq> tg_key g" using other [of h] h rest by blast
      then have "u \<in> set vs \<longleftrightarrow> u \<in> set us" using fence_step_pending [OF st, of u] u by simp
      moreover have "u \<in> set us \<longleftrightarrow> u \<in> set ts" using i h u by (meson list.set_intros(2))
      ultimately show "u \<in> set vs \<longleftrightarrow> u \<in> set ts" by blast
    qed
    show "\<forall>h\<in>set gs - set rest. tg_key h \<notin> catalog_keys \<and> (tg_pending h \<or> tg_in_flight h) \<longrightarrow>
      (\<exists>p\<in>set vs. t_slot p = (tg_key h, TaskStatePending) \<and> t_op p = TaskOpRemove \<and>
         t_generation p = tg_generation h + 1)"
    proof (intro ballI impI)
      fix h assume h: "h \<in> set gs - set rest"
        and c: "tg_key h \<notin> catalog_keys \<and> (tg_pending h \<or> tg_in_flight h)"
      show "\<exists>p\<in>set vs. t_slot p = (tg_key h, TaskStatePending) \<and> t_op p = TaskOpRemove \<and>
         t_generation p = tg_generation h + 1"
      proof (cases "h = g")
        case True
        then show ?thesis using fence_step_new [OF st] c by blast
      next
        case False
        then have "h \<in> set gs - set (g # rest)" using h by simp
        then obtain p where p: "p \<in> set us" "t_slot p = (tg_key h, TaskStatePending)" "t_op p = TaskOpRemove"
          "t_generation p = tg_generation h + 1" using i c by meson
        then have "p \<in> set vs"
          using fence_step_pending [OF st, of p] other [of h] h False by (simp add: t_slot_def)
        then show ?thesis using p by blast
      qed
    qed
  qed (use rest in blast)+
qed

lemma fence_inv_parked:
  assumes i: "fence_inv catalog_keys ts gs (g # rest) us" and cov: "covering_groups dir ts gs"
    and t: "t \<in> set (tg_parked g)"
  shows "t \<in> set us \<and> t_state t \<in> parked"
proof -
  note i = i [unfolded fence_inv_def] and c = cov [unfolded covering_groups_def]
  have g: "g \<in> set gs" using i by simp
  then have tt: "t \<in> set ts" "t_state t \<in> parked" "t_path_key t = tg_key g" using c t by blast+
  have "t \<notin> set (tg_parked h)" if h: "h \<in> set gs - set (g # rest)" for h
  proof
    assume "t \<in> set (tg_parked h)"
    then have "tg_key h = tg_key g" using c h tt(3) by (metis DiffD1)
    then have "h = g" using c h g by (meson DiffD1 inj_onD)
    then show False using h by simp
  qed
  then have "t \<in> set us" using i tt by blast
  then show ?thesis using tt(2) by blast
qed

lemma fence_inv_end:
  assumes i: "fence_inv catalog_keys ts gs [] us" and cov: "covering_groups dir ts gs"
    and wf: "tasks_wf ts"
  shows "fenced dir catalog_keys (db\<lparr>db_tasks := us\<rparr>)"
proof -
  note i = i [unfolded fence_inv_def list.set Diff_empty] and c = cov [unfolded covering_groups_def]
  have kt: "t_path_key t = path_key (t_path t)" if "t \<in> set ts" for t using wf that by (rule tasks_wfD)
  have np: "t_state t \<notin> parked" if t: "t \<in> set us" "inside_directory dir (t_path t)" for t
  proof
    assume p: "t_state t \<in> parked"
    then have tt: "t \<in> set ts" and no: "\<forall>g\<in>set gs. t \<notin> set (tg_parked g)" using i t(1) by blast+
    have "t_state t \<in> set active_states" using p by (auto simp: parked_def active_states_def)
    then obtain g where "g \<in> set gs" "group_covers g t" using c tt t(2) by blast
    then show False using no p by (simp add: group_covers_def)
  qed
  have fl: "\<exists>p\<in>set us. t_slot p = (t_path_key t, TaskStatePending) \<and> t_op p = TaskOpRemove \<and>
      t_generation t < t_generation p"
    if t: "t \<in> set us" "inside_directory dir (t_path t)" "t_state t = TaskStateInFlight"
      "t_path_key t \<notin> catalog_keys" for t
  proof -
    have tt: "t \<in> set ts" using i t(1,3) by blast
    have "t_state t \<in> set active_states" using t(3) by (simp add: active_states_def)
    then obtain g where g: "g \<in> set gs" "group_covers g t" using c tt t(2) by blast
    then have gt: "tg_key g = t_path_key t" "tg_in_flight g" "t_generation t \<le> tg_generation g"
      using t(3) kt [OF tt] by (simp_all add: group_covers_def)
    then obtain p where "p \<in> set us" "t_slot p = (tg_key g, TaskStatePending)" "t_op p = TaskOpRemove"
      "t_generation p = tg_generation g + 1" using i g(1) t(4) by metis
    then show ?thesis using gt by (intro bexI [of _ p]) simp_all
  qed
  show ?thesis using np fl by (simp add: fenced_def parked_def)
qed

lemma wp_fence_all:
  assumes inv: "tx_inv db0 db" and E: "\<And>e. no_conflict e \<Longrightarrow> E e"
    and perm: "set gs = set (prefix_groups dir (db_tasks db))" "distinct gs"
    and Q: "\<And>ex' us. tx_inv db0 (db\<lparr>db_tasks := us\<rparr>) \<Longrightarrow> fenced dir catalog_keys (db\<lparr>db_tasks := us\<rparr>) \<Longrightarrow>
      pending_le (db_tasks db) us \<Longrightarrow> Q ex' (db\<lparr>db_tasks := us\<rparr>)"
  shows "wp (tx_fold (fence_group now priority catalog_keys) ex gs) Q E db"
proof -
  let ?ts = "db_tasks db"
  have wf: "tasks_wf ?ts" using inv by (rule inv_tables)
  have cov: "covering_groups dir ?ts gs"
    using covering_prefix_groups [OF wf, of dir] perm(1) by (simp add: covering_groups_def)
  define I where "I ex rest db' \<longleftrightarrow> (\<exists>us. db' = db\<lparr>db_tasks := us\<rparr> \<and> tx_inv db0 db' \<and>
      fence_inv catalog_keys ?ts gs rest us)" for ex :: expansion and rest db'
  have "wp (tx_fold (fence_group now priority catalog_keys) ex gs) (\<lambda>ex. I ex []) E db"
  proof (rule wp_fold_rest)
    have "fence_inv catalog_keys ?ts gs gs ?ts" using perm(2) by (simp add: fence_inv_def)
    then show "I ex gs db" unfolding I_def using inv by (intro exI [of _ ?ts]) simp
  next
    fix ex g rest db'
    assume "I ex (g # rest) db'"
    then obtain us where db': "db' = db\<lparr>db_tasks := us\<rparr>" and inv': "tx_inv db0 db'"
      and i: "fence_inv catalog_keys ?ts gs (g # rest) us" unfolding I_def by blast
    have g: "g \<in> set gs" using i by (simp add: fence_inv_def)
    then have grp: "tg_key g = path_key (tg_path g)" "distinct (tg_parked g)"
      "\<forall>t\<in>set ?ts. t_slot t = (tg_key g, TaskStatePending) \<longrightarrow> t_generation t \<le> tg_generation g"
      using cov unfolding covering_groups_def by blast+
    have same: "u \<in> set us \<longleftrightarrow> u \<in> set ?ts" if "t_slot u = (tg_key g, TaskStatePending)" for u
      using i that unfolding fence_inv_def by (simp add: t_slot_def)
    show "wp (fence_group now priority catalog_keys ex g) (\<lambda>ex. I ex rest) E db'"
    proof (rule wp_fence_group [OF inv' E grp(1,2)], assumption)
      show "\<forall>t\<in>set (tg_parked g). t \<in> set (db_tasks db') \<and> t_state t \<in> parked"
        using fence_inv_parked [OF i cov] by (simp add: db')
      show "\<forall>t\<in>set (db_tasks db'). t_slot t = (tg_key g, TaskStatePending) \<longrightarrow> t_generation t \<le> tg_generation g"
        using same grp(3) by (auto simp: db')
      fix ex' vs
      assume "tx_inv db0 (db'\<lparr>db_tasks := vs\<rparr>)" "fence_step catalog_keys g (db_tasks db') vs"
      then show "I ex' rest (db'\<lparr>db_tasks := vs\<rparr>)"
        unfolding I_def db' using fence_inv_step [OF i] cov
        by (intro exI [of _ vs]) (simp add: covering_groups_def)
    qed
  qed
  then show ?thesis
  proof (rule wp_mono)
    fix ex' db' assume "I ex' [] db'"
    then obtain us where db': "db' = db\<lparr>db_tasks := us\<rparr>" and inv': "tx_inv db0 db'"
      and i: "fence_inv catalog_keys ?ts gs [] us" unfolding I_def by blast
    have "pending_le ?ts us" using i by (simp add: fence_inv_def)
    then show "Q ex' db'" using Q [of us ex'] inv' fence_inv_end [OF i cov wf] by (simp add: db')
  qed
qed

text \<open>The whole transaction.\<close>

lemma wp_enqueue_prefix_removals_tx:
  assumes inv: "tx_inv db0 db" and E: "\<And>e. no_conflict e \<Longrightarrow> E e"
    and order: "\<And>gs. distinct gs \<Longrightarrow> set (map_order gs) = set gs \<and> distinct (map_order gs)"
    and Q: "\<And>ex db'. tx_inv db0 db' \<Longrightarrow>
      fenced dir ((\<lambda>c. path_key (f_path (fst c))) ` set (list_directory_children dir (db_files db))) db' \<Longrightarrow>
      (\<forall>c\<in>set (list_directory_children dir (db_files db)). child_done [] TaskOpRemove priority db' c) \<Longrightarrow>
      Q ex db'"
  shows "wp (enqueue_prefix_removals_tx map_order now dir priority) Q E db"
proof -
  let ?cat = "(\<lambda>c. path_key (f_path (fst c))) ` set (list_directory_children dir (db_files db))"
  have "wp (expand_directory_tx now dir [] TaskOpRemove priority)
      (\<lambda>ex s. wp (tx_fold (fence_group now priority ?cat) ex (map_order (prefix_groups dir (db_tasks s)))) Q E s) E db"
  proof (rule wp_expand_directory_tx [OF inv E], assumption, goal_cases)
    case (1 ex fs us)
    let ?db = "db\<lparr>db_files := fs, db_tasks := us\<rparr>"
    have "distinct (map tg_key (prefix_groups dir us))"
      using prefix_groups_ok [OF inv_tables(1) [OF 1(1)]] by (simp add: groups_ok_def)
    then have d: "distinct (prefix_groups dir us)" by (simp add: distinct_map)
    show ?case
    proof (rule wp_fence_all [OF 1(1) E], assumption)
      show "set (map_order (prefix_groups dir (db_tasks ?db))) = set (prefix_groups dir (db_tasks ?db))"
        "distinct (map_order (prefix_groups dir (db_tasks ?db)))"
        using order [OF d] by simp_all
      fix ex' vs
      assume vs: "tx_inv db0 (?db\<lparr>db_tasks := vs\<rparr>)" "fenced dir ?cat (?db\<lparr>db_tasks := vs\<rparr>)"
        "pending_le (db_tasks ?db) vs"
      have "child_done [] TaskOpRemove priority (?db\<lparr>db_files := fs, db_tasks := vs\<rparr>) c"
        if "c \<in> set (list_directory_children dir (db_files db))" for c
      proof (rule child_done_mono [OF _ vs(3)])
        show "child_done [] TaskOpRemove priority ?db c" using 1(4) that by blast
        then show "bump_row (fst c) \<in> set fs" by (simp add: child_done_def)
      qed
      then show "Q ex' (?db\<lparr>db_tasks := vs\<rparr>)" using vs(1,2) by (intro Q) simp_all
    qed
  qed
  then show ?thesis
    by (simp add: enqueue_prefix_removals_tx_def wp_bind wp_bind_fun wp_read wp_read_fun)
qed

end
