(* ===== verification/Store_Recovery_Laws.thy ===== *)
theory Store_Recovery_Laws
  imports Store_Recovery Store_Prefix_Laws
begin

text \<open>
  Laws of redriving and of crash recovery: a redriven dead letter becomes pending work and an audit
  event in the same transaction; after recovery no row is in flight and every row that was is
  pending again, dead, or superseded by newer work.
\<close>

section \<open>Redriving\<close>

definition redriven :: "dead_letter list \<Rightarrow> redrive_result list \<Rightarrow> db \<Rightarrow> db \<Rightarrow> bool" where
  "redriven ds results db db' \<longleftrightarrow>
     map rd_dead_letter results = filter (\<lambda>d. d \<in> set (map rd_dead_letter results)) ds \<and>
     (\<forall>r\<in>set results. rd_dead_letter r \<notin> set (db_dead db') \<and>
        (\<exists>t\<in>set (db_tasks db'). t_slot t = (path_key (d_path (rd_dead_letter r)), TaskStatePending))) \<and>
     (\<exists>as. db_audit db' = db_audit db @ as \<and> length as = length results \<and>
        (\<forall>a\<in>set as. au_action a = audit_action_redrive))"

lemma wp_redrive_one:
  assumes inv: "tx_inv db0 db" and E: "\<And>e. no_conflict e \<Longrightarrow> E e"
    and skip: "Q results db"
    and Q: "\<And>r a fs us ds n. rd_dead_letter r = dead \<Longrightarrow>
      tx_inv db0 (db\<lparr>db_tasks := us, db_dead := ds, db_files := fs, db_audit := db_audit db @ [a], db_audit_seq := n\<rparr>) \<Longrightarrow>
      ds = rows_delete (\<lambda>d. d_file_id d = d_file_id dead \<and> d_generation d = d_generation dead \<and>
             d_updated_at d = d_updated_at dead) (db_dead db) \<Longrightarrow>
      pending_le (db_tasks db) us \<Longrightarrow>
      (\<exists>t\<in>set us. t_slot t = (path_key (d_path dead), TaskStatePending)) \<Longrightarrow>
      au_action a = audit_action_redrive \<Longrightarrow> au_source a = source \<Longrightarrow> au_file_id a = d_file_id dead \<Longrightarrow>
      Q (results @ [r]) (db\<lparr>db_tasks := us, db_dead := ds, db_files := fs, db_audit := db_audit db @ [a], db_audit_seq := n\<rparr>)"
  shows "wp (redrive_one now priority source results dead) Q E db"
proof (cases "List.find (\<lambda>f. f_id f = d_file_id dead) (db_files db)")
  case None
  then show ?thesis using E by (simp add: redrive_one_def wp_simps)
next
  case (Some f)
  then have f: "f \<in> set (db_files db)" "f_id f = d_file_id dead" by (auto dest: find_SomeD)
  show ?thesis
  proof (cases "d_generation dead < f_generation f")
    case True
    then show ?thesis using Some skip by (simp add: redrive_one_def wp_simps)
  next
    case False
    let ?params = "\<lparr>ep_file_id = Some (d_file_id dead), ep_path = d_path dead, ep_op = TaskOpUpsert,
        ep_old_path = None, ep_generation = f_generation f, ep_priority = priority, ep_next_attempt_at = 0\<rparr>"
    let ?p = "\<lambda>d. d_file_id d = d_file_id dead \<and> d_generation d = d_generation dead \<and>
             d_updated_at d = d_updated_at dead"
    let ?q = "\<lambda>g. f_id g = d_file_id dead \<and> f_generation g = f_generation f"
    let ?h = "\<lambda>g. g\<lparr>f_status := FileStatusPending\<rparr>"
    let ?fs = "rows_update ?q ?h (db_files db)"
    let ?ds = "rows_delete ?p (db_dead db)"
    let ?audit = "\<lambda>r. enqueue_dead_letter_audit_tx now audit_action_redrive source
             (t_id (er_task r)) (t_generation (er_task r)) (t_path (er_task r)) dead"
    have tail: "wp (?audit r) (\<lambda>_. Q (results @ [\<lparr>rd_dead_letter = dead, rd_enqueue_result = r\<rparr>])) E
        (db\<lparr>db_tasks := us, db_dead := ?ds, db_files := ?fs\<rparr>)"
      and keys: "distinct (map f_path_key ?fs)"
      if us: "tx_inv db0 (db\<lparr>db_tasks := us\<rparr>)" "pending_le (db_tasks db) us"
        "\<exists>t\<in>set us. t_slot t = (path_key (d_path dead), TaskStatePending)" for us r
    proof -
      have i: "tx_inv db0 (db\<lparr>db_tasks := us, db_dead := ?ds\<rparr>)"
        using inv_delete_dead [OF us(1), of ?p] by simp
      have "file_ok (?h g)" if "g \<in> set (db_files db)" for g
        using files_wfD(2) [OF inv_tables(2) [OF inv] that] by (simp add: file_ok_def status_ok_def)
      then have fr: "tx_inv db0 (db\<lparr>db_tasks := us, db_dead := ?ds, db_files := ?fs\<rparr>)"
        and k: "distinct (map f_path_key ?fs)"
        using inv_update_files_frame [OF i, of ?q ?h] by simp_all
      show "distinct (map f_path_key ?fs)" by (rule k)
      show "wp (?audit r) (\<lambda>_. Q (results @ [\<lparr>rd_dead_letter = dead, rd_enqueue_result = r\<rparr>])) E
          (db\<lparr>db_tasks := us, db_dead := ?ds, db_files := ?fs\<rparr>)"
      proof (rule wp_enqueue_audit [OF fr E], assumption, goal_cases)
        case (1 a)
        then show ?case
          using Q [where r = "\<lparr>rd_dead_letter = dead, rd_enqueue_result = r\<rparr>" and us = us and ds = ?ds
              and fs = ?fs and a = a and n = "db_audit_seq db + 1"] us
          by simp
      qed
    qed
    have "wp (enqueue_tx now ?params) (\<lambda>r. wp (delete_dead ?p) (\<lambda>n. wp (require_changed n)
        (\<lambda>_. wp (update_files ?q ?h) (\<lambda>m. wp (require_changed m) (\<lambda>_. wp (?audit r)
        (\<lambda>_. Q (results @ [\<lparr>rd_dead_letter = dead, rd_enqueue_result = r\<rparr>])) E) E) E) E) E) E db"
    proof (rule wp_enqueue_tx [OF inv E], assumption, goal_cases)
      case (1 r us)
      have us: "\<exists>t\<in>set us. t_slot t = (path_key (d_path dead), TaskStatePending)"
        using 1(2,3) by (intro bexI [of _ "er_task r"]) simp_all
      show ?case
        using tail [OF 1(1,8) us] keys [OF 1(1,8) us] E
        by (simp add: wp_delete_dead wp_require_changed wp_update_files)
    qed
    then show ?thesis
      using Some False by (simp add: redrive_one_def wp_find_file wp_bind wp_bind_fun wp_return_fun)
  qed
qed

lemma wp_redrive_dead_letters_tx:
  assumes inv: "tx_inv db0 db" and E: "\<And>e. no_conflict e \<Longrightarrow> E e"
    and ds: "distinct (map d_file_id ds)"
    and Q: "\<And>results db'. tx_inv db0 db' \<Longrightarrow> redriven ds results db db' \<Longrightarrow> Q results db'"
  shows "wp (redrive_dead_letters_tx now ds priority source) Q E db"
proof -
  define I where "I results rest db' \<longleftrightarrow> (\<exists>before. ds = before @ rest \<and> tx_inv db0 db' \<and>
      redriven before results db db')" for results rest and db' :: db
  have "wp (tx_fold (redrive_one now priority source) [] ds) (\<lambda>results. I results []) E db"
  proof (rule wp_fold_rest)
    show "I [] ds db" unfolding I_def using inv by (intro exI [of _ "[]"]) (simp add: redriven_def)
  next
    fix results dead rest db'
    assume "I results (dead # rest) db'"
    then obtain before where b: "ds = before @ dead # rest" and inv': "tx_inv db0 db'"
      and r: "redriven before results db db'" unfolding I_def by blast
    have fresh: "dead \<notin> set before" using ds b by auto
    have new: "dead \<notin> set (map rd_dead_letter results)" and sub: "set (map rd_dead_letter results) \<subseteq> set before"
      using r fresh unfolding redriven_def by (metis filter_is_subset subsetD)+
    have eq: "filter (\<lambda>d. d \<in> set (map rd_dead_letter results)) (before @ [dead]) =
        filter (\<lambda>d. d \<in> set (map rd_dead_letter results)) before" using new by simp
    have eq2: "filter (\<lambda>d. d \<in> insert dead (set (map rd_dead_letter results))) (before @ [dead]) =
        filter (\<lambda>d. d \<in> set (map rd_dead_letter results)) before @ [dead]"
      using fresh by (auto intro: filter_cong)
    show "wp (redrive_one now priority source results dead) (\<lambda>rs. I rs rest) E db'"
    proof (rule wp_redrive_one [OF inv' E], assumption)
      have "redriven (before @ [dead]) results db db'" using r unfolding redriven_def eq .
      then show "I results rest db'" unfolding I_def using b inv' by (intro exI [of _ "before @ [dead]"]) simp
    next
      fix x :: redrive_result and a fs us dl n
      let ?db = "db'\<lparr>db_tasks := us, db_dead := dl, db_files := fs, db_audit := db_audit db' @ [a], db_audit_seq := n\<rparr>"
      assume x: "rd_dead_letter x = dead" "tx_inv db0 ?db"
        "dl = rows_delete (\<lambda>d. d_file_id d = d_file_id dead \<and> d_generation d = d_generation dead \<and>
             d_updated_at d = d_updated_at dead) (db_dead db')"
        "pending_le (db_tasks db') us" "\<exists>t\<in>set us. t_slot t = (path_key (d_path dead), TaskStatePending)"
        "au_action a = audit_action_redrive"
      have keep: "\<exists>t\<in>set us. t_slot t = (k, TaskStatePending)"
        if "\<exists>t\<in>set (db_tasks db'). t_slot t = (k, TaskStatePending)" for k
        using that x(4) unfolding pending_le_def by (metis prod.inject t_slot_def)
      have "redriven (before @ [dead]) (results @ [x]) db ?db"
        unfolding redriven_def
      proof (intro conjI)
        show "map rd_dead_letter (results @ [x]) =
            filter (\<lambda>d. d \<in> set (map rd_dead_letter (results @ [x]))) (before @ [dead])"
        proof -
          have m: "map rd_dead_letter results = filter (\<lambda>d. d \<in> set (map rd_dead_letter results)) before"
            using r unfolding redriven_def by blast
          have "set (map rd_dead_letter (results @ [x])) = insert dead (set (map rd_dead_letter results))"
            "map rd_dead_letter (results @ [x]) = map rd_dead_letter results @ [dead]" using x(1) by simp_all
          then show ?thesis using arg_cong [OF m, of "\<lambda>l. l @ [dead]"] by (simp only: eq2)
        qed
        show "\<forall>r\<in>set (results @ [x]). rd_dead_letter r \<notin> set (db_dead ?db) \<and>
            (\<exists>t\<in>set (db_tasks ?db). t_slot t = (path_key (d_path (rd_dead_letter r)), TaskStatePending))"
          using r keep x(1,3,5) unfolding redriven_def by auto
        obtain as where "db_audit db' = db_audit db @ as" "length as = length results"
            "\<forall>a\<in>set as. au_action a = audit_action_redrive"
          using r unfolding redriven_def by blast
        then show "\<exists>as. db_audit ?db = db_audit db @ as \<and> length as = length (results @ [x]) \<and>
            (\<forall>a\<in>set as. au_action a = audit_action_redrive)"
          using x(6) by (intro exI [of _ "as @ [a]"]) simp
      qed
      then show "I (results @ [x]) rest ?db"
        unfolding I_def using b x(2) by (intro exI [of _ "before @ [dead]"]) simp
    qed
  qed
  then show ?thesis
    unfolding redrive_dead_letters_tx_def by (rule wp_mono) (auto simp: I_def intro: Q)
qed

lemma wp_select_dead_ids:
  assumes wf: "dead_wf (db_dead db)" and E: "\<And>e. no_conflict e \<Longrightarrow> E e"
    and Q: "\<And>ds. set ds \<subseteq> set (db_dead db) \<Longrightarrow> distinct (map d_file_id ds) \<Longrightarrow>
      (\<forall>d\<in>set ds. d_file_id d \<notin> seen) \<Longrightarrow> Q ds db"
  shows "wp (select_dead_ids seen ids) Q E db"
  using Q
proof (induction ids arbitrary: seen Q)
  case Nil
  then show ?case by (simp add: wp_simps)
next
  case (Cons i ids)
  have rec: "wp (select_dead_ids (insert i seen) ids) (\<lambda>ds. Q (d # ds)) E db"
    if "d \<in> set (db_dead db)" "d_file_id d = i" "i \<notin> seen" for d
  proof (rule Cons.IH)
    fix ds
    assume "set ds \<subseteq> set (db_dead db)" "distinct (map d_file_id ds)" "\<forall>e\<in>set ds. d_file_id e \<notin> insert i seen"
    then show "Q (d # ds) db" using that by (intro Cons.prems) force+
  qed
  have same: "wp (select_dead_ids seen ids) Q E db" by (intro Cons.IH Cons.prems)
  show ?case
    using rec same E
    by (auto simp: wp_if wp_fail wp_bind wp_bind_fun wp_find_dead wp_return_fun split: option.splits
        dest: find_SomeD)
qed

lemma by_updated_at_set [simp]: "set (by_updated_at ds) = set ds"
  by (simp add: by_updated_at_def)

lemma by_updated_at_distinct: "distinct (map d_file_id ds) \<Longrightarrow> distinct (map d_file_id (by_updated_at ds))"
  by (simp add: by_updated_at_def order_by_def distinct_map)

lemma wp_redrive_selected_tx:
  assumes inv: "tx_inv db0 db" and E: "\<And>e. no_conflict e \<Longrightarrow> E e"
    and Q: "\<And>ds results db'. set ds \<subseteq> set (db_dead db) \<Longrightarrow> tx_inv db0 db' \<Longrightarrow>
      redriven ds results db db' \<Longrightarrow> Q results db'"
  shows "wp (redrive_selected_tx now ids class priority source) Q E db"
proof -
  have wf: "dead_wf (db_dead db)" using inv by (rule inv_tables)
  have run: "wp (redrive_dead_letters_tx now ds priority source) Q E db"
    if "set ds \<subseteq> set (db_dead db)" "distinct (map d_file_id ds)" for ds
    using that by (intro wp_redrive_dead_letters_tx [OF inv E] Q [of ds])
  have "distinct (map d_file_id (db_dead db))" using wf by (simp add: dead_wf_def)
  then have "distinct (map d_file_id (by_updated_at (filter P (db_dead db))))" for P
    by (intro by_updated_at_distinct) (simp add: distinct_map_filter)
  then have "wp (redrive_dead_letters_tx now (by_updated_at (filter (\<lambda>d. d_error_class d = class) (db_dead db)))
      priority source) Q E db"
    by (intro run) auto
  moreover have "wp (select_dead_ids {} ids)
      (\<lambda>ds. wp (redrive_dead_letters_tx now ds priority source) Q E) E db"
    by (rule wp_select_dead_ids [OF wf E]) (auto intro: run)
  ultimately show ?thesis
    by (simp add: redrive_selected_tx_def select_dead_letters_for_redrive_def wp_bind wp_if wp_read)
qed

lemma wp_redrive_mismatched_tx:
  assumes inv: "tx_inv db0 db" and E: "\<And>e. no_conflict e \<Longrightarrow> E e"
    and Q: "\<And>ds results db'. tx_inv db0 db' \<Longrightarrow> set ds = {d \<in> set (db_dead db). version_mismatch x m d} \<Longrightarrow>
      redriven ds results db db' \<Longrightarrow> Q results db'"
  shows "wp (redrive_mismatched_tx now x m priority source) Q E db"
proof -
  let ?ds = "by_updated_at (filter (version_mismatch x m) (db_dead db))"
  have "distinct (map d_file_id (db_dead db))" using inv_tables(3) [OF inv] by (simp add: dead_wf_def)
  then have "distinct (map d_file_id ?ds)"
    by (intro by_updated_at_distinct) (simp add: distinct_map_filter)
  then have "wp (redrive_dead_letters_tx now ?ds priority source) Q E db"
    by (intro wp_redrive_dead_letters_tx [OF inv E] Q [of _ ?ds]) auto
  then show ?thesis by (simp add: redrive_mismatched_tx_def wp_bind wp_read)
qed

section \<open>Recovery\<close>

text \<open>What became of one row that was in flight.\<close>

definition recovered :: "task \<Rightarrow> task list \<Rightarrow> bool" where
  "recovered c us \<longleftrightarrow>
     (\<exists>u\<in>set us. t_path_key u = t_path_key c \<and> t_state u = recovery_target c \<and>
        (t_id u = t_id c \<and> t_crash_count u = t_crash_count c + 1 \<or> t_generation c < t_generation u))"

definition other_paths_kept :: "task \<Rightarrow> task list \<Rightarrow> task list \<Rightarrow> bool" where
  "other_paths_kept c ts us \<longleftrightarrow> (\<forall>u. t_path_key u \<noteq> t_path_key c \<longrightarrow> u \<in> set us \<longleftrightarrow> u \<in> set ts)"

definition recovery_step :: "task \<Rightarrow> task list \<Rightarrow> task list \<Rightarrow> bool" where
  "recovery_step c ts us \<longleftrightarrow>
     recovered c us \<and> other_paths_kept c ts us \<and>
     (\<forall>u\<in>set us. t_path_key u = t_path_key c \<longrightarrow> t_state u \<noteq> TaskStateInFlight) \<and> work_le ts us"

lemma recovered_row_simps [simp]:
  "t_id (recovered_row now c al ec t) = t_id t"
  "t_path_key (recovered_row now c al ec t) = t_path_key t"
  "t_state (recovered_row now c al ec t) = recovery_target c"
  "t_generation (recovered_row now c al ec t) = t_generation t"
  "t_crash_count (recovered_row now c al ec t) = t_crash_count c + 1"
  by (simp_all add: recovered_row_def)

lemma recovery_target_cases:
  "recovery_target c = TaskStateDead \<or> recovery_target c = TaskStatePending"
  by (simp add: recovery_target_def)

lemma recovered_row_ok:
  "task_ok c \<Longrightarrow> length al \<le> max_task_failure_history \<Longrightarrow> length ec \<le> max_task_failure_history \<Longrightarrow>
     task_ok (recovered_row now c al ec c)"
  using recovery_target_cases [of c] by (auto simp: task_ok_def recovered_row_def)

lemma wp_record_poison:
  assumes inv: "tx_inv db0 db" and E: "\<And>e. no_conflict e \<Longrightarrow> E e"
    and Q: "\<And>fs ds as n. tx_inv db0 (db\<lparr>db_dead := ds, db_audit := as, db_audit_seq := n, db_files := fs\<rparr>) \<Longrightarrow>
      Q () (db\<lparr>db_dead := ds, db_audit := as, db_audit_seq := n, db_files := fs\<rparr>)"
  shows "wp (record_poison now t dead) Q E db"
  unfolding record_poison_def wp_bind wp_bind_fun wp_return_fun
proof (rule wp_upsert_dead_letter [OF inv E], assumption, goal_cases)
  case (1 d ds)
  show ?case
  proof (rule wp_enqueue_audit [OF 1(5) E], assumption, goal_cases)
    case a: (1 a)
    let ?p = "\<lambda>f. f_id f = d_file_id dead \<and> f_generation f = t_generation t"
    let ?h = "\<lambda>f. f\<lparr>f_status := FileStatusFailed\<rparr>"
    have "file_ok (?h r)" if "r \<in> set (db_files db)" for r
      using files_wfD(2) [OF inv_tables(2) [OF inv] that] by (simp add: file_ok_def status_ok_def)
    then show ?case
      using inv_update_files_frame [OF a(8), of ?p ?h] Q by (simp add: wp_update_files)
  qed
qed

text \<open>Leaving \<open>in_flight\<close> for a slot that the crashed row may take.\<close>

lemma wp_recover_task:
  assumes inv: "tx_inv db0 (db\<lparr>db_tasks := ts\<rparr>)" and dbi: "tx_inv db0 db"
    and E: "\<And>e. no_conflict e \<Longrightarrow> E e"
    and c: "c \<in> set ts" "t_state c = TaskStateInFlight"
    and ts: "set ts \<subseteq> set (db_tasks db)" "slot_free ts c (recovery_target c)"
      "\<forall>u\<in>set (db_tasks db) - set ts. t_slot u = (t_path_key c, recovery_target c) \<and> t_generation u \<le> t_generation c"
    and Q: "\<And>r db'. tx_inv db0 db' \<Longrightarrow> db_meta db' = db_meta db \<Longrightarrow>
      recovery_step c (db_tasks db) (db_tasks db') \<Longrightarrow> Q r db'"
  shows "wp (recover_task now x m res c) Q E (db\<lparr>db_tasks := ts\<rparr>)"
proof -
  have wf: "tasks_wf ts" using inv_tables(1) [OF inv] by simp
  have wfd: "tasks_wf (db_tasks db)" using dbi by (rule inv_tables)
  have ok: "task_ok c" using wf c(1) by (rule tasks_wfD)
  have cd: "c \<in> set (db_tasks db)" using c(1) ts(1) by blast
  let ?h = "recovered_row now c"
  have step: "recovery_step c (db_tasks db) vs"
    if tr: "transition (db_tasks db) c (?h al ec c) us" "work_le (db_tasks db) us"
      and vs: "\<forall>u. t_id u \<noteq> t_id c \<longrightarrow> u \<in> set vs \<longleftrightarrow> u \<in> set us" "work_le us vs"
        "\<exists>u\<in>set vs. t_id u = t_id c \<and> t_state u = recovery_target c \<and> t_crash_count u = t_crash_count c + 1"
        "\<forall>u\<in>set vs. t_id u = t_id c \<longrightarrow> t_state u = recovery_target c \<and> t_path_key u = t_path_key c"
    for us vs al ec
  proof -
    have old: "u = ?h al ec c \<or> (u \<in> set (db_tasks db) \<and> t_id u \<noteq> t_id c)" if "u \<in> set us" for u
      using tr(1) that by (simp add: transition_def)
    have keep: "u \<in> set us \<or> t_slot u = (t_path_key c, recovery_target c)"
      if "u \<in> set (db_tasks db)" "t_id u \<noteq> t_id c" for u
      using tr(1) that by (simp add: transition_def t_slot_def)
    have "recovered c vs" unfolding recovered_def using vs(3,4) by blast
    moreover have "u \<in> set vs \<longleftrightarrow> u \<in> set (db_tasks db)" if k: "t_path_key u \<noteq> t_path_key c" for u
    proof (cases "t_id u = t_id c")
      case True
      then have "u \<notin> set vs" using vs(4) k by blast
      moreover have "u \<notin> set (db_tasks db)" using tasks_wf_id [OF wfd _ cd True] k by blast
      ultimately show ?thesis by blast
    next
      case False
      then show ?thesis using vs(1) old [of u] keep [of u] k by (auto simp: t_slot_def)
    qed
    moreover have "t_state u \<noteq> TaskStateInFlight" if u: "u \<in> set vs" "t_path_key u = t_path_key c" for u
    proof (cases "t_id u = t_id c")
      case True
      then show ?thesis using vs(4) u(1) recovery_target_cases [of c] by auto
    next
      case False
      then have ud: "u \<in> set (db_tasks db)" using vs(1) u(1) old [of u] by auto
      show ?thesis
        using tasks_wf_one_per_slot [OF wfd ud cd] u(2) c(2) False by auto
    qed
    moreover have "work_le (db_tasks db) vs" by (rule work_le_trans [OF tr(2) vs(2)])
    ultimately show ?thesis by (simp add: recovery_step_def other_paths_kept_def)
  qed
  have fin: "wp (if recovery_target c \<noteq> TaskStateDead then tx_return (count_recovered c res)
        else tx_bind (anchor_dead_task c) (\<lambda>file_id.
          let dead = poison_letter now x m c al ec file_id in
          tx_bind (record_poison now c dead) (\<lambda>_.
          tx_return ((count_recovered c res)\<lparr>re_poisoned_dead_letters :=
            re_poisoned_dead_letters (count_recovered c res) @ [dead]\<rparr>)))) Q E (db\<lparr>db_tasks := us\<rparr>)"
    if tr: "transition (db_tasks db) c (?h al ec c) us" "work_le (db_tasks db) us"
        "tx_inv db0 (db\<lparr>db_tasks := us\<rparr>)" for us al ec
  proof -
    have new: "?h al ec c \<in> set us" using tr(1) by (simp add: transition_def)
    have uwf: "tasks_wf us" using inv_tables(1) [OF tr(3)] by simp
    have only: "\<forall>u\<in>set us. t_id u = t_id c \<longrightarrow> t_state u = recovery_target c \<and> t_path_key u = t_path_key c"
    proof (intro ballI impI)
      fix u assume "u \<in> set us" "t_id u = t_id c"
      then have "u = ?h al ec c" using tasks_wf_id [OF uwf _ new] by simp
      then show "t_state u = recovery_target c \<and> t_path_key u = t_path_key c" by simp
    qed
    have here: "\<exists>u\<in>set us. t_id u = t_id c \<and> t_state u = recovery_target c \<and> t_crash_count u = t_crash_count c + 1"
      using new by (intro bexI [of _ "?h al ec c"]) simp_all
    show ?thesis
    proof (cases "recovery_target c = TaskStateDead")
      case False
      have "Q (count_recovered c res) (db\<lparr>db_tasks := us\<rparr>)"
        using step [OF tr(1,2), of us] here only tr(3) by (intro Q) simp_all
      then show ?thesis using False by (simp add: wp_return)
    next
      case True
      have "wp (anchor_dead_task c) (\<lambda>file_id. wp (record_poison now c (poison_letter now x m c al ec file_id))
          (\<lambda>_. Q ((count_recovered c res)\<lparr>re_poisoned_dead_letters :=
            re_poisoned_dead_letters (count_recovered c res) @ [poison_letter now x m c al ec file_id]\<rparr>)) E) E
          (db\<lparr>db_tasks := us\<rparr>)"
      proof (rule wp_anchor_dead_task [where t' = "?h al ec c", OF tr(3) E ok], assumption, goal_cases)
        case (3 i vs fs)
        show ?case
        proof (rule wp_record_poison [OF 3(1) E], assumption, goal_cases)
          case (1 gs ds as n)
          have "recovery_step c (db_tasks db) vs"
          proof (rule step [OF tr(1,2)])
            show "\<forall>u. t_id u \<noteq> t_id c \<longrightarrow> u \<in> set vs \<longleftrightarrow> u \<in> set us" using 3(5) by simp
            show "work_le us vs" using 3(4) by simp
            show "\<exists>u\<in>set vs. t_id u = t_id c \<and> t_state u = recovery_target c \<and> t_crash_count u = t_crash_count c + 1"
              using 3(3) by auto
            show "\<forall>u\<in>set vs. t_id u = t_id c \<longrightarrow> t_state u = recovery_target c \<and> t_path_key u = t_path_key c"
              using 3(6) by simp
          qed
          then show ?case using 1 by (intro Q) simp_all
        qed
      qed (use new in simp_all)
      then show ?thesis using True by (simp add: wp_bind wp_bind_fun wp_return_fun Let_def)
    qed
  qed
  have mv: "wp (update_tasks (\<lambda>t. t_id t = t_id c \<and> t_state t = TaskStateInFlight) (?h al ec))
      (\<lambda>n. wp (require_changed n) (\<lambda>_. R) E) E (db\<lparr>db_tasks := ts\<rparr>)"
    if R: "\<And>us. transition (db_tasks db) c (?h al ec c) us \<Longrightarrow> work_le (db_tasks db) us \<Longrightarrow>
        tx_inv db0 (db\<lparr>db_tasks := us\<rparr>) \<Longrightarrow> R (db\<lparr>db_tasks := us\<rparr>)"
      and len: "length al \<le> max_task_failure_history" "length ec \<le> max_task_failure_history" for al ec R
  proof (rule wp_move_row [where f = "?h al ec", OF dbi wf ts(1) c(1,2)])
    show "slot_free ts c (t_state (?h al ec c))" using ts(2) by simp
    show "\<forall>u\<in>set (db_tasks db) - set ts. t_slot u = t_slot (?h al ec c)" using ts(3) by (simp add: t_slot_def)
    fix us and n :: nat
    assume *: "n \<noteq> 0" "transition (db_tasks db) c (?h al ec c) us" "tx_inv db0 (db\<lparr>db_tasks := us\<rparr>)"
      "us = rows_update (\<lambda>t. t_id t = t_id c \<and> t_state t = TaskStateInFlight) (?h al ec) ts"
    have "work_le (db_tasks db) us"
    proof (rule work_le_transition [OF *(2)])
      show "\<forall>u\<in>set (db_tasks db) - set us. t_id u \<noteq> t_id c \<longrightarrow> t_generation u \<le> t_generation (?h al ec c)"
      proof (intro ballI impI)
        fix u assume u: "u \<in> set (db_tasks db) - set us" "t_id u \<noteq> t_id c"
        then have "u \<notin> set ts" unfolding *(4) by (auto simp: set_rows_update)
        then show "t_generation u \<le> t_generation (?h al ec c)" using ts(3) u(1) by simp
      qed
    qed (use wfd in simp_all)
    then show "wp (require_changed n) (\<lambda>_. R) E (db\<lparr>db_tasks := us\<rparr>)"
      using * R by (simp add: wp_require_changed)
  qed (use recovered_row_ok [OF ok len] in simp_all)
  show ?thesis
    unfolding recover_task_def Let_def append_failure_history_eq wp_bind wp_bind_fun wp_lift_Inr_fun
    by (rule mv) (rule fin [unfolded Let_def wp_bind wp_bind_fun], simp_all)
qed

lemma wp_recover_one:
  assumes inv: "tx_inv db0 db" and E: "\<And>e. no_conflict e \<Longrightarrow> E e"
    and c: "c \<in> set (db_tasks db)" "t_state c = TaskStateInFlight"
    and Q: "\<And>r db'. tx_inv db0 db' \<Longrightarrow> db_meta db' = db_meta db \<Longrightarrow>
      recovery_step c (db_tasks db) (db_tasks db') \<Longrightarrow> Q r db'"
  shows "wp (recover_one now x m res c) Q E db"
proof -
  let ?ts = "db_tasks db" and ?target = "recovery_target c"
  let ?p = "\<lambda>u. t_path_key u = path_key (t_path c) \<and> t_state u = ?target \<and> t_id u \<noteq> t_id c"
  have wf: "tasks_wf ?ts" using inv by (rule inv_tables)
  have key: "t_path_key c = path_key (t_path c)" using wf c(1) by (rule tasks_wfD)
  have again: "db = db\<lparr>db_tasks := ?ts\<rparr>" by simp
  show ?thesis
  proof (cases "List.find ?p ?ts")
    case None
    have "wp (recover_task now x m res c) Q E (db\<lparr>db_tasks := ?ts\<rparr>)"
    proof (rule wp_recover_task [OF _ inv E], simp_all add: inv c)
      show "slot_free ?ts c ?target" using None by (auto simp: slot_free_def find_None_iff key)
    qed (use Q in blast)
    then show ?thesis using None by (simp add: recover_one_def wp_bind wp_find_task)
  next
    case (Some other)
    then have o: "other \<in> set ?ts" "?p other" by (auto dest: find_SomeD)
    have same: "u = other" if "u \<in> set ?ts" "t_path_key u = t_path_key c" "t_state u = ?target" for u
      using tasks_wf_one_per_slot [OF wf that(1) o(1)] that o(2) key by simp
    show ?thesis
    proof (cases "t_generation c < t_generation other")
      case True
      let ?us = "rows_delete (\<lambda>u. t_id u = t_id c) ?ts"
      have only: "u = c" if "u \<in> set ?ts" "t_id u = t_id c" for u using tasks_wf_id [OF wf that(1) c(1)] that(2) .
      have oin: "other \<in> set ?us" using o by simp
      have "recovered c ?us" unfolding recovered_def
        using oin o(2) True key by (intro bexI [of _ other]) simp_all
      moreover have "other_paths_kept c ?ts ?us" using only by (auto simp: other_paths_kept_def)
      moreover have "t_state u \<noteq> TaskStateInFlight" if "u \<in> set ?us" "t_path_key u = t_path_key c" for u
        using tasks_wf_one_per_slot [OF wf _ c(1), of u] that c(2) by auto
      moreover have "work_le ?ts ?us" unfolding work_le_def
      proof
        fix u assume u: "u \<in> set ?ts"
        show "\<exists>v\<in>set ?us. t_path_key v = t_path_key u \<and> t_generation u \<le> t_generation v"
        proof (cases "u = c")
          case True
          then show ?thesis using oin o(2) key \<open>t_generation c < _\<close> by (intro bexI [of _ other]) simp_all
        next
          case False
          then have "u \<in> set ?us" using u only by auto
          then show ?thesis by auto
        qed
      qed
      ultimately have "Q res (db\<lparr>db_tasks := ?us\<rparr>)"
        using inv_delete_tasks [OF inv] by (intro Q) (simp_all add: recovery_step_def)
      then show ?thesis using Some True by (simp add: recover_one_def wp_simps)
    next
      case False
      let ?us = "rows_delete (\<lambda>u. t_id u = t_id other) ?ts"
      have gone: "u = other" if "u \<in> set ?ts" "u \<notin> set ?us" for u
        using tasks_wf_id [OF wf that(1) o(1)] that by auto
      have "wp (recover_task now x m res c) Q E (db\<lparr>db_tasks := ?us\<rparr>)"
      proof (rule wp_recover_task [OF inv_delete_tasks [OF inv] inv E], assumption)
        show "slot_free ?us c ?target" using same by (auto simp: slot_free_def)
        show "\<forall>u\<in>set ?ts - set ?us. t_slot u = (t_path_key c, ?target) \<and> t_generation u \<le> t_generation c"
        proof
          fix u assume "u \<in> set ?ts - set ?us"
          then have "u = other" using gone by blast
          then show "t_slot u = (t_path_key c, ?target) \<and> t_generation u \<le> t_generation c"
            using o(2) False key by (simp add: t_slot_def)
        qed
      qed (use c o(2) Q in auto)
      then show ?thesis using Some False by (simp add: recover_one_def wp_bind wp_find_task wp_delete_tasks)
    qed
  qed
qed

lemma recovered_kept:
  "recovered d ts \<Longrightarrow> other_paths_kept c ts us \<Longrightarrow> t_path_key d \<noteq> t_path_key c \<Longrightarrow> recovered d us"
  unfolding recovered_def other_paths_kept_def by metis

definition recovered_all :: "db \<Rightarrow> db \<Rightarrow> bool" where
  "recovered_all db db' \<longleftrightarrow>
     (\<forall>u\<in>set (db_tasks db'). t_state u \<noteq> TaskStateInFlight) \<and>
     (\<forall>c\<in>set (db_tasks db). t_state c = TaskStateInFlight \<longrightarrow> recovered c (db_tasks db')) \<and>
     work_le (db_tasks db) (db_tasks db')"

lemma wp_recover_in_flight_tx:
  assumes inv: "tx_inv db0 db" and E: "\<And>e. no_conflict e \<Longrightarrow> E e"
    and Q: "\<And>r db'. tx_inv db0 db' \<Longrightarrow> recovered_all db db' \<Longrightarrow> Q r db'"
  shows "wp (recover_in_flight_tx now res) Q E db"
proof -
  define cs where "cs = order_by t_id (filter (\<lambda>t. t_state t = TaskStateInFlight) (db_tasks db))"
  have wf: "tasks_wf (db_tasks db)" using inv by (rule inv_tables)
  have cs: "set cs = {t \<in> set (db_tasks db). t_state t = TaskStateInFlight}" by (simp add: cs_def)
  have dist: "distinct cs"
    using wf by (simp add: cs_def order_by_def tasks_wf_def distinct_map)
  have keys: "c = d" if "c \<in> set cs" "d \<in> set cs" "t_path_key c = t_path_key d" for c d
    using tasks_wf_one_per_slot [OF wf] that by (simp add: cs)
  define I where "I r rest db' \<longleftrightarrow> tx_inv db0 db' \<and> work_le (db_tasks db) (db_tasks db') \<and> distinct rest \<and>
      set rest \<subseteq> set cs \<and> set rest = {u \<in> set (db_tasks db'). t_state u = TaskStateInFlight} \<and>
      (\<forall>c\<in>set cs - set rest. recovered c (db_tasks db'))" for r :: recovery_result and rest db'
  have "wp (tx_fold (recover_one now x m) res cs) (\<lambda>r. I r []) E db" for x m
  proof (rule wp_fold_rest)
    show "I res cs db" unfolding I_def using inv dist cs by simp
  next
    fix r c rest db'
    assume i: "I r (c # rest) db'"
    then have inv': "tx_inv db0 db'" and w: "work_le (db_tasks db) (db_tasks db')"
      and rest: "distinct (c # rest)" "set (c # rest) \<subseteq> set cs"
        "set (c # rest) = {u \<in> set (db_tasks db'). t_state u = TaskStateInFlight}"
      and st: "\<forall>d\<in>set cs - set (c # rest). recovered d (db_tasks db')"
      unfolding I_def by blast+
    have c: "c \<in> set (db_tasks db')" "t_state c = TaskStateInFlight" using rest(3) by auto
    show "wp (recover_one now x m r c) (\<lambda>r. I r rest) E db'"
    proof (rule wp_recover_one [OF inv' E c], assumption)
      fix r' db'' assume d: "tx_inv db0 db''" "recovery_step c (db_tasks db') (db_tasks db'')"
      note s = d(2) [unfolded recovery_step_def]
      have other: "t_path_key d \<noteq> t_path_key c" if "d \<in> set cs" "d \<noteq> c" for d
        using keys [OF that(1)] rest(2) that(2) by auto
      have "set rest = {u \<in> set (db_tasks db''). t_state u = TaskStateInFlight}"
      proof (intro set_eqI iffI)
        fix u assume u: "u \<in> set rest"
        then have "u \<in> set (db_tasks db')" "t_state u = TaskStateInFlight" "u \<noteq> c" "u \<in> set cs"
          using rest by auto
        then show "u \<in> {u \<in> set (db_tasks db''). t_state u = TaskStateInFlight}"
          using s other [of u] by (simp add: other_paths_kept_def)
      next
        fix u assume "u \<in> {u \<in> set (db_tasks db''). t_state u = TaskStateInFlight}"
        then have u: "u \<in> set (db_tasks db'')" "t_state u = TaskStateInFlight" by simp_all
        then have k: "t_path_key u \<noteq> t_path_key c" using s by blast
        then have "u \<in> set (db_tasks db')" using u(1) s by (simp add: other_paths_kept_def)
        then have "u \<in> set (c # rest)" using u(2) rest(3) by blast
        then show "u \<in> set rest" using k by auto
      qed
      moreover have "recovered d (db_tasks db'')" if "d \<in> set cs - set rest" for d
      proof (cases "d = c")
        case True
        then show ?thesis using s by blast
      next
        case False
        then have "recovered d (db_tasks db')" using st that by simp
        then show ?thesis using recovered_kept s other [of d] that False by blast
      qed
      ultimately show "I r' rest db''"
        unfolding I_def using d(1) work_le_trans [OF w] s rest by simp
    qed
  qed
  then have "wp (tx_fold (recover_one now x m) res cs) Q E db" for x m
    by (rule wp_mono) (auto simp: I_def cs recovered_all_def intro!: Q)
  then show ?thesis
    by (simp add: recover_in_flight_tx_def optional_meta_string_def wp_bind wp_read cs_def)
qed

lemma wp_begin_startup_tx:
  assumes inv: "tx_inv db0 db" and E: "\<And>e. no_conflict e \<Longrightarrow> E e"
    and Q: "\<And>r db'. tx_inv db0 db' \<Longrightarrow> db_meta db' clean_shutdown_key = Some ''false'' \<Longrightarrow>
      (if db_meta db clean_shutdown_key \<noteq> Some ''true'' then recovered_all db db'
       else db_tasks db' = db_tasks db) \<Longrightarrow> Q r db'"
  shows "wp (begin_startup_tx now) Q E db"
proof -
  let ?mark = "\<lambda>d. d\<lparr>db_meta := (db_meta d)(clean_shutdown_key \<mapsto> ''false'')\<rparr>"
  have q: "Q r (?mark d)"
    if "tx_inv db0 d" "if db_meta db clean_shutdown_key \<noteq> Some ''true'' then recovered_all db d
       else db_tasks d = db_tasks db" for r d
    using that inv_meta [OF that(1)] by (intro Q) (auto simp: recovered_all_def)
  have "wp (recover_in_flight_tx now res) (\<lambda>r d. Q r (?mark d)) E db"
    if "db_meta db clean_shutdown_key \<noteq> Some ''true''" for res
    using that by (intro wp_recover_in_flight_tx [OF inv E] q) auto
  then show ?thesis
    using q [OF inv]
    by (simp add: begin_startup_tx_def set_meta_tx_def wp_bind wp_bind_fun wp_read wp_return_fun wp_modify
        Let_def wp_modify_fun wp_if)
qed

end
