(* ===== verification/Store_System.thy ===== *)
theory Store_System
  imports Store_Recovery_Laws
begin

text \<open>
  The store as a whole.  Every exported write of \<open>internal/store\<close> is an operation, and what
  they have in common is the interface \<open>store_transaction\<close>: a transaction body that keeps the
  invariant and never meets a unique index.  The interface is interpreted on the body of every
  operation, and the facts about reachable databases follow from it.
\<close>

section \<open>The interface of a write\<close>

locale store_transaction =
  fixes body :: "'a stx"
  assumes keeps: "tx_inv db0 db \<Longrightarrow> wp body (\<lambda>_. tx_inv db0) no_conflict db"
begin

lemma safe:
  assumes "db_wf db"
  shows "db_wf (snd (with_tx body db))"
    and "catalog_le (db_files db) (db_files (snd (with_tx body db)))"
    and "fst (with_tx body db) \<noteq> Inl ErrConstraint"
proof -
  have w: "wp body (\<lambda>_. tx_inv db) no_conflict db" using assms by (intro keeps inv_refl)
  have "tx_inv db (snd (with_tx body db))" using w inv_refl [OF assms] by (rule with_tx_wp)
  then show "db_wf (snd (with_tx body db))"
    "catalog_le (db_files db) (db_files (snd (with_tx body db)))" by (simp_all add: tx_inv_def)
  show "fst (with_tx body db) \<noteq> Inl ErrConstraint" using with_tx_error [OF w] by blast
qed

end

section \<open>The operations keep it\<close>

interpretation upsert_file: store_transaction "upsert_file_tx f" for f
  by unfold_locales (rule wp_upsert_file_tx)

interpretation prepare_file: store_transaction "prepare_file_for_task now i f" for now i f
  by unfold_locales (rule wp_prepare_file_for_task)

interpretation bump_file: store_transaction "bump_generation_tx p" for p
  by unfold_locales (unfold bump_generation_tx_def, rule wp_bump_where, simp_all)

interpretation relocate: store_transaction "relocate_file i g p" for i g p
  by unfold_locales (rule wp_relocate_file)

interpretation mark_deleted: store_transaction "mark_file_deleted i g" for i g
  by unfold_locales (simp add: wp_mark_file_deleted)

interpretation enqueue: store_transaction "enqueue_tx now params" for now params
  by unfold_locales (rule wp_enqueue_tx)

interpretation event: store_transaction "enqueue_and_bump_generation_tx now params" for now params
  by unfold_locales
    (simp add: enqueue_and_bump_generation_tx_def wp_bind, rule wp_advance_generation,
      auto intro: wp_enqueue_tx)

interpretation claim: store_transaction "claim_tx n now src" for n now src
  by unfold_locales (rule wp_claim_tx)

interpretation mark_done: store_transaction "mark_done_tx now i b" for now i b
  by unfold_locales (rule wp_mark_done_tx)

interpretation complete: store_transaction "complete_task_tx now params" for now params
  by unfold_locales (rule wp_complete_task_tx)

interpretation complete_batch: store_transaction "tx_each (complete_committed_tx now) items" for now items
  by unfold_locales (rule wp_each, assumption, rule wp_complete_committed_tx)

interpretation retry: store_transaction "mark_retry_tx now i next err b" for now i "next" err b
  by unfold_locales (rule wp_mark_retry_tx)

interpretation release: store_transaction "release_to_pending_tx now TaskStateWaitingDep due limit"
  for now due limit
  by unfold_locales (rule wp_release_to_pending_tx, simp_all)

interpretation release_retry: store_transaction "release_to_pending_tx now TaskStateRetryWait due limit"
  for now due limit
  by unfold_locales (rule wp_release_to_pending_tx, simp_all)

interpretation mark_dead: store_transaction "mark_dead_tx now i info source" for now i info source
  by unfold_locales (rule wp_mark_dead_tx)

interpretation upsert_dead: store_transaction "upsert_dead_letter_tx now d" for now d
  by unfold_locales (rule wp_upsert_dead_letter)

interpretation delete_dead_row: store_transaction "delete_dead_letter i" for i
  by unfold_locales (rule wp_delete_dead_letter)

interpretation archive_dead: store_transaction "delete_dead_letter_if_unchanged i g u" for i g u
  by unfold_locales (rule wp_delete_dead_letter_if_unchanged)

interpretation ack_audit: store_transaction "delete_audit_outbox_if_match i" for i
  by unfold_locales (rule wp_delete_audit)

interpretation expand_task: store_transaction "expand_directory_task_tx now i" for now i
  by unfold_locales (rule wp_expand_directory_task_tx)

interpretation reconcile_expand: store_transaction "expand_directory_tx now s d op pr" for now s d op pr
  by unfold_locales (rule wp_expand_directory_tx)

interpretation retire: store_transaction "retire_task_if_superseded_tx now i" for now i
  by unfold_locales (rule wp_retire_task_if_superseded_tx)

interpretation redrive: store_transaction "redrive_selected_tx now ids c pr src" for now ids c pr src
  by unfold_locales (rule wp_redrive_selected_tx)

interpretation redrive_versions: store_transaction "redrive_mismatched_tx now x m pr src" for now x m pr src
  by unfold_locales (rule wp_redrive_mismatched_tx)

interpretation meta: store_transaction "set_meta_tx k v" for k v
  by unfold_locales (simp add: set_meta_tx_def wp_simps inv_meta)

interpretation versions: store_transaction
    "tx_bind (set_meta_tx k v) (\<lambda>_. set_meta_tx k' v')" for k v k' v'
  by unfold_locales (simp add: set_meta_tx_def wp_simps inv_meta)

interpretation startup: store_transaction "begin_startup_tx now" for now
  by unfold_locales (rule wp_begin_startup_tx)

section \<open>Operations and reachable databases\<close>

datatype store_op =
  OpUpsertFile catalog_file
| OpPrepareFile int int catalog_file
| OpBumpGeneration string
| OpRelocateFile int int string
| OpMarkFileDeleted int int
| OpEnqueue int enqueue_params
| OpEnqueueAndBump int enqueue_params
| OpClaim int int claim_source
| OpMarkDone int int
| OpCompleteTask int complete_params
| OpCompleteCommittedBatch int "committed_task list"
| OpMarkRetry int int int string
| OpMarkDispatchRetry int int int string
| OpMarkWaitingDepBatch int "int list" string
| OpReleaseWaitingDep int int
| OpReleaseRetryWait int int
| OpMarkDead int int dead_letter_info string
| OpUpsertDeadLetter int dead_letter
| OpDeleteDeadLetter int
| OpDeleteDeadLetterIfUnchanged int int int
| OpDeleteAuditOutbox int
| OpExpandDirectoryTask int int
| OpEnqueuePrefixRemovals "task_group list \<Rightarrow> task_group list" int string int
| OpEnqueueReconcile int reconcile_params
| OpRetireIfSuperseded int int
| OpRedrive int "int list" string int string
| OpRedriveVersions int string string int string
| OpSetMeta string string
| OpSetRuntimeVersions string string
| OpBeginStartup int

definition outcome :: "(store_error + 'a) \<times> db \<Rightarrow> store_error option \<times> db" where
  "outcome r = (case fst r of Inl e \<Rightarrow> Some e | Inr _ \<Rightarrow> None, snd r)"

fun run_op :: "store_op \<Rightarrow> db \<Rightarrow> store_error option \<times> db" where
  "run_op (OpUpsertFile f) db = outcome (upsert_file f db)"
| "run_op (OpPrepareFile now i f) db = outcome (with_tx (prepare_file_for_task now i f) db)"
| "run_op (OpBumpGeneration p) db = outcome (bump_generation p db)"
| "run_op (OpRelocateFile i g p) db = outcome (with_tx (relocate_file i g p) db)"
| "run_op (OpMarkFileDeleted i g) db = outcome (with_tx (mark_file_deleted i g) db)"
| "run_op (OpEnqueue now params) db = outcome (enqueue now params db)"
| "run_op (OpEnqueueAndBump now params) db = outcome (enqueue_and_bump_generation now params db)"
| "run_op (OpClaim n now src) db = outcome (claim n now src db)"
| "run_op (OpMarkDone now i) db = outcome (mark_done now i db)"
| "run_op (OpCompleteTask now params) db = outcome (complete_task now params db)"
| "run_op (OpCompleteCommittedBatch now items) db = outcome (complete_committed_batch now items db)"
| "run_op (OpMarkRetry now i at err) db = outcome (mark_retry now i at err db)"
| "run_op (OpMarkDispatchRetry now i at err) db = outcome (mark_dispatch_retry now i at err db)"
| "run_op (OpMarkWaitingDepBatch now ids err) db = outcome (mark_waiting_dep_batch now ids err db)"
| "run_op (OpReleaseWaitingDep now limit) db = outcome (release_waiting_dep now limit db)"
| "run_op (OpReleaseRetryWait now limit) db = outcome (release_retry_wait now limit db)"
| "run_op (OpMarkDead now i info source) db = outcome (mark_dead_with_source now i info source db)"
| "run_op (OpUpsertDeadLetter now d) db = outcome (with_tx (upsert_dead_letter_tx now d) db)"
| "run_op (OpDeleteDeadLetter i) db = outcome (with_tx (delete_dead_letter i) db)"
| "run_op (OpDeleteDeadLetterIfUnchanged i g u) db =
     outcome (with_tx (delete_dead_letter_if_unchanged i g u) db)"
| "run_op (OpDeleteAuditOutbox i) db = outcome (with_tx (delete_audit_outbox_if_match i) db)"
| "run_op (OpExpandDirectoryTask now i) db = outcome (expand_directory_task now i db)"
| "run_op (OpEnqueuePrefixRemovals order now dir priority) db =
     outcome (enqueue_prefix_removals order now dir priority db)"
| "run_op (OpEnqueueReconcile now params) db = outcome (enqueue_reconcile_if_current now params db)"
| "run_op (OpRetireIfSuperseded now i) db = outcome (retire_task_if_superseded now i db)"
| "run_op (OpRedrive now ids c priority source) db =
     outcome (redrive_dead_letters_with_source now ids c priority source db)"
| "run_op (OpRedriveVersions now x m priority source) db =
     outcome (redrive_version_mismatches_with_source now x m priority source db)"
| "run_op (OpSetMeta k v) db = outcome (set_meta k v db)"
| "run_op (OpSetRuntimeVersions x m) db = outcome (set_runtime_versions x m db)"
| "run_op (OpBeginStartup now) db = outcome (begin_startup now db)"

text \<open>The only condition on an operation: the order of a map range is a permutation.\<close>

definition permutes_groups :: "(task_group list \<Rightarrow> task_group list) \<Rightarrow> bool" where
  "permutes_groups order \<longleftrightarrow> (\<forall>gs. distinct gs \<longrightarrow> set (order gs) = set gs \<and> distinct (order gs))"

definition admissible :: "store_op \<Rightarrow> bool" where
  "admissible op = (case op of OpEnqueuePrefixRemovals order _ _ _ \<Rightarrow> permutes_groups order | _ \<Rightarrow> True)"

definition safe_result :: "db \<Rightarrow> store_error option \<times> db \<Rightarrow> bool" where
  "safe_result db r \<longleftrightarrow>
     db_wf (snd r) \<and> catalog_le (db_files db) (db_files (snd r)) \<and> fst r \<noteq> Some ErrConstraint"

lemma safe_outcome:
  "db_wf (snd r) \<Longrightarrow> catalog_le (db_files db) (db_files (snd r)) \<Longrightarrow> fst r \<noteq> Inl ErrConstraint \<Longrightarrow>
     safe_result db (outcome r)"
  by (auto simp: safe_result_def outcome_def split: sum.splits)

lemma safe_refused: "db_wf db \<Longrightarrow> e \<noteq> ErrConstraint \<Longrightarrow> safe_result db (outcome (Inl e, db))"
  by (simp add: safe_result_def outcome_def)

lemma safe_noop: "db_wf db \<Longrightarrow> safe_result db (outcome (Inr x, db))"
  by (simp add: safe_result_def outcome_def)

lemmas operation_defs =
  upsert_file_def bump_generation_def enqueue_def enqueue_and_bump_generation_def claim_def
  mark_done_def complete_task_def complete_committed_batch_def mark_retry_def
  mark_dispatch_retry_def release_waiting_dep_def release_retry_wait_def
  mark_dead_with_source_def expand_directory_task_def retire_task_if_superseded_def
  redrive_dead_letters_with_source_def redrive_version_mismatches_with_source_def set_meta_def
  set_runtime_versions_def begin_startup_def

text \<open>Two operations whose bodies need what their validation established.\<close>

lemma validate_dependency_batch_distinct:
  "validate_dependency_batch seen ids = Inr u \<Longrightarrow> distinct ids \<and> set ids \<inter> seen = {} \<and> (\<forall>i\<in>set ids. 0 < i)"
  by (induction seen ids rule: validate_dependency_batch.induct) (auto split: if_splits)

lemma validate_dependency_batch_error: "validate_dependency_batch seen ids = Inl e \<Longrightarrow> no_conflict e"
  by (induction seen ids rule: validate_dependency_batch.induct) (auto split: if_splits)

lemma validate_reconcile_error: "validate_reconcile_enqueue params = Inl e \<Longrightarrow> no_conflict e"
  by (auto simp: validate_reconcile_enqueue_def split: if_splits option.splits)

lemma validate_directory_error: "validate_directory_path p = Inl e \<Longrightarrow> no_conflict e"
  by (auto simp: validate_directory_path_def split: if_splits)

lemma safe_transaction:
  assumes "db_wf db" and "wp body (\<lambda>_. tx_inv db) no_conflict db"
  shows "safe_result db (outcome (with_tx body db))"
proof (rule safe_outcome)
  have "tx_inv db (snd (with_tx body db))" using assms(2) inv_refl [OF assms(1)] by (rule with_tx_wp)
  then show "db_wf (snd (with_tx body db))" "catalog_le (db_files db) (db_files (snd (with_tx body db)))"
    by (simp_all add: tx_inv_def)
  show "fst (with_tx body db) \<noteq> Inl ErrConstraint" using with_tx_error [OF assms(2)] by blast
qed

lemma safe_waiting_dep: "db_wf db \<Longrightarrow> safe_result db (outcome (mark_waiting_dep_batch now ids err db))"
  by (auto simp: mark_waiting_dep_batch_def split: sum.splits
      intro!: safe_refused safe_transaction wp_mark_waiting_dep_batch_tx inv_refl
      dest: validate_dependency_batch_distinct validate_dependency_batch_error)

lemma safe_reconcile: "db_wf db \<Longrightarrow> safe_result db (outcome (enqueue_reconcile_if_current now params db))"
  by (auto simp: enqueue_reconcile_if_current_def split: sum.splits
      intro!: safe_refused safe_transaction wp_enqueue_reconcile_tx inv_refl
      dest: validate_reconcile_error)

lemma safe_prefix_removals:
  "db_wf db \<Longrightarrow> permutes_groups order \<Longrightarrow>
     safe_result db (outcome (enqueue_prefix_removals order now dir priority db))"
  by (auto simp: enqueue_prefix_removals_def permutes_groups_def split: sum.splits
      intro!: safe_refused safe_transaction wp_enqueue_prefix_removals_tx inv_refl
      dest: validate_directory_error)

lemma run_op_safe:
  assumes wf: "db_wf db" and adm: "admissible op"
  shows "safe_result db (run_op op db)"
proof (cases op)
  case (OpEnqueuePrefixRemovals order now dir priority)
  then show ?thesis using wf adm by (simp add: safe_prefix_removals admissible_def)
qed (use wf in \<open>auto simp: operation_defs safe_waiting_dep safe_reconcile
      intro!: safe_outcome safe_refused safe_noop upsert_file.safe prepare_file.safe bump_file.safe
        relocate.safe mark_deleted.safe enqueue.safe event.safe claim.safe mark_done.safe complete.safe
        complete_batch.safe retry.safe release.safe release_retry.safe mark_dead.safe upsert_dead.safe
        delete_dead_row.safe archive_dead.safe ack_audit.safe expand_task.safe retire.safe redrive.safe
        redrive_versions.safe meta.safe versions.safe startup.safe\<close>)

inductive reaches :: "db \<Rightarrow> db \<Rightarrow> bool" where
  refl: "reaches db db"
| step: "reaches db0 db \<Longrightarrow> admissible op \<Longrightarrow> run_op op db = (e, db') \<Longrightarrow> reaches db0 db'"

lemma reaches_inv:
  assumes "reaches db0 db" and "db_wf db0"
  shows "db_wf db \<and> catalog_le (db_files db0) (db_files db)"
  using assms
proof (induction rule: reaches.induct)
  case (step db0 db op e db')
  then have "safe_result db (run_op op db)" by (intro run_op_safe) simp_all
  then show ?case using step by (auto simp: safe_result_def intro: catalog_le_trans)
qed simp

end
