(* ===== verification/Store_Properties.thy ===== *)
theory Store_Properties
  imports Store_System
begin

text \<open>
  What the store promises, over its exported operations.  The databases that show the
  properties at work are reached from the empty one by the operations themselves.
\<close>

section \<open>Example databases\<close>

text \<open>
  A file \<open>/w/a\<close> is written (\<open>leased_db\<close>: its event enqueued, claimed and catalogued), then
  written again while the first task is in flight (\<open>raced_db\<close>).
\<close>

definition run_ops :: "store_op list \<Rightarrow> db" where
  "run_ops ops = foldl (\<lambda>db op. snd (run_op op db)) empty_db ops"

lemma run_ops_reaches: "\<forall>op\<in>set ops. admissible op \<Longrightarrow> reaches empty_db (run_ops ops)"
proof (induction ops rule: rev_induct)
  case Nil
  then show ?case by (simp add: run_ops_def reaches.refl)
next
  case (snoc op ops)
  then have "reaches empty_db (run_ops ops)" "admissible op" by simp_all
  then have "reaches empty_db (snd (run_op op (run_ops ops)))"
    by (rule reaches.step) (rule surjective_pairing)
  then show ?case by (simp add: run_ops_def)
qed

lemma run_ops_wf: "\<forall>op\<in>set ops. admissible op \<Longrightarrow> db_wf (run_ops ops)"
  using run_ops_reaches reaches_inv empty_db_wf by blast

definition event_on :: "string \<Rightarrow> enqueue_params" where
  "event_on p = \<lparr>ep_file_id = None, ep_path = p, ep_op = TaskOpUpsert, ep_old_path = None,
     ep_generation = 1, ep_priority = 5, ep_next_attempt_at = 0\<rparr>"

definition file_at :: "string \<Rightarrow> int \<Rightarrow> catalog_file" where
  "file_at p generation = \<lparr>f_id = 0, f_path = p, f_path_key = [], f_size = 3, f_mtime_ns = 7,
     f_inode = Some 9, f_sample_hash = [], f_kind = FileKindText, f_generation = generation,
     f_status = FileStatusPending, f_extractor_version = None, f_embed_model_version = None,
     f_indexed_at_ms = None\<rparr>"

definition leased_ops :: "store_op list" where
  "leased_ops = [OpEnqueueAndBump 10 (event_on ''/w/a''), OpClaim 4 11 ClaimAny,
     OpPrepareFile 12 1 (file_at ''/w/a'' 1)]"

definition leased_db :: db where "leased_db = run_ops leased_ops"

definition raced_db :: db where
  "raced_db = run_ops (leased_ops @ [OpEnqueueAndBump 13 (event_on ''/w/a'')])"

definition pending_db :: db where
  "pending_db = run_ops [OpEnqueueAndBump 10 (event_on ''/w/a''), OpEnqueueAndBump 10 (event_on ''/w/b'')]"

lemma example_dbs_wf: "db_wf leased_db" "db_wf raced_db" "db_wf pending_db"
  unfolding leased_db_def raced_db_def pending_db_def
  by (rule run_ops_wf, simp add: leased_ops_def admissible_def)+

section \<open>Safety of every write\<close>

text \<open>
  C1: whatever sequence of writes led to the current database, the next one leaves the tables
  well-formed (unique identifiers, one row per path and state, one catalog row per path, schema
  constraints, capped histories), keeps every catalog row and never lowers its generation, and
  does not fail on a unique index.
\<close>

theorem store_writes_are_safe:
  assumes "reaches empty_db db" and "admissible op"
  shows "safe_result db (run_op op db)"
  using assms reaches_inv [OF assms(1) empty_db_wf] by (simp add: run_op_safe)

theorem store_writes_are_safe_witness:
  "safe_result leased_db (run_op (OpClaim 1 20 ClaimAny) leased_db)"
proof (rule store_writes_are_safe)
  show "reaches empty_db leased_db"
    unfolding leased_db_def by (rule run_ops_reaches) (simp add: leased_ops_def admissible_def)
  show "admissible (OpClaim 1 20 ClaimAny)" by (simp add: admissible_def)
qed

text \<open>
  in a database reached by writes, two rows of the queue with one path key and one state are
  the same row; in particular a path has at most one lease and at most one pending task, and the
  attempts of a lease include its charge.
\<close>

theorem one_row_per_path_and_state:
  assumes "reaches empty_db db" and "t \<in> set (db_tasks db)" and "u \<in> set (db_tasks db)"
    and "path_key (t_path t) = path_key (t_path u)" and "t_state t = t_state u"
  shows "t = u \<and> (t_state t = TaskStateInFlight \<longrightarrow> t_charge t \<le> t_attempts t)"
proof -
  have wf: "tasks_wf (db_tasks db)"
    using reaches_inv [OF assms(1) empty_db_wf] by (simp add: db_wf_def)
  note k = tasks_wfD [OF wf assms(2)] tasks_wfD [OF wf assms(3)]
  have "t = u" using assms k by (intro tasks_wf_one_per_slot [OF wf]) simp_all
  then show ?thesis using k by (simp add: task_ok_def)
qed

theorem one_row_per_path_and_state_witness:
  "\<exists>t. t \<in> set (db_tasks leased_db) \<and> t_state t = TaskStateInFlight \<and> t_charge t \<le> t_attempts t"
proof -
  let ?t = "hd (db_tasks leased_db)"
  have r: "reaches empty_db leased_db"
    unfolding leased_db_def by (rule run_ops_reaches) (simp add: leased_ops_def admissible_def)
  have "db_tasks leased_db \<noteq> []" and s: "t_state ?t = TaskStateInFlight" by code_simp+
  then have m: "?t \<in> set (db_tasks leased_db)" by simp
  show ?thesis using one_row_per_path_and_state [OF r m m] m s by blast
qed

text \<open>C2: a write that returns an error has changed nothing.\<close>

theorem failed_writes_change_nothing:
  assumes "fst (run_op op db) \<noteq> None"
  shows "snd (run_op op db) = db"
proof -
  have rollback: "snd (with_tx m s) = s" if "fst (outcome (with_tx m s)) \<noteq> None" for m :: "'a stx" and s
    using that by (auto simp: outcome_def with_tx_def split: sum.splits prod.splits)
  have out: "snd (outcome r) = snd r" for r :: "(store_error + 'a) \<times> db" by (simp add: outcome_def)
  show ?thesis using assms
    by (cases op) (auto simp: operation_defs mark_waiting_dep_batch_def enqueue_reconcile_if_current_def
        enqueue_prefix_removals_def out rollback outcome_def split: sum.splits if_splits
        intro!: rollback)
qed

theorem failed_writes_change_nothing_witness:
  "snd (run_op (OpMarkDone 20 7) leased_db) = leased_db"
  by (rule failed_writes_change_nothing) code_simp

section \<open>Leases\<close>

text \<open>
  C3: a claim takes exactly the first \<open>n\<close> claimable rows in the order of priority and age, returns
  them in that order, in flight and charged, and changes no other row.  Claimable rows are due
  pending rows of the requested source whose path has no lease.
\<close>

theorem claim_takes_the_first_claimable:
  assumes "db_wf db"
  shows "\<exists>db'. claim n now source db =
      (Inr (map (claimed_row now) (claim_candidates n now source (db_tasks db))), db') \<and>
      db_tasks db' = map (\<lambda>t. if t \<in> set (claim_candidates n now source (db_tasks db))
         then claimed_row now t else t) (db_tasks db)"
proof -
  have "wp (claim_tx n now source) (\<lambda>r db'.
      r = map (claimed_row now) (claim_candidates n now source (db_tasks db)) \<and>
      db_tasks db' = map (\<lambda>t. if t \<in> set (claim_candidates n now source (db_tasks db))
         then claimed_row now t else t) (db_tasks db)) (\<lambda>_. False) db"
    by (rule wp_claim_tx [OF inv_refl [OF assms]]) simp
  then show ?thesis
    by (auto simp: claim_def with_tx_def wp_def split: sum.splits)
qed

theorem claim_takes_the_first_claimable_witness:
  "map t_id (claim_candidates 1 20 ClaimFresh (db_tasks pending_db)) = [1] \<and>
   (\<exists>r db'. claim 1 20 ClaimFresh pending_db = (Inr r, db') \<and> map t_id r = [1])"
proof -
  have "map t_id (claim_candidates 1 20 ClaimFresh (db_tasks pending_db)) = [1]" by code_simp
  moreover have "map (t_id \<circ> claimed_row 20) (claim_candidates 1 20 ClaimFresh (db_tasks pending_db)) = [1]"
    by code_simp
  ultimately show ?thesis
    using claim_takes_the_first_claimable [OF example_dbs_wf(3), of 1 20 ClaimFresh] by auto
qed

text \<open>
  C4: a completion that reports success found a lease of that file and generation, and leaves the
  catalog row of that generation with the reported status, the task done, and no dead letter of
  an older generation of the file.
\<close>

theorem complete_task_is_fenced:
  assumes "db_wf db" and "fst (complete_task now params db) = Inr ()"
  shows "completed db (cp_task_id params) (cp_file_id params) (cp_generation params)
      (if cp_status params = FileStatusEmpty then FileStatusIndexed else cp_status params)
      (snd (complete_task now params db))"
  using assms(2) unfolding complete_task_def
  by (rule with_tx_postI) (rule wp_complete_task_tx [OF inv_refl [OF assms(1)]], simp_all)

definition completion :: "int \<Rightarrow> complete_params" where
  "completion generation = \<lparr>cp_task_id = 1, cp_file_id = 1, cp_generation = generation,
     cp_status = FileStatusEmpty, cp_indexed_at = Some 20, cp_extractor_version = None,
     cp_embed_model_version = None\<rparr>"

theorem complete_task_is_fenced_witness:
  "completed leased_db 1 1 1 FileStatusIndexed (snd (complete_task 20 (completion 1) leased_db))"
proof -
  have "fst (complete_task 20 (completion 1) leased_db) = Inr ()" by code_simp
  from complete_task_is_fenced [OF example_dbs_wf(1) this] show ?thesis
    by (simp add: completion_def)
qed

lemma completion_generation:
  assumes wf: "db_wf db" and ok: "fst (complete_task now params db) = Inr ()"
    and g: "g \<in> set (db_files db)" "f_id g = cp_file_id params"
  shows "f_generation g \<le> cp_generation params"
proof -
  let ?st = "if cp_status params = FileStatusEmpty then FileStatusIndexed else cp_status params"
  let ?db' = "snd (complete_task now params db)"
  have "tx_inv db ?db' \<and> completed db (cp_task_id params) (cp_file_id params) (cp_generation params) ?st ?db'"
    using ok unfolding complete_task_def
    by (rule with_tx_postI) (rule wp_complete_task_tx [OF inv_refl [OF wf]], simp_all)
  then obtain f where f: "f \<in> set (db_files ?db')" "f_id f = cp_file_id params" "f_generation f = cp_generation params"
    and i: "tx_inv db ?db'" by (auto simp: completed_def)
  from i g(1) obtain h where "h \<in> set (db_files ?db')" "f_id h = f_id g" "f_generation g \<le> f_generation h"
    by (auto simp: tx_inv_def catalog_le_def)
  moreover have "files_wf (db_files ?db')" using i by (rule inv_tables)
  ultimately show ?thesis using files_wf_id [of "db_files ?db'" h f] f g by simp
qed

lemma event_bumps_the_catalog:
  assumes wf: "db_wf db" and ok: "fst (enqueue_and_bump_generation now params db) = Inr r"
    and f: "f \<in> set (db_files db)" "f_path_key f = path_key (ep_path params)"
    and op: "ep_op params \<noteq> TaskOpRelocate"
  shows "bump_row f \<in> set (db_files (snd (enqueue_and_bump_generation now params db)))"
  using ok unfolding enqueue_and_bump_generation_def
proof (rule with_tx_postI)
  fix Q :: "enqueue_result \<Rightarrow> db \<Rightarrow> bool"
  assume Q: "\<And>y t. bump_row f \<in> set (db_files t) \<Longrightarrow> Q y t"
  show "wp (enqueue_and_bump_generation_tx now params) Q (\<lambda>_. True) db"
    unfolding enqueue_and_bump_generation_tx_def wp_bind
  proof (rule wp_advance_generation [OF inv_refl [OF wf]])
    fix params' :: enqueue_params and fs
    assume "\<And>g. g \<in> set (db_files db) \<Longrightarrow> f_path_key g = path_key (ep_path params) \<Longrightarrow>
        ep_op params \<noteq> TaskOpRelocate \<or> ep_old_path params = None \<Longrightarrow>
        bump_row g \<in> set fs \<and> ep_file_id params' = Some (f_id g)"
      and i: "tx_inv db (db\<lparr>db_files := fs\<rparr>)"
    then have b: "bump_row f \<in> set fs" using f op by blast
    show "wp (enqueue_tx now params') Q (\<lambda>_. True) (db\<lparr>db_files := fs\<rparr>)"
      by (rule wp_enqueue_tx [OF i]) (auto intro!: Q simp: b)
  qed simp
qed

text \<open>
  an event on a catalogued path advances the fence: after it, no completion for the file
  with the generation the catalog had before (or an older one) can succeed, whichever task it names.
\<close>

theorem event_fences_older_leases:
  assumes "db_wf db" and "fst (enqueue_and_bump_generation now params db) = Inr r"
    and "f \<in> set (db_files db)" and "f_path_key f = path_key (ep_path params)"
    and "ep_op params \<noteq> TaskOpRelocate"
    and "cp_file_id late = f_id f" and "cp_generation late \<le> f_generation f"
  shows "fst (complete_task later late (snd (enqueue_and_bump_generation now params db))) \<noteq> Inr ()"
proof
  assume ok: "fst (complete_task later late (snd (enqueue_and_bump_generation now params db))) = Inr ()"
  have "db_wf (snd (enqueue_and_bump_generation now params db))"
    using event.safe(1) [OF assms(1)] by (simp add: enqueue_and_bump_generation_def)
  from completion_generation [OF this ok event_bumps_the_catalog [OF assms(1-5)]] assms(6,7)
  show False by simp
qed

theorem event_fences_older_leases_witness:
  "fst (complete_task 30 (completion 1)
     (snd (enqueue_and_bump_generation 20 (event_on ''/w/a'') leased_db))) \<noteq> Inr ()"
proof (rule event_fences_older_leases [OF example_dbs_wf(1)])
  show "fst (enqueue_and_bump_generation 20 (event_on ''/w/a'') leased_db) =
      Inr (projr (fst (enqueue_and_bump_generation 20 (event_on ''/w/a'') leased_db)))" by code_simp
  have "db_files leased_db \<noteq> []" by code_simp
  then show "hd (db_files leased_db) \<in> set (db_files leased_db)" by simp
qed code_simp+

text \<open>
  a retry that reports success moves the lease to \<open>retry_wait\<close> until its next attempt, keeps
  its generation, and accounts for it: a failed execution counts exactly once
  (\<open>FailureAttempts\<close>), whether or not the lease was free, and a dispatch retry gives back what
  the claim charged and leaves the histories alone.
\<close>

definition lease_of :: "int \<Rightarrow> db \<Rightarrow> task \<Rightarrow> bool" where
  "lease_of i db t \<longleftrightarrow> t \<in> set (db_tasks db) \<and> t_id t = i \<and> t_state t = TaskStateInFlight"

definition retried :: "bool \<Rightarrow> int \<Rightarrow> task \<Rightarrow> task \<Rightarrow> bool" where
  "retried refund next_attempt t u \<longleftrightarrow>
     t_id u = t_id t \<and> t_state u = TaskStateRetryWait \<and> t_next_attempt_at u = next_attempt \<and>
     t_generation u = t_generation t \<and>
     (if refund then t_attempts u = t_attempts t - t_charge t \<and> t_attempts_log u = t_attempts_log t
      else t_attempts u = failure_attempts t)"

lemma failure_attempts_settled:
  "task_ok t \<Longrightarrow> t_state t = TaskStateInFlight \<Longrightarrow> failure_attempts t = settled t + 1"
  by (auto simp: failure_attempts_def settled_def task_ok_def)

lemma retry_accounting:
  assumes "db_wf db" and "fst (with_tx (mark_retry_tx now i next_attempt err refund) db) = Inr ()"
  shows "\<exists>t u. lease_of i db t \<and> u \<in> set (db_tasks (snd (with_tx (mark_retry_tx now i next_attempt err refund) db))) \<and>
     retried refund next_attempt t u"
  using assms(2)
proof (rule with_tx_postI)
  fix Q :: "unit \<Rightarrow> db \<Rightarrow> bool"
  assume Q: "\<And>y db'. \<exists>t u. lease_of i db t \<and> u \<in> set (db_tasks db') \<and> retried refund next_attempt t u \<Longrightarrow> Q y db'"
  show "wp (mark_retry_tx now i next_attempt err refund) Q (\<lambda>_. True) db"
  proof (rule wp_mark_retry_tx [OF inv_refl [OF assms(1)] TrueI], goal_cases)
    case (1 t t' us)
    have "task_ok t" using assms(1) 1(1) by (auto simp: db_wf_def tasks_wf_def)
    then have "retried refund next_attempt t t'"
      using 1 failure_attempts_settled [of t] transition_new [OF 1(4)]
      by (auto simp: retried_def settled_def)
    then show ?case using 1 transition_new [OF 1(4)] by (intro Q) (auto simp: lease_of_def)
  qed
qed

theorem retry_counts_each_failure_once:
  assumes "db_wf db"
    and "fst ((if refund then mark_dispatch_retry else mark_retry) now i next_attempt err db) = Inr ()"
  shows "\<exists>t u. lease_of i db t \<and> retried refund next_attempt t u \<and>
    u \<in> set (db_tasks (snd ((if refund then mark_dispatch_retry else mark_retry) now i next_attempt err db)))"
  using retry_accounting [OF assms(1), of now i next_attempt err refund] assms(2)
  by (cases refund) (auto simp: mark_dispatch_retry_def mark_retry_def)

theorem retry_counts_each_failure_once_witness:
  "\<exists>u. u \<in> set (db_tasks (snd (mark_retry 20 1 99 ''io'' leased_db))) \<and> t_state u = TaskStateRetryWait"
proof -
  have "fst ((if False then mark_dispatch_retry else mark_retry) 20 1 99 ''io'' leased_db) = Inr ()"
    by code_simp
  from retry_counts_each_failure_once [OF example_dbs_wf(1) this] show ?thesis
    by (auto simp: retried_def)
qed

text \<open>
  C5: parking a batch on a dependency is all or nothing, and free: when it succeeds every named
  lease waits with the attempts it had before its claim, and the next claim of it costs nothing.
\<close>

theorem parking_is_free:
  assumes "db_wf db" and "fst (mark_waiting_dep_batch now ids err db) = Inr ()" and "i \<in> set ids"
  shows "\<exists>t u. lease_of i db t \<and> u \<in> set (db_tasks (snd (mark_waiting_dep_batch now ids err db))) \<and>
     t_id u = i \<and> t_state u = TaskStateWaitingDep \<and> t_generation u = t_generation t \<and>
     t_attempts u = t_attempts t - t_charge t \<and> t_attempts (claimed_row later u) = t_attempts u"
proof -
  have ids: "ids \<noteq> []" "validate_dependency_batch {} ids = Inr ()"
    using assms(2) by (auto simp: mark_waiting_dep_batch_def split: if_splits sum.splits)
  then have d: "distinct ids" by (blast dest: validate_dependency_batch_distinct)
  have eq: "mark_waiting_dep_batch now ids err db = with_tx (mark_waiting_dep_batch_tx now ids err) db"
    using ids by (simp add: mark_waiting_dep_batch_def)
  show ?thesis
    using assms(2) unfolding eq
  proof (rule with_tx_postI)
    fix Q :: "unit \<Rightarrow> db \<Rightarrow> bool"
    assume Q: "\<And>y db'. \<exists>t u. lease_of i db t \<and> u \<in> set (db_tasks db') \<and>
       t_id u = i \<and> t_state u = TaskStateWaitingDep \<and> t_generation u = t_generation t \<and>
       t_attempts u = t_attempts t - t_charge t \<and> t_attempts (claimed_row later u) = t_attempts u \<Longrightarrow> Q y db'"
    show "wp (mark_waiting_dep_batch_tx now ids err) Q (\<lambda>_. True) db"
    proof (rule wp_mark_waiting_dep_batch_tx [OF inv_refl [OF assms(1)] TrueI d], goal_cases)
      case (1 us)
      then obtain t u where "t \<in> set (db_tasks db)" "u \<in> set us" "t_id t = i" "t_id u = i"
        "t_state t = TaskStateInFlight" "t_state u = TaskStateWaitingDep" "t_generation u = t_generation t"
        "t_charge u = 0" "settled u = settled t" using assms(3) by blast
      then show ?case by (intro Q exI [of _ t] exI [of _ u]) (simp add: lease_of_def settled_def claimed_row_def)
    qed
  qed
qed

theorem parking_is_free_witness:
  "\<exists>u. u \<in> set (db_tasks (snd (mark_waiting_dep_batch 20 [1] ''down'' leased_db))) \<and>
     t_id u = 1 \<and> t_state u = TaskStateWaitingDep"
proof -
  have "fst (mark_waiting_dep_batch 20 [1] ''down'' leased_db) = Inr ()" by code_simp
  from parking_is_free [OF example_dbs_wf(1) this, of 1] show ?thesis by auto
qed

text \<open>
  C6: a release loses no work: every row it selects (for \<open>retry_wait\<close> only rows that are due)
  has afterwards a pending row of its path with its generation or a newer one, and every queued
  path keeps a row of at least its generation.
\<close>

theorem release_keeps_the_work:
  fixes dep :: bool
  defines "release \<equiv> (if dep then release_waiting_dep else release_retry_wait)"
    and "st \<equiv> (if dep then TaskStateWaitingDep else TaskStateRetryWait)"
  assumes "db_wf db" and "fst (release now limit db) = Inr n"
  shows "work_le (db_tasks db) (db_tasks (snd (release now limit db))) \<and>
    (\<exists>cs. cs = release_candidates st now limit (db_tasks db) \<and> n = length cs \<and> n \<le> list_limit limit \<and>
     (\<forall>c\<in>set cs. t_state c = st \<and> (\<not> dep \<longrightarrow> t_next_attempt_at c \<le> now) \<and>
       (\<exists>p\<in>set (db_tasks (snd (release now limit db))).
          t_slot p = (t_path_key c, TaskStatePending) \<and> t_generation c \<le> t_generation p)))"
proof -
  let ?due = "if dep then 0 else now"
  let ?cs = "release_candidates st ?due limit (db_tasks db)"
  have wf: "tasks_wf (db_tasks db)" using assms(3) by (simp add: db_wf_def)
  have rel: "release now limit = with_tx (release_to_pending_tx now st ?due limit)"
    by (simp add: release_def st_def release_waiting_dep_def release_retry_wait_def)
  have cs: "?cs = release_candidates st now limit (db_tasks db)"
    by (simp add: st_def release_candidates_def)
  have "n = length ?cs \<and> work_le (db_tasks db) (db_tasks (snd (release now limit db))) \<and>
      (\<forall>c\<in>set ?cs. \<exists>p\<in>set (db_tasks (snd (release now limit db))).
        t_slot p = (t_path_key c, TaskStatePending) \<and> t_generation c \<le> t_generation p)"
    using assms(4) unfolding rel
    by (rule with_tx_postI) (rule wp_release_to_pending_tx [OF inv_refl [OF assms(3)]], simp_all add: st_def)
  moreover have "\<forall>c\<in>set ?cs. t_state c = st \<and> (\<not> dep \<longrightarrow> t_next_attempt_at c \<le> now)"
    and "length ?cs \<le> list_limit limit"
    using release_candidates_props(1,3) [OF wf, of st ?due limit] by (auto simp: st_def)
  ultimately show ?thesis unfolding cs by simp
qed

definition parked_db :: db where
  "parked_db = run_ops (leased_ops @ [OpMarkRetry 20 1 99 ''io''])"

lemma parked_db_wf: "db_wf parked_db"
  unfolding parked_db_def by (rule run_ops_wf) (simp add: leased_ops_def admissible_def)

theorem release_keeps_the_work_witness:
  "fst (release_retry_wait 98 5 parked_db) = Inr 0 \<and> fst (release_retry_wait 99 5 parked_db) = Inr 1 \<and>
   work_le (db_tasks parked_db) (db_tasks (snd (release_retry_wait 99 5 parked_db)))"
proof -
  have r: "fst (release_retry_wait 98 5 parked_db) = Inr 0" "fst (release_retry_wait 99 5 parked_db) = Inr 1"
    by code_simp+
  then have "fst ((if False then release_waiting_dep else release_retry_wait) 99 5 parked_db) = Inr 1" by simp
  from release_keeps_the_work [OF parked_db_wf this] r show ?thesis by simp
qed

section \<open>Deaths, expansion and reconciliation\<close>


definition failure_info :: dead_letter_info where
  "failure_info = \<lparr>di_stage = ''extract'', di_error_class = ''permanent'', di_error_chain = HistEmpty,
     di_attempts_log = HistEmpty, di_extractor_version = Some ''x1'', di_embed_model_version = None\<rparr>"


text \<open>
  C8: expanding a directory task is all or nothing: when it succeeds, every catalogued file
  below the source directory has been fenced (its generation bumped) and has a pending child
  task above its old generation, every child was counted, and the parent is done.
\<close>

theorem directory_expansion_covers_every_child:
  assumes "db_wf db" and "fst (expand_directory_task now i db) = Inr ex"
  shows "expanded db i ex (snd (expand_directory_task now i db))"
proof -
  have eq: "expand_directory_task now i db = with_tx (expand_directory_task_tx now i) db"
    using assms(2) by (auto simp: expand_directory_task_def split: if_splits)
  show ?thesis using assms(2) unfolding eq
    by (rule with_tx_postI) (rule wp_expand_directory_task_tx [OF inv_refl [OF assms(1)] TrueI])
qed

definition directory_db :: db where
  "directory_db = run_ops [OpUpsertFile (file_at ''/w/a'' 1), OpUpsertFile (file_at ''/w/b/c'' 4),
     OpUpsertFile (file_at ''/wx'' 1), OpEnqueue 10 ((event_on ''/w'')\<lparr>ep_op := TaskOpRemove\<rparr>),
     OpClaim 4 11 ClaimAny]"

lemma directory_db_wf: "db_wf directory_db"
  unfolding directory_db_def by (rule run_ops_wf) (simp add: admissible_def)

theorem directory_expansion_covers_every_child_witness:
  "expanded directory_db 1 \<lparr>ex_matched = 2, ex_inserted = 2, ex_coalesced = 0\<rparr>
     (snd (expand_directory_task 20 1 directory_db))"
proof (rule directory_expansion_covers_every_child [OF directory_db_wf])
  show "fst (expand_directory_task 20 1 directory_db) =
    Inr \<lparr>ex_matched = 2, ex_inserted = 2, ex_coalesced = 0\<rparr>" by code_simp
qed

text \<open>
  C9: removing a watch root fences everything below it, in whatever order Go ranges over its
  groups: every catalogued file below it has a newer pending removal, no work below it stays
  parked, and every lease on an uncatalogued path below it has a pending removal that supersedes it.
\<close>

theorem prefix_removal_fences_the_subtree:
  assumes "db_wf db" and "permutes_groups order"
    and "fst (enqueue_prefix_removals order now dir priority db) = Inr ex"
  shows "\<exists>db'. snd (enqueue_prefix_removals order now dir priority db) = db' \<and>
    fenced dir ((\<lambda>c. path_key (f_path (fst c))) ` set (list_directory_children dir (db_files db))) db' \<and>
    (\<forall>c\<in>set (list_directory_children dir (db_files db)). child_done [] TaskOpRemove priority db' c)"
proof -
  have eq: "enqueue_prefix_removals order now dir priority db =
      with_tx (enqueue_prefix_removals_tx order now dir priority) db"
    using assms(3) by (auto simp: enqueue_prefix_removals_def split: sum.splits if_splits)
  show ?thesis using assms(3) unfolding eq
    by (rule with_tx_postI)
      (rule wp_enqueue_prefix_removals_tx [OF inv_refl [OF assms(1)] TrueI],
        use assms(2) in \<open>auto simp: permutes_groups_def\<close>)
qed

theorem prefix_removal_fences_the_subtree_witness:
  "child_done [] TaskOpRemove 3 (snd (enqueue_prefix_removals rev 20 ''/w'' 3 directory_db))
     (hd (list_directory_children ''/w'' (db_files directory_db)))"
proof -
  have p: "permutes_groups rev" by (simp add: permutes_groups_def)
  have ok: "fst (enqueue_prefix_removals rev 20 ''/w'' 3 directory_db) =
      Inr \<lparr>ex_matched = 2, ex_inserted = 2, ex_coalesced = 0\<rparr>" by code_simp
  have "list_directory_children ''/w'' (db_files directory_db) \<noteq> []" by code_simp
  then have "hd (list_directory_children ''/w'' (db_files directory_db))
      \<in> set (list_directory_children ''/w'' (db_files directory_db))" by simp
  then show ?thesis
    using prefix_removal_fences_the_subtree [OF directory_db_wf p ok] by blast
qed


definition observed :: "int option \<Rightarrow> reconcile_params" where
  "observed generation = \<lparr>rp_path = ''/w/a'', rp_old_path = None, rp_op = TaskOpUpsert,
     rp_observed_file_id = map_option (\<lambda>_. 1) generation, rp_observed_generation = generation,
     rp_priority = 5\<rparr>"


text \<open>
  a lease is retired as superseded only when the catalog or another queue row of the path
  has a strictly newer generation; otherwise the queue is unchanged.
\<close>

theorem retire_needs_a_newer_generation:
  assumes "db_wf db" and "fst (retire_task_if_superseded now i db) = Inr b"
  shows "if b then \<exists>t. lease_of i db t \<and>
      ((\<exists>f\<in>set (db_files db). t_file_id t = Some (f_id f) \<and> t_generation t < f_generation f) \<or>
       (\<exists>u\<in>set (db_tasks db). t_path_key u = t_path_key t \<and> t_id u \<noteq> i \<and> t_generation t < t_generation u)) \<and>
      (\<exists>u\<in>set (db_tasks (snd (retire_task_if_superseded now i db))). t_id u = i \<and> t_state u = TaskStateDone)
    else db_tasks (snd (retire_task_if_superseded now i db)) = db_tasks db"
proof -
  let ?R = "\<lambda>b db'. if b then \<exists>t. lease_of i db t \<and>
      ((\<exists>f\<in>set (db_files db). t_file_id t = Some (f_id f) \<and> t_generation t < f_generation f) \<or>
       (\<exists>u\<in>set (db_tasks db). t_path_key u = t_path_key t \<and> t_id u \<noteq> i \<and> t_generation t < t_generation u)) \<and>
      (\<exists>u\<in>set (db_tasks db'). t_id u = i \<and> t_state u = TaskStateDone)
    else db_tasks db' = db_tasks db"
  show ?thesis using assms(2) unfolding retire_task_if_superseded_def
  proof (rule with_tx_postI [where R = ?R])
    fix Q :: "bool \<Rightarrow> db \<Rightarrow> bool"
    assume Q: "\<And>y t. ?R y t \<Longrightarrow> Q y t"
    show "wp (retire_task_if_superseded_tx now i) Q (\<lambda>_. True) db"
    proof (rule wp_retire_task_if_superseded_tx [OF inv_refl [OF assms(1)] TrueI], goal_cases)
      case (1 b us)
      then show ?case by (cases b) (rule Q, fastforce simp: lease_of_def, rule Q, simp)
    qed
  qed
qed

theorem retire_needs_a_newer_generation_witness:
  "db_tasks (snd (retire_task_if_superseded 20 1 leased_db)) = db_tasks leased_db \<and>
   (\<exists>u\<in>set (db_tasks (snd (retire_task_if_superseded 20 1 raced_db))). t_id u = 1 \<and> t_state u = TaskStateDone)"
proof -
  have "fst (retire_task_if_superseded 20 1 leased_db) = Inr False"
    and "fst (retire_task_if_superseded 20 1 raced_db) = Inr True" by code_simp+
  from retire_needs_a_newer_generation [OF example_dbs_wf(1) this(1)]
    retire_needs_a_newer_generation [OF example_dbs_wf(2) this(2)]
  show ?thesis by auto
qed

section \<open>Recovery\<close>

text \<open>
  C11: opening a database that was not shut down cleanly leaves no task in flight: every crashed
  lease is pending again, or dead on its second crash, with its crash counted, unless a newer row
  of its path had taken that place; no queued path loses its newest generation; and the marker is
  cleared.
\<close>

theorem crash_recovery_resolves_every_lease:
  assumes "db_wf db" and "db_meta db clean_shutdown_key \<noteq> Some ''true''"
    and "fst (begin_startup now db) = Inr res"
  shows "recovered_all db (snd (begin_startup now db)) \<and>
    db_meta (snd (begin_startup now db)) clean_shutdown_key = Some ''false''"
  using assms(3) unfolding begin_startup_def
  by (rule with_tx_postI)
    (rule wp_begin_startup_tx [OF inv_refl [OF assms(1)] TrueI], use assms(2) in simp)

definition crashed_db :: db where
  "crashed_db = run_ops (OpBeginStartup 1 # leased_ops)"

lemma crashed_db_wf: "db_wf crashed_db"
  unfolding crashed_db_def by (rule run_ops_wf) (simp add: leased_ops_def admissible_def)

theorem crash_recovery_resolves_every_lease_witness:
  "recovered_all crashed_db (snd (begin_startup 30 crashed_db)) \<and>
   map t_state (db_tasks (snd (begin_startup 30 crashed_db))) = [TaskStatePending]"
proof -
  have m: "db_meta crashed_db clean_shutdown_key \<noteq> Some ''true''" by code_simp
  have "fst (begin_startup 30 crashed_db) = Inr (projr (fst (begin_startup 30 crashed_db)))" by code_simp
  note spec = crash_recovery_resolves_every_lease [OF crashed_db_wf m this]
  show ?thesis by (intro conjI, rule conjunct1 [OF spec]) code_simp
qed

text \<open>
  redriving is transactional: the redriven dead letters, taken in order from the selection,
  are gone, each has a pending task on its path, and one redrive event per letter was appended
  to the audit outbox.
\<close>

theorem redrive_moves_letters_to_the_queue:
  assumes "db_wf db"
    and "fst (redrive_dead_letters_with_source now ids class priority source db) = Inr results"
  shows "\<exists>ds. set ds \<subseteq> set (db_dead db) \<and>
    redriven ds results db (snd (redrive_dead_letters_with_source now ids class priority source db))"
proof -
  have eq: "redrive_dead_letters_with_source now ids class priority source db =
      with_tx (redrive_selected_tx now ids class priority source) db"
    using assms(2) by (auto simp: redrive_dead_letters_with_source_def split: if_splits)
  show ?thesis using assms(2) unfolding eq
    by (rule with_tx_postI) (rule wp_redrive_selected_tx [OF inv_refl [OF assms(1)] TrueI], blast)
qed

definition dead_db :: db where
  "dead_db = run_ops (leased_ops @ [OpMarkDead 20 1 failure_info ''pipeline''])"

lemma dead_db_wf: "db_wf dead_db"
  unfolding dead_db_def by (rule run_ops_wf) (simp add: leased_ops_def admissible_def)

theorem redrive_moves_letters_to_the_queue_witness:
  "\<exists>results ds. fst (redrive_dead_letters_with_source 30 [1] [] 0 ''manual'' dead_db) = Inr results \<and>
     length results = 1 \<and>
     redriven ds results dead_db (snd (redrive_dead_letters_with_source 30 [1] [] 0 ''manual'' dead_db))"
proof -
  let ?r = "projr (fst (redrive_dead_letters_with_source 30 [1] [] 0 ''manual'' dead_db))"
  have ok: "fst (redrive_dead_letters_with_source 30 [1] [] 0 ''manual'' dead_db) = Inr ?r" by code_simp
  have "length ?r = 1" by code_simp
  then show ?thesis using redrive_moves_letters_to_the_queue [OF dead_db_wf ok] ok by blast
qed

section \<open>Reads\<close>

text \<open>
  reading a prefix page by page, each page starting after the last path of the one before,
  ends and returns every file of the prefix exactly once in key order: one page more than there
  are files is enough.
\<close>

theorem paging_is_complete:
  assumes "files_wf (db_files db)" and "\<forall>f\<in>set (db_files db). f_path f \<noteq> []"
  shows "stream_pages (Suc (length (db_files db))) db pre [] limit = Some (prefix_listing db pre)"
  by (rule stream_pages_complete [OF assms])

theorem paging_is_complete_witness:
  "map f_path (prefix_listing directory_db ''/w'') = [''/w/a'', ''/w/b/c''] \<and>
   stream_pages 4 directory_db ''/w'' [] 1 = Some (prefix_listing directory_db ''/w'')"
proof -
  have wf: "files_wf (db_files directory_db)" using directory_db_wf by (simp add: db_wf_def)
  have paths: "\<forall>f\<in>set (db_files directory_db). f_path f \<noteq> []" by code_simp
  have len: "length (db_files directory_db) = 3" by code_simp
  have "map f_path (prefix_listing directory_db ''/w'') = [''/w/a'', ''/w/b/c'']" by code_simp
  then show ?thesis using paging_is_complete [OF wf paths, of "''/w''" 1] by (simp add: len)
qed

text \<open>
  the three tests of the code for \<open>p lies below the directory d\<close> agree on an absolute
  directory: the debouncer's prefix test and the scheduler's are the specification on path
  components, and the store's is the same without the directory itself.
\<close>

theorem containment_tests_agree:
  assumes "rooted d"
  shows "path_within_prefix p d = under d p \<and> path_within (normalize_path d) (normalize_path p) = under d p \<and>
    inside_directory d p = (under d p \<and> clean p \<noteq> clean d)"
proof -
  have "inside_directory d p = (rooted p \<and> strict_prefix (clean_comps d) (clean_comps p))"
    by (simp add: inside_directory_def directory_relative_spec [OF assms])
  also have "\<dots> = (under d p \<and> clean p \<noteq> clean d)"
    using assms by (auto simp: under_def clean_eq_iff strict_prefix_def)
  finally show ?thesis
    using assms by (simp add: path_within_prefix_under path_within_under normalize_path_def)
qed

theorem containment_tests_agree_witness:
  "inside_directory ''/w/'' ''/w/./a'' = (under ''/w/'' ''/w/./a'' \<and> clean ''/w/./a'' \<noteq> clean ''/w/'') \<and>
   under ''/w/'' ''/w/./a'' \<and> \<not> under ''/w'' ''/wx''"
proof -
  have r: "rooted ''/w/''" by code_simp
  have "under ''/w/'' ''/w/./a''" "\<not> under ''/w'' ''/wx''" by code_simp+
  then show ?thesis using containment_tests_agree [OF r] by blast
qed

end
