(* ===== verification/Scheduler.thy ===== *)
theory Scheduler
  imports Store_System Complex_Main
begin

text \<open>
  The scheduler, \<open>internal/scheduler/scheduler.go\<close>: it claims durable work, keeps tasks with
  overlapping paths from running together, and shares its capacity between fresh and retried
  work.  The store is reached through the consumer-side interface \<open>Store\<close> (the record
  \<open>work_ops\<close>); \<open>Run\<close> is a loop over a state that only it changes, and is modelled by its
  iterations and by the events its \<open>select\<close> receives.

  Times are milliseconds.  \<open>float64\<close> credit is an exact rational: the rounding that the code's
  \<open>retryCreditEpsilon\<close> absorbs is not there, the epsilon is.  \<open>errors.Join\<close> is the list of its
  errors, \<open>nil\<close> the empty one.
\<close>

section \<open>Interface to the store\<close>

text \<open>A context is live, cancelled, or detached from a cancelled one for a last attempt.\<close>

datatype context_state = CtxLive | CtxCancelled | CtxDetached

datatype retry_source = SrcFresh | SrcRetry

record ('e, 's) work_ops =
  wo_claim :: "context_state \<Rightarrow> retry_source \<Rightarrow> int \<Rightarrow> int \<Rightarrow> 's \<Rightarrow> ('e + task list) \<times> 's"
  wo_dispatch_retry :: "context_state \<Rightarrow> int \<Rightarrow> int \<Rightarrow> int \<Rightarrow> string \<Rightarrow> 's \<Rightarrow> ('e + unit) \<times> 's"
  wo_release_retry_wait :: "context_state \<Rightarrow> int \<Rightarrow> int \<Rightarrow> 's \<Rightarrow> ('e + nat) \<times> 's"

datatype 'e sched_error =
  SchedClaim 'e | SchedRetryTask int 'e | SchedRelease 'e | ErrUnsupportedTask string
| ErrAlreadyRun | ErrNilStore | ErrInvalidOutput | ErrInvalidConfig

section \<open>Configuration\<close>

record sched_config =
  sg_batch_size :: int
  sg_retry_release_limit :: int
  sg_retry_budget_ratio :: rat
  sg_tick_interval :: int
  sg_conflict_delay :: int

definition or_default :: "'a::zero \<Rightarrow> 'a \<Rightarrow> 'a" where
  "or_default d x = (if x = 0 then d else x)"

definition sched_with_defaults :: "sched_config \<Rightarrow> 'e sched_error + sched_config" where
  "sched_with_defaults c =
     (if sg_batch_size c < 0 \<or> sg_retry_release_limit c < 0 \<or> sg_tick_interval c < 0 \<or>
         sg_conflict_delay c < 0 \<or> sg_retry_budget_ratio c < 0 \<or> sg_retry_budget_ratio c \<ge> 1
      then Inl ErrInvalidConfig
      else Inr \<lparr>sg_batch_size = or_default 64 (sg_batch_size c),
                sg_retry_release_limit = or_default 1000 (sg_retry_release_limit c),
                sg_retry_budget_ratio = or_default (1 / 5) (sg_retry_budget_ratio c),
                sg_tick_interval = or_default 500 (sg_tick_interval c),
                sg_conflict_delay = or_default 200 (sg_conflict_delay c)\<rparr>)"

section \<open>The retry budget\<close>

record retry_budget =
  rb_ratio :: rat
  rb_credit :: rat

definition retry_credit_epsilon :: rat where
  "retry_credit_epsilon = 1 / 1000000000000"

definition new_retry_budget :: "rat \<Rightarrow> retry_budget" where
  "new_retry_budget ratio = \<lparr>rb_ratio = ratio, rb_credit = 0\<rparr>"

definition can_retry :: "retry_budget \<Rightarrow> bool" where
  "can_retry b \<longleftrightarrow> rb_credit b + retry_credit_epsilon \<ge> 1 - rb_ratio b"

definition record_fresh :: "retry_budget \<Rightarrow> retry_budget" where
  "record_fresh b = b\<lparr>rb_credit := min 1 (rb_credit b + rb_ratio b)\<rparr>"

definition record_retry :: "retry_budget \<Rightarrow> retry_budget" where
  "record_retry b =
     (let c = rb_credit b - (1 - rb_ratio b)
      in b\<lparr>rb_credit := (if c < retry_credit_epsilon then 0 else c)\<rparr>)"

fun plan_steps :: "nat \<Rightarrow> retry_budget \<Rightarrow> retry_source list \<times> retry_budget" where
  "plan_steps 0 b = ([], b)"
| "plan_steps (Suc n) b =
     (let (s, b') = (if can_retry b then (SrcRetry, record_retry b) else (SrcFresh, record_fresh b));
          (rest, b'') = plan_steps n b'
      in (s # rest, b''))"

text \<open>The method has a value receiver: the caller's budget is not changed by planning.\<close>

definition plan :: "retry_budget \<Rightarrow> int \<Rightarrow> retry_source list" where
  "plan b limit = fst (plan_steps (nat limit) b)"

section \<open>Path scopes\<close>

datatype route = RouteUpsert | RouteRemove | RouteRelocate

definition route_for :: "task_op \<Rightarrow> 'e sched_error + route" where
  "route_for op = (case op of
     TaskOpUpsert \<Rightarrow> Inr RouteUpsert
   | TaskOpRemove \<Rightarrow> Inr RouteRemove
   | TaskOpRelocate \<Rightarrow> Inr RouteRelocate
   | TaskOpInvalid s \<Rightarrow> Inl (ErrUnsupportedTask s))"

record path_scope =
  ps_exact :: "string list"
  ps_prefixes :: "string list"

definition scope_for :: "task \<Rightarrow> path_scope" where
  "scope_for t =
     (let paths = map normalize_path (t_path t #
            (if t_op t = TaskOpRelocate then (case t_old_path t of None \<Rightarrow> [] | Some p \<Rightarrow> [p]) else []))
      in if t_file_id t = None \<and> (t_op t = TaskOpRemove \<or> t_op t = TaskOpRelocate)
         then \<lparr>ps_exact = [], ps_prefixes = paths\<rparr> else \<lparr>ps_exact = paths, ps_prefixes = []\<rparr>)"

definition scopes_overlap :: "path_scope \<Rightarrow> path_scope \<Rightarrow> bool" where
  "scopes_overlap l r \<longleftrightarrow>
     (\<exists>a\<in>set (ps_exact l). (\<exists>b\<in>set (ps_exact r). a = b) \<or> (\<exists>p\<in>set (ps_prefixes r). path_within p a)) \<or>
     (\<exists>p\<in>set (ps_prefixes l). (\<exists>e\<in>set (ps_exact r). path_within p e) \<or>
        (\<exists>q\<in>set (ps_prefixes r). path_within p q \<or> path_within q p))"

text \<open>The set of in-flight tasks, a Go map from task id to scope.\<close>

type_synonym in_flight_set = "(int \<times> path_scope) list"

definition conflicts :: "path_scope \<Rightarrow> in_flight_set \<Rightarrow> bool" where
  "conflicts candidate active \<longleftrightarrow> (\<exists>e\<in>set active. scopes_overlap candidate (snd e))"

definition add_in_flight :: "int \<Rightarrow> path_scope \<Rightarrow> in_flight_set \<Rightarrow> in_flight_set" where
  "add_in_flight i sc active = (i, sc) # filter (\<lambda>e. fst e \<noteq> i) active"

definition delete_in_flight :: "int \<Rightarrow> in_flight_set \<Rightarrow> in_flight_set" where
  "delete_in_flight i active = filter (\<lambda>e. fst e \<noteq> i) active"

section \<open>Giving work back\<close>

definition retry_conflict ::
    "('e, 's) work_ops \<Rightarrow> sched_config \<Rightarrow> context_state \<Rightarrow> task \<Rightarrow> int \<Rightarrow> string \<Rightarrow> 's \<Rightarrow>
     'e sched_error list \<times> 's" where
  "retry_conflict ops cfg ctx t now reason s =
     (let next_at = now + sg_conflict_delay cfg;
          (r, s1) = wo_dispatch_retry ops ctx now (t_id t) next_at reason s;
          (r', s2) = (case r of
             Inl e \<Rightarrow> if ctx = CtxCancelled then wo_dispatch_retry ops CtxDetached now (t_id t) next_at reason s1
                      else (Inl e, s1)
           | Inr u \<Rightarrow> (Inr u, s1))
      in case r' of Inl e \<Rightarrow> ([SchedRetryTask (t_id t) e], s2) | Inr _ \<Rightarrow> ([], s2))"

fun refund_claimed ::
    "('e, 's) work_ops \<Rightarrow> sched_config \<Rightarrow> context_state \<Rightarrow> task list \<Rightarrow> int \<Rightarrow> string \<Rightarrow> 's \<Rightarrow>
     'e sched_error list \<times> 's" where
  "refund_claimed ops cfg ctx [] now reason s = ([], s)"
| "refund_claimed ops cfg ctx (t # ts) now reason s =
     (let (es, s1) = retry_conflict ops cfg ctx t now reason s;
          (es', s2) = refund_claimed ops cfg ctx ts now reason s1
      in (es @ es', s2))"

section \<open>Claiming\<close>

definition claim_work ::
    "('e, 's) work_ops \<Rightarrow> sched_config \<Rightarrow> context_state \<Rightarrow> retry_source \<Rightarrow> int \<Rightarrow> int \<Rightarrow> 's \<Rightarrow>
     (task list \<times> 'e sched_error list) \<times> 's" where
  "claim_work ops cfg ctx source limit now s =
     (if limit \<le> 0 then (([], []), s)
      else
        (let (r, s1) = wo_claim ops ctx source limit now s
         in case r of
              Inl e \<Rightarrow> (([], [SchedClaim e]), s1)
            | Inr ts \<Rightarrow>
                if int (length ts) \<le> limit then ((ts, []), s1)
                else
                  (let (es, s2) = refund_claimed ops cfg ctx (drop (nat limit) ts) now
                         ''claim exceeded requested batch'' s1
                   in ((take (nat limit) ts, es), s2))))"

text \<open>\<open>orderClaimed\<close>: along the plan, each source standing in for the other when it is used up.\<close>

definition tagged :: "retry_source \<Rightarrow> task list \<Rightarrow> (task \<times> retry_source) list" where
  "tagged src ts = map (\<lambda>t. (t, src)) ts"

fun order_claimed :: "retry_source list \<Rightarrow> task list \<Rightarrow> task list \<Rightarrow> (task \<times> retry_source) list" where
  "order_claimed [] fresh retries = tagged SrcFresh fresh @ tagged SrcRetry retries"
| "order_claimed (s # ss) [] [] = []"
| "order_claimed (s # ss) (f # fs) [] = (f, SrcFresh) # order_claimed ss fs []"
| "order_claimed (s # ss) [] (r # rs) = (r, SrcRetry) # order_claimed ss [] rs"
| "order_claimed (s # ss) (f # fs) (r # rs) =
     (case s of
        SrcFresh \<Rightarrow> (f, SrcFresh) # order_claimed ss fs (r # rs)
      | SrcRetry \<Rightarrow> (r, SrcRetry) # order_claimed ss (f # fs) rs)"

record claimed_batch =
  cb_tasks :: "(task \<times> retry_source) list"
  cb_fresh_exhausted :: bool

definition empty_batch :: claimed_batch where
  "empty_batch = \<lparr>cb_tasks = [], cb_fresh_exhausted = False\<rparr>"

definition claim_ready ::
    "('e, 's) work_ops \<Rightarrow> sched_config \<Rightarrow> context_state \<Rightarrow> int \<Rightarrow> int \<Rightarrow> retry_budget \<Rightarrow> 's \<Rightarrow>
     (claimed_batch \<times> 'e sched_error list) \<times> 's" where
  "claim_ready ops cfg ctx limit now budget s =
     (let pl = plan budget limit;
          fresh_target = int (length (filter (\<lambda>x. x = SrcFresh) pl));
          retry_target0 = int (length pl) - fresh_target;
          ((fresh, err1), s1) = claim_work ops cfg ctx SrcFresh fresh_target now s
      in if err1 \<noteq> [] then
           (let (es, s2) = refund_claimed ops cfg ctx fresh now ''fresh-source claim cleanup'' s1
            in ((empty_batch, err1 @ es), s2))
         else
           (let exhausted = (int (length fresh) < fresh_target);
                retry_target = retry_target0 + (fresh_target - int (length fresh));
                ((retries, err2), s2) = claim_work ops cfg ctx SrcRetry retry_target now s1
            in if err2 \<noteq> [] then
                 (let (es, s3) = refund_claimed ops cfg ctx (fresh @ retries) now
                        ''retry-source claim cleanup'' s2
                  in ((empty_batch, err2 @ es), s3))
               else
                 (let remaining = limit - int (length fresh) - int (length retries)
                  in if remaining > 0 \<and> \<not> exhausted then
                       (let ((extra, err3), s3) = claim_work ops cfg ctx SrcFresh remaining now s2
                        in if err3 \<noteq> [] then
                             (let (es, s4) = refund_claimed ops cfg ctx (fresh @ retries @ extra) now
                                    ''fresh-source fallback claim cleanup'' s3
                              in ((empty_batch, err3 @ es), s4))
                           else
                             ((\<lparr>cb_tasks = order_claimed pl (fresh @ extra) retries,
                                cb_fresh_exhausted = (int (length extra) < remaining)\<rparr>, []), s3))
                     else
                       ((\<lparr>cb_tasks = order_claimed pl fresh retries,
                          cb_fresh_exhausted = exhausted\<rparr>, []), s2))))"

section \<open>Dispatching\<close>

record lease =
  ls_task :: task
  ls_route :: route

text \<open>
  What the loop owns (\<open>Run\<close>'s locals), the output channel with its capacity, and the store.
\<close>

record 's scheduler =
  sc_store :: 's
  sc_in_flight :: in_flight_set
  sc_budget :: retry_budget
  sc_release_due :: bool
  sc_output :: "lease list"
  sc_capacity :: nat

definition send_lease :: "task \<Rightarrow> route \<Rightarrow> retry_source \<Rightarrow> bool \<Rightarrow> 's scheduler \<Rightarrow> 's scheduler" where
  "send_lease t rt source budgeted st = st\<lparr>
     sc_in_flight := add_in_flight (t_id t) (scope_for t) (sc_in_flight st),
     sc_budget := (if source = SrcFresh then record_fresh (sc_budget st)
                   else if budgeted then record_retry (sc_budget st) else sc_budget st),
     sc_output := sc_output st @ [\<lparr>ls_task = t, ls_route = rt\<rparr>]\<rparr>"

text \<open>The text of the error of an unsupported operation, the reason its task is given back.\<close>

definition unsupported_text :: "task_op \<Rightarrow> string" where
  "unsupported_text op = (case op of
     TaskOpInvalid s \<Rightarrow> ''scheduler: unsupported task operation '' @ CHR 0x22 # s @ [CHR 0x22] | _ \<Rightarrow> [])"

definition hand_back ::
    "('e, 's) work_ops \<Rightarrow> sched_config \<Rightarrow> context_state \<Rightarrow> int \<Rightarrow> task list \<Rightarrow> string \<Rightarrow> 's scheduler \<Rightarrow>
     'e sched_error list \<times> 's scheduler" where
  "hand_back ops cfg ctx now ts reason st =
     (case refund_claimed ops cfg ctx ts now reason (sc_store st) of (es, s) \<Rightarrow> (es, st\<lparr>sc_store := s\<rparr>))"

fun dispatch_claimed ::
    "('e, 's) work_ops \<Rightarrow> sched_config \<Rightarrow> context_state \<Rightarrow> int \<Rightarrow> bool \<Rightarrow> (task \<times> retry_source) list \<Rightarrow>
     's scheduler \<Rightarrow> 'e sched_error list \<times> 's scheduler" where
  "dispatch_claimed ops cfg ctx now exhausted [] st = ([], st)"
| "dispatch_claimed ops cfg ctx now exhausted ((t, source) # rest) st =
     (if source = SrcRetry \<and> \<not> can_retry (sc_budget st) \<and> \<not> exhausted then
        (case hand_back ops cfg ctx now [t] ''retry claim budget exhausted'' st of (es, st1) \<Rightarrow>
           if es \<noteq> [] then
             (case hand_back ops cfg ctx now (map fst rest) ''retry budget failure cleanup'' st1 of
                (es', st2) \<Rightarrow> (es @ es', st2))
           else dispatch_claimed ops cfg ctx now exhausted rest st1)
      else
        (case route_for (t_op t) of
           Inl e \<Rightarrow>
             (case hand_back ops cfg ctx now (t # map fst rest) (unsupported_text (t_op t)) st of
                (es, st1) \<Rightarrow> (e # es, st1))
         | Inr rt \<Rightarrow>
             if conflicts (scope_for t) (sc_in_flight st) then
               (case hand_back ops cfg ctx now [t] ''path is already in flight'' st of (es, st1) \<Rightarrow>
                  if es \<noteq> [] then
                    (case hand_back ops cfg ctx now (map fst rest) ''path-conflict failure cleanup'' st1 of
                       (es', st2) \<Rightarrow> (es @ es', st2))
                  else dispatch_claimed ops cfg ctx now exhausted rest st1)
             else if length (sc_output st) < sc_capacity st then
               dispatch_claimed ops cfg ctx now exhausted rest
                 (send_lease t rt source (source = SrcRetry \<and> can_retry (sc_budget st)) st)
             else
               hand_back ops cfg ctx now (t # map fst rest) ''pipeline input is full''
                 (st\<lparr>sc_in_flight := delete_in_flight (t_id t) (sc_in_flight st)\<rparr>)))"

section \<open>The loop\<close>

text \<open>An iteration of \<open>Run\<close> continues, blocks in its \<open>select\<close>, or stops with errors.\<close>

datatype 'e iteration = IterContinue | IterBlock | IterStop "'e sched_error list"

definition stop_unless_cancelled :: "context_state \<Rightarrow> 'e sched_error list \<Rightarrow> 'e iteration" where
  "stop_unless_cancelled ctx es = (if ctx = CtxCancelled then IterStop [] else IterStop es)"

definition claim_and_dispatch ::
    "('e, 's) work_ops \<Rightarrow> sched_config \<Rightarrow> context_state \<Rightarrow> context_state \<Rightarrow> int \<Rightarrow> int \<Rightarrow> 's scheduler \<Rightarrow>
     'e iteration \<times> 's scheduler" where
  "claim_and_dispatch ops cfg ctx ctx' now now' st =
     (let available = int (sc_capacity st) - int (length (sc_output st))
      in if available > 0 then
           (case claim_ready ops cfg ctx (min available (sg_batch_size cfg)) now (sc_budget st) (sc_store st) of
              ((batch, es), s) \<Rightarrow>
                let st1 = st\<lparr>sc_store := s\<rparr>
                in if es \<noteq> [] then (stop_unless_cancelled ctx es, st1)
                   else if cb_tasks batch \<noteq> [] then
                     (case dispatch_claimed ops cfg ctx' now' (cb_fresh_exhausted batch) (cb_tasks batch) st1 of
                        (es', st2) \<Rightarrow> (if es' \<noteq> [] then IterStop es' else IterContinue, st2))
                   else (IterBlock, st1))
         else (IterBlock, st))"

definition iterate ::
    "('e, 's) work_ops \<Rightarrow> sched_config \<Rightarrow> context_state \<Rightarrow> context_state \<Rightarrow> int \<Rightarrow> int \<Rightarrow> 's scheduler \<Rightarrow>
     'e iteration \<times> 's scheduler" where
  "iterate ops cfg ctx ctx' now now' st =
     (if sc_release_due st then
        (case wo_release_retry_wait ops ctx now (sg_retry_release_limit cfg) (sc_store st) of
           (Inl e, s) \<Rightarrow> (stop_unless_cancelled ctx [SchedRelease e], st\<lparr>sc_store := s\<rparr>)
         | (Inr _, s) \<Rightarrow>
             claim_and_dispatch ops cfg ctx ctx' now now' (st\<lparr>sc_store := s, sc_release_due := False\<rparr>))
      else claim_and_dispatch ops cfg ctx ctx' now now' st)"

text \<open>\<open>New\<close> and the first lines of \<open>Run\<close>.\<close>

definition new_scheduler :: "nat \<Rightarrow> sched_config \<Rightarrow> 'e sched_error + sched_config" where
  "new_scheduler capacity cfg =
     (if capacity = 0 then Inl ErrInvalidOutput else sched_with_defaults cfg)"

definition start_run :: "sched_config \<Rightarrow> nat \<Rightarrow> 's \<Rightarrow> 's scheduler" where
  "start_run cfg capacity s = \<lparr>sc_store = s, sc_in_flight = [],
     sc_budget = new_retry_budget (sg_retry_budget_ratio cfg), sc_release_due = True,
     sc_output = [], sc_capacity = capacity\<rparr>"

text \<open>The events of the \<open>select\<close>, and a consumer receiving the oldest lease.\<close>

datatype sched_event = EvWake | EvCompleted int | EvTick | EvReceive

fun on_event :: "sched_event \<Rightarrow> 's scheduler \<Rightarrow> 's scheduler" where
  "on_event EvWake st = st"
| "on_event (EvCompleted i) st = st\<lparr>sc_in_flight := delete_in_flight i (sc_in_flight st)\<rparr>"
| "on_event EvTick st = st\<lparr>sc_release_due := True\<rparr>"
| "on_event EvReceive st = st\<lparr>sc_output := tl (sc_output st)\<rparr>"

text \<open>
  The states of a run over a store that others write too: \<open>rely\<close> is what their writes may do,
  \<open>may_complete\<close> when a consumer may report a task as completed (the pipeline first persists one
  of the task's final states).  A receive needs a lease in the channel.
\<close>

inductive sched_reaches ::
    "('e, 's) work_ops \<Rightarrow> sched_config \<Rightarrow> ('s \<Rightarrow> 's \<Rightarrow> bool) \<Rightarrow> (int \<Rightarrow> 's \<Rightarrow> bool) \<Rightarrow>
     's scheduler \<Rightarrow> 's scheduler \<Rightarrow> bool" for ops cfg rely may_complete where
  start: "sched_reaches ops cfg rely may_complete st0 st0"
| iterate: "sched_reaches ops cfg rely may_complete st0 st \<Longrightarrow>
    iterate ops cfg ctx ctx' now now' st = (it, st') \<Longrightarrow> it = IterContinue \<or> it = IterBlock \<Longrightarrow>
    sched_reaches ops cfg rely may_complete st0 st'"
| event: "sched_reaches ops cfg rely may_complete st0 st \<Longrightarrow>
    (\<forall>i. e = EvCompleted i \<longrightarrow> may_complete i (sc_store st)) \<Longrightarrow>
    (e = EvReceive \<longrightarrow> sc_output st \<noteq> []) \<Longrightarrow> sched_reaches ops cfg rely may_complete st0 (on_event e st)"
| others: "sched_reaches ops cfg rely may_complete st0 st \<Longrightarrow> rely (sc_store st) s \<Longrightarrow>
    sched_reaches ops cfg rely may_complete st0 (st\<lparr>sc_store := s\<rparr>)"

text \<open>The inner run of the loop: iterations until one blocks or stops, with fuel.\<close>

fun run_until_blocked ::
    "nat \<Rightarrow> ('e, 's) work_ops \<Rightarrow> sched_config \<Rightarrow> (nat \<Rightarrow> context_state \<times> context_state \<times> int \<times> int) \<Rightarrow>
     's scheduler \<Rightarrow> ('e iteration \<times> 's scheduler) option" where
  "run_until_blocked 0 ops cfg clock st = None"
| "run_until_blocked (Suc fuel) ops cfg clock st =
     (case clock fuel of (ctx, ctx', now, now') \<Rightarrow>
        (case iterate ops cfg ctx ctx' now now' st of
           (IterContinue, st') \<Rightarrow> run_until_blocked fuel ops cfg clock st'
         | (it, st') \<Rightarrow> Some (it, st')))"

end
