(* ===== verification/Scheduler_Laws.thy ===== *)
theory Scheduler_Laws
  imports Scheduler
begin

text \<open>
  Facts about the scheduler that do not depend on which store it works on: the retry budget, the
  geometry of path scopes, the in-flight set, and, inside the locale \<open>work_source\<close>, what
  becomes of every claimed task.
\<close>

section \<open>The retry budget\<close>

definition budget_ok :: "retry_budget \<Rightarrow> bool" where
  "budget_ok b \<longleftrightarrow> 0 < rb_ratio b \<and> rb_ratio b < 1 \<and> 0 \<le> rb_credit b \<and> rb_credit b \<le> 1"

definition uses :: "retry_source \<Rightarrow> retry_source list \<Rightarrow> rat" where
  "uses s xs = of_nat (length (filter (\<lambda>x. x = s) xs))"

lemma uses_simps [simp]:
  "uses s [] = 0" "uses s (x # xs) = (if x = s then 1 + uses s xs else uses s xs)"
  by (simp_all add: uses_def)

lemma uses_nonneg: "0 \<le> uses s xs"
  by (simp add: uses_def)

lemma epsilon_pos: "0 < retry_credit_epsilon"
  by (simp add: retry_credit_epsilon_def)

lemma record_fresh_credit:
  assumes "budget_ok b" and "\<not> can_retry b"
  shows "rb_credit (record_fresh b) = rb_credit b + rb_ratio b" and "budget_ok (record_fresh b)"
  using assms epsilon_pos by (auto simp: budget_ok_def can_retry_def record_fresh_def)

lemma record_retry_credit:
  assumes "budget_ok b" and "can_retry b"
  shows "\<bar>rb_credit b - (1 - rb_ratio b) - rb_credit (record_retry b)\<bar> \<le> retry_credit_epsilon"
    and "budget_ok (record_retry b)"
  using assms epsilon_pos by (auto simp: budget_ok_def can_retry_def record_retry_def Let_def)

lemma record_ratio [simp]:
  "rb_ratio (record_fresh b) = rb_ratio b" "rb_ratio (record_retry b) = rb_ratio b"
  by (simp_all add: record_fresh_def record_retry_def Let_def)

lemma plan_steps_Suc [simp]:
  "fst (plan_steps (Suc n) b) =
     (if can_retry b then SrcRetry # fst (plan_steps n (record_retry b))
      else SrcFresh # fst (plan_steps n (record_fresh b)))"
  "snd (plan_steps (Suc n) b) =
     snd (plan_steps n (if can_retry b then record_retry b else record_fresh b))"
  by (simp_all add: Let_def split_beta)

declare plan_steps.simps(2) [simp del]

lemma plan_steps_ratio: "rb_ratio (snd (plan_steps n b)) = rb_ratio b"
  by (induction n arbitrary: b) simp_all

lemma plan_steps_length: "length (fst (plan_steps n b)) = n"
  by (induction n arbitrary: b) simp_all

lemma plan_length [simp]: "length (plan b limit) = nat limit"
  by (simp add: plan_def plan_steps_length)

lemma plan_steps_balance:
  assumes "budget_ok b"
  shows "budget_ok (snd (plan_steps n b)) \<and>
    \<bar>rb_credit b + uses SrcFresh (fst (plan_steps n b)) * rb_ratio b -
      uses SrcRetry (fst (plan_steps n b)) * (1 - rb_ratio b) - rb_credit (snd (plan_steps n b))\<bar>
     \<le> uses SrcRetry (fst (plan_steps n b)) * retry_credit_epsilon"
  using assms
proof (induction n arbitrary: b)
  case 0
  then show ?case by simp
next
  case (Suc n)
  show ?case
  proof (cases "can_retry b")
    case True
    note r = record_retry_credit [OF Suc.prems True]
    show ?thesis using Suc.IH [OF r(2)] r(1) True
      by (simp add: abs_le_iff algebra_simps)
  next
    case False
    note f = record_fresh_credit [OF Suc.prems False]
    show ?thesis using Suc.IH [OF f(2)] f(1) False
      by (simp add: abs_le_iff algebra_simps)
  qed
qed

lemma plan_balance:
  assumes "budget_ok b"
  shows "\<bar>uses SrcRetry (plan b limit) * (1 - rb_ratio b) - uses SrcFresh (plan b limit) * rb_ratio b\<bar>
     \<le> 1 + uses SrcRetry (plan b limit) * retry_credit_epsilon"
  using plan_steps_balance [OF assms, of "nat limit"] assms
  by (auto simp: plan_def budget_ok_def abs_le_iff)

section \<open>Path scopes\<close>

lemma scopes_overlap_sym: "scopes_overlap l r = scopes_overlap r l"
  by (auto simp: scopes_overlap_def)

text \<open>The paths of a task, whether it reserves whole directories, and the territory it reserves.\<close>

definition task_paths :: "task \<Rightarrow> string list" where
  "task_paths t = t_path t #
     (if t_op t = TaskOpRelocate then (case t_old_path t of None \<Rightarrow> [] | Some p \<Rightarrow> [p]) else [])"

definition reserves_directories :: "task \<Rightarrow> bool" where
  "reserves_directories t \<longleftrightarrow> t_file_id t = None \<and> (t_op t = TaskOpRemove \<or> t_op t = TaskOpRelocate)"

definition reserves :: "task \<Rightarrow> string \<Rightarrow> bool" where
  "reserves t x \<longleftrightarrow> (\<exists>p\<in>set (task_paths t).
     if reserves_directories t then under p x else clean p = clean x)"

lemma scope_for_eq:
  "scope_for t = (if reserves_directories t
     then \<lparr>ps_exact = [], ps_prefixes = map clean (task_paths t)\<rparr>
     else \<lparr>ps_exact = map clean (task_paths t), ps_prefixes = []\<rparr>)"
  by (simp add: scope_for_def task_paths_def reserves_directories_def normalize_path_def [abs_def] Let_def)

lemma under_refl: "rooted p \<Longrightarrow> under p p"
  by (simp add: under_def)

lemma under_cong: "clean x = clean y \<Longrightarrow> under d x = under d y"
  by (simp add: under_def clean_eq_iff)

lemma under_comparable:
  assumes "rooted p" and "rooted q"
  shows "(\<exists>x. under p x \<and> under q x) \<longleftrightarrow> under p q \<or> under q p"
proof
  assume "\<exists>x. under p x \<and> under q x"
  then show "under p q \<or> under q p"
    using assms by (auto simp: under_def dest: prefix_same_cases)
next
  assume "under p q \<or> under q p"
  then show "\<exists>x. under p x \<and> under q x" using assms under_refl by blast
qed

text \<open>Two scopes overlap exactly when some path lies in both territories.\<close>

lemma scopes_overlap_territory:
  assumes t: "\<forall>p\<in>set (task_paths t). rooted p" and u: "\<forall>p\<in>set (task_paths u). rooted p"
  shows "scopes_overlap (scope_for t) (scope_for u) \<longleftrightarrow> (\<exists>x. reserves t x \<and> reserves u x)"
proof -
  let ?dt = "reserves_directories t" and ?du = "reserves_directories u"
  have overlap: "scopes_overlap (scope_for t) (scope_for u) \<longleftrightarrow>
      (\<exists>p\<in>set (task_paths t). \<exists>q\<in>set (task_paths u).
         if ?dt then (if ?du then under p q \<or> under q p else under p q)
         else (if ?du then under q p else clean p = clean q))"
    using t u by (auto simp: scope_for_eq scopes_overlap_def path_within_under)
  have exact: "(\<exists>x. under p x \<and> clean q = clean x) \<longleftrightarrow> under p q" for p q
    using under_cong by blast
  have territory: "(\<exists>x. (if ?dt then under p x else clean p = clean x) \<and>
         (if ?du then under q x else clean q = clean x)) \<longleftrightarrow>
      (if ?dt then (if ?du then under p q \<or> under q p else under p q)
         else (if ?du then under q p else clean p = clean q))"
    if "rooted p" "rooted q" for p q
    using under_comparable [OF that] exact [of p q] exact [of q p]
    by (cases ?dt; cases ?du) (auto simp: conj_commute)
  have "(\<exists>x. reserves t x \<and> reserves u x) \<longleftrightarrow>
      (\<exists>p\<in>set (task_paths t). \<exists>q\<in>set (task_paths u). \<exists>x.
         (if ?dt then under p x else clean p = clean x) \<and> (if ?du then under q x else clean q = clean x))"
    unfolding reserves_def by blast
  also have "\<dots> \<longleftrightarrow> scopes_overlap (scope_for t) (scope_for u)"
    unfolding overlap using t u by (intro bex_cong refl territory) simp_all
  finally show ?thesis by simp
qed

section \<open>The in-flight set\<close>

definition free_set :: "in_flight_set \<Rightarrow> bool" where
  "free_set active \<longleftrightarrow> distinct (map fst active) \<and>
     (\<forall>e\<in>set active. \<forall>f\<in>set active. fst e \<noteq> fst f \<longrightarrow> \<not> scopes_overlap (snd e) (snd f))"

lemma free_set_Nil [simp]: "free_set []"
  by (simp add: free_set_def)

lemma free_set_delete: "free_set a \<Longrightarrow> free_set (delete_in_flight i a)"
  by (auto simp: free_set_def delete_in_flight_def distinct_map_filter)

lemma free_set_add:
  assumes a: "free_set a" and c: "\<not> conflicts sc a"
  shows "free_set (add_in_flight i sc a)"
proof -
  have "distinct (map fst (add_in_flight i sc a))"
    using a by (auto simp: free_set_def add_in_flight_def distinct_map_filter)
  moreover have "\<not> scopes_overlap sc (snd e) \<and> \<not> scopes_overlap (snd e) sc" if "e \<in> set a" for e
    using c that scopes_overlap_sym [of sc "snd e"] by (auto simp: conflicts_def)
  ultimately show ?thesis using a by (fastforce simp: free_set_def add_in_flight_def)
qed

lemma keys_add [simp]: "fst ` set (add_in_flight i sc a) = insert i (fst ` set a)"
  by (auto simp: add_in_flight_def)

lemma keys_delete [simp]: "fst ` set (delete_in_flight i a) = fst ` set a - {i}"
  by (auto simp: delete_in_flight_def)

text \<open>No other action of the loop touches the in-flight set: dispatching keeps it free.\<close>

lemma send_lease_simps [simp]:
  "sc_store (send_lease t rt source b st) = sc_store st"
  "sc_in_flight (send_lease t rt source b st) = add_in_flight (t_id t) (scope_for t) (sc_in_flight st)"
  "sc_output (send_lease t rt source b st) = sc_output st @ [\<lparr>ls_task = t, ls_route = rt\<rparr>]"
  "sc_capacity (send_lease t rt source b st) = sc_capacity st"
  "sc_release_due (send_lease t rt source b st) = sc_release_due st"
  by (simp_all add: send_lease_def)

lemma dispatch_keeps:
  assumes st: "P st"
    and store: "\<And>st s. P st \<Longrightarrow> P (st\<lparr>sc_store := s\<rparr>)"
    and drop: "\<And>st i. P st \<Longrightarrow> P (st\<lparr>sc_in_flight := delete_in_flight i (sc_in_flight st)\<rparr>)"
    and send: "\<And>st t rt src b. P st \<Longrightarrow> \<not> conflicts (scope_for t) (sc_in_flight st) \<Longrightarrow>
      length (sc_output st) < sc_capacity st \<Longrightarrow> P (send_lease t rt src b st)"
  shows "P (snd (dispatch_claimed ops cfg ctx now ex ts st))"
  using st
proof (induction ts arbitrary: st ex)
  case Nil
  then show ?case by simp
next
  case (Cons x rest)
  show ?case
    by (cases x) (auto simp: hand_back_def split_beta Cons intro!: store drop send Cons.IH split: sum.split)
qed

lemma dispatch_keeps_free:
  "free_set (sc_in_flight st) \<Longrightarrow>
     free_set (sc_in_flight (snd (dispatch_claimed ops cfg ctx now ex ts st)))"
  by (rule dispatch_keeps [where P = "\<lambda>st. free_set (sc_in_flight st)"])
    (simp_all add: free_set_add free_set_delete)

definition within_capacity :: "'s scheduler \<Rightarrow> bool" where
  "within_capacity st \<longleftrightarrow> length (sc_output st) \<le> sc_capacity st"

lemma dispatch_within_capacity:
  "within_capacity st \<Longrightarrow> within_capacity (snd (dispatch_claimed ops cfg ctx now ex ts st))"
  by (rule dispatch_keeps [where P = within_capacity]) (simp_all add: within_capacity_def)

lemma dispatch_release_due:
  "sc_release_due (snd (dispatch_claimed ops cfg ctx now ex ts st)) = sc_release_due st"
  by (rule dispatch_keeps [where P = "\<lambda>st'. sc_release_due st' = sc_release_due st"]) simp_all

section \<open>Ordering a batch\<close>

lemma disjoint_below: "A \<subseteq> L \<Longrightarrow> B \<inter> L = {} \<Longrightarrow> A \<inter> B = {}"
  by blast

lemma subset_step: "L \<subseteq> K \<union> insert i R \<Longrightarrow> L' \<subseteq> L \<Longrightarrow> i \<notin> L' \<Longrightarrow> L' \<subseteq> K \<union> R"
  by blast

lemma subset_stop:
  "L \<subseteq> K \<union> insert i R \<Longrightarrow> L' \<subseteq> L \<Longrightarrow> i \<notin> L' \<Longrightarrow> R \<inter> L' = {} \<Longrightarrow> K - {i} \<subseteq> K' \<Longrightarrow> L' \<subseteq> K'"
  by blast

lemma disjoint_rounds: "A \<subseteq> L \<Longrightarrow> B \<inter> L = {} \<Longrightarrow> B \<subseteq> M \<Longrightarrow> C \<inter> M = {} \<Longrightarrow> (A \<union> C) \<inter> B = {}"
  by blast

lemma order_claimed_sources:
  "map fst (filter (\<lambda>x. snd x = SrcFresh) (order_claimed pl fs rs)) = fs \<and>
   map fst (filter (\<lambda>x. snd x = SrcRetry) (order_claimed pl fs rs)) = rs"
proof -
  have "map fst (filter (\<lambda>x. snd x = s) (tagged s' ts)) = (if s = s' then ts else [])" for s s' ts
    by (induction ts) (auto simp: tagged_def)
  then show ?thesis
    by (induction pl fs rs rule: order_claimed.induct) (auto split: retry_source.splits)
qed

lemma order_claimed_set: "fst ` set (order_claimed pl fs rs) = set fs \<union> set rs"
proof -
  have "fst ` set (tagged s ts) = set ts" for s ts by (force simp: tagged_def)
  then show ?thesis
    by (induction pl fs rs rule: order_claimed.induct) (auto simp: image_Un split: retry_source.splits)
qed

lemma order_claimed_length: "length (order_claimed pl fs rs) = length fs + length rs"
  by (induction pl fs rs rule: order_claimed.induct) (auto simp: tagged_def split: retry_source.splits)

lemma order_claimed_image [simp]: "(\<lambda>x. g (fst x)) ` set (order_claimed pl fs rs) = g ` set fs \<union> g ` set rs"
  using order_claimed_set [of pl fs rs] by (metis image_Un image_image)

lemma order_claimed_distinct:
  "distinct (map g fs) \<Longrightarrow> distinct (map g rs) \<Longrightarrow> g ` set fs \<inter> g ` set rs = {} \<Longrightarrow>
     distinct (map (g \<circ> fst) (order_claimed pl fs rs))"
proof (induction pl fs rs rule: order_claimed.induct)
  case (5 s ss f fs r rs)
  then show ?case by (cases s) auto
qed (auto simp: tagged_def comp_def image_image)

section \<open>What a store has to promise\<close>

text \<open>
  \<open>leased s\<close> are the tasks the store holds in flight and \<open>backlog s\<close> counts the ready ones: a
  claim leases exactly what it returns, never more than was asked, out of the backlog; giving a
  task back ends its lease; nothing else leases anything.
\<close>

locale work_source =
  fixes ops :: "('e, 's) work_ops" and good :: "'s \<Rightarrow> bool" and leased :: "'s \<Rightarrow> int set"
    and backlog :: "'s \<Rightarrow> nat"
  assumes claim: "good s \<Longrightarrow> 0 < n \<Longrightarrow> wo_claim ops ctx src n now s = (r, s') \<Longrightarrow>
      good s' \<and> (case r of
         Inl e \<Rightarrow> leased s' = leased s \<and> backlog s' \<le> backlog s
       | Inr ts \<Rightarrow> int (length ts) \<le> n \<and> distinct (map t_id ts) \<and> t_id ` set ts \<inter> leased s = {} \<and>
           leased s' = leased s \<union> t_id ` set ts \<and> backlog s' + length ts \<le> backlog s)"
    and give_back: "good s \<Longrightarrow> wo_dispatch_retry ops ctx now i next_at err s = (r', s') \<Longrightarrow>
      good s' \<and> leased s' \<subseteq> leased s \<and> (r' = Inr () \<longrightarrow> i \<notin> leased s') \<and> backlog s' \<le> backlog s"
    and release: "good s \<Longrightarrow> wo_release_retry_wait ops ctx now limit s = (r'', s') \<Longrightarrow>
      good s' \<and> leased s' \<subseteq> leased s"
begin

lemma retry_conflict:
  assumes "good s" and "retry_conflict ops cfg ctx t now reason s = (es, s')"
  shows "good s' \<and> leased s' \<subseteq> leased s \<and> (es = [] \<longrightarrow> t_id t \<notin> leased s') \<and> backlog s' \<le> backlog s"
proof -
  let ?at = "now + sg_conflict_delay cfg"
  obtain r s1 where 1: "wo_dispatch_retry ops ctx now (t_id t) ?at reason s = (r, s1)" by fastforce
  obtain r2 s2 where 2: "wo_dispatch_retry ops CtxDetached now (t_id t) ?at reason s1 = (r2, s2)" by fastforce
  note g1 = give_back [OF assms(1) 1]
  then have g2: "good s2 \<and> leased s2 \<subseteq> leased s1 \<and> (r2 = Inr () \<longrightarrow> t_id t \<notin> leased s2) \<and> backlog s2 \<le> backlog s1"
    using give_back [OF _ 2] by blast
  show ?thesis using assms(2) g1 g2
    by (auto simp: retry_conflict_def 1 2 split: sum.splits if_splits)
qed

lemma refund_claimed:
  assumes "good s" and "refund_claimed ops cfg ctx ts now reason s = (es, s')"
  shows "good s' \<and> leased s' \<subseteq> leased s \<and> (es = [] \<longrightarrow> t_id ` set ts \<inter> leased s' = {}) \<and> backlog s' \<le> backlog s"
  using assms
proof (induction ts arbitrary: s es)
  case Nil
  then show ?case by simp
next
  case (Cons t ts)
  obtain e1 s1 where 1: "retry_conflict ops cfg ctx t now reason s = (e1, s1)" by fastforce
  obtain e2 where 2: "refund_claimed ops cfg ctx ts now reason s1 = (e2, s')" and es: "es = e1 @ e2"
    using Cons.prems(2) by (auto simp: 1 split: prod.splits)
  note g = retry_conflict [OF Cons.prems(1) 1]
  from g have "good s1" by blast
  from Cons.IH [OF this 2] g show ?case by (auto simp: es)
qed

lemma claim_work:
  assumes "good s" and "claim_work ops cfg ctx src n now s = ((ts, es), s')"
  shows "good s' \<and> int (length ts) \<le> max 0 n \<and> distinct (map t_id ts) \<and> t_id ` set ts \<inter> leased s = {} \<and>
    leased s' = leased s \<union> t_id ` set ts \<and> backlog s' + length ts \<le> backlog s"
proof (cases "n \<le> 0")
  case True
  then show ?thesis using assms by (auto simp: claim_work_def)
next
  case False
  obtain r s1 where 1: "wo_claim ops ctx src n now s = (r, s1)" by fastforce
  from claim [OF assms(1) _ 1] False show ?thesis using assms(2)
    by (auto simp: claim_work_def 1 split: sum.splits if_splits)
qed

end

context work_source
begin

text \<open>
  A claim round: without errors the batch is newly leased, distinct, within the limit, and out
  of the backlog; with errors nothing is handed on.
\<close>

lemma claim_ready:
  assumes s: "good s" and c: "claim_ready ops cfg ctx limit now b s = ((batch, es), s')"
  defines "ids \<equiv> t_id ` fst ` set (cb_tasks batch)"
  shows "good s' \<and> (if es \<noteq> [] then cb_tasks batch = []
     else int (length (cb_tasks batch)) \<le> max 0 limit \<and> distinct (map (t_id \<circ> fst) (cb_tasks batch)) \<and>
       ids \<inter> leased s = {} \<and> leased s' = leased s \<union> ids \<and>
       backlog s' + length (cb_tasks batch) \<le> backlog s)"
proof -
  let ?pl = "plan b limit"
  define ft where "ft = int (length (filter (\<lambda>x. x = SrcFresh) ?pl))"
  have "length (filter (\<lambda>x. x = SrcFresh) ?pl) \<le> nat limit"
    using length_filter_le [of "\<lambda>x. x = SrcFresh" ?pl] by simp
  then have ft: "0 \<le> ft" "ft \<le> int (nat limit)" by (simp_all only: ft_def of_nat_0_le_iff of_nat_le_iff)
  obtain fresh e1 s1 where 1: "claim_work ops cfg ctx SrcFresh ft now s = ((fresh, e1), s1)" by (metis surj_pair)
  note g1 = claim_work [OF s 1]
  then have s1: "good s1" by blast
  show ?thesis
  proof (cases "e1 = []")
    case False
    obtain es2 s2 where "refund_claimed ops cfg ctx fresh now ''fresh-source claim cleanup'' s1 = (es2, s2)" by fastforce
    with refund_claimed [OF s1 this] False c 1 show ?thesis
      by (auto simp: claim_ready_def Let_def ft_def empty_batch_def)
  next
    case e1: True
    define rt where "rt = int (length ?pl) - ft + (ft - int (length fresh))"
    obtain retries e2 s2 where 2: "claim_work ops cfg ctx SrcRetry rt now s1 = ((retries, e2), s2)" by (metis surj_pair)
    note g2 = claim_work [OF s1 2]
    then have s2: "good s2" by blast
    have two: "int (length fresh) + int (length retries) \<le> max 0 limit"
      using g1 g2 ft by (simp add: rt_def max_def split: if_splits)
    show ?thesis
    proof (cases "e2 = []")
      case False
      obtain es3 s3 where "refund_claimed ops cfg ctx (fresh @ retries) now ''retry-source claim cleanup'' s2 = (es3, s3)" by fastforce
      with refund_claimed [OF s2 this] False e1 c 1 2 show ?thesis
        by (auto simp: claim_ready_def Let_def ft_def rt_def empty_batch_def)
    next
      case e2: True
      define rem where "rem = limit - int (length fresh) - int (length retries)"
      show ?thesis
      proof (cases "rem > 0 \<and> \<not> int (length fresh) < ft")
        case False
        then have "batch = \<lparr>cb_tasks = order_claimed ?pl fresh retries, cb_fresh_exhausted = int (length fresh) < ft\<rparr> \<and> es = [] \<and> s' = s2"
          using c 1 2 e1 e2 by (simp add: claim_ready_def Let_def ft_def rt_def rem_def del: de_Morgan_conj)
        then show ?thesis using g1 g2 two
          by (auto simp: ids_def order_claimed_set order_claimed_length image_Un
              intro!: order_claimed_distinct)
      next
        case True
        obtain extra e3 s3 where 3: "claim_work ops cfg ctx SrcFresh rem now s2 = ((extra, e3), s3)" by (metis surj_pair)
        note g3 = claim_work [OF s2 3]
        then have s3: "good s3" by blast
        show ?thesis
        proof (cases "e3 = []")
          case False
          obtain es4 s4 where "refund_claimed ops cfg ctx (fresh @ retries @ extra) now
              ''fresh-source fallback claim cleanup'' s3 = (es4, s4)" by fastforce
          with refund_claimed [OF s3 this] False True e1 e2 c 1 2 3 show ?thesis
            by (auto simp: claim_ready_def Let_def ft_def rt_def rem_def empty_batch_def)
        next
          case e3: True
          have "batch = \<lparr>cb_tasks = order_claimed ?pl (fresh @ extra) retries,
              cb_fresh_exhausted = int (length extra) < rem\<rparr> \<and> es = [] \<and> s' = s3"
            using c 1 2 3 e1 e2 e3 True by (simp add: claim_ready_def Let_def ft_def rt_def rem_def)
          moreover have "int (length fresh) + int (length retries) + int (length extra) \<le> max 0 limit"
            using two g3 True by (simp add: rem_def max_def split: if_splits)
          moreover have dis: "t_id ` set fresh \<inter> t_id ` set extra = {}"
            "t_id ` set (fresh @ extra) \<inter> t_id ` set retries = {}"
          proof -
            have "t_id ` set fresh \<subseteq> leased s1" "t_id ` set retries \<inter> leased s1 = {}"
              "t_id ` set fresh \<subseteq> leased s2" "t_id ` set retries \<subseteq> leased s2" "t_id ` set extra \<inter> leased s2 = {}"
              using g1 g2 g3 by auto
            then show "t_id ` set fresh \<inter> t_id ` set extra = {}"
              "t_id ` set (fresh @ extra) \<inter> t_id ` set retries = {}"
              unfolding set_append image_Un by - (rule disjoint_below, assumption, assumption, rule disjoint_rounds, assumption+)
          qed
          moreover have "distinct (map (t_id \<circ> fst) (order_claimed ?pl (fresh @ extra) retries))"
            using g1 g2 g3 dis by (intro order_claimed_distinct) simp_all
          moreover have "ids = t_id ` set fresh \<union> t_id ` set extra \<union> t_id ` set retries"
            using calculation(1) by (simp add: ids_def order_claimed_set image_Un)
          moreover have "ids \<inter> leased s = {}" "leased s' = leased s \<union> ids"
            "backlog s' + (length fresh + length extra + length retries) \<le> backlog s" "good s'"
            using g1 g2 g3 calculation by (simp_all add: Int_Un_distrib2 Un_ac Int_Un_distrib)
          ultimately show ?thesis by (simp add: order_claimed_length)
        qed
      qed
    qed
  qed
qed

lemma hand_back:
  assumes "good (sc_store st1)" and "hand_back ops cfg ctx now us reason st1 = (e, st2)"
  shows "good (sc_store st2) \<and> leased (sc_store st2) \<subseteq> leased (sc_store st1) \<and>
      (e = [] \<longrightarrow> t_id ` set us \<inter> leased (sc_store st2) = {}) \<and>
      backlog (sc_store st2) \<le> backlog (sc_store st1) \<and> sc_in_flight st2 = sc_in_flight st1"
  using refund_claimed [OF assms(1), of cfg ctx us now reason] assms(2)
  by (auto simp: hand_back_def split: prod.splits)

text \<open>
  Dispatching: when it ends without error every leased task is in the in-flight set, if all that
  were not are in the batch.
\<close>

definition accounted :: "'s scheduler \<Rightarrow> bool" where
  "accounted st \<longleftrightarrow> leased (sc_store st) \<subseteq> fst ` set (sc_in_flight st)"

lemma dispatch:
  assumes "good (sc_store st)" and "dispatch_claimed ops cfg ctx now ex ts st = (es, st')"
    and "leased (sc_store st) \<subseteq> fst ` set (sc_in_flight st) \<union> t_id ` fst ` set ts"
  shows "good (sc_store st') \<and> backlog (sc_store st') \<le> backlog (sc_store st) \<and>
    (es = [] \<longrightarrow> accounted st')"
  using assms
proof (induction ts arbitrary: st es)
  case Nil
  then show ?case by (simp add: accounted_def)
next
  case (Cons x rest)
  obtain t source where x: "x = (t, source)" by fastforce
  let ?give = "hand_back ops cfg ctx now"
  note hand_back = hand_back [of _ cfg ctx now]
  have step: ?case if "?give [t] reason st = (e1, st1)"
    "(es, st') = (if e1 \<noteq> [] then (case ?give (map fst rest) reason' st1 of (e2, st2) \<Rightarrow> (e1 @ e2, st2))
       else dispatch_claimed ops cfg ctx now ex rest st1)" for reason reason' e1 st1
  proof -
    note b = hand_back [OF Cons.prems(1) that(1)]
    show ?thesis
    proof (cases "e1 = []")
      case True
      have g: "good (sc_store st1)" using b by blast
      have l: "leased (sc_store st1) \<subseteq> fst ` set (sc_in_flight st1) \<union> t_id ` fst ` set rest"
        using subset_step [of "leased (sc_store st)" "fst ` set (sc_in_flight st)" "t_id t" _ "leased (sc_store st1)"]
          b True Cons.prems(3) by (simp add: x)
      have "dispatch_claimed ops cfg ctx now ex rest st1 = (es, st')" using that(2) True by simp
      from Cons.IH [OF g this l] b show ?thesis by (metis order_trans)
    next
      case False
      obtain e2 st2 where h: "?give (map fst rest) reason' st1 = (e2, st2)" by (metis surj_pair)
      have g: "good (sc_store st1)" using b by blast
      have "es = e1 @ e2" "st' = st2" using that(2) False h by simp_all
      with hand_back [OF g h] b False show ?thesis by (metis append_is_Nil_conv order_trans)
    qed
  qed
  have stop: ?case if "?give (t # map fst rest) reason st1 = (e1, st')" "es = [] \<longrightarrow> e1 = []"
    "sc_store st1 = sc_store st" "fst ` set (sc_in_flight st) - {t_id t} \<subseteq> fst ` set (sc_in_flight st1)" for reason e1 st1
  proof -
    have g1: "good (sc_store st1)" using Cons.prems(1) that(3) by simp
    note b = hand_back [OF g1 that(1)]
    have "leased (sc_store st') \<subseteq> fst ` set (sc_in_flight st')" if "e1 = []"
    proof -
      have "leased (sc_store st') \<subseteq> leased (sc_store st)" "t_id t \<notin> leased (sc_store st')"
        "t_id ` fst ` set rest \<inter> leased (sc_store st') = {}" "sc_in_flight st' = sc_in_flight st1"
        using b that \<open>sc_store st1 = sc_store st\<close> by auto
      then show ?thesis using Cons.prems(3)
          \<open>fst ` set (sc_in_flight st) - {t_id t} \<subseteq> fst ` set (sc_in_flight st1)\<close>
          subset_stop [of "leased (sc_store st)" "fst ` set (sc_in_flight st)" "t_id t"
            "t_id ` fst ` set rest" "leased (sc_store st')" "fst ` set (sc_in_flight st1)"]
        by (simp add: x)
    qed
    then show ?thesis using b that by (auto simp: accounted_def)
  qed
  show ?case
  proof (cases "source = SrcRetry \<and> \<not> can_retry (sc_budget st) \<and> \<not> ex")
    case True
    obtain e1 st1 where h: "?give [t] ''retry claim budget exhausted'' st = (e1, st1)" by fastforce
    show ?thesis
      by (rule step [OF h, of "''retry budget failure cleanup''"])
        (use Cons.prems(2) True in \<open>simp only: x dispatch_claimed.simps h prod.case if_True simp_thms\<close>)
  next
    case False
    show ?thesis
    proof (cases "route_for (t_op t) :: 'e sched_error + route")
      case (Inl e)
      obtain e1 st1 where g: "?give (t # map fst rest) (unsupported_text (t_op t)) st = (e1, st1)" by fastforce
      then have "es = e # e1" "st' = st1"
        using Cons.prems(2) False Inl by (auto simp: x split: prod.splits)
      with stop [of _ st e1] g show ?thesis by auto
    next
      case (Inr rt)
      show ?thesis
      proof (cases "conflicts (scope_for t) (sc_in_flight st)")
        case True
        obtain e1 st1 where h: "?give [t] ''path is already in flight'' st = (e1, st1)" by fastforce
        show ?thesis
          by (rule step [OF h, of "''path-conflict failure cleanup''"])
            (use Cons.prems(2) False Inr True in
              \<open>simp only: x dispatch_claimed.simps h prod.case sum.case if_True if_False simp_thms\<close>)
      next
        case c: False
        show ?thesis
        proof (cases "length (sc_output st) < sc_capacity st")
          case True
          let ?st1 = "send_lease t rt source (source = SrcRetry \<and> can_retry (sc_budget st)) st"
          have "dispatch_claimed ops cfg ctx now ex rest ?st1 = (es, st')"
            using Cons.prems(2) False Inr True c by (simp add: x)
          from Cons.IH [OF _ this] Cons.prems(1,3) show ?thesis by (auto simp: x)
        next
          case full: False
          let ?st1 = "st\<lparr>sc_in_flight := delete_in_flight (t_id t) (sc_in_flight st)\<rparr>"
          have "?give (t # map fst rest) ''pipeline input is full'' ?st1 = (es, st')"
            using Cons.prems(2) False Inr c full by (simp add: x)
          from stop [OF this] show ?thesis by simp
        qed
      qed
    qed
  qed
qed

text \<open>An iteration keeps every leased task accounted for, and one that goes on uses up backlog.\<close>

lemma claim_and_dispatch_step:
  assumes "good (sc_store st)" and "accounted st"
    and "claim_and_dispatch ops cfg ctx ctx' now now' st = (it, st')" and "it = IterContinue \<or> it = IterBlock"
  shows "good (sc_store st') \<and> accounted st' \<and> sc_release_due st' = sc_release_due st \<and>
    (it = IterContinue \<longrightarrow> backlog (sc_store st') < backlog (sc_store st))"
proof (cases "int (sc_capacity st) - int (length (sc_output st)) > 0")
  case False
  then show ?thesis using assms by (auto simp: claim_and_dispatch_def)
next
  case True
  let ?limit = "min (int (sc_capacity st) - int (length (sc_output st))) (sg_batch_size cfg)"
  obtain batch es s where c: "claim_ready ops cfg ctx ?limit now (sc_budget st) (sc_store st) = ((batch, es), s)"
    by (metis surj_pair)
  have es: "es = []"
    using assms(3,4) True c by (auto simp: claim_and_dispatch_def stop_unless_cancelled_def Let_def split: if_splits)
  let ?ids = "t_id ` fst ` set (cb_tasks batch)"
  note r = claim_ready [OF assms(1) c]
  have g: "good s" "leased s = leased (sc_store st) \<union> ?ids"
    "backlog s + length (cb_tasks batch) \<le> backlog (sc_store st)" using r es by simp_all
  show ?thesis
  proof (cases "cb_tasks batch = []")
    case True
    then show ?thesis using assms(2-4) \<open>0 < _\<close> c es g by (auto simp: claim_and_dispatch_def accounted_def Let_def)
  next
    case False
    obtain es' st2 where d: "dispatch_claimed ops cfg ctx' now' (cb_fresh_exhausted batch) (cb_tasks batch)
        (st\<lparr>sc_store := s\<rparr>) = (es', st2)" by fastforce
    have it: "es' = []" "st' = st2"
      using assms(3,4) \<open>0 < _\<close> c es False d by (auto simp: claim_and_dispatch_def Let_def split: if_splits)
    have "leased (sc_store (st\<lparr>sc_store := s\<rparr>)) \<subseteq> fst ` set (sc_in_flight (st\<lparr>sc_store := s\<rparr>)) \<union> ?ids"
      using g assms(2) by (auto simp: accounted_def)
    from dispatch [OF _ d this] g(1) have "good (sc_store st2) \<and> backlog (sc_store st2) \<le> backlog s \<and> accounted st2"
      by (simp add: it)
    moreover have "sc_release_due st2 = sc_release_due st"
      using dispatch_release_due [of ops cfg ctx' now' "cb_fresh_exhausted batch" "cb_tasks batch" "st\<lparr>sc_store := s\<rparr>"]
      by (simp add: d)
    moreover have "backlog s < backlog (sc_store st)"
      using g(3) False by (cases "cb_tasks batch") simp_all
    ultimately show ?thesis by (auto simp: it)
  qed
qed

lemma iterate_step:
  assumes "good (sc_store st)" and "accounted st"
    and "iterate ops cfg ctx ctx' now now' st = (it, st')" and "it = IterContinue \<or> it = IterBlock"
  shows "good (sc_store st') \<and> accounted st' \<and> \<not> sc_release_due st' \<and>
    (\<not> sc_release_due st \<longrightarrow> it = IterContinue \<longrightarrow> backlog (sc_store st') < backlog (sc_store st))"
proof (cases "sc_release_due st")
  case False
  then show ?thesis using claim_and_dispatch_step [OF assms(1,2) _ assms(4)] assms(3)
    by (auto simp: iterate_def)
next
  case True
  obtain r s where rel: "wo_release_retry_wait ops ctx now (sg_retry_release_limit cfg) (sc_store st) = (r, s)"
    by fastforce
  obtain n where r: "r = Inr n"
    using assms(3,4) True rel by (cases r) (auto simp: iterate_def stop_unless_cancelled_def split: if_splits)
  note g = release [OF assms(1) rel]
  have cd: "claim_and_dispatch ops cfg ctx ctx' now now' (st\<lparr>sc_store := s, sc_release_due := False\<rparr>) = (it, st')"
    using assms(3) True rel r by (simp add: iterate_def)
  have acc: "accounted (st\<lparr>sc_store := s, sc_release_due := False\<rparr>)"
    using g assms(2) unfolding accounted_def by simp (metis subset_trans)
  have "good (sc_store (st\<lparr>sc_store := s, sc_release_due := False\<rparr>))" using g by simp
  from claim_and_dispatch_step [OF this acc cd assms(4)] True show ?thesis by simp
qed

lemma run_until_blocked_ends:
  assumes "good (sc_store st)" and "accounted st" and "\<not> sc_release_due st"
    and "backlog (sc_store st) < fuel"
  shows "run_until_blocked fuel ops cfg clock st \<noteq> None"
  using assms
proof (induction fuel arbitrary: st)
  case 0
  then show ?case by simp
next
  case (Suc fuel)
  obtain c1 c2 n1 n2 where c: "clock fuel = (c1, c2, n1, n2)" by (metis prod_cases4)
  obtain it st' where i: "iterate ops cfg c1 c2 n1 n2 st = (it, st')" by fastforce
  show ?case
  proof (cases "it = IterContinue")
    case True
    from iterate_step [OF Suc.prems(1,2) i] True Suc.prems(3,4)
    have "run_until_blocked fuel ops cfg clock st' \<noteq> None" by (intro Suc.IH) auto
    then show ?thesis by (simp add: c i True)
  next
    case False
    then show ?thesis by (cases it) (simp_all add: c i)
  qed
qed

lemma reached:
  assumes "sched_reaches ops cfg rely may_complete st0 st"
    and "\<And>s s'. good s \<Longrightarrow> rely s s' \<Longrightarrow> good s' \<and> leased s' \<subseteq> leased s"
    and "\<And>i s. may_complete i s \<Longrightarrow> i \<notin> leased s"
    and "good (sc_store st0)" and "accounted st0"
  shows "good (sc_store st) \<and> accounted st"
  using assms(1,4,5)
proof (induction rule: sched_reaches.induct)
  case (iterate st0 st ctx ctx' now now' it st')
  then show ?case using iterate_step by blast
next
  case (event st0 st e)
  then show ?case using assms(3) by (cases e) (auto simp: accounted_def)
next
  case (others st0 st s)
  then show ?case using assms(2) [of "sc_store st" s] by (auto simp: accounted_def)
qed simp

end

text \<open>Whatever the store does, no two in-flight tasks overlap and the channel is not overfilled.\<close>

lemma claim_and_dispatch_keeps_free:
  assumes "free_set (sc_in_flight st)"
  shows "free_set (sc_in_flight (snd (claim_and_dispatch ops cfg ctx ctx' now now' st)))"
  using assms by (auto simp: claim_and_dispatch_def Let_def split_beta intro!: dispatch_keeps_free)

lemma iterate_keeps_free:
  assumes "free_set (sc_in_flight st)"
  shows "free_set (sc_in_flight (snd (iterate ops cfg ctx ctx' now now' st)))"
  using assms by (auto simp: iterate_def split: prod.splits sum.splits intro!: claim_and_dispatch_keeps_free)

lemma sched_reaches_free:
  "sched_reaches ops cfg rely may_complete st0 st \<Longrightarrow> free_set (sc_in_flight st0) \<Longrightarrow> free_set (sc_in_flight st)"
proof (induction rule: sched_reaches.induct)
  case (iterate st0 st ctx ctx' now now' it st')
  then show ?case using iterate_keeps_free [of st ops cfg ctx ctx' now now'] by simp
next
  case (event st0 st e)
  then show ?case by (cases e) (simp_all add: free_set_delete)
qed simp_all

end
