(* ===== verification/Scheduler_Store.thy ===== *)
theory Scheduler_Store
  imports Scheduler_Laws
begin

text \<open>
  The store as the scheduler's work source: \<open>store.Store\<close> implements the interface directly
  (\<open>var _ Store = (*store.Store)(nil)\<close>).  A call under a cancelled context fails without a
  transaction.  The laws of \<open>work_source\<close> are discharged from the laws of the queue.
\<close>

datatype call_error = CallCancelled | CallStore store_error

definition in_ctx :: "context_state \<Rightarrow> (db \<Rightarrow> (store_error + 'a) \<times> db) \<Rightarrow> db \<Rightarrow> (call_error + 'a) \<times> db" where
  "in_ctx ctx f db =
     (if ctx = CtxCancelled then (Inl CallCancelled, db) else apfst (map_sum CallStore id) (f db))"

definition store_work_ops :: "(call_error, db) work_ops" where
  "store_work_ops = \<lparr>
     wo_claim = (\<lambda>ctx src n now. in_ctx ctx (claim n now
       (case src of SrcFresh \<Rightarrow> ClaimFresh | SrcRetry \<Rightarrow> ClaimRetry))),
     wo_dispatch_retry = (\<lambda>ctx now i next_at err. in_ctx ctx (mark_dispatch_retry now i next_at err)),
     wo_release_retry_wait = (\<lambda>ctx now limit. in_ctx ctx (release_retry_wait now limit))\<rparr>"

definition leased_ids :: "db \<Rightarrow> int set" where
  "leased_ids db = t_id ` {t \<in> set (db_tasks db). t_state t = TaskStateInFlight}"

definition pending_count :: "db \<Rightarrow> nat" where
  "pending_count db = length (filter (\<lambda>t. t_state t = TaskStatePending) (db_tasks db))"

lemma tasks_distinct: "db_wf db \<Longrightarrow> distinct (db_tasks db)"
  by (simp add: db_wf_def tasks_wf_def distinct_map)

lemma pending_count_card:
  assumes "db_wf db"
  shows "pending_count db = card {t \<in> set (db_tasks db). t_state t = TaskStatePending}"
  using distinct_card [of "filter (\<lambda>t. t_state t = TaskStatePending) (db_tasks db)"] tasks_distinct [OF assms]
  by (simp add: pending_count_def)

lemma pending_count_mono:
  assumes "db_wf db" and "db_wf db'"
    and "\<And>t. t \<in> set (db_tasks db') \<Longrightarrow> t_state t = TaskStatePending \<Longrightarrow> t \<in> set (db_tasks db)"
  shows "pending_count db' \<le> pending_count db"
  unfolding pending_count_card [OF assms(1)] pending_count_card [OF assms(2)]
  using assms(3) by (intro card_mono) auto

lemma claim_step:
  assumes wf: "db_wf db" and n: "0 < n" and c: "claim n now src db = (r, db')"
  defines "cs \<equiv> claim_candidates n now src (db_tasks db)"
  shows "\<exists>ts. r = Inr ts \<and> ts = map (claimed_row now) cs \<and> db_wf db' \<and>
    db_tasks db' = map (\<lambda>t. if t \<in> set cs then claimed_row now t else t) (db_tasks db)"
proof -
  have "wp (claim_tx n now src) (\<lambda>r db'. r = map (claimed_row now) cs \<and> db_wf db' \<and>
      db_tasks db' = map (\<lambda>t. if t \<in> set cs then claimed_row now t else t) (db_tasks db)) (\<lambda>_. False) db"
    unfolding cs_def by (rule wp_claim_tx [OF inv_refl [OF wf]]) auto
  then show ?thesis using c by (auto simp: claim_def with_tx_def wp_def split: sum.splits)
qed

lemma claim_source_laws:
  assumes wf: "db_wf db" and n: "0 < n" and c: "claim n now src db = (Inr ts, db')"
  shows "db_wf db' \<and> int (length ts) \<le> n \<and> distinct (map t_id ts) \<and> t_id ` set ts \<inter> leased_ids db = {} \<and>
    leased_ids db' = leased_ids db \<union> t_id ` set ts \<and> pending_count db' + length ts \<le> pending_count db"
proof -
  let ?cs = "claim_candidates n now src (db_tasks db)"
  have tw: "tasks_wf (db_tasks db)" using wf by (simp add: db_wf_def)
  note p = claim_candidates_props [OF tw, of n now src]
  have cs: "\<forall>t\<in>set ?cs. t \<in> set (db_tasks db) \<and> t_state t = TaskStatePending"
    using p(1) by (auto simp: claimable_def)
  from claim_step [OF wf n c]
  have ts: "ts = map (claimed_row now) ?cs" and wf': "db_wf db'"
    and us: "db_tasks db' = map (\<lambda>t. if t \<in> set ?cs then claimed_row now t else t) (db_tasks db)" by auto
  have ids: "t_id ` set ts = t_id ` set ?cs" by (simp add: ts image_image)
  have "distinct (map t_id ts)"
    using p(3) cs tasks_wf_id [OF tw] by (auto simp: ts distinct_map inj_on_def comp_def)
  moreover have "t_id ` set ts \<inter> leased_ids db = {}"
    unfolding ids leased_ids_def using cs tasks_wf_id [OF tw] by fastforce
  moreover have "leased_ids db' = leased_ids db \<union> t_id ` set ts"
  proof -
    have "{t \<in> set (db_tasks db'). t_state t = TaskStateInFlight} =
        {t \<in> set (db_tasks db). t_state t = TaskStateInFlight} \<union> claimed_row now ` set ?cs"
      unfolding us using cs by (auto simp: image_iff)
    then show ?thesis by (simp add: leased_ids_def image_Un ts)
  qed
  moreover have "pending_count db' + length ts \<le> pending_count db"
  proof -
    let ?P = "{t \<in> set (db_tasks db). t_state t = TaskStatePending}"
    have "{t \<in> set (db_tasks db'). t_state t = TaskStatePending} = ?P - set ?cs"
      unfolding us by (auto split: if_splits)
    then have "pending_count db' = card ?P - card (set ?cs)"
      using cs by (auto simp: pending_count_card [OF wf'] intro!: card_Diff_subset)
    moreover have "card (set ?cs) \<le> card ?P" using cs by (intro card_mono) auto
    ultimately show ?thesis using distinct_card [OF p(3)] by (simp add: pending_count_card [OF wf] ts)
  qed
  ultimately show ?thesis using wf' p(4) n by (simp add: ts)
qed

lemma dispatch_retry_laws:
  assumes wf: "db_wf db" and r: "mark_dispatch_retry now i next_at err db = (r, db')"
  shows "db_wf db' \<and> leased_ids db' \<subseteq> leased_ids db \<and> (r = Inr () \<longrightarrow> i \<notin> leased_ids db') \<and>
    pending_count db' \<le> pending_count db"
proof (cases r)
  case (Inl e)
  then have "db' = db" using r with_tx_rollback [of "mark_retry_tx now i next_at err True" db e]
    by (simp add: mark_dispatch_retry_def)
  then show ?thesis using wf Inl by simp
next
  case (Inr u)
  let ?R = "\<lambda>us. (\<exists>t'. t_state t' = TaskStateRetryWait \<and>
       (\<forall>v\<in>set us. v = t' \<or> v \<in> set (db_tasks db) \<and> t_id v \<noteq> i))"
  have post: "db_wf (snd (mark_dispatch_retry now i next_at err db)) \<and>
      ?R (db_tasks (snd (mark_dispatch_retry now i next_at err db)))"
    unfolding mark_dispatch_retry_def
  proof (rule with_tx_post [where Q = "\<lambda>_ db'. db_wf db' \<and> ?R (db_tasks db')"])
    show "fst (with_tx (mark_retry_tx now i next_at err True) db) = Inr u"
      using r Inr by (simp add: mark_dispatch_retry_def)
    show "wp (mark_retry_tx now i next_at err True) (\<lambda>_ db'. db_wf db' \<and> ?R (db_tasks db')) (\<lambda>_. True) db"
      by (rule wp_mark_retry_tx [OF inv_refl [OF wf]]) (auto simp: transition_def tx_inv_def)
  qed
  then obtain t' where wf': "db_wf db'" and t': "t_state t' = TaskStateRetryWait"
    "\<forall>v\<in>set (db_tasks db'). v = t' \<or> v \<in> set (db_tasks db) \<and> t_id v \<noteq> i" using r by auto
  have "leased_ids db' \<subseteq> leased_ids db" "i \<notin> leased_ids db'"
    using t' by (auto simp: leased_ids_def)
  moreover have "pending_count db' \<le> pending_count db"
    using t' by (intro pending_count_mono [OF wf wf']) auto
  ultimately show ?thesis using wf' by simp
qed

text \<open>A release makes rows pending, and leases none.\<close>

lemma release_leases_nothing:
  assumes st: "st \<noteq> TaskStateInFlight" and L: "leased_ids db \<subseteq> L"
  shows "wp (release_to_pending_tx now st due limit) (\<lambda>_ db'. leased_ids db' \<subseteq> L) (\<lambda>_. True) db"
proof -
  have step: "wp (release_one now st n c) (\<lambda>_ db'. leased_ids db' \<subseteq> L) (\<lambda>_. True) db" if "leased_ids db \<subseteq> L" for n c db
    using that st
    by (auto simp: release_one_def wp_simps leased_ids_def set_rows_update absorb_released_def image_subset_iff
        split: option.splits if_splits)
  show ?thesis using L
    by (auto simp: release_to_pending_tx_def wp_simps intro!: wp_fold [where I = "\<lambda>_ db'. leased_ids db' \<subseteq> L"] step)
qed

lemma release_laws:
  assumes wf: "db_wf db" and r: "release_retry_wait now limit db = (r, db')"
  shows "db_wf db' \<and> leased_ids db' \<subseteq> leased_ids db"
proof -
  have "leased_ids (snd (with_tx (release_to_pending_tx now TaskStateRetryWait now limit) db)) \<subseteq> leased_ids db"
    by (rule with_tx_wp [where I = "\<lambda>db'. leased_ids db' \<subseteq> leased_ids db", OF release_leases_nothing]) simp_all
  moreover have "db_wf (snd (with_tx (release_to_pending_tx now TaskStateRetryWait now limit) db))"
    by (rule release_retry.safe(1) [OF wf])
  ultimately show ?thesis using r by (simp add: release_retry_wait_def)
qed

interpretation queue: work_source store_work_ops db_wf leased_ids pending_count
proof (unfold_locales, goal_cases)
  case (1 db n ctx src now r db')
  then show ?case
    using claim_step [of db n now "case src of SrcFresh \<Rightarrow> ClaimFresh | SrcRetry \<Rightarrow> ClaimRetry"]
      claim_source_laws [of db n now "case src of SrcFresh \<Rightarrow> ClaimFresh | SrcRetry \<Rightarrow> ClaimRetry"]
    by (auto simp: store_work_ops_def in_ctx_def apfst_def map_prod_def split: if_splits prod.splits)
next
  case (2 db ctx now i next_at err r db')
  obtain x db1 where x: "mark_dispatch_retry now i next_at err db = (x, db1)" by fastforce
  show ?case using 2 dispatch_retry_laws [OF _ x]
    by (cases x) (auto simp: store_work_ops_def in_ctx_def x split: if_splits)
next
  case (3 db ctx now limit r db')
  then show ?case using release_laws [of db now limit]
    by (auto simp: store_work_ops_def in_ctx_def apfst_def map_prod_def split: if_splits prod.splits)
qed

section \<open>A claim round takes all it can\<close>

definition source_of :: "retry_source \<Rightarrow> claim_source" where
  "source_of src = (case src of SrcFresh \<Rightarrow> ClaimFresh | SrcRetry \<Rightarrow> ClaimRetry)"

definition exhausted :: "int \<Rightarrow> retry_source \<Rightarrow> db \<Rightarrow> bool" where
  "exhausted now src db \<longleftrightarrow> (\<forall>t\<in>set (db_tasks db). \<not> claimable now (source_of src) (db_tasks db) t)"

lemma claim_leaves_claimable:
  assumes wf: "db_wf db" and n: "0 < n" and c: "claim n now src db = (Inr ts, db')"
    and t: "t \<in> set (db_tasks db')" "claimable now src' (db_tasks db') t"
  shows "t \<in> set (db_tasks db) \<and> claimable now src' (db_tasks db) t"
proof -
  let ?cs = "claim_candidates n now src (db_tasks db)"
  have us: "db_tasks db' = map (\<lambda>t. if t \<in> set ?cs then claimed_row now t else t) (db_tasks db)"
    using claim_step [OF wf n c] by blast
  have m: "t \<in> set (db_tasks db)" using t by (auto simp: us claimable_def split: if_splits)
  have "u' \<in> set (db_tasks db')" if "u \<in> set (db_tasks db)" "u' = (if u \<in> set ?cs then claimed_row now u else u)" for u u'
    using that by (auto simp: us)
  then have "\<not> (t_path_key u = t_path_key t \<and> t_state u = TaskStateInFlight)" if "u \<in> set (db_tasks db)" for u
    using that t(2) unfolding claimable_def by (metis claimed_row_simps(2,3))
  then show ?thesis using m t(2) by (simp add: claimable_def)
qed

lemma short_claim_exhausts:
  assumes wf: "db_wf db" and n: "0 < n" and c: "claim n now (source_of src) db = (Inr ts, db')"
    and short: "int (length ts) < n"
  shows "exhausted now src db'"
proof -
  let ?cs = "claim_candidates n now (source_of src) (db_tasks db)"
  have ts: "ts = map (claimed_row now) ?cs"
    and us: "db_tasks db' = map (\<lambda>t. if t \<in> set ?cs then claimed_row now t else t) (db_tasks db)"
    using claim_step [OF wf n c] by auto
  have "set ?cs = {t \<in> set (db_tasks db). claimable now (source_of src) (db_tasks db) t}"
    using short n unfolding ts claim_candidates_def order_by_def by (simp add: min_def split: if_splits)
  moreover have "t \<notin> set ?cs" if "t \<in> set (db_tasks db')" "claimable now (source_of src) (db_tasks db') t" for t
  proof
    assume "t \<in> set ?cs"
    moreover obtain u where u: "u \<in> set (db_tasks db)" "t = (if u \<in> set ?cs then claimed_row now u else u)"
      using \<open>t \<in> set (db_tasks db')\<close> unfolding us by (auto split: if_splits)
    moreover have "t_state t = TaskStatePending" using that by (simp add: claimable_def)
    ultimately show False by (auto split: if_splits)
  qed
  ultimately show ?thesis
    using claim_leaves_claimable [OF wf n c] by (auto simp: exhausted_def)
qed

lemma claim_work_store:
  assumes wf: "db_wf db" and c: "claim_work store_work_ops cfg CtxLive src n now db = ((ts, es), db')"
  shows "es = [] \<and> db_wf db' \<and> int (length ts) \<le> max 0 n \<and>
    (\<forall>s. exhausted now s db \<longrightarrow> exhausted now s db') \<and> (int (length ts) < n \<longrightarrow> exhausted now src db')"
proof (cases "n \<le> 0")
  case True
  then show ?thesis using wf c by (auto simp: claim_work_def)
next
  case False
  obtain r db1 where 1: "claim n now (source_of src) db = (r, db1)" by fastforce
  from claim_step [OF wf _ 1] False obtain us where r: "r = Inr us" by auto
  note l = claim_source_laws [OF wf _ 1 [unfolded r]]
  have "ts = us" "es = []" "db' = db1"
    using c 1 l False by (auto simp: claim_work_def store_work_ops_def in_ctx_def r source_of_def split: if_splits)
  moreover have "\<forall>s. exhausted now s db \<longrightarrow> exhausted now s db1"
    using claim_leaves_claimable [OF wf _ 1 [unfolded r]] False by (auto simp: exhausted_def)
  ultimately show ?thesis using l short_claim_exhausts [OF wf _ 1 [unfolded r]] False by simp
qed

lemma claim_ready_store:
  assumes wf: "db_wf db"
    and c: "claim_ready store_work_ops cfg CtxLive limit now b db = ((batch, es), db')"
  shows "es = [] \<and> db_wf db' \<and>
    (int (length (cb_tasks batch)) < limit \<longrightarrow> exhausted now SrcFresh db' \<and> exhausted now SrcRetry db')"
proof -
  let ?pl = "plan b limit"
  define ft where "ft = int (length (filter (\<lambda>x. x = SrcFresh) ?pl))"
  have "length (filter (\<lambda>x. x = SrcFresh) ?pl) \<le> nat limit"
    using length_filter_le [of "\<lambda>x. x = SrcFresh" ?pl] by simp
  then have ft: "0 \<le> ft" "ft \<le> int (nat limit)" by (simp_all only: ft_def of_nat_0_le_iff of_nat_le_iff)
  obtain fresh e1 s1 where 1: "claim_work store_work_ops cfg CtxLive SrcFresh ft now db = ((fresh, e1), s1)" by (metis surj_pair)
  note g1 = claim_work_store [OF wf 1]
  define rt where "rt = int (length ?pl) - ft + (ft - int (length fresh))"
  obtain retries e2 s2 where 2: "claim_work store_work_ops cfg CtxLive SrcRetry rt now s1 = ((retries, e2), s2)" by (metis surj_pair)
  note g2 = claim_work_store [OF conjunct1 [OF conjunct2 [OF g1]] 2]
  define rem where "rem = limit - int (length fresh) - int (length retries)"
  show ?thesis
  proof (cases "rem > 0 \<and> \<not> int (length fresh) < ft")
    case False
    then have "batch = \<lparr>cb_tasks = order_claimed ?pl fresh retries, cb_fresh_exhausted = int (length fresh) < ft\<rparr> \<and>
        es = [] \<and> db' = s2"
      using c 1 2 g1 g2 by (simp add: claim_ready_def Let_def ft_def rt_def rem_def del: de_Morgan_conj)
    then show ?thesis using g1 g2 False ft
      by (auto simp: order_claimed_length rem_def rt_def)
  next
    case True
    obtain extra e3 s3 where 3: "claim_work store_work_ops cfg CtxLive SrcFresh rem now s2 = ((extra, e3), s3)" by (metis surj_pair)
    note g3 = claim_work_store [OF conjunct1 [OF conjunct2 [OF g2]] 3]
    have "batch = \<lparr>cb_tasks = order_claimed ?pl (fresh @ extra) retries,
        cb_fresh_exhausted = int (length extra) < rem\<rparr> \<and> es = [] \<and> db' = s3"
      using c 1 2 3 g1 g2 g3 True by (simp add: claim_ready_def Let_def ft_def rt_def rem_def)
    then show ?thesis using g1 g2 g3 True ft
      by (auto simp: order_claimed_length rem_def rt_def)
  qed
qed

end
