(* ===== verification/Scheduler_Properties.thy ===== *)
theory Scheduler_Properties
  imports Scheduler_Store Store_Properties
begin

text \<open>
  What the scheduler promises: for any store, that tasks in flight never overlap and that retries
  get their share; over the node's store, that every lease is accounted for, that a claim round
  takes all it can, and that the inner loop ends.
\<close>

section \<open>Overlap\<close>

text \<open>
  C12: two path scopes overlap exactly when some path lies in the territory of both tasks: the
  cleaned paths of a file task, everything below them for a directory task.
\<close>

theorem scopes_overlap_iff_territories_meet:
  assumes "\<forall>p\<in>set (task_paths t). rooted p" and "\<forall>p\<in>set (task_paths u). rooted p"
  shows "scopes_overlap (scope_for t) (scope_for u) \<longleftrightarrow> (\<exists>x. reserves t x \<and> reserves u x)"
  by (rule scopes_overlap_territory [OF assms])

definition task_on :: "int \<Rightarrow> int option \<Rightarrow> task_op \<Rightarrow> string \<Rightarrow> task" where
  "task_on i file_id op p = (new_pending_row 0 ((event_on p)\<lparr>ep_op := op\<rparr>))\<lparr>t_id := i, t_file_id := file_id\<rparr>"

theorem scopes_overlap_iff_territories_meet_witness:
  "(\<exists>x. reserves (task_on 1 None TaskOpRemove ''/w'') x \<and> reserves (task_on 2 (Some 1) TaskOpUpsert ''/w/a'') x) \<and>
   \<not> (\<exists>x. reserves (task_on 1 None TaskOpRemove ''/w'') x \<and> reserves (task_on 2 (Some 1) TaskOpUpsert ''/wx'') x)"
proof -
  let ?d = "task_on 1 None TaskOpRemove ''/w''"
  have r: "\<forall>p\<in>set (task_paths ?d). rooted p" "\<forall>p\<in>set (task_paths (task_on 2 (Some 1) TaskOpUpsert ''/w/a'')). rooted p"
    "\<forall>p\<in>set (task_paths (task_on 2 (Some 1) TaskOpUpsert ''/wx'')). rooted p" by code_simp+
  have "scopes_overlap (scope_for ?d) (scope_for (task_on 2 (Some 1) TaskOpUpsert ''/w/a''))"
    "\<not> scopes_overlap (scope_for ?d) (scope_for (task_on 2 (Some 1) TaskOpUpsert ''/wx''))" by code_simp+
  then show ?thesis
    using scopes_overlap_iff_territories_meet [OF r(1,2)] scopes_overlap_iff_territories_meet [OF r(1,3)] by blast
qed

text \<open>
  C13: in every state of a run, over any store and whatever others write to it, the scopes of
  two different tasks in flight do not overlap.
\<close>

theorem in_flight_tasks_never_overlap:
  assumes "sched_reaches ops cfg rely may_complete (start_run cfg capacity s) st"
    and "(i, a) \<in> set (sc_in_flight st)" and "(j, b) \<in> set (sc_in_flight st)" and "i \<noteq> j"
  shows "\<not> scopes_overlap a b"
  using sched_reaches_free [OF assms(1)] assms(2-4) by (fastforce simp: start_run_def free_set_def)

definition example_cfg :: sched_config where
  "example_cfg = \<lparr>sg_batch_size = 64, sg_retry_release_limit = 1000, sg_retry_budget_ratio = 1 / 5,
     sg_tick_interval = 500, sg_conflict_delay = 200\<rparr>"

text \<open>
  Two files and their directory: the removal of \<open>/w\<close> is claimed last and finds them in flight.
\<close>

definition busy_db :: db where
  "busy_db = run_ops [OpEnqueue 10 (event_on ''/w/a''), OpEnqueue 10 (event_on ''/w/b''),
     OpEnqueue 10 ((event_on ''/w'')\<lparr>ep_op := TaskOpRemove\<rparr>)]"

lemma busy_db_wf: "db_wf busy_db"
  unfolding busy_db_def by (rule run_ops_wf) (simp add: admissible_def)

definition busy_run :: "call_error iteration \<times> db scheduler" where
  "busy_run = iterate store_work_ops example_cfg CtxLive CtxLive 20 21 (start_run example_cfg 8 busy_db)"

lemma busy_run_eval:
  "fst busy_run = IterContinue" "map fst (sc_in_flight (snd busy_run)) = [2, 1]"
  "map t_state (db_tasks (sc_store (snd busy_run))) = [TaskStateInFlight, TaskStateInFlight, TaskStateRetryWait]"
  by code_simp+

lemma busy_run_reached:
  "sched_reaches store_work_ops example_cfg rely may_complete (start_run example_cfg 8 busy_db) (snd busy_run)"
proof (rule sched_reaches.iterate [OF sched_reaches.start])
  show "iterate store_work_ops example_cfg CtxLive CtxLive 20 21 (start_run example_cfg 8 busy_db) =
      (fst busy_run, snd busy_run)" by (simp add: busy_run_def)
  show "fst busy_run = IterContinue \<or> fst busy_run = IterBlock" by (simp add: busy_run_eval)
qed

theorem in_flight_tasks_never_overlap_witness:
  "\<exists>a b. (2, a) \<in> set (sc_in_flight (snd busy_run)) \<and> (1, b) \<in> set (sc_in_flight (snd busy_run)) \<and>
     \<not> scopes_overlap a b"
proof -
  obtain a b where "sc_in_flight (snd busy_run) = [(2, a), (1, b)]"
    using busy_run_eval(2) by (auto simp: map_eq_Cons_conv)
  then have m: "(2, a) \<in> set (sc_in_flight (snd busy_run))" "(1, b) \<in> set (sc_in_flight (snd busy_run))" by simp_all
  from in_flight_tasks_never_overlap [OF busy_run_reached m] m show ?thesis by auto
qed

section \<open>Accounting\<close>

text \<open>
  C14: over the store, as long as iterations end without an error, every task the store holds in
  flight is in the scheduler's in-flight set: a claimed task is dispatched or given back, never
  stranded.  Other writers may only end leases, and a task is reported complete after its lease ended.
\<close>

theorem no_lease_is_stranded:
  assumes "sched_reaches store_work_ops cfg (\<lambda>db db'. db_wf db' \<and> leased_ids db' \<subseteq> leased_ids db)
      (\<lambda>i db. i \<notin> leased_ids db) (start_run cfg capacity db0) st"
    and "db_wf db0" and "leased_ids db0 = {}"
  shows "db_wf (sc_store st) \<and> leased_ids (sc_store st) \<subseteq> fst ` set (sc_in_flight st)"
proof -
  have "db_wf (sc_store st) \<and> queue.accounted st"
    by (rule queue.reached [OF assms(1)]) (use assms(2,3) in \<open>simp_all add: start_run_def queue.accounted_def\<close>)
  then show ?thesis by (simp add: queue.accounted_def)
qed

theorem no_lease_is_stranded_witness:
  "leased_ids (sc_store (snd busy_run)) = {1, 2} \<and>
   leased_ids (sc_store (snd busy_run)) \<subseteq> fst ` set (sc_in_flight (snd busy_run))"
proof -
  have "leased_ids busy_db = {}" and l: "leased_ids (sc_store (snd busy_run)) = {1, 2}" by code_simp+
  from no_lease_is_stranded [OF busy_run_reached busy_db_wf this(1)] l show ?thesis by simp
qed

text \<open>
  a claim round over the store is work conserving: it returns no error, at most what was
  asked, and when it returns less no due pending task on an unleased path is left, fresh or retried.
\<close>

theorem claim_round_is_work_conserving:
  assumes "db_wf db"
    and "claim_ready store_work_ops cfg CtxLive limit now budget db = ((batch, es), db')"
  shows "es = [] \<and> int (length (cb_tasks batch)) \<le> max 0 limit \<and>
    (int (length (cb_tasks batch)) < limit \<longrightarrow>
       (\<forall>t\<in>set (db_tasks db'). \<not> claimable now ClaimAny (db_tasks db') t))"
proof -
  note r = claim_ready_store [OF assms]
  have "int (length (cb_tasks batch)) \<le> max 0 limit"
    using queue.claim_ready [OF assms] r by simp
  moreover have "\<not> claimable now ClaimAny (db_tasks db') t" if "t \<in> set (db_tasks db')"
    "exhausted now SrcFresh db'" "exhausted now SrcRetry db'" for t
  proof -
    have "0 \<le> t_attempts t" using r that(1) by (auto simp: db_wf_def tasks_wf_def task_ok_def)
    then show ?thesis using that
      by (fastforce simp: exhausted_def source_of_def claimable_def source_predicate_def)
  qed
  ultimately show ?thesis using r by blast
qed

theorem claim_round_is_work_conserving_witness:
  "\<exists>batch es db'. claim_ready store_work_ops example_cfg CtxLive 8 20 (new_retry_budget (1 / 5)) busy_db =
     ((batch, es), db') \<and> es = [] \<and> length (cb_tasks batch) = 3 \<and>
     filter (claimable 20 ClaimAny (db_tasks db')) (db_tasks db') = []"
proof -
  let ?r = "claim_ready store_work_ops example_cfg CtxLive 8 20 (new_retry_budget (1 / 5)) busy_db"
  have e: "?r = ((fst (fst ?r), snd (fst ?r)), snd ?r)" by simp
  have n: "length (cb_tasks (fst (fst ?r))) = 3" by code_simp
  from claim_round_is_work_conserving [OF busy_db_wf e] n
  have "snd (fst ?r) = [] \<and> filter (claimable 20 ClaimAny (db_tasks (snd ?r))) (db_tasks (snd ?r)) = []"
    by (simp add: filter_empty_conv)
  then show ?thesis using e n by blast
qed

text \<open>
  C15: the inner loop ends: from a state whose release is done, one iteration more than there
  are pending tasks is enough to reach the blocking \<open>select\<close> or a stop.
\<close>

theorem inner_loop_ends:
  assumes "db_wf (sc_store st)" and "leased_ids (sc_store st) \<subseteq> fst ` set (sc_in_flight st)"
    and "\<not> sc_release_due st" and "pending_count (sc_store st) < fuel"
  shows "run_until_blocked fuel store_work_ops cfg clock st \<noteq> None"
  by (rule queue.run_until_blocked_ends) (use assms in \<open>simp_all add: queue.accounted_def\<close>)

theorem inner_loop_ends_witness:
  "run_until_blocked 4 store_work_ops example_cfg (\<lambda>_. (CtxLive, CtxLive, 20, 21))
     ((start_run example_cfg 8 busy_db)\<lparr>sc_release_due := False\<rparr>) \<noteq> None"
proof (rule inner_loop_ends)
  have "leased_ids busy_db = {}" "pending_count busy_db = 3" by code_simp+
  then show "leased_ids (sc_store ((start_run example_cfg 8 busy_db)\<lparr>sc_release_due := False\<rparr>))
      \<subseteq> fst ` set (sc_in_flight ((start_run example_cfg 8 busy_db)\<lparr>sc_release_due := False\<rparr>))"
    "pending_count (sc_store ((start_run example_cfg 8 busy_db)\<lparr>sc_release_due := False\<rparr>)) < 4"
    by (simp_all add: start_run_def)
qed (simp_all add: start_run_def busy_db_wf)

section \<open>The retry share\<close>

text \<open>
  C16: while both sources have work, retried work gets its ratio of the dispatches: in a plan of
  any length, \<open>retries * (1 - ratio)\<close> and \<open>fresh * ratio\<close> differ by at most one dispatch's credit
  and the epsilon of each retry, from any credit in \<open>[0, 1]\<close>.
\<close>

theorem retry_share_converges:
  assumes "0 < rb_ratio b" and "rb_ratio b < 1" and "0 \<le> rb_credit b" and "rb_credit b \<le> 1"
  shows "length (plan b limit) = nat limit \<and>
    \<bar>uses SrcRetry (plan b limit) * (1 - rb_ratio b) - uses SrcFresh (plan b limit) * rb_ratio b\<bar>
     \<le> 1 + uses SrcRetry (plan b limit) * retry_credit_epsilon"
  using plan_balance [of b limit] assms by (simp add: budget_ok_def)

theorem retry_share_converges_witness:
  "plan (new_retry_budget (1 / 5)) 10 =
     [SrcFresh, SrcFresh, SrcFresh, SrcFresh, SrcRetry, SrcFresh, SrcFresh, SrcFresh, SrcFresh, SrcRetry] \<and>
   \<bar>uses SrcRetry (plan (new_retry_budget (1 / 5)) 10) * (4 / 5) -
      uses SrcFresh (plan (new_retry_budget (1 / 5)) 10) * (1 / 5)\<bar>
     \<le> 1 + uses SrcRetry (plan (new_retry_budget (1 / 5)) 10) * retry_credit_epsilon"
proof -
  have "plan (new_retry_budget (1 / 5)) 10 =
     [SrcFresh, SrcFresh, SrcFresh, SrcFresh, SrcRetry, SrcFresh, SrcFresh, SrcFresh, SrcFresh, SrcRetry]"
    by code_simp
  then show ?thesis using retry_share_converges [of "new_retry_budget (1 / 5)" 10]
    by (simp add: new_retry_budget_def)
qed

text \<open>
  the dispatch order keeps every claimed task once and the order of each source.
\<close>

theorem dispatch_order_keeps_both_sources:
  "map fst (filter (\<lambda>x. snd x = SrcFresh) (order_claimed pl fresh retries)) = fresh \<and>
   map fst (filter (\<lambda>x. snd x = SrcRetry) (order_claimed pl fresh retries)) = retries"
  by (rule order_claimed_sources)

end
