(* ===== verification/Breaker.thy ===== *)
theory Breaker
  imports Prelude "HOL-Library.Word"
begin

text \<open>
  The circuit breaker of the embedding dependency, \<open>internal/pipeline/embed/breaker.go\<close>.  Every
  method runs under the breaker's mutex, so the breaker is a state and each method a step; the
  clock reading of a step is its argument (milliseconds).  The epoch is a \<open>uint64\<close> and wraps.
  \<open>time.Time{}\<close> is \<open>None\<close>.  A transition reported to \<open>OnTransition\<close> is part of the result.
\<close>

section \<open>Data\<close>

datatype breaker_state = StateClosed | StateHalfOpen | StateOpen

datatype breaker_error = ErrOpen | ErrProbeInFlight | ErrBreakerConfig string

definition state_string :: "breaker_state \<Rightarrow> string" where
  "state_string st = (case st of
     StateClosed \<Rightarrow> ''closed'' | StateHalfOpen \<Rightarrow> ''half_open'' | StateOpen \<Rightarrow> ''open'')"

definition metric_value :: "breaker_state \<Rightarrow> nat" where
  "metric_value st = (case st of StateClosed \<Rightarrow> 0 | StateHalfOpen \<Rightarrow> 1 | StateOpen \<Rightarrow> 2)"

text \<open>\<open>errors.Is(err, ErrOpen)\<close>: the probe rejection is one too.\<close>

definition is_err_open :: "breaker_error \<Rightarrow> bool" where
  "is_err_open e \<longleftrightarrow> e = ErrOpen \<or> e = ErrProbeInFlight"

record breaker_config =
  bc_failures :: int
  bc_open_for :: int
  bc_release_batch :: int

definition default_release_batch :: int where "default_release_batch = 1000"

definition normalize_config :: "breaker_config \<Rightarrow> breaker_error + breaker_config" where
  "normalize_config c =
     (if bc_failures c \<le> 0 then Inl (ErrBreakerConfig ''failures must be positive'')
      else if bc_open_for c \<le> 0 then Inl (ErrBreakerConfig ''open_for must be positive'')
      else
        let c' = (if bc_release_batch c = 0 then c\<lparr>bc_release_batch := default_release_batch\<rparr> else c)
        in if bc_release_batch c' < 0 then Inl (ErrBreakerConfig ''release batch must not be negative'')
           else Inr c')"

record breaker_transition =
  tr_from :: breaker_state
  tr_to :: breaker_state
  tr_changed :: bool
  tr_accepted :: bool

record breaker =
  br_failures :: int
  br_open_for :: int
  br_state :: breaker_state
  br_consecutive :: int
  br_open_until :: "int option"
  br_probe_in_flight :: bool
  br_epoch :: "64 word"

record permit =
  pm_epoch :: "64 word"
  pm_probe :: bool

datatype completion_kind = CompletionSuccess | CompletionFailure | CompletionAbort

definition new_breaker :: "breaker_config \<Rightarrow> breaker_error + breaker" where
  "new_breaker config = map_sum id (\<lambda>c. \<lparr>br_failures = bc_failures c, br_open_for = bc_open_for c,
     br_state = StateClosed, br_consecutive = 0, br_open_until = None, br_probe_in_flight = False,
     br_epoch = 0\<rparr>) (normalize_config config)"

section \<open>Steps\<close>

definition no_transition :: "breaker \<Rightarrow> breaker_transition" where
  "no_transition b = \<lparr>tr_from = br_state b, tr_to = br_state b, tr_changed = False, tr_accepted = False\<rparr>"

definition before :: "int \<Rightarrow> int option \<Rightarrow> bool" where
  "before now u = (case u of None \<Rightarrow> False | Some t \<Rightarrow> now < t)"

definition advance :: "int \<Rightarrow> breaker \<Rightarrow> breaker_transition \<times> breaker" where
  "advance now b =
     (if br_state b \<noteq> StateOpen \<or> before now (br_open_until b) then (no_transition b, b)
      else (\<lparr>tr_from = StateOpen, tr_to = StateHalfOpen, tr_changed = True, tr_accepted = True\<rparr>,
            b\<lparr>br_state := StateHalfOpen, br_probe_in_flight := False, br_epoch := br_epoch b + 1\<rparr>))"

definition open_breaker :: "int \<Rightarrow> breaker \<Rightarrow> breaker" where
  "open_breaker now b = b\<lparr>br_state := StateOpen, br_open_until := Some (now + br_open_for b),
     br_probe_in_flight := False, br_epoch := br_epoch b + 1\<rparr>"

definition allow :: "int \<Rightarrow> breaker \<Rightarrow> (breaker_error + permit) \<times> breaker_transition \<times> breaker" where
  "allow now b0 =
     (case advance now b0 of (tr, b) \<Rightarrow>
        (case br_state b of
           StateClosed \<Rightarrow> (Inr \<lparr>pm_epoch = br_epoch b, pm_probe = False\<rparr>, tr, b)
         | StateOpen \<Rightarrow> (Inl ErrOpen, tr, b)
         | StateHalfOpen \<Rightarrow>
             if br_probe_in_flight b then (Inl ErrProbeInFlight, tr, b)
             else (Inr \<lparr>pm_epoch = br_epoch b, pm_probe = True\<rparr>, tr, b\<lparr>br_probe_in_flight := True\<rparr>)))"

record breaker_snapshot =
  sn_state :: breaker_state
  sn_consecutive :: int
  sn_open_until :: "int option"
  sn_probe_in_flight :: bool
  sn_epoch :: "64 word"

definition snapshot :: "int \<Rightarrow> breaker \<Rightarrow> breaker_snapshot \<times> breaker_transition \<times> breaker" where
  "snapshot now b0 =
     (case advance now b0 of (tr, b) \<Rightarrow>
        (\<lparr>sn_state = br_state b, sn_consecutive = br_consecutive b, sn_open_until = br_open_until b,
          sn_probe_in_flight = br_probe_in_flight b, sn_epoch = br_epoch b\<rparr>, tr, b))"

text \<open>
  \<open>withHalfOpenIdle\<close>: the callback is a step \<open>release\<close> on the durable state, run under the lock.
\<close>

definition with_half_open_idle ::
    "int \<Rightarrow> 64 word \<Rightarrow> ('s \<Rightarrow> ('e + int) \<times> 's) \<Rightarrow> breaker \<Rightarrow> 's \<Rightarrow>
     (('e + int) \<times> bool) \<times> breaker_transition \<times> breaker \<times> 's" where
  "with_half_open_idle now epoch release b0 s =
     (case advance now b0 of (tr, b) \<Rightarrow>
        if br_state b \<noteq> StateHalfOpen \<or> br_epoch b \<noteq> epoch \<or> br_probe_in_flight b
        then ((Inr 0, False), tr, b, s)
        else (case release s of (r, s') \<Rightarrow> ((r, True), tr, b, s')))"

text \<open>The effect of an accepted completion.\<close>

definition settle :: "int \<Rightarrow> completion_kind \<Rightarrow> breaker \<Rightarrow> breaker" where
  "settle now result b =
     (case br_state b of
        StateClosed \<Rightarrow>
          (case result of
             CompletionSuccess \<Rightarrow> b\<lparr>br_consecutive := 0\<rparr>
           | CompletionFailure \<Rightarrow>
               (let b' = b\<lparr>br_consecutive := br_consecutive b + 1\<rparr>
                in if br_consecutive b' \<ge> br_failures b' then open_breaker now b' else b')
           | CompletionAbort \<Rightarrow> b)
      | StateHalfOpen \<Rightarrow>
          (case result of
             CompletionSuccess \<Rightarrow> b\<lparr>br_state := StateClosed, br_consecutive := 0, br_open_until := None,
               br_probe_in_flight := False, br_epoch := br_epoch b + 1\<rparr>
           | _ \<Rightarrow> open_breaker now b)
      | StateOpen \<Rightarrow> b)"

definition accepts :: "permit \<Rightarrow> breaker \<Rightarrow> bool" where
  "accepts p b \<longleftrightarrow> pm_epoch p = br_epoch b \<and>
     (case br_state b of
        StateClosed \<Rightarrow> \<not> pm_probe p
      | StateHalfOpen \<Rightarrow> pm_probe p \<and> br_probe_in_flight b
      | StateOpen \<Rightarrow> False)"

definition breaker_complete :: "int \<Rightarrow> permit \<Rightarrow> completion_kind \<Rightarrow> breaker \<Rightarrow> breaker_transition \<times> breaker" where
  "breaker_complete now p result b =
     (if \<not> accepts p b then (no_transition b, b)
      else (let b' = settle now result b
            in (\<lparr>tr_from = br_state b, tr_to = br_state b', tr_changed = (br_state b \<noteq> br_state b'),
                 tr_accepted = True\<rparr>, b')))"

section \<open>Runs\<close>

text \<open>
  The breaker with the permits that are not completed yet: a permit leaves at its first
  completion (\<open>sync.Once\<close>).  \<open>bs_transitions\<close> counts state changes.
\<close>

record breaker_sys =
  bs_breaker :: breaker
  bs_permits :: "permit list"
  bs_transitions :: nat

definition count_changed :: "breaker_transition \<Rightarrow> nat" where
  "count_changed tr = (if tr_changed tr then 1 else 0)"

inductive breaker_step :: "breaker_sys \<Rightarrow> breaker_sys \<Rightarrow> bool" where
  admit: "allow now (bs_breaker s) = (Inr p, tr, b) \<Longrightarrow>
    breaker_step s \<lparr>bs_breaker = b, bs_permits = p # bs_permits s,
      bs_transitions = bs_transitions s + count_changed tr\<rparr>"
| reject: "allow now (bs_breaker s) = (Inl e, tr, b) \<Longrightarrow>
    breaker_step s (s\<lparr>bs_breaker := b, bs_transitions := bs_transitions s + count_changed tr\<rparr>)"
| look: "snapshot now (bs_breaker s) = (sn, tr, b) \<Longrightarrow>
    breaker_step s (s\<lparr>bs_breaker := b, bs_transitions := bs_transitions s + count_changed tr\<rparr>)"
| finish: "p \<in> set (bs_permits s) \<Longrightarrow> breaker_complete now p result (bs_breaker s) = (tr, b) \<Longrightarrow>
    breaker_step s \<lparr>bs_breaker = b, bs_permits = remove1 p (bs_permits s),
      bs_transitions = bs_transitions s + count_changed tr\<rparr>"

definition start_sys :: "breaker \<Rightarrow> breaker_sys" where
  "start_sys b = \<lparr>bs_breaker = b, bs_permits = [], bs_transitions = 0\<rparr>"

inductive breaker_reaches :: "breaker_config \<Rightarrow> breaker_sys \<Rightarrow> bool" for config where
  new: "new_breaker config = Inr b \<Longrightarrow> breaker_reaches config (start_sys b)"
| step: "breaker_reaches config s \<Longrightarrow> breaker_step s s' \<Longrightarrow> breaker_reaches config s'"

inductive_cases breaker_stepE: "breaker_step s s'"

section \<open>The invariant\<close>

text \<open>
  \<open>live s\<close> are the outstanding probes of the current epoch: there is one exactly when the
  breaker is half open with a probe in flight.  A permit never comes from a later epoch: its age
  in transitions is the difference of the epochs, as long as the counter has not wrapped.
\<close>

definition live :: "breaker_sys \<Rightarrow> nat" where
  "live s = length (filter (\<lambda>p. pm_epoch p = br_epoch (bs_breaker s) \<and> pm_probe p) (bs_permits s))"

definition breaker_ok :: "breaker \<Rightarrow> bool" where
  "breaker_ok b \<longleftrightarrow> 0 < br_failures b \<and> 0 < br_open_for b \<and> 0 \<le> br_consecutive b \<and>
     (br_state b = StateClosed \<longrightarrow> br_consecutive b < br_failures b \<and> \<not> br_probe_in_flight b) \<and>
     (br_state b = StateOpen \<longrightarrow> br_open_until b \<noteq> None \<and> \<not> br_probe_in_flight b)"

definition permit_ok :: "nat \<Rightarrow> breaker_state \<Rightarrow> permit \<Rightarrow> bool" where
  "permit_ok n st p \<longleftrightarrow> (\<exists>k\<le>n. pm_epoch p = word_of_nat k \<and> (pm_probe p \<and> k = n \<longrightarrow> st = StateHalfOpen))"

definition sys_ok :: "breaker_sys \<Rightarrow> bool" where
  "sys_ok s \<longleftrightarrow> breaker_ok (bs_breaker s) \<and>
     br_epoch (bs_breaker s) = word_of_nat (bs_transitions s) \<and>
     (\<forall>p\<in>set (bs_permits s). permit_ok (bs_transitions s) (br_state (bs_breaker s)) p) \<and>
     (bs_transitions s < 2 ^ 64 \<longrightarrow> live s = (if br_probe_in_flight (bs_breaker s) then 1 else 0))"

lemma epoch_eq_iff:
  assumes "k < 2 ^ 64" "n < 2 ^ 64"
  shows "(word_of_nat k :: 64 word) = word_of_nat n \<longleftrightarrow> k = n"
  using assms by (simp add: word_of_nat_eq_iff take_bit_nat_eq_self)

lemma permit_ok_next: "permit_ok n st p \<Longrightarrow> permit_ok (Suc n) st' p"
  unfolding permit_ok_def by (metis le_SucI Suc_n_not_le_n)

lemma permit_ok_stale:
  assumes "permit_ok n st p" "n < m" "m < 2 ^ 64"
  shows "pm_epoch p \<noteq> word_of_nat m"
proof -
  obtain k where k: "k \<le> n" "pm_epoch p = word_of_nat k" using assms(1) by (auto simp: permit_ok_def)
  then have "k < 2 ^ 64" "k \<noteq> m" using assms by auto
  then show ?thesis using k(2) epoch_eq_iff[OF _ assms(3)] by auto
qed

lemma no_live_next:
  assumes "\<forall>p\<in>set ps. permit_ok n st p" "Suc n < 2 ^ 64"
  shows "filter (\<lambda>p. pm_epoch p = word_of_nat n + 1 \<and> pm_probe p) ps = []"
  using assms permit_ok_stale[of n st _ "Suc n"] by (fastforce simp: filter_empty_conv add.commute)

subsection \<open>One step of the breaker\<close>

lemma advance_cases:
  obtains (stay) "advance now b = (no_transition b, b)" "br_state b = StateOpen \<Longrightarrow> before now (br_open_until b)"
  | (cooled) "br_state b = StateOpen" "\<not> before now (br_open_until b)"
      "advance now b = (\<lparr>tr_from = StateOpen, tr_to = StateHalfOpen, tr_changed = True, tr_accepted = True\<rparr>,
         b\<lparr>br_state := StateHalfOpen, br_probe_in_flight := False, br_epoch := br_epoch b + 1\<rparr>)"
  by (cases "br_state b \<noteq> StateOpen \<or> before now (br_open_until b)") (auto simp: advance_def)

lemma advance_ok:
  assumes "sys_ok s" "advance now (bs_breaker s) = (tr, b)"
  shows "sys_ok (s\<lparr>bs_breaker := b, bs_transitions := bs_transitions s + count_changed tr\<rparr>)"
proof (cases rule: advance_cases[of now "bs_breaker s"])
  case stay
  then have "b = bs_breaker s" "count_changed tr = 0"
    using assms(2) by (auto simp: no_transition_def count_changed_def)
  then show ?thesis using assms(1) by simp
next
  case cooled
  let ?n = "bs_transitions s"
  have b: "b = (bs_breaker s)\<lparr>br_state := StateHalfOpen, br_probe_in_flight := False,
      br_epoch := word_of_nat ?n + 1\<rparr>" "count_changed tr = 1"
    using assms cooled by (auto simp: count_changed_def sys_ok_def)
  have ok: "\<forall>p\<in>set (bs_permits s). permit_ok ?n (br_state (bs_breaker s)) p" "breaker_ok (bs_breaker s)"
    using assms(1) by (auto simp: sys_ok_def)
  show ?thesis
    using ok no_live_next[OF ok(1)] permit_ok_next[of ?n _ _ StateHalfOpen]
    by (auto simp: sys_ok_def b breaker_ok_def live_def add.commute)
qed

lemma admit_ok:
  assumes "sys_ok s" "br_state (bs_breaker s) = StateClosed"
  shows "sys_ok (s\<lparr>bs_permits := \<lparr>pm_epoch = br_epoch (bs_breaker s), pm_probe = False\<rparr> # bs_permits s\<rparr>)"
  using assms by (auto simp: sys_ok_def live_def permit_ok_def)

lemma probe_ok:
  assumes "sys_ok s" "br_state (bs_breaker s) = StateHalfOpen" "\<not> br_probe_in_flight (bs_breaker s)"
  shows "sys_ok (s\<lparr>bs_breaker := (bs_breaker s)\<lparr>br_probe_in_flight := True\<rparr>,
           bs_permits := \<lparr>pm_epoch = br_epoch (bs_breaker s), pm_probe = True\<rparr> # bs_permits s\<rparr>)"
  using assms by (auto simp: sys_ok_def live_def permit_ok_def breaker_ok_def)

text \<open>An accepted completion either keeps the state, with a counter below the threshold, or
  moves to the next epoch with no probe in flight.\<close>

lemma settle_result:
  assumes "breaker_ok b" "accepts p b"
  shows "\<not> br_probe_in_flight (settle now r b)" "breaker_ok (settle now r b)"
    "br_state (settle now r b) = br_state b \<Longrightarrow> br_state b = StateClosed \<and> \<not> pm_probe p \<and>
       br_epoch (settle now r b) = br_epoch b"
    "br_state (settle now r b) \<noteq> br_state b \<Longrightarrow> br_epoch (settle now r b) = br_epoch b + 1"
  using assms
  by (auto simp: accepts_def settle_def open_breaker_def breaker_ok_def Let_def
           split: breaker_state.splits completion_kind.splits if_splits)

lemma complete_ok:
  assumes ok: "sys_ok s" and p: "p \<in> set (bs_permits s)" and c: "breaker_complete now p r (bs_breaker s) = (tr, b)"
  shows "sys_ok \<lparr>bs_breaker = b, bs_permits = remove1 p (bs_permits s),
           bs_transitions = bs_transitions s + count_changed tr\<rparr>"
proof -
  let ?n = "bs_transitions s" and ?b = "bs_breaker s"
  have I: "\<forall>q\<in>set (bs_permits s). permit_ok ?n (br_state ?b) q" "breaker_ok ?b"
      "br_epoch ?b = word_of_nat ?n" "?n < 2 ^ 64 \<Longrightarrow> live s = (if br_probe_in_flight ?b then 1 else 0)"
    using ok by (auto simp: sys_ok_def)
  have rest: "\<forall>q\<in>set (remove1 p (bs_permits s)). permit_ok ?n (br_state ?b) q"
    using I(1) notin_set_remove1 by fastforce
  let ?L = "\<lambda>q. pm_epoch q = br_epoch ?b \<and> pm_probe q"
  have same: "length (filter ?L (remove1 p (bs_permits s))) = live s" if "\<not> ?L p"
    using that by (simp add: live_def filter_remove1 remove1_idem)
  show ?thesis
  proof (cases "accepts p ?b")
    case False
    then have b: "b = ?b" "count_changed tr = 0"
      using c by (auto simp: breaker_complete_def no_transition_def count_changed_def)
    have "\<not> ?L p" if n: "?n < 2 ^ 64"
    proof
      assume L: "?L p"
      obtain k where k: "k \<le> ?n" "pm_epoch p = word_of_nat k" "pm_probe p \<and> k = ?n \<longrightarrow> br_state ?b = StateHalfOpen"
        using I(1) p by (auto simp: permit_ok_def)
      then have "k = ?n" using L I(3) n epoch_eq_iff[of k ?n] by auto
      moreover have "live s \<noteq> 0" using L p by (auto simp: live_def filter_empty_conv)
      ultimately show False using k L I(4)[OF n] False by (auto simp: accepts_def split: if_splits)
    qed
    then show ?thesis using I rest same by (auto simp: sys_ok_def b live_def)
  next
    case True
    then have b: "b = settle now r ?b" and tr: "count_changed tr = (if br_state ?b \<noteq> br_state b then 1 else 0)"
      using c by (auto simp: breaker_complete_def Let_def count_changed_def)
    note settled = settle_result[OF I(2) True, of now r, folded b]
    show ?thesis
    proof (cases "br_state b = br_state ?b")
      case True
      then have "\<not> ?L p" "\<not> br_probe_in_flight ?b" using settled I(2) by (auto simp: breaker_ok_def)
      then show ?thesis using settled same rest I tr True by (auto simp: sys_ok_def live_def)
    next
      case False
      then show ?thesis
        using rest I(3) no_live_next[OF rest] permit_ok_next[of ?n _ _ "br_state b"] tr settled
        by (auto simp: sys_ok_def live_def)
    qed
  qed
qed

lemma allow_advance:
  "allow now b0 = (r, tr, b) \<Longrightarrow> \<exists>b1. advance now b0 = (tr, b1) \<and>
     (case br_state b1 of
        StateClosed \<Rightarrow> r = Inr \<lparr>pm_epoch = br_epoch b1, pm_probe = False\<rparr> \<and> b = b1
      | StateOpen \<Rightarrow> r = Inl ErrOpen \<and> b = b1
      | StateHalfOpen \<Rightarrow> if br_probe_in_flight b1 then r = Inl ErrProbeInFlight \<and> b = b1
          else r = Inr \<lparr>pm_epoch = br_epoch b1, pm_probe = True\<rparr> \<and> b = b1\<lparr>br_probe_in_flight := True\<rparr>)"
  by (auto simp: allow_def split: prod.splits breaker_state.splits if_splits)

lemma allow_ok:
  assumes "sys_ok s" "allow now (bs_breaker s) = (r, tr, b)"
  shows "sys_ok \<lparr>bs_breaker = b, bs_permits = (case r of Inr p \<Rightarrow> p # bs_permits s | Inl e \<Rightarrow> bs_permits s),
           bs_transitions = bs_transitions s + count_changed tr\<rparr>"
proof -
  obtain b1 where a: "advance now (bs_breaker s) = (tr, b1)"
    and c: "case br_state b1 of
        StateClosed \<Rightarrow> r = Inr \<lparr>pm_epoch = br_epoch b1, pm_probe = False\<rparr> \<and> b = b1
      | StateOpen \<Rightarrow> r = Inl ErrOpen \<and> b = b1
      | StateHalfOpen \<Rightarrow> if br_probe_in_flight b1 then r = Inl ErrProbeInFlight \<and> b = b1
          else r = Inr \<lparr>pm_epoch = br_epoch b1, pm_probe = True\<rparr> \<and> b = b1\<lparr>br_probe_in_flight := True\<rparr>"
    using allow_advance[OF assms(2)] by blast
  have "sys_ok (s\<lparr>bs_breaker := b1, bs_transitions := bs_transitions s + count_changed tr\<rparr>)"
    by (rule advance_ok[OF assms(1) a])
  from this admit_ok[OF this] probe_ok[OF this] c show ?thesis
    by (cases s) (auto split: breaker_state.splits if_splits)
qed

lemma breaker_step_ok: "breaker_step s s' \<Longrightarrow> sys_ok s \<Longrightarrow> sys_ok s'"
proof (induction rule: breaker_step.induct)
  case (admit now s p tr b) then show ?case using allow_ok[of s now "Inr p" tr b] by simp
next
  case (reject now s e tr b)
  have eq: "s\<lparr>bs_breaker := b, bs_transitions := bs_transitions s + count_changed tr\<rparr> =
      \<lparr>bs_breaker = b, bs_permits = bs_permits s, bs_transitions = bs_transitions s + count_changed tr\<rparr>" by (cases s) simp
  show ?case unfolding eq using allow_ok[OF reject(2,1)] by simp
next
  case (look now s sn tr b)
  then have "advance now (bs_breaker s) = (tr, b)" by (auto simp: snapshot_def split: prod.splits)
  then show ?case using advance_ok look by blast
next
  case (finish p s now r tr b) then show ?case by (rule complete_ok[rotated])
qed

lemma breaker_reaches_ok: "breaker_reaches config s \<Longrightarrow> sys_ok s"
proof (induction rule: breaker_reaches.induct)
  case (new b)
  then show ?case
    by (auto simp: new_breaker_def normalize_config_def sys_ok_def start_sys_def breaker_ok_def live_def Let_def
             split: if_splits)
qed (rule breaker_step_ok)

lemma breaker_step_counts: "breaker_step s s' \<Longrightarrow> bs_transitions s \<le> bs_transitions s'"
  by (induction rule: breaker_step.induct) auto

lemma breaker_run_counts: "breaker_step\<^sup>*\<^sup>* s s' \<Longrightarrow> bs_transitions s \<le> bs_transitions s'"
  by (induction rule: rtranclp_induct) (auto dest: breaker_step_counts)

lemma breaker_run_ok: "breaker_step\<^sup>*\<^sup>* s s' \<Longrightarrow> sys_ok s \<Longrightarrow> sys_ok s'"
  by (induction rule: rtranclp_induct) (auto dest: breaker_step_ok)

end
