(* ===== verification/Breaker_Properties.thy ===== *)
theory Breaker_Properties
  imports Breaker
begin

text \<open>
  What the circuit breaker promises its callers: one probe at a time, no admission during the
  cooldown, no effect of a permit that outlived its epoch, and an opening exactly at the
  threshold of consecutive failures.  Each property is followed by a concrete run.
\<close>

section \<open>Example runs\<close>

definition example_config :: breaker_config where
  "example_config = \<lparr>bc_failures = 2, bc_open_for = 10, bc_release_batch = 0\<rparr>"

definition example_breaker :: breaker where
  "example_breaker = \<lparr>br_failures = 2, br_open_for = 10, br_state = StateClosed, br_consecutive = 0,
     br_open_until = None, br_probe_in_flight = False, br_epoch = 0\<rparr>"

lemma example_new: "new_breaker example_config = Inr example_breaker"
  by (simp add: new_breaker_def normalize_config_def example_config_def example_breaker_def
      default_release_batch_def)

definition closed_permit :: permit where "closed_permit = \<lparr>pm_epoch = 0, pm_probe = False\<rparr>"

definition after_failures :: breaker where
  "after_failures = snd (breaker_complete 5 closed_permit CompletionFailure
     (snd (breaker_complete 4 closed_permit CompletionFailure example_breaker)))"

lemma after_failures_opens:
  "after_failures = example_breaker\<lparr>br_state := StateOpen, br_consecutive := 2,
     br_open_until := Some 15, br_epoch := 1\<rparr>"
  by (simp add: after_failures_def breaker_complete_def accepts_def settle_def closed_permit_def
      example_breaker_def open_breaker_def)

definition three_permits :: breaker_sys where
  "three_permits = \<lparr>bs_breaker = example_breaker,
     bs_permits = [closed_permit, closed_permit, closed_permit], bs_transitions = 0\<rparr>"

definition opened_sys :: breaker_sys where
  "opened_sys = \<lparr>bs_breaker = after_failures, bs_permits = [closed_permit], bs_transitions = 1\<rparr>"

definition probing_sys :: breaker_sys where
  "probing_sys = \<lparr>bs_breaker = example_breaker\<lparr>br_state := StateHalfOpen, br_consecutive := 2,
       br_open_until := Some 15, br_epoch := 2, br_probe_in_flight := True\<rparr>,
     bs_permits = [\<lparr>pm_epoch = 2, pm_probe = True\<rparr>, closed_permit], bs_transitions = 2\<rparr>"

lemma admits_closed:
  assumes "bs_breaker s = example_breaker"
  shows "breaker_step s (s\<lparr>bs_permits := closed_permit # bs_permits s\<rparr>)"
proof -
  have "allow 0 (bs_breaker s) = (Inr closed_permit, no_transition example_breaker, example_breaker)"
    using assms by (simp add: allow_def advance_def example_breaker_def closed_permit_def no_transition_def)
  from breaker_step.admit[OF this]
  have "breaker_step s \<lparr>bs_breaker = example_breaker, bs_permits = closed_permit # bs_permits s,
      bs_transitions = bs_transitions s\<rparr>"
    by (simp add: count_changed_def no_transition_def)
  moreover have "s\<lparr>bs_permits := closed_permit # bs_permits s\<rparr> =
      \<lparr>bs_breaker = example_breaker, bs_permits = closed_permit # bs_permits s,
       bs_transitions = bs_transitions s\<rparr>"
    using assms by (cases s) simp
  ultimately show ?thesis by simp
qed

lemma three_permits_reached: "breaker_reaches example_config three_permits"
proof -
  have "breaker_reaches example_config (start_sys example_breaker)"
    by (rule breaker_reaches.new[OF example_new])
  note breaker_reaches.step[OF this admits_closed]
  note breaker_reaches.step[OF this admits_closed]
  note breaker_reaches.step[OF this admits_closed]
  then show ?thesis by (simp add: three_permits_def start_sys_def)
qed

lemma fail_step:
  "closed_permit \<in> set (bs_permits s) \<Longrightarrow>
   breaker_step s \<lparr>bs_breaker = snd (breaker_complete now closed_permit CompletionFailure (bs_breaker s)),
     bs_permits = remove1 closed_permit (bs_permits s),
     bs_transitions = bs_transitions s + count_changed (fst (breaker_complete now closed_permit CompletionFailure (bs_breaker s)))\<rparr>"
  by (rule breaker_step.finish) simp_all

lemma opened_run: "breaker_step\<^sup>*\<^sup>* three_permits opened_sys"
proof -
  have 1: "breaker_step three_permits \<lparr>bs_breaker = example_breaker\<lparr>br_consecutive := 1\<rparr>,
      bs_permits = [closed_permit, closed_permit], bs_transitions = 0\<rparr>" (is "breaker_step _ ?s")
    using fail_step[of three_permits 4]
    by (simp add: three_permits_def breaker_complete_def accepts_def settle_def closed_permit_def
        example_breaker_def count_changed_def)
  have 2: "breaker_step ?s opened_sys"
    using fail_step[of ?s 5]
    by (simp add: breaker_complete_def accepts_def settle_def closed_permit_def open_breaker_def
        example_breaker_def count_changed_def opened_sys_def after_failures_opens)
  show ?thesis using 1 2 by (rule converse_rtranclp_into_rtranclp[OF _ r_into_rtranclp])
qed

lemma probing_step: "breaker_step opened_sys probing_sys"
  using breaker_step.admit[of 20 opened_sys]
  by (simp add: opened_sys_def after_failures_opens allow_def advance_def before_def example_breaker_def
      probing_sys_def count_changed_def numeral_2_eq_2)

lemma probing_reached: "breaker_reaches example_config probing_sys"
proof -
  have "breaker_step\<^sup>*\<^sup>* s s' \<Longrightarrow> breaker_reaches c s \<Longrightarrow> breaker_reaches c s'" for s s' c
    by (induction rule: rtranclp_induct) (auto intro: breaker_reaches.step)
  then show ?thesis using three_permits_reached opened_run probing_step breaker_reaches.step by blast
qed

section \<open>Properties\<close>

text \<open>C17: At most one probe is outstanding.  In every run of the breaker with fewer than
  \<open>2 ^ 64\<close> state changes, at most one unfinished probe belongs to the current epoch, and while it
  is outstanding every further request is rejected with \<open>ErrProbeInFlight\<close> and changes nothing.\<close>

theorem at_most_one_probe:
  assumes "breaker_reaches config s" "bs_transitions s < 2 ^ 64"
  shows "live s \<le> 1 \<and>
    (live s = 1 \<longrightarrow> allow now (bs_breaker s) =
       (Inl ErrProbeInFlight, no_transition (bs_breaker s), bs_breaker s))"
proof -
  have "sys_ok s" by (rule breaker_reaches_ok[OF assms(1)])
  then have "breaker_ok (bs_breaker s)" "live s = (if br_probe_in_flight (bs_breaker s) then 1 else 0)"
    using assms(2) by (auto simp: sys_ok_def)
  then show ?thesis
    by (cases "br_state (bs_breaker s)") (auto simp: breaker_ok_def allow_def advance_def)
qed

lemma at_most_one_probe_witness:
  "live probing_sys = 1 \<and> allow 21 (bs_breaker probing_sys) =
       (Inl ErrProbeInFlight, no_transition (bs_breaker probing_sys), bs_breaker probing_sys)"
proof -
  have one: "live probing_sys = 1" by code_simp
  have "bs_transitions probing_sys < 2 ^ 64" by (simp add: probing_sys_def)
  from at_most_one_probe[OF probing_reached this, of 21] one show ?thesis by simp
qed

text \<open>A permit that outlived its epoch is inert.  Once the breaker has changed state since
  a permit was outstanding, completing that permit, with any result, changes nothing and is
  reported as not accepted, whatever the breaker did in between (below \<open>2 ^ 64\<close> state changes).\<close>

theorem old_permits_are_inert:
  assumes "breaker_reaches config s" "breaker_step\<^sup>*\<^sup>* s s'" "p \<in> set (bs_permits s)"
    and "bs_transitions s < bs_transitions s'" "bs_transitions s' < 2 ^ 64"
  shows "breaker_complete now p result (bs_breaker s') = (no_transition (bs_breaker s'), bs_breaker s')"
proof -
  have ok: "sys_ok s" "sys_ok s'"
    using breaker_reaches_ok[OF assms(1)] breaker_run_ok[OF assms(2)] by auto
  then have "permit_ok (bs_transitions s) (br_state (bs_breaker s)) p" using assms(3) by (simp add: sys_ok_def)
  then have "pm_epoch p \<noteq> br_epoch (bs_breaker s')"
    using permit_ok_stale[OF _ assms(4,5)] ok(2) by (simp add: sys_ok_def)
  then show ?thesis by (simp add: breaker_complete_def accepts_def)
qed

lemma old_permits_are_inert_witness:
  "breaker_complete 30 closed_permit CompletionFailure (bs_breaker probing_sys) =
     (no_transition (bs_breaker probing_sys), bs_breaker probing_sys)"
  by (rule old_permits_are_inert[OF three_permits_reached])
     (use opened_run probing_step in \<open>auto simp: three_permits_def probing_sys_def intro: rtranclp.rtrancl_into_rtrancl\<close>)

text \<open>The cooldown is respected.  When a completion opens the breaker, every request
  before the deadline is rejected with \<open>ErrOpen\<close> and changes nothing; the first request at or
  after the deadline gets a probe of the next epoch, and every request after that one, at any
  time, is rejected until the probe completes.\<close>

theorem cooldown_then_one_probe:
  assumes "breaker_complete t p result b = (tr, b')" "tr_accepted tr" "br_state b' = StateOpen"
  shows "(now < t + br_open_for b \<longrightarrow> allow now b' = (Inl ErrOpen, no_transition b', b')) \<and>
    (t + br_open_for b \<le> now \<longrightarrow>
       (\<exists>tr' b''. allow now b' = (Inr \<lparr>pm_epoch = br_epoch b + 2, pm_probe = True\<rparr>, tr', b'') \<and>
          br_state b'' = StateHalfOpen \<and>
          (\<forall>later. allow later b'' = (Inl ErrProbeInFlight, no_transition b'', b''))))"
proof -
  have "accepts p b" "b' = settle t result b"
    using assms(1,2) by (auto simp: breaker_complete_def no_transition_def Let_def split: if_splits)
  then have "br_open_until b' = Some (t + br_open_for b)" "br_epoch b' = br_epoch b + 1"
    using assms(3)
    by (auto simp: accepts_def settle_def open_breaker_def Let_def
             split: breaker_state.splits completion_kind.splits if_splits)
  then show ?thesis using assms(3)
    by (auto simp: allow_def advance_def before_def add.assoc)
qed

lemma cooldown_then_one_probe_witness:
  "allow 14 after_failures = (Inl ErrOpen, no_transition after_failures, after_failures) \<and>
   (\<exists>tr' b''. allow 15 after_failures = (Inr \<lparr>pm_epoch = 2, pm_probe = True\<rparr>, tr', b'') \<and>
      br_state b'' = StateHalfOpen \<and>
      (\<forall>later. allow later b'' = (Inl ErrProbeInFlight, no_transition b'', b'')))"
proof -
  let ?b = "snd (breaker_complete 4 closed_permit CompletionFailure example_breaker)"
  let ?tr = "fst (breaker_complete 5 closed_permit CompletionFailure ?b)"
  have c: "breaker_complete 5 closed_permit CompletionFailure ?b = (?tr, after_failures)"
    by (simp add: after_failures_def)
  have "tr_accepted ?tr" "br_state after_failures = StateOpen" "br_open_for ?b = 10" "br_epoch ?b = 0"
    by (simp_all add: after_failures_opens breaker_complete_def accepts_def settle_def closed_permit_def
        example_breaker_def open_breaker_def)
  then show ?thesis
    using cooldown_then_one_probe[OF c, of 14] cooldown_then_one_probe[OF c, of 15] by simp
qed

text \<open>The failures since the last success; an abort does not count and does not reset.\<close>

definition streak :: "completion_kind list \<Rightarrow> nat" where
  "streak = foldl (\<lambda>n r. case r of CompletionSuccess \<Rightarrow> 0 | CompletionFailure \<Rightarrow> Suc n | CompletionAbort \<Rightarrow> n) 0"

definition feed :: "permit \<Rightarrow> (int \<times> completion_kind) list \<Rightarrow> breaker \<Rightarrow> breaker" where
  "feed p = fold (\<lambda>(now, r) b. snd (breaker_complete now p r b))"

lemma streak_snoc:
  "streak (rs @ [r]) = (case r of CompletionSuccess \<Rightarrow> 0 | CompletionFailure \<Rightarrow> streak rs + 1 | CompletionAbort \<Rightarrow> streak rs)"
  by (cases r) (simp_all add: streak_def)

definition tripped :: "int \<Rightarrow> completion_kind list \<Rightarrow> bool" where
  "tripped n rs \<longleftrightarrow> (\<exists>k\<le>length rs. n \<le> int (streak (take k rs)))"

lemma tripped_snoc: "tripped n (rs @ [r]) \<longleftrightarrow> tripped n rs \<or> n \<le> int (streak (rs @ [r]))"
  unfolding tripped_def by (auto simp: le_Suc_eq)

text \<open>C18: The breaker opens exactly at its threshold.  Feed any sequence of completions of
  calls admitted by a new breaker: it is open when, after some prefix, the failures since the
  last success reached the configured number, and otherwise it is closed with exactly that
  count; aborted calls neither count nor reset.\<close>

theorem opens_at_the_threshold:
  assumes "new_breaker config = Inr b"
    and "b' = feed \<lparr>pm_epoch = br_epoch b, pm_probe = False\<rparr> rs b"
  shows "if tripped (bc_failures config) (map snd rs) then br_state b' = StateOpen
         else b' = b\<lparr>br_consecutive := int (streak (map snd rs))\<rparr>"
proof -
  have b: "br_state b = StateClosed" "br_failures b = bc_failures config" "0 < br_failures b"
      "br_consecutive b = 0"
    using assms(1) by (auto simp: new_breaker_def normalize_config_def Let_def split: if_splits)
  show ?thesis
    unfolding assms(2)
  proof (induction rs rule: rev_induct)
    case Nil
    then show ?case using b by (simp add: feed_def tripped_def streak_def)
  next
    case (snoc x rs)
    obtain now r where x: "x = (now, r)" by (cases x)
    let ?p = "\<lparr>pm_epoch = br_epoch b, pm_probe = False\<rparr>"
    have step: "feed ?p (rs @ [(now, q)]) b = snd (breaker_complete now ?p q (feed ?p rs b))" for q
      by (simp add: feed_def)
    show ?case
    proof (cases "tripped (bc_failures config) (map snd rs)")
      case True
      then show ?thesis using snoc by (simp add: step x tripped_snoc breaker_complete_def accepts_def)
    next
      case False
      then have "feed ?p rs b = b\<lparr>br_consecutive := int (streak (map snd rs))\<rparr>"
          "int (streak (map snd rs)) < br_failures b"
        using snoc b(2) by (auto simp: tripped_def dest: spec[of _ "length rs"])
      then show ?thesis using b False
        by (cases r)
           (auto simp: step x tripped_snoc streak_snoc breaker_complete_def accepts_def settle_def
              open_breaker_def Let_def)
    qed
  qed
qed

lemma opens_at_the_threshold_witness:
  "br_state (feed closed_permit [(1, CompletionFailure), (2, CompletionAbort), (3, CompletionFailure)]
     example_breaker) = StateOpen"
proof -
  have p: "\<lparr>pm_epoch = br_epoch example_breaker, pm_probe = False\<rparr> = closed_permit"
    by (simp add: example_breaker_def closed_permit_def)
  have "tripped (bc_failures example_config) [CompletionFailure, CompletionAbort, CompletionFailure]"
    unfolding tripped_def by (rule exI[of _ 3]) (simp add: streak_def example_config_def)
  then show ?thesis
    using opens_at_the_threshold[OF example_new refl,
        of "[(1, CompletionFailure), (2, CompletionAbort), (3, CompletionFailure)]"]
    by (simp add: p)
qed

end
