(* ===== verification/Controller.thy ===== *)
theory Controller
  imports Breaker
begin

text \<open>
  The controller that couples the breaker to durable parking, \<open>internal/pipeline/embed/controller.go\<close>.
  The store is an argument: the operations of the interfaces \<open>WaitingStore\<close> and \<open>WaitingBatchStore\<close>
  over any state.  Each handler is one function that runs all its calls in the order of the code;
  the interleaving of handlers is the subject of \<open>Controller_Steps\<close>.

  A handler observes its context and the clock several times; \<open>env\<close> holds the answers by index.
  \<open>en_rounds\<close> bounds the drain loop (\<open>Controller_Laws\<close> shows how many rounds are enough).
\<close>

section \<open>Data\<close>

record env =
  en_cancelled :: "nat \<Rightarrow> bool"
  en_now :: "nat \<Rightarrow> int"
  en_rounds :: nat

text \<open>\<open>wt_park_batch\<close> is \<open>None\<close> for a store without \<open>WaitingBatchStore\<close>.  The first argument of
  a call is whether its context is cancelled, the second the store's clock.\<close>

record ('e, 's) waiting_ops =
  wt_park :: "bool \<Rightarrow> int \<Rightarrow> int \<Rightarrow> string \<Rightarrow> 's \<Rightarrow> ('e + unit) \<times> 's"
  wt_park_batch :: "(bool \<Rightarrow> int \<Rightarrow> int list \<Rightarrow> string \<Rightarrow> 's \<Rightarrow> ('e + unit) \<times> 's) option"
  wt_release :: "bool \<Rightarrow> int \<Rightarrow> int \<Rightarrow> 's \<Rightarrow> ('e + int) \<times> 's"

datatype 'd cause = Rejected breaker_error | Dependency 'd

datatype ('e, 'd) controller_error =
  ErrWaitingDependency "int list" "'d cause option"
| ErrAlreadyRunning
| ErrInvalidTaskID
| ErrContext
| ErrPark "int list" 'e
| ErrNoBatchParking
| ErrRelease 'e
| ErrReleasedCount int int
| ErrRejection breaker_error
| ErrDependency 'd
| OutOfRounds

record ('e, 'd) cause_ops =
  co_message :: "'d \<Rightarrow> string"
  co_is_failure :: "'d \<Rightarrow> bool"

record 's controller =
  ct_store :: 's
  ct_breaker :: breaker
  ct_release_batch :: int
  ct_open_for :: int
  ct_wake :: bool
  ct_running :: bool
  ct_waiter_version :: "64 word"
  ct_drain_pending :: bool
  ct_notified :: nat
  ct_observed :: "breaker_transition list"

definition new_controller :: "'s \<Rightarrow> breaker_config \<Rightarrow> breaker_error + 's controller" where
  "new_controller store config =
     (case normalize_config config of
        Inl e \<Rightarrow> Inl e
      | Inr normalized \<Rightarrow> (case new_breaker normalized of
          Inl e \<Rightarrow> Inl e
        | Inr b \<Rightarrow> Inr \<lparr>ct_store = store, ct_breaker = b, ct_release_batch = bc_release_batch normalized,
            ct_open_for = bc_open_for normalized, ct_wake = False, ct_running = False,
            ct_waiter_version = 0, ct_drain_pending = True, ct_notified = 0, ct_observed = []\<rparr>))"

section \<open>Signals and transitions\<close>

definition signal :: "'s controller \<Rightarrow> 's controller" where
  "signal c = c\<lparr>ct_wake := True\<rparr>"

definition request_drain :: "'s controller \<Rightarrow> 's controller" where
  "request_drain c = signal (c\<lparr>ct_drain_pending := True\<rparr>)"

definition notify_transition :: "breaker_transition \<Rightarrow> 's controller \<Rightarrow> 's controller" where
  "notify_transition tr c = (if tr_changed tr then c\<lparr>ct_observed := ct_observed c @ [tr]\<rparr> else c)"

definition after_transition :: "breaker_transition \<Rightarrow> 's controller \<Rightarrow> 's controller" where
  "after_transition tr c =
     (if \<not> tr_changed tr then c
      else signal (if tr_to tr = StateClosed then request_drain c else c))"

definition notify_released :: "int \<Rightarrow> 's controller \<Rightarrow> 's controller" where
  "notify_released released c = (if released > 0 then c\<lparr>ct_notified := ct_notified c + 1\<rparr> else c)"

text \<open>The methods of the breaker, inside the controller.\<close>

definition breaker_allow :: "int \<Rightarrow> 's controller \<Rightarrow> (breaker_error + permit) \<times> 's controller" where
  "breaker_allow now c =
     (case allow now (ct_breaker c) of (r, tr, b) \<Rightarrow> (r, notify_transition tr (c\<lparr>ct_breaker := b\<rparr>)))"

definition breaker_snapshot_of :: "int \<Rightarrow> 's controller \<Rightarrow> breaker_snapshot \<times> 's controller" where
  "breaker_snapshot_of now c =
     (case snapshot now (ct_breaker c) of (sn, tr, b) \<Rightarrow> (sn, notify_transition tr (c\<lparr>ct_breaker := b\<rparr>)))"

definition breaker_state_of :: "int \<Rightarrow> 's controller \<Rightarrow> breaker_state \<times> 's controller" where
  "breaker_state_of now c = apfst sn_state (breaker_snapshot_of now c)"

definition permit_finish ::
    "int \<Rightarrow> permit \<Rightarrow> completion_kind \<Rightarrow> 's controller \<Rightarrow> breaker_transition \<times> 's controller" where
  "permit_finish now p result c =
     (case breaker_complete now p result (ct_breaker c) of (tr, b) \<Rightarrow> (tr, notify_transition tr (c\<lparr>ct_breaker := b\<rparr>)))"

section \<open>Draining\<close>

text \<open>One release of the loop: \<open>Inl\<close> ends it with an error, \<open>Inr True\<close> when nothing is left.\<close>

definition release_round ::
    "('e, 's) waiting_ops \<Rightarrow> bool \<Rightarrow> bool \<Rightarrow> int \<Rightarrow> 's controller \<Rightarrow>
     (('e, 'd) controller_error + bool) \<times> 's controller" where
  "release_round ops cancelled call_cancelled now c =
     (if cancelled then (Inl ErrContext, c)
      else case wt_release ops call_cancelled now (ct_release_batch c) (ct_store c) of
        (Inl e, s) \<Rightarrow> (Inl (ErrRelease e), c\<lparr>ct_store := s\<rparr>)
      | (Inr released, s) \<Rightarrow>
          (if released < 0 \<or> released > ct_release_batch c
           then (Inl (ErrReleasedCount released (ct_release_batch c)), c\<lparr>ct_store := s\<rparr>)
           else (Inr (released < ct_release_batch c), notify_released released (c\<lparr>ct_store := s\<rparr>))))"

fun drain_loop ::
    "nat \<Rightarrow> nat \<Rightarrow> ('e, 's) waiting_ops \<Rightarrow> env \<Rightarrow> 's controller \<Rightarrow>
     (('e, 'd) controller_error + unit) \<times> 's controller" where
  "drain_loop 0 i ops en c = (Inl OutOfRounds, c)"
| "drain_loop (Suc n) i ops en c =
     (case release_round ops (en_cancelled en i) (en_cancelled en (i + 1)) (en_now en i) c of
        (Inl e, c') \<Rightarrow> (Inl e, c')
      | (Inr True, c') \<Rightarrow> (Inr (), c'\<lparr>ct_drain_pending := False\<rparr>)
      | (Inr False, c') \<Rightarrow> drain_loop n (i + 2) ops en c')"

definition drain_waiting ::
    "nat \<Rightarrow> ('e, 's) waiting_ops \<Rightarrow> env \<Rightarrow> 's controller \<Rightarrow>
     (('e, 'd) controller_error + unit) \<times> 's controller" where
  "drain_waiting i ops en c =
     (if \<not> ct_drain_pending c then (Inr (), c) else drain_loop (en_rounds en) i ops en c)"

section \<open>Parking\<close>

fun dedup_ids :: "int set \<Rightarrow> int list \<Rightarrow> ('e, 'd) controller_error + int list" where
  "dedup_ids seen [] = Inr []"
| "dedup_ids seen (i # is) =
     (if i \<le> 0 then Inl ErrInvalidTaskID
      else if i \<in> seen then dedup_ids seen is
      else map_sum id (\<lambda>ids. i # ids) (dedup_ids (insert i seen) is))"

definition validated_task_ids :: "bool \<Rightarrow> int list \<Rightarrow> ('e, 'd) controller_error + int list" where
  "validated_task_ids cancelled task_ids =
     (if cancelled then Inl ErrContext
      else if task_ids = [] then Inl ErrInvalidTaskID
      else dedup_ids {} task_ids)"

definition breaker_message :: "breaker_error \<Rightarrow> string" where
  "breaker_message e = (case e of
     ErrOpen \<Rightarrow> ''embed breaker: dependency is unavailable''
   | ErrProbeInFlight \<Rightarrow> ''embed breaker: half-open probe is already in flight''
   | ErrBreakerConfig s \<Rightarrow> ''embed breaker: invalid configuration: '' @ s)"

definition park_reason :: "('e, 'd) cause_ops \<Rightarrow> 'd cause option \<Rightarrow> string" where
  "park_reason co cause = (case cause of
     None \<Rightarrow> breaker_message ErrOpen
   | Some (Rejected e) \<Rightarrow> breaker_message e
   | Some (Dependency d) \<Rightarrow> co_message co d)"

definition park_store ::
    "('e, 's) waiting_ops \<Rightarrow> bool \<Rightarrow> int \<Rightarrow> int list \<Rightarrow> string \<Rightarrow> 's \<Rightarrow>
     (('e, 'd) controller_error + unit) \<times> 's" where
  "park_store ops cancelled now ids reason s =
     (case wt_park_batch ops of
        Some f \<Rightarrow> apfst (map_sum (ErrPark ids) id) (f cancelled now ids reason s)
      | None \<Rightarrow>
          (case ids of
             [i] \<Rightarrow> apfst (map_sum (ErrPark ids) id) (wt_park ops cancelled now i reason s)
           | _ \<Rightarrow> (Inl ErrNoBatchParking, s)))"

text \<open>The durable part of \<open>parkBatch\<close>, then its check for a breaker that closed meanwhile.\<close>

definition park_write ::
    "('e, 's) waiting_ops \<Rightarrow> ('e, 'd) cause_ops \<Rightarrow> bool \<Rightarrow> int \<Rightarrow> int list \<Rightarrow> 'd cause option \<Rightarrow> 's controller \<Rightarrow>
     (('e, 'd) controller_error + unit) \<times> 's controller" where
  "park_write ops co cancelled now ids cause c =
     (case park_store ops cancelled now ids (park_reason co cause) (ct_store c) of
        (Inl e, s) \<Rightarrow> (Inl e, c\<lparr>ct_store := s\<rparr>)
      | (Inr _, s) \<Rightarrow>
          (Inr (), signal (c\<lparr>ct_store := s, ct_waiter_version := ct_waiter_version c + 1\<rparr>)))"

definition late_drain ::
    "nat \<Rightarrow> ('e, 's) waiting_ops \<Rightarrow> env \<Rightarrow> 's controller \<Rightarrow>
     (('e, 'd) controller_error + unit) \<times> 's controller" where
  "late_drain i ops en c =
     (case breaker_state_of (en_now en i) c of (st, c) \<Rightarrow>
        if st = StateClosed then drain_waiting (i + 1) ops en (request_drain c) else (Inr (), c))"

definition park_batch_at ::
    "nat \<Rightarrow> ('e, 's) waiting_ops \<Rightarrow> ('e, 'd) cause_ops \<Rightarrow> env \<Rightarrow> int list \<Rightarrow> 'd cause option \<Rightarrow> 's controller \<Rightarrow>
     ('e, 'd) controller_error \<times> 's controller" where
  "park_batch_at i ops co en ids cause c =
     (case park_write ops co (en_cancelled en i) (en_now en i) ids cause c of
        (Inl e, c) \<Rightarrow> (e, c)
      | (Inr _, c) \<Rightarrow>
          (case late_drain (i + 1) ops en c of
             (Inl e, c) \<Rightarrow> (e, c)
           | (Inr _, c) \<Rightarrow> (ErrWaitingDependency ids cause, c)))"

definition park_batch ::
    "('e, 's) waiting_ops \<Rightarrow> ('e, 'd) cause_ops \<Rightarrow> env \<Rightarrow> int list \<Rightarrow> 'd cause option \<Rightarrow> 's controller \<Rightarrow>
     ('e, 'd) controller_error \<times> 's controller" where
  "park_batch ops co en task_ids cause c =
     (case validated_task_ids (en_cancelled en 0) task_ids of
        Inl e \<Rightarrow> (e, c)
      | Inr ids \<Rightarrow> park_batch_at 1 ops co en ids cause c)"

definition park ::
    "('e, 's) waiting_ops \<Rightarrow> ('e, 'd) cause_ops \<Rightarrow> env \<Rightarrow> int \<Rightarrow> 'd cause option \<Rightarrow> 's controller \<Rightarrow>
     ('e, 'd) controller_error \<times> 's controller" where
  "park ops co en task_id = park_batch ops co en [task_id]"

section \<open>Calls\<close>

text \<open>A call is bound to the tasks of one RPC, or unbound (\<open>cl_ids = None\<close>) for a query.  \<open>cl_result\<close> is
  \<open>Some\<close> once the \<open>sync.Once\<close> ran.\<close>

record ('e, 'd) call =
  cl_ids :: "int list option"
  cl_permit :: permit
  cl_result :: "('e, 'd) controller_error option option"

definition acquire_batch ::
    "('e, 's) waiting_ops \<Rightarrow> ('e, 'd) cause_ops \<Rightarrow> env \<Rightarrow> int list \<Rightarrow> 's controller \<Rightarrow>
     (('e, 'd) controller_error + ('e, 'd) call) \<times> 's controller" where
  "acquire_batch ops co en task_ids c =
     (case validated_task_ids (en_cancelled en 0) task_ids of
        Inl e \<Rightarrow> (Inl e, c)
      | Inr ids \<Rightarrow>
          (case breaker_allow (en_now en 0) c of
             (Inl e, c) \<Rightarrow> apfst Inl (park_batch_at 1 ops co en ids (Some (Rejected e)) c)
           | (Inr p, c) \<Rightarrow> (Inr \<lparr>cl_ids = Some ids, cl_permit = p, cl_result = None\<rparr>, c)))"

definition acquire ::
    "('e, 's) waiting_ops \<Rightarrow> ('e, 'd) cause_ops \<Rightarrow> env \<Rightarrow> int \<Rightarrow> 's controller \<Rightarrow>
     (('e, 'd) controller_error + ('e, 'd) call) \<times> 's controller" where
  "acquire ops co en task_id = acquire_batch ops co en [task_id]"

text \<open>The body of \<open>finish\<close>; \<open>None\<close> is a nil cause.\<close>

definition finish_body ::
    "('e, 's) waiting_ops \<Rightarrow> ('e, 'd) cause_ops \<Rightarrow> env \<Rightarrow> int list option \<Rightarrow> permit \<Rightarrow> 'd option \<Rightarrow> bool \<Rightarrow> 's controller \<Rightarrow>
     ('e, 'd) controller_error option \<times> 's controller" where
  "finish_body ops co en ids p cause failed c =
     (if failed \<and> en_cancelled en 0 then
        (case permit_finish (en_now en 0) p CompletionAbort c of (tr, c) \<Rightarrow>
           (map_option ErrDependency cause, after_transition tr c))
      else if failed \<and> (case cause of Some d \<Rightarrow> co_is_failure co d | None \<Rightarrow> False) then
        (case permit_finish (en_now en 0) p CompletionFailure c of (tr, c) \<Rightarrow>
           (case ids of
              Some is \<Rightarrow> apfst Some (park_batch_at 1 ops co en is (map_option Dependency cause) (after_transition tr c))
            | None \<Rightarrow> (map_option ErrDependency cause, after_transition tr c)))
      else
        (case permit_finish (en_now en 0) p CompletionSuccess c of (tr, c) \<Rightarrow>
           (case drain_waiting 1 ops en (after_transition tr c) of
              (Inl e, c) \<Rightarrow> (Some e, c)
            | (Inr _, c) \<Rightarrow> (map_option ErrDependency cause, c))))"

definition call_finish ::
    "('e, 's) waiting_ops \<Rightarrow> ('e, 'd) cause_ops \<Rightarrow> env \<Rightarrow> 'd option \<Rightarrow> bool \<Rightarrow> ('e, 'd) call \<Rightarrow> 's controller \<Rightarrow>
     ('e, 'd) controller_error option \<times> ('e, 'd) call \<times> 's controller" where
  "call_finish ops co en cause failed cl c =
     (case cl_result cl of
        Some r \<Rightarrow> (r, cl, c)
      | None \<Rightarrow>
          (case finish_body ops co en (cl_ids cl) (cl_permit cl) cause failed c of (r, c) \<Rightarrow>
             (r, cl\<lparr>cl_result := Some r\<rparr>, c)))"

definition call_success ::
    "('e, 's) waiting_ops \<Rightarrow> ('e, 'd) cause_ops \<Rightarrow> env \<Rightarrow> ('e, 'd) call \<Rightarrow> 's controller \<Rightarrow>
     ('e, 'd) controller_error option \<times> ('e, 'd) call \<times> 's controller" where
  "call_success ops co en = call_finish ops co en None False"

definition call_failure ::
    "('e, 's) waiting_ops \<Rightarrow> ('e, 'd) cause_ops \<Rightarrow> env \<Rightarrow> 'd option \<Rightarrow> ('e, 'd) call \<Rightarrow> 's controller \<Rightarrow>
     ('e, 'd) controller_error option \<times> ('e, 'd) call \<times> 's controller" where
  "call_failure ops co en cause =
     (if cause = None then call_success ops co en else call_finish ops co en cause True)"

definition call_abort ::
    "int \<Rightarrow> ('e, 'd) call \<Rightarrow> 's controller \<Rightarrow> ('e, 'd) call \<times> 's controller" where
  "call_abort now cl c =
     (case cl_result cl of
        Some r \<Rightarrow> (cl, c)
      | None \<Rightarrow>
          (case permit_finish now (cl_permit cl) CompletionAbort c of (tr, c) \<Rightarrow>
             (cl\<lparr>cl_result := Some None\<rparr>, after_transition tr c)))"

text \<open>
  \<open>Execute\<close> and \<open>ExecuteUnbound\<close>: the operation is a step of the store state that returns an error or
  \<open>None\<close>; \<open>en\<close> serves the acquisition, \<open>cancelled\<close> the check after a failed operation, \<open>en'\<close> the completion.  The deferred \<open>Abort\<close> is a no-op after
  a completion.  (A panic runs only the deferred \<open>Abort\<close>: \<open>call_abort\<close>.)
\<close>

definition run_call ::
    "('e, 's) waiting_ops \<Rightarrow> ('e, 'd) cause_ops \<Rightarrow> env \<Rightarrow> bool \<Rightarrow> ('s \<Rightarrow> 'd option \<times> 's) \<Rightarrow> ('e, 'd) call \<Rightarrow> 's controller \<Rightarrow>
     ('e, 'd) controller_error option \<times> 's controller" where
  "run_call ops co en cancelled operation cl c =
     (case operation (ct_store c) of (err, s) \<Rightarrow>
        (let c = c\<lparr>ct_store := s\<rparr> in
         case err of
           None \<Rightarrow> (case call_success ops co en cl c of (r, cl, c) \<Rightarrow> (r, snd (call_abort (en_now en 0) cl c)))
         | Some d \<Rightarrow>
             if cancelled then (Some (ErrDependency d), snd (call_abort (en_now en 0) cl c))
             else (case call_failure ops co en (Some d) cl c of (r, cl, c) \<Rightarrow>
                     (r, snd (call_abort (en_now en 0) cl c)))))"

definition execute ::
    "('e, 's) waiting_ops \<Rightarrow> ('e, 'd) cause_ops \<Rightarrow> env \<Rightarrow> bool \<Rightarrow> env \<Rightarrow> int \<Rightarrow> ('s \<Rightarrow> 'd option \<times> 's) \<Rightarrow> 's controller \<Rightarrow>
     ('e, 'd) controller_error option \<times> 's controller" where
  "execute ops co en cancelled en' task_id operation c =
     (case acquire ops co en task_id c of
        (Inl e, c) \<Rightarrow> (Some e, c)
      | (Inr cl, c) \<Rightarrow> run_call ops co en' cancelled operation cl c)"

definition execute_unbound ::
    "('e, 's) waiting_ops \<Rightarrow> ('e, 'd) cause_ops \<Rightarrow> env \<Rightarrow> bool \<Rightarrow> env \<Rightarrow> ('s \<Rightarrow> 'd option \<times> 's) \<Rightarrow> 's controller \<Rightarrow>
     ('e, 'd) controller_error option \<times> 's controller" where
  "execute_unbound ops co en cancelled en' operation c =
     (if en_cancelled en 0 then (Some ErrContext, c)
      else case breaker_allow (en_now en 0) c of
        (Inl e, c) \<Rightarrow> (Some (ErrRejection e), c)
      | (Inr p, c) \<Rightarrow> run_call ops co en' cancelled operation \<lparr>cl_ids = None, cl_permit = p, cl_result = None\<rparr> c)"

section \<open>Run\<close>

record run_loop =
  rl_probe_epoch :: "64 word"
  rl_released_probe :: bool
  rl_attempted_version :: "64 word"
  rl_deadline :: "int option"
  rl_watchdog :: bool

definition new_run_loop :: run_loop where
  "new_run_loop = \<lparr>rl_probe_epoch = 0, rl_released_probe = False, rl_attempted_version = 0,
     rl_deadline = None, rl_watchdog = False\<rparr>"

definition enter_epoch :: "breaker_snapshot \<Rightarrow> run_loop \<Rightarrow> run_loop" where
  "enter_epoch sn l =
     (if sn_epoch sn \<noteq> rl_probe_epoch l then new_run_loop\<lparr>rl_probe_epoch := sn_epoch sn\<rparr> else l)"

definition half_open_idle :: "breaker_snapshot \<Rightarrow> bool" where
  "half_open_idle sn \<longleftrightarrow> sn_state sn = StateHalfOpen \<and> \<not> sn_probe_in_flight sn"

definition expire_watchdog :: "breaker_snapshot \<Rightarrow> int \<Rightarrow> run_loop \<Rightarrow> run_loop" where
  "expire_watchdog sn now l =
     (if half_open_idle sn \<and> rl_released_probe l \<and> \<not> before now (rl_deadline l)
      then l\<lparr>rl_released_probe := False, rl_watchdog := True\<rparr> else l)"

text \<open>The release of one probe candidate, under the breaker's lock.\<close>

definition release_probe ::
    "('e, 's) waiting_ops \<Rightarrow> env \<Rightarrow> nat \<Rightarrow> breaker_snapshot \<Rightarrow> 64 word \<Rightarrow> run_loop \<Rightarrow> 's controller \<Rightarrow>
     (('e, 'd) controller_error option + run_loop) \<times> 's controller" where
  "release_probe ops en i sn version l c =
     (case with_half_open_idle (en_now en i) (sn_epoch sn)
             (\<lambda>s. wt_release ops (en_cancelled en i) (en_now en i) 1 s) (ct_breaker c) (ct_store c) of
        ((r, attempted), tr, b, s) \<Rightarrow>
          (let c = notify_transition tr (c\<lparr>ct_breaker := b, ct_store := s\<rparr>) in
           case r of
             Inl e \<Rightarrow> (Inl (if en_cancelled en (i + 1) then None else Some (ErrRelease e)), c)
           | Inr released \<Rightarrow>
               if released < 0 \<or> released > 1 then (Inl (Some (ErrReleasedCount released 1)), c)
               else if \<not> attempted then (Inr l, c)
               else (Inr (l\<lparr>rl_attempted_version := version, rl_watchdog := False,
                             rl_released_probe := released > 0,
                             rl_deadline := (if released > 0 then Some (en_now en (i + 1) + ct_open_for c)
                                             else rl_deadline l)\<rparr>),
                     notify_released released c)))"

text \<open>The timer armed before the \<open>select\<close>: the delay until it fires, if any.\<close>

definition armed_timer :: "breaker_snapshot \<Rightarrow> run_loop \<Rightarrow> int \<Rightarrow> int option" where
  "armed_timer sn l now =
     (if sn_state sn = StateOpen then map_option (\<lambda>t. max 0 (t - now)) (sn_open_until sn)
      else if half_open_idle sn \<and> rl_released_probe l then map_option (\<lambda>t. max 0 (t - now)) (rl_deadline l)
      else None)"

text \<open>
  One iteration of the loop up to its \<open>select\<close>: \<open>Inl\<close> returns from \<open>Run\<close>, with an error or nil;
  \<open>Inr\<close> blocks with a timer.  Observations \<open>0 \<le> k < 4\<close> belong to the body, the rest to the drain.
\<close>

definition run_iteration ::
    "('e, 's) waiting_ops \<Rightarrow> env \<Rightarrow> run_loop \<Rightarrow> 's controller \<Rightarrow>
     (('e, 'd) controller_error option + (run_loop \<times> int option)) \<times> 's controller" where
  "run_iteration ops en l c =
     (case breaker_snapshot_of (en_now en 0) c of (sn, c) \<Rightarrow>
      (case (if sn_state sn = StateClosed \<and> ct_drain_pending c then drain_waiting 4 ops en c else (Inr (), c)) of
         (Inl e, c) \<Rightarrow> (Inl (if en_cancelled en 0 then None else Some e), c)
       | (Inr _, c) \<Rightarrow>
           (let l = expire_watchdog sn (en_now en 1) (enter_epoch sn l) in
            case (if half_open_idle sn \<and> \<not> rl_released_probe l \<and>
                     (rl_watchdog l \<or> rl_attempted_version l \<noteq> ct_waiter_version c)
                  then release_probe ops en 2 sn (ct_waiter_version c) l c else (Inr l, c)) of
              (Inl r, c) \<Rightarrow> (Inl r, c)
            | (Inr l, c) \<Rightarrow> (Inr (l, armed_timer sn l (en_now en 3)), c))))"

text \<open>The \<open>select\<close>: cancellation ends the loop, a wake token is consumed, the timer changes nothing.\<close>

datatype run_event = RunCancelled | RunWake | RunTimer

definition run_select :: "run_event \<Rightarrow> 's controller \<Rightarrow> 's controller option" where
  "run_select ev c = (case ev of
     RunCancelled \<Rightarrow> None
   | RunWake \<Rightarrow> if ct_wake c then Some (c\<lparr>ct_wake := False\<rparr>) else None
   | RunTimer \<Rightarrow> Some c)"

definition start_running :: "'s controller \<Rightarrow> (('e, 'd) controller_error + run_loop) \<times> 's controller" where
  "start_running c =
     (if ct_running c then (Inl ErrAlreadyRunning, c)
      else (Inr new_run_loop, c\<lparr>ct_running := True\<rparr>))"

end
