(* ===== verification/Controller_Steps.thy ===== *)
theory Controller_Steps
  imports Controller "HOL-Library.Multiset"
begin

text \<open>
  The controller under concurrency: the handlers of \<open>Controller\<close> cut at the points where another
  goroutine can run.  A goroutine inside a handler is a phase; a step runs one of them up to its
  next lock, store call or breaker call.  \<open>cs_lock\<close> is \<open>drainMu\<close> with what its holder does, \<open>cs_run\<close>
  the goroutine of \<open>Run\<close>.  Other writers of the store are steps of a relation \<open>quiet\<close>.
\<close>

section \<open>Phases\<close>

datatype 'd after = ThenStop | ThenPark "int list" "'d cause option" | ThenDrain

datatype 'd phase =
  Calling "int list option" permit
| Settled breaker_transition "'d after"
| Rejecting "int list" "'d cause option"
| Parked
| Requesting
| Signalling "'d after"
| WantDrain

datatype lock_phase = Free | Held bool | Closing bool

datatype run_phase =
  RunTop | RunCheck breaker_snapshot | RunWant breaker_snapshot | RunDraining breaker_snapshot
| RunRest breaker_snapshot | RunBlocked | RunEnded

record ('s, 'd) ctl_sys =
  cs_ctl :: "'s controller"
  cs_threads :: "'d phase multiset"
  cs_lock :: lock_phase
  cs_run :: run_phase

fun continue_with :: "'d after \<Rightarrow> 'd phase multiset" where
  "continue_with ThenStop = {#}"
| "continue_with (ThenPark ids cause) = {#Rejecting ids cause#}"
| "continue_with ThenDrain = {#WantDrain#}"

text \<open>What a completed call does next: \<open>finish\<close> on a health failure parks, on success drains.\<close>

fun after_completion :: "int list option \<Rightarrow> completion_kind \<Rightarrow> 'd \<Rightarrow> 'd after" where
  "after_completion ids CompletionAbort d = ThenStop"
| "after_completion None CompletionFailure d = ThenStop"
| "after_completion (Some ids) CompletionFailure d = ThenPark ids (Some (Dependency d))"
| "after_completion ids CompletionSuccess d = ThenDrain"

definition closes :: "breaker_transition \<Rightarrow> bool" where
  "closes tr \<longleftrightarrow> tr_changed tr \<and> tr_to tr = StateClosed"

text \<open>The holder of the lock leaves the loop: \<open>Run\<close> returns an error or goes on.\<close>

definition lock_released :: "bool \<Rightarrow> bool \<Rightarrow> run_phase \<Rightarrow> run_phase" where
  "lock_released by_run failed r =
     (if \<not> by_run then r
      else if failed then RunEnded
      else (case r of RunDraining sn \<Rightarrow> RunRest sn | _ \<Rightarrow> r))"

section \<open>Steps\<close>

inductive ctl_step ::
    "('e, 's) waiting_ops \<Rightarrow> ('e, 'd) cause_ops \<Rightarrow> ('s \<Rightarrow> 's \<Rightarrow> bool) \<Rightarrow> ('s, 'd) ctl_sys \<Rightarrow> ('s, 'd) ctl_sys \<Rightarrow> bool"
  for ops co quiet where
  admitted: "breaker_allow now c = (Inr p, c') \<Longrightarrow>
    (case ids of None \<Rightarrow> True | Some is \<Rightarrow>
       validated_task_ids False raw = (Inr is :: ('e, 'd) controller_error + int list)) \<Longrightarrow>
    ctl_step ops co quiet \<lparr>cs_ctl = c, cs_threads = M, cs_lock = l, cs_run = r\<rparr>
      \<lparr>cs_ctl = c', cs_threads = add_mset (Calling ids p) M, cs_lock = l, cs_run = r\<rparr>"
| rejected: "breaker_allow now c = (Inl e, c') \<Longrightarrow> validated_task_ids False raw = (Inr ids :: ('e, 'd) controller_error + int list) \<Longrightarrow>
    ctl_step ops co quiet \<lparr>cs_ctl = c, cs_threads = M, cs_lock = l, cs_run = r\<rparr>
      \<lparr>cs_ctl = c', cs_threads = add_mset (Rejecting ids (Some (Rejected e))) M, cs_lock = l, cs_run = r\<rparr>"
| completed: "permit_finish now p kind c = (tr, c') \<Longrightarrow>
    ctl_step ops co quiet \<lparr>cs_ctl = c, cs_threads = add_mset (Calling ids p) M, cs_lock = l, cs_run = r\<rparr>
      \<lparr>cs_ctl = c', cs_threads = add_mset (Settled tr (after_completion ids kind d)) M, cs_lock = l, cs_run = r\<rparr>"
| settled: "\<not> closes tr \<Longrightarrow>
    ctl_step ops co quiet \<lparr>cs_ctl = c, cs_threads = add_mset (Settled tr k) M, cs_lock = l, cs_run = r\<rparr>
      \<lparr>cs_ctl = after_transition tr c, cs_threads = continue_with k + M, cs_lock = l, cs_run = r\<rparr>"
| settled_closed: "closes tr \<Longrightarrow>
    ctl_step ops co quiet \<lparr>cs_ctl = c, cs_threads = add_mset (Settled tr k) M, cs_lock = Free, cs_run = r\<rparr>
      \<lparr>cs_ctl = c\<lparr>ct_drain_pending := True\<rparr>, cs_threads = add_mset (Signalling k) M, cs_lock = Free, cs_run = r\<rparr>"
| signalled:
    "ctl_step ops co quiet \<lparr>cs_ctl = c, cs_threads = add_mset (Signalling k) M, cs_lock = l, cs_run = r\<rparr>
      \<lparr>cs_ctl = signal c, cs_threads = continue_with k + M, cs_lock = l, cs_run = r\<rparr>"
| parks: "park_write ops co cancelled now ids cause c = ((Inr u :: ('e, 'd) controller_error + unit), c') \<Longrightarrow>
    ctl_step ops co quiet \<lparr>cs_ctl = c, cs_threads = add_mset (Rejecting ids cause) M, cs_lock = l, cs_run = r\<rparr>
      \<lparr>cs_ctl = c', cs_threads = add_mset Parked M, cs_lock = l, cs_run = r\<rparr>"
| parks_not: "park_write ops co cancelled now ids cause c = ((Inl err :: ('e, 'd) controller_error + unit), c') \<Longrightarrow>
    ctl_step ops co quiet \<lparr>cs_ctl = c, cs_threads = add_mset (Rejecting ids cause) M, cs_lock = l, cs_run = r\<rparr>
      \<lparr>cs_ctl = c', cs_threads = M, cs_lock = l, cs_run = r\<rparr>"
| parked: "breaker_state_of now c = (st, c') \<Longrightarrow>
    ctl_step ops co quiet \<lparr>cs_ctl = c, cs_threads = add_mset Parked M, cs_lock = l, cs_run = r\<rparr>
      \<lparr>cs_ctl = c', cs_threads = (if st = StateClosed then add_mset Requesting M else M), cs_lock = l, cs_run = r\<rparr>"
| requests:
    "ctl_step ops co quiet \<lparr>cs_ctl = c, cs_threads = add_mset Requesting M, cs_lock = Free, cs_run = r\<rparr>
      \<lparr>cs_ctl = c\<lparr>ct_drain_pending := True\<rparr>, cs_threads = add_mset (Signalling ThenDrain) M, cs_lock = Free, cs_run = r\<rparr>"
| drains: "ct_drain_pending c \<Longrightarrow>
    ctl_step ops co quiet \<lparr>cs_ctl = c, cs_threads = add_mset WantDrain M, cs_lock = Free, cs_run = r\<rparr>
      \<lparr>cs_ctl = c, cs_threads = M, cs_lock = Held False, cs_run = r\<rparr>"
| drains_not: "\<not> ct_drain_pending c \<Longrightarrow>
    ctl_step ops co quiet \<lparr>cs_ctl = c, cs_threads = add_mset WantDrain M, cs_lock = Free, cs_run = r\<rparr>
      \<lparr>cs_ctl = c, cs_threads = M, cs_lock = Free, cs_run = r\<rparr>"
| round: "release_round ops cancelled call_cancelled now c = ((Inr b :: ('e, 'd) controller_error + bool), c') \<Longrightarrow>
    ctl_step ops co quiet \<lparr>cs_ctl = c, cs_threads = M, cs_lock = Held w, cs_run = r\<rparr>
      \<lparr>cs_ctl = c', cs_threads = M, cs_lock = (if b then Closing w else Held w), cs_run = r\<rparr>"
| round_fails: "release_round ops cancelled call_cancelled now c = ((Inl err :: ('e, 'd) controller_error + bool), c') \<Longrightarrow>
    ctl_step ops co quiet \<lparr>cs_ctl = c, cs_threads = M, cs_lock = Held w, cs_run = r\<rparr>
      \<lparr>cs_ctl = c', cs_threads = M, cs_lock = Free, cs_run = lock_released w True r\<rparr>"
| drained:
    "ctl_step ops co quiet \<lparr>cs_ctl = c, cs_threads = M, cs_lock = Closing w, cs_run = r\<rparr>
      \<lparr>cs_ctl = c\<lparr>ct_drain_pending := False\<rparr>, cs_threads = M, cs_lock = Free, cs_run = lock_released w False r\<rparr>"
| run_snapshot: "breaker_snapshot_of now c = (sn, c') \<Longrightarrow>
    ctl_step ops co quiet \<lparr>cs_ctl = c, cs_threads = M, cs_lock = l, cs_run = RunTop\<rparr>
      \<lparr>cs_ctl = c', cs_threads = M, cs_lock = l, cs_run = (if sn_state sn = StateClosed then RunCheck sn else RunRest sn)\<rparr>"
| run_checks:
    "ctl_step ops co quiet \<lparr>cs_ctl = c, cs_threads = M, cs_lock = Free, cs_run = RunCheck sn\<rparr>
      \<lparr>cs_ctl = c, cs_threads = M, cs_lock = Free, cs_run = (if ct_drain_pending c then RunWant sn else RunRest sn)\<rparr>"
| run_drains: "ct_drain_pending c \<Longrightarrow>
    ctl_step ops co quiet \<lparr>cs_ctl = c, cs_threads = M, cs_lock = Free, cs_run = RunWant sn\<rparr>
      \<lparr>cs_ctl = c, cs_threads = M, cs_lock = Held True, cs_run = RunDraining sn\<rparr>"
| run_drains_not: "\<not> ct_drain_pending c \<Longrightarrow>
    ctl_step ops co quiet \<lparr>cs_ctl = c, cs_threads = M, cs_lock = Free, cs_run = RunWant sn\<rparr>
      \<lparr>cs_ctl = c, cs_threads = M, cs_lock = Free, cs_run = RunRest sn\<rparr>"
| run_probe: "release_probe ops en i sn version rl c = ((res :: ('e, 'd) controller_error option + run_loop), c') \<Longrightarrow>
    ctl_step ops co quiet \<lparr>cs_ctl = c, cs_threads = M, cs_lock = l, cs_run = RunRest sn\<rparr>
      \<lparr>cs_ctl = c', cs_threads = M, cs_lock = l, cs_run = (case res of Inl _ \<Rightarrow> RunEnded | Inr _ \<Rightarrow> RunBlocked)\<rparr>"
| run_blocks:
    "ctl_step ops co quiet \<lparr>cs_ctl = c, cs_threads = M, cs_lock = l, cs_run = RunRest sn\<rparr>
      \<lparr>cs_ctl = c, cs_threads = M, cs_lock = l, cs_run = RunBlocked\<rparr>"
| run_selects:
    "ctl_step ops co quiet \<lparr>cs_ctl = c, cs_threads = M, cs_lock = l, cs_run = RunBlocked\<rparr>
      (case run_select ev c of
         None \<Rightarrow> \<lparr>cs_ctl = c, cs_threads = M, cs_lock = l, cs_run = (if ev = RunCancelled then RunEnded else RunBlocked)\<rparr>
       | Some c' \<Rightarrow> \<lparr>cs_ctl = c', cs_threads = M, cs_lock = l, cs_run = RunTop\<rparr>)"
| other: "quiet (ct_store c) s \<Longrightarrow>
    ctl_step ops co quiet \<lparr>cs_ctl = c, cs_threads = M, cs_lock = l, cs_run = r\<rparr>
      \<lparr>cs_ctl = c\<lparr>ct_store := s\<rparr>, cs_threads = M, cs_lock = l, cs_run = r\<rparr>"

inductive ctl_reaches ::
    "('e, 's) waiting_ops \<Rightarrow> ('e, 'd) cause_ops \<Rightarrow> ('s \<Rightarrow> 's \<Rightarrow> bool) \<Rightarrow> 's controller \<Rightarrow> ('s, 'd) ctl_sys \<Rightarrow> bool"
  for ops co quiet c where
  started: "ctl_reaches ops co quiet c \<lparr>cs_ctl = c\<lparr>ct_running := True\<rparr>, cs_threads = {#}, cs_lock = Free, cs_run = RunTop\<rparr>"
| stepped: "ctl_reaches ops co quiet c s \<Longrightarrow> ctl_step ops co quiet s s' \<Longrightarrow> ctl_reaches ops co quiet c s'"

end
