(* ===== verification/Controller_Laws.thy ===== *)
theory Controller_Laws
  imports Controller_Steps
begin

text \<open>
  Laws of the controller over any store that keeps the contract of its two interfaces
  (\<open>waiting_source\<close>): the drain loop ends with nothing waiting, parked tasks wait or are
  released, and under every interleaving no waiting task is forgotten behind a closed breaker.
\<close>

section \<open>What the breaker's methods leave alone\<close>

definition same_but_breaker :: "'s controller \<Rightarrow> 's controller \<Rightarrow> bool" where
  "same_but_breaker c c' \<longleftrightarrow> ct_store c' = ct_store c \<and> ct_release_batch c' = ct_release_batch c \<and>
     ct_wake c' = ct_wake c \<and> ct_drain_pending c' = ct_drain_pending c \<and>
     ct_waiter_version c' = ct_waiter_version c"

definition breaker_closed :: "'s controller \<Rightarrow> bool" where
  "breaker_closed c \<longleftrightarrow> br_state (ct_breaker c) = StateClosed"

lemma notify_transition_simps [simp]:
  "ct_store (notify_transition tr c) = ct_store c"
  "ct_breaker (notify_transition tr c) = ct_breaker c"
  "ct_release_batch (notify_transition tr c) = ct_release_batch c"
  "ct_wake (notify_transition tr c) = ct_wake c"
  "ct_drain_pending (notify_transition tr c) = ct_drain_pending c"
  "ct_waiter_version (notify_transition tr c) = ct_waiter_version c"
  by (simp_all add: notify_transition_def)

lemma notify_released_simps [simp]:
  "ct_store (notify_released k c) = ct_store c"
  "ct_breaker (notify_released k c) = ct_breaker c"
  "ct_release_batch (notify_released k c) = ct_release_batch c"
  "ct_wake (notify_released k c) = ct_wake c"
  "ct_drain_pending (notify_released k c) = ct_drain_pending c"
  "ct_waiter_version (notify_released k c) = ct_waiter_version c"
  by (simp_all add: notify_released_def)

lemma signal_simps [simp]:
  "ct_store (signal c) = ct_store c" "ct_breaker (signal c) = ct_breaker c"
  "ct_release_batch (signal c) = ct_release_batch c" "ct_wake (signal c)"
  "ct_drain_pending (signal c) = ct_drain_pending c"
  by (simp_all add: signal_def)

lemma request_drain_simps [simp]:
  "ct_store (request_drain c) = ct_store c" "ct_breaker (request_drain c) = ct_breaker c"
  "ct_release_batch (request_drain c) = ct_release_batch c" "ct_wake (request_drain c)"
  "ct_drain_pending (request_drain c)"
  by (simp_all add: request_drain_def)

lemma after_transition_simps [simp]:
  "ct_store (after_transition tr c) = ct_store c"
  "ct_breaker (after_transition tr c) = ct_breaker c"
  "ct_release_batch (after_transition tr c) = ct_release_batch c"
  "ct_drain_pending (after_transition tr c) = (ct_drain_pending c \<or> closes tr)"
  "ct_wake (after_transition tr c) = (ct_wake c \<or> tr_changed tr)"
  by (auto simp: after_transition_def closes_def)

lemma advance_closed: "br_state (snd (advance now b)) = StateClosed \<longleftrightarrow> br_state b = StateClosed"
  by (simp add: advance_def)

lemma breaker_allow_frame:
  "breaker_allow now c = (r, c') \<Longrightarrow> same_but_breaker c c' \<and> (breaker_closed c' \<longleftrightarrow> breaker_closed c)"
  using advance_closed[of now "ct_breaker c"]
  by (auto simp: breaker_allow_def allow_def same_but_breaker_def breaker_closed_def
           split: prod.splits breaker_state.splits if_splits)

lemma breaker_snapshot_frame:
  "breaker_snapshot_of now c = (sn, c') \<Longrightarrow>
     same_but_breaker c c' \<and> (breaker_closed c' \<longleftrightarrow> breaker_closed c) \<and> (sn_state sn = StateClosed \<longleftrightarrow> breaker_closed c)"
  using advance_closed[of now "ct_breaker c"]
  by (auto simp: breaker_snapshot_of_def snapshot_def same_but_breaker_def breaker_closed_def split: prod.splits)

lemma breaker_state_frame:
  "breaker_state_of now c = (st, c') \<Longrightarrow>
     same_but_breaker c c' \<and> (breaker_closed c' \<longleftrightarrow> breaker_closed c) \<and> (st = StateClosed \<longleftrightarrow> breaker_closed c)"
  using breaker_snapshot_frame[of now c]
  by (cases "breaker_snapshot_of now c") (auto simp: breaker_state_of_def)

lemma permit_finish_frame:
  "permit_finish now p k c = (tr, c') \<Longrightarrow>
     same_but_breaker c c' \<and> (breaker_closed c' \<longrightarrow> breaker_closed c \<or> closes tr) \<and> (closes tr \<longrightarrow> breaker_closed c')"
  by (auto simp: permit_finish_def breaker_complete_def same_but_breaker_def breaker_closed_def closes_def Let_def
             no_transition_def
           split: prod.splits if_splits)

lemma dedup_ids_valid:
  "dedup_ids seen xs = (Inr ids :: ('e, 'd) controller_error + int list) \<Longrightarrow> distinct ids \<and> (\<forall>i\<in>set ids. 0 < i \<and> i \<notin> seen) \<and> set ids = set xs - seen"
proof (induction xs arbitrary: seen ids)
  case Nil
  then show ?case by simp
next
  case (Cons x xs)
  show ?case
  proof (cases "x \<in> seen")
    case True
    then have "dedup_ids seen xs = (Inr ids :: ('e, 'd) controller_error + int list)" using Cons.prems by (simp split: if_splits)
    from Cons.IH[OF this] True show ?thesis by auto
  next
    case False
    then obtain js where js: "dedup_ids (insert x seen) xs = (Inr js :: ('e, 'd) controller_error + int list)" "ids = x # js" "0 < x"
      using Cons.prems by (cases "dedup_ids (insert x seen) xs :: ('e, 'd) controller_error + int list") (auto split: if_splits)
    have ih: "distinct js" "\<forall>i\<in>set js. 0 < i \<and> i \<notin> insert x seen" "set js = set xs - insert x seen"
      using Cons.IH[OF js(1)] by blast+
    have "set ids = set (x # xs) - seen" unfolding js(2) list.set ih(3) using False by blast
    moreover have "distinct ids" "\<forall>i\<in>set ids. 0 < i \<and> i \<notin> seen" using ih(1,2) False js(3) by (auto simp: js(2))
    ultimately show ?thesis by blast
  qed
qed

definition valid_ids :: "int list \<Rightarrow> bool" where
  "valid_ids ids \<longleftrightarrow> ids \<noteq> [] \<and> distinct ids \<and> (\<forall>i\<in>set ids. 0 < i)"

lemma validated_ids_valid: "validated_task_ids b raw = Inr ids \<Longrightarrow> valid_ids ids \<and> set ids = set raw"
  using dedup_ids_valid[of "{}" raw ids]
  by (auto simp: validated_task_ids_def valid_ids_def split: if_splits)

lemma apfst_eq: "apfst f p = (a, b) \<longleftrightarrow> (\<exists>a'. p = (a', b) \<and> a = f a')"
  by (cases p) auto

lemma map_sum_Inl: "map_sum f g r = Inl x \<longleftrightarrow> (\<exists>e. r = Inl e \<and> x = f e)"
  by (cases r) auto

lemma park_write_error:
  "park_write ops co cc now ids cause c = (Inl x, d) \<Longrightarrow> x = ErrNoBatchParking \<or> (\<exists>e. x = ErrPark ids e)"
  by (auto simp: park_write_def park_store_def apfst_eq map_sum_Inl eq_commute[of "Inl x"]
           split: option.splits list.splits prod.splits sum.splits)

section \<open>The contract of the store\<close>

locale waiting_source =
  fixes ops :: "('e, 's) waiting_ops"
    and ok :: "'s \<Rightarrow> bool"
    and waiting :: "'s \<Rightarrow> int set"
    and quiet :: "'s \<Rightarrow> 's \<Rightarrow> bool"
  assumes finite_waiting: "ok s \<Longrightarrow> finite (waiting s)"
    and release_ok: "ok s \<Longrightarrow> wt_release ops cc now n s = (Inr k, s') \<Longrightarrow> 0 < n \<Longrightarrow>
      ok s' \<and> waiting s' \<subseteq> waiting s \<and> 0 \<le> k \<and> k \<le> n \<and> int (card (waiting s')) + k = int (card (waiting s)) \<and>
      (k < n \<longrightarrow> waiting s' = {})"
    and release_failed: "ok s \<Longrightarrow> wt_release ops cc now n s = (Inl e, s') \<Longrightarrow> 0 < n \<Longrightarrow> s' = s"
    and park_ok: "ok s \<Longrightarrow> valid_ids ids \<Longrightarrow> wt_park_batch ops = Some f \<Longrightarrow> f cc now ids reason s = (Inr u, s') \<Longrightarrow>
      ok s' \<and> set ids \<subseteq> waiting s' \<and> waiting s' \<subseteq> waiting s \<union> set ids"
    and park_failed: "ok s \<Longrightarrow> valid_ids ids \<Longrightarrow> wt_park_batch ops = Some f \<Longrightarrow> f cc now ids reason s = (Inl e, s') \<Longrightarrow> s' = s"
    and batches: "wt_park_batch ops \<noteq> None"
    and quiet_ok: "ok s \<Longrightarrow> quiet s s' \<Longrightarrow> ok s' \<and> waiting s' \<subseteq> waiting s"
begin

lemma park_store_ok:
  assumes "ok s" "valid_ids ids" "park_store ops cc now ids reason s = (r, s')"
  shows "ok s' \<and> (case r of Inl _ \<Rightarrow> s' = s
     | Inr _ \<Rightarrow> set ids \<subseteq> waiting s' \<and> waiting s' \<subseteq> waiting s \<union> set ids)"
proof -
  obtain f where f: "wt_park_batch ops = Some f" using batches by blast
  obtain r' where "f cc now ids reason s = (r', s')" "r = map_sum (ErrPark ids) id r'"
    using assms(3) f by (cases "f cc now ids reason s") (auto simp: park_store_def)
  then show ?thesis using park_ok[OF assms(1,2) f, of cc now reason] park_failed[OF assms(1,2) f, of cc now reason] assms(1)
    by (cases r') fastforce+
qed

lemma park_write_ok:
  assumes "ok (ct_store c)" "valid_ids ids" "park_write ops co cc now ids cause c = (r, c')"
  shows "ok (ct_store c') \<and> ct_breaker c' = ct_breaker c \<and> ct_release_batch c' = ct_release_batch c \<and>
     ct_drain_pending c' = ct_drain_pending c \<and> (ct_wake c \<longrightarrow> ct_wake c') \<and>
     (case r of Inl _ \<Rightarrow> ct_store c' = ct_store c | Inr _ \<Rightarrow> set ids \<subseteq> waiting (ct_store c') \<and>
        waiting (ct_store c') \<subseteq> waiting (ct_store c) \<union> set ids \<and> ct_wake c')"
proof -
  obtain s r' where p: "park_store ops cc now ids (park_reason co cause) (ct_store c) = (r', s)"
    and r: "(case r' of Inl e \<Rightarrow> (Inl e, c\<lparr>ct_store := s\<rparr>)
      | Inr _ \<Rightarrow> (Inr (), signal (c\<lparr>ct_store := s, ct_waiter_version := ct_waiter_version c + 1\<rparr>))) = (r, c')"
    using assms(3) by (auto simp: park_write_def split: prod.splits sum.splits)
  show ?thesis using park_store_ok[OF assms(1,2) p] r
    by (cases r') (auto simp: signal_def)
qed

text \<open>One round of the drain.  \<open>drain_error\<close>: the errors a drain reports.\<close>

fun drain_error :: "('e, 'd) controller_error \<Rightarrow> bool" where
  "drain_error ErrContext = True"
| "drain_error (ErrRelease e) = True"
| "drain_error (ErrReleasedCount k n) = True"
| "drain_error e = False"

lemma release_round_ok:
  assumes ok: "ok (ct_store c)" "0 < ct_release_batch c" and r: "release_round ops cc cc' now c = (r, c')"
  shows "ok (ct_store c') \<and> waiting (ct_store c') \<subseteq> waiting (ct_store c) \<and> ct_breaker c' = ct_breaker c \<and>
     ct_release_batch c' = ct_release_batch c \<and> ct_drain_pending c' = ct_drain_pending c \<and> ct_wake c' = ct_wake c \<and>
     (r = Inr True \<longrightarrow> waiting (ct_store c') = {}) \<and>
     (r = Inr False \<longrightarrow> int (card (waiting (ct_store c'))) + ct_release_batch c = int (card (waiting (ct_store c)))) \<and>
     (\<forall>e. r = Inl e \<longrightarrow> drain_error e)"
proof (cases cc)
  case True
  then show ?thesis using ok r by (auto simp: release_round_def)
next
  case False
  obtain q s where q: "wt_release ops cc' now (ct_release_batch c) (ct_store c) = (q, s)" by fastforce
  show ?thesis
  proof (cases q)
    case (Inl e)
    then show ?thesis using False ok r q release_failed[OF ok(1) q[unfolded Inl] ok(2)]
      by (auto simp: release_round_def)
  next
    case (Inr k)
    then show ?thesis using False ok r q release_ok[OF ok(1) q[unfolded Inr] ok(2)]
      by (auto simp: release_round_def split: if_splits)
  qed
qed

lemma drain_loop_ok:
  assumes "ok (ct_store c)" "0 < ct_release_batch c"
    and "int (card (waiting (ct_store c))) < int n * ct_release_batch c"
    and "drain_loop n i ops en c = ((r :: ('e, 'd) controller_error + unit), c')"
  shows "ok (ct_store c') \<and> waiting (ct_store c') \<subseteq> waiting (ct_store c) \<and> ct_breaker c' = ct_breaker c \<and>
     ct_release_batch c' = ct_release_batch c \<and>
     (\<forall>e. r = Inl e \<longrightarrow> drain_error e) \<and> (r = Inr () \<longrightarrow> waiting (ct_store c') = {} \<and> \<not> ct_drain_pending c')"
  using assms
proof (induction n arbitrary: i c)
  case 0
  then show ?case by simp
next
  case (Suc n)
  obtain q :: "('e, 'd) controller_error + bool" and d where q: "release_round ops (en_cancelled en i) (en_cancelled en (i + 1)) (en_now en i) c = (q, d)"
    by fastforce
  note D = release_round_ok[OF Suc.prems(1,2) q]
  consider (err) e where "q = Inl e" | (last) "q = Inr True" | (more) "q = Inr False" by (metis sum.exhaust)
  then show ?case
  proof cases
    case err
    then show ?thesis using Suc.prems(4) q D by auto
  next
    case last
    then show ?thesis using Suc.prems(4) q D by auto
  next
    case more
    then have d: "drain_loop n (i + 2) ops en d = (r, c')" using Suc.prems(4) q by simp
    have "int (card (waiting (ct_store d))) < int n * ct_release_batch d"
      using Suc.prems(3) D more by (auto simp: algebra_simps)
    then show ?thesis using Suc.IH[OF _ _ _ d] D Suc.prems(2) more by auto
  qed
qed

text \<open>\<open>enough\<close>: the bound on the rounds covers what is waiting.\<close>

definition enough :: "env \<Rightarrow> 's controller \<Rightarrow> bool" where
  "enough en c \<longleftrightarrow> int (card (waiting (ct_store c))) < int (en_rounds en) * ct_release_batch c"

lemma drain_waiting_ok:
  assumes "ok (ct_store c)" "0 < ct_release_batch c" "enough en c" "drain_waiting i ops en c = (r, c')"
  shows "ok (ct_store c') \<and> waiting (ct_store c') \<subseteq> waiting (ct_store c) \<and> ct_breaker c' = ct_breaker c \<and>
     ct_release_batch c' = ct_release_batch c \<and>
     (\<forall>e. r = Inl e \<longrightarrow> drain_error e) \<and> (r = Inr () \<longrightarrow> \<not> ct_drain_pending c' \<and> (ct_drain_pending c \<longrightarrow> waiting (ct_store c') = {}))"
  using assms drain_loop_ok[of c "en_rounds en" i en r c']
  by (auto simp: drain_waiting_def enough_def split: if_splits)

text \<open>\<open>parkBatch\<close>: when it reports that the tasks wait, they do, or the breaker is closed and
  nothing waits any more.\<close>

lemma park_batch_at_ok:
  assumes ok: "ok (ct_store c)" "valid_ids ids" "0 < ct_release_batch c"
    and enough: "int (card (waiting (ct_store c)) + length ids) < int (en_rounds en) * ct_release_batch c"
    and p: "park_batch_at i ops co en ids cause c = ((e :: ('e, 'd) controller_error), c')"
  shows "ok (ct_store c') \<and> e \<noteq> OutOfRounds \<and> (breaker_closed c' \<longleftrightarrow> breaker_closed c) \<and>
     (\<forall>js cs. e = ErrWaitingDependency js cs \<longrightarrow>
        (if breaker_closed c then waiting (ct_store c') = {} \<and> \<not> ct_drain_pending c'
         else set ids \<subseteq> waiting (ct_store c')))"
proof -
  obtain r :: "('e, 'd) controller_error + unit" and d where w: "park_write ops co (en_cancelled en i) (en_now en i) ids cause c = (r, d)" by fastforce
  note W = park_write_ok[OF ok(1,2) w]
  have closed_d: "breaker_closed d \<longleftrightarrow> breaker_closed c" using W by (simp add: breaker_closed_def)
  show ?thesis
  proof (cases r)
    case (Inl x)
    then show ?thesis using p w W closed_d park_write_error[of ops co _ _ ids cause c x d]
      by (auto simp: park_batch_at_def)
  next
    case (Inr u)
    obtain st d2 where st: "breaker_state_of (en_now en (i + 1)) d = (st, d2)" by fastforce
    note S = breaker_state_frame[OF st, unfolded same_but_breaker_def]
    show ?thesis
    proof (cases "st = StateClosed")
      case False
      then show ?thesis using p w Inr W S st closed_d by (auto simp: park_batch_at_def late_drain_def)
    next
      case True
      obtain q :: "('e, 'd) controller_error + unit" and d3 where dr: "drain_waiting (i + 1 + 1) ops en (request_drain d2) = (q, d3)" by fastforce
      have sub: "waiting (ct_store d) \<subseteq> waiting (ct_store c) \<union> set ids" using W Inr by simp
      have "card (waiting (ct_store d)) \<le> card (waiting (ct_store c) \<union> set ids)"
        by (rule card_mono[OF _ sub]) (simp add: finite_waiting[OF ok(1)])
      also have "\<dots> \<le> card (waiting (ct_store c)) + length ids"
        using card_Un_le[of "waiting (ct_store c)" "set ids"] card_length[of ids] by linarith
      finally have "enough en d" using enough W by (simp add: enough_def)
      then have okd: "ok (ct_store (request_drain d2))" "0 < ct_release_batch (request_drain d2)"
          "enough en (request_drain d2)"
        using W S ok by (auto simp: enough_def)
      note D = drain_waiting_ok[OF okd dr]
      have "breaker_closed d3 \<longleftrightarrow> breaker_closed c" using D S closed_d by (simp add: breaker_closed_def)
      then show ?thesis using p w Inr W S st dr D True closed_d
        by (cases q) (auto simp: park_batch_at_def late_drain_def)
    qed
  qed
qed

section \<open>No waiting task is forgotten\<close>

fun closing :: "'d phase \<Rightarrow> bool" where
  "closing Parked = True"
| "closing Requesting = True"
| "closing (Settled tr k) = closes tr"
| "closing t = False"

fun signals :: "'d phase \<Rightarrow> bool" where
  "signals (Signalling k) = True"
| "signals t = False"

fun after_valid :: "'d after \<Rightarrow> bool" where
  "after_valid (ThenPark ids cause) = valid_ids ids"
| "after_valid k = True"

fun phase_valid :: "'d phase \<Rightarrow> bool" where
  "phase_valid (Calling (Some ids) p) = valid_ids ids"
| "phase_valid (Rejecting ids cause) = valid_ids ids"
| "phase_valid (Settled tr k) = after_valid k"
| "phase_valid (Signalling k) = after_valid k"
| "phase_valid t = True"

definition needy :: "'s controller \<Rightarrow> bool" where
  "needy c \<longleftrightarrow> breaker_closed c \<and> waiting (ct_store c) \<noteq> {}"

definition resting :: "run_phase \<Rightarrow> bool" where
  "resting r \<longleftrightarrow> r = RunBlocked \<or> (\<exists>sn. r = RunRest sn)"

definition ctl_inv :: "('s, 'd) ctl_sys \<Rightarrow> bool" where
  "ctl_inv s \<longleftrightarrow>
     ok (ct_store (cs_ctl s)) \<and> 0 < ct_release_batch (cs_ctl s) \<and> (\<forall>t\<in>#cs_threads s. phase_valid t) \<and>
     (needy (cs_ctl s) \<and> \<not> ct_drain_pending (cs_ctl s) \<longrightarrow> (\<exists>t\<in>#cs_threads s. closing t)) \<and>
     (needy (cs_ctl s) \<and> (\<exists>w. cs_lock s = Closing w) \<longrightarrow> (\<exists>t\<in>#cs_threads s. closing t)) \<and>
     (needy (cs_ctl s) \<and> ct_drain_pending (cs_ctl s) \<and> resting (cs_run s) \<longrightarrow>
        ct_wake (cs_ctl s) \<or> (\<exists>t\<in>#cs_threads s. closing t \<or> signals t))"

lemma ctl_invI:
  assumes "ok (ct_store c)" "0 < ct_release_batch c" "\<And>t. t \<in># M \<Longrightarrow> phase_valid t"
    and "needy c \<Longrightarrow> \<not> ct_drain_pending c \<Longrightarrow> \<exists>t\<in>#M. closing t"
    and "\<And>w. needy c \<Longrightarrow> l = Closing w \<Longrightarrow> \<exists>t\<in>#M. closing t"
    and "needy c \<Longrightarrow> ct_drain_pending c \<Longrightarrow> resting r \<Longrightarrow> ct_wake c \<or> (\<exists>t\<in>#M. closing t \<or> signals t)"
  shows "ctl_inv \<lparr>cs_ctl = c, cs_threads = M, cs_lock = l, cs_run = r\<rparr>"
  using assms by (auto simp: ctl_inv_def)

lemma needy_frame: "same_but_breaker c c' \<Longrightarrow> breaker_closed c' = breaker_closed c \<Longrightarrow> needy c' = needy c"
  by (simp add: needy_def same_but_breaker_def)

lemma continue_valid: "after_valid k \<Longrightarrow> \<forall>t\<in>#continue_with k. phase_valid t"
  by (cases k) auto

lemma after_completion_valid: "phase_valid (Calling ids p) \<Longrightarrow> after_valid (after_completion ids kind d)"
  by (cases ids; cases kind) auto

lemma release_probe_ok:
  assumes "ok (ct_store c)" "release_probe ops en i sn version rl c = (res, c')"
  shows "ok (ct_store c') \<and> waiting (ct_store c') \<subseteq> waiting (ct_store c) \<and> (breaker_closed c' \<longleftrightarrow> breaker_closed c) \<and>
    ct_release_batch c' = ct_release_batch c \<and> ct_drain_pending c' = ct_drain_pending c \<and> ct_wake c' = ct_wake c"
proof -
  obtain b tr where a: "advance (en_now en i) (ct_breaker c) = (tr, b)" by fastforce
  then have cl: "br_state b = StateClosed \<longleftrightarrow> br_state (ct_breaker c) = StateClosed"
    using advance_closed[of "en_now en i" "ct_breaker c"] by simp
  obtain r s where r: "wt_release ops (en_cancelled en i) (en_now en i) 1 (ct_store c) = (r, s)" by fastforce
  have "ok s \<and> waiting s \<subseteq> waiting (ct_store c)"
    using release_ok[OF assms(1), of _ _ 1 _ s] release_failed[OF assms(1), of _ _ 1 _ s] r assms(1)
    by (cases r) fastforce+
  then show ?thesis using assms a cl r
    by (auto simp: release_probe_def with_half_open_idle_def breaker_closed_def Let_def
             split: if_splits sum.splits)
qed

lemma ctl_start:
  assumes "ok (ct_store c)" "0 < ct_release_batch c" "ct_drain_pending c"
  shows "ctl_inv \<lparr>cs_ctl = c\<lparr>ct_running := True\<rparr>, cs_threads = {#}, cs_lock = Free, cs_run = RunTop\<rparr>"
  using assms by (auto simp: ctl_inv_def resting_def)

lemma ctl_inv_step: "ctl_step ops co quiet s s' \<Longrightarrow> ctl_inv s \<Longrightarrow> ctl_inv s'"
proof (induction rule: ctl_step.induct)
  case (admitted now c p c' ids raw M l r)
  have "phase_valid (Calling ids p)" using admitted(2) validated_ids_valid by (auto split: option.splits)
  then show ?case using admitted(3) breaker_allow_frame[OF admitted(1)] needy_frame[of c c']
    by (auto simp: ctl_inv_def same_but_breaker_def)
next
  case (rejected now c e c' raw ids M l r)
  then show ?case using validated_ids_valid[OF rejected(2)] breaker_allow_frame[OF rejected(1)] needy_frame[of c c']
    by (auto simp: ctl_inv_def same_but_breaker_def)
next
  case (completed now p kind c tr c' ids M l r d)
  note F = permit_finish_frame[OF completed(1), unfolded same_but_breaker_def]
  have eq: "ct_store c' = ct_store c" "ct_release_batch c' = ct_release_batch c"
      "ct_drain_pending c' = ct_drain_pending c" "ct_wake c' = ct_wake c" using F by blast+
  have n: "needy c \<or> closes tr" if "needy c'" using F that unfolding needy_def eq by blast
  have v: "phase_valid (Settled tr (after_completion ids kind d))" if "phase_valid (Calling ids p)"
    using after_completion_valid[OF that] by simp
  show ?case
    by (rule ctl_invI) (use completed(2) n v in \<open>force simp: ctl_inv_def eq\<close>)+
next
  case (settled tr c k M l r)
  have "needy (after_transition tr c) = needy c" by (simp add: needy_def breaker_closed_def)
  then show ?case using settled continue_valid[of k] by (auto simp: ctl_inv_def)
next
  case (settled_closed tr c k M r)
  then show ?case by (auto simp: ctl_inv_def)
next
  case (signalled c k M l r)
  have "needy (signal c) = needy c" by (simp add: needy_def breaker_closed_def)
  then show ?case using signalled continue_valid[of k] by (auto simp: ctl_inv_def)
next
  case (parks cancelled now ids cause c u c' M l r)
  then have "ok (ct_store c)" "valid_ids ids" by (auto simp: ctl_inv_def)
  from park_write_ok[OF this parks(1)] parks(2) show ?case by (auto simp: ctl_inv_def)
next
  case (parks_not cancelled now ids cause c err c' M l r)
  then have "ok (ct_store c)" "valid_ids ids" by (auto simp: ctl_inv_def)
  from park_write_ok[OF this parks_not(1)] have "needy c' = needy c" "ok (ct_store c')"
      "ct_release_batch c' = ct_release_batch c" "ct_drain_pending c' = ct_drain_pending c" "ct_wake c \<longrightarrow> ct_wake c'"
    by (auto simp: needy_def breaker_closed_def)
  then show ?case using parks_not(2) by (auto simp: ctl_inv_def)
next
  case (parked now c st c' M l r)
  have n: "needy c' = needy c" using breaker_state_frame[OF parked(1)] needy_frame by blast
  have "needy c \<Longrightarrow> st = StateClosed" using breaker_state_frame[OF parked(1)] by (auto simp: needy_def)
  then show ?case using parked(2) n breaker_state_frame[OF parked(1), unfolded same_but_breaker_def]
    by (auto simp: ctl_inv_def)
next
  case (requests c M r)
  then show ?case by (auto simp: ctl_inv_def)
next
  case (drains c M r)
  then show ?case by (auto simp: ctl_inv_def)
next
  case (drains_not c M r)
  then show ?case by (auto simp: ctl_inv_def)
next
  case (round cancelled call_cancelled now c b c' M w r)
  then have "ok (ct_store c)" "0 < ct_release_batch c" by (auto simp: ctl_inv_def)
  note R = release_round_ok[OF this round(1)]
  have "needy c' \<Longrightarrow> needy c \<and> \<not> b" using R by (cases b) (auto simp: needy_def breaker_closed_def)
  then show ?case using round(2) R by (auto simp: ctl_inv_def)
next
  case (round_fails cancelled call_cancelled now c err c' M w r)
  then have "ok (ct_store c)" "0 < ct_release_batch c" by (auto simp: ctl_inv_def)
  note R = release_round_ok[OF this round_fails(1)]
  have "needy c' \<Longrightarrow> needy c" using R by (auto simp: needy_def breaker_closed_def)
  then show ?case using round_fails(2) R
    by (auto simp: ctl_inv_def lock_released_def resting_def)
next
  case (drained c M w r)
  have "needy (c\<lparr>ct_drain_pending := False\<rparr>) = needy c" by (simp add: needy_def breaker_closed_def)
  then show ?case using drained by (auto simp: ctl_inv_def)
next
  case (run_snapshot now c sn c' M l)
  have "needy c' = needy c" "needy c \<Longrightarrow> sn_state sn = StateClosed"
    using breaker_snapshot_frame[OF run_snapshot(1)] by (auto simp: needy_def same_but_breaker_def)
  then show ?case using run_snapshot(2) breaker_snapshot_frame[OF run_snapshot(1), unfolded same_but_breaker_def]
    by (auto simp: ctl_inv_def resting_def)
next
  case (run_checks c M sn)
  then show ?case by (auto simp: ctl_inv_def resting_def)
next
  case (run_drains c M sn)
  then show ?case by (auto simp: ctl_inv_def resting_def)
next
  case (run_drains_not c M sn)
  then show ?case by (auto simp: ctl_inv_def resting_def)
next
  case (run_probe i en sn version rl c res c' M l)
  then have "ok (ct_store c)" by (auto simp: ctl_inv_def)
  note R = release_probe_ok[OF this run_probe(1)]
  have "needy c' \<Longrightarrow> needy c" using R by (auto simp: needy_def)
  then show ?case using run_probe(2) R by (auto simp: ctl_inv_def resting_def)
next
  case (run_blocks c M l sn)
  then show ?case by (auto simp: ctl_inv_def resting_def)
next
  case (run_selects c M l ev)
  have "needy (c\<lparr>ct_wake := False\<rparr>) = needy c" by (simp add: needy_def breaker_closed_def)
  then show ?case using run_selects by (cases ev) (auto simp: ctl_inv_def run_select_def resting_def)
next
  case (other c s M l r)
  then have "ok s" "waiting s \<subseteq> waiting (ct_store c)" using quiet_ok by (auto simp: ctl_inv_def)
  moreover have "needy (c\<lparr>ct_store := s\<rparr>) \<Longrightarrow> needy c"
    using calculation by (auto simp: needy_def breaker_closed_def)
  ultimately show ?case using other by (auto simp: ctl_inv_def)
qed

lemma ctl_reaches_inv:
  assumes "ctl_reaches ops co quiet c s" "ok (ct_store c)" "0 < ct_release_batch c" "ct_drain_pending c"
  shows "ctl_inv s"
  using assms by (induction rule: ctl_reaches.induct) (auto intro: ctl_start ctl_inv_step)

text \<open>At rest, a closed breaker has no waiting task.\<close>

lemma rest_is_drained:
  assumes "ctl_reaches ops co quiet c s" "ok (ct_store c)" "0 < ct_release_batch c" "ct_drain_pending c"
    and "cs_threads s = {#}" "cs_run s = RunBlocked" "\<not> ct_wake (cs_ctl s)" "breaker_closed (cs_ctl s)"
  shows "waiting (ct_store (cs_ctl s)) = {}"
  using ctl_reaches_inv[OF assms(1-4)] assms(5-8)
  by (auto simp: ctl_inv_def needy_def resting_def)

end

end
