(* ===== verification/Controller_Store.thy ===== *)
theory Controller_Store
  imports Controller_Laws Scheduler_Store
begin

text \<open>
  The store as the controller's waiting store: \<open>store.Store\<close> provides both interfaces.  The laws of
  \<open>waiting_source\<close> are discharged from the laws of the queue.
\<close>

definition call_ctx :: "bool \<Rightarrow> context_state" where
  "call_ctx cancelled = (if cancelled then CtxCancelled else CtxLive)"

definition store_waiting_ops :: "(call_error, db) waiting_ops" where
  "store_waiting_ops = \<lparr>
     wt_park = (\<lambda>cancelled now i reason. in_ctx (call_ctx cancelled) (mark_waiting_dep now i reason)),
     wt_park_batch = Some (\<lambda>cancelled now ids reason.
       in_ctx (call_ctx cancelled) (mark_waiting_dep_batch now ids reason)),
     wt_release = (\<lambda>cancelled now limit db.
       apfst (map_sum id int) (in_ctx (call_ctx cancelled) (release_waiting_dep now limit) db))\<rparr>"

definition parked_ids :: "task_state \<Rightarrow> db \<Rightarrow> int set" where
  "parked_ids st db = t_id ` {t \<in> set (db_tasks db). t_state t = st}"

abbreviation waiting_ids :: "db \<Rightarrow> int set" where
  "waiting_ids \<equiv> parked_ids TaskStateWaitingDep"

definition parks_nothing :: "db \<Rightarrow> db \<Rightarrow> bool" where
  "parks_nothing db db' \<longleftrightarrow> db_wf db' \<and> waiting_ids db' \<subseteq> waiting_ids db"

lemma parked_ids_map:
  assumes "\<And>t. t_id (g t) = t_id t" "\<And>t. t_state (g t) = t_state t"
  shows "parked_ids st (db\<lparr>db_tasks := map g ts\<rparr>) = parked_ids st (db\<lparr>db_tasks := ts\<rparr>)"
proof -
  have "{t \<in> set (map g ts). t_state t = st} = g ` {t \<in> set ts. t_state t = st}" using assms(2) by auto
  then show ?thesis by (simp add: parked_ids_def image_image assms(1))
qed

lemma parked_ids_update:
  assumes "\<And>t. t_id (f t) = t_id t \<and> t_state (f t) = t_state t"
  shows "parked_ids st (db\<lparr>db_tasks := rows_update P f ts\<rparr>) = parked_ids st (db\<lparr>db_tasks := ts\<rparr>)"
  unfolding rows_update_def by (rule parked_ids_map) (simp_all add: assms)

lemma parked_ids_delete:
  "parked_ids st (db\<lparr>db_tasks := rows_delete (\<lambda>t. t_id t = i) ts\<rparr>) = parked_ids st (db\<lparr>db_tasks := ts\<rparr>) - {i}"
  by (auto simp: parked_ids_def)

lemma release_one_takes:
  assumes st: "st \<noteq> TaskStatePending"
  shows "wp (release_one now st n c) (\<lambda>_ db'. parked_ids st db' = parked_ids st db - {t_id c}) (\<lambda>_. True) db"
proof (cases "List.find (\<lambda>t. t_path_key t = path_key (t_path c) \<and> t_state t = TaskStatePending) (db_tasks db)")
  case None
  have "parked_ids st (db\<lparr>db_tasks := rows_update (\<lambda>t. t_id t = t_id c \<and> t_state t = st) (released_row now)
      (db_tasks db)\<rparr>) = parked_ids st db - {t_id c}"
    using st by (force simp: parked_ids_def set_rows_update released_row_def)
  then show ?thesis using None by (simp add: release_one_def wp_simps released_row_def [abs_def])
next
  case (Some p)
  have "parked_ids st (db\<lparr>db_tasks := rows_delete (\<lambda>t. t_id t = t_id c)
      (rows_update (\<lambda>t. t_id t = t_id p) (absorb_released now c) (db_tasks db))\<rparr>) = parked_ids st db - {t_id c}"
    by (simp add: parked_ids_delete parked_ids_update absorb_released_def)
  moreover have "parked_ids st (db\<lparr>db_tasks := rows_delete (\<lambda>t. t_id t = t_id c) (db_tasks db)\<rparr>) =
      parked_ids st db - {t_id c}"
    by (simp add: parked_ids_delete)
  ultimately show ?thesis using Some by (simp add: release_one_def wp_simps)
qed

lemma release_takes_candidates:
  fixes db :: db and due limit :: int
  assumes st: "st \<noteq> TaskStatePending"
  defines "cs \<equiv> release_candidates st due limit (db_tasks db)"
  shows "wp (release_to_pending_tx now st due limit)
    (\<lambda>n db'. n = length cs \<and> parked_ids st db' = parked_ids st db - set (map t_id cs)) (\<lambda>_. True) db"
proof -
  define I where "I n rest db' \<longleftrightarrow> n + length rest = length cs \<and>
      (\<exists>pre. cs = pre @ rest \<and> parked_ids st db' = parked_ids st db - set (map t_id pre))" for n rest db'
  have "wp (tx_fold (release_one now st) 0 cs) (\<lambda>n. I n []) (\<lambda>_. True) db"
  proof (rule wp_fold_rest)
    show "I 0 cs db" by (simp add: I_def)
  next
    fix n c rest db'
    assume "I n (c # rest) db'"
    then obtain pre where pre: "n + length (c # rest) = length cs" "cs = pre @ c # rest"
        "parked_ids st db' = parked_ids st db - set (map t_id pre)"
      unfolding I_def by blast
    have n: "wp (release_one now st n c) (\<lambda>m _. m = n + 1) (\<lambda>_. True) db'"
      by (auto simp: release_one_def wp_simps split: option.splits)
    show "wp (release_one now st n c) (\<lambda>b'. I b' rest) (\<lambda>_. True) db'"
      using release_one_takes[OF st, of now n c db'] n pre unfolding I_def wp_def
      by (fastforce split: sum.splits prod.splits intro!: exI[of _ "pre @ [c]"])
  qed
  then have "wp (tx_fold (release_one now st) 0 cs)
      (\<lambda>n db'. n = length cs \<and> parked_ids st db' = parked_ids st db - set (map t_id cs)) (\<lambda>_. True) db"
    by (rule wp_mono) (auto simp: I_def)
  then show ?thesis by (simp add: release_to_pending_tx_def wp_simps cs_def)
qed

lemma all_candidates:
  assumes "length (release_candidates TaskStateWaitingDep due limit ts) < nat limit"
  shows "set (release_candidates TaskStateWaitingDep due limit ts) = {t \<in> set ts. t_state t = TaskStateWaitingDep}"
proof -
  let ?all = "order_by claim_order (filter (\<lambda>t. t_state t = TaskStateWaitingDep) ts)"
  have "release_candidates TaskStateWaitingDep due limit ts = take (nat limit) ?all"
    using assms by (auto simp: release_candidates_def list_limit_def)
  moreover have "set ?all = {t \<in> set ts. t_state t = TaskStateWaitingDep}" by (simp add: order_by_def)
  moreover have "length ?all \<le> nat limit" using assms unfolding calculation(1) by simp
  ultimately show ?thesis by simp
qed

lemma release_waiting_laws:
  assumes wf: "db_wf db" and n: "0 < limit" and r: "release_waiting_dep now limit db = (Inr k, db')"
  shows "db_wf db' \<and> waiting_ids db' \<subseteq> waiting_ids db \<and> int k \<le> limit \<and>
    card (waiting_ids db') + k = card (waiting_ids db) \<and> (int k < limit \<longrightarrow> waiting_ids db' = {})"
proof -
  let ?cs = "release_candidates TaskStateWaitingDep 0 limit (db_tasks db)"
  have tw: "tasks_wf (db_tasks db)" using wf by (simp add: db_wf_def)
  note props = release_candidates_props[OF tw, of TaskStateWaitingDep 0 limit]
  have eq: "k = length ?cs" "waiting_ids db' = waiting_ids db - set (map t_id ?cs)"
    using with_tx_post[OF release_takes_candidates, of TaskStateWaitingDep now 0 limit db k] r
    by (simp_all add: release_waiting_dep_def)
  have sub: "set (map t_id ?cs) \<subseteq> waiting_ids db" using props(1) by (auto simp: parked_ids_def)
  have fin: "finite (waiting_ids db)" by (simp add: parked_ids_def)
  have "card (set (map t_id ?cs)) = k" using distinct_card[OF props(2)] by (simp add: eq(1))
  then have card: "card (waiting_ids db') + k = card (waiting_ids db)"
    using sub fin by (metis eq(2) card_Diff_subset card_mono finite_subset le_add_diff_inverse2)
  have "waiting_ids db' = {}" if "int k < limit"
  proof -
    have "length ?cs < nat limit" using that n eq(1) by linarith
    from all_candidates[OF this] have "set (map t_id ?cs) = waiting_ids db" by (simp add: parked_ids_def)
    then show ?thesis by (simp add: eq(2))
  qed
  moreover have "int k \<le> limit" using props(3) n eq(1) by (simp add: list_limit_def)
  moreover have "db_wf (snd (release_waiting_dep now limit db))"
    unfolding release_waiting_dep_def by (rule release.safe(1)[OF wf])
  ultimately show ?thesis using card eq(2) r by auto
qed

text \<open>Parking moves no other task.\<close>

lemma park_adds_only:
  fixes db :: db and ids :: "int list"
  defines "W \<equiv> waiting_ids db \<union> set ids"
  shows "wp (mark_waiting_dep_batch_tx now ids reason) (\<lambda>_ db'. waiting_ids db' \<subseteq> W) (\<lambda>_. True) db"
proof -
  let ?I = "\<lambda>db'. waiting_ids db' \<subseteq> W"
  have reads: "wp (tasks_for_transition js) (\<lambda>_. ?I) (\<lambda>_. True) d" if I: "?I d" for js d
  proof (induction js)
    case (Cons j js)
    have "wp (tasks_for_transition (j # js)) (\<lambda>_. ?I) (\<lambda>_. True) d \<longleftrightarrow>
        (case List.find (\<lambda>t. t_id t = j) (db_tasks d) of None \<Rightarrow> True
         | Some t \<Rightarrow> t_state t \<noteq> TaskStateInFlight \<or> wp (tasks_for_transition js) (\<lambda>_. ?I) (\<lambda>_. True) d)"
      by (simp add: wp_simps split: option.splits)
    then show ?case using Cons by (simp split: option.splits)
  qed (simp add: wp_simps I)
  have drop: "waiting_ids (d\<lparr>db_tasks := rows_delete (\<lambda>u. t_id u = j) (db_tasks d)\<rparr>) \<subseteq> waiting_ids d" for d j
    by (auto simp: parked_ids_delete)
  have clear: "wp (clear_older_state_slot t TaskStateWaitingDep) (\<lambda>_. ?I) (\<lambda>_. True) d" if I: "?I d" for t d
    using I order_trans[OF drop I] by (simp add: clear_older_state_slot_def wp_simps split: option.splits)
  have add: "waiting_ids (d\<lparr>db_tasks := rows_update (\<lambda>t. t_id t = i \<and> t_state t = TaskStateInFlight)
      (waiting_dep_row now reason) (db_tasks d)\<rparr>) \<subseteq> insert i (waiting_ids d)" for d i
    by (auto simp: parked_ids_def set_rows_update waiting_dep_row_def)
  have park: "wp (park_task_tx now reason i) (\<lambda>_. ?I) (\<lambda>_. True) d" if I: "?I d" "i \<in> set ids" for i d
  proof -
    have "insert i (waiting_ids d) \<subseteq> W" using I by (simp add: W_def)
    from order_trans[OF add this] show ?thesis by (simp add: park_task_tx_def wp_simps require_changed_def)
  qed
  have clears: "wp (tx_each (\<lambda>t. clear_older_state_slot t TaskStateWaitingDep) ts) (\<lambda>_. ?I) (\<lambda>_. True) d"
    if I: "?I d" for ts d
    by (rule wp_each[where I = ?I, OF I clear])
  have parks: "wp (tx_each (park_task_tx now reason) ids) (\<lambda>_. ?I) (\<lambda>_. True) d" if I: "?I d" for d
    by (rule wp_each[where I = ?I, OF I park])
  have start: "?I db" by (simp add: W_def)
  have "wp (tasks_for_transition ids) (\<lambda>ts. wp (tx_each (\<lambda>t. clear_older_state_slot t TaskStateWaitingDep) ts)
      (\<lambda>_. wp (tx_each (park_task_tx now reason) ids) (\<lambda>_. ?I) (\<lambda>_. True)) (\<lambda>_. True)) (\<lambda>_. True) db"
    by (rule wp_mono[OF reads[OF start]], rule wp_mono[OF clears], assumption, rule parks) simp_all
  then show ?thesis by (simp only: mark_waiting_dep_batch_tx_def wp_bind wp_bind_fun)
qed

lemma park_batch_laws:
  assumes wf: "db_wf db" and r: "mark_waiting_dep_batch now ids reason db = (Inr u, db')"
  shows "db_wf db' \<and> set ids \<subseteq> waiting_ids db' \<and> waiting_ids db' \<subseteq> waiting_ids db \<union> set ids"
proof -
  have ids: "ids \<noteq> []" "validate_dependency_batch {} ids = Inr ()"
    using r by (auto simp: mark_waiting_dep_batch_def split: if_splits sum.splits)
  then have d: "distinct ids" by (blast dest: validate_dependency_batch_distinct)
  have eq: "mark_waiting_dep_batch now ids reason db = with_tx (mark_waiting_dep_batch_tx now ids reason) db"
    using ids by (simp add: mark_waiting_dep_batch_def)
  have "fst (with_tx (mark_waiting_dep_batch_tx now ids reason) db) = Inr u" using r eq by simp
  then have "db_wf (snd (with_tx (mark_waiting_dep_batch_tx now ids reason) db)) \<and>
      set ids \<subseteq> waiting_ids (snd (with_tx (mark_waiting_dep_batch_tx now ids reason) db))"
  proof (rule with_tx_postI)
    fix Q :: "unit \<Rightarrow> db \<Rightarrow> bool"
    assume Q: "\<And>y db'. db_wf db' \<and> set ids \<subseteq> waiting_ids db' \<Longrightarrow> Q y db'"
    show "wp (mark_waiting_dep_batch_tx now ids reason) Q (\<lambda>_. True) db"
    proof (rule wp_mark_waiting_dep_batch_tx[OF inv_refl[OF wf] TrueI d], goal_cases)
      case (1 us)
      have "set ids \<subseteq> waiting_ids (db\<lparr>db_tasks := us\<rparr>)" using 1(3) by (force simp: parked_ids_def)
      then show ?case using 1(1) by (intro Q) (simp add: tx_inv_def)
    qed
  qed
  moreover have "waiting_ids (snd (with_tx (mark_waiting_dep_batch_tx now ids reason) db)) \<subseteq> waiting_ids db \<union> set ids"
    by (rule with_tx_wp[OF park_adds_only]) simp
  ultimately show ?thesis using r eq by simp
qed

lemma failed_park_keeps:
  "mark_waiting_dep_batch now ids reason db = (Inl e, db') \<Longrightarrow> db' = db"
  using with_tx_rollback[of "mark_waiting_dep_batch_tx now ids reason" db e]
  by (auto simp: mark_waiting_dep_batch_def split: if_splits sum.splits)

lemma failed_release_keeps: "release_waiting_dep now limit db = (Inl e, db') \<Longrightarrow> db' = db"
  using with_tx_rollback[of "release_to_pending_tx now TaskStateWaitingDep 0 limit" db e]
  by (simp add: release_waiting_dep_def)

lemma in_ctx_Inr: "in_ctx cx f db = (Inr x, db') \<longleftrightarrow> cx \<noteq> CtxCancelled \<and> f db = (Inr x, db')"
  by (cases "f db"; cases "fst (f db)") (auto simp: in_ctx_def)

lemma in_ctx_Inl: "in_ctx cx f db = (Inl e, db') \<Longrightarrow> db' = db \<or> (\<exists>e'. f db = (Inl e', db'))"
  by (cases "f db"; cases "fst (f db)") (auto simp: in_ctx_def split: if_splits)

lemma map_sum_Inr: "map_sum f g r = Inr y \<longleftrightarrow> (\<exists>x. r = Inr x \<and> y = g x)"
  by (cases r) auto

interpretation waiting: waiting_source store_waiting_ops db_wf waiting_ids parks_nothing
proof (unfold_locales, goal_cases)
  case (1 s)
  then show ?case by (simp add: parked_ids_def)
next
  case (2 s cc now n k s')
  then obtain j where j: "k = int j" "release_waiting_dep now n s = (Inr j, s')"
    by (auto simp: store_waiting_ops_def apfst_eq map_sum_Inr in_ctx_Inr eq_commute[of "Inr k"])
  from release_waiting_laws[OF 2(1,3) j(2)] show ?case by (simp add: j(1) flip: of_nat_add)
next
  case (3 s cc now n e s')
  then show ?case
    by (auto simp: store_waiting_ops_def apfst_eq map_sum_Inl eq_commute[of "Inl e"]
        dest!: in_ctx_Inl failed_release_keeps)
next
  case (4 s ids f cc now reason u s')
  then have "mark_waiting_dep_batch now ids reason s = (Inr (), s')" by (auto simp: store_waiting_ops_def in_ctx_Inr)
  from park_batch_laws[OF 4(1) this] show ?case .
next
  case (5 s ids f cc now reason e s')
  then show ?case by (auto simp: store_waiting_ops_def dest!: in_ctx_Inl failed_park_keeps)
next
  case 6
  then show ?case by (simp add: store_waiting_ops_def)
next
  case (7 s s')
  then show ?case by (simp add: parks_nothing_def)
qed

end
