(* ===== verification/Controller_Properties.thy ===== *)
theory Controller_Properties
  imports Controller_Store Store_Properties Breaker_Properties
begin

text \<open>
  What the controller promises over the real store: a failed call leaves its tasks parked or
  released but never lost, a recovered dependency releases everything, an outage releases one
  candidate at a time, and no interleaving forgets a parked task.
\<close>

section \<open>Example controllers\<close>

definition example_env :: env where
  "example_env = \<lparr>en_cancelled = (\<lambda>_. False), en_now = (\<lambda>_. 30), en_rounds = 3\<rparr>"

definition example_causes :: "(call_error, string) cause_ops" where
  "example_causes = \<lparr>co_message = (\<lambda>s. s), co_is_failure = (\<lambda>_. True)\<rparr>"

definition controller_on :: "db \<Rightarrow> breaker \<Rightarrow> db controller" where
  "controller_on db b = \<lparr>ct_store = db, ct_breaker = b, ct_release_batch = 1000, ct_open_for = 10,
     ct_wake = False, ct_running = False, ct_waiter_version = 0, ct_drain_pending = True,
     ct_notified = 0, ct_observed = []\<rparr>"

lemma example_controller: "new_controller db example_config = Inr (controller_on db example_breaker)"
  by (simp add: new_controller_def new_breaker_def normalize_config_def example_config_def
      example_breaker_def default_release_batch_def controller_on_def)

definition example_call :: "(call_error, string) call" where
  "example_call = \<lparr>cl_ids = Some [1], cl_permit = closed_permit, cl_result = None\<rparr>"

definition dep_db :: db where
  "dep_db = run_ops (leased_ops @ [OpMarkWaitingDepBatch 20 [1] ''down''])"

lemma leased_db_wf: "db_wf leased_db"
  unfolding leased_db_def by (rule run_ops_wf) (simp add: leased_ops_def admissible_def)

lemma dep_db_wf: "db_wf dep_db"
  unfolding dep_db_def by (rule run_ops_wf) (simp add: leased_ops_def admissible_def)

text \<open>One parked row is released by one round, which is the last.\<close>

definition parked_list :: "db \<Rightarrow> int list" where
  "parked_list db = map t_id (filter (\<lambda>t. t_state t = TaskStateWaitingDep) (db_tasks db))"

lemma waiting_ids_list: "waiting_ids db = set (parked_list db)"
  by (simp add: parked_ids_def parked_list_def)

fun waits_on :: "('e, 'd) controller_error option \<Rightarrow> (int list \<times> 'd) option" where
  "waits_on (Some (ErrWaitingDependency ids (Some (Dependency d)))) = Some (ids, d)"
| "waits_on _ = None"

lemma waits_onD: "waits_on r = Some (ids, d) \<Longrightarrow> r = Some (ErrWaitingDependency ids (Some (Dependency d)))"
  by (cases r rule: waits_on.cases) auto

section \<open>Properties\<close>

text \<open>C19: A failed call loses no task.  When a call on behalf of a batch of tasks reports a failure
  of the dependency, it returns an error that is never the bound of the model; if that error says
  that the tasks wait, then either the breaker is not closed and every one of them is parked in
  the store, or it is closed and no task waits at all; a second report returns the same
  result and changes nothing.\<close>

theorem failed_call_parks_or_redrives:
  assumes "db_wf (ct_store c)" "0 < ct_release_batch c" "valid_ids ids"
    and "cl_ids cl = Some ids" "cl_result cl = None" "\<not> en_cancelled en 0" "co_is_failure co d"
    and "int (card (waiting_ids (ct_store c)) + length ids) < int (en_rounds en) * ct_release_batch c"
    and "call_failure store_waiting_ops co en (Some d) cl c = (r, cl', c')"
  shows "(\<exists>e. r = Some e \<and> e \<noteq> OutOfRounds \<and>
     (\<forall>js cause. e = ErrWaitingDependency js cause \<longrightarrow>
        (if breaker_closed c' then waiting_ids (ct_store c') = {} \<and> \<not> ct_drain_pending c'
         else set ids \<subseteq> waiting_ids (ct_store c')))) \<and>
     call_failure store_waiting_ops co en' (Some d') cl' c' = (r, cl', c')"
proof -
  obtain tr b where f: "permit_finish (en_now en 0) (cl_permit cl) CompletionFailure c = (tr, b)" by fastforce
  note F = permit_finish_frame[OF f, unfolded same_but_breaker_def]
  let ?m = "after_transition tr b"
  obtain e d2 where p: "park_batch_at 1 store_waiting_ops co en ids (Some (Dependency d)) ?m = (e, d2)" by fastforce
  have "call_failure store_waiting_ops co en (Some d) cl c = (Some e, cl\<lparr>cl_result := Some (Some e)\<rparr>, d2)"
    using assms(4-7) f p by (simp add: call_failure_def call_finish_def finish_body_def)
  then have r: "r = Some e" "cl' = cl\<lparr>cl_result := Some (Some e)\<rparr>" "c' = d2" using assms(9) by auto
  have "db_wf (ct_store ?m)" "0 < ct_release_batch ?m"
    "int (card (waiting_ids (ct_store ?m)) + length ids) < int (en_rounds en) * ct_release_batch ?m"
    using F assms(1,2,8) by auto
  from waiting.park_batch_at_ok[OF this(1) assms(3) this(2,3) p]
  show ?thesis by (auto simp: r call_failure_def call_finish_def)
qed

lemma failed_call_parks_or_redrives_witness:
  "\<exists>cl' c'. call_failure store_waiting_ops example_causes example_env (Some ''down'') example_call
       (controller_on leased_db example_breaker) =
         (Some (ErrWaitingDependency [1] (Some (Dependency ''down''))), cl', c') \<and>
     breaker_closed c' \<and> waiting_ids (ct_store c') = {}"
proof -
  let ?c = "controller_on leased_db example_breaker"
  let ?r = "call_failure store_waiting_ops example_causes example_env (Some ''down'') example_call ?c"
  have e1: "waits_on (fst ?r) = Some ([1], ''down'')" by code_simp
  have e2: "br_state (ct_breaker (snd (snd ?r))) = StateClosed" by code_simp
  have e3: "parked_list leased_db = []" by code_simp
  obtain cl' c' where r: "?r = (Some (ErrWaitingDependency [1] (Some (Dependency ''down''))), cl', c')"
    using waits_onD[OF e1] by (cases ?r) auto
  have closed: "breaker_closed c'" using e2 unfolding r by (simp add: breaker_closed_def)
  have h: "db_wf (ct_store ?c)" "0 < ct_release_batch ?c" "valid_ids [1]" "cl_ids example_call = Some [1]"
    "cl_result example_call = None" "\<not> en_cancelled example_env 0" "co_is_failure example_causes ''down''"
    "int (card (waiting_ids (ct_store ?c)) + length [1]) < int (en_rounds example_env) * ct_release_batch ?c"
    using leased_db_wf
    by (simp_all add: controller_on_def valid_ids_def example_call_def example_env_def example_causes_def
        waiting_ids_list e3)
  have "waiting_ids (ct_store c') = {}"
    using failed_call_parks_or_redrives[OF h r] closed by simp
  then show ?thesis using r closed by (intro exI conjI)
qed

text \<open>C20: Recovery releases everything.  When the probe of a half-open breaker reports success and
  gets no error, the breaker is closed, no task waits for the dependency any more and no drain is
  pending; the drain loop never needs more rounds than there are full batches.\<close>

theorem recovery_releases_everything:
  fixes cl :: "(call_error, 'd) call"
  assumes "db_wf (ct_store c)" "0 < ct_release_batch c" "cl_result cl = None"
    and "br_state (ct_breaker c) = StateHalfOpen" "br_probe_in_flight (ct_breaker c)"
    and "cl_permit cl = \<lparr>pm_epoch = br_epoch (ct_breaker c), pm_probe = True\<rparr>"
    and "int (card (waiting_ids (ct_store c))) < int (en_rounds en) * ct_release_batch c"
    and "call_success store_waiting_ops co en cl c = (r, cl', c')"
  shows "r \<noteq> Some OutOfRounds \<and> breaker_closed c' \<and>
    (r = None \<longrightarrow> waiting_ids (ct_store c') = {} \<and> \<not> ct_drain_pending c')"
proof -
  obtain tr b where f: "permit_finish (en_now en 0) (cl_permit cl) CompletionSuccess c = (tr, b)" by fastforce
  note F = permit_finish_frame[OF f, unfolded same_but_breaker_def]
  have closes: "closes tr"
    using f assms(4-6)
    by (auto simp: permit_finish_def breaker_complete_def accepts_def settle_def closes_def Let_def)
  let ?m = "after_transition tr b"
  have m: "db_wf (ct_store ?m)" "0 < ct_release_batch ?m" "waiting.enough en ?m" "ct_drain_pending ?m"
    "breaker_closed ?m"
    using F assms(1,2,7) closes by (auto simp: waiting.enough_def breaker_closed_def)
  obtain q :: "(call_error, 'd) controller_error + unit" and d2
    where q: "drain_waiting 1 store_waiting_ops en ?m = (q, d2)" by fastforce
  note D = waiting.drain_waiting_ok[OF m(1-3) q]
  have "call_success store_waiting_ops co en cl c =
      (case q of Inl e \<Rightarrow> Some e | Inr _ \<Rightarrow> None, cl\<lparr>cl_result := Some (case q of Inl e \<Rightarrow> Some e | Inr _ \<Rightarrow> None)\<rparr>, d2)"
    using assms(3) f q by (auto simp: call_success_def call_finish_def finish_body_def split: sum.splits)
  then have "r = (case q of Inl e \<Rightarrow> Some e | Inr _ \<Rightarrow> None)" "c' = d2" using assms(8) by auto
  then show ?thesis using D m(4,5) by (cases q) (auto simp: breaker_closed_def)
qed

lemma recovery_releases_everything_witness:
  "\<exists>cl' c'. call_success store_waiting_ops example_causes example_env
       (example_call\<lparr>cl_permit := \<lparr>pm_epoch = 2, pm_probe = True\<rparr>\<rparr>)
       (controller_on dep_db (bs_breaker probing_sys)) = (None, cl', c') \<and>
     waiting_ids (ct_store c') = {} \<and> waiting_ids dep_db = {1}"
proof -
  let ?c = "controller_on dep_db (bs_breaker probing_sys)"
  let ?r = "call_success store_waiting_ops example_causes example_env
    (example_call\<lparr>cl_permit := \<lparr>pm_epoch = 2, pm_probe = True\<rparr>\<rparr>) ?c"
  have e: "fst ?r = None" "parked_list dep_db = [1]" by code_simp+
  then obtain cl' c' where r: "?r = (None, cl', c')" by (cases ?r) auto
  have "int (card (waiting_ids (ct_store ?c))) < int (en_rounds example_env) * ct_release_batch ?c"
    by (simp add: controller_on_def waiting_ids_list e(2) example_env_def)
  from recovery_releases_everything[OF _ _ _ _ _ _ this r] dep_db_wf
  have "waiting_ids (ct_store c') = {}"
    by (simp add: controller_on_def probing_sys_def example_call_def)
  then show ?thesis using r e(2) by (auto simp: waiting_ids_list)
qed

lemma run_iteration_not_closed:
  assumes "breaker_snapshot_of (en_now en 0) c = (sn, d)" "sn_state sn \<noteq> StateClosed"
    and "l' = expire_watchdog sn (en_now en 1) (enter_epoch sn l)"
  shows "run_iteration ops en l c =
    (case (if half_open_idle sn \<and> \<not> rl_released_probe l' \<and>
              (rl_watchdog l' \<or> rl_attempted_version l' \<noteq> ct_waiter_version d)
           then release_probe ops en 2 sn (ct_waiter_version d) l' d else (Inr l', d)) of
       (Inl r, c) \<Rightarrow> (Inl r, c)
     | (Inr l, c) \<Rightarrow> (Inr (l, armed_timer sn l (en_now en 3)), c))"
  using assms by (auto simp: run_iteration_def Let_def)

text \<open>An outage releases one candidate at a time.  While the breaker is not closed, an iteration of
  the background loop releases at most one waiting task, and none while the cooldown lasts or a probe is
  in flight.\<close>

theorem outage_releases_one_candidate:
  fixes r :: "(call_error, 'd) controller_error option + (run_loop \<times> int option)"
  assumes "db_wf (ct_store c)" "\<not> breaker_closed c"
    and "run_iteration store_waiting_ops en l c = (r, c')"
  shows "waiting_ids (ct_store c') \<subseteq> waiting_ids (ct_store c) \<and>
    card (waiting_ids (ct_store c)) \<le> card (waiting_ids (ct_store c')) + 1 \<and>
    (br_probe_in_flight (ct_breaker c) \<and> br_state (ct_breaker c) = StateHalfOpen \<or>
     br_state (ct_breaker c) = StateOpen \<and> before (en_now en 0) (br_open_until (ct_breaker c)) \<longrightarrow>
       ct_store c' = ct_store c)"
proof -
  obtain sn c1 where sn: "breaker_snapshot_of (en_now en 0) c = (sn, c1)" by fastforce
  note S = breaker_snapshot_frame[OF sn, unfolded same_but_breaker_def]
  have not_closed: "sn_state sn \<noteq> StateClosed" using S assms(2) by simp
  define l1 where l1: "l1 = expire_watchdog sn (en_now en 1) (enter_epoch sn l)"
  note iter = run_iteration_not_closed[OF sn not_closed l1, of store_waiting_ops]
  show ?thesis
  proof (cases "half_open_idle sn \<and> \<not> rl_released_probe l1 \<and>
      (rl_watchdog l1 \<or> rl_attempted_version l1 \<noteq> ct_waiter_version c1)")
    case False
    then have "ct_store c' = ct_store c"
      using assms(3) S unfolding iter by (simp only: if_False) auto
    then show ?thesis by simp
  next
    case True
    obtain res c2 where p: "release_probe store_waiting_ops en 2 sn (ct_waiter_version c1) l1 c1 =
        ((res :: (call_error, 'd) controller_error option + run_loop), c2)" by fastforce
    have c': "ct_store c' = ct_store c2"
      using assms(3) p unfolding iter by (simp only: True if_True) (auto split: sum.splits)
    have idle: "\<not> (br_probe_in_flight (ct_breaker c) \<and> br_state (ct_breaker c) = StateHalfOpen \<or>
        br_state (ct_breaker c) = StateOpen \<and> before (en_now en 0) (br_open_until (ct_breaker c)))"
      using True sn by (auto simp: half_open_idle_def breaker_snapshot_of_def snapshot_def advance_def)
    obtain q s where q: "wt_release store_waiting_ops (en_cancelled en 2) (en_now en 2) 1 (ct_store c) = (q, s)"
      by fastforce
    have "ct_store c2 = ct_store c \<or> ct_store c2 = s"
      using p S q by (auto simp: release_probe_def with_half_open_idle_def Let_def split: if_splits sum.splits prod.splits)
    moreover have "waiting_ids s \<subseteq> waiting_ids (ct_store c) \<and> card (waiting_ids (ct_store c)) \<le> card (waiting_ids s) + 1"
    proof (cases q)
      case (Inl e)
      then show ?thesis using waiting.release_failed[OF assms(1) q[unfolded Inl]] by simp
    next
      case (Inr k)
      then show ?thesis using waiting.release_ok[OF assms(1) q[unfolded Inr]] by auto
    qed
    ultimately show ?thesis using idle c' by auto
  qed
qed

lemma outage_releases_one_candidate_witness:
  "waiting_ids (ct_store (snd (run_iteration store_waiting_ops example_env new_run_loop
     (controller_on dep_db (bs_breaker probing_sys)) ::
     ((call_error, string) controller_error option + (run_loop \<times> int option)) \<times> db controller))) = {1}"
proof -
  let ?c = "controller_on dep_db (bs_breaker probing_sys)"
  let ?r = "run_iteration store_waiting_ops example_env new_run_loop ?c ::
    ((call_error, string) controller_error option + (run_loop \<times> int option)) \<times> db controller"
  have "\<not> breaker_closed ?c" "br_probe_in_flight (ct_breaker ?c)" "br_state (ct_breaker ?c) = StateHalfOpen"
    by (simp_all add: breaker_closed_def controller_on_def probing_sys_def)
  moreover have "db_wf (ct_store ?c)" "ct_store ?c = dep_db" using dep_db_wf by (simp_all add: controller_on_def)
  ultimately have "ct_store (snd ?r) = dep_db"
    using outage_releases_one_candidate[of ?c example_env new_run_loop "fst ?r" "snd ?r"] by auto
  moreover have "parked_list dep_db = [1]" by code_simp
  ultimately show ?thesis by (simp add: waiting_ids_list)
qed

text \<open>C21: No parked task is forgotten.  Under every interleaving of rejected calls, failing and
  succeeding calls, drains, the background loop and other writers of the store that park
  nothing, from a new controller: when the goroutines are done, the background loop is blocked without
  a wake-up and the breaker is closed, no task waits for the dependency.\<close>

theorem no_waiter_is_forgotten:
  assumes "db_wf db" "new_controller db config = Inr c"
    and "ctl_reaches store_waiting_ops co parks_nothing c s"
    and "cs_threads s = {#}" "cs_run s = RunBlocked" "\<not> ct_wake (cs_ctl s)" "breaker_closed (cs_ctl s)"
  shows "waiting_ids (ct_store (cs_ctl s)) = {}"
proof -
  have "db_wf (ct_store c)" "0 < ct_release_batch c" "ct_drain_pending c"
    using assms(1,2)
    by (auto simp: new_controller_def normalize_config_def default_release_batch_def Let_def
        split: sum.splits if_splits)
  from waiting.rest_is_drained[OF assms(3) this assms(4-7)] show ?thesis .
qed

text \<open>A run of the background loop alone: it finds the pending drain, releases and blocks.\<close>

lemma run_drains_alone:
  fixes co :: "('e, 'd) cause_ops"
  assumes "breaker_snapshot_of now c0 = (sn, c0)" "sn_state sn = StateClosed" "c0 = c\<lparr>ct_running := True\<rparr>"
    and "ct_drain_pending c"
    and "release_round ops False False now c0 = ((Inr True :: ('e, 'd) controller_error + bool), c1)"
  shows "ctl_reaches ops co quiet c
    \<lparr>cs_ctl = c1\<lparr>ct_drain_pending := False\<rparr>, cs_threads = {#}, cs_lock = Free, cs_run = RunBlocked\<rparr>"
proof -
  have p: "ct_drain_pending c0" using assms(3,4) by simp
  have 0: "ctl_reaches ops co quiet c \<lparr>cs_ctl = c0, cs_threads = {#}, cs_lock = Free, cs_run = RunTop\<rparr>"
    unfolding assms(3) by (rule started)
  have 1: "ctl_reaches ops co quiet c \<lparr>cs_ctl = c0, cs_threads = {#}, cs_lock = Free, cs_run = RunCheck sn\<rparr>"
    using stepped[OF 0 run_snapshot[OF assms(1)]] assms(2) by simp
  have 2: "ctl_reaches ops co quiet c \<lparr>cs_ctl = c0, cs_threads = {#}, cs_lock = Free, cs_run = RunWant sn\<rparr>"
    using stepped[OF 1 run_checks] p by simp
  note 3 = stepped[OF 2 run_drains[OF p]]
  note 4 = stepped[OF 3 round[OF assms(5), simplified]]
  have "ctl_reaches ops co quiet c
    \<lparr>cs_ctl = c1\<lparr>ct_drain_pending := False\<rparr>, cs_threads = {#}, cs_lock = Free, cs_run = RunRest sn\<rparr>"
    using stepped[OF 4 drained] by (simp add: lock_released_def)
  from stepped[OF this run_blocks] show ?thesis .
qed

lemma no_waiter_is_forgotten_witness:
  "\<exists>s. ctl_reaches store_waiting_ops example_causes parks_nothing (controller_on dep_db example_breaker) s \<and>
     waiting_ids (ct_store (cs_ctl s)) = {} \<and> waiting_ids dep_db \<noteq> {}"
proof -
  let ?c = "controller_on dep_db example_breaker" let ?start = "?c\<lparr>ct_running := True\<rparr>"
  let ?r = "release_round store_waiting_ops False False 30 ?start ::
    ((call_error, string) controller_error + bool) \<times> db controller"
  have e: "(case fst ?r of Inr b \<Rightarrow> b | _ \<Rightarrow> False)" "parked_list dep_db = [1]" by code_simp+
  then obtain c1 where r: "?r = (Inr True, c1)" by (cases ?r) (auto split: sum.splits)
  have sn: "\<exists>sn. breaker_snapshot_of 30 ?start = (sn, ?start) \<and> sn_state sn = StateClosed"
    by (simp add: breaker_snapshot_of_def snapshot_def advance_def controller_on_def example_breaker_def
        notify_transition_def no_transition_def)
  let ?s = "\<lparr>cs_ctl = c1\<lparr>ct_drain_pending := False\<rparr>, cs_threads = {#}, cs_lock = Free, cs_run = RunBlocked\<rparr>"
  have reach: "ctl_reaches store_waiting_ops example_causes parks_nothing ?c ?s"
    using sn run_drains_alone[where ?c0.0 = ?start and c = ?c and ?c1.0 = c1 and now = 30 and ops = store_waiting_ops and co = example_causes and quiet = parks_nothing] r
    by (auto simp: controller_on_def)
  have "ct_breaker c1 = example_breaker" "\<not> ct_wake c1"
    using waiting.release_round_ok[OF _ _ r] dep_db_wf by (simp_all add: controller_on_def)
  then have "waiting_ids (ct_store (cs_ctl ?s)) = {}"
    using no_waiter_is_forgotten[OF dep_db_wf example_controller reach]
    by (simp add: breaker_closed_def example_breaker_def)
  then show ?thesis using reach e(2) by (auto simp: waiting_ids_list)
qed

end
