(* ===== verification/Debounce.thy ===== *)
theory Debounce
  imports Store_Expand
begin

text \<open>
  The debouncer, \<open>internal/debounce/debounce.go\<close>: it coalesces file-system hints per path and writes the
  settled ones to the durable queue.  All of its state belongs to the goroutine of \<open>Run\<close>; the
  channels are bounded lists, and each branch of the \<open>select\<close> is a step.

  Times are nanoseconds since the zero \<open>time.Time\<close>, which is \<open>0\<close>.  The map \<open>byPath\<close> is an association list
  with distinct keys, the heap \<open>deadlines\<close> the list of its entries in the order in which \<open>heap.Pop\<close>
  returns them; sequence numbers (\<open>uint64\<close>) are naturals.  The store, the inspector and the
  notifications are arguments.
\<close>

section \<open>Changes\<close>

datatype change_op = Created | Modified | Removed | Move | UnknownOp nat

definition op_string :: "change_op \<Rightarrow> string" where
  "op_string op = (case op of Created \<Rightarrow> ''created'' | Modified \<Rightarrow> ''modified'' | Removed \<Rightarrow> ''removed''
     | Move \<Rightarrow> ''move'' | UnknownOp _ \<Rightarrow> ''unknown'')"

record raw_change =
  rc_op :: change_op
  rc_path :: string
  rc_old :: string
  rc_at :: int

definition zero_time :: int where "zero_time = 0"

datatype 'e debounce_error =
  ErrInputFull | ErrStopped | ErrNotRunning | ErrAlreadyRun | ErrInvalidChange | ErrInvalidDebounceConfig
| ErrClassify string 'e | ErrEnqueue string 'e | ErrNotifyDirectory int 'e

definition validate_change :: "raw_change \<Rightarrow> 'e debounce_error + unit" where
  "validate_change c =
     (if rc_path c = [] then Inl ErrInvalidChange
      else case rc_op c of
        UnknownOp _ \<Rightarrow> Inl ErrInvalidChange
      | Move \<Rightarrow> if rc_old c = [] then Inl ErrInvalidChange else Inr ()
      | _ \<Rightarrow> if rc_old c \<noteq> [] then Inl ErrInvalidChange else Inr ())"

definition latest_time :: "int \<Rightarrow> int \<Rightarrow> int" where
  "latest_time l r = (if l < r then r else l)"

text \<open>\<open>mergeSamePath\<close>: \<open>None\<close> is the pair with \<open>keep = false\<close>.\<close>

definition merge_same_path :: "raw_change \<Rightarrow> raw_change \<Rightarrow> raw_change option" where
  "merge_same_path existing incoming0 =
     (let incoming = incoming0\<lparr>rc_at := latest_time (rc_at existing) (rc_at incoming0)\<rparr>;
          keep_existing = Some (existing\<lparr>rc_at := rc_at incoming\<rparr>)
      in case rc_op existing of
        Created \<Rightarrow>
          (case rc_op incoming of
             Modified \<Rightarrow> keep_existing | Created \<Rightarrow> keep_existing | Removed \<Rightarrow> None | _ \<Rightarrow> Some incoming)
      | Modified \<Rightarrow>
          (case rc_op incoming of
             Created \<Rightarrow> keep_existing | Modified \<Rightarrow> keep_existing | _ \<Rightarrow> Some incoming)
      | Removed \<Rightarrow>
          (case rc_op incoming of
             Created \<Rightarrow> Some (incoming\<lparr>rc_op := Modified\<rparr>)
           | Modified \<Rightarrow> Some (incoming\<lparr>rc_op := Modified\<rparr>)
           | _ \<Rightarrow> Some incoming)
      | Move \<Rightarrow>
          (case rc_op incoming of
             Removed \<Rightarrow> Some \<lparr>rc_op = Removed, rc_path = rc_old existing, rc_old = [], rc_at = rc_at incoming\<rparr>
           | Created \<Rightarrow> keep_existing | Modified \<Rightarrow> keep_existing | _ \<Rightarrow> Some incoming)
      | UnknownOp _ \<Rightarrow> Some incoming)"

definition merge_from_source :: "raw_change \<Rightarrow> raw_change \<Rightarrow> raw_change" where
  "merge_from_source existing move =
     (let t = latest_time (rc_at existing) (rc_at move)
      in case rc_op existing of
        Created \<Rightarrow> \<lparr>rc_op = Created, rc_path = rc_path move, rc_old = [], rc_at = t\<rparr>
      | Move \<Rightarrow> \<lparr>rc_op = Move, rc_path = rc_path move, rc_old = rc_old existing, rc_at = t\<rparr>
      | _ \<Rightarrow> \<lparr>rc_op = Move, rc_path = rc_path move, rc_old = rc_old move, rc_at = t\<rparr>)"

section \<open>The pending state\<close>

record pending_change =
  pc_key :: string
  pc_change :: raw_change
  pc_deadline :: int
  pc_version :: nat

record deadline_entry =
  de_key :: string
  de_deadline :: int
  de_version :: nat
  de_sequence :: nat

record pending_state =
  ps_window :: int
  ps_by_path :: "(string \<times> pending_change) list"
  ps_deadlines :: "deadline_entry list"
  ps_sequence :: nat

definition new_pending_state :: "int \<Rightarrow> pending_state" where
  "new_pending_state window = \<lparr>ps_window = window, ps_by_path = [], ps_deadlines = [], ps_sequence = 0\<rparr>"

text \<open>\<open>deadlineHeap.Less\<close> and the position where \<open>heap.Push\<close> makes an entry come out.\<close>

definition entry_less :: "deadline_entry \<Rightarrow> deadline_entry \<Rightarrow> bool" where
  "entry_less a b = (if de_deadline a = de_deadline b then de_sequence a < de_sequence b
                     else de_deadline a < de_deadline b)"

fun push_deadline :: "deadline_entry \<Rightarrow> deadline_entry list \<Rightarrow> deadline_entry list" where
  "push_deadline e [] = [e]"
| "push_deadline e (d # ds) = (if entry_less e d then e # d # ds else d # push_deadline e ds)"

definition pending_at :: "pending_state \<Rightarrow> string \<Rightarrow> pending_change option" where
  "pending_at ps key = map_of (ps_by_path ps) key"

definition drop_key :: "string \<Rightarrow> pending_state \<Rightarrow> pending_state" where
  "drop_key key ps = ps\<lparr>ps_by_path := filter (\<lambda>(k, p). k \<noteq> key) (ps_by_path ps)\<rparr>"

definition pending_put :: "raw_change \<Rightarrow> int \<Rightarrow> pending_state \<Rightarrow> pending_state" where
  "pending_put c deadline ps0 =
     (let n = ps_sequence ps0 + 1; key = path_key (rc_path c);
          ps = drop_key key (ps0\<lparr>ps_sequence := n\<rparr>)
      in ps\<lparr>ps_by_path := (key, \<lparr>pc_key = key, pc_change = c, pc_deadline = deadline, pc_version = n\<rparr>) # ps_by_path ps,
            ps_deadlines := push_deadline \<lparr>de_key = key, de_deadline = deadline, de_version = n, de_sequence = n\<rparr>
              (ps_deadlines ps)\<rparr>)"

definition clean_change :: "raw_change \<Rightarrow> raw_change" where
  "clean_change c = c\<lparr>rc_path := clean (rc_path c), rc_old := (if rc_old c \<noteq> [] then clean (rc_old c) else [])\<rparr>"

definition add_move :: "raw_change \<Rightarrow> pending_state \<Rightarrow> pending_state" where
  "add_move incoming ps =
     (case pending_at ps (path_key (rc_old incoming)) of
        None \<Rightarrow> pending_put incoming (rc_at incoming + ps_window ps) (drop_key (path_key (rc_path incoming)) ps)
      | Some existing \<Rightarrow>
          (let merged = merge_from_source (pc_change existing) incoming;
               ps' = drop_key (path_key (rc_old incoming)) ps
           in pending_put merged (rc_at merged + ps_window ps) (drop_key (path_key (rc_path merged)) ps')))"

definition add_same_path :: "raw_change \<Rightarrow> pending_state \<Rightarrow> pending_state" where
  "add_same_path incoming ps =
     (let key = path_key (rc_path incoming) in
      case pending_at ps key of
        None \<Rightarrow> pending_put incoming (rc_at incoming + ps_window ps) ps
      | Some existing \<Rightarrow>
          (let ps' = drop_key key ps in
           if rc_op (pc_change existing) = Move \<and> rc_op incoming = Removed \<and>
              pending_at ps' (path_key (rc_old (pc_change existing))) \<noteq> None
           then ps'
           else case merge_same_path (pc_change existing) incoming of
             None \<Rightarrow> ps'
           | Some merged \<Rightarrow> pending_put merged (rc_at merged + ps_window ps) ps'))"

definition pending_add :: "raw_change \<Rightarrow> pending_state \<Rightarrow> pending_state" where
  "pending_add raw ps =
     (let incoming = clean_change raw
      in if rc_op incoming = Move then add_move incoming ps else add_same_path incoming ps)"

text \<open>\<open>discardStale\<close> pops entries whose pending change is gone or newer.\<close>

definition entry_live :: "pending_state \<Rightarrow> deadline_entry \<Rightarrow> bool" where
  "entry_live ps e = (case pending_at ps (de_key e) of
     None \<Rightarrow> False | Some p \<Rightarrow> pc_version p = de_version e)"

definition discard_stale :: "pending_state \<Rightarrow> pending_state" where
  "discard_stale ps = ps\<lparr>ps_deadlines := dropWhile (\<lambda>e. \<not> entry_live ps e) (ps_deadlines ps)\<rparr>"

definition next_deadline :: "pending_state \<Rightarrow> int option \<times> pending_state" where
  "next_deadline ps0 = (let ps = discard_stale ps0 in
     (case ps_deadlines ps of [] \<Rightarrow> None | e # _ \<Rightarrow> Some (de_deadline e), ps))"

definition pending_peek :: "bool \<Rightarrow> int \<Rightarrow> pending_state \<Rightarrow> pending_change option \<times> pending_state" where
  "pending_peek every now ps0 = (let ps = discard_stale ps0 in
     (case ps_deadlines ps of
        [] \<Rightarrow> None
      | e # _ \<Rightarrow> if \<not> every \<and> now < de_deadline e then None else pending_at ps (de_key e), ps))"

text \<open>\<open>remove\<close> compares pointers: the entry is the one whose version was read.\<close>

definition pending_remove :: "pending_change \<Rightarrow> pending_state \<Rightarrow> pending_state" where
  "pending_remove p ps =
     discard_stale (case pending_at ps (pc_key p) of
        Some q \<Rightarrow> if pc_version q = pc_version p then drop_key (pc_key p) ps else ps
      | None \<Rightarrow> ps)"

section \<open>Writing changes\<close>

record ('e, 's) event_ops =
  eo_enqueue :: "int \<Rightarrow> enqueue_params \<Rightarrow> 's \<Rightarrow> ('e + enqueue_result) \<times> 's"
  eo_list_prefix :: "string \<Rightarrow> int \<Rightarrow> 's \<Rightarrow> 'e + catalog_file list"

text \<open>\<open>Lstat\<close> of a path, and the optional notification of a directory task.\<close>

datatype 'e stat_result = StatDir bool | StatNotExist | StatError 'e

record 'e debounce_config =
  dc_input_capacity :: int
  dc_window :: int
  dc_flush_timeout :: int
  dc_inspect :: "string \<Rightarrow> 'e stat_result"
  dc_directory_notify :: "(raw_change \<Rightarrow> task \<Rightarrow> 'e option) option"

definition default_input_capacity :: int where "default_input_capacity = 4096"
definition default_window :: int where "default_window = 1000000000"
definition default_flush_timeout :: int where "default_flush_timeout = 5000000000"
definition event_priority :: int where "event_priority = 5"

definition debounce_with_defaults :: "'e debounce_config \<Rightarrow> 'e debounce_error + 'e debounce_config" where
  "debounce_with_defaults c =
     (if dc_input_capacity c < 0 \<or> dc_window c < 0 \<or> dc_flush_timeout c < 0 then Inl ErrInvalidDebounceConfig
      else Inr (c\<lparr>dc_input_capacity := (if dc_input_capacity c = 0 then default_input_capacity else dc_input_capacity c),
                  dc_window := (if dc_window c = 0 then default_window else dc_window c),
                  dc_flush_timeout := (if dc_flush_timeout c = 0 then default_flush_timeout else dc_flush_timeout c)\<rparr>))"

definition is_directory :: "('e, 's) event_ops \<Rightarrow> 'e debounce_config \<Rightarrow> raw_change \<Rightarrow> 's \<Rightarrow> 'e + bool" where
  "is_directory ops cfg c s =
     (case dc_inspect cfg (rc_path c) of
        StatDir b \<Rightarrow> Inr b
      | StatError e \<Rightarrow> Inl e
      | StatNotExist \<Rightarrow>
          if rc_op c = Created \<or> rc_op c = Modified then Inr False
          else map_sum id (\<lambda>files. files \<noteq> [])
            (eo_list_prefix ops (child_prefix (if rc_op c = Move then rc_old c else rc_path c)) 1 s))"

definition change_params :: "raw_change \<Rightarrow> enqueue_params option" where
  "change_params c =
     (let params = \<lparr>ep_file_id = None, ep_path = rc_path c, ep_op = TaskOpUpsert, ep_old_path = None,
                    ep_generation = 0, ep_priority = event_priority, ep_next_attempt_at = 0\<rparr>
      in case rc_op c of
        Created \<Rightarrow> Some params
      | Modified \<Rightarrow> Some params
      | Removed \<Rightarrow> Some (params\<lparr>ep_op := TaskOpRemove\<rparr>)
      | Move \<Rightarrow> Some (params\<lparr>ep_op := TaskOpRelocate, ep_old_path := Some (rc_old c)\<rparr>)
      | UnknownOp _ \<Rightarrow> None)"

text \<open>\<open>persist\<close> counts the calls of \<open>Notify\<close>; the first component is the error, if any.\<close>

definition persist ::
    "('e, 's) event_ops \<Rightarrow> 'e debounce_config \<Rightarrow> int \<Rightarrow> raw_change \<Rightarrow> 's \<times> nat \<Rightarrow> 'e debounce_error option \<times> 's \<times> nat" where
  "persist ops cfg now c sn = (case sn of (s, n) \<Rightarrow>
     case is_directory ops cfg c s of
       Inl e \<Rightarrow> (Some (ErrClassify (rc_path c) e), s, n)
     | Inr directory \<Rightarrow>
         if directory \<and> (rc_op c = Created \<or> rc_op c = Modified) then (None, s, n)
         else (case change_params c of
           None \<Rightarrow> (Some ErrInvalidChange, s, n)
         | Some params \<Rightarrow>
             (case eo_enqueue ops now params s of
                (Inl e, s') \<Rightarrow> (Some (ErrEnqueue (rc_path c) e), s', n)
              | (Inr result, s') \<Rightarrow>
                  (case (if directory then dc_directory_notify cfg else None) of
                     Some notify \<Rightarrow>
                       (case notify c (er_task result) of
                          Some e \<Rightarrow> (Some (ErrNotifyDirectory (t_id (er_task result)) e), s', n)
                        | None \<Rightarrow> (None, s', n + 1))
                   | None \<Rightarrow> (None, s', n + 1)))))"

text \<open>
  \<open>flushDue\<close> and \<open>flushAll\<close>: peek, persist, remove.  The loop is bounded by fuel; one round more than
  there are pending changes is enough.  The clock of the store is constant in one flush.
\<close>

fun flush_loop ::
    "nat \<Rightarrow> (raw_change \<Rightarrow> 'x \<Rightarrow> 'err option \<times> 'x) \<Rightarrow> bool \<Rightarrow> int \<Rightarrow> pending_state \<Rightarrow> 'x \<Rightarrow>
     ('err option \<times> pending_state \<times> 'x) option" where
  "flush_loop 0 wr every now ps x = None"
| "flush_loop (Suc k) wr every now ps0 x0 =
     (case pending_peek every now ps0 of
        (None, ps) \<Rightarrow> Some (None, ps, x0)
      | (Some p, ps) \<Rightarrow>
          (case wr (pc_change p) x0 of
             (Some e, x) \<Rightarrow> Some (Some e, ps, x)
           | (None, x) \<Rightarrow> flush_loop k wr every now (pending_remove p ps) x))"

definition flush_due where
  "flush_due wr now ps = flush_loop (length (ps_by_path ps) + 1) wr False now ps"

definition flush_all where
  "flush_all wr ps = flush_loop (length (ps_by_path ps) + 1) wr True zero_time ps"

definition change_within_prefix :: "raw_change \<Rightarrow> string \<Rightarrow> bool" where
  "change_within_prefix c pre \<longleftrightarrow> path_within_prefix (rc_path c) pre \<or> path_within_prefix (rc_old c) pre"

text \<open>The range over the map, in the order \<open>order\<close>.\<close>

fun flush_prefix_loop ::
    "(raw_change \<Rightarrow> 'x \<Rightarrow> 'err option \<times> 'x) \<Rightarrow> string \<Rightarrow> pending_change list \<Rightarrow> pending_state \<Rightarrow> 'x \<Rightarrow>
     'err option \<times> pending_state \<times> 'x" where
  "flush_prefix_loop wr pre [] ps x = (None, ps, x)"
| "flush_prefix_loop wr pre (p # todo) ps x0 =
     (if \<not> change_within_prefix (pc_change p) pre then flush_prefix_loop wr pre todo ps x0
      else case wr (pc_change p) x0 of
        (Some e, x) \<Rightarrow> (Some e, ps, x)
      | (None, x) \<Rightarrow> flush_prefix_loop wr pre todo (pending_remove p ps) x)"

definition flush_prefix where
  "flush_prefix order wr pre ps = flush_prefix_loop wr pre (order (map snd (ps_by_path ps))) ps"

section \<open>The debouncer\<close>

datatype run_state = StateNew | StateRunning | StateStopped

record 's debouncer =
  dn_store :: 's
  dn_notified :: nat
  dn_capacity :: nat
  dn_window :: int
  dn_input :: "raw_change list"
  dn_flush :: "string list"
  dn_state :: run_state
  dn_pending :: pending_state

definition new_debouncer :: "'s \<Rightarrow> 'e debounce_config \<Rightarrow> 'e debounce_error + 's debouncer" where
  "new_debouncer store config = map_sum id (\<lambda>c. \<lparr>dn_store = store, dn_notified = 0,
     dn_capacity = nat (dc_input_capacity c), dn_window = dc_window c, dn_input = [], dn_flush = [],
     dn_state = StateNew, dn_pending = new_pending_state (dc_window c)\<rparr>) (debounce_with_defaults config)"

text \<open>\<open>admitted\<close>: whether \<open>TryRLock\<close> gets the admission lock.\<close>

definition submit :: "bool \<Rightarrow> raw_change \<Rightarrow> 's debouncer \<Rightarrow> 'e debounce_error option \<times> 's debouncer" where
  "submit admitted c d =
     (case validate_change c of
        Inl e \<Rightarrow> (Some e, d)
      | Inr _ \<Rightarrow>
          if \<not> admitted \<or> dn_state d = StateStopped then (Some ErrStopped, d)
          else if length (dn_input d) < dn_capacity d then (None, d\<lparr>dn_input := dn_input d @ [c]\<rparr>)
          else (Some ErrInputFull, d))"

definition try_submit :: "bool \<Rightarrow> raw_change \<Rightarrow> 's debouncer \<Rightarrow> bool \<times> 's debouncer" where
  "try_submit admitted c d = (case submit admitted c d :: unit debounce_error option \<times> 's debouncer of
     (e, d') \<Rightarrow> (e = None, d'))"

text \<open>The request half of \<open>FlushPrefix\<close> (a prefix of blanks is rejected).\<close>

definition request_flush :: "bool \<Rightarrow> string \<Rightarrow> 's debouncer \<Rightarrow> 'e debounce_error option \<times> 's debouncer" where
  "request_flush admitted pre d =
     (if blank pre then (Some ErrInvalidChange, d)
      else if \<not> admitted then (Some ErrStopped, d)
      else case dn_state d of
        StateStopped \<Rightarrow> (Some ErrStopped, d)
      | StateNew \<Rightarrow> (Some ErrNotRunning, d)
      | StateRunning \<Rightarrow>
          if dn_flush d = [] then (None, d\<lparr>dn_flush := [clean pre]\<rparr>) else (Some ErrInputFull, d))"

definition start_debouncer :: "'s debouncer \<Rightarrow> 'e debounce_error option \<times> 's debouncer" where
  "start_debouncer d =
     (if dn_state d \<noteq> StateNew then (Some ErrAlreadyRun, d)
      else (None, d\<lparr>dn_state := StateRunning, dn_pending := new_pending_state (dn_window d)\<rparr>))"

definition stamp :: "int \<Rightarrow> raw_change \<Rightarrow> raw_change" where
  "stamp now c = (if rc_at c = zero_time then c\<lparr>rc_at := now\<rparr> else c)"

definition drain_input :: "int \<Rightarrow> 's debouncer \<Rightarrow> 's debouncer" where
  "drain_input now d =
     d\<lparr>dn_pending := fold (\<lambda>c. pending_add (stamp now c)) (dn_input d) (dn_pending d), dn_input := []\<rparr>"

definition with_pending ::
    "'err option \<times> pending_state \<times> 's \<times> nat \<Rightarrow> 's debouncer \<Rightarrow> 'err option \<times> 's debouncer" where
  "with_pending r d = (case r of (e, ps, s, n) \<Rightarrow> (e, d\<lparr>dn_pending := ps, dn_store := s, dn_notified := n\<rparr>))"

datatype select_event = InputReady int | FlushReady int | TimerFired int int | Cancelled int

text \<open>
  One pass of the loop: the delay of the timer that is armed, then the branch taken.  The result says
  whether \<open>Run\<close> goes on (\<open>Inr True\<close>), returns nil (\<open>Inr False\<close>) or an error; a blocked branch has no
  step.  \<open>now\<close> of an event is the reading of the clock in that branch.
\<close>

definition run_delay :: "int \<Rightarrow> 's debouncer \<Rightarrow> int option \<times> 's debouncer" where
  "run_delay now d = (case next_deadline (dn_pending d) of (dl, ps) \<Rightarrow>
     (map_option (\<lambda>t. max 0 (t - now)) dl, d\<lparr>dn_pending := ps\<rparr>))"

definition stop_with :: "'err option \<times> 's debouncer \<Rightarrow> ('err + bool) \<times> 's debouncer" where
  "stop_with r = (case r of (e, d) \<Rightarrow>
     (case e of None \<Rightarrow> Inr False | Some e \<Rightarrow> Inl e, d\<lparr>dn_state := StateStopped\<rparr>))"

definition run_select_step ::
    "('e, 's) event_ops \<Rightarrow> 'e debounce_config \<Rightarrow> (pending_change list \<Rightarrow> pending_change list) \<Rightarrow> select_event \<Rightarrow>
     's debouncer \<Rightarrow> (('e debounce_error + bool) \<times> 's debouncer) option" where
  "run_select_step ops cfg order ev d =
     (case ev of
        InputReady now \<Rightarrow>
          (case dn_input d of
             [] \<Rightarrow> None
           | c # rest \<Rightarrow> Some (Inr True, d\<lparr>dn_input := rest, dn_pending := pending_add (stamp now c) (dn_pending d)\<rparr>))
      | FlushReady now \<Rightarrow>
          (case dn_flush d of
             [] \<Rightarrow> None
           | pre # rest \<Rightarrow>
               (let d = drain_input now (d\<lparr>dn_flush := rest\<rparr>) in
                Some (Inr True, snd (with_pending
                  (flush_prefix order (persist ops cfg now) pre (dn_pending d) (dn_store d, dn_notified d)) d))))
      | TimerFired now wall \<Rightarrow>
          (case flush_due (persist ops cfg wall) now (dn_pending d) (dn_store d, dn_notified d) of
             None \<Rightarrow> None
           | Some r \<Rightarrow>
               (case with_pending r d of
                  (Some e, d) \<Rightarrow> Some (stop_with (Some e, d))
                | (None, d) \<Rightarrow> Some (Inr True, d)))
      | Cancelled now \<Rightarrow>
          (let d = drain_input now (d\<lparr>dn_state := StateStopped\<rparr>) in
           map_option (\<lambda>r. stop_with (with_pending r d))
             (flush_all (persist ops cfg now) (dn_pending d) (dn_store d, dn_notified d))))"

end
