(* ===== verification/Debounce_Laws.thy ===== *)
theory Debounce_Laws
  imports Debounce
begin

text \<open>
  Laws of the debouncer: the invariant of the map and the heap, the pending changes as one queue in
  deadline order, the flush loops as a walk over that queue, and the meaning of coalescing for
  changes that are not moves.
\<close>

section \<open>Lookup\<close>

lemma pending_at_drop: "pending_at (drop_key k ps) j = (if j = k then None else pending_at ps j)"
proof -
  have "map_of (filter (\<lambda>(j, p). j \<noteq> k) xs) j = (if j = k then None else map_of xs j)" for xs :: "(string \<times> pending_change) list"
    by (induction xs) auto
  then show ?thesis by (simp add: pending_at_def drop_key_def)
qed

lemma pending_at_put:
  "pending_at (pending_put c d ps) j =
     (if j = path_key (rc_path c)
      then Some \<lparr>pc_key = path_key (rc_path c), pc_change = c, pc_deadline = d, pc_version = ps_sequence ps + 1\<rparr>
      else pending_at ps j)"
  using pending_at_drop[of "path_key (rc_path c)" ps j]
  by (simp add: pending_put_def Let_def pending_at_def drop_key_def)

lemma pending_at_discard [simp]: "pending_at (discard_stale ps) k = pending_at ps k"
  by (simp add: discard_stale_def pending_at_def)

lemma window_simps [simp]:
  "ps_window (drop_key k ps) = ps_window ps" "ps_window (pending_put c d ps) = ps_window ps"
  "ps_window (discard_stale ps) = ps_window ps"
  by (simp_all add: drop_key_def pending_put_def Let_def discard_stale_def)

lemma window_add [simp]: "ps_window (pending_add c ps) = ps_window ps"
  by (simp add: pending_add_def add_move_def add_same_path_def Let_def split: option.split)

section \<open>The invariant\<close>

definition entry_of :: "pending_change \<Rightarrow> deadline_entry" where
  "entry_of p = \<lparr>de_key = pc_key p, de_deadline = pc_deadline p, de_version = pc_version p, de_sequence = pc_version p\<rparr>"

definition pending_ok :: "pending_state \<Rightarrow> bool" where
  "pending_ok ps \<longleftrightarrow> distinct (map fst (ps_by_path ps)) \<and>
     (\<forall>(k, p)\<in>set (ps_by_path ps). pc_key p = k \<and> path_key (rc_path (pc_change p)) = k \<and>
        pc_version p \<le> ps_sequence ps \<and> entry_of p \<in> set (ps_deadlines ps)) \<and>
     (\<forall>e\<in>set (ps_deadlines ps). de_sequence e = de_version e \<and> de_version e \<le> ps_sequence ps \<and>
        (\<forall>(k, p)\<in>set (ps_by_path ps). pc_version p = de_version e \<longrightarrow> e = entry_of p)) \<and>
     sorted_wrt entry_less (ps_deadlines ps)"

lemma pending_okD:
  assumes "pending_ok ps"
  shows "distinct (map fst (ps_by_path ps))" "sorted_wrt entry_less (ps_deadlines ps)"
    "\<And>k p. (k, p) \<in> set (ps_by_path ps) \<Longrightarrow> pc_key p = k \<and> path_key (rc_path (pc_change p)) = k \<and>
       pc_version p \<le> ps_sequence ps \<and> entry_of p \<in> set (ps_deadlines ps)"
    "\<And>e. e \<in> set (ps_deadlines ps) \<Longrightarrow> de_sequence e = de_version e \<and> de_version e \<le> ps_sequence ps"
    "\<And>e k p. e \<in> set (ps_deadlines ps) \<Longrightarrow> (k, p) \<in> set (ps_by_path ps) \<Longrightarrow> pc_version p = de_version e \<Longrightarrow> e = entry_of p"
  using assms by (auto simp: pending_ok_def)

lemma pending_at_iff:
  assumes "pending_ok ps"
  shows "pending_at ps k = Some p \<longleftrightarrow> (k, p) \<in> set (ps_by_path ps)"
  using pending_okD(1)[OF assms] by (simp add: pending_at_def)

lemma pending_ok_new: "pending_ok (new_pending_state w)"
  by (simp add: pending_ok_def new_pending_state_def)

lemma pending_ok_drop: "pending_ok ps \<Longrightarrow> pending_ok (drop_key k ps)"
  by (auto simp: pending_ok_def drop_key_def distinct_map inj_on_def)

lemma set_push_deadline [simp]: "set (push_deadline e ds) = insert e (set ds)"
  by (induction ds) auto

lemma entry_less_trans: "entry_less a b \<Longrightarrow> entry_less b c \<Longrightarrow> entry_less a c"
  by (auto simp: entry_less_def split: if_splits)

lemma entry_less_total: "de_sequence a \<noteq> de_sequence b \<Longrightarrow> \<not> entry_less a b \<Longrightarrow> entry_less b a"
  by (auto simp: entry_less_def split: if_splits)

lemma sorted_push_deadline:
  assumes "sorted_wrt entry_less ds" "\<forall>d\<in>set ds. de_sequence d \<noteq> de_sequence e"
  shows "sorted_wrt entry_less (push_deadline e ds)"
  using assms
proof (induction ds)
  case (Cons d ds)
  then show ?case
    by (auto intro: entry_less_trans entry_less_total)
qed simp

lemma pending_ok_put:
  assumes "pending_ok ps"
  shows "pending_ok (pending_put c d ps)"
proof -
  let ?k = "path_key (rc_path c)" let ?n = "ps_sequence ps + 1"
  let ?p = "\<lparr>pc_key = ?k, pc_change = c, pc_deadline = d, pc_version = ?n\<rparr>"
  let ?old = "filter (\<lambda>(j, p). j \<noteq> ?k) (ps_by_path ps)"
  have put: "ps_by_path (pending_put c d ps) = (?k, ?p) # ?old" "ps_sequence (pending_put c d ps) = ?n"
    "ps_deadlines (pending_put c d ps) = push_deadline (entry_of ?p) (ps_deadlines ps)"
    by (simp_all add: pending_put_def Let_def drop_key_def entry_of_def)
  note D = pending_okD[OF assms]
  have "sorted_wrt entry_less (push_deadline (entry_of ?p) (ps_deadlines ps))"
    using D(4) by (intro sorted_push_deadline[OF D(2)]) (fastforce simp: entry_of_def)
  moreover have "distinct (map fst ((?k, ?p) # ?old))" using D(1) by (auto simp: distinct_map inj_on_def)
  moreover have "e = entry_of p" if "e \<in> set (ps_deadlines ps)" "(k, p) \<in> set ?old" "pc_version p = de_version e" for e k p
    using D(5) that by auto
  moreover have "de_version e \<noteq> ?n" if "e \<in> set (ps_deadlines ps)" for e using D(4)[OF that] by auto
  moreover have "pc_version p \<noteq> ?n" if "(k, p) \<in> set ?old" for k p using D(3)[of k p] that by auto
  ultimately have *: "sorted_wrt entry_less (push_deadline (entry_of ?p) (ps_deadlines ps))"
    "distinct (map fst ((?k, ?p) # ?old))"
    "\<And>e k p. e \<in> set (ps_deadlines ps) \<Longrightarrow> (k, p) \<in> set ?old \<Longrightarrow> pc_version p = de_version e \<Longrightarrow> e = entry_of p"
    "\<And>e. e \<in> set (ps_deadlines ps) \<Longrightarrow> de_version e \<noteq> ?n"
    "\<And>k p. (k, p) \<in> set ?old \<Longrightarrow> pc_version p \<noteq> ?n"
    by blast+
  have mine: "pc_key ?p = ?k" "pc_version ?p = ?n" "path_key (rc_path (pc_change ?p)) = ?k"
    "de_sequence (entry_of ?p) = ?n" "de_version (entry_of ?p) = ?n"
    by (simp_all add: entry_of_def)
  show ?thesis
    unfolding pending_ok_def put
  proof (intro conjI ballI, goal_cases)
    case 1 then show ?case by (rule *(2))
  next
    case (2 kp)
    then consider "kp = (?k, ?p)" | "kp \<in> set ?old" by auto
    then show ?case
    proof cases
      case 2
      then have "kp \<in> set (ps_by_path ps)" by auto
      then show ?thesis using D(3)[of "fst kp" "snd kp"] by (auto split: prod.splits)
    qed (simp add: entry_of_def)
  next
    case (3 e) then show ?case using D(4) by (auto simp: entry_of_def)
  next
    case (4 e) then show ?case using D(4)[of e] by (auto simp: entry_of_def)
  next
    case (5 e kp)
    then show ?case using *(3)[of e "fst kp" "snd kp"] *(4)[of e] *(5)[of "fst kp" "snd kp"]
      by (auto simp: entry_of_def split: prod.splits)
  next
    case 6 then show ?case by (rule *(1))
  qed
qed

lemma pending_ok_add: "pending_ok ps \<Longrightarrow> pending_ok (pending_add c ps)"
  by (auto simp: pending_add_def add_move_def add_same_path_def Let_def
      intro: pending_ok_put pending_ok_drop split: option.split)

lemma pending_ok_adds: "pending_ok ps \<Longrightarrow> pending_ok (fold pending_add cs ps)"
  by (induction cs arbitrary: ps) (auto intro: pending_ok_add)

section \<open>The queue of pending changes\<close>

definition live_entries :: "pending_state \<Rightarrow> deadline_entry list" where
  "live_entries ps = filter (entry_live ps) (ps_deadlines ps)"

definition pending_queue :: "pending_state \<Rightarrow> pending_change list" where
  "pending_queue ps = map (\<lambda>e. the (pending_at ps (de_key e))) (live_entries ps)"

lemma live_entry:
  assumes "pending_ok ps" "e \<in> set (ps_deadlines ps)"
  shows "entry_live ps e \<longleftrightarrow> (\<exists>p. (de_key e, p) \<in> set (ps_by_path ps) \<and> e = entry_of p)"
proof
  assume "entry_live ps e"
  then obtain p where "pending_at ps (de_key e) = Some p" "pc_version p = de_version e"
    by (auto simp: entry_live_def split: option.splits)
  then show "\<exists>p. (de_key e, p) \<in> set (ps_by_path ps) \<and> e = entry_of p"
    using pending_okD(5)[OF assms] pending_at_iff[OF assms(1)] by blast
next
  assume "\<exists>p. (de_key e, p) \<in> set (ps_by_path ps) \<and> e = entry_of p"
  then obtain p where p: "(de_key e, p) \<in> set (ps_by_path ps)" "e = entry_of p" by blast
  then have "pending_at ps (de_key e) = Some p" using pending_at_iff[OF assms(1)] by blast
  then show "entry_live ps e" using p(2) by (simp add: entry_live_def entry_of_def)
qed

lemma set_queue:
  assumes "pending_ok ps"
  shows "set (pending_queue ps) = snd ` set (ps_by_path ps)"
proof
  show "set (pending_queue ps) \<subseteq> snd ` set (ps_by_path ps)"
    using live_entry[OF assms] pending_at_iff[OF assms] by (force simp: pending_queue_def live_entries_def)
  have "p \<in> set (pending_queue ps)" if kp: "(k, p) \<in> set (ps_by_path ps)" for k p
  proof -
    note D = pending_okD(3)[OF assms kp]
    then have "entry_of p \<in> set (live_entries ps)"
      using live_entry[OF assms, of "entry_of p"] kp by (auto simp: live_entries_def entry_of_def)
    moreover have "the (pending_at ps (de_key (entry_of p))) = p"
      using pending_at_iff[OF assms, of k p] kp D by (simp add: entry_of_def)
    ultimately show ?thesis by (force simp: pending_queue_def)
  qed
  then show "snd ` set (ps_by_path ps) \<subseteq> set (pending_queue ps)" by auto
qed

lemma live_entries_queue:
  assumes "pending_ok ps"
  shows "live_entries ps = map entry_of (pending_queue ps)"
proof -
  have "entry_of (the (pending_at ps (de_key e))) = e" if e: "e \<in> set (live_entries ps)" for e
  proof -
    obtain p where p: "(de_key e, p) \<in> set (ps_by_path ps)" "e = entry_of p"
      using e live_entry[OF assms, of e] by (auto simp: live_entries_def)
    then have "pending_at ps (de_key e) = Some p" using pending_at_iff[OF assms] by blast
    then show ?thesis using p(2) by simp
  qed
  then show ?thesis by (simp add: pending_queue_def map_idI)
qed

lemma sorted_less_distinct: "sorted_wrt entry_less es \<Longrightarrow> distinct es"
  by (induction es) (auto simp: entry_less_def)

lemma queue_sorted:
  assumes "pending_ok ps"
  shows "sorted_wrt (\<lambda>p q. pc_deadline p \<le> pc_deadline q) (pending_queue ps)" "distinct (map pc_key (pending_queue ps))"
proof -
  have s: "sorted_wrt entry_less (map entry_of (pending_queue ps))"
    unfolding live_entries_queue[OF assms, symmetric] live_entries_def
    by (rule sorted_wrt_filter[OF pending_okD(2)[OF assms]])
  then show "sorted_wrt (\<lambda>p q. pc_deadline p \<le> pc_deadline q) (pending_queue ps)"
    by (auto simp: sorted_wrt_map entry_of_def entry_less_def split: if_splits elim!: sorted_wrt_mono_rel[rotated])
  have keys: "(pc_key p, p) \<in> set (ps_by_path ps)" if "p \<in> set (pending_queue ps)" for p
    using that pending_okD(3)[OF assms] unfolding set_queue[OF assms] by auto
  have "p = q" if "p \<in> set (pending_queue ps)" "q \<in> set (pending_queue ps)" "pc_key p = pc_key q" for p q
    using keys[OF that(1)] keys[OF that(2)] that(3) pending_okD(1)[OF assms] by (metis eq_key_imp_eq_value)
  moreover have "distinct (pending_queue ps)"
  proof -
    have "distinct (map entry_of (pending_queue ps))"
      using s by (rule sorted_less_distinct)
    then show ?thesis by (simp add: distinct_map)
  qed
  ultimately show "distinct (map pc_key (pending_queue ps))" by (auto simp: distinct_map inj_on_def)
qed

text \<open>Stale entries do not matter.\<close>

lemma live_discard [simp]: "entry_live (discard_stale ps) = entry_live ps"
  by (simp add: entry_live_def fun_eq_iff)

lemma filter_dropWhile_not: "filter P (dropWhile (\<lambda>x. \<not> P x) xs) = filter P xs"
  by (induction xs) auto

lemma live_entries_discard [simp]: "live_entries (discard_stale ps) = live_entries ps"
  unfolding live_entries_def live_discard by (simp add: discard_stale_def filter_dropWhile_not)

lemma queue_discard [simp]: "pending_queue (discard_stale ps) = pending_queue ps"
  by (simp add: pending_queue_def)

lemma pending_ok_discard:
  assumes "pending_ok ps"
  shows "pending_ok (discard_stale ps)"
proof -
  let ?ds = "dropWhile (\<lambda>e. \<not> entry_live ps e) (ps_deadlines ps)"
  note D = pending_okD[OF assms]
  have sub: "set ?ds \<subseteq> set (ps_deadlines ps)" by (auto dest: set_dropWhileD)
  have "entry_of p \<in> set ?ds" if kp: "(k, p) \<in> set (ps_by_path ps)" for k p
  proof -
    have "entry_live ps (entry_of p)"
      using live_entry[OF assms] D(3)[OF kp] kp by (auto simp: entry_of_def)
    then have "entry_of p \<in> set (filter (entry_live ps) ?ds)"
      unfolding filter_dropWhile_not using D(3)[OF kp] by simp
    then show ?thesis by simp
  qed
  moreover have "sorted_wrt entry_less ?ds" using D(2) by (rule sorted_wrt_dropWhile)
  ultimately show ?thesis
    unfolding pending_ok_def using D sub by (auto simp: discard_stale_def)
qed

lemma dropWhile_not_head: "filter P xs = e # es \<Longrightarrow> \<exists>ds. dropWhile (\<lambda>x. \<not> P x) xs = e # ds"
proof (induction xs)
  case (Cons x xs)
  then show ?case by (cases "P x") simp_all
qed simp

lemma dropWhile_not_none: "filter P xs = [] \<Longrightarrow> dropWhile (\<lambda>x. \<not> P x) xs = []"
  by (simp add: filter_empty_conv dropWhile_eq_Nil_conv)

lemma discard_head:
  "live_entries ps = [] \<Longrightarrow> ps_deadlines (discard_stale ps) = []"
  "live_entries ps = e # es \<Longrightarrow> \<exists>ds. ps_deadlines (discard_stale ps) = e # ds"
  unfolding live_entries_def discard_stale_def
  by (simp_all add: dropWhile_not_none dropWhile_not_head)

lemma peek_queue:
  assumes "pending_ok ps"
  shows "pending_peek every now ps =
    (case pending_queue ps of [] \<Rightarrow> None | p # _ \<Rightarrow> if \<not> every \<and> now < pc_deadline p then None else Some p, discard_stale ps)"
proof (cases "pending_queue ps")
  case Nil
  then have "live_entries ps = []" by (simp add: pending_queue_def)
  then show ?thesis using Nil discard_head(1)[of ps] by (simp add: pending_peek_def Let_def)
next
  case (Cons p qs)
  then have le: "live_entries ps = entry_of p # map entry_of qs" using live_entries_queue[OF assms] by simp
  obtain ds where ds: "ps_deadlines (discard_stale ps) = entry_of p # ds" using discard_head(2)[OF le] by blast
  have "p \<in> snd ` set (ps_by_path ps)" using set_queue[OF assms] Cons by auto
  then have "pending_at ps (pc_key p) = Some p"
    using pending_at_iff[OF assms] pending_okD(3)[OF assms] by auto
  then show ?thesis using Cons ds by (simp add: pending_peek_def Let_def entry_of_def)
qed

lemma remove_queue:
  assumes "pending_ok ps" "pending_queue ps = p # rest"
  shows "pending_queue (pending_remove p ps) = rest" "pending_ok (pending_remove p ps)"
proof -
  have "p \<in> snd ` set (ps_by_path ps)" using set_queue[OF assms(1)] assms(2) by auto
  then have at: "pending_at ps (pc_key p) = Some p"
    using pending_at_iff[OF assms(1)] pending_okD(3)[OF assms(1)] by auto
  then have r: "pending_remove p ps = discard_stale (drop_key (pc_key p) ps)" by (simp add: pending_remove_def)
  show "pending_ok (pending_remove p ps)" unfolding r by (intro pending_ok_discard pending_ok_drop assms(1))
  have keys: "\<forall>q\<in>set rest. pc_key q \<noteq> pc_key p" using queue_sorted(2)[OF assms(1)] assms(2) by (auto simp: image_iff)
  have le: "live_entries ps = entry_of p # map entry_of rest" using live_entries_queue[OF assms(1)] assms(2) by simp
  have ds: "ps_deadlines (drop_key k ps) = ps_deadlines ps" for k by (simp add: drop_key_def)
  have "live_entries (drop_key (pc_key p) ps) = filter (\<lambda>e. de_key e \<noteq> pc_key p) (live_entries ps)"
    unfolding live_entries_def ds filter_filter
    by (rule filter_cong) (auto simp: entry_live_def pending_at_drop split: option.splits)
  also have "\<dots> = map entry_of rest" using keys by (auto simp: le entry_of_def filter_map comp_def intro!: filter_True)
  finally have l: "live_entries (drop_key (pc_key p) ps) = map entry_of rest" .
  have "the (pending_at (drop_key (pc_key p) ps) (de_key (entry_of q))) = q" if q: "q \<in> set rest" for q
  proof -
    have "q \<in> snd ` set (ps_by_path ps)" using set_queue[OF assms(1)] assms(2) q by auto
    then have "pending_at ps (pc_key q) = Some q"
      using pending_at_iff[OF assms(1)] pending_okD(3)[OF assms(1)] by auto
    then show ?thesis using keys q by (simp add: entry_of_def pending_at_drop)
  qed
  then show "pending_queue (pending_remove p ps) = rest"
    unfolding r queue_discard by (simp add: pending_queue_def l map_idI)
qed

section \<open>The flush loops\<close>

text \<open>The reference: write the changes of a list one after the other until one fails.\<close>

fun write_until ::
    "(raw_change \<Rightarrow> 'x \<Rightarrow> 'err option \<times> 'x) \<Rightarrow> pending_change list \<Rightarrow> 'x \<Rightarrow> 'err option \<times> pending_change list \<times> 'x" where
  "write_until wr [] x = (None, [], x)"
| "write_until wr (p # todo) x =
     (case wr (pc_change p) x of
        (Some e, x') \<Rightarrow> (Some e, p # todo, x')
      | (None, x') \<Rightarrow> write_until wr todo x')"

definition due :: "bool \<Rightarrow> int \<Rightarrow> pending_change \<Rightarrow> bool" where
  "due every now p \<longleftrightarrow> every \<or> pc_deadline p \<le> now"

lemma flush_loop_queue:
  assumes "pending_ok ps" "length (pending_queue ps) < k"
  shows "\<exists>ps'. flush_loop k wr every now ps x =
      (case write_until wr (takeWhile (due every now) (pending_queue ps)) x of (e, rest, x') \<Rightarrow> Some (e, ps', x')) \<and>
    pending_ok ps' \<and>
    pending_queue ps' = fst (snd (write_until wr (takeWhile (due every now) (pending_queue ps)) x)) @ dropWhile (due every now) (pending_queue ps)"
  using assms
proof (induction k arbitrary: ps x)
  case (Suc k)
  note ok = Suc.prems(1)
  show ?case
  proof (cases "pending_queue ps")
    case Nil
    then show ?thesis using ok pending_ok_discard[OF ok] by (simp add: peek_queue)
  next
    case (Cons p rest)
    show ?thesis
    proof (cases "due every now p")
      case False
      then show ?thesis using Cons ok pending_ok_discard[OF ok] by (auto simp: peek_queue due_def)
    next
      case True
      then have peek: "pending_peek every now ps = (Some p, discard_stale ps)"
        using Cons ok by (auto simp: peek_queue due_def)
      obtain e x' where w: "wr (pc_change p) x = (e, x')" by fastforce
      show ?thesis
      proof (cases e)
        case (Some err)
        then show ?thesis using Cons True peek w pending_ok_discard[OF ok] by simp
      next
        case None
        have q: "pending_queue (discard_stale ps) = p # rest" using Cons by simp
        note R = remove_queue[OF pending_ok_discard[OF ok] q]
        have "length (pending_queue (pending_remove p (discard_stale ps))) < k" using R(1) Suc.prems(2) Cons by simp
        from Suc.IH[OF R(2) this, of x'] show ?thesis
          using Cons True peek w None R(1) by simp
      qed
    qed
  qed
qed simp

lemma queue_length: "pending_ok ps \<Longrightarrow> length (pending_queue ps) \<le> length (ps_by_path ps)"
proof -
  assume ok: "pending_ok ps"
  have "length (pending_queue ps) = card (set (pending_queue ps))"
    using queue_sorted(2)[OF ok] by (simp add: distinct_card distinct_map)
  also have "\<dots> \<le> card (set (ps_by_path ps))" unfolding set_queue[OF ok] by (rule card_image_le) simp
  also have "\<dots> \<le> length (ps_by_path ps)" by (rule card_length)
  finally show ?thesis .
qed

lemma flush_due_queue:
  assumes "pending_ok ps"
  shows "\<exists>ps'. flush_due wr now ps x =
      (case write_until wr (takeWhile (\<lambda>p. pc_deadline p \<le> now) (pending_queue ps)) x of (e, rest, x') \<Rightarrow> Some (e, ps', x')) \<and>
    pending_ok ps' \<and>
    pending_queue ps' = fst (snd (write_until wr (takeWhile (\<lambda>p. pc_deadline p \<le> now) (pending_queue ps)) x)) @
      dropWhile (\<lambda>p. pc_deadline p \<le> now) (pending_queue ps)"
  using flush_loop_queue[OF assms, of "length (ps_by_path ps) + 1" wr False now x] queue_length[OF assms]
  by (simp add: flush_due_def due_def[abs_def])

lemma flush_all_queue:
  assumes "pending_ok ps"
  shows "\<exists>ps'. flush_all wr ps x = (case write_until wr (pending_queue ps) x of (e, rest, x') \<Rightarrow> Some (e, ps', x')) \<and>
    pending_ok ps' \<and> pending_queue ps' = fst (snd (write_until wr (pending_queue ps) x))"
proof -
  have t: "takeWhile (due True zero_time) xs = xs" "dropWhile (due True zero_time) xs = []" for xs
    by (induction xs) (simp_all add: due_def)
  have "length (pending_queue ps) < length (ps_by_path ps) + 1" using queue_length[OF assms] by simp
  from flush_loop_queue[OF assms this, of wr True zero_time x] show ?thesis
    unfolding flush_all_def t by simp
qed

end
