(* ===== verification/Debounce_Properties.thy ===== *)
theory Debounce_Properties
  imports Debounce_Laws
begin

text \<open>
  What the debouncer promises: coalescing computes the net effect of a history without moves, the
  flush loops write exactly the settled changes in deadline order, and a shutdown writes
  everything that was accepted.  The last section evaluates histories with moves whose net
  effect the coalescing does not keep.
\<close>

section \<open>The net effect of a history\<close>

definition key_of :: "raw_change \<Rightarrow> string" where "key_of c = path_key (rc_path c)"

text \<open>A history over the existence of paths: a creation of a missing path, a modification or a removal
  of an existing one.\<close>

definition exist_step :: "raw_change \<Rightarrow> (string \<Rightarrow> bool) \<Rightarrow> (string \<Rightarrow> bool) option" where
  "exist_step c ex = (case rc_op c of
     Created \<Rightarrow> if ex (key_of c) then None else Some (ex(key_of c := True))
   | Modified \<Rightarrow> if ex (key_of c) then Some ex else None
   | Removed \<Rightarrow> if ex (key_of c) then Some (ex(key_of c := False)) else None
   | _ \<Rightarrow> None)"

fun history :: "(string \<Rightarrow> bool) \<Rightarrow> raw_change list \<Rightarrow> (string \<Rightarrow> bool) option" where
  "history ex [] = Some ex"
| "history ex (c # cs) = (case exist_step c ex of None \<Rightarrow> None | Some ex' \<Rightarrow> history ex' cs)"

definition net_change :: "bool \<Rightarrow> bool \<Rightarrow> change_op option" where
  "net_change e0 e1 = (if e0 then Some (if e1 then Modified else Removed) else if e1 then Some Created else None)"

definition last_on :: "string \<Rightarrow> raw_change list \<Rightarrow> raw_change" where
  "last_on k cs = last (filter (\<lambda>c. key_of c = k) cs)"

lemma history_snoc:
  "history ex (cs @ [c]) = (case history ex cs of None \<Rightarrow> None | Some ex' \<Rightarrow> exist_step c ex')"
  by (induction cs arbitrary: ex) (auto split: option.splits)

lemma last_on_snoc: "last_on k (cs @ [c]) = (if key_of c = k then c else last_on k cs)"
  by (simp add: last_on_def)

lemma clean_change_simps [simp]:
  "rc_op (clean_change c) = rc_op c" "rc_at (clean_change c) = rc_at c"
  "path_key (rc_path (clean_change c)) = path_key (rc_path c)"
  by (simp_all add: clean_change_def path_key_def)

text \<open>What one change that is not a move does to the pending change of a path.\<close>

definition content :: "pending_change \<Rightarrow> raw_change \<times> int" where
  "content p = (pc_change p, pc_deadline p)"

lemma add_effect:
  assumes "rc_op c \<noteq> Move"
    and "\<And>p. pending_at ps (key_of c) = Some p \<Longrightarrow> rc_op (pc_change p) \<noteq> Move \<and> path_key (rc_path (pc_change p)) = key_of c"
  shows "map_option content (pending_at (pending_add c ps) j) =
    (if j \<noteq> key_of c then map_option content (pending_at ps j)
     else case pending_at ps j of
       None \<Rightarrow> Some (clean_change c, rc_at c + ps_window ps)
     | Some p \<Rightarrow> map_option (\<lambda>m. (m, rc_at m + ps_window ps)) (merge_same_path (pc_change p) (clean_change c)))"
proof (cases "pending_at ps (key_of c)")
  case None
  then show ?thesis using assms(1)
    by (simp add: pending_add_def add_same_path_def Let_def pending_at_put content_def key_of_def)
next
  case (Some p)
  note p = assms(2)[OF Some]
  have key: "path_key (rc_path m) = key_of c" if "merge_same_path (pc_change p) (clean_change c) = Some m" for m
    using that p by (auto simp: merge_same_path_def Let_def key_of_def split: change_op.splits if_splits)
  show ?thesis
    using Some p key assms(1)
    by (auto simp: pending_add_def add_same_path_def Let_def pending_at_put pending_at_drop content_def key_of_def
        split: option.splits)
qed

definition settled_at :: "(string \<Rightarrow> bool) \<Rightarrow> (string \<Rightarrow> bool) \<Rightarrow> int \<Rightarrow> raw_change list \<Rightarrow> string \<Rightarrow> pending_change option \<Rightarrow> bool" where
  "settled_at e0 e1 w cs k r \<longleftrightarrow>
     (if \<exists>c\<in>set cs. key_of c = k
      then (case r of
          None \<Rightarrow> net_change (e0 k) (e1 k) = None
        | Some p \<Rightarrow> net_change (e0 k) (e1 k) = Some (rc_op (pc_change p)) \<and> path_key (rc_path (pc_change p)) = k \<and>
            rc_at (pc_change p) = rc_at (last_on k cs) \<and> pc_deadline p = rc_at (last_on k cs) + w)
      else r = None \<and> e0 k = e1 k)"

lemma settled_at_cong:
  assumes "map_option content r = map_option content r'" "settled_at e0 e1 w cs k r"
  shows "settled_at e0 e1 w cs k r'"
  using assms by (cases r; cases r') (auto simp: settled_at_def content_def split: if_splits)

lemma settled_add:
  assumes "exist_step c e1 = Some e2" "\<And>k. settled_at e0 e1 (ps_window ps) cs k (pending_at ps k)"
    and "\<forall>d\<in>set cs. rc_at d \<le> rc_at c"
  shows "settled_at e0 e2 (ps_window ps) (cs @ [c]) k (pending_at (pending_add c ps) k)"
proof -
  let ?k = "key_of c"
  have op: "rc_op c \<in> {Created, Modified, Removed}" using assms(1) by (auto simp: exist_step_def split: change_op.splits)
  have S: "settled_at e0 e1 (ps_window ps) cs ?k (pending_at ps ?k)" by (rule assms(2))
  have old: "rc_op (pc_change p) \<in> {Created, Modified, Removed} \<and> path_key (rc_path (pc_change p)) = ?k \<and>
      rc_at (pc_change p) \<le> rc_at c" if "pending_at ps ?k = Some p" for p
  proof -
    have ex: "\<exists>d\<in>set cs. key_of d = ?k" using S that by (auto simp: settled_at_def split: if_splits)
    then have "last_on ?k cs \<in> set cs"
      using last_in_set[of "filter (\<lambda>d. key_of d = ?k) cs"] by (auto simp: last_on_def filter_empty_conv)
    then show ?thesis using S that ex assms(3)
      by (auto simp: settled_at_def net_change_def split: if_splits)
  qed
  have eff: "map_option content (pending_at (pending_add c ps) k) =
    (if k \<noteq> ?k then map_option content (pending_at ps k)
     else case pending_at ps k of
       None \<Rightarrow> Some (clean_change c, rc_at c + ps_window ps)
     | Some p \<Rightarrow> map_option (\<lambda>m. (m, rc_at m + ps_window ps)) (merge_same_path (pc_change p) (clean_change c)))"
    by (rule add_effect) (use op old in auto)
  show ?thesis
  proof (cases "k = ?k")
    case False
    have "e2 k = e1 k" using False assms(1) by (auto simp: exist_step_def split: change_op.splits if_splits)
    moreover have "settled_at e0 e1 (ps_window ps) cs k (pending_at (pending_add c ps) k)"
      by (rule settled_at_cong[OF _ assms(2)[of k]]) (use eff False in simp)
    moreover have "key_of c \<noteq> k" "last_on k (cs @ [c]) = last_on k cs" using False by (auto simp: last_on_snoc)
    ultimately show ?thesis by (simp add: settled_at_def split: option.splits)
  next
    case True
    show ?thesis
    proof (cases "pending_at ps k")
      case None
      then have "map_option content (pending_at (pending_add c ps) k) = Some (clean_change c, rc_at c + ps_window ps)"
        using eff True by simp
      then obtain q where "pending_at (pending_add c ps) k = Some q" "pc_change q = clean_change c"
          "pc_deadline q = rc_at c + ps_window ps"
        by (auto simp: content_def)
      moreover have "net_change (e0 k) (e2 k) = Some (rc_op c)"
        using S None True assms(1)
        by (auto simp: settled_at_def exist_step_def net_change_def split: if_splits change_op.splits option.splits)
      ultimately show ?thesis using True by (simp add: settled_at_def last_on_snoc key_of_def)
    next
      case (Some p)
      note o = old[OF Some[unfolded True]]
      have net: "net_change (e0 k) (e1 k) = Some (rc_op (pc_change p))"
        using S Some True by (auto simp: settled_at_def split: if_splits)
      have t: "latest_time (rc_at (pc_change p)) (rc_at c) = rc_at c" using o by (simp add: latest_time_def)
      have m: "map_option (\<lambda>m. rc_op m) (merge_same_path (pc_change p) (clean_change c)) = net_change (e0 k) (e2 k) \<and>
          (\<forall>m. merge_same_path (pc_change p) (clean_change c) = Some m \<longrightarrow> rc_at m = rc_at c \<and> path_key (rc_path m) = k)"
        using net o op t assms(1) True
        by (auto simp: merge_same_path_def net_change_def exist_step_def key_of_def split: if_splits)
      have "map_option content (pending_at (pending_add c ps) k) =
          map_option (\<lambda>m. (m, rc_at m + ps_window ps)) (merge_same_path (pc_change p) (clean_change c))"
        using eff True Some by simp
      then show ?thesis
        using m True
        by (cases "merge_same_path (pc_change p) (clean_change c)") (auto simp: settled_at_def last_on_snoc content_def)
    qed
  qed
qed

lemma settled_history:
  assumes "history e0 cs = Some e1" "sorted (map rc_at cs)"
  shows "settled_at e0 e1 w cs k (pending_at (fold pending_add cs (new_pending_state w)) k) \<and>
    ps_window (fold pending_add cs (new_pending_state w)) = w"
  using assms
proof (induction cs arbitrary: e1 k rule: rev_induct)
  case Nil
  then show ?case by (simp add: settled_at_def new_pending_state_def pending_at_def)
next
  case (snoc c cs)
  let ?ps = "fold pending_add cs (new_pending_state w)"
  obtain e where e: "history e0 cs = Some e" "exist_step c e = Some e1"
    using snoc.prems(1) by (auto simp: history_snoc split: option.splits)
  have s: "sorted (map rc_at cs)" "\<forall>d\<in>set cs. rc_at d \<le> rc_at c"
    using snoc.prems(2) by (auto simp: sorted_append)
  note IH = snoc.IH[OF e(1) s(1)]
  have w: "ps_window ?ps = w" using IH[of k] by blast
  have "settled_at e0 e1 (ps_window ?ps) (cs @ [c]) k (pending_at (pending_add c ?ps) k)"
    by (rule settled_add[OF e(2) _ s(2)]) (use IH w in simp)
  then show ?case using w by simp
qed

text \<open>C22: Coalescing computes the net effect.  Feed the debouncer any history of creations,
  modifications and removals of any paths, in time order and consistent with which paths exist: for
  every path, what is pending is exactly the net effect of the history on it (nothing when it was
  created and removed again), and it settles one window after the last change of that path.\<close>

theorem coalescing_is_the_net_effect:
  assumes "history e0 cs = Some e1" "sorted (map rc_at cs)"
  shows "map_option (\<lambda>p. (rc_op (pc_change p), pc_deadline p))
      (pending_at (fold pending_add cs (new_pending_state w)) k) =
    (if \<exists>c\<in>set cs. path_key (rc_path c) = k
     then map_option (\<lambda>op. (op, rc_at (last_on k cs) + w)) (net_change (e0 k) (e1 k)) else None)"
  using settled_history[OF assms, of w k]
  by (auto simp: settled_at_def key_of_def split: option.splits if_splits)

definition change_on :: "change_op \<Rightarrow> string \<Rightarrow> int \<Rightarrow> raw_change" where
  "change_on op p at' = \<lparr>rc_op = op, rc_path = p, rc_old = [], rc_at = at'\<rparr>"

definition move_on :: "string \<Rightarrow> string \<Rightarrow> int \<Rightarrow> raw_change" where
  "move_on src dst at' = \<lparr>rc_op = Move, rc_path = dst, rc_old = src, rc_at = at'\<rparr>"

lemma coalescing_is_the_net_effect_witness:
  "map_option (\<lambda>p. (rc_op (pc_change p), pc_deadline p))
     (pending_at (fold pending_add [change_on Removed ''/a'' 5, change_on Created ''/b'' 6, change_on Created ''/a'' 7]
        (new_pending_state 10)) ''/a'') = Some (Modified, 17)"
proof -
  let ?cs = "[change_on Removed ''/a'' 5, change_on Created ''/b'' 6, change_on Created ''/a'' 7]"
  have key: "path_key ''/a'' = ''/a''" "path_key ''/b'' = ''/b''" by code_simp+
  have "history (\<lambda>p. p = ''/a'') ?cs = Some (((\<lambda>p. p = ''/a'')(''/a'' := False, ''/b'' := True))(''/a'' := True))"
    by (simp add: exist_step_def change_on_def key_of_def key)
  from coalescing_is_the_net_effect[OF this, of 10 "''/a''"] show ?thesis
    by (simp add: change_on_def key net_change_def last_on_def key_of_def)
qed

section \<open>Flushing\<close>

text \<open>The timer flush writes exactly the settled changes, in deadline order.  For every pending
  state that additions can build and every writer, \<open>flushDue\<close> returns; it writes the changes whose
  deadline has passed one after the other in order of their deadlines until a write fails, and
  keeps exactly the change whose write failed, those after it and those not due, in order.\<close>

theorem flush_due_writes_settled_changes_in_order:
  assumes "ps = fold pending_add cs (new_pending_state w)"
    and "write_until wr (takeWhile (\<lambda>p. pc_deadline p \<le> now) (pending_queue ps)) x = (e, rest, x')"
  shows "\<exists>ps'. flush_due wr now ps x = Some (e, ps', x') \<and>
    pending_queue ps' = rest @ dropWhile (\<lambda>p. pc_deadline p \<le> now) (pending_queue ps) \<and>
    sorted_wrt (\<lambda>p q. pc_deadline p \<le> pc_deadline q) (pending_queue ps) \<and>
    set (pending_queue ps) = {p. \<exists>k. pending_at ps k = Some p}"
proof -
  have ok: "pending_ok ps" unfolding assms(1) by (rule pending_ok_adds[OF pending_ok_new])
  have "set (pending_queue ps) = {p. \<exists>k. pending_at ps k = Some p}"
    unfolding set_queue[OF ok] pending_at_iff[OF ok] by force
  then show ?thesis using flush_due_queue[OF ok, of wr now x] queue_sorted(1)[OF ok] assms(2) by auto
qed

definition log_write :: "raw_change \<Rightarrow> string list \<Rightarrow> string option \<times> string list" where
  "log_write c x = (if rc_path c = ''/c'' then (Some ''full'', x) else (None, x @ [rc_path c]))"

definition example_changes :: "raw_change list" where
  "example_changes = [change_on Created ''/a'' 5, change_on Created ''/b'' 3, change_on Created ''/c'' 6,
     change_on Created ''/d'' 20]"

lemma flush_due_writes_settled_changes_in_order_witness:
  "\<exists>ps'. flush_due log_write 17 (fold pending_add example_changes (new_pending_state 10)) [] =
     Some (Some ''full'', ps', [''/b'', ''/a'']) \<and> map (\<lambda>p. rc_path (pc_change p)) (pending_queue ps') = [''/c'', ''/d'']"
proof -
  let ?ps = "fold pending_add example_changes (new_pending_state 10)"
  let ?w = "write_until log_write (takeWhile (\<lambda>p. pc_deadline p \<le> 17) (pending_queue ?ps)) []"
  have 1: "fst ?w = Some ''full''" by code_simp
  have 2: "map (\<lambda>p. rc_path (pc_change p)) (fst (snd ?w)) = [''/c'']" by code_simp
  have 3: "snd (snd ?w) = [''/b'', ''/a'']" by code_simp
  have 4: "map (\<lambda>p. rc_path (pc_change p)) (dropWhile (\<lambda>p. pc_deadline p \<le> 17) (pending_queue ?ps)) = [''/d'']"
    by code_simp
  have w: "?w = (Some ''full'', fst (snd ?w), [''/b'', ''/a''])" using 1 3 by (metis prod.collapse)
  from flush_due_writes_settled_changes_in_order[OF refl w] 2 4 show ?thesis by auto
qed

text \<open>C23: A shutdown writes everything that was accepted.  The branch of \<open>Run\<close> for a cancelled context
  always returns; it closes admission and leaves no input, and when it returns no error nothing is
  pending any more: every accepted change was folded into the pending state and every pending
  change was written in deadline order, with the store exactly as those writes leave it.\<close>

theorem shutdown_writes_everything:
  assumes "dn_pending d = fold pending_add cs (new_pending_state w)"
    and "write_until (persist ops cfg now)
      (pending_queue (fold (\<lambda>c. pending_add (stamp now c)) (dn_input d) (dn_pending d))) (dn_store d, dn_notified d) =
      (e, rest, s, n)"
  shows "\<exists>d'. run_select_step ops cfg order (Cancelled now) d =
      Some (case e of None \<Rightarrow> Inr False | Some err \<Rightarrow> Inl err, d') \<and>
    dn_state d' = StateStopped \<and> dn_input d' = [] \<and> dn_store d' = s \<and> dn_notified d' = n \<and>
    pending_queue (dn_pending d') = rest \<and> (e = None \<longrightarrow> ps_by_path (dn_pending d') = []) \<and>
    (\<forall>c. submit admitted c d' = ((case validate_change c of Inl err \<Rightarrow> Some err | Inr _ \<Rightarrow> Some ErrStopped), d'))"
proof -
  let ?ps = "fold (\<lambda>c. pending_add (stamp now c)) (dn_input d) (dn_pending d)"
  have "?ps = fold pending_add (map (stamp now) (dn_input d)) (dn_pending d)" by (simp add: fold_map comp_def)
  then have ok: "pending_ok ?ps" unfolding assms(1) by (simp add: pending_ok_adds pending_ok_new)
  obtain ps' where f: "flush_all (persist ops cfg now) ?ps (dn_store d, dn_notified d) = Some (e, ps', s, n)"
      "pending_ok ps'" "pending_queue ps' = rest"
    using flush_all_queue[OF ok, of "persist ops cfg now" "(dn_store d, dn_notified d)"] assms(2) by auto
  have none: "rest = []" if "e = None"
  proof -
    have "fst (write_until wr todo x) = None \<Longrightarrow> fst (snd (write_until wr todo x)) = []"
      for wr :: "raw_change \<Rightarrow> 'x \<Rightarrow> 'err option \<times> 'x" and todo x
      by (induction wr todo x rule: write_until.induct) (auto split: option.splits prod.splits)
    from this[of "persist ops cfg now" _ "(dn_store d, dn_notified d)"] assms(2) that show ?thesis
      by (metis fst_conv snd_conv)
  qed
  let ?d = "d\<lparr>dn_state := StateStopped, dn_pending := ps', dn_input := [], dn_store := s, dn_notified := n\<rparr>"
  have "run_select_step ops cfg order (Cancelled now) d =
      Some (case e of None \<Rightarrow> Inr False | Some err \<Rightarrow> Inl err, ?d)"
    using f(1) by (simp add: run_select_step_def drain_input_def with_pending_def stop_with_def Let_def)
  moreover have "ps_by_path ps' = []" if "e = None"
    using set_queue[OF f(2)] f(3) none[OF that] by simp
  ultimately show ?thesis using f(3)
    by (intro exI[of _ ?d]) (auto simp: submit_def split: sum.splits)
qed

definition log_task :: "string \<Rightarrow> task" where
  "log_task p = \<lparr>t_id = 1, t_file_id = None, t_path = p, t_path_key = p, t_op = TaskOpUpsert, t_old_path = None,
     t_old_path_key = None, t_generation = 1, t_state = TaskStatePending, t_priority = 5, t_attempts = 0,
     t_crash_count = 0, t_next_attempt_at = 0, t_last_error = None, t_created_at = 0, t_updated_at = 0,
     t_charge = 0, t_attempts_log = [], t_error_chain = []\<rparr>"

definition log_ops :: "(string, string list) event_ops" where
  "log_ops = \<lparr>eo_enqueue = (\<lambda>now params x. (Inr \<lparr>er_task = log_task (ep_path params), er_inserted = True\<rparr>,
       x @ [ep_path params])), eo_list_prefix = (\<lambda>pre n x. Inr [])\<rparr>"

definition log_config :: "string debounce_config" where
  "log_config = \<lparr>dc_input_capacity = 4, dc_window = 10, dc_flush_timeout = 100,
     dc_inspect = (\<lambda>p. StatDir False), dc_directory_notify = None\<rparr>"

definition log_debouncer :: "string list debouncer" where
  "log_debouncer = \<lparr>dn_store = [], dn_notified = 0, dn_capacity = 4, dn_window = 10,
     dn_input = [change_on Created ''/c'' 0, change_on Removed ''/a'' 7], dn_flush = [], dn_state = StateRunning,
     dn_pending = fold pending_add [change_on Modified ''/a'' 5, change_on Created ''/b'' 3] (new_pending_state 10)\<rparr>"

lemma shutdown_writes_everything_witness:
  "\<exists>d'. run_select_step log_ops log_config id (Cancelled 9) log_debouncer = Some (Inr False, d') \<and>
     dn_store d' = [''/b'', ''/a'', ''/c''] \<and> ps_by_path (dn_pending d') = []"
proof -
  let ?d = log_debouncer
  let ?w = "write_until (persist log_ops log_config 9)
      (pending_queue (fold (\<lambda>c. pending_add (stamp 9 c)) (dn_input ?d) (dn_pending ?d))) (dn_store ?d, dn_notified ?d)"
  have p: "dn_pending ?d = fold pending_add [change_on Modified ''/a'' 5, change_on Created ''/b'' 3] (new_pending_state 10)"
    by (simp add: log_debouncer_def)
  have "(case fst ?w of None \<Rightarrow> True | _ \<Rightarrow> False) \<and> fst (snd (snd ?w)) = [''/b'', ''/a'', ''/c'']" by code_simp
  then have w: "?w = (None, fst (snd ?w), [''/b'', ''/a'', ''/c''], snd (snd (snd ?w)))"
    by (auto simp: prod_eq_iff split: option.splits)
  from shutdown_writes_everything[OF p w, of id] show ?thesis by auto
qed

section \<open>Histories with moves\<close>

text \<open>
  Three histories after which a path that no longer exists has no pending removal: a rename and a new
  file at the old name, both removed; a removed path that is the target of a move which is removed
  again; and a move onto the target of an earlier move.
\<close>

definition pending_paths :: "pending_state \<Rightarrow> (change_op \<times> string \<times> string) list" where
  "pending_paths ps = map (\<lambda>p. (rc_op (pc_change p), rc_path (pc_change p), rc_old (pc_change p))) (pending_queue ps)"

lemma removal_lost_after_rename_and_recreate:
  "pending_paths (fold pending_add [move_on ''/a'' ''/b'' 1, change_on Created ''/a'' 2, change_on Removed ''/b'' 3,
     change_on Removed ''/a'' 4] (new_pending_state 10)) = []"
  by code_simp

lemma removal_lost_under_move_target:
  "pending_paths (fold pending_add [change_on Removed ''/b'' 1, move_on ''/a'' ''/b'' 2, change_on Removed ''/b'' 3]
     (new_pending_state 10)) = [(Removed, ''/a'', [])]"
  by code_simp

lemma move_source_lost_under_second_move:
  "pending_paths (fold pending_add [move_on ''/x'' ''/b'' 1, move_on ''/a'' ''/b'' 2] (new_pending_state 10)) =
     [(Move, ''/b'', ''/a'')]"
  by code_simp

end
