(* ===== verification/Text.thy ===== *)
theory Text
  imports Complex_Main "HOL-Library.Word" Store_Expand
begin

text \<open>
  What the code uses of \<open>strings\<close>, \<open>unicode/utf8\<close> and IEEE floats.  A string is its list of bytes.
  \<open>strings.TrimSpace\<close> removes encoded white space at both ends; a conversion to \<open>[]rune\<close> and back
  cuts at rune boundaries and replaces every byte that is not part of an encoding by U+FFFD.
  A float is its bit pattern; its value, where it is finite, is a rational.
\<close>

section \<open>White space\<close>

definition space_width :: "string \<Rightarrow> nat" where
  "space_width s =
     (if s \<noteq> [] \<and> hd s \<in> set ascii_spaces then 1
      else if take 2 s \<in> set spaces2 then 2
      else if take 3 s \<in> set spaces3 then 3 else 0)"

lemma space_width_pos: "space_width s \<noteq> 0 \<Longrightarrow> s \<noteq> []"
  by (auto simp: space_width_def spaces2_def spaces3_def split: if_splits)

function trim_left :: "string \<Rightarrow> string" where
  "trim_left s = (if space_width s = 0 then s else trim_left (drop (space_width s) s))"
  by auto
termination
  by (relation "measure length") (use space_width_pos in \<open>force+\<close>)

text \<open>The same from the right, on the reversed bytes.\<close>

definition space_width_rev :: "string \<Rightarrow> nat" where
  "space_width_rev s =
     (if s \<noteq> [] \<and> hd s \<in> set ascii_spaces then 1
      else if rev (take 2 s) \<in> set spaces2 then 2
      else if rev (take 3 s) \<in> set spaces3 then 3 else 0)"

lemma space_width_rev_pos: "space_width_rev s \<noteq> 0 \<Longrightarrow> s \<noteq> []"
  by (auto simp: space_width_rev_def spaces2_def spaces3_def split: if_splits)

function trim_left_rev :: "string \<Rightarrow> string" where
  "trim_left_rev s = (if space_width_rev s = 0 then s else trim_left_rev (drop (space_width_rev s) s))"
  by auto
termination
  by (relation "measure length") (use space_width_rev_pos in \<open>force+\<close>)

declare trim_left.simps [simp del] trim_left_rev.simps [simp del]

definition trim_right :: "string \<Rightarrow> string" where
  "trim_right s = rev (trim_left_rev (rev s))"

definition trim_space :: "string \<Rightarrow> string" where
  "trim_space s = trim_right (trim_left s)"

text \<open>A required label: not empty and without white space at its ends.\<close>

definition trimmed_label :: "string \<Rightarrow> bool" where
  "trimmed_label s \<longleftrightarrow> trim_space s \<noteq> [] \<and> trim_space s = s"

lemma trim_left_plain: "space_width s = 0 \<Longrightarrow> trim_left s = s"
  by (simp add: trim_left.simps)

lemma trim_left_width: "space_width (trim_left s) = 0"
  by (induction s rule: trim_left.induct) (subst trim_left.simps, simp)

lemma trim_left_idem: "trim_left (trim_left s) = trim_left s"
  by (rule trim_left_plain[OF trim_left_width])

lemma trim_left_rev_width: "space_width_rev (trim_left_rev s) = 0"
  by (induction s rule: trim_left_rev.induct) (subst trim_left_rev.simps, simp)

lemma trim_right_idem: "trim_right (trim_right s) = trim_right s"
  using trim_left_rev_width[of "rev s"] by (simp add: trim_right_def trim_left_rev.simps)

section \<open>Runes\<close>

definition rune_error :: string where "rune_error = [CHR 0xEF, CHR 0xBF, CHR 0xBD]"

definition byte_of :: "char \<Rightarrow> nat" where "byte_of c = of_char c"

definition in_range :: "nat \<Rightarrow> nat \<Rightarrow> char \<Rightarrow> bool" where
  "in_range lo hi c \<longleftrightarrow> lo \<le> byte_of c \<and> byte_of c \<le> hi"

text \<open>\<open>utf8.DecodeRune\<close>: the number of continuation bytes and the range of the first of them.\<close>

definition lead_byte :: "char \<Rightarrow> (nat \<times> nat \<times> nat) option" where
  "lead_byte c = (let b = byte_of c in
     if 0xC2 \<le> b \<and> b \<le> 0xDF then Some (1, 0x80, 0xBF)
     else if b = 0xE0 then Some (2, 0xA0, 0xBF)
     else if b = 0xED then Some (2, 0x80, 0x9F)
     else if 0xE1 \<le> b \<and> b \<le> 0xEF then Some (2, 0x80, 0xBF)
     else if b = 0xF0 then Some (3, 0x90, 0xBF)
     else if 0xF1 \<le> b \<and> b \<le> 0xF3 then Some (3, 0x80, 0xBF)
     else if b = 0xF4 then Some (3, 0x80, 0x8F)
     else None)"

definition continues :: "nat \<times> nat \<times> nat \<Rightarrow> string \<Rightarrow> bool" where
  "continues l s = (case l of (n, lo, hi) \<Rightarrow>
     length s = n \<and> (case s of [] \<Rightarrow> False | c # cs \<Rightarrow> in_range lo hi c \<and> list_all (in_range 0x80 0xBF) cs))"

fun runes :: "nat \<Rightarrow> string \<Rightarrow> string list" where
  "runes 0 s = []"
| "runes (Suc k) [] = []"
| "runes (Suc k) (c # cs) =
     (if byte_of c < 0x80 then [c] # runes k cs
      else case lead_byte c of
        None \<Rightarrow> rune_error # runes k cs
      | Some l \<Rightarrow>
          if continues l (take (fst l) cs) then (c # take (fst l) cs) # runes k (drop (fst l) cs)
          else rune_error # runes k cs)"

text \<open>The fuel is the number of bytes: every rune takes at least one.\<close>

definition runes_of :: "string \<Rightarrow> string list" where
  "runes_of s = runes (length s) s"

section \<open>Floats\<close>

definition finite32 :: "32 word \<Rightarrow> bool" where
  "finite32 w \<longleftrightarrow> take_bit 8 (drop_bit 23 w) \<noteq> 0xFF"

definition finite64 :: "64 word \<Rightarrow> bool" where
  "finite64 w \<longleftrightarrow> take_bit 11 (drop_bit 52 w) \<noteq> 0x7FF"

text \<open>\<open>float64(value)\<close> is exact on finite \<open>float32\<close> values: normal and subnormal numbers.\<close>

definition float32_value :: "32 word \<Rightarrow> rat" where
  "float32_value w =
     (let e = unat (take_bit 8 (drop_bit 23 w)); m = unat (take_bit 23 w);
          a = (if e = 0 then of_nat m / 2 ^ 149
               else if e \<ge> 150 then of_nat (2 ^ 23 + m) * 2 ^ (e - 150)
               else of_nat (2 ^ 23 + m) / 2 ^ (150 - e))
      in if bit w 31 then - a else a)"

text \<open>The squared norm, summed exactly, and the test \<open>|\<surd>s - 1| \<le> 1e-3\<close> without the root.\<close>

definition norm_squared :: "32 word list \<Rightarrow> rat" where
  "norm_squared vs = fold (\<lambda>v s. s + float32_value v * float32_value v) vs 0"

definition unit_norm :: "32 word list \<Rightarrow> bool" where
  "unit_norm vs \<longleftrightarrow> (999 / 1000) ^ 2 \<le> norm_squared vs \<and> norm_squared vs \<le> (1001 / 1000) ^ 2"

lemma float_one: "float32_value 0x3F800000 = 1" "float32_value 0xBF000000 = - (1 / 2)"
  by (simp_all add: float32_value_def Let_def)

end
