(* ===== verification/Search.thy ===== *)
theory Search
  imports Text
begin

text \<open>
  Query routing and rank fusion, \<open>internal/index/search.go\<close>: a request is planned, the keyword and the
  semantic route are asked for a bounded window of candidates, the window grows while the catalog
  leaves too few of them, and the ranked candidates are fused by reciprocal ranks.

  The backends are arguments.  They may answer differently in every round, so each takes the number of
  the round; the two goroutines of a round are independent, and \<open>sb_keyword_first\<close> says which of two
  errors reaches the group first.  Contexts are the readings of \<open>ctx.Err()\<close> in the order in which the
  code takes them.  Scores of the fusion (\<open>float64\<close> sums of at most two reciprocals) are rationals;
  scores and values of the backends are IEEE bit patterns.
\<close>

section \<open>Requests and results\<close>

definition default_search_top_k :: int where "default_search_top_k = 20"
definition max_search_top_k :: int where "max_search_top_k = 1000"
definition rrf_rank_constant :: nat where "rrf_rank_constant = 60"
definition overfetch_multiple :: int where "overfetch_multiple = 4"
definition max_snippet_runes :: nat where "max_snippet_runes = 240"

datatype hit_source = SourceContent | SourceNote | SourceSemantic
datatype search_mode = ModeHybrid | ModeKeyword | ModeSemantic | ModeUnknown nat

definition mode_string :: "search_mode \<Rightarrow> string" where
  "mode_string m = (case m of ModeHybrid \<Rightarrow> ''hybrid'' | ModeKeyword \<Rightarrow> ''keyword''
     | ModeSemantic \<Rightarrow> ''semantic'' | ModeUnknown _ \<Rightarrow> ''unknown'')"

record filters =
  fl_path_prefix :: string
  fl_kinds :: "file_kind list"
  fl_mtime_from :: "int option"
  fl_mtime_to :: "int option"

record search_request =
  rq_query :: string
  rq_mode :: search_mode
  rq_top_k :: int
  rq_filters :: filters

record search_hit =
  ht_file_id :: int
  ht_path :: string
  ht_kind :: file_kind
  ht_score :: rat
  ht_sources :: "hit_source list"
  ht_snippet :: string
  ht_frame_ts :: "int option"
  ht_status :: file_status

record search_response =
  rs_hits :: "search_hit list"
  rs_degraded :: bool
  rs_incomplete :: bool

record query_embedding =
  qe_values :: "32 word list"
  qe_model :: string

record vector_hit =
  vh_key :: "64 word"
  vh_file_id :: int
  vh_frame :: int
  vh_frame_ts :: "int option"
  vh_score :: "32 word"
  vh_model :: string

record keyword_hit =
  kh_file_id :: int
  kh_path :: string
  kh_filename :: string
  kh_kind :: string
  kh_content :: string
  kh_mtime_ns :: int
  kh_generation :: int
  kh_status :: string
  kh_score :: "64 word"

datatype 'e search_error =
  ErrRequest string | ErrResponse string | ErrDependencyAbsent string | ErrSearchContext
| ErrKeywordRoute 'e | ErrEmbedQuery 'e | ErrSemanticRoute 'e | ErrLoadCatalog 'e

text \<open>The backends; \<open>sb_mismatch\<close> is \<open>errors.Is(err, ErrVectorModelMismatch)\<close>.\<close>

record 'e search_backends =
  sb_has_keyword :: bool
  sb_has_embedder :: bool
  sb_has_semantic :: bool
  sb_keyword :: "nat \<Rightarrow> string \<Rightarrow> int \<Rightarrow> 'e + keyword_hit list"
  sb_catalog :: "nat \<Rightarrow> int list \<Rightarrow> 'e + (int \<Rightarrow> catalog_file option)"
  sb_embed :: "nat \<Rightarrow> string \<Rightarrow> 'e + query_embedding"
  sb_semantic :: "nat \<Rightarrow> 32 word list \<Rightarrow> string \<Rightarrow> int \<Rightarrow> 'e + vector_hit list"
  sb_unavailable :: "'e \<Rightarrow> bool"
  sb_mismatch :: "'e \<Rightarrow> bool"
  sb_cancelled :: "nat \<Rightarrow> bool"
  sb_keyword_first :: "nat \<Rightarrow> bool"

section \<open>Planning\<close>

record search_plan =
  pl_query :: string
  pl_mode :: search_mode
  pl_top_k :: int
  pl_filters :: filters
  pl_kinds :: "file_kind list"

definition known_kind :: "file_kind \<Rightarrow> bool" where
  "known_kind k = (case k of FileKindInvalid _ \<Rightarrow> False | _ \<Rightarrow> True)"

definition mtime_inverted :: "filters \<Rightarrow> bool" where
  "mtime_inverted f = (case (fl_mtime_from f, fl_mtime_to f) of
     (Some lo, Some hi) \<Rightarrow> lo > hi | _ \<Rightarrow> False)"

definition normalize_search_request :: "search_request \<Rightarrow> 'e search_error + search_plan" where
  "normalize_search_request request =
     (let query = trim_space (rq_query request);
          top_k = (if rq_top_k request = 0 then default_search_top_k else rq_top_k request)
      in if query = [] then Inl (ErrRequest ''query is required'')
         else if rq_mode request \<notin> {ModeHybrid, ModeKeyword, ModeSemantic} then Inl (ErrRequest ''unknown mode'')
         else if top_k < 1 \<or> top_k > max_search_top_k then Inl (ErrRequest ''top_k out of range'')
         else if mtime_inverted (rq_filters request) then Inl (ErrRequest ''mtime range is inverted'')
         else if \<not> list_all known_kind (fl_kinds (rq_filters request)) then Inl (ErrRequest ''unknown file kind'')
         else Inr \<lparr>pl_query = query, pl_mode = rq_mode request, pl_top_k = top_k,
                   pl_filters = rq_filters request, pl_kinds = remdups (fl_kinds (rq_filters request))\<rparr>)"

definition uses_keyword :: "search_mode \<Rightarrow> bool" where
  "uses_keyword mode \<longleftrightarrow> mode = ModeKeyword \<or> mode = ModeHybrid"

definition uses_semantic :: "search_mode \<Rightarrow> bool" where
  "uses_semantic mode \<longleftrightarrow> mode = ModeSemantic \<or> mode = ModeHybrid"

definition require_mode_dependencies :: "'e search_backends \<Rightarrow> search_mode \<Rightarrow> 'e search_error + unit" where
  "require_mode_dependencies b mode =
     (if uses_keyword mode \<and> \<not> sb_has_keyword b then Inl (ErrDependencyAbsent ''keyword searcher'')
      else if uses_semantic mode \<and> \<not> sb_has_embedder b then Inl (ErrDependencyAbsent ''query embedder'')
      else if uses_semantic mode \<and> \<not> sb_has_semantic b then Inl (ErrDependencyAbsent ''semantic searcher'')
      else Inr ())"

definition candidate_limit :: "int \<Rightarrow> int" where
  "candidate_limit top_k =
     (if top_k \<ge> max_search_top_k div overfetch_multiple then max_search_top_k else top_k * overfetch_multiple)"

definition expanded_candidate_limit :: "int \<Rightarrow> int" where
  "expanded_candidate_limit current =
     (if current \<ge> max_search_top_k div 2 then max_search_top_k else current * 2)"

section \<open>Checks of what the backends return\<close>

definition validate_keyword_hits :: "keyword_hit list \<Rightarrow> 'e search_error + unit" where
  "validate_keyword_hits hits =
     (if list_all (\<lambda>h. kh_file_id h > 0 \<and> finite64 (kh_score h)) hits then Inr ()
      else Inl (ErrResponse ''keyword hit''))"

definition validate_query_embedding :: "query_embedding \<Rightarrow> 'e search_error + unit" where
  "validate_query_embedding e =
     (if trim_space (qe_model e) = [] then Inl (ErrResponse ''query embedding model version is empty'')
      else if qe_values e = [] then Inl (ErrResponse ''query embedding has no dimensions'')
      else if \<not> list_all finite32 (qe_values e) then Inl (ErrResponse ''query embedding contains a non-finite value'')
      else if \<not> unit_norm (qe_values e) then Inl (ErrResponse ''query embedding is not L2 normalized'')
      else Inr ())"

text \<open>File identifiers are \<open>int64\<close>, the key is computed on \<open>uint64\<close>.\<close>

definition vector_hit_ok :: "string \<Rightarrow> vector_hit \<Rightarrow> bool" where
  "vector_hit_ok model h \<longleftrightarrow>
     vh_file_id h > 0 \<and> 0 \<le> vh_frame h \<and> vh_frame h < 2 ^ 16 \<and>
     \<not> (word_of_int (vh_file_id h) :: 64 word) > drop_bit 16 (-1) \<and>
     vh_key h = or (push_bit 16 (word_of_int (vh_file_id h))) (word_of_int (vh_frame h)) \<and>
     (case vh_frame_ts h of None \<Rightarrow> True | Some t \<Rightarrow> \<not> t < 0) \<and> finite32 (vh_score h) \<and> vh_model h = model"

definition validate_vector_hits :: "vector_hit list \<Rightarrow> string \<Rightarrow> 'e search_error + unit" where
  "validate_vector_hits hits model =
     (if list_all (vector_hit_ok model) hits then Inr () else Inl (ErrResponse ''semantic hit''))"

text \<open>The map of catalog rows: entries that were not asked for are ignored.\<close>

definition validate_catalog_response :: "(int \<Rightarrow> catalog_file option) \<Rightarrow> int list \<Rightarrow> 'e search_error + unit" where
  "validate_catalog_response catalog requested =
     (if list_all (\<lambda>i. case catalog i of None \<Rightarrow> True | Some f \<Rightarrow> i > 0 \<and> f_id f = i) requested then Inr ()
      else Inl (ErrResponse ''catalog entry''))"

definition collect_candidate_file_ids :: "keyword_hit list \<Rightarrow> vector_hit list \<Rightarrow> int list" where
  "collect_candidate_file_ids keyword semantic =
     sort (remdups (map kh_file_id keyword @ map vh_file_id semantic))"

section \<open>Filters\<close>

definition is_search_path_separator :: "char \<Rightarrow> bool" where
  "is_search_path_separator c \<longleftrightarrow> c = CHR ''/'' \<or> c = CHR 0x5C"

definition path_matches_prefix :: "string \<Rightarrow> string \<Rightarrow> bool" where
  "path_matches_prefix path0 prefix0 =
     (if prefix0 = [] then True
      else let path = clean path0; pre = clean prefix0
      in if path = pre then True
         else if \<not> has_prefix path pre then False
         else if is_search_path_separator (last pre) then True
         else length path > length pre \<and> is_search_path_separator (path ! length pre))"

definition matches_request_filters :: "search_plan \<Rightarrow> catalog_file \<Rightarrow> bool" where
  "matches_request_filters plan f \<longleftrightarrow>
     path_matches_prefix (f_path f) (fl_path_prefix (pl_filters plan)) \<and>
     (pl_kinds plan = [] \<or> f_kind f \<in> set (pl_kinds plan)) \<and>
     (case fl_mtime_from (pl_filters plan) of None \<Rightarrow> True | Some lo \<Rightarrow> \<not> f_mtime_ns f < lo) \<and>
     (case fl_mtime_to (pl_filters plan) of None \<Rightarrow> True | Some hi \<Rightarrow> \<not> f_mtime_ns f > hi)"

definition matches_keyword_catalog :: "search_plan \<Rightarrow> catalog_file \<Rightarrow> bool" where
  "matches_keyword_catalog plan f \<longleftrightarrow>
     f_status f \<in> {FileStatusIndexed, FileStatusFailed} \<and> matches_request_filters plan f"

definition matches_semantic_catalog :: "search_plan \<Rightarrow> string \<Rightarrow> catalog_file \<Rightarrow> bool" where
  "matches_semantic_catalog plan model f \<longleftrightarrow>
     f_status f = FileStatusIndexed \<and> matches_request_filters plan f \<and> f_embed_model_version f = Some model"

definition snippet :: "string \<Rightarrow> string" where
  "snippet content0 =
     (let content = trim_space content0 in
      if content = [] then []
      else let rs = runes_of content in
        if length rs \<le> max_snippet_runes then content else concat (take max_snippet_runes rs))"

section \<open>Ranking\<close>

record ranked_hit =
  rh_file :: catalog_file
  rh_rank :: nat
  rh_source :: hit_source
  rh_snippet :: string
  rh_frame_ts :: "int option"

fun rank_keyword_from ::
    "(int \<Rightarrow> catalog_file option) \<Rightarrow> search_plan \<Rightarrow> int set \<Rightarrow> ranked_hit list \<Rightarrow> keyword_hit list \<Rightarrow> ranked_hit list" where
  "rank_keyword_from catalog plan seen ranked [] = ranked"
| "rank_keyword_from catalog plan seen ranked (h # hs) =
     (if kh_file_id h \<in> seen then rank_keyword_from catalog plan seen ranked hs
      else rank_keyword_from catalog plan (insert (kh_file_id h) seen)
        (case catalog (kh_file_id h) of
           None \<Rightarrow> ranked
         | Some f \<Rightarrow>
             if \<not> matches_keyword_catalog plan f then ranked
             else ranked @ [\<lparr>rh_file = f, rh_rank = length ranked + 1, rh_source = SourceContent,
               rh_snippet = (if f_status f = FileStatusIndexed then snippet (kh_content h) else []),
               rh_frame_ts = None\<rparr>]) hs)"

definition rank_keyword_hits ::
    "keyword_hit list \<Rightarrow> (int \<Rightarrow> catalog_file option) \<Rightarrow> search_plan \<Rightarrow> ranked_hit list" where
  "rank_keyword_hits hits catalog plan = rank_keyword_from catalog plan {} [] hits"

fun rank_semantic_from ::
    "(int \<Rightarrow> catalog_file option) \<Rightarrow> search_plan \<Rightarrow> string \<Rightarrow> int set \<Rightarrow> ranked_hit list \<Rightarrow> vector_hit list \<Rightarrow>
     ranked_hit list" where
  "rank_semantic_from catalog plan model seen ranked [] = ranked"
| "rank_semantic_from catalog plan model seen ranked (h # hs) =
     (if vh_file_id h \<in> seen then rank_semantic_from catalog plan model seen ranked hs
      else rank_semantic_from catalog plan model (insert (vh_file_id h) seen)
        (case catalog (vh_file_id h) of
           None \<Rightarrow> ranked
         | Some f \<Rightarrow>
             if \<not> matches_semantic_catalog plan model f then ranked
             else ranked @ [\<lparr>rh_file = f, rh_rank = length ranked + 1, rh_source = SourceSemantic,
               rh_snippet = [], rh_frame_ts = vh_frame_ts h\<rparr>]) hs)"

definition rank_semantic_hits ::
    "vector_hit list \<Rightarrow> (int \<Rightarrow> catalog_file option) \<Rightarrow> search_plan \<Rightarrow> string \<Rightarrow> ranked_hit list" where
  "rank_semantic_hits hits catalog plan model = rank_semantic_from catalog plan model {} [] hits"

section \<open>Fusion\<close>

record fused_hit =
  fh_hit :: search_hit
  fh_best_rank :: nat
  fh_source_set :: "hit_source set"

definition new_fused :: "ranked_hit \<Rightarrow> fused_hit" where
  "new_fused c = \<lparr>fh_hit = \<lparr>ht_file_id = f_id (rh_file c), ht_path = f_path (rh_file c), ht_kind = f_kind (rh_file c),
       ht_score = 0, ht_sources = [], ht_snippet = [], ht_frame_ts = None, ht_status = f_status (rh_file c)\<rparr>,
     fh_best_rank = rh_rank c, fh_source_set = {}\<rparr>"

definition reciprocal_rank :: "nat \<Rightarrow> rat" where
  "reciprocal_rank r = 1 / of_nat (rrf_rank_constant + r)"

definition fuse_into :: "ranked_hit \<Rightarrow> fused_hit \<Rightarrow> fused_hit" where
  "fuse_into c item =
     (let h = fh_hit item;
          h = h\<lparr>ht_score := ht_score h + reciprocal_rank (rh_rank c)\<rparr>;
          h = (if rh_source c = SourceContent \<and> ht_snippet h = [] then h\<lparr>ht_snippet := rh_snippet c\<rparr> else h);
          h = (if rh_source c = SourceSemantic then h\<lparr>ht_frame_ts := rh_frame_ts c\<rparr> else h)
      in \<lparr>fh_hit = h, fh_best_rank = (if rh_rank c < fh_best_rank item then rh_rank c else fh_best_rank item),
          fh_source_set = insert (rh_source c) (fh_source_set item)\<rparr>)"

text \<open>The map \<open>fused\<close> as the list of its entries; each file has one.\<close>

fun add_candidate :: "ranked_hit \<Rightarrow> fused_hit list \<Rightarrow> fused_hit list" where
  "add_candidate c [] = [fuse_into c (new_fused c)]"
| "add_candidate c (i # is) =
     (if ht_file_id (fh_hit i) = f_id (rh_file c) then fuse_into c i # is else i # add_candidate c is)"

definition with_sources :: "fused_hit \<Rightarrow> search_hit" where
  "with_sources i = (fh_hit i)\<lparr>ht_sources :=
     filter (\<lambda>s. s \<in> fh_source_set i) [SourceContent, SourceNote, SourceSemantic]\<rparr>"

definition fusion_order :: "fused_hit \<Rightarrow> rat \<times> nat \<times> int" where
  "fusion_order i = (- ht_score (fh_hit i), fh_best_rank i, ht_file_id (fh_hit i))"

definition fuse_ranked_hits :: "ranked_hit list \<Rightarrow> ranked_hit list \<Rightarrow> int \<Rightarrow> search_hit list" where
  "fuse_ranked_hits keyword semantic top_k =
     map with_sources (take (nat top_k) (sort_key fusion_order (fold add_candidate (keyword @ semantic) [])))"

section \<open>One round of candidates\<close>

record candidate_round =
  cr_keyword :: "keyword_hit list"
  cr_semantic :: "vector_hit list"
  cr_embedding :: query_embedding
  cr_degraded :: bool

definition no_embedding :: query_embedding where
  "no_embedding = \<lparr>qe_values = [], qe_model = []\<rparr>"

definition keyword_route ::
    "'e search_backends \<Rightarrow> nat \<Rightarrow> string \<Rightarrow> int \<Rightarrow> 'e search_error + keyword_hit list" where
  "keyword_route b n query limit =
     (case sb_keyword b n query limit of
        Inl e \<Rightarrow> Inl (ErrKeywordRoute e)
      | Inr hits \<Rightarrow> map_sum id (\<lambda>_. take (nat limit) hits) (validate_keyword_hits (take (nat limit) hits)))"

text \<open>\<open>None\<close>: the route is degraded.\<close>

definition query_vector ::
    "'e search_backends \<Rightarrow> nat \<Rightarrow> string \<Rightarrow> query_embedding \<Rightarrow> bool \<Rightarrow> 'e search_error + query_embedding option" where
  "query_vector b n query embedding embed_query =
     (if \<not> embed_query then Inr (Some embedding)
      else case sb_embed b n query of
        Inl e \<Rightarrow>
          if sb_cancelled b (2 * n + 1) then Inl ErrSearchContext
          else if sb_unavailable b e then Inr None
          else Inl (ErrEmbedQuery e)
      | Inr q \<Rightarrow> map_sum id (\<lambda>_. Some q) (validate_query_embedding q))"

definition semantic_route ::
    "'e search_backends \<Rightarrow> nat \<Rightarrow> string \<Rightarrow> int \<Rightarrow> query_embedding \<Rightarrow> bool \<Rightarrow>
     'e search_error + (query_embedding \<times> vector_hit list) option" where
  "semantic_route b n query limit embedding embed_query =
     (case query_vector b n query embedding embed_query of
        Inl e \<Rightarrow> Inl e
      | Inr None \<Rightarrow> Inr None
      | Inr (Some q) \<Rightarrow>
          (case sb_semantic b n (qe_values q) (qe_model q) limit of
             Inl e \<Rightarrow> if sb_mismatch b e \<and> sb_unavailable b e then Inr None else Inl (ErrSemanticRoute e)
           | Inr hits \<Rightarrow> map_sum id (\<lambda>_. Some (q, take (nat limit) hits))
               (validate_vector_hits (take (nat limit) hits) (qe_model q))))"

definition search_candidate_round ::
    "'e search_backends \<Rightarrow> nat \<Rightarrow> string \<Rightarrow> int \<Rightarrow> bool \<Rightarrow> bool \<Rightarrow> query_embedding \<Rightarrow> bool \<Rightarrow>
     'e search_error + candidate_round" where
  "search_candidate_round b n query limit search_keyword search_semantic embedding embed_query =
     (case (if search_keyword then keyword_route b n query limit else Inr [],
            if search_semantic then map_sum id Some (semantic_route b n query limit embedding embed_query) else Inr None) of
        (Inl e, Inl e') \<Rightarrow> Inl (if sb_keyword_first b n then e else e')
      | (Inl e, Inr _) \<Rightarrow> Inl e
      | (Inr _, Inl e) \<Rightarrow> Inl e
      | (Inr hits, Inr r) \<Rightarrow> Inr (case r of
            None \<Rightarrow> \<lparr>cr_keyword = hits, cr_semantic = [], cr_embedding = no_embedding, cr_degraded = False\<rparr>
          | Some None \<Rightarrow> \<lparr>cr_keyword = hits, cr_semantic = [], cr_embedding = no_embedding, cr_degraded = True\<rparr>
          | Some (Some (q, vs)) \<Rightarrow> \<lparr>cr_keyword = hits, cr_semantic = vs, cr_embedding = q, cr_degraded = False\<rparr>))"

section \<open>The search\<close>

record search_state =
  ss_limit :: int
  ss_keyword_active :: bool
  ss_semantic_active :: bool
  ss_needs_embedding :: bool
  ss_embedding :: query_embedding
  ss_keyword_hits :: "keyword_hit list"
  ss_semantic_hits :: "vector_hit list"
  ss_degraded :: bool

definition initial_search :: "search_plan \<Rightarrow> search_state" where
  "initial_search plan = \<lparr>ss_limit = candidate_limit (pl_top_k plan), ss_keyword_active = uses_keyword (pl_mode plan),
     ss_semantic_active = uses_semantic (pl_mode plan), ss_needs_embedding = uses_semantic (pl_mode plan),
     ss_embedding = no_embedding, ss_keyword_hits = [], ss_semantic_hits = [], ss_degraded = False\<rparr>"

text \<open>The state after a round: the candidates the routes have returned so far.\<close>

definition take_round :: "candidate_round \<Rightarrow> search_state \<Rightarrow> search_state" where
  "take_round r s =
     (let s = (if ss_keyword_active s then s\<lparr>ss_keyword_hits := cr_keyword r\<rparr> else s);
          s = (if ss_semantic_active s
               then if cr_degraded r then s\<lparr>ss_degraded := True, ss_semantic_hits := []\<rparr>
                    else s\<lparr>ss_embedding := cr_embedding r, ss_semantic_hits := cr_semantic r\<rparr>
               else s)
      in s\<lparr>ss_needs_embedding := False\<rparr>)"

definition keyword_has_more :: "candidate_round \<Rightarrow> search_state \<Rightarrow> bool" where
  "keyword_has_more r s \<longleftrightarrow> ss_keyword_active s \<and> int (length (cr_keyword r)) = ss_limit s"

definition semantic_has_more :: "candidate_round \<Rightarrow> search_state \<Rightarrow> bool" where
  "semantic_has_more r s \<longleftrightarrow> ss_semantic_active s \<and> \<not> cr_degraded r \<and> int (length (cr_semantic r)) = ss_limit s"

definition fuse_with ::
    "search_plan \<Rightarrow> (int \<Rightarrow> catalog_file option) \<Rightarrow> keyword_hit list \<Rightarrow> vector_hit list \<Rightarrow> string \<Rightarrow> search_hit list" where
  "fuse_with plan catalog keyword semantic model =
     fuse_ranked_hits (rank_keyword_hits keyword catalog plan) (rank_semantic_hits semantic catalog plan model)
       (pl_top_k plan)"

definition catalog_hits ::
    "'e search_backends \<Rightarrow> search_plan \<Rightarrow> nat \<Rightarrow> search_state \<Rightarrow> 'e search_error + search_hit list" where
  "catalog_hits b plan n s =
     (let ids = collect_candidate_file_ids (ss_keyword_hits s) (ss_semantic_hits s) in
      if ids = [] then Inr []
      else case sb_catalog b n ids of
        Inl e \<Rightarrow> Inl (ErrLoadCatalog e)
      | Inr catalog \<Rightarrow> map_sum id
          (\<lambda>_. fuse_with plan catalog (ss_keyword_hits s) (ss_semantic_hits s) (qe_model (ss_embedding s)))
          (validate_catalog_response catalog ids))"

text \<open>One pass of the loop: \<open>Inl\<close> returns from \<open>Search\<close>, \<open>Inr\<close> goes on with the next round.\<close>

definition search_pass ::
    "'e search_backends \<Rightarrow> search_plan \<Rightarrow> nat \<Rightarrow> search_state \<Rightarrow> ('e search_error + search_response) + search_state" where
  "search_pass b plan n s0 =
     (case search_candidate_round b n (pl_query plan) (ss_limit s0) (ss_keyword_active s0) (ss_semantic_active s0)
             (ss_embedding s0) (ss_needs_embedding s0) of
        Inl e \<Rightarrow> Inl (Inl e)
      | Inr r \<Rightarrow>
          if sb_cancelled b (2 * n + 2) then Inl (Inl ErrSearchContext)
          else let s = take_round r s0; kmore = keyword_has_more r s0; smore = semantic_has_more r s0
          in case catalog_hits b plan n s of
            Inl e \<Rightarrow> Inl (Inl e)
          | Inr hits \<Rightarrow>
              (let response = \<lparr>rs_hits = hits, rs_degraded = ss_degraded s, rs_incomplete = False\<rparr>
               in if int (length hits) \<ge> pl_top_k plan then Inl (Inr response)
                  else if ss_limit s = max_search_top_k
                  then Inl (Inr (response\<lparr>rs_incomplete := kmore \<or> smore\<rparr>))
                  else if \<not> kmore \<and> \<not> smore then Inl (Inr response)
                  else Inr (s\<lparr>ss_keyword_active := kmore, ss_semantic_active := smore,
                              ss_limit := expanded_candidate_limit (ss_limit s)\<rparr>)))"

fun search_loop ::
    "nat \<Rightarrow> 'e search_backends \<Rightarrow> search_plan \<Rightarrow> nat \<Rightarrow> search_state \<Rightarrow> ('e search_error + search_response) option" where
  "search_loop 0 b plan n s = None"
| "search_loop (Suc k) b plan n s =
     (case search_pass b plan n s of Inl r \<Rightarrow> Some r | Inr s' \<Rightarrow> search_loop k b plan (n + 1) s')"

text \<open>The window doubles from at least 4 up to 1000: nine rounds are enough.\<close>

definition search_fuel :: nat where "search_fuel = 9"

definition search ::
    "'e search_backends \<Rightarrow> search_request \<Rightarrow> ('e search_error + search_response) option" where
  "search b request =
     (if sb_cancelled b 0 then Some (Inl ErrSearchContext)
      else case normalize_search_request request of
        Inl e \<Rightarrow> Some (Inl e)
      | Inr plan \<Rightarrow>
          (case require_mode_dependencies b (pl_mode plan) of
             Inl e \<Rightarrow> Some (Inl e)
           | Inr _ \<Rightarrow> search_loop search_fuel b plan 0 (initial_search plan)))"

end
