(* ===== verification/Search_Laws.thy ===== *)
theory Search_Laws
  imports Search
begin

text \<open>
  Laws of \<open>Search\<close>: both rankings number the eligible files in the order of their first candidates;
  the fusion is the list of these files with their reciprocal-rank scores; the window of the loop
  reaches its maximum within nine rounds.
\<close>

section \<open>Rankings\<close>

text \<open>The first candidate of each file.\<close>

fun firsts :: "('h \<Rightarrow> int) \<Rightarrow> 'h list \<Rightarrow> 'h list" where
  "firsts key [] = []"
| "firsts key (h # hs) = h # firsts key (filter (\<lambda>x. key x \<noteq> key h) hs)"

definition eligible_firsts :: "('h \<Rightarrow> int) \<Rightarrow> ('h \<Rightarrow> catalog_file option) \<Rightarrow> 'h list \<Rightarrow> ('h \<times> catalog_file) list" where
  "eligible_firsts key file hits = List.map_filter (\<lambda>h. map_option (Pair h) (file h)) (firsts key hits)"

lemma firsts_id: "key ` set (firsts key hs) = key ` set hs" "distinct (map key (firsts key hs))"
proof -
  have "key ` set (firsts key hs) = key ` set hs \<and> distinct (map key (firsts key hs))"
  proof (induction key hs rule: firsts.induct)
    case (2 key h hs)
    have "key ` set (filter (\<lambda>x. key x \<noteq> key h) hs) = key ` set hs - {key h}" by auto
    then show ?case using 2 by auto
  qed simp
  then show "key ` set (firsts key hs) = key ` set hs" "distinct (map key (firsts key hs))" by auto
qed

text \<open>The common shape of both rankings: \<open>mk\<close> builds the ranked hit from the number of hits before it.\<close>

fun rank_from ::
    "('h \<Rightarrow> int) \<Rightarrow> ('h \<Rightarrow> catalog_file option) \<Rightarrow> (nat \<Rightarrow> catalog_file \<Rightarrow> 'h \<Rightarrow> ranked_hit) \<Rightarrow> int set \<Rightarrow>
     ranked_hit list \<Rightarrow> 'h list \<Rightarrow> ranked_hit list" where
  "rank_from key file mk seen ranked [] = ranked"
| "rank_from key file mk seen ranked (h # hs) =
     (if key h \<in> seen then rank_from key file mk seen ranked hs
      else rank_from key file mk (insert (key h) seen)
        (case file h of None \<Rightarrow> ranked | Some f \<Rightarrow> ranked @ [mk (length ranked + 1) f h]) hs)"

lemma map_filter_Cons:
  "List.map_filter g (x # xs) = (case g x of None \<Rightarrow> List.map_filter g xs | Some y \<Rightarrow> y # List.map_filter g xs)"
  by (simp add: List.map_filter_def split: option.splits)

fun numbered :: "nat \<Rightarrow> (nat \<Rightarrow> catalog_file \<Rightarrow> 'h \<Rightarrow> ranked_hit) \<Rightarrow> ('h \<times> catalog_file) list \<Rightarrow> ranked_hit list" where
  "numbered n mk [] = []"
| "numbered n mk ((h, f) # xs) = mk n f h # numbered (Suc n) mk xs"

lemma rank_from_eq:
  "rank_from key file mk seen ranked hs =
     ranked @ numbered (length ranked + 1) mk (eligible_firsts key file (filter (\<lambda>x. key x \<notin> seen) hs))"
proof (induction hs arbitrary: seen ranked)
  case Nil
  then show ?case by (simp add: eligible_firsts_def List.map_filter_def)
next
  case (Cons h hs)
  show ?case
  proof (cases "key h \<in> seen")
    case False
    have f: "filter (\<lambda>x. key x \<notin> seen \<and> key x \<noteq> key h) hs = filter (\<lambda>x. key x \<notin> insert (key h) seen) hs"
      by (rule filter_cong) auto
    show ?thesis using False
      by (cases "file h") (simp_all add: Cons eligible_firsts_def f map_filter_Cons del: insert_iff)
  qed (simp add: Cons)
qed

definition keyword_file :: "(int \<Rightarrow> catalog_file option) \<Rightarrow> search_plan \<Rightarrow> keyword_hit \<Rightarrow> catalog_file option" where
  "keyword_file catalog plan h = (case catalog (kh_file_id h) of
     None \<Rightarrow> None | Some f \<Rightarrow> if matches_keyword_catalog plan f then Some f else None)"

definition semantic_file ::
    "(int \<Rightarrow> catalog_file option) \<Rightarrow> search_plan \<Rightarrow> string \<Rightarrow> vector_hit \<Rightarrow> catalog_file option" where
  "semantic_file catalog plan model h = (case catalog (vh_file_id h) of
     None \<Rightarrow> None | Some f \<Rightarrow> if matches_semantic_catalog plan model f then Some f else None)"

definition keyword_ranked :: "nat \<Rightarrow> catalog_file \<Rightarrow> keyword_hit \<Rightarrow> ranked_hit" where
  "keyword_ranked r f h = \<lparr>rh_file = f, rh_rank = r, rh_source = SourceContent,
     rh_snippet = (if f_status f = FileStatusIndexed then snippet (kh_content h) else []), rh_frame_ts = None\<rparr>"

definition semantic_ranked :: "nat \<Rightarrow> catalog_file \<Rightarrow> vector_hit \<Rightarrow> ranked_hit" where
  "semantic_ranked r f h = \<lparr>rh_file = f, rh_rank = r, rh_source = SourceSemantic, rh_snippet = [],
     rh_frame_ts = vh_frame_ts h\<rparr>"

lemma rank_keyword_from_eq:
  "rank_keyword_from catalog plan seen ranked hs =
     rank_from kh_file_id (keyword_file catalog plan) keyword_ranked seen ranked hs"
  by (induction catalog plan seen ranked hs rule: rank_keyword_from.induct)
    (auto simp: keyword_file_def keyword_ranked_def split: option.splits)

lemma rank_semantic_from_eq:
  "rank_semantic_from catalog plan model seen ranked hs =
     rank_from vh_file_id (semantic_file catalog plan model) semantic_ranked seen ranked hs"
  by (induction catalog plan model seen ranked hs rule: rank_semantic_from.induct)
    (auto simp: semantic_file_def semantic_ranked_def split: option.splits)

text \<open>The eligible files of a route in the order of its candidates; the rank of a file is its position.\<close>

definition keyword_files where
  "keyword_files catalog plan hits = eligible_firsts kh_file_id (keyword_file catalog plan) hits"

definition semantic_files where
  "semantic_files catalog plan model hits = eligible_firsts vh_file_id (semantic_file catalog plan model) hits"

lemma rank_keyword_hits_eq:
  "rank_keyword_hits hits catalog plan =
     numbered 1 keyword_ranked (keyword_files catalog plan hits)"
  by (simp add: rank_keyword_hits_def rank_keyword_from_eq rank_from_eq keyword_files_def)

lemma rank_semantic_hits_eq:
  "rank_semantic_hits hits catalog plan model =
     numbered 1 semantic_ranked (semantic_files catalog plan model hits)"
  by (simp add: rank_semantic_hits_def rank_semantic_from_eq rank_from_eq semantic_files_def)

lemma eligible_firsts_in:
  "(h, f) \<in> set (eligible_firsts key file hits) \<Longrightarrow> file h = Some f \<and> key h \<in> key ` set hits"
  using firsts_id(1)[of key hits] by (auto simp: eligible_firsts_def List.map_filter_def)

lemma eligible_ids_distinct:
  assumes "distinct (map key ys)" "\<And>h f. file h = Some f \<Longrightarrow> h \<in> set ys \<Longrightarrow> f_id f = key h"
  shows "distinct (map (\<lambda>(h, f). f_id f) (List.map_filter (\<lambda>h. map_option (Pair h) (file h)) ys)) \<and>
      (\<lambda>(h, f). f_id f) ` set (List.map_filter (\<lambda>h. map_option (Pair h) (file h)) ys) \<subseteq> key ` set ys"
  using assms
proof (induction ys)
  case (Cons y ys)
  then show ?case by (cases "file y") (auto simp: map_filter_Cons)
qed (simp add: List.map_filter_def)

lemma eligible_firsts_ids:
  assumes "\<And>h f. file h = Some f \<Longrightarrow> h \<in> set (firsts key hits) \<Longrightarrow> f_id f = key h"
  shows "distinct (map (\<lambda>(h, f). f_id f) (eligible_firsts key file hits))"
  using eligible_ids_distinct[of key "firsts key hits" "file"] firsts_id(2)[of key hits] assms by (simp add: eligible_firsts_def)

section \<open>Fusion\<close>

abbreviation item_id :: "fused_hit \<Rightarrow> int" where "item_id i \<equiv> ht_file_id (fh_hit i)"
abbreviation ranked_id :: "ranked_hit \<Rightarrow> int" where "ranked_id c \<equiv> f_id (rh_file c)"

lemma fuse_into_id [simp]: "item_id (fuse_into c i) = item_id i" "item_id (new_fused c) = ranked_id c"
  by (simp_all add: fuse_into_def new_fused_def Let_def)

definition fuse_found :: "ranked_hit list \<Rightarrow> fused_hit \<Rightarrow> fused_hit" where
  "fuse_found cs i = (case List.find (\<lambda>c. ranked_id c = item_id i) cs of None \<Rightarrow> i | Some c \<Rightarrow> fuse_into c i)"

lemma fuse_found_id [simp]: "item_id (fuse_found cs i) = item_id i"
  by (simp add: fuse_found_def split: option.splits)

lemma add_candidate_eq:
  assumes "distinct (map item_id items)"
  shows "add_candidate c items =
    (if ranked_id c \<in> item_id ` set items then map (\<lambda>i. if item_id i = ranked_id c then fuse_into c i else i) items
     else items @ [fuse_into c (new_fused c)])"
  using assms
proof (induction items)
  case (Cons i js)
  have "map (\<lambda>j. if item_id j = item_id i then fuse_into c j else j) js = js"
    using Cons.prems by (intro map_idI) (auto simp: image_iff)
  then show ?case using Cons by auto
qed simp

lemma fold_add_candidate:
  assumes "distinct (map ranked_id cs)" "distinct (map item_id items)"
  shows "fold add_candidate cs items =
    map (fuse_found cs) items @
    map (\<lambda>c. fuse_into c (new_fused c)) (filter (\<lambda>c. ranked_id c \<notin> item_id ` set items) cs)"
  using assms
proof (induction cs arbitrary: items)
  case Nil
  then show ?case by (simp add: fuse_found_def map_idI)
next
  case (Cons c cs)
  have "ranked_id c \<notin> ranked_id ` set cs" using Cons.prems(1) by simp
  then have c: "List.find (\<lambda>ca. ranked_id ca = ranked_id c) cs = None" "ranked_id c \<notin> ranked_id ` set cs"
    by (auto simp: find_None_iff image_iff)
  have found: "fuse_found cs (fuse_into c i) = fuse_found (c # cs) i" if "item_id i = ranked_id c" for i
    using c that by (simp add: fuse_found_def)
  have other: "fuse_found cs i = fuse_found (c # cs) i" if "item_id i \<noteq> ranked_id c" for i
    using that by (simp add: fuse_found_def)
  show ?case
  proof (cases "ranked_id c \<in> item_id ` set items")
    case True
    let ?items = "map (\<lambda>i. if item_id i = ranked_id c then fuse_into c i else i) items"
    have ids: "map item_id ?items = map item_id items" by simp
    then have "item_id ` set ?items = item_id ` set items" by (metis set_map)
    moreover have "map (fuse_found cs) ?items = map (fuse_found (c # cs)) items"
      using found other by simp
    ultimately show ?thesis
      using Cons.IH[of ?items] Cons.prems True ids by (simp add: add_candidate_eq del: map_map)
  next
    case False
    let ?new = "fuse_into c (new_fused c)"
    have "fuse_found cs ?new = ?new"
      using c by (simp add: fuse_found_def)
    moreover have "map (fuse_found cs) items = map (fuse_found (c # cs)) items"
      using False by (intro map_cong refl other) (auto simp: image_iff)
    moreover have "filter (\<lambda>x. ranked_id x \<notin> insert (ranked_id c) (item_id ` set items)) cs =
        filter (\<lambda>x. ranked_id x \<notin> item_id ` set items) cs"
      using c(2) by (intro filter_cong) (auto simp: image_iff)
    ultimately show ?thesis
      using Cons.IH[of "items @ [?new]"] Cons.prems False by (auto simp: add_candidate_eq)
  qed
qed

lemma fold_add_two:
  assumes "distinct (map ranked_id ks)" "distinct (map ranked_id ss)"
  shows "fold add_candidate (ks @ ss) [] =
    map (\<lambda>c. fuse_found ss (fuse_into c (new_fused c))) ks @
    map (\<lambda>c. fuse_into c (new_fused c)) (filter (\<lambda>c. ranked_id c \<notin> ranked_id ` set ks) ss)"
proof -
  have k: "fold add_candidate ks [] = map (\<lambda>c. fuse_into c (new_fused c)) ks"
    using fold_add_candidate[OF assms(1), of "[]"] by simp
  have "distinct (map item_id (map (\<lambda>c. fuse_into c (new_fused c)) ks))" using assms(1) by (simp add: comp_def)
  note s = fold_add_candidate[OF assms(2) this]
  have "item_id ` (\<lambda>c. fuse_into c (new_fused c)) ` set ks = ranked_id ` set ks" by (simp add: image_image)
  then show ?thesis using s by (simp add: k comp_def)
qed

text \<open>The reference: positions of a file in the two rankings.\<close>

fun position :: "int \<Rightarrow> int list \<Rightarrow> nat option" where
  "position i [] = None"
| "position i (x # xs) = (if x = i then Some 1 else map_option Suc (position i xs))"

definition rrf_score :: "int list \<Rightarrow> int list \<Rightarrow> int \<Rightarrow> rat" where
  "rrf_score ks ss i = (case position i ks of None \<Rightarrow> 0 | Some r \<Rightarrow> reciprocal_rank r) +
     (case position i ss of None \<Rightarrow> 0 | Some r \<Rightarrow> reciprocal_rank r)"

definition best_rank :: "int list \<Rightarrow> int list \<Rightarrow> int \<Rightarrow> nat" where
  "best_rank ks ss i = (case (position i ks, position i ss) of
     (Some r, Some r') \<Rightarrow> min r r' | (Some r, None) \<Rightarrow> r | (None, Some r) \<Rightarrow> r | (None, None) \<Rightarrow> 0)"

definition rrf_order :: "int list \<Rightarrow> int list \<Rightarrow> int \<Rightarrow> rat \<times> nat \<times> int" where
  "rrf_order ks ss i = (- rrf_score ks ss i, best_rank ks ss i, i)"

lemma position_None: "position i xs = None \<longleftrightarrow> i \<notin> set xs"
  by (induction xs) auto

definition numbered_ok :: "ranked_hit list \<Rightarrow> bool" where
  "numbered_ok rs \<longleftrightarrow> distinct (map ranked_id rs) \<and>
     (\<forall>c\<in>set rs. position (ranked_id c) (map ranked_id rs) = Some (rh_rank c))"

lemma numbered_position:
  assumes "distinct (map (\<lambda>(h, f). f_id f) xs)" "\<And>r f h. rh_rank (mk r f h) = r \<and> rh_file (mk r f h) = f"
  shows "numbered_ok (numbered 1 mk xs)" "map ranked_id (numbered 1 mk xs) = map (\<lambda>(h, f). f_id f) xs"
proof -
  have ids: "map ranked_id (numbered n mk ys) = map (\<lambda>(h, f). f_id f) ys" for n ys
    by (induction ys arbitrary: n) (auto simp: assms(2))
  have "c \<in> set (numbered (Suc n) mk xs) \<Longrightarrow>
      map_option (\<lambda>r. n + r) (position (ranked_id c) (map (\<lambda>(h, f). f_id f) xs)) = Some (rh_rank c)" for n c
    using assms(1)
  proof (induction xs arbitrary: n)
    case (Cons x xs)
    obtain h f where x: "x = (h, f)" by fastforce
    show ?case
    proof (cases "c = mk (Suc n) f h")
      case False
      then have c: "c \<in> set (numbered (Suc (Suc n)) mk xs)" using Cons.prems(1) x by simp
      have "map ranked_id (numbered (Suc (Suc n)) mk xs) = map (\<lambda>(h, f). f_id f) xs"
        by (rule ids)
      then have "ranked_id c \<in> set (map (\<lambda>(h, f). f_id f) xs)" using c by (metis image_eqI set_map)
      then have "ranked_id c \<noteq> f_id f" using Cons.prems(2) x by auto
      moreover have "map_option (\<lambda>r. Suc n + r) (position (ranked_id c) (map (\<lambda>(h, f). f_id f) xs)) = Some (rh_rank c)"
        by (rule Cons.IH[OF c]) (use Cons.prems(2) in simp)
      ultimately show ?thesis by (simp add: x option.map_comp comp_def)
    qed (simp add: x assms(2))
  qed simp
  from this[of _ 0] show "numbered_ok (numbered 1 mk xs)" using ids[of 1] assms(1)
    by (auto simp: numbered_ok_def option.map_id0[unfolded id_def])
  show "map ranked_id (numbered 1 mk xs) = map (\<lambda>(h, f). f_id f) xs" by (rule ids)
qed

lemma find_numbered:
  assumes "numbered_ok rs"
  shows "map_option rh_rank (List.find (\<lambda>c. ranked_id c = i) rs) = position i (map ranked_id rs)"
proof (cases "List.find (\<lambda>c. ranked_id c = i) rs")
  case None
  then have "i \<notin> set (map ranked_id rs)" by (auto simp: find_None_iff)
  then show ?thesis using None by (metis option.map_disc_iff position_None)
next
  case (Some c)
  then have "c \<in> set rs" "ranked_id c = i" by (auto simp: find_Some_iff)
  then show ?thesis using Some assms by (auto simp: numbered_ok_def)
qed

lemma sort_key_map:
  assumes "\<And>x. x \<in> set xs \<Longrightarrow> k' (f x) = k x"
  shows "sort_key k' (map f xs) = map f (sort_key k xs)"
  using assms
proof (induction xs)
  case (Cons x xs)
  have "insort_key k' (f x) (map f ys) = map f (insort_key k x ys)"
    if "\<forall>y\<in>set ys. k' (f y) = k y" "k' (f x) = k x" for ys
    using that by (induction ys) auto
  then show ?case using Cons by simp
qed simp

text \<open>What the item of one ranked hit, updated by the other route, holds.\<close>

lemma fused_first:
  "fusion_order (fuse_into c (new_fused c)) = (- reciprocal_rank (rh_rank c), rh_rank c, ranked_id c)"
  "fh_source_set (fuse_into c (new_fused c)) = {rh_source c}"
  "ht_path (fh_hit (fuse_into c (new_fused c))) = f_path (rh_file c)"
  "ht_kind (fh_hit (fuse_into c (new_fused c))) = f_kind (rh_file c)"
  "ht_status (fh_hit (fuse_into c (new_fused c))) = f_status (rh_file c)"
  by (simp_all add: fusion_order_def fuse_into_def new_fused_def Let_def)

lemma fused_both:
  "fusion_order (fuse_into d (fuse_into c (new_fused c))) =
     (- (reciprocal_rank (rh_rank c) + reciprocal_rank (rh_rank d)), min (rh_rank c) (rh_rank d), ranked_id c)"
  "fh_source_set (fuse_into d (fuse_into c (new_fused c))) = {rh_source c, rh_source d}"
  "ht_path (fh_hit (fuse_into d (fuse_into c (new_fused c)))) = f_path (rh_file c)"
  "ht_kind (fh_hit (fuse_into d (fuse_into c (new_fused c)))) = f_kind (rh_file c)"
  "ht_status (fh_hit (fuse_into d (fuse_into c (new_fused c)))) = f_status (rh_file c)"
  by (auto simp: fusion_order_def fuse_into_def new_fused_def Let_def min_def)

definition fused_items :: "ranked_hit list \<Rightarrow> ranked_hit list \<Rightarrow> fused_hit list" where
  "fused_items ks ss = fold add_candidate (ks @ ss) []"

definition item_of :: "ranked_hit list \<Rightarrow> ranked_hit list \<Rightarrow> ranked_hit \<Rightarrow> fused_hit \<Rightarrow> bool" where
  "item_of ks ss c i \<longleftrightarrow> item_id i = ranked_id c \<and>
     fusion_order i = rrf_order (map ranked_id ks) (map ranked_id ss) (ranked_id c) \<and>
     ht_path (fh_hit i) = f_path (rh_file c) \<and> ht_kind (fh_hit i) = f_kind (rh_file c) \<and>
     ht_status (fh_hit i) = f_status (rh_file c) \<and>
     fh_source_set i = (if ranked_id c \<in> ranked_id ` set ks then {SourceContent} else {}) \<union>
       (if ranked_id c \<in> ranked_id ` set ss then {SourceSemantic} else {})"

lemma fused_items_eq:
  assumes ks: "numbered_ok ks" "\<forall>c\<in>set ks. rh_source c = SourceContent"
    and ss: "numbered_ok ss" "\<forall>c\<in>set ss. rh_source c = SourceSemantic"
  shows "map item_id (fused_items ks ss) =
      map ranked_id ks @ filter (\<lambda>i. i \<notin> set (map ranked_id ks)) (map ranked_id ss)"
    and "i \<in> set (fused_items ks ss) \<Longrightarrow> \<exists>c\<in>set ks \<union> set ss. item_of ks ss c i"
proof -
  have d: "distinct (map ranked_id ks)" "distinct (map ranked_id ss)" using ks ss by (auto simp: numbered_ok_def)
  note eq = fold_add_two[OF d, folded fused_items_def]
  show "map item_id (fused_items ks ss) =
      map ranked_id ks @ filter (\<lambda>i. i \<notin> set (map ranked_id ks)) (map ranked_id ss)"
    unfolding eq by (simp add: filter_map comp_def)
  show "\<exists>c\<in>set ks \<union> set ss. item_of ks ss c i" if "i \<in> set (fused_items ks ss)"
  proof -
    from that consider (k) c where "c \<in> set ks" "i = fuse_found ss (fuse_into c (new_fused c))"
      | (s) c where "c \<in> set ss" "ranked_id c \<notin> ranked_id ` set ks" "i = fuse_into c (new_fused c)"
      unfolding eq by auto
    then show ?thesis
    proof cases
      case k
      have pk: "position (ranked_id c) (map ranked_id ks) = Some (rh_rank c)"
        using k(1) ks(1) by (simp add: numbered_ok_def)
      note ps = find_numbered[OF ss(1), of "ranked_id c"]
      have "item_of ks ss c i"
      proof (cases "List.find (\<lambda>d. ranked_id d = ranked_id c) ss")
        case None
        then have "position (ranked_id c) (map ranked_id ss) = None" using ps by simp
        moreover have "ranked_id c \<notin> ranked_id ` set ss" using None by (auto simp: find_None_iff image_iff)
        moreover have "ranked_id c \<in> ranked_id ` set ks" using k(1) by simp
        ultimately show ?thesis using None k pk ks(2)
          by (simp add: item_of_def fuse_found_def fused_first rrf_order_def rrf_score_def best_rank_def)
      next
        case (Some e)
        then have "position (ranked_id c) (map ranked_id ss) = Some (rh_rank e)" using ps by simp
        moreover have "e \<in> set ss" "ranked_id e = ranked_id c" using Some by (auto simp: find_Some_iff)
        moreover then have "ranked_id c \<in> ranked_id ` set ss" by (metis image_eqI)
        ultimately show ?thesis using Some k pk ks(2) ss(2)
          by (auto simp: item_of_def fuse_found_def fused_both rrf_order_def rrf_score_def best_rank_def)
      qed
      then show ?thesis using k(1) by blast
    next
      case s
      have "position (ranked_id c) (map ranked_id ks) = None" using s(2) by (simp add: position_None)
      moreover have "position (ranked_id c) (map ranked_id ss) = Some (rh_rank c)"
        using s(1) ss(1) by (simp add: numbered_ok_def)
      ultimately have "item_of ks ss c i" using s ss(2)
        by (simp add: item_of_def fused_first rrf_order_def rrf_score_def best_rank_def)
      then show ?thesis using s(1) by blast
    qed
  qed
qed

lemma fuse_ranked_reference:
  assumes ks: "numbered_ok ks" "\<forall>c\<in>set ks. rh_source c = SourceContent"
    and ss: "numbered_ok ss" "\<forall>c\<in>set ss. rh_source c = SourceSemantic"
  defines "kids \<equiv> map ranked_id ks" and "sids \<equiv> map ranked_id ss"
  shows "map (\<lambda>h. (ht_file_id h, ht_score h)) (fuse_ranked_hits ks ss k) =
    map (\<lambda>i. (i, rrf_score kids sids i))
      (take (nat k) (sort_key (rrf_order kids sids) (kids @ filter (\<lambda>i. i \<notin> set kids) sids)))"
proof -
  let ?items = "fused_items ks ss"
  have ord: "fusion_order i = rrf_order kids sids (item_id i)" if "i \<in> set ?items" for i
    using fused_items_eq(2)[OF ks ss that] unfolding item_of_def kids_def sids_def by auto
  have "sort_key (rrf_order kids sids) (map item_id ?items) = map item_id (sort_key fusion_order ?items)"
    by (rule sort_key_map) (simp add: ord)
  then have *: "take (nat k) (sort_key (rrf_order kids sids) (kids @ filter (\<lambda>i. i \<notin> set kids) sids)) =
      map item_id (take (nat k) (sort_key fusion_order ?items))"
    unfolding fused_items_eq(1)[OF ks ss, folded kids_def sids_def] by (simp add: take_map)
  have "ht_score (fh_hit i) = rrf_score kids sids (item_id i)" if "i \<in> set ?items" for i
    using ord[OF that] by (simp add: fusion_order_def rrf_order_def)
  then show ?thesis unfolding * fuse_ranked_hits_def fused_items_def[symmetric]
    by (auto simp: with_sources_def dest!: in_set_takeD)
qed

lemma fuse_ranked_fields:
  assumes "numbered_ok ks" "\<forall>c\<in>set ks. rh_source c = SourceContent"
    and "numbered_ok ss" "\<forall>c\<in>set ss. rh_source c = SourceSemantic"
    and "h \<in> set (fuse_ranked_hits ks ss k)"
  shows "\<exists>c\<in>set ks \<union> set ss. ht_file_id h = ranked_id c \<and> ht_path h = f_path (rh_file c) \<and>
    ht_kind h = f_kind (rh_file c) \<and> ht_status h = f_status (rh_file c) \<and>
    ht_sources h = (if ranked_id c \<in> ranked_id ` set ks then [SourceContent] else []) @
      (if ranked_id c \<in> ranked_id ` set ss then [SourceSemantic] else [])"
proof -
  obtain i where i: "i \<in> set (fused_items ks ss)" "h = with_sources i"
    using assms(5) by (auto simp: fuse_ranked_hits_def fused_items_def dest!: in_set_takeD)
  from fused_items_eq(2)[OF assms(1-4) i(1)] show ?thesis
    unfolding item_of_def i(2) with_sources_def by (auto split: if_splits)
qed

end
