(* ===== verification/Search_Properties.thy ===== *)
theory Search_Properties
  imports Search_Laws
begin

text \<open>
  What the search promises: it ends and returns distinct catalogued files that match the request, in the
  order of their reciprocal-rank scores; a short answer that is not marked incomplete is complete;
  and a search whose compute node is unavailable is the keyword search.
\<close>

section \<open>Fusion of the two routes\<close>

definition keyword_ids where
  "keyword_ids catalog plan kw = map (\<lambda>(h, f). f_id f) (keyword_files catalog plan kw)"

definition semantic_ids where
  "semantic_ids catalog plan model sem = map (\<lambda>(h, f). f_id f) (semantic_files catalog plan model sem)"


lemma validate_catalog_id:
  assumes "validate_catalog_response catalog ids = (Inr () :: 'e search_error + unit)" "i \<in> set ids" "catalog i = Some f"
  shows "f_id f = i"
  using assms by (force simp: validate_catalog_response_def list_all_iff split: if_splits)

lemma routes_numbered:
  assumes "validate_catalog_response catalog (collect_candidate_file_ids kw sem) = (Inr () :: 'e search_error + unit)"
  shows "numbered_ok (rank_keyword_hits kw catalog plan)" "numbered_ok (rank_semantic_hits sem catalog plan model)"
    and "map ranked_id (rank_keyword_hits kw catalog plan) = map (\<lambda>(h, f). f_id f) (keyword_files catalog plan kw)"
    and "map ranked_id (rank_semantic_hits sem catalog plan model) = map (\<lambda>(h, f). f_id f) (semantic_files catalog plan model sem)"
proof -
  have k: "distinct (map (\<lambda>(h, f). f_id f) (keyword_files catalog plan kw))"
    unfolding keyword_files_def
  proof (rule eligible_firsts_ids)
    fix h f assume h: "keyword_file catalog plan h = Some f" "h \<in> set (firsts kh_file_id kw)"
    then have "kh_file_id h \<in> kh_file_id ` set kw" using firsts_id(1)[of kh_file_id kw] by blast
    then show "f_id f = kh_file_id h" using h(1)
      by (intro validate_catalog_id[OF assms])
        (auto simp: collect_candidate_file_ids_def keyword_file_def split: option.splits if_splits)
  qed
  have s: "distinct (map (\<lambda>(h, f). f_id f) (semantic_files catalog plan model sem))"
    unfolding semantic_files_def
  proof (rule eligible_firsts_ids)
    fix h f assume h: "semantic_file catalog plan model h = Some f" "h \<in> set (firsts vh_file_id sem)"
    then have "vh_file_id h \<in> vh_file_id ` set sem" using firsts_id(1)[of vh_file_id sem] by blast
    then show "f_id f = vh_file_id h" using h(1)
      by (intro validate_catalog_id[OF assms])
        (auto simp: collect_candidate_file_ids_def semantic_file_def split: option.splits if_splits)
  qed
  have mk: "rh_rank (keyword_ranked r f h) = r \<and> rh_file (keyword_ranked r f h) = f"
      "rh_rank (semantic_ranked r f h') = r \<and> rh_file (semantic_ranked r f h') = f" for r f h h'
    by (simp_all add: keyword_ranked_def semantic_ranked_def)
  note K = numbered_position[OF k, of keyword_ranked, OF mk(1)] numbered_position[OF s, of semantic_ranked, OF mk(2)]
  show "numbered_ok (rank_keyword_hits kw catalog plan)" "numbered_ok (rank_semantic_hits sem catalog plan model)"
    "map ranked_id (rank_keyword_hits kw catalog plan) = map (\<lambda>(h, f). f_id f) (keyword_files catalog plan kw)"
    "map ranked_id (rank_semantic_hits sem catalog plan model) = map (\<lambda>(h, f). f_id f) (semantic_files catalog plan model sem)"
    using K unfolding rank_keyword_hits_eq rank_semantic_hits_eq by auto
qed

lemma numbered_in: "c \<in> set (numbered n mk xs) \<Longrightarrow> \<exists>r h f. (h, f) \<in> set xs \<and> c = mk r f h"
  by (induction n mk xs rule: numbered.induct) auto

lemma routes_sources:
  "c \<in> set (rank_keyword_hits kw catalog plan) \<Longrightarrow> rh_source c = SourceContent \<and>
     (\<exists>h. keyword_file catalog plan h = Some (rh_file c) \<and> kh_file_id h \<in> kh_file_id ` set kw)"
  "c \<in> set (rank_semantic_hits sem catalog plan model) \<Longrightarrow> rh_source c = SourceSemantic \<and>
     (\<exists>h. semantic_file catalog plan model h = Some (rh_file c) \<and> vh_file_id h \<in> vh_file_id ` set sem)"
  unfolding rank_keyword_hits_eq rank_semantic_hits_eq keyword_files_def semantic_files_def
  by (auto dest!: numbered_in eligible_firsts_in simp: keyword_ranked_def semantic_ranked_def)

lemma fusion_is_reciprocal_rank_ids:
  assumes "validate_catalog_response catalog (collect_candidate_file_ids kw sem) = (Inr () :: 'e search_error + unit)"
  shows "map (\<lambda>h. (ht_file_id h, ht_score h)) (fuse_with plan catalog kw sem model) =
    map (\<lambda>i. (i, rrf_score (keyword_ids catalog plan kw) (semantic_ids catalog plan model sem) i))
      (take (nat (pl_top_k plan)) (sort_key (rrf_order (keyword_ids catalog plan kw) (semantic_ids catalog plan model sem))
        (keyword_ids catalog plan kw @
         filter (\<lambda>i. i \<notin> set (keyword_ids catalog plan kw)) (semantic_ids catalog plan model sem))))"
proof -
  note n = routes_numbered(1)[OF assms(1), of plan] routes_numbered(2)[OF assms(1), of plan model]
    routes_numbered(3)[OF assms(1), of plan] routes_numbered(4)[OF assms(1), of plan model]
  have src: "\<forall>c\<in>set (rank_keyword_hits kw catalog plan). rh_source c = SourceContent"
    "\<forall>c\<in>set (rank_semantic_hits sem catalog plan model). rh_source c = SourceSemantic"
    using routes_sources by blast+
  show ?thesis unfolding fuse_with_def keyword_ids_def semantic_ids_def
    using fuse_ranked_reference[OF n(1) src(1) n(2) src(2), of "pl_top_k plan"] n(3,4) by simp
qed


lemma fuse_with_empty [simp]: "fuse_with plan catalog [] [] model = []"
  by (simp add: fuse_with_def rank_keyword_hits_def rank_semantic_hits_def fuse_ranked_hits_def)

lemma fuse_with_no_semantic: "fuse_with plan catalog kw [] model = fuse_with plan catalog kw [] model'"
  by (simp add: fuse_with_def rank_semantic_hits_def)

text \<open>A hit that answers the request: the row of the catalog it was built from.\<close>

definition answers :: "search_plan \<Rightarrow> string \<Rightarrow> (int \<Rightarrow> catalog_file option) \<Rightarrow> search_hit \<Rightarrow> bool" where
  "answers plan model catalog h \<longleftrightarrow> (case catalog (ht_file_id h) of
     None \<Rightarrow> False
   | Some f \<Rightarrow> ht_path h = f_path f \<and> ht_kind h = f_kind f \<and> ht_status h = f_status f \<and>
       matches_request_filters plan f \<and> ht_sources h \<noteq> [] \<and>
       (SourceContent \<in> set (ht_sources h) \<longrightarrow> f_status f \<in> {FileStatusIndexed, FileStatusFailed}) \<and>
       (SourceSemantic \<in> set (ht_sources h) \<longrightarrow> f_status f = FileStatusIndexed \<and> f_embed_model_version f = Some model))"

lemma fuse_with_answers:
  assumes "validate_catalog_response catalog (collect_candidate_file_ids kw sem) = (Inr () :: 'e search_error + unit)"
    and "h \<in> set (fuse_with plan catalog kw sem model)"
  shows "answers plan model catalog h"
proof -
  let ?ks = "rank_keyword_hits kw catalog plan" and ?ss = "rank_semantic_hits sem catalog plan model"
  note n = routes_numbered(1)[OF assms(1), of plan] routes_numbered(2)[OF assms(1), of plan model]
    routes_numbered(3)[OF assms(1), of plan] routes_numbered(4)[OF assms(1), of plan model]
  have src: "\<forall>c\<in>set ?ks. rh_source c = SourceContent" "\<forall>c\<in>set ?ss. rh_source c = SourceSemantic"
    using routes_sources by blast+
  have kf: "catalog (ranked_id c) = Some (rh_file c) \<and> matches_keyword_catalog plan (rh_file c)" if in_ks: "c \<in> set ?ks" for c
  proof -
    obtain h where h: "keyword_file catalog plan h = Some (rh_file c)" "kh_file_id h \<in> kh_file_id ` set kw"
      using routes_sources(1)[OF in_ks] by blast
    then have "catalog (kh_file_id h) = Some (rh_file c)" "matches_keyword_catalog plan (rh_file c)"
      by (auto simp: keyword_file_def split: option.splits if_splits)
    moreover have "kh_file_id h \<in> set (collect_candidate_file_ids kw sem)"
      using h(2) by (auto simp: collect_candidate_file_ids_def)
    ultimately show ?thesis using validate_catalog_id[OF assms(1)] by metis
  qed
  have sf: "catalog (ranked_id c) = Some (rh_file c) \<and> matches_semantic_catalog plan model (rh_file c)" if in_ss: "c \<in> set ?ss" for c
  proof -
    obtain h where h: "semantic_file catalog plan model h = Some (rh_file c)" "vh_file_id h \<in> vh_file_id ` set sem"
      using routes_sources(2)[OF in_ss] by blast
    then have "catalog (vh_file_id h) = Some (rh_file c)" "matches_semantic_catalog plan model (rh_file c)"
      by (auto simp: semantic_file_def split: option.splits if_splits)
    moreover have "vh_file_id h \<in> set (collect_candidate_file_ids kw sem)"
      using h(2) by (auto simp: collect_candidate_file_ids_def)
    ultimately show ?thesis using validate_catalog_id[OF assms(1)] by metis
  qed
  obtain c where c: "c \<in> set ?ks \<union> set ?ss" "ht_file_id h = ranked_id c" "ht_path h = f_path (rh_file c)"
      "ht_kind h = f_kind (rh_file c)" "ht_status h = f_status (rh_file c)"
      "ht_sources h = (if ranked_id c \<in> ranked_id ` set ?ks then [SourceContent] else []) @
        (if ranked_id c \<in> ranked_id ` set ?ss then [SourceSemantic] else [])"
    using fuse_ranked_fields[OF n(1) src(1) n(2) src(2)] assms(2) unfolding fuse_with_def by blast
  have cat: "catalog (ranked_id c) = Some (rh_file c)" using c(1) kf sf by blast
  have "matches_keyword_catalog plan (rh_file c)" if "ranked_id c \<in> ranked_id ` set ?ks"
    using that kf cat by (metis (no_types, lifting) image_iff option.inject)
  moreover have "matches_semantic_catalog plan model (rh_file c)" if "ranked_id c \<in> ranked_id ` set ?ss"
    using that sf cat by (metis (no_types, lifting) image_iff option.inject)
  ultimately show ?thesis using c cat
    by (auto simp: answers_def matches_keyword_catalog_def matches_semantic_catalog_def)
qed

lemma fuse_with_distinct:
  assumes "validate_catalog_response catalog (collect_candidate_file_ids kw sem) = (Inr () :: 'e search_error + unit)"
  shows "distinct (map ht_file_id (fuse_with plan catalog kw sem model))"
    and "length (fuse_with plan catalog kw sem model) \<le> nat (pl_top_k plan)"
proof -
  note n = routes_numbered(1)[OF assms, of plan] routes_numbered(2)[OF assms, of plan model]
    routes_numbered(3)[OF assms, of plan] routes_numbered(4)[OF assms, of plan model]
  let ?ks = "keyword_ids catalog plan kw"
  let ?ss = "semantic_ids catalog plan model sem"
  let ?order = "take (nat (pl_top_k plan)) (sort_key (rrf_order ?ks ?ss) (?ks @ filter (\<lambda>i. i \<notin> set ?ks) ?ss))"
  have "map fst (map (\<lambda>h. (ht_file_id h, ht_score h)) (fuse_with plan catalog kw sem model)) =
      map fst (map (\<lambda>i. (i, rrf_score ?ks ?ss i)) ?order)"
    by (rule arg_cong[OF fusion_is_reciprocal_rank_ids[OF assms]])
  then have "map ht_file_id (fuse_with plan catalog kw sem model) = ?order"
    by (simp only: map_map comp_def fst_conv map_ident)
  moreover have "distinct ?order" if "distinct ?ks" "distinct ?ss"
    using that by (intro distinct_take) auto
  moreover have "distinct ?ks" using n(1) unfolding numbered_ok_def n(3) keyword_ids_def by blast
  moreover have "distinct ?ss" using n(2) unfolding numbered_ok_def n(4) semantic_ids_def by blast
  ultimately show "distinct (map ht_file_id (fuse_with plan catalog kw sem model))" by simp
  show "length (fuse_with plan catalog kw sem model) \<le> nat (pl_top_k plan)"
    by (simp add: fuse_with_def fuse_ranked_hits_def)
qed

section \<open>The loop\<close>

lemma candidate_limit_range: "1 \<le> k \<Longrightarrow> k \<le> max_search_top_k \<Longrightarrow> 4 \<le> candidate_limit k \<and> candidate_limit k \<le> max_search_top_k"
  by (simp add: candidate_limit_def max_search_top_k_def overfetch_multiple_def)

lemma expanded_limit_range:
  "4 \<le> l \<Longrightarrow> l < max_search_top_k \<Longrightarrow> l < expanded_candidate_limit l \<and> expanded_candidate_limit l \<le> max_search_top_k \<and>
     (expanded_candidate_limit l = max_search_top_k \<or> expanded_candidate_limit l = 2 * l)"
  by (auto simp: expanded_candidate_limit_def max_search_top_k_def)

lemma take_round_simps [simp]:
  "ss_limit (take_round r s) = ss_limit s" "ss_needs_embedding (take_round r s) = False"
  "ss_keyword_active (take_round r s) = ss_keyword_active s" "ss_semantic_active (take_round r s) = ss_semantic_active s"
  "ss_keyword_hits (take_round r s) = (if ss_keyword_active s then cr_keyword r else ss_keyword_hits s)"
  "ss_semantic_hits (take_round r s) =
     (if ss_semantic_active s then if cr_degraded r then [] else cr_semantic r else ss_semantic_hits s)"
  "ss_embedding (take_round r s) = (if ss_semantic_active s \<and> \<not> cr_degraded r then cr_embedding r else ss_embedding s)"
  "ss_degraded (take_round r s) \<longleftrightarrow> ss_degraded s \<or> ss_semantic_active s \<and> cr_degraded r"
  by (simp_all add: take_round_def Let_def)

text \<open>What a pass that goes on, or returns a response, has done.\<close>

lemma search_pass_cases:
  assumes "search_pass b plan n s = r"
  obtains (err) e where "r = Inl (Inl e)"
  | (answer) c hits where "search_candidate_round b n (pl_query plan) (ss_limit s) (ss_keyword_active s) (ss_semantic_active s)
        (ss_embedding s) (ss_needs_embedding s) = Inr c" "catalog_hits b plan n (take_round c s) = Inr hits"
      "int (length hits) \<ge> pl_top_k plan \<or> ss_limit s = max_search_top_k \<or> \<not> keyword_has_more c s \<and> \<not> semantic_has_more c s"
      "r = Inl (Inr \<lparr>rs_hits = hits, rs_degraded = ss_degraded (take_round c s),
        rs_incomplete = (int (length hits) < pl_top_k plan \<and> (keyword_has_more c s \<or> semantic_has_more c s))\<rparr>)"
  | (more) c hits where "search_candidate_round b n (pl_query plan) (ss_limit s) (ss_keyword_active s) (ss_semantic_active s)
        (ss_embedding s) (ss_needs_embedding s) = Inr c" "catalog_hits b plan n (take_round c s) = Inr hits"
      "ss_limit s \<noteq> max_search_top_k" "keyword_has_more c s \<or> semantic_has_more c s"
      "r = Inr ((take_round c s)\<lparr>ss_keyword_active := keyword_has_more c s, ss_semantic_active := semantic_has_more c s,
        ss_limit := expanded_candidate_limit (ss_limit s)\<rparr>)"
proof (cases "search_candidate_round b n (pl_query plan) (ss_limit s) (ss_keyword_active s) (ss_semantic_active s)
        (ss_embedding s) (ss_needs_embedding s)")
  case (Inl e)
  show ?thesis by (rule err[of e]) (use assms Inl in \<open>simp add: search_pass_def\<close>)
next
  case (Inr c)
  show ?thesis
  proof (cases "sb_cancelled b (2 * n + 2)")
    case False
    show ?thesis
    proof (cases "catalog_hits b plan n (take_round c s)")
      case (Inl e)
      show ?thesis by (rule err[of e]) (use assms Inl Inr False in \<open>simp add: search_pass_def Let_def\<close>)
    next
      case hits: (Inr hits)
      show ?thesis
      proof (cases "int (length hits) \<ge> pl_top_k plan \<or> ss_limit s = max_search_top_k \<or> \<not> keyword_has_more c s \<and> \<not> semantic_has_more c s")
        case True
        show ?thesis
          by (rule answer[OF Inr hits True])
            (use assms Inr False hits True in \<open>auto simp: search_pass_def Let_def\<close>)
      next
        case False': False
        show ?thesis
          by (rule more[OF Inr hits])
            (use assms Inr False hits False' in \<open>auto simp: search_pass_def Let_def\<close>)
      qed
    qed
  next
    case True
    show ?thesis by (rule err[of ErrSearchContext]) (use assms Inr True in \<open>simp add: search_pass_def\<close>)
  qed
qed

lemma search_loop_ends:
  assumes "4 \<le> ss_limit s" "ss_limit s \<le> max_search_top_k" "max_search_top_k \<le> ss_limit s * 2 ^ k"
  shows "\<exists>r. search_loop (Suc k) b plan n s = Some r"
  using assms
proof (induction k arbitrary: n s)
  case 0
  have "\<exists>r. search_pass b plan n s = Inl r"
    by (rule search_pass_cases[OF refl, of b plan n s]) (use 0 in auto)
  then show ?case by auto
next
  case (Suc k)
  show ?case
  proof (rule search_pass_cases[OF refl, of b plan n s])
    fix c assume m: "ss_limit s \<noteq> max_search_top_k" "search_pass b plan n s =
      Inr ((take_round c s)\<lparr>ss_keyword_active := keyword_has_more c s, ss_semantic_active := semantic_has_more c s,
        ss_limit := expanded_candidate_limit (ss_limit s)\<rparr>)"
    let ?s = "(take_round c s)\<lparr>ss_keyword_active := keyword_has_more c s, ss_semantic_active := semantic_has_more c s,
        ss_limit := expanded_candidate_limit (ss_limit s)\<rparr>"
    note l = expanded_limit_range[of "ss_limit s"]
    have "max_search_top_k * 1 \<le> max_search_top_k * 2 ^ k" by (rule mult_left_mono) (auto simp: max_search_top_k_def)
    then have "\<exists>r. search_loop (Suc k) b plan (n + 1) ?s = Some r"
      using m(1) Suc.prems l by (intro Suc.IH) (auto simp: mult.assoc)
    then show ?thesis using m(2) by simp
  qed auto
qed

lemma normalized_plan:
  "normalize_search_request request = Inr plan \<Longrightarrow> 1 \<le> pl_top_k plan \<and> pl_top_k plan \<le> max_search_top_k"
  by (auto simp: normalize_search_request_def Let_def split: if_splits)

lemma search_ends: "\<exists>r. search b request = Some r"
proof (cases "normalize_search_request request :: 'a search_error + search_plan")
  case (Inr plan)
  have "4 \<le> ss_limit (initial_search plan) \<and> ss_limit (initial_search plan) \<le> max_search_top_k"
    using candidate_limit_range normalized_plan[OF Inr] by (simp add: initial_search_def)
  then have "\<exists>r. search_loop (Suc 8) b plan 0 (initial_search plan) = Some r"
    by (intro search_loop_ends) (auto simp: max_search_top_k_def)
  then show ?thesis using Inr
    by (cases "require_mode_dependencies b (pl_mode plan)") (auto simp: search_def search_fuel_def numeral_eq_Suc)
qed (simp add: search_def)

lemma catalog_hits_cases:
  assumes "catalog_hits b plan n s = Inr hits"
  shows "hits = [] \<and> ss_keyword_hits s = [] \<and> ss_semantic_hits s = [] \<or>
    (\<exists>catalog. sb_catalog b n (collect_candidate_file_ids (ss_keyword_hits s) (ss_semantic_hits s)) = Inr catalog \<and>
      validate_catalog_response catalog (collect_candidate_file_ids (ss_keyword_hits s) (ss_semantic_hits s)) =
        (Inr () :: 'e search_error + unit) \<and>
      hits = fuse_with plan catalog (ss_keyword_hits s) (ss_semantic_hits s) (qe_model (ss_embedding s)))"
proof -
  have e: "collect_candidate_file_ids kw sem = [] \<longleftrightarrow> kw = [] \<and> sem = []" for kw sem
    by (simp add: collect_candidate_file_ids_def flip: set_empty)
  show ?thesis using assms
    by (cases "sb_catalog b n (collect_candidate_file_ids (ss_keyword_hits s) (ss_semantic_hits s))")
      (auto simp: catalog_hits_def Let_def e validate_catalog_response_def split: if_splits)
qed

lemma search_loop_answer:
  assumes "search_loop k b plan n s = Some (Inr resp)"
  shows "\<exists>n s. catalog_hits b plan n s = Inr (rs_hits resp)"
  using assms
proof (induction k arbitrary: n s)
  case (Suc k)
  show ?case
  proof (rule search_pass_cases[OF refl, of b plan n s])
    fix c hits
    assume "catalog_hits b plan n (take_round c s) = Inr hits"
      "search_pass b plan n s = Inl (Inr \<lparr>rs_hits = hits, rs_degraded = ss_degraded (take_round c s),
        rs_incomplete = (int (length hits) < pl_top_k plan \<and> (keyword_has_more c s \<or> semantic_has_more c s))\<rparr>)"
    then have "catalog_hits b plan n (take_round c s) = Inr (rs_hits resp)" using Suc.prems by auto
    then show ?case by blast
  qed (use Suc in auto)
qed simp

text \<open>C24: Searching ends, and every hit answers the request.  For every behaviour of the backends
  \<open>Search\<close> returns after at most nine rounds; a successful answer has at most \<open>top_k\<close> hits of distinct
  files, and all of them come from one reading of the catalog, in which the file has the path, kind and
  status of the hit, passes the filters and has a status (and model) its sources allow.\<close>

theorem search_ends_with_matching_hits:
  "\<exists>r. search (b :: 'e search_backends) request = Some r \<and> (\<forall>resp. r = Inr resp \<longrightarrow>
     (\<exists>plan model catalog n ids. normalize_search_request request = (Inr plan :: 'e search_error + search_plan) \<and>
        int (length (rs_hits resp)) \<le> pl_top_k plan \<and> distinct (map ht_file_id (rs_hits resp)) \<and>
        (rs_hits resp = [] \<or>
          sb_catalog b n ids = Inr catalog \<and> list_all (answers plan model catalog) (rs_hits resp))))"
proof -
  obtain r where r: "search b request = Some r" using search_ends by blast
  have "\<exists>plan model catalog n ids. normalize_search_request request = (Inr plan :: 'e search_error + search_plan) \<and>
        int (length (rs_hits resp)) \<le> pl_top_k plan \<and> distinct (map ht_file_id (rs_hits resp)) \<and>
        (rs_hits resp = [] \<or>
          sb_catalog b n ids = Inr catalog \<and> list_all (answers plan model catalog) (rs_hits resp))"
    if resp: "r = Inr resp" for resp
  proof -
    obtain plan where plan: "normalize_search_request request = (Inr plan :: 'e search_error + search_plan)"
      and loop: "search_loop search_fuel b plan 0 (initial_search plan) = Some (Inr resp)"
    proof (cases "normalize_search_request request :: 'e search_error + search_plan")
      case (Inr plan)
      then show thesis using r resp that[of plan]
        by (cases "require_mode_dependencies b (pl_mode plan)") (auto simp: search_def split: if_splits)
    qed (use r resp in \<open>auto simp: search_def split: if_splits\<close>)
    have k: "1 \<le> pl_top_k plan" using normalized_plan[OF plan] by simp
    obtain n s where hits: "catalog_hits b plan n s = Inr (rs_hits resp)"
      using search_loop_answer[OF loop] by blast
    let ?ids = "collect_candidate_file_ids (ss_keyword_hits s) (ss_semantic_hits s)"
    from catalog_hits_cases[OF hits, where 'e = unit] show ?thesis
    proof
      assume "rs_hits resp = [] \<and> ss_keyword_hits s = [] \<and> ss_semantic_hits s = []"
      then show ?thesis using plan k by auto
    next
      assume "\<exists>catalog. sb_catalog b n ?ids = Inr catalog \<and>
        validate_catalog_response catalog ?ids = (Inr () :: unit search_error + unit) \<and>
        rs_hits resp = fuse_with plan catalog (ss_keyword_hits s) (ss_semantic_hits s) (qe_model (ss_embedding s))"
      then obtain catalog where c: "sb_catalog b n ?ids = Inr catalog"
        "validate_catalog_response catalog ?ids = (Inr () :: unit search_error + unit)"
        "rs_hits resp = fuse_with plan catalog (ss_keyword_hits s) (ss_semantic_hits s) (qe_model (ss_embedding s))"
        by blast
      have "int (length (rs_hits resp)) \<le> pl_top_k plan"
        using fuse_with_distinct(2)[OF c(2), of plan "qe_model (ss_embedding s)"] c(3) k by simp
      moreover have "distinct (map ht_file_id (rs_hits resp))" using fuse_with_distinct(1)[OF c(2)] c(3) by simp
      moreover have "list_all (answers plan (qe_model (ss_embedding s)) catalog) (rs_hits resp)"
        using fuse_with_answers[OF c(2)] c(3) by (simp add: list_all_iff)
      ultimately show ?thesis using plan c(1) by blast
    qed
  qed
  then show ?thesis using r by blast
qed

section \<open>Complete answers\<close>

text \<open>Backends whose answers do not change during a search: each route returns the beginning of a ranking.\<close>

definition steady ::
    "'e search_backends \<Rightarrow> keyword_hit list \<Rightarrow> vector_hit list \<Rightarrow> query_embedding \<Rightarrow> (int \<Rightarrow> catalog_file option) \<Rightarrow> bool" where
  "steady b kw sem q catalog \<longleftrightarrow>
     sb_keyword b = (\<lambda>n query limit. Inr (take (nat limit) kw)) \<and>
     sb_semantic b = (\<lambda>n values model limit. Inr (take (nat limit) sem)) \<and>
     sb_embed b = (\<lambda>n query. Inr q) \<and> sb_catalog b = (\<lambda>n ids. Inr catalog)"

definition ranking_of :: "bool \<Rightarrow> 'h list \<Rightarrow> 'h list" where "ranking_of used hits = (if used then hits else [])"

lemma ranking_of_simps [simp]: "ranking_of True hits = hits" "ranking_of False hits = []"
  by (simp_all add: ranking_of_def)

definition steady_state ::
    "search_plan \<Rightarrow> keyword_hit list \<Rightarrow> vector_hit list \<Rightarrow> query_embedding \<Rightarrow> search_state \<Rightarrow> bool" where
  "steady_state plan kw sem q s \<longleftrightarrow> 4 \<le> ss_limit s \<and> ss_limit s \<le> max_search_top_k \<and> \<not> ss_degraded s \<and>
     (ss_keyword_active s \<longrightarrow> uses_keyword (pl_mode plan)) \<and> (ss_semantic_active s \<longrightarrow> uses_semantic (pl_mode plan)) \<and>
     (\<not> ss_keyword_active s \<longrightarrow> ss_keyword_hits s = ranking_of (uses_keyword (pl_mode plan)) kw) \<and>
     (\<not> ss_semantic_active s \<longrightarrow> ss_semantic_hits s = ranking_of (uses_semantic (pl_mode plan)) sem) \<and>
     (uses_semantic (pl_mode plan) \<longrightarrow> ss_needs_embedding s \<and> ss_semantic_active s \<or> ss_embedding s = q)"

lemma validate_keyword_unit: "validate_keyword_hits hits = Inr u \<or> (\<exists>e. validate_keyword_hits hits = Inl e)"
  by (simp add: validate_keyword_hits_def)

lemma steady_keyword_route:
  assumes "steady b kw sem q catalog" "keyword_route b n query limit = Inr hits"
  shows "hits = take (nat limit) kw"
  using assms by (auto simp: keyword_route_def steady_def validate_keyword_hits_def split: if_splits)

lemma steady_semantic_route:
  assumes "steady b kw sem q catalog" "semantic_route b n query limit embedding needs = Inr r" "needs \<or> embedding = q"
  shows "r = Some (q, take (nat limit) sem)"
proof -
  have "query_vector b n query embedding needs = Inr v \<Longrightarrow> v = Some q" for v
    using assms(1,3) by (auto simp: query_vector_def steady_def validate_query_embedding_def split: if_splits)
  moreover have "sb_semantic b = (\<lambda>n values model limit. Inr (take (nat limit) sem))" using assms(1) by (simp add: steady_def)
  ultimately show ?thesis using assms(2)
    by (auto simp: semantic_route_def validate_vector_hits_def split: sum.splits option.splits if_splits)
qed

lemma candidate_round_cases:
  assumes "search_candidate_round b n query limit kact sact embedding needs = Inr c"
  shows "kact \<Longrightarrow> keyword_route b n query limit = Inr (cr_keyword c)"
    and "sact \<Longrightarrow> semantic_route b n query limit embedding needs =
      Inr (if cr_degraded c then None else Some (cr_embedding c, cr_semantic c))"
    and "\<not> sact \<Longrightarrow> \<not> cr_degraded c"
proof -
  let ?s = "semantic_route b n query limit embedding needs"
  show "keyword_route b n query limit = Inr (cr_keyword c)" if kact
    using assms that by (cases "keyword_route b n query limit"; cases ?s; cases sact)
      (auto simp: search_candidate_round_def split: option.splits prod.splits)
  show "?s = Inr (if cr_degraded c then None else Some (cr_embedding c, cr_semantic c))" if sact
    using assms that by (cases "keyword_route b n query limit"; cases ?s; cases kact)
      (auto simp: search_candidate_round_def split: option.splits prod.splits)
  show "\<not> cr_degraded c" if "\<not> sact"
    using assms that by (cases "keyword_route b n query limit"; cases kact)
      (auto simp: search_candidate_round_def split: option.splits prod.splits)
qed

lemma steady_round:
  assumes "steady b kw sem q catalog" "steady_state plan kw sem q s"
    and "search_candidate_round b n (pl_query plan) (ss_limit s) (ss_keyword_active s) (ss_semantic_active s)
        (ss_embedding s) (ss_needs_embedding s) = Inr c"
  shows "(ss_keyword_active s \<longrightarrow> cr_keyword c = take (nat (ss_limit s)) kw) \<and> \<not> cr_degraded c \<and>
    (ss_semantic_active s \<longrightarrow> cr_semantic c = take (nat (ss_limit s)) sem \<and> cr_embedding c = q)"
proof -
  note r = candidate_round_cases[OF assms(3)]
  have "(if cr_degraded c then None else Some (cr_embedding c, cr_semantic c)) = Some (q, take (nat (ss_limit s)) sem)"
    if "ss_semantic_active s"
    by (rule steady_semantic_route[OF assms(1) r(2)[OF that]])
      (use assms(2) that in \<open>auto simp: steady_state_def\<close>)
  then show ?thesis using steady_keyword_route[OF assms(1) r(1)] r(3)
    by (cases "ss_semantic_active s") (auto split: if_splits)
qed

lemma steady_after:
  assumes "steady b kw sem q catalog" "steady_state plan kw sem q s"
    and "search_candidate_round b n (pl_query plan) (ss_limit s) (ss_keyword_active s) (ss_semantic_active s)
        (ss_embedding s) (ss_needs_embedding s) = Inr c"
  shows "\<not> ss_degraded (take_round c s) \<and> (uses_semantic (pl_mode plan) \<longrightarrow> ss_embedding (take_round c s) = q) \<and>
    (\<not> keyword_has_more c s \<longrightarrow> ss_keyword_hits (take_round c s) = ranking_of (uses_keyword (pl_mode plan)) kw) \<and>
    (\<not> semantic_has_more c s \<longrightarrow> ss_semantic_hits (take_round c s) = ranking_of (uses_semantic (pl_mode plan)) sem) \<and>
    (keyword_has_more c s \<longrightarrow> uses_keyword (pl_mode plan) \<and> ss_limit s \<le> int (length kw)) \<and>
    (semantic_has_more c s \<longrightarrow> uses_semantic (pl_mode plan) \<and> ss_limit s \<le> int (length sem))"
proof -
  note r = steady_round[OF assms]
  have st: "4 \<le> ss_limit s" "\<not> ss_degraded s" "ss_keyword_active s \<longrightarrow> uses_keyword (pl_mode plan)"
    "ss_semantic_active s \<longrightarrow> uses_semantic (pl_mode plan)"
    "\<not> ss_keyword_active s \<longrightarrow> ss_keyword_hits s = ranking_of (uses_keyword (pl_mode plan)) kw"
    "\<not> ss_semantic_active s \<longrightarrow> ss_semantic_hits s = ranking_of (uses_semantic (pl_mode plan)) sem"
    "uses_semantic (pl_mode plan) \<longrightarrow> ss_semantic_active s \<or> ss_embedding s = q"
    using assms(2) unfolding steady_state_def by blast+
  have k: "take (nat (ss_limit s)) kw = kw" if "int (length (take (nat (ss_limit s)) kw)) \<noteq> ss_limit s"
    using that st(1) by (auto simp: min_def split: if_splits)
  have v: "take (nat (ss_limit s)) sem = sem" if "int (length (take (nat (ss_limit s)) sem)) \<noteq> ss_limit s"
    using that st(1) by (auto simp: min_def split: if_splits)
  have kl: "ss_limit s \<le> int (length kw)" if "int (length (take (nat (ss_limit s)) kw)) = ss_limit s"
    using that st(1) by (auto simp: min_def split: if_splits)
  have vl: "ss_limit s \<le> int (length sem)" if "int (length (take (nat (ss_limit s)) sem)) = ss_limit s"
    using that st(1) by (auto simp: min_def split: if_splits)
  have "\<not> keyword_has_more c s \<longrightarrow> ss_keyword_hits (take_round c s) = ranking_of (uses_keyword (pl_mode plan)) kw"
    "keyword_has_more c s \<longrightarrow> uses_keyword (pl_mode plan) \<and> ss_limit s \<le> int (length kw)"
    using r st(3,5) k kl by (cases "ss_keyword_active s"; simp add: keyword_has_more_def)+
  moreover have "\<not> semantic_has_more c s \<longrightarrow> ss_semantic_hits (take_round c s) = ranking_of (uses_semantic (pl_mode plan)) sem"
    "semantic_has_more c s \<longrightarrow> uses_semantic (pl_mode plan) \<and> ss_limit s \<le> int (length sem)"
    using r st(4,6) v vl by (cases "ss_semantic_active s"; simp add: semantic_has_more_def)+
  moreover have "\<not> ss_degraded (take_round c s)" using r st(2) by simp
  moreover have "uses_semantic (pl_mode plan) \<longrightarrow> ss_embedding (take_round c s) = q" using r st(7) by auto
  ultimately show ?thesis by blast
qed

lemma steady_loop:
  assumes "steady b kw sem q catalog" "steady_state plan kw sem q s" "search_loop k b plan n s = Some (Inr resp)"
  shows "\<not> rs_degraded resp \<and> (if rs_incomplete resp then int (length (rs_hits resp)) < pl_top_k plan \<and>
      (uses_keyword (pl_mode plan) \<and> max_search_top_k \<le> int (length kw) \<or>
       uses_semantic (pl_mode plan) \<and> max_search_top_k \<le> int (length sem))
    else pl_top_k plan \<le> int (length (rs_hits resp)) \<or>
      rs_hits resp = fuse_with plan catalog (ranking_of (uses_keyword (pl_mode plan)) kw)
        (ranking_of (uses_semantic (pl_mode plan)) sem) (qe_model q))"
  using assms(2,3)
proof (induction k arbitrary: n s)
  case (Suc k)
  show ?case
  proof (rule search_pass_cases[OF refl, of b plan n s])
    fix c hits
    let ?s = "take_round c s"
    assume c: "search_candidate_round b n (pl_query plan) (ss_limit s) (ss_keyword_active s) (ss_semantic_active s)
        (ss_embedding s) (ss_needs_embedding s) = Inr c" and hits: "catalog_hits b plan n ?s = Inr hits"
      and fin: "int (length hits) \<ge> pl_top_k plan \<or> ss_limit s = max_search_top_k \<or> \<not> keyword_has_more c s \<and> \<not> semantic_has_more c s"
      and r: "search_pass b plan n s = Inl (Inr \<lparr>rs_hits = hits, rs_degraded = ss_degraded ?s,
        rs_incomplete = (int (length hits) < pl_top_k plan \<and> (keyword_has_more c s \<or> semantic_has_more c s))\<rparr>)"
    note a = steady_after[OF assms(1) Suc.prems(1) c]
    have full: "hits = fuse_with plan catalog (ss_keyword_hits ?s) (ss_semantic_hits ?s) (qe_model (ss_embedding ?s))"
      using catalog_hits_cases[OF hits, where 'e = unit] assms(1) by (auto simp: steady_def)
    have "hits = fuse_with plan catalog (ranking_of (uses_keyword (pl_mode plan)) kw)
        (ranking_of (uses_semantic (pl_mode plan)) sem) (qe_model q)"
      if "\<not> keyword_has_more c s" "\<not> semantic_has_more c s"
      using that a full fuse_with_no_semantic
      by (cases "uses_semantic (pl_mode plan)") (metis ranking_of_simps(2))+
    then show ?thesis using r Suc.prems(2) a fin by auto
  next
    fix c
    assume c: "search_candidate_round b n (pl_query plan) (ss_limit s) (ss_keyword_active s) (ss_semantic_active s)
        (ss_embedding s) (ss_needs_embedding s) = Inr c" and m: "ss_limit s \<noteq> max_search_top_k"
      and r: "search_pass b plan n s = Inr ((take_round c s)\<lparr>ss_keyword_active := keyword_has_more c s,
        ss_semantic_active := semantic_has_more c s, ss_limit := expanded_candidate_limit (ss_limit s)\<rparr>)"
    let ?s = "(take_round c s)\<lparr>ss_keyword_active := keyword_has_more c s,
        ss_semantic_active := semantic_has_more c s, ss_limit := expanded_candidate_limit (ss_limit s)\<rparr>"
    note a = steady_after[OF assms(1) Suc.prems(1) c]
    have "steady_state plan kw sem q ?s"
      using a m expanded_limit_range[of "ss_limit s"] Suc.prems(1) by (auto simp: steady_state_def)
    then show ?thesis using Suc.IH Suc.prems(2) r by simp
  qed (use Suc.prems in auto)
qed simp

lemma steady_initial:
  assumes "normalize_search_request request = (Inr plan :: 'e search_error + search_plan)"
  shows "steady_state plan kw sem q (initial_search plan)"
  using candidate_limit_range normalized_plan[OF assms]
  by (auto simp: steady_state_def initial_search_def ranking_of_def)

lemma search_answer:
  assumes "search (b :: 'e search_backends) request = Some (Inr resp)"
    and "normalize_search_request request = (Inr plan :: 'e search_error + search_plan)"
  shows "search_loop search_fuel b plan 0 (initial_search plan) = Some (Inr resp)"
  using assms by (auto simp: search_def split: if_splits sum.splits)

text \<open>C26: A short answer that is not marked incomplete is complete.  While the backends answer from fixed
  rankings, an answer with fewer than \<open>top_k\<close> hits and without the mark is the fusion of the complete
  rankings of all routes of the mode, however few candidates the rounds asked for; and the mark is only
  set on a short answer for which some route has at least the 1000 candidates of the largest window.\<close>

theorem short_answers_are_complete:
  assumes "steady (b :: 'e search_backends) kw sem q catalog"
    and "normalize_search_request request = (Inr plan :: 'e search_error + search_plan)"
    and "search b request = Some (Inr resp)"
  shows "if rs_incomplete resp
    then int (length (rs_hits resp)) < pl_top_k plan \<and>
      (uses_keyword (pl_mode plan) \<and> max_search_top_k \<le> int (length kw) \<or>
       uses_semantic (pl_mode plan) \<and> max_search_top_k \<le> int (length sem))
    else pl_top_k plan \<le> int (length (rs_hits resp)) \<or>
      rs_hits resp = fuse_with plan catalog (if uses_keyword (pl_mode plan) then kw else [])
        (if uses_semantic (pl_mode plan) then sem else []) (qe_model q)"
  using steady_loop[OF assms(1) steady_initial[OF assms(2)] search_answer[OF assms(3,2)]]
  unfolding ranking_of_def by (rule conjunct2)

definition example_file :: "int \<Rightarrow> catalog_file" where
  "example_file i = \<lparr>f_id = i, f_path = ''/a'', f_path_key = ''/a'', f_size = 1, f_mtime_ns = 1, f_inode = None,
     f_sample_hash = [], f_kind = FileKindImage, f_generation = 1, f_status = FileStatusIndexed,
     f_extractor_version = None, f_embed_model_version = Some ''m'', f_indexed_at_ms = Some 1\<rparr>"

definition example_keyword_hits :: "keyword_hit list" where
  "example_keyword_hits = map (\<lambda>i. \<lparr>kh_file_id = i, kh_path = ''/a'', kh_filename = ''a'', kh_kind = ''image'',
     kh_content = '' text '', kh_mtime_ns = 1, kh_generation = 1, kh_status = ''indexed'', kh_score = 0\<rparr>) [7, 9, 7, 8]"

definition example_vector_hits :: "vector_hit list" where
  "example_vector_hits = map (\<lambda>i. \<lparr>vh_key = push_bit 16 (word_of_int i), vh_file_id = i, vh_frame = 0,
     vh_frame_ts = None, vh_score = 0, vh_model = ''m''\<rparr>) [8, 5]"

definition example_embedding :: query_embedding where
  "example_embedding = \<lparr>qe_values = [0x3F800000], qe_model = ''m''\<rparr>"

definition example_catalog :: "int \<Rightarrow> catalog_file option" where
  "example_catalog i = (if i \<in> {5, 7, 8} then Some (example_file i) else None)"

definition example_backends :: "string search_backends" where
  "example_backends = \<lparr>sb_has_keyword = True, sb_has_embedder = True, sb_has_semantic = True,
     sb_keyword = (\<lambda>n query limit. Inr (take (nat limit) example_keyword_hits)),
     sb_catalog = (\<lambda>n ids. Inr example_catalog), sb_embed = (\<lambda>n query. Inr example_embedding),
     sb_semantic = (\<lambda>n values model limit. Inr (take (nat limit) example_vector_hits)),
     sb_unavailable = (\<lambda>e. True), sb_mismatch = (\<lambda>e. False), sb_cancelled = (\<lambda>n. False),
     sb_keyword_first = (\<lambda>n. True)\<rparr>"

definition example_request :: search_request where
  "example_request = \<lparr>rq_query = '' cat '', rq_mode = ModeHybrid, rq_top_k = 0,
     rq_filters = \<lparr>fl_path_prefix = ''/a'', fl_kinds = [], fl_mtime_from = None, fl_mtime_to = None\<rparr>\<rparr>"

definition answer_ids :: "('e search_error + search_response) option \<Rightarrow> (int list \<times> bool \<times> bool) option" where
  "answer_ids r = (case r of Some (Inr resp) \<Rightarrow> Some (map ht_file_id (rs_hits resp), rs_degraded resp, rs_incomplete resp)
     | _ \<Rightarrow> None)"

lemma example_steady: "steady example_backends example_keyword_hits example_vector_hits example_embedding example_catalog"
  by (simp add: steady_def example_backends_def)

lemma example_answer:
  "answer_ids (search example_backends (example_request\<lparr>rq_mode := ModeKeyword\<rparr>)) = Some ([7, 8], False, False)"
  by code_simp

lemma short_answers_are_complete_witness:
  "\<exists>resp plan. search example_backends (example_request\<lparr>rq_mode := ModeKeyword\<rparr>) = Some (Inr resp) \<and>
     rs_hits resp = fuse_with plan example_catalog example_keyword_hits [] ''m'' \<and> length (rs_hits resp) = 2"
proof -
  obtain resp where r: "search example_backends (example_request\<lparr>rq_mode := ModeKeyword\<rparr>) = Some (Inr resp)"
    "map ht_file_id (rs_hits resp) = [7, 8]" "\<not> rs_incomplete resp"
    using example_answer by (auto simp: answer_ids_def split: option.splits sum.splits)
  then have "length [7, 8 :: int] = length (rs_hits resp)" by (metis length_map)
  then have l: "length (rs_hits resp) = 2" by simp
  have t: "trim_space '' cat '' \<noteq> []" by code_simp
  obtain plan where p: "normalize_search_request (example_request\<lparr>rq_mode := ModeKeyword\<rparr>) =
      (Inr plan :: string search_error + search_plan)" "pl_top_k plan = 20" "pl_mode plan = ModeKeyword"
    by (simp add: normalize_search_request_def example_request_def t default_search_top_k_def max_search_top_k_def
        mtime_inverted_def Let_def)
  from short_answers_are_complete[OF example_steady p(1) r(1)] show ?thesis
    using r l p by (auto simp: uses_keyword_def uses_semantic_def example_embedding_def)
qed

lemma search_ends_with_matching_hits_witness:
  "\<exists>resp plan model. search example_backends (example_request\<lparr>rq_mode := ModeKeyword\<rparr>) = Some (Inr resp) \<and>
     length (rs_hits resp) = 2 \<and> list_all (answers plan model example_catalog) (rs_hits resp)"
proof -
  obtain resp where r: "search example_backends (example_request\<lparr>rq_mode := ModeKeyword\<rparr>) = Some (Inr resp)"
    "map ht_file_id (rs_hits resp) = [7, 8]"
    using example_answer by (auto simp: answer_ids_def split: option.splits sum.splits)
  then have "length [7, 8 :: int] = length (rs_hits resp)" by (metis length_map)
  then have l: "length (rs_hits resp) = 2" by simp
  then have "rs_hits resp \<noteq> []" by auto
  then obtain plan model where "list_all (answers plan model example_catalog) (rs_hits resp)"
    using search_ends_with_matching_hits[of example_backends "example_request\<lparr>rq_mode := ModeKeyword\<rparr>"] r(1)
    by (auto simp: example_backends_def)
  then show ?thesis using r(1) l by blast
qed

text \<open>The files 7 and 8 are found by content and 8 and 5 by meaning; 8 has the larger sum of reciprocal ranks.\<close>

definition example_plan :: search_plan where
  "example_plan = \<lparr>pl_query = ''cat'', pl_mode = ModeHybrid, pl_top_k = 2,
     pl_filters = \<lparr>fl_path_prefix = ''/a'', fl_kinds = [], fl_mtime_from = None, fl_mtime_to = None\<rparr>, pl_kinds = []\<rparr>"

lemma example_routes:
  "keyword_ids example_catalog example_plan example_keyword_hits = [7, 8]"
  "semantic_ids example_catalog example_plan ''m'' example_vector_hits = [8, 5]"
  by code_simp+

lemma example_orders:
  "rrf_order [7, 8] [8, 5] 7 = (- (1 / 61), 1, 7)"
  "rrf_order [7, 8] [8, 5] 8 = (- (1 / 62 + 1 / 61), 1, 8)"
  "rrf_order [7, 8] [8, 5] 5 = (- (1 / 62), 2, 5)"
  by (simp_all add: rrf_order_def rrf_score_def best_rank_def reciprocal_rank_def rrf_rank_constant_def)


section \<open>Degraded searches\<close>

lemma plan_mode_irrelevant:
  "fuse_with (plan\<lparr>pl_mode := m\<rparr>) catalog kw sem model = fuse_with plan catalog kw sem model"
proof -
  have "keyword_file catalog (plan\<lparr>pl_mode := m\<rparr>) = keyword_file catalog plan"
    "semantic_file catalog (plan\<lparr>pl_mode := m\<rparr>) model = semantic_file catalog plan model"
    by (simp_all add: fun_eq_iff keyword_file_def semantic_file_def matches_keyword_catalog_def
        matches_semantic_catalog_def matches_request_filters_def cong: if_cong option.case_cong)
  then show ?thesis
    by (simp add: fuse_with_def rank_keyword_hits_eq rank_semantic_hits_eq keyword_files_def semantic_files_def)
qed

lemma pass_mode_irrelevant: "search_pass b (plan\<lparr>pl_mode := m\<rparr>) n s = search_pass b plan n s"
  by (simp add: search_pass_def catalog_hits_def plan_mode_irrelevant cong: if_cong sum.case_cong)

lemma loop_mode_irrelevant: "search_loop k b (plan\<lparr>pl_mode := m\<rparr>) n s = search_loop k b plan n s"
  by (induction k arbitrary: n s) (simp_all add: pass_mode_irrelevant split: sum.splits)

definition mark_degraded :: "search_response \<Rightarrow> search_response" where
  "mark_degraded resp = resp\<lparr>rs_degraded := True\<rparr>"

lemma degraded_pass:
  assumes "\<not> ss_semantic_active s"
  shows "search_pass b plan n (s\<lparr>ss_degraded := True\<rparr>) =
    map_sum (map_sum id mark_degraded) (\<lambda>s. s\<lparr>ss_degraded := True\<rparr>) (search_pass b plan n s)"
  using assms
  by (auto simp: search_pass_def catalog_hits_def take_round_def keyword_has_more_def semantic_has_more_def
      mark_degraded_def Let_def split: sum.splits)

lemma degraded_loop:
  assumes "\<not> ss_semantic_active s"
  shows "search_loop k b plan n (s\<lparr>ss_degraded := True\<rparr>) =
    map_option (map_sum id mark_degraded) (search_loop k b plan n s)"
  using assms
proof (induction k arbitrary: n s)
  case (Suc k)
  show ?case
    by (rule search_pass_cases[OF refl, of b plan n s])
      (use Suc in \<open>auto simp: degraded_pass semantic_has_more_def\<close>)
qed simp

lemma catalog_hits_cong:
  assumes "ss_keyword_hits s = ss_keyword_hits s'" "ss_semantic_hits s = ss_semantic_hits s'" "ss_embedding s = ss_embedding s'"
  shows "catalog_hits b plan n s = catalog_hits b plan n s'"
  unfolding catalog_hits_def assms ..

lemma degraded_first_pass:
  assumes "\<not> ss_semantic_active s" "ss_semantic_hits s = []"
    and "search_candidate_round b n (pl_query plan) (ss_limit s) (ss_keyword_active s) True (ss_embedding s) True =
      map_sum id (\<lambda>r. r\<lparr>cr_degraded := True\<rparr>)
        (search_candidate_round b n (pl_query plan) (ss_limit s) (ss_keyword_active s) False (ss_embedding s) False)"
    and "\<not> ss_needs_embedding s"
  shows "search_pass b plan n (s\<lparr>ss_semantic_active := True, ss_needs_embedding := True\<rparr>) =
    map_sum (map_sum id mark_degraded) (\<lambda>s. s\<lparr>ss_degraded := True\<rparr>) (search_pass b plan n s)"
proof (cases "search_candidate_round b n (pl_query plan) (ss_limit s) (ss_keyword_active s) False (ss_embedding s) False")
  case (Inl e)
  then show ?thesis using assms by (simp add: search_pass_def)
next
  case (Inr c)
  let ?s = "s\<lparr>ss_semantic_active := True, ss_needs_embedding := True\<rparr>"
  let ?c = "c\<lparr>cr_degraded := True\<rparr>"
  have t: "take_round ?c ?s = (take_round c s)\<lparr>ss_degraded := True, ss_semantic_active := True\<rparr>"
    using assms(1,2) by (cases s) (simp add: take_round_def Let_def)
  have h: "catalog_hits b plan n (take_round ?c ?s) = catalog_hits b plan n (take_round c s)"
    unfolding t by (rule catalog_hits_cong) simp_all
  have m: "keyword_has_more ?c ?s = keyword_has_more c s" "semantic_has_more ?c ?s = semantic_has_more c s"
    using assms(1) by (simp_all add: keyword_has_more_def semantic_has_more_def)
  show ?thesis
  proof (cases "catalog_hits b plan n (take_round c s)")
    case (Inl e)
    then show ?thesis using assms Inr h by (simp add: search_pass_def Let_def)
  next
    case (Inr hits)
    then show ?thesis using assms \<open>_ = Inr c\<close> h
      by (simp add: search_pass_def Let_def m t mark_degraded_def)
  qed
qed

text \<open>Without the compute node a hybrid search is the keyword search.  When the embedding of the query
  fails with an error of unavailability, \<open>Search\<close> returns exactly what the keyword search of the same
  request returns, with the same errors, marked as degraded.\<close>

theorem degraded_search_is_keyword_search:
  assumes "rq_mode request = ModeHybrid" "sb_embed b 0 (trim_space (rq_query request)) = Inl e"
    and "sb_unavailable b e" "\<not> sb_cancelled b 1" "sb_has_embedder b" "sb_has_semantic b"
  shows "search b request =
    map_option (map_sum id (\<lambda>resp. resp\<lparr>rs_degraded := True\<rparr>)) (search b (request\<lparr>rq_mode := ModeKeyword\<rparr>))"
proof (cases "normalize_search_request request :: 'a search_error + search_plan")
  case (Inl err)
  then have "normalize_search_request (request\<lparr>rq_mode := ModeKeyword\<rparr>) = (Inl err :: 'a search_error + search_plan)"
    using assms(1) by (auto simp: normalize_search_request_def Let_def split: if_splits)
  then show ?thesis using Inl by (simp add: search_def)
next
  case (Inr plan)
  let ?plan = "plan\<lparr>pl_mode := ModeKeyword\<rparr>"
  have plan: "normalize_search_request (request\<lparr>rq_mode := ModeKeyword\<rparr>) = (Inr ?plan :: 'a search_error + search_plan)"
    and q: "pl_query plan = trim_space (rq_query request)" and m: "pl_mode plan = ModeHybrid"
    using Inr assms(1) by (auto simp: normalize_search_request_def Let_def split: if_splits)
  let ?s = "initial_search plan" and ?k = "initial_search ?plan"
  have mark: "mark_degraded = (\<lambda>resp. resp\<lparr>rs_degraded := True\<rparr>)" by (simp add: fun_eq_iff mark_degraded_def)
  have round: "search_candidate_round b 0 (pl_query plan) l True True no_embedding True =
      map_sum id (\<lambda>r. r\<lparr>cr_degraded := True\<rparr>)
        (search_candidate_round b 0 (pl_query plan) l True False no_embedding False)" for l
    using assms(2-4) q
    by (cases "keyword_route b 0 (pl_query plan) l")
      (simp_all add: search_candidate_round_def semantic_route_def query_vector_def)
  have i: "?s = ?k\<lparr>ss_semantic_active := True, ss_needs_embedding := True\<rparr>" "\<not> ss_semantic_active ?k"
    "ss_semantic_hits ?k = []" "\<not> ss_needs_embedding ?k" "ss_keyword_active ?k" "ss_embedding ?k = no_embedding"
    by (simp_all add: initial_search_def m uses_keyword_def uses_semantic_def)
  have first: "search_pass b plan 0 ?s =
      map_sum (map_sum id mark_degraded) (\<lambda>s. s\<lparr>ss_degraded := True\<rparr>) (search_pass b ?plan 0 ?k)"
    unfolding pass_mode_irrelevant i(1)
    by (rule degraded_first_pass[OF i(2,3) _ i(4)]) (simp add: i(5,6) round)
  have fuel: "search_fuel = Suc 8" by (simp add: search_fuel_def)
  have "search_loop (Suc k) b plan 0 ?s = map_option (map_sum id mark_degraded) (search_loop (Suc k) b ?plan 0 ?k)" for k
  proof (rule search_pass_cases[OF refl, of b ?plan 0 ?k])
    fix c
    let ?next = "(take_round c ?k)\<lparr>ss_keyword_active := keyword_has_more c ?k,
        ss_semantic_active := semantic_has_more c ?k, ss_limit := expanded_candidate_limit (ss_limit ?k)\<rparr>"
    assume more: "search_pass b ?plan 0 ?k = Inr ?next"
    have "\<not> ss_semantic_active ?next" using i(2) by (simp add: semantic_has_more_def)
    note d = degraded_loop[OF this, of k b ?plan 1]
    have "search_loop (Suc k) b plan 0 ?s = search_loop k b ?plan 1 (?next\<lparr>ss_degraded := True\<rparr>)"
      using first more by (simp add: loop_mode_irrelevant)
    then show "search_loop (Suc k) b plan 0 ?s = map_option (map_sum id mark_degraded) (search_loop (Suc k) b ?plan 0 ?k)"
      using d more by simp
  qed (use first in simp_all)
  then have "search_loop search_fuel b plan 0 ?s = map_option (map_sum id mark_degraded) (search_loop search_fuel b ?plan 0 ?k)"
    unfolding fuel by blast
  moreover have "uses_keyword ModeKeyword" "\<not> uses_semantic ModeKeyword" "uses_keyword ModeHybrid"
    by (simp_all add: uses_keyword_def uses_semantic_def)
  ultimately show ?thesis using Inr plan m assms(5,6)
    by (simp add: search_def mark require_mode_dependencies_def)
qed

definition offline_backends :: "string search_backends" where
  "offline_backends = example_backends\<lparr>sb_embed := (\<lambda>n query. Inl ''offline'')\<rparr>"

lemma degraded_search_is_keyword_search_witness:
  "answer_ids (search offline_backends example_request) = Some ([7, 8], True, False)"
proof -
  have "search offline_backends example_request =
    map_option (map_sum id (\<lambda>resp. resp\<lparr>rs_degraded := True\<rparr>)) (search offline_backends (example_request\<lparr>rq_mode := ModeKeyword\<rparr>))"
    by (rule degraded_search_is_keyword_search[where e = "''offline''"])
      (simp_all add: offline_backends_def example_backends_def example_request_def)
  moreover have "answer_ids (search offline_backends (example_request\<lparr>rq_mode := ModeKeyword\<rparr>)) = Some ([7, 8], False, False)"
    by code_simp
  ultimately show ?thesis by (auto simp: answer_ids_def split: option.splits sum.splits)
qed

section \<open>The path filter\<close>

text \<open>The filter is containment of paths, as long as the path has no backslash after the prefix; a
  backslash is taken for a separator on every system.\<close>

lemma path_filter_is_containment:
  assumes "rooted d" "CHR 0x5C \<notin> set (clean p)"
  shows "path_matches_prefix p d \<longleftrightarrow> under d p"
proof -
  have d: "d \<noteq> []" using assms(1) by (auto simp: rooted_def)
  have w: "path_within (clean d) (clean p) \<longleftrightarrow> under d p" by (rule path_within_under[OF assms(1)])
  have "path_matches_prefix p d \<longleftrightarrow> path_within (clean d) (clean p)"
  proof (cases "has_prefix (clean p) (clean d)")
    case True
    then obtain rest where rest: "clean p = clean d @ rest" by (auto simp: has_prefix_iff prefix_def)
    have last: "is_search_path_separator (last (clean d)) \<longleftrightarrow> has_suffix_slash (clean d)"
      if "rest \<noteq> []"
    proof -
      have "last (clean d) \<in> set (clean p)" using rest clean_nonempty[of d] by (simp)
      then have "last (clean d) \<noteq> CHR 0x5C" using assms(2) by auto
      then show ?thesis using clean_nonempty[of d] by (auto simp: is_search_path_separator_def has_suffix_slash_def)
    qed
    show ?thesis
    proof (cases rest)
      case (Cons c cs)
      then have "c \<noteq> CHR 0x5C" using assms(2) rest by auto
      then show ?thesis using Cons rest last d
        by (auto simp: path_matches_prefix_def Let_def path_within_def has_prefix_def is_search_path_separator_def)
    qed (use rest d in \<open>simp add: path_matches_prefix_def Let_def path_within_def\<close>)
  next
    case False
    then have ns: "\<not> has_prefix (clean p) (clean d @ s)" for s by (auto simp: has_prefix_iff dest: append_prefixD)
    have "clean p \<noteq> clean d" using False by (auto simp: has_prefix_iff)
    then show ?thesis using False d ns[of "''/''"]
      by (simp add: path_matches_prefix_def Let_def path_within_def)
  qed
  then show ?thesis using w by simp
qed

lemma backslash_is_taken_for_a_separator:
  "path_matches_prefix (''/docs/old'' @ [CHR 0x5C] @ ''plan'') ''/docs/old'' \<and> \<not> path_within (clean ''/docs/old'') (clean (''/docs/old'' @ [CHR 0x5C] @ ''plan''))"
  by code_simp

end
