(* ===== verification/Store_Vectors.thy ===== *)
theory Store_Vectors
  imports Text
begin

text \<open>
  Vector truth, \<open>internal/store/vectors.go\<close>, and its tables of migrations 0003 to 0005: the vectors, the
  recovery stream that triggers append to, and the durable width of each embedding model.

  A \<open>float32\<close> is its bit pattern and a BLOB its bytes, so a stored vector is what is read back, bit for bit.
  The database of \<open>Store_Model\<close> is a component of the state; \<open>on_db\<close> runs its statements.  Rows of
  \<open>vectors\<close> are kept in the order of their rowids.  The foreign key of \<open>vectors\<close> cannot fail:
  every write checks the catalog row in the same transaction and catalog rows are never deleted.
\<close>

section \<open>Rows and errors\<close>

type_synonym byte = "8 word"

record vector =
  vc_file_id :: int
  vc_frame :: int
  vc_frame_ts :: "int option"
  vc_values :: "32 word list"
  vc_model :: string

record vector_row =
  vr_rowid :: int
  vr_file_id :: int
  vr_frame :: int
  vr_frame_ts :: "int option"
  vr_dims :: int
  vr_blob :: "byte list"
  vr_model :: string

datatype vector_change_op = VectorChangeUpsert | VectorChangeDelete

text \<open>A row of \<open>vector_changes\<close>; the nullable columns as options.\<close>

record change_row =
  ch_revision :: int
  ch_file_id :: int
  ch_frame :: int
  ch_op :: vector_change_op
  ch_frame_ts :: "int option"
  ch_dims :: "int option"
  ch_blob :: "byte list option"
  ch_model :: "string option"
  ch_changed_at :: int

text \<open>The value handed to a visitor of the stream.\<close>

record vector_change =
  vx_revision :: int
  vx_file_id :: int
  vx_frame :: int
  vx_op :: vector_change_op
  vx_frame_ts :: "int option"
  vx_values :: "32 word list"
  vx_model :: string
  vx_changed_at :: int

record vdb =
  vd_db :: db
  vd_vectors :: "vector_row list"
  vd_changes :: "change_row list"
  vd_change_seq :: int
  vd_contracts :: "string \<Rightarrow> int option"

datatype vector_error =
  VectorStore store_error
| ErrVectorInvalid string
| ErrEmbedModelContract string int int  \<comment> \<open>model, got, want\<close>
| ErrLegacyContract string
| ErrCorruptVector int nat
| ErrVectorChange int

type_synonym 'a vtx = "(vector_error, vdb, 'a) tx"

definition on_db :: "'a stx \<Rightarrow> 'a vtx" where
  "on_db m = (\<lambda>s. case m (vd_db s) of
     Inl e \<Rightarrow> Inl (VectorStore e) | Inr (x, d) \<Rightarrow> Inr (x, s\<lparr>vd_db := d\<rparr>))"

section \<open>Values and BLOBs\<close>

definition put_uint32 :: "32 word \<Rightarrow> byte list" where
  "put_uint32 w = map (\<lambda>i. ucast (drop_bit (8 * i) w)) [0, 1, 2, 3]"

definition uint32_of :: "byte \<Rightarrow> byte \<Rightarrow> byte \<Rightarrow> byte \<Rightarrow> 32 word" where
  "uint32_of a b c d =
     or (or (or (ucast a) (push_bit 8 (ucast b))) (push_bit 16 (ucast c))) (push_bit 24 (ucast d))"

definition encode_vector :: "32 word list \<Rightarrow> byte list" where
  "encode_vector vs = concat (map put_uint32 vs)"

fun uint32s :: "byte list \<Rightarrow> 32 word list" where
  "uint32s (a # b # c # d # rest) = uint32_of a b c d # uint32s rest"
| "uint32s _ = []"

definition decode_vector :: "byte list \<Rightarrow> int \<Rightarrow> vector_error + 32 word list" where
  "decode_vector blob dims =
     (if dims \<le> 0 \<or> int (length blob) \<noteq> dims * 4 then Inl (ErrCorruptVector dims (length blob))
      else Inr (uint32s blob))"

definition scan_vector :: "vector_row \<Rightarrow> vector_error + vector" where
  "scan_vector r = map_sum id (\<lambda>vs. \<lparr>vc_file_id = vr_file_id r, vc_frame = vr_frame r, vc_frame_ts = vr_frame_ts r,
     vc_values = vs, vc_model = vr_model r\<rparr>) (decode_vector (vr_blob r) (vr_dims r))"

definition validate_vector :: "vector \<Rightarrow> vector_error + unit" where
  "validate_vector v =
     (if vc_file_id v \<le> 0 then Inl (ErrVectorInvalid ''vector file ID must be positive'')
      else if vc_frame v < 0 then Inl (ErrVectorInvalid ''vector frame index is negative'')
      else if vc_frame v \<ge> 2 ^ 16 then Inl (ErrVectorInvalid ''vector frame index must be less than 65536'')
      else if (case vc_frame_ts v of None \<Rightarrow> False | Some t \<Rightarrow> t < 0)
        then Inl (ErrVectorInvalid ''vector frame timestamp is negative'')
      else if vc_values v = [] then Inl (ErrVectorInvalid ''vector has no dimensions'')
      else if \<not> trimmed_label (vc_model v) then Inl (ErrVectorInvalid ''vector model version is invalid'')
      else if \<not> list_all finite32 (vc_values v) then Inl (ErrVectorInvalid ''vector contains a non-finite value'')
      else if \<not> unit_norm (vc_values v) then Inl (ErrVectorInvalid ''vector is not L2 normalized'')
      else Inr ())"

section \<open>Statements and triggers\<close>

text \<open>\<open>strftime('%s','now') * 1000\<close>.\<close>

definition trigger_time :: "int \<Rightarrow> int" where "trigger_time now = now div 1000 * 1000"

definition upsert_change :: "int \<Rightarrow> int \<Rightarrow> vector_row \<Rightarrow> change_row" where
  "upsert_change now n r = \<lparr>ch_revision = n, ch_file_id = vr_file_id r, ch_frame = vr_frame r,
     ch_op = VectorChangeUpsert, ch_frame_ts = vr_frame_ts r, ch_dims = Some (vr_dims r), ch_blob = Some (vr_blob r),
     ch_model = Some (vr_model r), ch_changed_at = trigger_time now\<rparr>"

definition delete_change :: "int \<Rightarrow> int \<Rightarrow> vector_row \<Rightarrow> change_row" where
  "delete_change now n r = \<lparr>ch_revision = n, ch_file_id = vr_file_id r, ch_frame = vr_frame r,
     ch_op = VectorChangeDelete, ch_frame_ts = vr_frame_ts r, ch_dims = None, ch_blob = None,
     ch_model = Some (vr_model r), ch_changed_at = trigger_time now\<rparr>"

definition append_change :: "(int \<Rightarrow> change_row) \<Rightarrow> vdb \<Rightarrow> vdb" where
  "append_change mk s = s\<lparr>vd_changes := vd_changes s @ [mk (vd_change_seq s + 1)], vd_change_seq := vd_change_seq s + 1\<rparr>"

text \<open>\<open>INSERT \<dots> ON CONFLICT(file_id,frame_idx) DO UPDATE\<close> with the insert or update trigger.\<close>

definition row_of :: "int \<Rightarrow> vector \<Rightarrow> vector_row" where
  "row_of rowid v = \<lparr>vr_rowid = rowid, vr_file_id = vc_file_id v, vr_frame = vc_frame v, vr_frame_ts = vc_frame_ts v,
     vr_dims = int (length (vc_values v)), vr_blob = encode_vector (vc_values v), vr_model = vc_model v\<rparr>"

definition same_frame :: "vector \<Rightarrow> vector_row \<Rightarrow> bool" where
  "same_frame v r \<longleftrightarrow> vr_file_id r = vc_file_id v \<and> vr_frame r = vc_frame v"

definition upsert_vector :: "int \<Rightarrow> vector \<Rightarrow> unit vtx" where
  "upsert_vector now v = tx_modify (\<lambda>s.
     case List.find (same_frame v) (vd_vectors s) of
       None \<Rightarrow>
         (let row = row_of (next_rowid (map vr_rowid (vd_vectors s))) v
          in append_change (\<lambda>n. upsert_change now n row) (s\<lparr>vd_vectors := vd_vectors s @ [row]\<rparr>))
     | Some old \<Rightarrow>
         (let row = row_of (vr_rowid old) v
          in append_change (\<lambda>n. upsert_change now n row)
               (s\<lparr>vd_vectors := rows_update (same_frame v) (\<lambda>_. row) (vd_vectors s)\<rparr>)))"

text \<open>\<open>DELETE FROM vectors WHERE file_id=?\<close> with the delete trigger of every row.\<close>

definition delete_file_vectors :: "int \<Rightarrow> int \<Rightarrow> int vtx" where
  "delete_file_vectors now file_id =
     tx_bind (tx_read (\<lambda>s. filter (\<lambda>r. vr_file_id r = file_id) (vd_vectors s))) (\<lambda>gone.
     tx_bind (tx_modify (\<lambda>s. fold (\<lambda>r. append_change (\<lambda>n. delete_change now n r)) gone
       (s\<lparr>vd_vectors := rows_delete (\<lambda>r. vr_file_id r = file_id) (vd_vectors s)\<rparr>))) (\<lambda>_.
     tx_return (int (length gone))))"

section \<open>The width of a model\<close>

definition establish_contract :: "string \<Rightarrow> int \<Rightarrow> unit vtx" where
  "establish_contract model dims = tx_modify (\<lambda>s. s\<lparr>vd_contracts := (vd_contracts s)(model \<mapsto> dims)\<rparr>)"

definition require_embed_model_contract_tx :: "string \<Rightarrow> int \<Rightarrow> unit vtx" where
  "require_embed_model_contract_tx model dims =
     (if model = [] then tx_fail (ErrVectorInvalid ''vector model version is empty'')
      else if dims \<le> 0 then tx_fail (ErrVectorInvalid ''vector dimensions must be positive'')
      else
        tx_bind (tx_read (\<lambda>s. vd_contracts s model)) (\<lambda>durable.
        case durable of
          Some d \<Rightarrow> if d \<noteq> dims then tx_fail (ErrEmbedModelContract model dims d) else tx_return ()
        | None \<Rightarrow>
            tx_bind (tx_read (\<lambda>s. map vr_dims (filter (\<lambda>r. vr_model r = model) (vd_vectors s)))) (\<lambda>legacy.
            if legacy = [] then establish_contract model dims
            else if Min (set legacy) \<noteq> Max (set legacy) then tx_fail (ErrLegacyContract model)
            else if Min (set legacy) \<noteq> dims then tx_fail (ErrEmbedModelContract model dims (Min (set legacy)))
            else establish_contract model (Min (set legacy)))))"

definition require_vector_contracts_tx :: "vector list \<Rightarrow> unit vtx" where
  "require_vector_contracts_tx vs =
     tx_each (\<lambda>v. require_embed_model_contract_tx (vc_model v) (int (length (vc_values v)))) vs"

definition require_current_generation_tx :: "int \<Rightarrow> int \<Rightarrow> unit vtx" where
  "require_current_generation_tx file_id generation =
     tx_bind (on_db (find_file (\<lambda>f. f_id f = file_id))) (\<lambda>found.
     case found of
       None \<Rightarrow> tx_fail (VectorStore ErrNotFound)
     | Some f \<Rightarrow> if f_generation f \<noteq> generation then tx_fail (VectorStore ErrStaleGeneration) else tx_return ())"

section \<open>Writes\<close>

definition put_vector_tx :: "int \<Rightarrow> vector \<Rightarrow> unit vtx" where
  "put_vector_tx now v =
     tx_bind (tx_lift (validate_vector v)) (\<lambda>_.
     tx_bind (require_embed_model_contract_tx (vc_model v) (int (length (vc_values v)))) (\<lambda>_.
     upsert_vector now v))"

definition put_vector :: "int \<Rightarrow> int \<Rightarrow> vector \<Rightarrow> vdb \<Rightarrow> (vector_error + unit) \<times> vdb" where
  "put_vector now generation v s =
     (if generation < 1 then (Inl (ErrVectorInvalid ''vector generation must be positive''), s)
      else with_tx (tx_bind (require_current_generation_tx (vc_file_id v) generation) (\<lambda>_. put_vector_tx now v)) s)"

definition replace_vectors_tx :: "int \<Rightarrow> int \<Rightarrow> vector list \<Rightarrow> unit vtx" where
  "replace_vectors_tx now file_id vs =
     tx_bind (delete_file_vectors now file_id) (\<lambda>_. tx_each (put_vector_tx now) vs)"

fun validate_replacement :: "int \<Rightarrow> string option \<Rightarrow> vector list \<Rightarrow> vector_error + unit" where
  "validate_replacement file_id model [] = Inr ()"
| "validate_replacement file_id model (v # vs) =
     (if vc_file_id v \<noteq> file_id then Inl (ErrVectorInvalid ''vector file ID does not match replacement file'')
      else if model \<noteq> None \<and> model \<noteq> Some (vc_model v)
        then Inl (ErrVectorInvalid ''vector model does not match replacement model'')
      else case validate_vector v of Inl e \<Rightarrow> Inl e | Inr _ \<Rightarrow> validate_replacement file_id model vs)"

definition replace_vectors_body :: "int \<Rightarrow> int \<Rightarrow> int \<Rightarrow> vector list \<Rightarrow> unit vtx" where
  "replace_vectors_body now file_id generation vs =
     tx_bind (require_current_generation_tx file_id generation) (\<lambda>_.
     tx_bind (require_vector_contracts_tx vs) (\<lambda>_.
     replace_vectors_tx now file_id vs))"

definition replace_vectors_for_file ::
    "int \<Rightarrow> int \<Rightarrow> int \<Rightarrow> vector list \<Rightarrow> vdb \<Rightarrow> (vector_error + unit) \<times> vdb" where
  "replace_vectors_for_file now file_id generation vs s =
     (if file_id \<le> 0 then (Inl (ErrVectorInvalid ''vector file ID must be positive''), s)
      else if generation < 1 then (Inl (ErrVectorInvalid ''vector generation must be positive''), s)
      else case validate_replacement file_id None vs of
        Inl e \<Rightarrow> (Inl e, s)
      | Inr _ \<Rightarrow> with_tx (replace_vectors_body now file_id generation vs) s)"

definition set_file_model :: "int \<Rightarrow> int option \<Rightarrow> string option \<Rightarrow> nat vtx" where
  "set_file_model file_id generation model =
     on_db (update_files (\<lambda>f. f_id f = file_id \<and> (generation = None \<or> generation = Some (f_generation f)))
       (\<lambda>f. f\<lparr>f_embed_model_version := model\<rparr>))"

definition replace_vectors_for_file_and_version ::
    "int \<Rightarrow> int \<Rightarrow> int \<Rightarrow> string \<Rightarrow> vector list \<Rightarrow> vdb \<Rightarrow> (vector_error + unit) \<times> vdb" where
  "replace_vectors_for_file_and_version now file_id generation model vs s =
     (if file_id \<le> 0 then (Inl (ErrVectorInvalid ''vector file ID must be positive''), s)
      else if generation < 1 then (Inl (ErrVectorInvalid ''vector generation must be positive''), s)
      else if \<not> trimmed_label model then (Inl (ErrVectorInvalid ''vector model version is invalid''), s)
      else if vs = [] then (Inl (ErrVectorInvalid ''vector replacement is empty''), s)
      else case validate_replacement file_id (Some model) vs of
        Inl e \<Rightarrow> (Inl e, s)
      | Inr _ \<Rightarrow>
          with_tx (tx_bind (replace_vectors_body now file_id generation vs) (\<lambda>_.
            tx_bind (set_file_model file_id (Some generation) (Some model)) (\<lambda>n.
            on_db (require_changed n)))) s)"

definition delete_vectors_by_file :: "int \<Rightarrow> int \<Rightarrow> vdb \<Rightarrow> (vector_error + int) \<times> vdb" where
  "delete_vectors_by_file now file_id =
     with_tx (tx_bind (delete_file_vectors now file_id) (\<lambda>count.
       tx_bind (set_file_model file_id None None) (\<lambda>_. tx_return count)))"

definition delete_vectors_for_file :: "int \<Rightarrow> int \<Rightarrow> int \<Rightarrow> vdb \<Rightarrow> (vector_error + int) \<times> vdb" where
  "delete_vectors_for_file now file_id generation s =
     (if file_id \<le> 0 then (Inl (ErrVectorInvalid ''vector file ID must be positive''), s)
      else if generation < 1 then (Inl (ErrVectorInvalid ''vector generation must be positive''), s)
      else with_tx (tx_bind (require_current_generation_tx file_id generation) (\<lambda>_.
        tx_bind (delete_file_vectors now file_id) (\<lambda>count.
        tx_bind (set_file_model file_id (Some generation) None) (\<lambda>_. tx_return count)))) s)"

definition prune_vector_changes_through :: "int \<Rightarrow> vdb \<Rightarrow> (vector_error + int) \<times> vdb" where
  "prune_vector_changes_through revision s =
     (if revision < 0 then (Inl (ErrVectorInvalid ''vector revision is negative''), s)
      else with_tx (tx_bind (tx_read (\<lambda>s. int (length (filter (\<lambda>c. ch_revision c \<le> revision) (vd_changes s))))) (\<lambda>count.
        tx_bind (tx_modify (\<lambda>s. s\<lparr>vd_changes := rows_delete (\<lambda>c. ch_revision c \<le> revision) (vd_changes s)\<rparr>)) (\<lambda>_.
        tx_return count))) s)"

section \<open>Reads\<close>

definition get_vector :: "int \<Rightarrow> int \<Rightarrow> vdb \<Rightarrow> vector_error + vector" where
  "get_vector file_id frame s =
     (case List.find (\<lambda>r. vr_file_id r = file_id \<and> vr_frame r = frame) (vd_vectors s) of
        None \<Rightarrow> Inl (VectorStore ErrNotFound)
      | Some r \<Rightarrow> scan_vector r)"

fun scan_all :: "vector_row list \<Rightarrow> vector_error + vector list" where
  "scan_all [] = Inr []"
| "scan_all (r # rs) = (case scan_vector r of Inl e \<Rightarrow> Inl e | Inr v \<Rightarrow> map_sum id ((#) v) (scan_all rs))"

definition list_vectors_by_file :: "int \<Rightarrow> vdb \<Rightarrow> vector_error + vector list" where
  "list_vectors_by_file file_id s =
     scan_all (order_by vr_frame (filter (\<lambda>r. vr_file_id r = file_id) (vd_vectors s)))"

text \<open>The visitors: a visitor returns an error, which ends the stream, or its new state.\<close>

fun visit_rows :: "(vector \<Rightarrow> 'x \<Rightarrow> vector_error + 'x) \<Rightarrow> vector_row list \<Rightarrow> 'x \<Rightarrow> vector_error + 'x" where
  "visit_rows visit [] x = Inr x"
| "visit_rows visit (r # rs) x =
     (case scan_vector r of
        Inl e \<Rightarrow> Inl e
      | Inr v \<Rightarrow> (case visit v x of Inl e \<Rightarrow> Inl e | Inr x' \<Rightarrow> visit_rows visit rs x'))"

definition frame_order :: "vector_row \<Rightarrow> int \<times> int" where
  "frame_order r = (vr_file_id r, vr_frame r)"

definition visit_vectors :: "(vector \<Rightarrow> 'x \<Rightarrow> vector_error + 'x) \<Rightarrow> 'x \<Rightarrow> vdb \<Rightarrow> vector_error + 'x" where
  "visit_vectors visit x s = visit_rows visit (order_by frame_order (vd_vectors s)) x"

definition visit_vectors_by_model ::
    "string \<Rightarrow> (vector \<Rightarrow> 'x \<Rightarrow> vector_error + 'x) \<Rightarrow> 'x \<Rightarrow> vdb \<Rightarrow> vector_error + 'x" where
  "visit_vectors_by_model model visit x s =
     (if model = [] then Inl (ErrVectorInvalid ''vector model version is empty'')
      else visit_rows visit (order_by frame_order (filter (\<lambda>r. vr_model r = model) (vd_vectors s))) x)"

definition has_vector_at_timestamp :: "int \<Rightarrow> int \<Rightarrow> vdb \<Rightarrow> bool" where
  "has_vector_at_timestamp file_id ts s \<longleftrightarrow>
     list_ex (\<lambda>r. vr_file_id r = file_id \<and> vr_frame_ts r = Some ts) (vd_vectors s)"

definition vector_model_versions :: "vdb \<Rightarrow> string list" where
  "vector_model_versions s = sort (remdups (map vr_model (vd_vectors s)))"

text \<open>The join with the catalog, latest projection first.\<close>

definition recency :: "vector_row \<times> catalog_file \<Rightarrow> int \<times> int \<times> int \<times> int" where
  "recency p = (case p of (r, f) \<Rightarrow>
     (- (if f_status f = FileStatusIndexed then 1 else 0), - (case f_indexed_at_ms f of None \<Rightarrow> 0 | Some t \<Rightarrow> t),
      - f_generation f, - vr_rowid r))"

definition latest_vector_model_version :: "vdb \<Rightarrow> vector_error + string" where
  "latest_vector_model_version s =
     (case order_by recency [(r, f). r \<leftarrow> vd_vectors s, f \<leftarrow> db_files (vd_db s), f_id f = vr_file_id r] of
        [] \<Rightarrow> Inl (VectorStore ErrNotFound)
      | (r, _) # _ \<Rightarrow> Inr (vr_model r))"

definition max_vector_revision :: "vdb \<Rightarrow> int" where
  "max_vector_revision s = vd_change_seq s"

text \<open>A NULL BLOB reads as an empty slice, a NULL model as the empty string.\<close>

definition scan_change :: "change_row \<Rightarrow> vector_error + vector_change" where
  "scan_change c =
     (let change = \<lparr>vx_revision = ch_revision c, vx_file_id = ch_file_id c, vx_frame = ch_frame c, vx_op = ch_op c,
            vx_frame_ts = ch_frame_ts c, vx_values = [], vx_model = (case ch_model c of None \<Rightarrow> [] | Some m \<Rightarrow> m),
            vx_changed_at = ch_changed_at c\<rparr>
      in case ch_op c of
        VectorChangeUpsert \<Rightarrow>
          (case ch_dims c of
             None \<Rightarrow> Inl (ErrVectorChange (ch_revision c))
           | Some d \<Rightarrow> map_sum id (\<lambda>vs. change\<lparr>vx_values := vs\<rparr>)
               (decode_vector (case ch_blob c of None \<Rightarrow> [] | Some b \<Rightarrow> b) d))
      | VectorChangeDelete \<Rightarrow> Inr change)"

fun visit_changes :: "(vector_change \<Rightarrow> 'x \<Rightarrow> vector_error + 'x) \<Rightarrow> change_row list \<Rightarrow> 'x \<Rightarrow> vector_error + 'x" where
  "visit_changes visit [] x = Inr x"
| "visit_changes visit (c # cs) x =
     (case scan_change c of
        Inl e \<Rightarrow> Inl e
      | Inr v \<Rightarrow> (case visit v x of Inl e \<Rightarrow> Inl e | Inr x' \<Rightarrow> visit_changes visit cs x'))"

definition visit_vector_changes_after ::
    "int \<Rightarrow> (vector_change \<Rightarrow> 'x \<Rightarrow> vector_error + 'x) \<Rightarrow> 'x \<Rightarrow> vdb \<Rightarrow> vector_error + 'x" where
  "visit_vector_changes_after after visit x s =
     (if after < 0 then Inl (ErrVectorInvalid ''vector revision is negative'')
      else visit_changes visit (order_by ch_revision (filter (\<lambda>c. ch_revision c > after) (vd_changes s))) x)"

end
