(* ===== verification/Store_Upgrade.thy ===== *)
theory Store_Upgrade
  imports Store_Vectors Store_Recovery
begin

text \<open>
  Migration of the catalog to another embedding model, \<open>internal/store/model_upgrade.go\<close>, and of the files
  that were indexed before images were, \<open>internal/store/media_backfill.go\<close>: both fence a catalog row by
  a new generation and queue its work in the same transaction.
\<close>

section \<open>The active model\<close>

definition active_embed_model_version :: "db \<Rightarrow> string" where
  "active_embed_model_version db = (case get_meta db active_embed_version_key of Inl _ \<Rightarrow> [] | Inr v \<Rightarrow> v)"

definition adopt_active_tx :: "string \<Rightarrow> bool stx" where
  "adopt_active_tx model =
     tx_bind (tx_read (\<lambda>db. case db_meta db active_embed_version_key of None \<Rightarrow> [] | Some v \<Rightarrow> v)) (\<lambda>current.
     if current = model then tx_return False
     else tx_bind (set_meta_tx active_embed_version_key model) (\<lambda>_. tx_return True))"

definition set_active_embed_model_version :: "string \<Rightarrow> db \<Rightarrow> (store_error + bool) \<times> db" where
  "set_active_embed_model_version model db =
     (if \<not> trimmed_label model then (Inl (ErrInvalidArgument ''active embed model version is invalid''), db)
      else with_tx (adopt_active_tx model) db)"

definition adopt_active_embed_model :: "string \<Rightarrow> int \<Rightarrow> vdb \<Rightarrow> (vector_error + bool) \<times> vdb" where
  "adopt_active_embed_model model dims s =
     (if \<not> trimmed_label model then (Inl (ErrVectorInvalid ''active embed model version is invalid''), s)
      else if dims \<le> 0 then (Inl (ErrVectorInvalid ''active embed model dimensions must be positive''), s)
      else with_tx (tx_bind (require_embed_model_contract_tx model dims) (\<lambda>_. on_db (adopt_active_tx model))) s)"

section \<open>The model upgrade\<close>

definition default_embed_model_upgrade_batch_size :: int where "default_embed_model_upgrade_batch_size = 256"
definition max_embed_model_upgrade_batch_size :: int where "max_embed_model_upgrade_batch_size = 10000"

record upgrade_result =
  ur_enqueued :: nat
  ur_has_more :: bool

text \<open>The predicate of both statements; \<open>COALESCE(embed_model_version,'') <> ?\<close>.\<close>

definition needs_upgrade :: "string \<Rightarrow> catalog_file \<Rightarrow> bool" where
  "needs_upgrade model f \<longleftrightarrow> f_kind f = FileKindImage \<and> f_status f = FileStatusIndexed \<and> f_indexed_at_ms f \<noteq> None \<and>
     (case f_embed_model_version f of None \<Rightarrow> [] | Some v \<Rightarrow> v) \<noteq> model"

definition upgrade_candidates :: "string \<Rightarrow> catalog_file list \<Rightarrow> catalog_file list" where
  "upgrade_candidates model fs = order_by f_id (filter (needs_upgrade model) fs)"

definition upgrade_limit :: "int \<Rightarrow> int" where
  "upgrade_limit limit =
     (let limit = (if limit \<le> 0 then default_embed_model_upgrade_batch_size else limit)
      in if limit > max_embed_model_upgrade_batch_size then max_embed_model_upgrade_batch_size else limit)"

definition upgrade_row :: "catalog_file \<Rightarrow> catalog_file" where
  "upgrade_row f = f\<lparr>f_generation := f_generation f + 1, f_indexed_at_ms := None\<rparr>"

definition upsert_params :: "catalog_file \<Rightarrow> int \<Rightarrow> int \<Rightarrow> enqueue_params" where
  "upsert_params f generation priority = \<lparr>ep_file_id = Some (f_id f), ep_path = f_path f, ep_op = TaskOpUpsert,
     ep_old_path = None, ep_generation = generation, ep_priority = priority, ep_next_attempt_at = 0\<rparr>"

definition upgrade_one :: "int \<Rightarrow> string \<Rightarrow> int \<Rightarrow> nat \<Rightarrow> catalog_file \<Rightarrow> nat stx" where
  "upgrade_one now model priority enqueued item =
     (if f_generation item = max_int64 then tx_fail ErrGenerationExhausted
      else
        tx_bind (update_files (\<lambda>f. f_id f = f_id item \<and> f_generation f = f_generation item \<and> needs_upgrade model f)
          (\<lambda>f. f\<lparr>f_generation := f_generation item + 1, f_indexed_at_ms := None\<rparr>)) (\<lambda>changed.
        if changed = 0 then tx_return enqueued
        else tx_bind (enqueue_tx now (upsert_params item (f_generation item + 1) priority)) (\<lambda>_.
          tx_return (enqueued + 1))))"

definition upgrade_batch_tx :: "int \<Rightarrow> string \<Rightarrow> int \<Rightarrow> nat \<Rightarrow> upgrade_result stx" where
  "upgrade_batch_tx now model priority limit =
     tx_bind (tx_read (\<lambda>db. take (limit + 1) (upgrade_candidates model (db_files db)))) (\<lambda>candidates.
     tx_bind (tx_fold (upgrade_one now model priority) 0 (take limit candidates)) (\<lambda>enqueued.
     tx_return \<lparr>ur_enqueued = enqueued, ur_has_more = length candidates > limit\<rparr>))"

definition enqueue_embed_model_upgrade_batch ::
    "int \<Rightarrow> string \<Rightarrow> int \<Rightarrow> int \<Rightarrow> db \<Rightarrow> (store_error + upgrade_result) \<times> db" where
  "enqueue_embed_model_upgrade_batch now model priority limit db =
     (if \<not> trimmed_label model then (Inl (ErrInvalidArgument ''embed model upgrade version is invalid''), db)
      else if priority < 0 then (Inl (ErrInvalidArgument ''embed model upgrade priority is negative''), db)
      else with_tx (upgrade_batch_tx now model priority (nat (upgrade_limit limit))) db)"

section \<open>The media backfill\<close>

definition default_media_backfill_page_limit :: int where "default_media_backfill_page_limit = 1000"
definition max_media_backfill_page_limit :: int where "max_media_backfill_page_limit = 10000"

definition needs_backfill :: "catalog_file \<Rightarrow> bool" where
  "needs_backfill f \<longleftrightarrow> f_kind f = FileKindOther \<and> f_status f = FileStatusIndexed \<and> f_indexed_at_ms f \<noteq> None"

definition list_media_backfill_candidates :: "int \<Rightarrow> int \<Rightarrow> db \<Rightarrow> store_error + catalog_file list" where
  "list_media_backfill_candidates after limit db =
     (if after < 0 then Inl (ErrInvalidArgument ''media backfill cursor is negative'')
      else let limit = (if limit \<le> 0 then default_media_backfill_page_limit else limit);
               limit = (if limit > max_media_backfill_page_limit then max_media_backfill_page_limit else limit)
           in Inr (take (nat limit) (order_by f_id (filter (\<lambda>f. f_id f > after \<and> needs_backfill f) (db_files db)))))"

record backfill_result =
  bf_applied :: bool
  bf_task :: "task option"

definition backfill_row :: "catalog_file \<Rightarrow> catalog_file" where
  "backfill_row f = f\<lparr>f_generation := f_generation f + 1, f_status := FileStatusPending, f_indexed_at_ms := None\<rparr>"

definition enqueue_media_backfill_tx :: "int \<Rightarrow> int \<Rightarrow> int \<Rightarrow> int \<Rightarrow> backfill_result stx" where
  "enqueue_media_backfill_tx now file_id generation priority =
     (let p = (\<lambda>f. f_id f = file_id \<and> f_generation f = generation \<and> f_generation f < max_int64 \<and> needs_backfill f) in
     tx_bind (find_file p) (\<lambda>found.
     case found of
       None \<Rightarrow>
         tx_bind (find_file (\<lambda>f. f_id f = file_id \<and> f_generation f = max_int64)) (\<lambda>exhausted.
         if exhausted \<noteq> None then tx_fail ErrGenerationExhausted
         else tx_return \<lparr>bf_applied = False, bf_task = None\<rparr>)
     | Some old \<Rightarrow>
         tx_bind (update_files p backfill_row) (\<lambda>_.
         tx_bind (enqueue_tx now (upsert_params (backfill_row old) (f_generation (backfill_row old)) priority)) (\<lambda>r.
         tx_return \<lparr>bf_applied = True, bf_task = Some (er_task r)\<rparr>))))"

definition enqueue_media_backfill ::
    "int \<Rightarrow> int \<Rightarrow> int \<Rightarrow> int \<Rightarrow> db \<Rightarrow> (store_error + backfill_result) \<times> db" where
  "enqueue_media_backfill now file_id generation priority db =
     (if file_id \<le> 0 \<or> generation \<le> 0 then (Inl (ErrInvalidArgument ''media backfill identity must be positive''), db)
      else if priority < 0 then (Inl (ErrInvalidArgument ''media backfill priority is negative''), db)
      else with_tx (enqueue_media_backfill_tx now file_id generation priority) db)"

end
