(* ===== verification/Store_Upgrade_Laws.thy ===== *)
theory Store_Upgrade_Laws
  imports Store_Upgrade Store_Queue_Laws
begin

text \<open>Laws of \<open>Store_Upgrade\<close>: what one fence and one batch do to the catalog and the queue.\<close>

section \<open>One fence\<close>

lemma file_ok_fences: "file_ok f \<Longrightarrow> file_ok (upgrade_row f)" "file_ok f \<Longrightarrow> file_ok (backfill_row f)"
  by (auto simp: file_ok_def upgrade_row_def backfill_row_def status_ok_def)

lemma fence_simps [simp]:
  "f_id (upgrade_row f) = f_id f" "f_path_key (upgrade_row f) = f_path_key f" "f_path (upgrade_row f) = f_path f"
  "f_generation (upgrade_row f) = f_generation f + 1" "\<not> needs_upgrade model (upgrade_row f)"
  "f_id (backfill_row f) = f_id f" "f_path_key (backfill_row f) = f_path_key f" "f_path (backfill_row f) = f_path f"
  "f_generation (backfill_row f) = f_generation f + 1" "\<not> needs_backfill (backfill_row f)"
  by (simp_all add: upgrade_row_def backfill_row_def needs_upgrade_def needs_backfill_def)

text \<open>The file has its new row and a pending task of at least the new generation.\<close>

definition queued_at :: "catalog_file \<Rightarrow> task list \<Rightarrow> bool" where
  "queued_at f ts \<longleftrightarrow> (\<exists>t\<in>set ts. t_slot t = (path_key (f_path f), TaskStatePending) \<and> f_generation f < t_generation t)"

lemma queued_at_mono: "queued_at f ts \<Longrightarrow> pending_le ts us \<Longrightarrow> queued_at f us"
proof -
  assume q: "queued_at f ts" and le: "pending_le ts us"
  obtain t where t: "t \<in> set ts" "t_slot t = (path_key (f_path f), TaskStatePending)" "f_generation f < t_generation t"
    using q by (auto simp: queued_at_def)
  then have "t_state t = TaskStatePending" by (simp add: t_slot_def)
  then obtain v where "v \<in> set us" "t_slot v = t_slot t" "t_generation t \<le> t_generation v"
    using le t(1) unfolding pending_le_def by blast
  then show ?thesis using t by (auto simp: queued_at_def intro!: bexI[of _ v])
qed

text \<open>A fence of one row, followed by its task: the shape of both operations.\<close>

lemma rows_update_one:
  assumes "distinct (map f_id fs)" "f \<in> set fs" "p f" "\<And>g. p g \<Longrightarrow> f_id g = f_id f" "h f = h' f"
  shows "rows_update p h fs = map (\<lambda>g. if g = f then h' g else g) fs"
  unfolding rows_update_def
proof (rule map_cong[OF refl])
  fix g assume "g \<in> set fs"
  then have "p g \<longleftrightarrow> g = f" using assms(1-4) by (metis distinct_map inj_onD)
  then show "(if p g then h g else g) = (if g = f then h' g else g)" using assms(5) by auto
qed

definition fenced_files :: "(catalog_file \<Rightarrow> catalog_file) \<Rightarrow> catalog_file set \<Rightarrow> catalog_file list \<Rightarrow> catalog_file list" where
  "fenced_files h S fs = map (\<lambda>g. if g \<in> S then h g else g) fs"

lemma fence_one:
  assumes inv: "tx_inv db0 db" and f: "f \<in> set (db_files db)" "p f" "\<And>g. p g \<Longrightarrow> f_id g = f_id f"
    and h: "\<And>g. p g \<Longrightarrow> h g = h' g" "\<And>g. file_ok g \<Longrightarrow> file_ok (h' g)" "\<And>g. f_id (h' g) = f_id g"
      "\<And>g. f_path_key (h' g) = f_path_key g" "\<And>g. f_generation (h' g) = f_generation g + 1"
  shows "rows_update p h (db_files db) = fenced_files h' {f} (db_files db)"
    and "tx_inv db0 (db\<lparr>db_files := fenced_files h' {f} (db_files db)\<rparr>)"
    and "distinct (map f_path_key (fenced_files h' {f} (db_files db)))" "filter p (db_files db) \<noteq> []"
proof -
  have wf: "files_wf (db_files db)" using inv by (rule inv_tables)
  have hp: "h f = h' f" by (rule h(1)[OF f(2)])
  have ids: "distinct (map f_id (db_files db))" using wf by (simp add: files_wf_def)
  have fs: "rows_update p h (db_files db) = fenced_files h' {f} (db_files db)"
    unfolding fenced_files_def singleton_iff by (rule rows_update_one[OF ids f(1), where p = p]; (rule f hp)?; assumption?)
  then show "rows_update p h (db_files db) = fenced_files h' {f} (db_files db)" .
  have ok: "file_ok (h r) \<and> f_id (h r) = f_id r \<and> f_path_key (h r) = f_path_key r \<and> f_generation r \<le> f_generation (h r)"
    if "r \<in> set (db_files db)" "p r" for r
    unfolding h(1)[OF that(2)] using h(2)[OF files_wfD(2)[OF wf that(1)]] by (simp add: h(3-5))
  show "tx_inv db0 (db\<lparr>db_files := fenced_files h' {f} (db_files db)\<rparr>)"
    "distinct (map f_path_key (fenced_files h' {f} (db_files db)))"
    using inv_update_files_frame[OF inv, of p h, OF ok] unfolding fs by blast+
  show "filter p (db_files db) \<noteq> []" using f(1,2) by (auto simp: filter_empty_conv)
qed

lemma wp_upgrade_one:
  assumes inv: "tx_inv db0 db" and f: "f \<in> set (db_files db)" "needs_upgrade model f"
    and E: "\<And>e. no_conflict e \<Longrightarrow> E e"
    and Q: "\<And>us. tx_inv db0 (db\<lparr>db_files := fenced_files upgrade_row {f} (db_files db), db_tasks := us\<rparr>) \<Longrightarrow>
      queued_at f us \<Longrightarrow> pending_le (db_tasks db) us \<Longrightarrow> work_le (db_tasks db) us \<Longrightarrow>
      Q (n + 1) (db\<lparr>db_files := fenced_files upgrade_row {f} (db_files db), db_tasks := us\<rparr>)"
  shows "wp (upgrade_one now model priority n f) Q E db"
proof (cases "f_generation f = max_int64")
  case True
  then show ?thesis using E by (simp add: upgrade_one_def wp_simps)
next
  case False
  let ?p = "\<lambda>g. f_id g = f_id f \<and> f_generation g = f_generation f \<and> needs_upgrade model g"
  let ?h = "\<lambda>g. g\<lparr>f_generation := f_generation f + 1, f_indexed_at_ms := None\<rparr>"
  let ?fs = "fenced_files upgrade_row {f} (db_files db)"
  note u = fence_one[OF inv f(1), of ?p ?h upgrade_row]
  have u: "rows_update ?p ?h (db_files db) = ?fs" "tx_inv db0 (db\<lparr>db_files := ?fs\<rparr>)"
    "distinct (map f_path_key ?fs)" "filter ?p (db_files db) \<noteq> []"
    by (rule u; use f file_ok_fences in \<open>auto simp: upgrade_row_def\<close>)+
  have "wp (enqueue_tx now (upsert_params f (f_generation f + 1) priority)) (\<lambda>_. Q (n + 1)) E (db\<lparr>db_files := ?fs\<rparr>)"
  proof (rule wp_enqueue_tx[OF u(2) E], assumption)
    fix r us
    assume *: "tx_inv db0 (db\<lparr>db_files := ?fs, db_tasks := us\<rparr>)" "er_task r \<in> set us"
      "t_slot (er_task r) = (path_key (ep_path (upsert_params f (f_generation f + 1) priority)), TaskStatePending)"
      "ep_generation (upsert_params f (f_generation f + 1) priority) \<le> t_generation (er_task r)"
      "work_le (db_tasks (db\<lparr>db_files := ?fs\<rparr>)) us" "pending_le (db_tasks (db\<lparr>db_files := ?fs\<rparr>)) us"
    have "queued_at f us" using *(2-4) by (auto simp: queued_at_def upsert_params_def intro!: bexI[of _ "er_task r"])
    then show "Q (n + 1) (db\<lparr>db_files := ?fs, db_tasks := us\<rparr>)" using * by (intro Q) auto
  qed
  then show ?thesis using False u(1,3,4) by (simp add: upgrade_one_def wp_simps)
qed

section \<open>A batch\<close>

lemma fenced_files_more:
  assumes "\<And>g. g \<in> S \<Longrightarrow> f_id (h g) = f_id g" "f \<notin> S" "distinct (map f_id fs)" "S \<subseteq> set fs" "f \<in> set fs"
  shows "fenced_files h {f} (fenced_files h S fs) = fenced_files h (insert f S) fs"
  unfolding fenced_files_def map_map comp_def
proof (rule map_cong[OF refl])
  fix g assume g: "g \<in> set fs"
  have "h g \<noteq> f" if "g \<in> S"
  proof
    assume "h g = f"
    then have "f_id g = f_id f" using assms(1)[OF that] by simp
    then have "g = f" using assms(3,5) g by (metis distinct_map inj_onD)
    then show False using that assms(2) by simp
  qed
  then show "(if (if g \<in> S then h g else g) \<in> {f} then h (if g \<in> S then h g else g) else if g \<in> S then h g else g) =
      (if g \<in> insert f S then h g else g)"
    by auto
qed

lemma in_fenced_files: "f \<in> set fs \<Longrightarrow> f \<notin> S \<Longrightarrow> f \<in> set (fenced_files h S fs)"
  "f \<in> set fs \<Longrightarrow> f \<in> S \<Longrightarrow> h f \<in> set (fenced_files h S fs)"
  by (force simp: fenced_files_def)+

definition batch_done :: "db \<Rightarrow> catalog_file set \<Rightarrow> db \<Rightarrow> bool" where
  "batch_done db S db' \<longleftrightarrow> (\<exists>us. db' = db\<lparr>db_files := fenced_files upgrade_row S (db_files db), db_tasks := us\<rparr> \<and>
     (\<forall>f\<in>S. queued_at f us) \<and> pending_le (db_tasks db) us \<and> work_le (db_tasks db) us)"

lemma wp_upgrade_all:
  assumes inv: "tx_inv db0 db" and cs: "set cs \<subseteq> set (db_files db)" "distinct cs" "\<forall>f\<in>set cs. needs_upgrade model f"
    and E: "\<And>e. no_conflict e \<Longrightarrow> E e"
  shows "wp (tx_fold (upgrade_one now model priority) 0 cs)
    (\<lambda>n db'. n = length cs \<and> tx_inv db0 db' \<and> batch_done db (set cs) db') E db"
proof -
  define I where "I n rest db' \<longleftrightarrow> n + length rest = length cs \<and> set rest \<subseteq> set cs \<and> distinct rest \<and> tx_inv db0 db' \<and>
    batch_done db (set cs - set rest) db'" for n :: nat and rest db'
  have ids: "distinct (map f_id (db_files db))" using inv_tables(2)[OF inv] by (simp add: files_wf_def)
  have "wp (tx_fold (upgrade_one now model priority) 0 cs) (\<lambda>n. I n []) E db"
  proof (rule wp_fold_rest)
    have "fenced_files upgrade_row {} (db_files db) = db_files db" by (simp add: fenced_files_def)
    then show "I 0 cs db" using inv cs(2) unfolding I_def batch_done_def
      by (intro conjI exI[of _ "db_tasks db"]) auto
  next
    fix n f rest db'
    assume i: "I n (f # rest) db'"
    let ?S = "set cs - set (f # rest)"
    obtain us where db': "db' = db\<lparr>db_files := fenced_files upgrade_row ?S (db_files db), db_tasks := us\<rparr>"
      and q: "\<forall>f\<in>?S. queued_at f us" "pending_le (db_tasks db) us" "work_le (db_tasks db) us"
      using i unfolding I_def batch_done_def by blast
    have f: "f \<in> set (db_files db)" "f \<notin> ?S" "needs_upgrade model f" using i cs by (auto simp: I_def)
    have S: "set cs - set rest = insert f ?S" using i by (auto simp: I_def)
    have files: "fenced_files upgrade_row {f} (db_files db') = fenced_files upgrade_row (set cs - set rest) (db_files db)"
      unfolding S db' using fenced_files_more[OF _ f(2) ids _ f(1), of upgrade_row] cs(1) by auto
    show "wp (upgrade_one now model priority n f) (\<lambda>n. I n rest) E db'"
    proof (rule wp_upgrade_one[OF _ _ f(3) E])
      show "tx_inv db0 db'" using i by (simp add: I_def)
      show "f \<in> set (db_files db')" using in_fenced_files(1)[OF f(1,2)] by (simp add: db')
    next
      fix vs
      assume v: "tx_inv db0 (db'\<lparr>db_files := fenced_files upgrade_row {f} (db_files db'), db_tasks := vs\<rparr>)"
        "queued_at f vs" "pending_le (db_tasks db') vs" "work_le (db_tasks db') vs"
      have "\<forall>f\<in>set cs - set rest. queued_at f vs" unfolding S using q(1) v(2,3) queued_at_mono by (auto simp: db')
      moreover have "pending_le (db_tasks db) vs" "work_le (db_tasks db) vs"
        using q v(3,4) by (auto simp: db' intro: pending_le_trans work_le_trans)
      ultimately have "batch_done db (set cs - set rest) (db'\<lparr>db_files := fenced_files upgrade_row {f} (db_files db'), db_tasks := vs\<rparr>)"
        unfolding batch_done_def files by (intro exI[of _ vs]) (simp add: db')
      then show "I (n + 1) rest (db'\<lparr>db_files := fenced_files upgrade_row {f} (db_files db'), db_tasks := vs\<rparr>)"
        using i v(1) by (auto simp: I_def)
    qed (auto dest: E)
  qed
  then show ?thesis by (rule wp_mono) (auto simp: I_def)
qed

text \<open>What is left for the next batch.\<close>

lemma candidates_after:
  assumes "distinct (map f_id fs)"
  shows "upgrade_candidates model (fenced_files upgrade_row (set (take n (upgrade_candidates model fs))) fs) =
    drop n (upgrade_candidates model fs)"
proof -
  let ?C = "upgrade_candidates model fs" and ?S = "set (take n (upgrade_candidates model fs))"
  have "filter (needs_upgrade model) (fenced_files upgrade_row S fs) = filter (\<lambda>f. f \<notin> S) (filter (needs_upgrade model) fs)" for S
    by (induction fs) (auto simp: fenced_files_def)
  then have "upgrade_candidates model (fenced_files upgrade_row ?S fs) = filter (\<lambda>f. f \<notin> ?S) ?C"
    by (simp add: upgrade_candidates_def order_by_def filter_sort)
  moreover have "distinct ?C" using assms by (simp add: upgrade_candidates_def order_by_def distinct_map)
  then have "filter (\<lambda>f. f \<notin> ?S) (take n ?C @ drop n ?C) = drop n ?C"
    unfolding filter_append by (auto simp: filter_empty_conv filter_id_conv dest: set_take_disj_set_drop_if_distinct[OF _ order.refl])
  ultimately show ?thesis by simp
qed

end
