(* ===== verification/Invariants.thy ===== *)
theory Invariants
  imports Prelude
begin

text \<open>Invariants of transactions: the combinators keep what their parts keep, so that an invariant of a
  write is a matter of its statements.\<close>

section \<open>Transactions that keep an invariant\<close>

definition keeps :: "('s \<Rightarrow> bool) \<Rightarrow> ('e, 's, 'a) tx \<Rightarrow> bool" where
  "keeps I m \<longleftrightarrow> (\<forall>s. I s \<longrightarrow> wp m (\<lambda>_. I) (\<lambda>_. True) s)"

named_theorems keeps_intros "transaction combinators keep an invariant"

lemma keeps_return [keeps_intros]: "keeps I (tx_return x)"
  by (simp add: keeps_def wp_simps)

lemma keeps_fail [keeps_intros]: "keeps I (tx_fail e)"
  by (simp add: keeps_def wp_simps)

lemma keeps_read [keeps_intros]: "keeps I (tx_read f)"
  by (simp add: keeps_def wp_simps)

lemma keeps_lift [keeps_intros]: "keeps I (tx_lift r)"
  by (simp add: keeps_def wp_simps split: sum.splits)

lemma keeps_modify: "(\<And>s. I s \<Longrightarrow> I (f s)) \<Longrightarrow> keeps I (tx_modify f)"
  by (simp add: keeps_def wp_simps)

lemma keeps_bind [keeps_intros]: "keeps I m \<Longrightarrow> (\<And>x. keeps I (f x)) \<Longrightarrow> keeps I (tx_bind m f)"
  unfolding keeps_def wp_bind by (blast intro: wp_mono)

lemma keeps_each: "(\<And>x. x \<in> set xs \<Longrightarrow> keeps I (f x)) \<Longrightarrow> keeps I (tx_each f xs)"
  by (induction xs) (auto intro: keeps_intros)

lemma keeps_if [keeps_intros]: "(b \<Longrightarrow> keeps I m) \<Longrightarrow> (\<not> b \<Longrightarrow> keeps I n) \<Longrightarrow> keeps I (if b then m else n)"
  by simp

lemma keeps_option [keeps_intros]:
  "keeps I m \<Longrightarrow> (\<And>y. keeps I (f y)) \<Longrightarrow> keeps I (case x of None \<Rightarrow> m | Some y \<Rightarrow> f y)"
  by (cases x) simp_all

lemma keeps_with_tx: "keeps I m \<Longrightarrow> I s \<Longrightarrow> I (snd (with_tx m s))"
  by (auto simp: keeps_def wp_def with_tx_def split: sum.splits)

end
