(* ===== verification/Store_Vectors_Laws.thy ===== *)
theory Store_Vectors_Laws
  imports Store_Vectors Invariants
begin

text \<open>
  Laws of \<open>Store_Vectors\<close>: the encoding of values, well-formed vector tables, and the two invariants the
  writes keep: rows of a contracted model have its width, and the recovery stream replays the truth.
\<close>

section \<open>Little-endian BLOBs\<close>

lemma uint32_of_put:
  "uint32_of (ucast w) (ucast (drop_bit 8 w)) (ucast (drop_bit 16 w)) (ucast (drop_bit 24 w)) = w"
proof (rule bit_word_eqI)
  fix n assume "n < LENGTH(32)"
  then have n: "n < 32" by simp
  then consider "n < 8"
    | "8 \<le> n" "n < 16" "n - 8 < 8" "n - 8 < 32"
    | "16 \<le> n" "n < 24" "\<not> n - 8 < 8" "n - 16 < 8" "n - 16 < 32"
    | "24 \<le> n" "\<not> n - 8 < 8" "\<not> n - 16 < 8" "n - 24 < 8"
    by linarith
  then show "bit (uint32_of (ucast w) (ucast (drop_bit 8 w)) (ucast (drop_bit 16 w)) (ucast (drop_bit 24 w))) n = bit w n"
    by cases (simp_all add: uint32_of_def bit_simps n)
qed

lemma put_uint32_of: "put_uint32 (uint32_of a b c d) = [a, b, c, d]"
  by (auto simp: put_uint32_def uint32_of_def intro!: bit_word_eqI)
    (auto simp: bit_simps dest: bit_imp_le_length)

lemma put_uint32_eq:
  "put_uint32 w = [ucast w, ucast (drop_bit 8 w), ucast (drop_bit 16 w), ucast (drop_bit 24 w)]"
  by (simp add: put_uint32_def)

lemma length_encode_vector [simp]: "length (encode_vector vs) = 4 * length vs"
  by (induction vs) (simp_all add: encode_vector_def put_uint32_eq)

lemma uint32s_encode [simp]: "uint32s (encode_vector vs) = vs"
  by (induction vs) (simp_all add: encode_vector_def put_uint32_eq uint32_of_put)

lemma encode_uint32s: "length bs = 4 * n \<Longrightarrow> encode_vector (uint32s bs) = bs \<and> length (uint32s bs) = n"
proof (induction bs arbitrary: n rule: uint32s.induct)
  case (1 a b c d rest)
  then obtain m where "n = Suc m" by (cases n) auto
  then show ?case using 1 by (simp add: encode_vector_def put_uint32_of)
qed (auto simp: encode_vector_def, presburger+)

section \<open>Well-formed tables\<close>

definition key_of_row :: "vector_row \<Rightarrow> int \<times> int" where
  "key_of_row r = (vr_file_id r, vr_frame r)"

definition row_ok :: "vector_row \<Rightarrow> bool" where
  "row_ok r \<longleftrightarrow> 0 \<le> vr_frame r \<and> vr_frame r < 2 ^ 16 \<and> 0 < vr_dims r \<and> int (length (vr_blob r)) = vr_dims r * 4"

definition change_ok :: "change_row \<Rightarrow> bool" where
  "change_ok c \<longleftrightarrow> (ch_op c = VectorChangeUpsert \<longrightarrow>
     (case (ch_dims c, ch_blob c, ch_model c) of
        (Some d, Some b, Some _) \<Rightarrow> 0 < d \<and> int (length b) = d * 4
      | _ \<Rightarrow> False))"

definition vec_wf :: "vdb \<Rightarrow> bool" where
  "vec_wf s \<longleftrightarrow> distinct (map key_of_row (vd_vectors s)) \<and> list_all row_ok (vd_vectors s) \<and>
     list_all change_ok (vd_changes s) \<and> sorted_wrt (<) (map ch_revision (vd_changes s)) \<and>
     list_all (\<lambda>c. ch_revision c \<le> vd_change_seq s) (vd_changes s)"

definition contract_ok :: "vdb \<Rightarrow> bool" where
  "contract_ok s \<longleftrightarrow> (\<forall>r\<in>set (vd_vectors s). vd_contracts s (vr_model r) \<in> {None, Some (vr_dims r)})"

section \<open>Projections\<close>

text \<open>A projection of the truth: timestamp, values and model of each frame; and what a change does to it.\<close>

type_synonym projection = "int \<times> int \<Rightarrow> (int option \<times> 32 word list \<times> string) option"

definition entry_of_row :: "vector_row \<Rightarrow> int option \<times> 32 word list \<times> string" where
  "entry_of_row r = (vr_frame_ts r, uint32s (vr_blob r), vr_model r)"

definition project :: "vector_row list \<Rightarrow> projection" where
  "project rs = map_of (map (\<lambda>r. (key_of_row r, entry_of_row r)) rs)"

definition apply_change :: "vector_change \<Rightarrow> projection \<Rightarrow> projection" where
  "apply_change c p = (case vx_op c of
     VectorChangeUpsert \<Rightarrow> p((vx_file_id c, vx_frame c) \<mapsto> (vx_frame_ts c, vx_values c, vx_model c))
   | VectorChangeDelete \<Rightarrow> p((vx_file_id c, vx_frame c) := None))"

definition apply_row :: "change_row \<Rightarrow> projection \<Rightarrow> projection" where
  "apply_row c p = (case ch_op c of
     VectorChangeUpsert \<Rightarrow> p((ch_file_id c, ch_frame c) \<mapsto> (ch_frame_ts c, uint32s (the (ch_blob c)), the (ch_model c)))
   | VectorChangeDelete \<Rightarrow> p((ch_file_id c, ch_frame c) := None))"

definition replay :: "int \<Rightarrow> projection \<Rightarrow> vdb \<Rightarrow> projection" where
  "replay r p s = fold apply_row (filter (\<lambda>c. ch_revision c > r) (vd_changes s)) p"

text \<open>The whole invariant; \<open>r\<close> and \<open>p\<close> are a watermark and the projection at that watermark.\<close>

definition stream_inv :: "int \<Rightarrow> projection \<Rightarrow> vdb \<Rightarrow> bool" where
  "stream_inv r p s \<longleftrightarrow> vec_wf s \<and> contract_ok s \<and> r \<le> vd_change_seq s \<and> replay r p s = project (vd_vectors s)"

lemma visit_changes_replay:
  assumes "list_all change_ok cs"
  shows "visit_changes (\<lambda>c p. Inr (apply_change c p)) cs p = Inr (fold apply_row cs p)"
  using assms
proof (induction cs arbitrary: p)
  case (Cons c cs)
  then show ?case
    by (cases "ch_op c")
      (auto simp: scan_change_def decode_vector_def change_ok_def apply_change_def apply_row_def Let_def
        split: option.splits)
qed simp

lemma visit_changes_after:
  assumes "vec_wf s" "0 \<le> r"
  shows "visit_vector_changes_after r (\<lambda>c p. Inr (apply_change c p)) p s = Inr (replay r p s)"
proof -
  let ?cs = "filter (\<lambda>c. ch_revision c > r) (vd_changes s)"
  have "sorted_wrt (<) (map ch_revision ?cs)"
    using assms(1) by (simp add: vec_wf_def sorted_wrt_map sorted_wrt_filter)
  then have "sorted (map ch_revision ?cs)" by (simp add: strict_sorted_iff)
  then have "order_by ch_revision ?cs = ?cs" by (simp add: order_by_def sort_key_id_if_sorted)
  moreover have "list_all change_ok ?cs" using assms(1) by (auto simp: vec_wf_def list_all_iff)
  ultimately show ?thesis using assms(2)
    by (simp add: visit_vector_changes_after_def visit_changes_replay replay_def)
qed

section \<open>Statements keep the invariant\<close>

lemma project_simps [simp]:
  "project [] = Map.empty" "project (x # rs) = (project rs)(key_of_row x \<mapsto> entry_of_row x)"
  by (simp_all add: project_def)

lemma project_Some:
  assumes "distinct (map key_of_row rs)" "x \<in> set rs"
  shows "project rs (key_of_row x) = Some (entry_of_row x)"
  using assms by (induction rs) (auto simp: image_iff)

lemma project_None: "k \<notin> key_of_row ` set rs \<Longrightarrow> project rs k = None"
  by (induction rs) auto

lemma project_append:
  assumes "key_of_row x \<notin> key_of_row ` set rs"
  shows "project (rs @ [x]) = (project rs)(key_of_row x \<mapsto> entry_of_row x)"
  using assms by (induction rs) (auto simp: fun_upd_twist)

lemma project_update:
  assumes "distinct (map key_of_row rs)" "\<And>y. p y \<longleftrightarrow> key_of_row y = key_of_row x" "key_of_row x \<in> key_of_row ` set rs"
  shows "project (rows_update p (\<lambda>_. x) rs) = (project rs)(key_of_row x \<mapsto> entry_of_row x)"
  using assms(1,3)
proof (induction rs)
  case (Cons y rs)
  show ?case
  proof (cases "key_of_row y = key_of_row x")
    case True
    then have "\<not> p r" if "r \<in> set rs" for r using that Cons.prems assms(2) by (auto simp: image_iff)
    then have "rows_update p (\<lambda>_. x) rs = rs" by (rule rows_update_none)
    moreover have "rows_update p (\<lambda>_. x) (y # rs) = x # rows_update p (\<lambda>_. x) rs"
      using True assms(2) by (simp add: rows_update_def)
    ultimately show ?thesis using True by (simp add: fun_eq_iff)
  next
    case False
    then have "rows_update p (\<lambda>_. x) (y # rs) = y # rows_update p (\<lambda>_. x) rs"
      using assms(2) by (simp add: rows_update_def)
    then show ?thesis using Cons False by (auto simp: fun_upd_twist)
  qed
qed simp

lemma project_delete:
  assumes "distinct (map key_of_row rs)"
  shows "project (rows_delete p rs) = (\<lambda>k. if k \<in> key_of_row ` set (filter p rs) then None else project rs k)"
  using assms
proof (induction rs)
  case (Cons y rs)
  then have y: "key_of_row y \<notin> key_of_row ` set rs" by simp
  then have "key_of_row y \<notin> key_of_row ` set (filter p rs)" by auto
  then show ?case using Cons y project_None[OF y]
    by (auto simp: rows_delete_def fun_eq_iff)
qed (simp add: rows_delete_def fun_eq_iff)

text \<open>Appending one change to the stream.\<close>

lemma replay_append:
  assumes "r \<le> vd_change_seq s" "\<And>n. ch_revision (mk n) = n"
  shows "replay r p (append_change mk s) = apply_row (mk (vd_change_seq s + 1)) (replay r p s)"
  using assms by (simp add: replay_def append_change_def)

lemma append_change_simps [simp]:
  "vd_db (append_change mk s) = vd_db s" "vd_vectors (append_change mk s) = vd_vectors s"
  "vd_contracts (append_change mk s) = vd_contracts s" "vd_change_seq (append_change mk s) = vd_change_seq s + 1"
  by (simp_all add: append_change_def)

definition changes_ok :: "vdb \<Rightarrow> bool" where
  "changes_ok s \<longleftrightarrow> list_all change_ok (vd_changes s) \<and> sorted_wrt (<) (map ch_revision (vd_changes s)) \<and>
     list_all (\<lambda>c. ch_revision c \<le> vd_change_seq s) (vd_changes s)"

lemma changes_ok_append:
  assumes "changes_ok s" "\<And>n. ch_revision (mk n) = n" "\<And>n. change_ok (mk n)"
  shows "changes_ok (append_change mk s)"
  using assms by (force simp: changes_ok_def append_change_def sorted_wrt_append list_all_iff)

lemma upsert_change_simps [simp]:
  "ch_revision (upsert_change now n r) = n" "ch_revision (delete_change now n r) = n"
  "row_ok r \<Longrightarrow> change_ok (upsert_change now n r)" "change_ok (delete_change now n r)"
  "apply_row (upsert_change now n r) p = p(key_of_row r \<mapsto> entry_of_row r)"
  "apply_row (delete_change now n r) p = p(key_of_row r := None)"
  by (simp_all add: upsert_change_def delete_change_def change_ok_def row_ok_def apply_row_def key_of_row_def entry_of_row_def)

lemma validate_row_ok: "validate_vector v = Inr () \<Longrightarrow> row_ok (row_of i v)"
  by (auto simp: validate_vector_def row_ok_def row_of_def split: if_splits)

lemma row_of_simps [simp]:
  "key_of_row (row_of i v) = (vc_file_id v, vc_frame v)" "entry_of_row (row_of i v) = (vc_frame_ts v, vc_values v, vc_model v)"
  "vr_model (row_of i v) = vc_model v" "vr_dims (row_of i v) = int (length (vc_values v))"
  by (simp_all add: row_of_def key_of_row_def entry_of_row_def)

lemma same_frame_key: "same_frame v r \<longleftrightarrow> key_of_row r = (vc_file_id v, vc_frame v)"
  by (auto simp: same_frame_def key_of_row_def)

text \<open>The rows after an upsert: one row with the values, and the others unchanged.\<close>

definition upserted :: "int \<Rightarrow> vector \<Rightarrow> vdb \<Rightarrow> vdb \<Rightarrow> bool" where
  "upserted now v s s' \<longleftrightarrow> (\<exists>row rs. row_ok row \<and> key_of_row row = (vc_file_id v, vc_frame v) \<and>
     entry_of_row row = (vc_frame_ts v, vc_values v, vc_model v) \<and> vr_dims row = int (length (vc_values v)) \<and>
     distinct (map key_of_row rs) \<and> set rs \<subseteq> insert row (set (vd_vectors s)) \<and>
     project rs = (project (vd_vectors s))(key_of_row row \<mapsto> entry_of_row row) \<and>
     s' = append_change (\<lambda>n. upsert_change now n row) (s\<lparr>vd_vectors := rs\<rparr>))"

lemma wp_upsert_vector:
  assumes "distinct (map key_of_row (vd_vectors s))" "validate_vector v = Inr ()"
    and Q: "\<And>s'. upserted now v s s' \<Longrightarrow> Q () s'"
  shows "wp (upsert_vector now v) Q E s"
proof -
  let ?rs = "vd_vectors s" and ?k = "(vc_file_id v, vc_frame v)"
  show ?thesis
  proof (cases "List.find (same_frame v) ?rs")
    case None
    let ?row = "row_of (next_rowid (map vr_rowid ?rs)) v"
    have new: "?k \<notin> key_of_row ` set ?rs" using None by (auto simp: find_None_iff same_frame_key)
    have "upserted now v s (append_change (\<lambda>n. upsert_change now n ?row) (s\<lparr>vd_vectors := ?rs @ [?row]\<rparr>))"
      unfolding upserted_def
      by (intro exI[of _ ?row] exI[of _ "?rs @ [?row]"])
        (use assms new validate_row_ok project_append[of ?row ?rs] in auto)
    then show ?thesis using Q None by (simp add: upsert_vector_def wp_simps Let_def)
  next
    case (Some old)
    let ?row = "row_of (vr_rowid old) v" and ?p = "same_frame v"
    have "old \<in> set ?rs" "key_of_row old = ?k" using Some by (auto simp: find_Some_iff same_frame_key)
    then have old: "?k \<in> key_of_row ` set ?rs" by (metis image_eqI)
    have "map key_of_row (rows_update ?p (\<lambda>_. ?row) ?rs) = map key_of_row ?rs"
      by (auto simp: rows_update_def same_frame_key)
    then have "distinct (map key_of_row (rows_update ?p (\<lambda>_. ?row) ?rs))" using assms(1) by simp
    moreover have "set (rows_update ?p (\<lambda>_. ?row) ?rs) \<subseteq> insert ?row (set ?rs)" by (auto simp: rows_update_def)
    moreover have "project (rows_update ?p (\<lambda>_. ?row) ?rs) = (project ?rs)(key_of_row ?row \<mapsto> entry_of_row ?row)"
      by (rule project_update[OF assms(1)]) (use old in \<open>auto simp: same_frame_key\<close>)
    ultimately have "upserted now v s (append_change (\<lambda>n. upsert_change now n ?row)
        (s\<lparr>vd_vectors := rows_update ?p (\<lambda>_. ?row) ?rs\<rparr>))"
      unfolding upserted_def
      by (intro exI[of _ ?row] exI[of _ "rows_update ?p (\<lambda>_. ?row) ?rs"])
        (use validate_row_ok[OF assms(2)] in simp)
    then show ?thesis using Q Some by (simp add: upsert_vector_def wp_simps Let_def)
  qed
qed

lemma vec_wf_eq: "vec_wf s \<longleftrightarrow> distinct (map key_of_row (vd_vectors s)) \<and> list_all row_ok (vd_vectors s) \<and> changes_ok s"
  by (auto simp: vec_wf_def changes_ok_def)

lemma stream_inv_upserted:
  assumes "stream_inv r p s" "upserted now v s s'" "vd_contracts s (vc_model v) = Some (int (length (vc_values v)))"
  shows "stream_inv r p s'"
proof -
  obtain row rs where row: "row_ok row" "key_of_row row = (vc_file_id v, vc_frame v)"
      "entry_of_row row = (vc_frame_ts v, vc_values v, vc_model v)" "vr_dims row = int (length (vc_values v))"
    and rs: "distinct (map key_of_row rs)" "set rs \<subseteq> insert row (set (vd_vectors s))"
      "project rs = (project (vd_vectors s))(key_of_row row \<mapsto> entry_of_row row)"
    and s': "s' = append_change (\<lambda>n. upsert_change now n row) (s\<lparr>vd_vectors := rs\<rparr>)"
    using assms(2) unfolding upserted_def by blast
  have i: "vec_wf s" "contract_ok s" "r \<le> vd_change_seq s" "replay r p s = project (vd_vectors s)"
    using assms(1) by (auto simp: stream_inv_def)
  have "changes_ok (s\<lparr>vd_vectors := rs\<rparr>)" using i(1) by (simp add: vec_wf_eq changes_ok_def)
  then have "changes_ok s'" unfolding s' by (rule changes_ok_append) (use row(1) in auto)
  moreover have "list_all row_ok rs" using rs(2) i(1) row(1) by (auto simp: vec_wf_eq list_all_iff)
  ultimately have "vec_wf s'" using rs(1) by (simp add: vec_wf_eq s')
  moreover have "contract_ok s'"
    using i(2) rs(2) row assms(3) by (auto simp: contract_ok_def s' entry_of_row_def)
  moreover have "replay r p (s\<lparr>vd_vectors := rs\<rparr>) = replay r p s" by (simp add: replay_def)
  then have "replay r p s' = project rs"
    unfolding s' using replay_append[of r "s\<lparr>vd_vectors := rs\<rparr>" "\<lambda>n. upsert_change now n row" p] i(3,4) rs(3) by simp
  ultimately show ?thesis using i(3) by (simp add: stream_inv_def s')
qed

lemma fold_deletes:
  assumes "changes_ok s" "r \<le> vd_change_seq s"
  shows "let s' = fold (\<lambda>x. append_change (\<lambda>n. delete_change now n x)) gone s in
    changes_ok s' \<and> r \<le> vd_change_seq s' \<and> vd_db s' = vd_db s \<and> vd_vectors s' = vd_vectors s \<and>
    vd_contracts s' = vd_contracts s \<and>
    replay r p s' = (\<lambda>k. if k \<in> key_of_row ` set gone then None else replay r p s k)"
  using assms
proof (induction gone arbitrary: s)
  case (Cons x gone)
  let ?d = "\<lambda>x. append_change (\<lambda>n. delete_change now n x)"
  let ?s = "?d x s"
  have "changes_ok ?s" by (rule changes_ok_append[OF Cons.prems(1)]) simp_all
  moreover have "replay r p ?s = (replay r p s)(key_of_row x := None)"
    using replay_append[OF Cons.prems(2), of "\<lambda>n. delete_change now n x" p] by simp
  ultimately have IH: "changes_ok (fold ?d gone ?s)" "r \<le> vd_change_seq (fold ?d gone ?s)" "vd_db (fold ?d gone ?s) = vd_db s"
    "vd_vectors (fold ?d gone ?s) = vd_vectors s" "vd_contracts (fold ?d gone ?s) = vd_contracts s"
    "replay r p (fold ?d gone ?s) = (\<lambda>k. if k \<in> key_of_row ` set gone then None else ((replay r p s)(key_of_row x := None)) k)"
    using Cons.IH[of ?s] Cons.prems(2) unfolding Let_def by auto
  have "replay r p (fold ?d gone ?s) = (\<lambda>k. if k \<in> key_of_row ` set (x # gone) then None else replay r p s k)"
    unfolding IH(6) by (rule ext) simp
  then show ?case using IH(1-5) by (simp add: Let_def)
qed (simp add: Let_def)

lemma keeps_delete_file_vectors: "keeps (stream_inv r p) (delete_file_vectors now file_id)"
  unfolding keeps_def
proof (intro allI impI)
  fix s assume s: "stream_inv r p s"
  let ?q = "\<lambda>x. vr_file_id x = file_id"
  let ?gone = "filter ?q (vd_vectors s)" and ?s = "s\<lparr>vd_vectors := rows_delete (\<lambda>x. ?q x) (vd_vectors s)\<rparr>"
  let ?s' = "fold (\<lambda>x. append_change (\<lambda>n. delete_change now n x)) ?gone ?s"
  have i: "vec_wf s" "contract_ok s" "r \<le> vd_change_seq s" "replay r p s = project (vd_vectors s)"
    using s by (auto simp: stream_inv_def)
  have "changes_ok ?s" using i(1) by (simp add: vec_wf_eq changes_ok_def)
  from fold_deletes[OF this, of r now ?gone p] i(3)
  have f: "changes_ok ?s'" "r \<le> vd_change_seq ?s'" "vd_vectors ?s' = rows_delete ?q (vd_vectors s)"
    "vd_contracts ?s' = vd_contracts s" "replay r p ?s' = (\<lambda>k. if k \<in> key_of_row ` set ?gone then None else replay r p ?s k)"
    by (auto simp: Let_def)
  have "vec_wf ?s'" using f(1,3) i(1)
    by (auto simp: vec_wf_eq rows_delete_def list_all_iff intro: distinct_map_filter)
  moreover have "contract_ok ?s'" using f(3,4) i(2) by (auto simp: contract_ok_def rows_delete_def)
  moreover have "replay r p ?s = replay r p s" by (simp add: replay_def)
  then have "replay r p ?s' = project (vd_vectors ?s')"
    using project_delete[of "vd_vectors s" ?q] i(1,4) unfolding f(3,5) by (simp add: vec_wf_eq cong: if_cong)
  ultimately show "wp (delete_file_vectors now file_id) (\<lambda>_. stream_inv r p) (\<lambda>_. True) s"
    using f(2) by (simp add: delete_file_vectors_def wp_simps stream_inv_def)
qed

lemma keeps_on_db [keeps_intros]: "keeps (stream_inv r p) (on_db m)"
  by (auto simp: keeps_def wp_def on_db_def stream_inv_def vec_wf_def contract_ok_def replay_def split: sum.splits)

text \<open>After the check of its contract a model has that width.\<close>

lemma require_contract_eval:
  assumes "vd_contracts s model = None"
  defines "legacy \<equiv> map vr_dims (filter (\<lambda>r. vr_model r = model) (vd_vectors s))"
  shows "require_embed_model_contract_tx model dims s =
    (if model = [] then Inl (ErrVectorInvalid ''vector model version is empty'')
     else if dims \<le> 0 then Inl (ErrVectorInvalid ''vector dimensions must be positive'')
     else if legacy = [] then Inr ((), s\<lparr>vd_contracts := (vd_contracts s)(model \<mapsto> dims)\<rparr>)
     else if Min (set legacy) \<noteq> Max (set legacy) then Inl (ErrLegacyContract model)
     else if Min (set legacy) \<noteq> dims then Inl (ErrEmbedModelContract model dims (Min (set legacy)))
     else Inr ((), s\<lparr>vd_contracts := (vd_contracts s)(model \<mapsto> dims)\<rparr>))"
  unfolding require_embed_model_contract_tx_def establish_contract_def legacy_def tx_bind_def tx_read_def tx_modify_def
    tx_fail_def
  by (simp add: assms(1) tx_return_def)

lemma checks_cases:
  "r = (if a then Inl e1 else if b then Inl e2 else if c then Inr x else if d \<noteq> f then Inl e3 else if d \<noteq> g then Inl e4
    else Inr x) \<Longrightarrow> (\<exists>e. r = Inl e) \<or> r = Inr x \<and> (c \<or> d = f \<and> d = g)"
  by (auto split: if_splits)

lemma wp_require_contract:
  assumes "stream_inv r p s"
    and Q: "\<And>s'. stream_inv r p s' \<Longrightarrow> vd_contracts s' model = Some dims \<Longrightarrow> vd_vectors s' = vd_vectors s \<Longrightarrow>
      vd_changes s' = vd_changes s \<Longrightarrow> vd_db s' = vd_db s \<Longrightarrow> Q () s'" and E: "\<And>e. E e"
  shows "wp (require_embed_model_contract_tx model dims) Q E s"
proof (cases "vd_contracts s model")
  case (Some d)
  then show ?thesis using assms by (auto simp: require_embed_model_contract_tx_def wp_simps)
next
  case None
  let ?legacy = "map vr_dims (filter (\<lambda>r. vr_model r = model) (vd_vectors s))"
  let ?s = "s\<lparr>vd_contracts := (vd_contracts s)(model \<mapsto> dims)\<rparr>"
  have q: "Q () ?s" if l: "\<forall>x\<in>set ?legacy. x = dims"
  proof (rule Q)
    have "replay r p ?s = replay r p s" by (simp add: replay_def)
    moreover have "contract_ok ?s" using assms(1) l by (auto simp: stream_inv_def contract_ok_def)
    ultimately show "stream_inv r p ?s" using assms(1) by (simp add: stream_inv_def vec_wf_def)
  qed simp_all
  have all: "\<forall>x\<in>set ?legacy. x = dims" if "Min (set ?legacy) = Max (set ?legacy)" "Min (set ?legacy) = dims"
    using that by (metis List.finite_set Max_ge Min_le antisym)
  from checks_cases[OF require_contract_eval[OF None]] show ?thesis
  proof
    assume "\<exists>e. require_embed_model_contract_tx model dims s = Inl e"
    then show ?thesis using E by (auto simp: wp_def)
  next
    assume ok: "require_embed_model_contract_tx model dims s = Inr ((), ?s) \<and>
      (?legacy = [] \<or> Min (set ?legacy) = Max (set ?legacy) \<and> Min (set ?legacy) = dims)"
    then have "\<forall>x\<in>set ?legacy. x = dims"
    proof (elim conjE disjE)
      assume "?legacy = []"
      then show ?thesis by (simp only: list.set ball_empty)
    qed (rule all)
    with ok show ?thesis using q by (simp only: wp_def sum.case prod.case)
  qed
qed

lemma keeps_require_contract [keeps_intros]: "keeps (stream_inv r p) (require_embed_model_contract_tx model dims)"
  unfolding keeps_def by (intro allI impI wp_require_contract) simp_all

lemma keeps_put_vector_tx [keeps_intros]: "keeps (stream_inv r p) (put_vector_tx now v)"
  unfolding keeps_def
proof (intro allI impI)
  fix s assume s: "stream_inv r p s"
  show "wp (put_vector_tx now v) (\<lambda>_. stream_inv r p) (\<lambda>_. True) s"
  proof (cases "validate_vector v")
    case (Inr u)
    have "wp (upsert_vector now v) (\<lambda>_. stream_inv r p) (\<lambda>_. True) s'"
      if "stream_inv r p s'" "vd_contracts s' (vc_model v) = Some (int (length (vc_values v)))" for s'
    proof (rule wp_upsert_vector)
      show "distinct (map key_of_row (vd_vectors s'))" using that(1) by (simp add: stream_inv_def vec_wf_def)
      show "validate_vector v = Inr ()" using Inr by simp
    qed (rule stream_inv_upserted[OF that(1) _ that(2)])
    then show ?thesis using Inr
      by (simp add: put_vector_tx_def wp_simps del: One_nat_def) (rule wp_require_contract[OF s]; simp)
  qed (simp add: put_vector_tx_def wp_simps)
qed

end
