(* ===== verification/Store_Vectors_Properties.thy ===== *)
theory Store_Vectors_Properties
  imports Store_Vectors_Laws
begin

text \<open>
  What the vector tables promise to their users: a vector is read back as it was written, a model keeps one
  width, and a projection that is brought up to date with the change stream is the projection of the truth.
\<close>

section \<open>Runs of the store\<close>

text \<open>The operations of \<open>vectors.go\<close> and any write of the other tables.\<close>

datatype vector_op =
  PutVector int vector
| ReplaceVectors int int "vector list"
| ReplaceVectorsAndVersion int int string "vector list"
| DeleteVectorsByFile int
| DeleteVectorsForFile int int
| PruneChanges int
| RequireContract string int
| CatalogWrite "db \<Rightarrow> db"

fun exec_vector_op :: "int \<Rightarrow> vector_op \<Rightarrow> vdb \<Rightarrow> vdb" where
  "exec_vector_op now (PutVector generation v) s = snd (put_vector now generation v s)"
| "exec_vector_op now (ReplaceVectors i generation vs) s = snd (replace_vectors_for_file now i generation vs s)"
| "exec_vector_op now (ReplaceVectorsAndVersion i generation model vs) s =
     snd (replace_vectors_for_file_and_version now i generation model vs s)"
| "exec_vector_op now (DeleteVectorsByFile i) s = snd (delete_vectors_by_file now i s)"
| "exec_vector_op now (DeleteVectorsForFile i generation) s = snd (delete_vectors_for_file now i generation s)"
| "exec_vector_op now (PruneChanges r) s = snd (prune_vector_changes_through r s)"
| "exec_vector_op now (RequireContract model dims) s = snd (with_tx (require_embed_model_contract_tx model dims) s)"
| "exec_vector_op now (CatalogWrite f) s = s\<lparr>vd_db := f (vd_db s)\<rparr>"

fun exec_vector_ops :: "(int \<times> vector_op) list \<Rightarrow> vdb \<Rightarrow> vdb" where
  "exec_vector_ops [] s = s"
| "exec_vector_ops ((now, op) # ops) s = exec_vector_ops ops (exec_vector_op now op s)"

definition empty_vdb :: "db \<Rightarrow> vdb" where
  "empty_vdb db = \<lparr>vd_db = db, vd_vectors = [], vd_changes = [], vd_change_seq = 0, vd_contracts = Map.empty\<rparr>"

section \<open>The writes keep an invariant of their statements\<close>

text \<open>What an invariant needs to be kept by every write: the statements keep it.\<close>

definition kept_by_statements :: "(vdb \<Rightarrow> bool) \<Rightarrow> bool" where
  "kept_by_statements I \<longleftrightarrow> (\<forall>now v. keeps I (put_vector_tx now v)) \<and> (\<forall>now i. keeps I (delete_file_vectors now i)) \<and>
     (\<forall>m d. keeps I (require_embed_model_contract_tx m d)) \<and> (\<forall>s d. I s \<longrightarrow> I (s\<lparr>vd_db := d\<rparr>))"

lemma kept_statements [keeps_intros]:
  assumes "kept_by_statements I"
  shows "keeps I (put_vector_tx now v)" "keeps I (delete_file_vectors now i)"
    "keeps I (require_embed_model_contract_tx m d)"
    "keeps I (on_db x)" "keeps I (require_vector_contracts_tx vs)" "keeps I (require_current_generation_tx j g)"
    "keeps I (replace_vectors_tx now i vs)" "keeps I (set_file_model i g' model)"
proof -
  have I: "keeps I (put_vector_tx now v)" "keeps I (delete_file_vectors now i)"
    "keeps I (require_embed_model_contract_tx m d)" for now v i m d
    using assms unfolding kept_by_statements_def by blast+
  have d: "keeps I (on_db x)" for x :: "'b stx"
    using assms by (auto simp: kept_by_statements_def keeps_def wp_def on_db_def split: sum.splits)
  show "keeps I (put_vector_tx now v)" "keeps I (delete_file_vectors now i)"
    "keeps I (require_embed_model_contract_tx m d)" "keeps I (on_db x)" by (rule I d)+
  show "keeps I (require_vector_contracts_tx vs)" "keeps I (replace_vectors_tx now i vs)"
    unfolding require_vector_contracts_tx_def replace_vectors_tx_def by (intro keeps_intros keeps_each I)+
  show "keeps I (require_current_generation_tx j g)" "keeps I (set_file_model i g' model)"
    unfolding require_current_generation_tx_def set_file_model_def by (intro keeps_intros d)+
qed

lemma kept_writes:
  assumes I: "kept_by_statements I" and s: "I s"
  shows "I (snd (put_vector now g v s))" "I (snd (replace_vectors_for_file now i g vs s))"
    "I (snd (replace_vectors_for_file_and_version now i g model vs s))" "I (snd (delete_vectors_by_file now i s))"
    "I (snd (delete_vectors_for_file now i g s))" "I (snd (with_tx (require_embed_model_contract_tx model d) s))"
proof -
  note K = keeps_bind keeps_return kept_statements[OF I]
  have body: "keeps I (replace_vectors_body now i g vs)"
    unfolding replace_vectors_body_def by (intro K)
  have p: "I (snd (with_tx (tx_bind (require_current_generation_tx (vc_file_id v) g) (\<lambda>_. put_vector_tx now v)) s))"
    by (rule keeps_with_tx[where I = I, OF _ s]) (intro K)
  then show "I (snd (put_vector now g v s))" using s by (simp add: put_vector_def)
  have "I (snd (with_tx (replace_vectors_body now i g vs) s))" by (rule keeps_with_tx[where I = I, OF body s])
  then show "I (snd (replace_vectors_for_file now i g vs s))"
    using s by (simp add: replace_vectors_for_file_def split: sum.splits)
  have "I (snd (with_tx (tx_bind (replace_vectors_body now i g vs) (\<lambda>_.
      tx_bind (set_file_model i (Some g) (Some model)) (\<lambda>n. on_db (require_changed n)))) s))"
    by (rule keeps_with_tx[where I = I, OF _ s]) (intro K body)
  then show "I (snd (replace_vectors_for_file_and_version now i g model vs s))"
    using s by (simp add: replace_vectors_for_file_and_version_def split: sum.splits)
  show "I (snd (delete_vectors_by_file now i s))"
    unfolding delete_vectors_by_file_def by (rule keeps_with_tx[where I = I, OF _ s]) (intro K)
  have "I (snd (with_tx (tx_bind (require_current_generation_tx i g) (\<lambda>_.
      tx_bind (delete_file_vectors now i) (\<lambda>count.
      tx_bind (set_file_model i (Some g) None) (\<lambda>_. tx_return count)))) s))"
    by (rule keeps_with_tx[where I = I, OF _ s]) (intro K)
  then show "I (snd (delete_vectors_for_file now i g s))" using s by (simp add: delete_vectors_for_file_def)
  show "I (snd (with_tx (require_embed_model_contract_tx model d) s))" by (rule keeps_with_tx[where I = I, OF _ s]) (rule K)
qed

lemma kept_prune:
  assumes "\<And>s. I s \<Longrightarrow> I (s\<lparr>vd_changes := rows_delete (\<lambda>c. ch_revision c \<le> r) (vd_changes s)\<rparr>)" "I s"
  shows "I (snd (prune_vector_changes_through r s))"
  using assms by (simp add: prune_vector_changes_through_def with_tx_def tx_bind_def tx_read_def tx_modify_def tx_return_def)

lemma kept_by_ops:
  assumes I: "kept_by_statements I" and s: "I s"
    and op: "\<And>r s. op = PruneChanges r \<Longrightarrow> I s \<Longrightarrow> I (s\<lparr>vd_changes := rows_delete (\<lambda>c. ch_revision c \<le> r) (vd_changes s)\<rparr>)"
  shows "I (exec_vector_op now op s)"
  proof (cases op)
  case (PruneChanges r)
  then show ?thesis using kept_prune[where I = I and r = r, OF op s] by simp
qed (use kept_writes[where I = I, OF I s] I s in \<open>simp_all add: kept_by_statements_def\<close>)

lemma kept_stream_inv: "kept_by_statements (stream_inv r p)"
  unfolding kept_by_statements_def
proof (intro conjI allI impI)
  fix s d assume "stream_inv r p s"
  then show "stream_inv r p (s\<lparr>vd_db := d\<rparr>)"
    by (simp add: stream_inv_def vec_wf_def contract_ok_def replay_def)
qed (intro keeps_intros keeps_delete_file_vectors)+

lemma kept_contract:
  "kept_by_statements (\<lambda>s :: vdb. vd_contracts s model = Some d)"
proof -
  let ?I = "\<lambda>s :: vdb. vd_contracts s model = Some d"
  have f: "vd_contracts (fold (\<lambda>x. append_change (\<lambda>n. delete_change now n x)) gone s) = vd_contracts s" for now gone s
    by (induction gone arbitrary: s) simp_all
  have del: "keeps ?I (delete_file_vectors now i)" for now i
    by (simp add: keeps_def delete_file_vectors_def wp_simps f)
  have up: "keeps ?I (upsert_vector now v)" for now v
    unfolding upsert_vector_def by (rule keeps_modify) (simp add: Let_def split: option.splits)
  have req: "keeps ?I (require_embed_model_contract_tx m e)" for m e
    unfolding keeps_def
  proof (intro allI impI)
    fix s assume s: "?I s"
    show "wp (require_embed_model_contract_tx m e) (\<lambda>_. ?I) (\<lambda>_. True) s"
    proof (cases "vd_contracts s m")
      case None
      then have "m \<noteq> model" using s by auto
      then show ?thesis using s unfolding wp_def require_contract_eval[OF None]
        by (simp split: if_splits)
    next
      case (Some k)
      then show ?thesis using s by (simp add: require_embed_model_contract_tx_def wp_simps)
    qed
  qed
  show ?thesis unfolding kept_by_statements_def put_vector_tx_def
    by (intro conjI allI impI keeps_intros del up req) simp
qed

lemma prune_below:
  assumes "stream_inv r p s" "q \<le> r"
  shows "stream_inv r p (s\<lparr>vd_changes := rows_delete (\<lambda>c. ch_revision c \<le> q) (vd_changes s)\<rparr>)"
proof -
  have "filter (\<lambda>c. \<not> ch_revision c \<le> q \<and> r < ch_revision c) cs = filter (\<lambda>c. r < ch_revision c) cs" for cs :: "change_row list"
    using assms(2) by (intro filter_cong) auto
  moreover have "sorted_wrt (<) (map ch_revision (filter P cs))" if "sorted_wrt (<) (map ch_revision cs)" for P and cs :: "change_row list"
    using that by (simp add: sorted_wrt_map sorted_wrt_filter)
  ultimately show ?thesis using assms(1)
    by (auto simp: stream_inv_def vec_wf_def contract_ok_def replay_def rows_delete_def list_all_iff)
qed

definition prunes_within :: "int \<Rightarrow> vector_op \<Rightarrow> bool" where
  "prunes_within r op = (case op of PruneChanges q \<Rightarrow> q \<le> r | _ \<Rightarrow> True)"

lemma stream_inv_runs:
  assumes "stream_inv r p s" "list_all (prunes_within r \<circ> snd) ops"
  shows "stream_inv r p (exec_vector_ops ops s)"
  using assms
proof (induction ops s rule: exec_vector_ops.induct)
  case (2 now op ops s)
  have "stream_inv r p (exec_vector_op now op s)"
    using 2(3) by (intro kept_by_ops[OF kept_stream_inv 2(2)]) (auto simp: prunes_within_def intro: prune_below)
  then show ?case using 2 by simp
qed simp

text \<open>Tables as every run leaves them; a watermark forgets the changes up to it.\<close>

lemma stream_inv_now: "vec_wf s \<Longrightarrow> contract_ok s \<Longrightarrow> stream_inv (vd_change_seq s) (project (vd_vectors s)) s"
  by (auto simp: stream_inv_def replay_def vec_wf_def list_all_iff filter_empty_conv linorder_not_less intro!: arg_cong[where f = "\<lambda>cs. fold apply_row cs _", of _ "[]", simplified])

definition vectors_ok :: "vdb \<Rightarrow> bool" where
  "vectors_ok s \<longleftrightarrow> vec_wf s \<and> contract_ok s"

lemma vectors_ok_eq: "vectors_ok s \<longleftrightarrow> (\<exists>r p. stream_inv r p s)"
  using stream_inv_now by (auto simp: vectors_ok_def) (simp_all add: stream_inv_def)

lemma keeps_vectors_ok:
  assumes "\<And>r p. keeps (stream_inv r p) m"
  shows "keeps vectors_ok m"
  unfolding keeps_def
proof (intro allI impI)
  fix s assume "vectors_ok s"
  then obtain r p where "stream_inv r p s" by (auto simp: vectors_ok_eq)
  then have "wp m (\<lambda>_. stream_inv r p) (\<lambda>_. True) s" using assms by (simp add: keeps_def)
  then show "wp m (\<lambda>_. vectors_ok) (\<lambda>_. True) s" by (rule wp_mono) (auto simp: vectors_ok_eq)
qed

lemma vectors_ok_kept: "kept_by_statements vectors_ok"
  unfolding kept_by_statements_def
proof (intro conjI allI impI)
  fix s d assume "vectors_ok s"
  then show "vectors_ok (s\<lparr>vd_db := d\<rparr>)" by (simp add: vectors_ok_def vec_wf_def contract_ok_def)
qed (intro keeps_vectors_ok keeps_intros keeps_delete_file_vectors)+

lemma vectors_ok_runs: "vectors_ok s \<Longrightarrow> vectors_ok (exec_vector_ops ops s)"
proof (induction ops s rule: exec_vector_ops.induct)
  case (2 now op ops s)
  have "vectors_ok (exec_vector_op now op s)"
  proof (rule kept_by_ops[OF vectors_ok_kept 2(2)])
    fix q s assume s: "vectors_ok s"
    show "vectors_ok (s\<lparr>vd_changes := rows_delete (\<lambda>c. ch_revision c \<le> q) (vd_changes s)\<rparr>)"
      using s by (auto simp: vectors_ok_def contract_ok_def vec_wf_def rows_delete_def list_all_iff sorted_wrt_map sorted_wrt_filter)
  qed
  then show ?case using 2 by simp
qed simp

lemma vectors_ok_empty: "vectors_ok (empty_vdb db)"
  by (simp add: vectors_ok_def vec_wf_def contract_ok_def empty_vdb_def)

section \<open>A vector is read back bit for bit\<close>

lemma project_find: "project rs k = map_option entry_of_row (List.find (\<lambda>r. key_of_row r = k) rs)"
  by (induction rs) auto

lemma scan_vector_ok:
  "row_ok r \<Longrightarrow> scan_vector r = Inr \<lparr>vc_file_id = vr_file_id r, vc_frame = vr_frame r, vc_frame_ts = vr_frame_ts r,
     vc_values = uint32s (vr_blob r), vc_model = vr_model r\<rparr>"
  by (simp add: row_ok_def scan_vector_def decode_vector_def)

lemma get_vector_project:
  assumes "vec_wf s"
  shows "get_vector i f s = (case project (vd_vectors s) (i, f) of
     None \<Rightarrow> Inl (VectorStore ErrNotFound)
   | Some (ts, values, model) \<Rightarrow>
       Inr \<lparr>vc_file_id = i, vc_frame = f, vc_frame_ts = ts, vc_values = values, vc_model = model\<rparr>)"
proof -
  have key: "(\<lambda>r. key_of_row r = (i, f)) = (\<lambda>r. vr_file_id r = i \<and> vr_frame r = f)"
    by (auto simp: key_of_row_def)
  show ?thesis
  proof (cases "List.find (\<lambda>r. vr_file_id r = i \<and> vr_frame r = f) (vd_vectors s)")
    case (Some r)
    then have "r \<in> set (vd_vectors s)" "vr_file_id r = i" "vr_frame r = f" by (auto simp: find_Some_iff)
    moreover have "row_ok r" using assms calculation(1) by (auto simp: vec_wf_def list_all_iff)
    ultimately show ?thesis using Some by (simp add: get_vector_def project_find key scan_vector_ok entry_of_row_def)
  qed (simp add: get_vector_def project_find key)
qed

lemma wp_put_vector_tx:
  assumes "vectors_ok s"
    and Q: "\<And>s'. vec_wf s' \<Longrightarrow> vd_db s' = vd_db s \<Longrightarrow> vd_contracts s' (vc_model v) = Some (int (length (vc_values v))) \<Longrightarrow>
      project (vd_vectors s') = (project (vd_vectors s))((vc_file_id v, vc_frame v) \<mapsto> (vc_frame_ts v, vc_values v, vc_model v)) \<Longrightarrow>
      Q () s'"
  shows "wp (put_vector_tx now v) Q (\<lambda>_. True) s"
proof (cases "validate_vector v")
  case (Inr u)
  obtain r p where s: "stream_inv r p s" using assms(1) by (auto simp: vectors_ok_eq)
  have up: "wp (upsert_vector now v) Q (\<lambda>_. True) s1"
    if s1: "stream_inv r p s1" "vd_contracts s1 (vc_model v) = Some (int (length (vc_values v)))"
      "vd_vectors s1 = vd_vectors s" "vd_db s1 = vd_db s" for s1
  proof (rule wp_upsert_vector)
    show "distinct (map key_of_row (vd_vectors s1))" using s1(1) by (simp add: stream_inv_def vec_wf_def)
    show "validate_vector v = Inr ()" using Inr by simp
    fix s' assume u: "upserted now v s1 s'"
    have "vec_wf s'" using stream_inv_upserted[OF s1(1) u s1(2)] by (simp add: stream_inv_def)
    then show "Q () s'" using u s1(2-4) unfolding upserted_def by (auto intro!: Q)
  qed
  have "wp (require_embed_model_contract_tx (vc_model v) (int (length (vc_values v))))
      (\<lambda>_. wp (upsert_vector now v) Q (\<lambda>_. True)) (\<lambda>_. True) s"
    by (rule wp_require_contract[OF s]) (simp_all add: up)
  then show ?thesis using Inr by (simp add: put_vector_tx_def wp_simps)
qed (simp add: put_vector_tx_def wp_simps)

text \<open>C28: A vector that was stored is read back bit for bit, every other frame is read as before, and the
  catalog still holds the generation the caller named.\<close>

theorem stored_vector_reads_back:
  assumes "vectors_ok s" and "put_vector now generation v s = (Inr (), s')"
  shows "get_vector i frame s' = (if (i, frame) = (vc_file_id v, vc_frame v) then Inr v else get_vector i frame s) \<and>
     vd_db s' = vd_db s \<and> (\<exists>f\<in>set (db_files (vd_db s')). f_id f = vc_file_id v \<and> f_generation f = generation)"
proof -
  let ?Q = "\<lambda>_ s'. vec_wf s' \<and> vd_db s' = vd_db s \<and>
    project (vd_vectors s') = (project (vd_vectors s))((vc_file_id v, vc_frame v) \<mapsto> (vc_frame_ts v, vc_values v, vc_model v))"
  have wf: "vec_wf s" using assms(1) by (simp add: vectors_ok_def)
  have tx: "tx_bind (require_current_generation_tx (vc_file_id v) generation) (\<lambda>_. put_vector_tx now v) s = Inr ((), s')"
    using assms(2) by (simp add: put_vector_def with_tx_commit split: if_splits)
  then obtain f where f: "List.find (\<lambda>f. f_id f = vc_file_id v) (db_files (vd_db s)) = Some f" "f_generation f = generation"
    and put: "put_vector_tx now v s = Inr ((), s')"
    by (auto simp: require_current_generation_tx_def on_db_def find_file_def tx_bind_def tx_read_def tx_fail_def tx_return_def
        split: option.splits if_splits sum.splits)
  have "wp (put_vector_tx now v) ?Q (\<lambda>_. True) s" by (rule wp_put_vector_tx[OF assms(1)]) simp
  then have q: "?Q () s'" using put by (simp add: wp_def)
  have "f \<in> set (db_files (vd_db s))" "f_id f = vc_file_id v" using f(1) by (auto simp: find_Some_iff)
  then show ?thesis using q f(2) get_vector_project[OF wf, of i frame] get_vector_project[of s' i frame] by auto
qed

section \<open>The width of a model\<close>

lemma contract_runs: "vd_contracts s model = Some d \<Longrightarrow> vd_contracts (exec_vector_ops ops s) model = Some d"
proof (induction ops s rule: exec_vector_ops.induct)
  case (2 now op ops s)
  have "vd_contracts (exec_vector_op now op s) model = Some d"
    by (rule kept_by_ops[OF kept_contract 2(2)]) simp
  then show ?case using 2 by simp
qed simp

text \<open>C29: A model keeps its width.  Once it has a durable width, then after any sequence of writes it has
  the same one, every stored vector of the model has that many components, and a vector of another
  width is not stored.\<close>

theorem models_keep_their_width:
  assumes "vectors_ok s" and "vd_contracts s model = Some d" and "vc_model v = model"
    and "get_vector i frame (exec_vector_ops ops s) = Inr v \<or>
      fst (put_vector now generation v (exec_vector_ops ops s)) = Inr ()"
  shows "int (length (vc_values v)) = d \<and> vd_contracts (exec_vector_ops ops s) model = Some d"
proof -
  let ?s = "exec_vector_ops ops s"
  have ok: "vectors_ok ?s" and c: "vd_contracts ?s model = Some d"
    by (rule vectors_ok_runs[OF assms(1)], rule contract_runs[OF assms(2)])
  from assms(4) have "int (length (vc_values v)) = d"
  proof
    assume "get_vector i frame ?s = Inr v"
    then obtain r where r: "r \<in> set (vd_vectors ?s)" "scan_vector r = Inr v"
      by (auto simp: get_vector_def dest: find_SomeD split: option.splits)
    have "row_ok r" "vd_contracts ?s (vr_model r) \<in> {None, Some (vr_dims r)}"
      using ok r(1) by (auto simp: vectors_ok_def vec_wf_def list_all_iff contract_ok_def)
    moreover have "int (length (uint32s (vr_blob r))) = vr_dims r" if "row_ok r"
    proof -
      have "length (vr_blob r) = 4 * nat (vr_dims r)" "0 < vr_dims r" using that by (auto simp: row_ok_def)
      then show ?thesis using encode_uint32s[of "vr_blob r" "nat (vr_dims r)"] by simp
    qed
    ultimately show ?thesis using r(2) c assms(3) by (auto simp: scan_vector_ok)
  next
    assume "fst (put_vector now generation v ?s) = Inr ()"
    then have "\<exists>s'. put_vector_tx now v ?s = Inr ((), s')"
      by (cases "put_vector now generation v ?s")
        (auto simp: put_vector_def with_tx_commit require_current_generation_tx_def on_db_def find_file_def tx_bind_def
          tx_read_def tx_fail_def tx_return_def split: option.splits if_splits sum.splits)
    then show ?thesis using c assms(3)
      by (auto simp: put_vector_tx_def tx_bind_def tx_lift_def require_embed_model_contract_tx_def tx_read_def tx_fail_def
          tx_return_def split: if_splits sum.splits)
  qed
  then show ?thesis using c by simp
qed

section \<open>Catching up with the stream of changes\<close>

definition project_vector :: "vector \<Rightarrow> projection \<Rightarrow> vector_error + projection" where
  "project_vector v p = Inr (p((vc_file_id v, vc_frame v) \<mapsto> (vc_frame_ts v, vc_values v, vc_model v)))"

lemma visit_rows_project:
  "list_all row_ok rs \<Longrightarrow> distinct (map key_of_row rs) \<Longrightarrow> visit_rows project_vector rs p = Inr (p ++ project rs)"
proof (induction rs arbitrary: p)
  case (Cons r rs)
  let ?p = "p(key_of_row r \<mapsto> entry_of_row r)"
  have "dom (project rs) = key_of_row ` set rs" by (simp add: project_def dom_map_of_conv_image_fst image_image)
  then have eq: "?p ++ project rs = p ++ project (r # rs)"
    using Cons.prems(2) by (auto simp: map_add_def fun_eq_iff project_None split: option.splits)
  have "visit_rows project_vector (r # rs) p = visit_rows project_vector rs ?p"
    using Cons.prems(1) by (simp add: scan_vector_ok project_vector_def key_of_row_def entry_of_row_def)
  also have "\<dots> = Inr (?p ++ project rs)" by (rule Cons.IH) (use Cons.prems in simp_all)
  finally show ?case unfolding eq .
qed simp

lemma visit_vectors_project:
  assumes "vec_wf s"
  shows "visit_vectors project_vector Map.empty s = Inr (project (vd_vectors s))"
proof -
  let ?rs = "vd_vectors s" and ?os = "order_by frame_order (vd_vectors s)"
  have set: "set ?os = set ?rs" by (simp add: order_by_def)
  have d: "distinct (map key_of_row ?rs)" using assms by (simp add: vec_wf_def)
  then have d': "distinct (map key_of_row ?os)" by (simp add: order_by_def distinct_map)
  have "project ?os k = project ?rs k" for k
  proof (cases "k \<in> key_of_row ` set ?rs")
    case True
    then obtain r where "r \<in> set ?rs" "k = key_of_row r" by blast
    then show ?thesis using project_Some[OF d] project_Some[OF d'] set by simp
  qed (use project_None[of k] set in simp)
  then have "project ?os = project ?rs" by blast
  moreover have "list_all row_ok ?os" using assms set by (simp add: vec_wf_def list_all_iff)
  ultimately show ?thesis using d' by (simp add: visit_vectors_def visit_rows_project)
qed

text \<open>C27: The change stream refines the table.  A projection taken with \<open>VisitVectors\<close> and brought up to date
  with \<open>VisitVectorChangesAfter\<close>, after any writes that prune no later change than the projection has
  seen, is the projection a new \<open>VisitVectors\<close> would give.\<close>

theorem change_stream_catches_up:
  assumes "vectors_ok s" and "0 \<le> max_vector_revision s" and "visit_vectors project_vector Map.empty s = Inr p"
    and "list_all (prunes_within (max_vector_revision s) \<circ> snd) ops"
  shows "visit_vector_changes_after (max_vector_revision s) (\<lambda>c q. Inr (apply_change c q)) p (exec_vector_ops ops s) =
    visit_vectors project_vector Map.empty (exec_vector_ops ops s)"
proof -
  let ?r = "max_vector_revision s"
  have wf: "vec_wf s" "contract_ok s" using assms(1) by (simp_all add: vectors_ok_def)
  have p: "p = project (vd_vectors s)" using assms(3) visit_vectors_project[OF wf(1)] by simp
  have "stream_inv ?r p s" unfolding p max_vector_revision_def by (rule stream_inv_now[OF wf])
  then have i: "stream_inv ?r p (exec_vector_ops ops s)" using assms(4) by (rule stream_inv_runs)
  then have w: "vec_wf (exec_vector_ops ops s)" by (simp add: stream_inv_def)
  show ?thesis
    unfolding visit_changes_after[OF w assms(2)] visit_vectors_project[OF w] using i by (simp add: stream_inv_def)
qed

section \<open>A small store\<close>

definition example_row :: catalog_file where
  "example_row = \<lparr>f_id = 7, f_path = ''/a'', f_path_key = ''/a'', f_size = 1, f_mtime_ns = 1, f_inode = None,
     f_sample_hash = [], f_kind = FileKindImage, f_generation = 3, f_status = FileStatusIndexed,
     f_extractor_version = None, f_embed_model_version = None, f_indexed_at_ms = Some 1\<rparr>"

definition example_vdb :: vdb where
  "example_vdb = empty_vdb (empty_db\<lparr>db_files := [example_row]\<rparr>)"

definition example_vector :: "int \<Rightarrow> 32 word \<Rightarrow> vector" where
  "example_vector frame w = \<lparr>vc_file_id = 7, vc_frame = frame, vc_frame_ts = None, vc_values = [w, 0], vc_model = ''m''\<rparr>"

lemma example_vector_valid: "validate_vector (example_vector 0 0x3F800000) = Inr ()"
proof -
  have "float32_value 0 = 0" by (simp add: float32_value_def Let_def)
  then have "unit_norm [0x3F800000, 0]"
    by (simp add: unit_norm_def norm_squared_def float_one power2_eq_square)
  moreover have "trimmed_label ''m''" "finite32 0x3F800000" "finite32 0" by code_simp+
  ultimately show ?thesis by (simp add: validate_vector_def example_vector_def)
qed

definition example_stored :: vdb where
  "example_stored = snd (put_vector 5000 3 (example_vector 0 0x3F800000) example_vdb)"

lemma example_put:
  "put_vector 5000 3 (example_vector 0 0x3F800000) example_vdb = (Inr (), example_stored)"
  "vd_contracts example_stored ''m'' = Some 2"
  "vd_vectors example_stored = [row_of 1 (example_vector 0 0x3F800000)]"
  by (simp_all add: example_stored_def put_vector_def with_tx_def tx_bind_def require_current_generation_tx_def on_db_def
      find_file_def tx_read_def tx_return_def tx_fail_def tx_modify_def tx_lift_def example_vdb_def empty_vdb_def
      empty_db_def example_row_def put_vector_tx_def example_vector_valid require_embed_model_contract_tx_def
      establish_contract_def upsert_vector_def append_change_def next_rowid_def Let_def)
    (simp_all add: example_vector_def)

lemma example_vdb_ok: "vectors_ok example_vdb"
  unfolding example_vdb_def by (rule vectors_ok_empty)

lemma example_stored_ok: "vectors_ok example_stored"
  using vectors_ok_runs[OF example_vdb_ok, of "[(5000, PutVector 3 (example_vector 0 0x3F800000))]"]
  by (simp add: example_stored_def)

lemma stored_vector_reads_back_witness:
  "get_vector 7 0 example_stored = Inr (example_vector 0 0x3F800000) \<and> get_vector 7 1 example_stored = get_vector 7 1 example_vdb"
  using stored_vector_reads_back[OF example_vdb_ok example_put(1), of 7 0]
    stored_vector_reads_back[OF example_vdb_ok example_put(1), of 7 1]
  by (simp add: example_vector_def)

lemma models_keep_their_width_witness:
  "int (length (vc_values (example_vector 0 0x3F800000))) = 2 \<and>
   vd_contracts (exec_vector_ops [] example_stored) ''m'' = Some 2"
  by (rule models_keep_their_width[OF example_stored_ok example_put(2), of _ 7 0])
    (use stored_vector_reads_back[OF example_vdb_ok example_put(1), of 7 0] in \<open>simp_all add: example_vector_def\<close>)

lemma change_stream_catches_up_witness:
  "visit_vector_changes_after 0 (\<lambda>c q. Inr (apply_change c q)) Map.empty example_stored =
     Inr [(7, 0) \<mapsto> (None, [0x3F800000, 0], ''m'')]"
proof -
  have "vec_wf example_vdb" "vec_wf example_stored" using example_vdb_ok example_stored_ok by (simp_all add: vectors_ok_def)
  then have v: "visit_vectors project_vector Map.empty example_vdb = Inr Map.empty"
      "visit_vectors project_vector Map.empty example_stored = Inr [(7, 0) \<mapsto> (None, [0x3F800000, 0], ''m'')]"
    by (simp_all add: visit_vectors_project example_put(3) example_vdb_def empty_vdb_def)
      (simp add: example_vector_def)
  have 0: "max_vector_revision example_vdb = 0" by (simp add: max_vector_revision_def example_vdb_def empty_vdb_def)
  have "visit_vector_changes_after 0 (\<lambda>c q. Inr (apply_change c q)) Map.empty
      (exec_vector_ops [(5000, PutVector 3 (example_vector 0 0x3F800000))] example_vdb) =
    visit_vectors project_vector Map.empty (exec_vector_ops [(5000, PutVector 3 (example_vector 0 0x3F800000))] example_vdb)"
    using change_stream_catches_up[OF example_vdb_ok _ v(1),
        of "[(5000, PutVector 3 (example_vector 0 0x3F800000))]"] by (simp add: 0 prunes_within_def)
  then show ?thesis using v(2) by (simp add: example_stored_def)
qed

end
