(* ===== verification/Store_Upgrade_Properties.thy ===== *)
theory Store_Upgrade_Properties
  imports Store_Upgrade_Laws Store_Vectors_Properties
begin

text \<open>What a batch of the model upgrade does, and that repeated batches reach every file.\<close>

lemma upgrade_batch_effect:
  assumes "db_wf db" and "upgrade_batch_tx now model priority n db = Inr (r, db')"
  shows "let cs = upgrade_candidates model (db_files db) in
    ur_enqueued r = length (take n cs) \<and> ur_has_more r = (n < length cs) \<and> tx_inv db db' \<and>
    batch_done db (set (take n cs)) db' \<and> upgrade_candidates model (db_files db') = drop n cs"
proof -
  let ?cs = "upgrade_candidates model (db_files db)"
  have inv: "tx_inv db db" using assms(1) by (rule inv_refl)
  have ids: "distinct (map f_id (db_files db))" using inv_tables(2)[OF inv] by (simp add: files_wf_def)
  have cs: "set ?cs \<subseteq> set (db_files db)" "distinct ?cs" "\<forall>f\<in>set ?cs. needs_upgrade model f"
    using ids by (auto simp: upgrade_candidates_def order_by_def distinct_map)
  have "wp (tx_fold (upgrade_one now model priority) 0 (take n ?cs))
      (\<lambda>k db'. k = length (take n ?cs) \<and> tx_inv db db' \<and> batch_done db (set (take n ?cs)) db') (\<lambda>_. True) db"
    by (rule wp_upgrade_all[OF inv]) (use cs in \<open>auto dest: in_set_takeD\<close>)
  moreover obtain k where k: "tx_fold (upgrade_one now model priority) 0 (take n ?cs) db = Inr (k, db')"
      "r = \<lparr>ur_enqueued = k, ur_has_more = length (take (n + 1) ?cs) > n\<rparr>"
    using assms(2) by (auto simp: upgrade_batch_tx_def tx_bind_def tx_read_def tx_return_def split: sum.splits)
  ultimately have "k = length (take n ?cs)" "tx_inv db db'" and b: "batch_done db (set (take n ?cs)) db'"
    by (simp_all add: wp_def)
  moreover have "db_files db' = fenced_files upgrade_row (set (take n ?cs)) (db_files db)"
    using b by (auto simp: batch_done_def)
  ultimately show ?thesis using k(2) candidates_after[OF ids, of model n] by (auto simp: Let_def)
qed

text \<open>A batch of the model upgrade fences exactly the first \<open>limit\<close> indexed images of another model, in
  the order of their identifiers: each has a new generation, no indexed time, and a pending task of at
  least that generation.  It reports how many and whether some are left; these are what the next batch
  starts with, and no other catalog row and no queued generation is lost.\<close>

theorem upgrade_batch_advances:
  assumes "db_wf db"
    and "enqueue_embed_model_upgrade_batch now model priority limit db = (Inr r, db')"
    and "n = nat (upgrade_limit limit)" and "cs = upgrade_candidates model (db_files db)"
  shows "ur_enqueued r = min n (length cs) \<and> ur_has_more r = (n < length cs) \<and>
    upgrade_candidates model (db_files db') = drop n cs \<and>
    db_files db' = map (\<lambda>f. if f \<in> set (take n cs) then upgrade_row f else f) (db_files db) \<and>
    list_all (\<lambda>f. queued_at f (db_tasks db')) (take n cs) \<and> work_le (db_tasks db) (db_tasks db') \<and> db_wf db'"
proof -
  have "upgrade_batch_tx now model priority n db = Inr (r, db')"
    using assms(2,3) by (simp add: enqueue_embed_model_upgrade_batch_def with_tx_commit split: if_splits)
  from upgrade_batch_effect[OF assms(1) this] have e: "ur_enqueued r = length (take n cs)" "ur_has_more r = (n < length cs)"
      "tx_inv db db'" "batch_done db (set (take n cs)) db'" "upgrade_candidates model (db_files db') = drop n cs"
    by (simp_all add: assms(4) Let_def)
  from e(4) have "db_files db' = fenced_files upgrade_row (set (take n cs)) (db_files db)"
      "\<forall>f\<in>set (take n cs). queued_at f (db_tasks db')" "work_le (db_tasks db) (db_tasks db')"
    by (auto simp: batch_done_def)
  then show ?thesis using e by (simp add: fenced_files_def list_all_iff tx_inv_def min.commute)
qed

definition example_upgrade :: db where
  "example_upgrade = empty_db\<lparr>db_files := [example_row, example_row\<lparr>f_id := 8, f_path := ''/b'', f_path_key := ''/b''\<rparr>]\<rparr>"

lemma example_upgrade_wf: "db_wf example_upgrade"
proof -
  have "path_key ''/a'' = ''/a''" "path_key ''/b'' = ''/b''" by code_simp+
  then show ?thesis
    by (simp add: wf_defs example_upgrade_def empty_db_def example_row_def file_ok_def status_ok_def kind_ok_def)
qed

lemma example_upgrade_first:
  "fst (enqueue_embed_model_upgrade_batch 5 ''n'' 0 1 example_upgrade) = Inr \<lparr>ur_enqueued = 1, ur_has_more = True\<rparr>"
  by code_simp

lemma upgrade_batch_advances_witness:
  "map f_id (upgrade_candidates ''n'' (db_files (snd (enqueue_embed_model_upgrade_batch 5 ''n'' 0 1 example_upgrade)))) = [8]"
proof -
  have "enqueue_embed_model_upgrade_batch 5 ''n'' 0 1 example_upgrade =
      (Inr \<lparr>ur_enqueued = 1, ur_has_more = True\<rparr>, snd (enqueue_embed_model_upgrade_batch 5 ''n'' 0 1 example_upgrade))"
    using example_upgrade_first by (metis prod.collapse)
  note u = upgrade_batch_advances[OF example_upgrade_wf this refl refl]
  have "upgrade_candidates ''n'' (db_files (snd (enqueue_embed_model_upgrade_batch 5 ''n'' 0 1 example_upgrade))) =
      drop (nat (upgrade_limit 1)) (upgrade_candidates ''n'' (db_files example_upgrade))"
    using u by blast
  moreover have "map f_id (drop (nat (upgrade_limit 1)) (upgrade_candidates ''n'' (db_files example_upgrade))) = [8]"
    by code_simp
  ultimately show ?thesis by simp
qed

end
