(* ===== verification/Errclass.thy ===== *)
theory Errclass
  imports Prelude Complex_Main
begin

text \<open>
  Error classes and retry timing, \<open>internal/errclass/errclass.go\<close>.

  A Go error is a tree: wrappers carry the error they wrap, and \<open>errors.Is\<close> and \<open>errors.As\<close> search it
  from the root, depth first.  Leaves of the packages above are the parameter \<open>'x\<close>.  A duration is
  its number of nanoseconds; \<open>float64\<close> jitter is an exact rational.
\<close>

section \<open>Classes\<close>

datatype err_class = Transient | Permanent | Poison | Fatal | OtherClass string

definition class_string :: "err_class \<Rightarrow> string" where
  "class_string c = (case c of Transient \<Rightarrow> ''transient'' | Permanent \<Rightarrow> ''permanent'' | Poison \<Rightarrow> ''poison''
     | Fatal \<Rightarrow> ''fatal'' | OtherClass s \<Rightarrow> s)"

definition valid_class :: "err_class \<Rightarrow> bool" where
  "valid_class c \<longleftrightarrow> (case c of OtherClass _ \<Rightarrow> False | _ \<Rightarrow> True)"

definition parse_class :: "string \<Rightarrow> err_class option" where
  "parse_class s =
     (if s = ''transient'' then Some Transient else if s = ''permanent'' then Some Permanent
      else if s = ''poison'' then Some Poison else if s = ''fatal'' then Some Fatal else None)"

definition normalize_class :: "err_class \<Rightarrow> err_class" where
  "normalize_class c = (if valid_class c then c else Transient)"

section \<open>Errors\<close>

datatype errno =
  EPERM | EACCES | EROFS | EFBIG | ENAMETOOLONG | ENOTDIR | EISDIR | ENOEXEC | ENOSYS | ENOTSUP | EOPNOTSUPP
| ENOSPC | EDQUOT | Errno nat

datatype sentinel = ErrPermission | ErrUnsupported | ErrFsInvalid | ErrNotExist | ContextCanceled | ContextDeadlineExceeded

datatype 'x go_error =
  Leaf 'x
| Text string
| Sentinel sentinel
| Syscall errno
| NetError string
| ClassError err_class
| Classified err_class "'x go_error"
| Wrapped string "'x go_error"
| Staged string "'x go_error"
| Joined "'x go_error list"

fun chain :: "'x go_error \<Rightarrow> 'x go_error list" where
  "chain (Classified c e) = Classified c e # chain e"
| "chain (Wrapped s e) = Wrapped s e # chain e"
| "chain (Staged s e) = Staged s e # chain e"
| "chain (Joined es) = Joined es # concat (map chain es)"
| "chain e = [e]"

text \<open>\<open>errors.Is\<close> against a leaf, and against a sentinel; \<open>syscall.Errno\<close> has an \<open>Is\<close> of its own.\<close>

definition is_leaf :: "'x go_error \<Rightarrow> 'x \<Rightarrow> bool" where
  "is_leaf e x \<longleftrightarrow> Leaf x \<in> set (chain e)"

definition errno_is :: "errno \<Rightarrow> sentinel \<Rightarrow> bool" where
  "errno_is n t \<longleftrightarrow>
     (case t of ErrPermission \<Rightarrow> n \<in> {EACCES, EPERM} | ErrUnsupported \<Rightarrow> n \<in> {ENOSYS, ENOTSUP, EOPNOTSUPP} | _ \<Rightarrow> False)"

definition is_sentinel :: "'x go_error \<Rightarrow> sentinel \<Rightarrow> bool" where
  "is_sentinel e t \<longleftrightarrow>
     list_ex (\<lambda>n. case n of Sentinel u \<Rightarrow> u = t | Syscall c \<Rightarrow> errno_is c t | _ \<Rightarrow> False) (chain e)"

definition is_errno :: "'x go_error \<Rightarrow> errno \<Rightarrow> bool" where
  "is_errno e n \<longleftrightarrow> Syscall n \<in> set (chain e)"

text \<open>\<open>errors.Is\<close> against a class: the class itself, or \<open>Error.Is\<close>.\<close>

definition is_class :: "'x go_error \<Rightarrow> err_class \<Rightarrow> bool" where
  "is_class e c \<longleftrightarrow>
     list_ex (\<lambda>n. case n of ClassError d \<Rightarrow> d = c | Classified d _ \<Rightarrow> normalize_class d = c | _ \<Rightarrow> False) (chain e)"

definition new_error :: "err_class \<Rightarrow> string \<Rightarrow> 'x go_error" where
  "new_error c message = Classified (normalize_class c) (Text message)"

definition wrap_class :: "err_class \<Rightarrow> 'x go_error \<Rightarrow> 'x go_error" where
  "wrap_class c e = Classified (normalize_class c) e"

section \<open>Classification\<close>

definition own_class :: "'x go_error \<Rightarrow> err_class option" where
  "own_class n = (case n of ClassError c \<Rightarrow> Some c | Classified c _ \<Rightarrow> Some (normalize_class c) | _ \<Rightarrow> None)"

text \<open>The first node of the tree that carries a class, \<open>errors.As\<close>.\<close>

definition explicit_class :: "'x go_error \<Rightarrow> err_class option" where
  "explicit_class e = (case List.map_filter own_class (chain e) of [] \<Rightarrow> None | c # _ \<Rightarrow> Some c)"

text \<open>On Windows an \<open>Errno\<close> of the two full-disk codes counts, when it is the first one in the tree.\<close>

definition windows_disk_full :: "'x go_error \<Rightarrow> bool" where
  "windows_disk_full e \<longleftrightarrow>
     (case List.find (\<lambda>n. case n of Syscall _ \<Rightarrow> True | _ \<Rightarrow> False) (chain e) of
        Some (Syscall n) \<Rightarrow> n = Errno 39 \<or> n = Errno 112
      | _ \<Rightarrow> False)"

definition is_disk_full :: "bool \<Rightarrow> 'x go_error \<Rightarrow> bool" where
  "is_disk_full windows e \<longleftrightarrow> is_errno e ENOSPC \<or> is_errno e EDQUOT \<or> windows \<and> windows_disk_full e"

definition permanent_sentinels :: "sentinel list" where
  "permanent_sentinels = [ErrPermission, ErrUnsupported, ErrFsInvalid]"

definition permanent_errnos :: "errno list" where
  "permanent_errnos = [EROFS, EFBIG, ENAMETOOLONG, ENOTDIR, EISDIR, ENOEXEC, ENOSYS, ENOTSUP, EOPNOTSUPP]"

definition classify :: "bool \<Rightarrow> 'x go_error option \<Rightarrow> err_class" where
  "classify windows err =
     (case err of
        None \<Rightarrow> Transient
      | Some e \<Rightarrow>
          (case explicit_class e of
             Some c \<Rightarrow> if valid_class c then c
               else if is_disk_full windows e then Fatal
               else if list_ex (is_sentinel e) permanent_sentinels \<or> list_ex (is_errno e) permanent_errnos then Permanent
               else Transient
           | None \<Rightarrow>
               if is_disk_full windows e then Fatal
               else if list_ex (is_sentinel e) permanent_sentinels \<or> list_ex (is_errno e) permanent_errnos then Permanent
               else Transient))"

section \<open>The retry policy\<close>

definition default_retry_base :: int where "default_retry_base = 5 * 10 ^ 9"
definition default_retry_cap :: int where "default_retry_cap = 30 * 60 * 10 ^ 9"
definition default_max_transient_attempts :: int where "default_max_transient_attempts = 8"

record policy =
  po_base :: int
  po_cap :: int
  po_max_transient :: int

definition new_policy :: "int \<Rightarrow> int \<Rightarrow> int \<Rightarrow> string + policy" where
  "new_policy base cap max_attempts =
     (if base \<le> 0 then Inl ''retry base must be greater than zero''
      else if cap \<le> 0 then Inl ''retry cap must be greater than zero''
      else if cap < base then Inl ''retry cap must be greater than or equal to base''
      else if max_attempts < 0 then Inl ''maximum transient attempts must not be negative''
      else Inr \<lparr>po_base = base, po_cap = cap, po_max_transient = max_attempts\<rparr>)"

definition default_policy :: policy where
  "default_policy = \<lparr>po_base = default_retry_base, po_cap = default_retry_cap,
     po_max_transient = default_max_transient_attempts\<rparr>"

definition max_attempts :: "policy \<Rightarrow> err_class \<Rightarrow> int" where
  "max_attempts p c = (if c = Transient then po_max_transient p else 0)"

definition should_retry :: "policy \<Rightarrow> err_class \<Rightarrow> int \<Rightarrow> bool" where
  "should_retry p c attempts \<longleftrightarrow> c = Transient \<and> attempts \<ge> 0 \<and> attempts < po_max_transient p"

text \<open>The doubling loop; \<open>delay > cap / 2\<close> stops before an overflow.\<close>

fun backoff :: "int \<Rightarrow> nat \<Rightarrow> int \<Rightarrow> int" where
  "backoff cap 0 delay = delay"
| "backoff cap (Suc n) delay =
     (if delay < cap then
        if delay > cap div 2 then cap
        else let delay = delay * 2 in backoff cap n (if delay > cap then cap else delay)
      else delay)"

datatype random_value = NaN | Value rat

definition jitter :: "random_value \<Rightarrow> rat" where
  "jitter r = (let v = (case r of NaN \<Rightarrow> 1 / 2 | Value v \<Rightarrow> if v < 0 then 0 else if v > 1 then 1 else v)
     in 8 / 10 + 4 / 10 * v)"

text \<open>\<open>math.Round\<close>: half away from zero; the argument is not negative here.\<close>

definition round_half_up :: "rat \<Rightarrow> int" where
  "round_half_up x = \<lfloor>x + 1 / 2\<rfloor>"

definition delay :: "policy \<Rightarrow> random_value \<Rightarrow> int \<Rightarrow> int" where
  "delay p r attempt =
     (if po_base p \<le> 0 \<or> po_cap p < po_base p then 0
      else
        let scaled = of_int (backoff (po_cap p) (nat attempt) (po_base p)) * jitter r
        in if scaled \<ge> of_int max_int64 then max_int64
           else let result = round_half_up scaled in if result < 1 then 1 else result)"

definition next_attempt :: "policy \<Rightarrow> random_value \<Rightarrow> int \<Rightarrow> int \<Rightarrow> int" where
  "next_attempt p r now attempt = now + delay p r attempt"

section \<open>Laws\<close>

lemma parse_class_string: "parse_class (class_string c) = (if valid_class c then Some c else parse_class (class_string c))"
  by (cases c) (simp_all add: parse_class_def class_string_def valid_class_def)

lemma valid_normalize [simp]: "valid_class (normalize_class c)"
  by (simp add: normalize_class_def valid_class_def)

lemma classify_wrap [simp]: "classify w (Some (wrap_class c e)) = normalize_class c"
  by (simp add: classify_def wrap_class_def explicit_class_def own_class_def normalize_class_def valid_class_def
      List.map_filter_simps)

lemma classify_staged [simp]: "classify w (Some (Staged s e)) = classify w (Some e)"
  by (simp add: classify_def explicit_class_def own_class_def is_disk_full_def windows_disk_full_def is_errno_def
      is_sentinel_def List.map_filter_simps permanent_sentinels_def permanent_errnos_def cong: if_cong option.case_cong)

lemma is_leaf_simps [simp]:
  "is_leaf (Leaf y) x = (y = x)" "is_leaf (Text s) x = False" "is_leaf (Sentinel t) x = False"
  "is_leaf (Syscall n) x = False" "is_leaf (NetError s) x = False" "is_leaf (ClassError c) x = False"
  "is_leaf (Classified c e) x = is_leaf e x" "is_leaf (Wrapped s e) x = is_leaf e x"
  "is_leaf (Staged s e) x = is_leaf e x" "is_leaf (wrap_class c e) x = is_leaf e x"
  by (auto simp: is_leaf_def wrap_class_def)

text \<open>The loop is the capped exponential.\<close>

lemma backoff_eq:
  assumes "0 < d" "d \<le> cap"
  shows "backoff cap n d = min (d * 2 ^ n) cap"
  using assms
proof (induction n arbitrary: d)
  case (Suc n)
  have big: "cap \<le> d * 2 ^ Suc n" if "cap \<le> d * 2"
  proof -
    have "d * 2 * 1 \<le> d * 2 * 2 ^ n" using Suc.prems(1) by (intro mult_left_mono) auto
    then show ?thesis using that by (simp add: mult.assoc)
  qed
  show ?case
  proof (cases "cap \<le> d * 2")
    case True
    have "backoff cap n cap = cap"
      using Suc.IH[of cap] Suc.prems one_le_power[of "2 :: int" n] by (auto simp: min_def mult_le_cancel_left1 intro: antisym)
    moreover have "d * 2 = cap \<or> d > cap div 2 \<or> \<not> d < cap" using True by linarith
    ultimately show ?thesis using big[OF True] Suc.prems True by (auto simp: Let_def min_def)
  next
    case False
    then show ?thesis using Suc.prems Suc.IH[of "d * 2"] by (auto simp: Let_def mult.assoc)
  qed
qed simp

lemma jitter_bounds: "8 / 10 \<le> jitter r" "jitter r \<le> 12 / 10"
  by (auto simp: jitter_def Let_def split: random_value.splits)


lemma round_half_up_bounds: "x - 1 / 2 < of_int (round_half_up x)" "of_int (round_half_up x) \<le> x + 1 / 2"
  unfolding round_half_up_def by linarith+

lemma jitter_pos: "0 < jitter r"
  using jitter_bounds(1)[of r] by linarith

lemma new_policyD:
  assumes "new_policy base cap n = Inr p"
  shows "po_base p = base" "po_cap p = cap" "0 < base" "base \<le> cap"
  using assms by (auto simp: new_policy_def split: if_splits)

definition rounded_delay :: "rat \<Rightarrow> int" where
  "rounded_delay x = (if x \<ge> of_int max_int64 then max_int64 else max 1 (round_half_up x))"

lemma rounded_delay_mono: "x \<le> y \<Longrightarrow> rounded_delay x \<le> rounded_delay y"
proof -
  assume "x \<le> y"
  have m: "round_half_up z \<le> max_int64" if "z < of_int max_int64" for z
  proof -
    have "of_int (round_half_up z) < (of_int (max_int64 + 1) :: rat)" using round_half_up_bounds(2)[of z] that by simp
    then show ?thesis unfolding of_int_less_iff by simp
  qed
  have "(1 :: int) \<le> max_int64" by (simp add: max_int64_def)
  moreover have "round_half_up x \<le> round_half_up y" using \<open>x \<le> y\<close> by (simp add: round_half_up_def floor_mono)
  ultimately show ?thesis using m[of x] \<open>x \<le> y\<close> by (auto simp: rounded_delay_def)
qed

lemma rounded_delay_bounds:
  assumes "0 < x"
  shows "1 \<le> rounded_delay x" "rounded_delay x \<le> max_int64" "rounded_delay x = max_int64 \<or> x - 1 / 2 \<le> of_int (rounded_delay x)"
    "8 / 10 \<le> x \<Longrightarrow> of_int (rounded_delay x) \<le> x + 1 / 2"
proof -
  have one: "(1 :: int) \<le> max_int64" by (simp add: max_int64_def)
  have big: "rounded_delay (of_int max_int64) = max_int64" by (simp add: rounded_delay_def)
  show "1 \<le> rounded_delay x" using one by (simp add: rounded_delay_def)
  show "rounded_delay x \<le> max_int64"
    using rounded_delay_mono[of x "of_int max_int64"] big by (cases "x \<le> of_int max_int64") (auto simp: rounded_delay_def)
  show "rounded_delay x = max_int64 \<or> x - 1 / 2 \<le> of_int (rounded_delay x)"
    using round_half_up_bounds(1)[of x] by (auto simp: rounded_delay_def max_def)
  show "of_int (rounded_delay x) \<le> x + 1 / 2" if "8 / 10 \<le> x"
    using round_half_up_bounds(2)[of x] that by (auto simp: rounded_delay_def max_def)
qed

lemma delay_rounded:
  assumes "new_policy base cap n = Inr p"
  shows "delay p r attempt = rounded_delay (of_int (min (base * 2 ^ nat attempt) cap) * jitter r)"
proof -
  note p = new_policyD[OF assms]
  have "\<not> (po_base p \<le> 0 \<or> po_cap p < po_base p)" using p by simp
  moreover have "backoff (po_cap p) (nat attempt) (po_base p) = min (base * 2 ^ nat attempt) cap"
    using p backoff_eq[of base cap "nat attempt"] by simp
  ultimately show ?thesis by (simp add: delay_def rounded_delay_def Let_def max_def)
qed



end
