(* ===== verification/Pipeline.thy ===== *)
theory Pipeline
  imports Errclass Store_Queue Text
begin

text \<open>
  The values passed between the indexing stages, \<open>internal/pipeline/task.go\<close>, and the sentinel errors that
  the stages compare with \<open>errors.Is\<close>.
\<close>

section \<open>Values\<close>

record file_meta =
  fm_path :: string
  fm_size :: int
  fm_mtime_ns :: int
  fm_inode :: "int option"
  fm_sample_hash :: "int list"

record doc =
  doc_kind :: file_kind
  doc_content :: string
  doc_truncated :: bool
  doc_extractor_version :: string

record frame =
  fr_index :: int
  fr_ts :: "int option"
  fr_jpeg :: string

record embedding =
  em_index :: int
  em_ts :: "int option"
  em_values :: "32 word list"
  em_model :: string

record pipeline_task =
  pt_row :: task
  pt_catalog :: "catalog_file option"
  pt_generation :: int

text \<open>The copy of the catalog row is the row: values are immutable.\<close>

definition new_task :: "task \<Rightarrow> catalog_file option \<Rightarrow> pipeline_task" where
  "new_task row catalog = \<lparr>pt_row = row, pt_catalog = catalog, pt_generation = t_generation row\<rparr>"

section \<open>Sentinels of the stages\<close>

datatype io_error = ErrUnsettled | ErrFileTooLarge | ErrNotRegular | ErrIoInvalidTask | ErrIoInvalidConfig | ErrStageClosed

datatype app_error =
  StoreFailure store_error
| IoFailure io_error
| ErrDocumentNotFound
| ErrWriterStopped
| ErrWaiting
| ErrInvalidResponse
| ErrStaleModelResponse
| ErrExtractorPanic
| ErrUnsupportedImage | ErrImageTooLarge | ErrImagePanic | ErrInvalidImageConfig

type_synonym app = "app_error go_error"

end
