(* ===== verification/Io_Stage.thy ===== *)
theory Io_Stage
  imports Pipeline
begin

text \<open>
  The filesystem stage, \<open>internal/pipeline/iostage/io.go\<close>: a task is compared with the file at its path,
  and the outcome says which projection action to take.

  The two semaphores count what the stage has handed out; the answers of the filesystem, the clock and
  the sampled hash during one call are an argument.  A call is a program over the semaphores and the
  open files that may return early, and its deferred releases run on every return.
\<close>

section \<open>The environment of a call\<close>

record file_info =
  fi_regular :: bool
  fi_size :: int
  fi_mtime_ns :: int
  fi_inode :: "int option"

record io_answers =
  ia_task_slot :: "app option"
  ia_lstat :: "app + file_info"
  ia_settle :: "app option"
  ia_relstat :: "app + file_info"
  ia_byte_slot :: "app option"
  ia_open :: "app option"
  ia_stat :: "app + file_info"
  ia_hash :: "app + int list"
  ia_restat :: "app + file_info"
  ia_close :: "app option"
  ia_read :: "nat \<Rightarrow> app + string"
  ia_seek :: "app option"
  ia_now :: int

record io_config =
  io_concurrency :: int
  io_bytes_inflight :: int
  io_max_file_size :: int
  io_settle_delay :: int
  io_sniff_bytes :: int

definition automatic_concurrency :: "int \<Rightarrow> int" where
  "automatic_concurrency cpus = (let c = 4 * cpus in if c > 32 then 32 else if c < 1 then 1 else c)"

definition default_io_config :: "int \<Rightarrow> io_config" where
  "default_io_config cpus = \<lparr>io_concurrency = automatic_concurrency cpus, io_bytes_inflight = 256 * 2 ^ 20,
     io_max_file_size = 512 * 2 ^ 20, io_settle_delay = 200 * 10 ^ 6, io_sniff_bytes = 8 * 2 ^ 10\<rparr>"

definition new_stage :: "int \<Rightarrow> io_config \<Rightarrow> io_error + io_config" where
  "new_stage cpus c =
     (if io_concurrency c < 0 \<or> io_bytes_inflight c < 0 \<or> io_max_file_size c < 0 \<or> io_settle_delay c < 0 \<or>
         io_sniff_bytes c < 0 then Inl ErrIoInvalidConfig
      else let d = default_io_config cpus; pick = (\<lambda>f. if f c = 0 then f d else f c)
           in Inr \<lparr>io_concurrency = pick io_concurrency, io_bytes_inflight = pick io_bytes_inflight,
             io_max_file_size = pick io_max_file_size, io_settle_delay = pick io_settle_delay,
             io_sniff_bytes = pick io_sniff_bytes\<rparr>)"

section \<open>Results\<close>

datatype outcome = OutcomeExtract | OutcomeRemove | OutcomeUnchanged | OutcomeMetadataOnly | OutcomeRelocate

definition outcome_string :: "outcome \<Rightarrow> string" where
  "outcome_string o' = (case o' of OutcomeExtract \<Rightarrow> ''extract'' | OutcomeRemove \<Rightarrow> ''remove''
     | OutcomeUnchanged \<Rightarrow> ''unchanged'' | OutcomeMetadataOnly \<Rightarrow> ''metadata_only'' | OutcomeRelocate \<Rightarrow> ''relocate'')"

text \<open>\<open>ir_held\<close> is the byte weight that \<open>Close\<close> releases, with a task slot and the open file.\<close>

record io_result =
  ir_outcome :: outcome
  ir_effective_op :: task_op
  ir_meta :: file_meta
  ir_sniff :: string
  ir_checked_at :: int
  ir_held :: "int option"

section \<open>Semaphores, open files and deferred releases\<close>

record io_state =
  st_tasks :: int
  st_bytes :: int
  st_files :: int
  st_task_held :: bool
  st_bytes_held :: bool
  st_file_owned :: bool
  st_weight :: int

type_synonym 'a io = "io_state \<Rightarrow> ((app + io_result) + 'a) \<times> io_state"

definition io_return :: "app + io_result \<Rightarrow> 'a io" where
  "io_return r = (\<lambda>s. (Inl r, s))"

definition io_bind :: "'a io \<Rightarrow> ('a \<Rightarrow> 'b io) \<Rightarrow> 'b io" where
  "io_bind m f = (\<lambda>s. case m s of (Inl r, s') \<Rightarrow> (Inl r, s') | (Inr x, s') \<Rightarrow> f x s')"

definition io_do :: "(io_state \<Rightarrow> io_state) \<Rightarrow> unit io" where
  "io_do f = (\<lambda>s. (Inr (), f s))"

definition io_try :: "string \<Rightarrow> app option \<Rightarrow> unit io" where
  "io_try what r = (\<lambda>s. case r of Some e \<Rightarrow> (Inl (Inl (Wrapped what e)), s) | None \<Rightarrow> (Inr (), s))"

definition io_get :: "string \<Rightarrow> app + 'a \<Rightarrow> 'a io" where
  "io_get what r = (\<lambda>s. case r of Inl e \<Rightarrow> (Inl (Inl (Wrapped what e)), s) | Inr x \<Rightarrow> (Inr x, s))"

definition io_fail :: "io_error \<Rightarrow> 'a io" where
  "io_fail e = io_return (Inl (Wrapped [] (Leaf (IoFailure e))))"

definition deferred :: "io_state \<Rightarrow> io_state" where
  "deferred s =
     (let s = (if st_file_owned s then s\<lparr>st_files := st_files s - 1, st_file_owned := False\<rparr> else s);
          s = (if st_bytes_held s then s\<lparr>st_bytes := st_bytes s - st_weight s, st_bytes_held := False\<rparr> else s)
      in if st_task_held s then s\<lparr>st_tasks := st_tasks s - 1, st_task_held := False\<rparr> else s)"

definition release_bytes :: "io_state \<Rightarrow> io_state" where
  "release_bytes s = s\<lparr>st_bytes_held := False, st_bytes := st_bytes s - st_weight s\<rparr>"

section \<open>Comparisons\<close>

definition metadata_from_info :: "string \<Rightarrow> file_info \<Rightarrow> file_meta" where
  "metadata_from_info path i = \<lparr>fm_path = path, fm_size = fi_size i, fm_mtime_ns = fi_mtime_ns i, fm_inode = fi_inode i,
     fm_sample_hash = []\<rparr>"

definition path_only :: "string \<Rightarrow> file_meta" where
  "path_only path = \<lparr>fm_path = path, fm_size = 0, fm_mtime_ns = 0, fm_inode = None, fm_sample_hash = []\<rparr>"

definition same_tuple :: "file_meta \<Rightarrow> file_meta \<Rightarrow> bool" where
  "same_tuple l r \<longleftrightarrow> fm_size l = fm_size r \<and> fm_mtime_ns l = fm_mtime_ns r \<and> fm_inode l = fm_inode r"

definition same_catalog_tuple :: "file_meta \<Rightarrow> catalog_file \<Rightarrow> bool" where
  "same_catalog_tuple m f \<longleftrightarrow> fm_size m = f_size f \<and> fm_mtime_ns m = f_mtime_ns f \<and> fm_inode m = f_inode f"

text \<open>\<open>task.Catalog != nil && task.Catalog.IndexedAtMS != nil\<close> and a test of the row.\<close>

definition indexed_row :: "pipeline_task \<Rightarrow> (catalog_file \<Rightarrow> bool) \<Rightarrow> bool" where
  "indexed_row t p \<longleftrightarrow> (case pt_catalog t of None \<Rightarrow> False | Some f \<Rightarrow> f_indexed_at_ms f \<noteq> None \<and> p f)"

definition read_sniff :: "io_answers \<Rightarrow> int \<Rightarrow> int \<Rightarrow> app + string" where
  "read_sniff a requested sz =
     (let count = (if requested > sz then sz else requested)
      in if count \<le> 0 then Inr [] else ia_read a (nat count))"

section \<open>Process\<close>

definition terminal :: "io_answers \<Rightarrow> outcome \<Rightarrow> task_op \<Rightarrow> file_meta \<Rightarrow> 'a io" where
  "terminal a outc op meta =
     io_bind (io_do (\<lambda>s. s\<lparr>st_task_held := False, st_tasks := st_tasks s - 1\<rparr>)) (\<lambda>_.
     io_return (Inr \<lparr>ir_outcome = outc, ir_effective_op = op, ir_meta = meta, ir_sniff = [], ir_checked_at = ia_now a,
       ir_held = None\<rparr>))"

text \<open>An \<open>Lstat\<close> that finds nothing is a removal.\<close>

definition lstat_or_gone :: "io_answers \<Rightarrow> string \<Rightarrow> string \<Rightarrow> app + file_info \<Rightarrow> file_info io" where
  "lstat_or_gone a what path r =
     (case r of
        Inl e \<Rightarrow> if is_sentinel e ErrNotExist then terminal a OutcomeRemove TaskOpRemove (path_only path)
                 else io_return (Inl (Wrapped what e))
      | Inr i \<Rightarrow> (\<lambda>s. (Inr i, s)))"

text \<open>The first observation: the operation that is left to do.\<close>

definition first_look :: "io_answers \<Rightarrow> pipeline_task \<Rightarrow> (task_op \<times> file_meta) io" where
  "first_look a t =
     (let path = t_path (pt_row t); op = t_op (pt_row t) in
     io_bind (lstat_or_gone a ''lstat'' path (ia_lstat a)) (\<lambda>info.
     if op = TaskOpRemove \<and> \<not> fi_regular info then terminal a OutcomeRemove TaskOpRemove (path_only path)
     else if \<not> fi_regular info then io_fail ErrNotRegular
     else (\<lambda>s. (Inr (if op = TaskOpRemove then TaskOpUpsert else op, metadata_from_info path info), s))))"

definition second_look :: "io_config \<Rightarrow> io_answers \<Rightarrow> pipeline_task \<Rightarrow> file_meta \<Rightarrow> file_meta io" where
  "second_look c a t first =
     (let path = t_path (pt_row t) in
     io_bind (io_try ''settle'' (ia_settle a)) (\<lambda>_.
     io_bind (lstat_or_gone a ''recheck'' path (ia_relstat a)) (\<lambda>info.
     if \<not> fi_regular info then io_fail ErrNotRegular
     else let meta = metadata_from_info path info in
       if \<not> same_tuple first meta then io_fail ErrUnsettled
       else if fm_size meta > io_max_file_size c then io_fail ErrFileTooLarge
       else (\<lambda>s. (Inr meta, s)))))"

definition byte_weight :: "io_config \<Rightarrow> int \<Rightarrow> int" where
  "byte_weight c sz = (if sz > io_bytes_inflight c then io_bytes_inflight c else sz)"

definition open_and_hash :: "io_config \<Rightarrow> io_answers \<Rightarrow> pipeline_task \<Rightarrow> file_meta \<Rightarrow> file_meta io" where
  "open_and_hash c a t meta =
     (let path = t_path (pt_row t); w = byte_weight c (fm_size meta) in
     io_bind (io_try ''acquire IO bytes'' (ia_byte_slot a)) (\<lambda>_.
     io_bind (io_do (\<lambda>s. s\<lparr>st_bytes := st_bytes s + w, st_bytes_held := True, st_weight := w\<rparr>)) (\<lambda>_.
     io_bind (io_try ''open'' (ia_open a)) (\<lambda>_.
     io_bind (io_do (\<lambda>s. s\<lparr>st_files := st_files s + 1, st_file_owned := True\<rparr>)) (\<lambda>_.
     io_bind (io_get ''stat opened'' (ia_stat a)) (\<lambda>info.
     if \<not> same_tuple meta (metadata_from_info path info) then io_fail ErrUnsettled
     else
     io_bind (io_get ''sample hash'' (ia_hash a)) (\<lambda>hash.
     io_bind (io_get ''stat hashed'' (ia_restat a)) (\<lambda>again.
     if \<not> same_tuple meta (metadata_from_info path again) then io_fail ErrUnsettled
     else (\<lambda>s. (Inr (meta\<lparr>fm_sample_hash := hash\<rparr>), s))))))))))"

text \<open>The file is closed, whether or not \<open>Close\<close> reports an error, and the bytes are released on success.\<close>

definition close_and_end :: "io_answers \<Rightarrow> string \<Rightarrow> outcome \<Rightarrow> task_op \<Rightarrow> file_meta \<Rightarrow> 'a io" where
  "close_and_end a what outc op meta =
     io_bind (io_do (\<lambda>s. s\<lparr>st_file_owned := False, st_files := st_files s - 1\<rparr>)) (\<lambda>_.
     io_bind (io_try what (ia_close a)) (\<lambda>_.
     io_bind (io_do release_bytes) (\<lambda>_. terminal a outc op meta)))"

definition hand_over :: "io_config \<Rightarrow> io_answers \<Rightarrow> file_meta \<Rightarrow> unit io" where
  "hand_over c a meta =
     io_bind (io_get ''sniff'' (read_sniff a (io_sniff_bytes c) (fm_size meta))) (\<lambda>sniff.
     io_bind (io_try ''rewind'' (ia_seek a)) (\<lambda>_.
     io_bind (io_do (\<lambda>s. s\<lparr>st_file_owned := False, st_bytes_held := False, st_task_held := False\<rparr>)) (\<lambda>_.
     io_return (Inr \<lparr>ir_outcome = OutcomeExtract, ir_effective_op = TaskOpUpsert, ir_meta = meta, ir_sniff = sniff,
       ir_checked_at = ia_now a, ir_held = Some (byte_weight c (fm_size meta))\<rparr>))))"

definition decide :: "io_config \<Rightarrow> io_answers \<Rightarrow> pipeline_task \<Rightarrow> task_op \<Rightarrow> file_meta \<Rightarrow> unit io" where
  "decide c a t op meta =
     (let hash = fm_sample_hash meta in
      if op = TaskOpRelocate \<and> indexed_row t (\<lambda>f. same_catalog_tuple meta f \<and> hash = f_sample_hash f)
      then close_and_end a ''close relocated'' OutcomeRelocate TaskOpRelocate meta
      else if op = TaskOpUpsert \<and> indexed_row t (\<lambda>f. hash = f_sample_hash f)
      then close_and_end a ''close metadata-only'' OutcomeMetadataOnly TaskOpUpsert meta
      else hand_over c a meta)"

definition process_body :: "io_config \<Rightarrow> io_answers \<Rightarrow> pipeline_task \<Rightarrow> unit io" where
  "process_body c a t =
     (if t_path (pt_row t) = [] \<or> pt_generation t < 1 \<or> t_generation (pt_row t) \<noteq> pt_generation t
      then io_fail ErrIoInvalidTask
      else
      io_bind (io_try ''acquire IO task slot'' (ia_task_slot a)) (\<lambda>_.
      io_bind (io_do (\<lambda>s. s\<lparr>st_tasks := st_tasks s + 1, st_task_held := True\<rparr>)) (\<lambda>_.
      if t_op (pt_row t) \<notin> {TaskOpUpsert, TaskOpRemove, TaskOpRelocate} then io_fail ErrIoInvalidTask
      else
      io_bind (first_look a t) (\<lambda>(op, first).
      io_bind (second_look c a t first) (\<lambda>meta.
      if op = TaskOpUpsert \<and> indexed_row t (same_catalog_tuple meta)
      then terminal a OutcomeUnchanged TaskOpUpsert meta
      else
      io_bind (open_and_hash c a t meta) (decide c a t op))))))"

text \<open>\<open>Process\<close> runs the body and then the deferred releases.\<close>

definition process_io :: "io_config \<Rightarrow> io_answers \<Rightarrow> pipeline_task \<Rightarrow> io_state \<Rightarrow> (app + io_result) \<times> io_state" where
  "process_io c a t s =
     (case process_body c a t s of
        (Inl r, s') \<Rightarrow> (r, deferred s')
      | (Inr _, s') \<Rightarrow> (Inl (Text ''unreachable''), deferred s'))"

text \<open>\<open>Result.Close\<close>, the first time.\<close>

definition close_result :: "io_result \<Rightarrow> io_state \<Rightarrow> io_result \<times> io_state" where
  "close_result r s =
     (case ir_held r of
        None \<Rightarrow> (r, s)
      | Some w \<Rightarrow> (r\<lparr>ir_held := None\<rparr>,
          s\<lparr>st_files := st_files s - 1, st_bytes := st_bytes s - w, st_tasks := st_tasks s - 1\<rparr>))"

end
