(* ===== verification/Io_Properties.thy ===== *)
theory Io_Properties
  imports Io_Stage
begin

text \<open>
  Laws and properties of \<open>Io_Stage\<close>: every return leaves the semaphores and the open files balanced, and
  each outcome is justified by what the stage observed.
\<close>

section \<open>Weakest preconditions of a call\<close>

definition io_wp :: "(app + io_result \<Rightarrow> io_state \<Rightarrow> bool) \<Rightarrow> ('a \<Rightarrow> io_state \<Rightarrow> bool) \<Rightarrow> 'a io \<Rightarrow> io_state \<Rightarrow> bool" where
  "io_wp R Q m s \<longleftrightarrow> (case m s of (Inl r, s') \<Rightarrow> R r s' | (Inr x, s') \<Rightarrow> Q x s')"

named_theorems io_wp_simps "weakest preconditions of the programs of the stage"

lemma io_wp_combinators [io_wp_simps]:
  "io_wp R Q (io_return z') s = R z' s"
  "io_wp R Q (io_bind m f) s = io_wp R (\<lambda>x. io_wp R Q (f x)) m s"
  "io_wp R P (io_do g) s = P () (g s)"
  "io_wp R P (io_try w r) s = (case r of Some e \<Rightarrow> R (Inl (Wrapped w e)) s | None \<Rightarrow> P () s)"
  "io_wp R Q' (io_get w q) s = (case q of Inl e \<Rightarrow> R (Inl (Wrapped w e)) s | Inr y \<Rightarrow> Q' y s)"
  "io_wp R Q (io_fail e) s = R (Inl (Wrapped [] (Leaf (IoFailure e)))) s"
  "io_wp R P' (\<lambda>s. (Inr z, s)) s = P' z s"
  "io_wp R Q (if b then k else n) s = (if b then io_wp R Q k s else io_wp R Q n s)"
  by (auto simp: io_wp_def io_return_def io_bind_def io_do_def io_try_def io_get_def io_fail_def
      split: sum.splits option.splits prod.splits)

lemma io_wp_fun [io_wp_simps]:
  "io_wp R Q (io_return r) = R r" "io_wp R Q (io_bind m f) = io_wp R (\<lambda>x. io_wp R Q (f x)) m"
  by (simp_all add: fun_eq_iff io_wp_combinators)

lemma io_wp_mono:
  "io_wp R Q m s \<Longrightarrow> (\<And>r s'. R r s' \<Longrightarrow> R' r s') \<Longrightarrow> (\<And>x s'. Q x s' \<Longrightarrow> Q' x s') \<Longrightarrow> io_wp R' Q' m s"
  by (auto simp: io_wp_def split: sum.splits prod.splits)

section \<open>Balance\<close>

text \<open>What is handed out on the way and what is still flagged for a deferred release agree with the start;
  on a return, what the result keeps is still handed out.\<close>

definition flagged :: "io_state \<Rightarrow> io_state \<Rightarrow> bool" where
  "flagged s0 s \<longleftrightarrow> st_tasks s = st_tasks s0 + (if st_task_held s then 1 else 0) \<and>
     st_bytes s = st_bytes s0 + (if st_bytes_held s then st_weight s else 0) \<and>
     st_files s = st_files s0 + (if st_file_owned s then 1 else 0)"

definition kept :: "app + io_result \<Rightarrow> int option" where
  "kept r = (case r of Inl _ \<Rightarrow> None | Inr x \<Rightarrow> ir_held x)"

definition balanced :: "io_state \<Rightarrow> app + io_result \<Rightarrow> io_state \<Rightarrow> bool" where
  "balanced s0 r s \<longleftrightarrow>
     (case kept r of
        None \<Rightarrow> flagged s0 s
      | Some w \<Rightarrow> st_tasks s = st_tasks s0 + 1 \<and> st_bytes s = st_bytes s0 + w \<and> st_files s = st_files s0 + 1 \<and>
          \<not> st_task_held s \<and> \<not> st_bytes_held s \<and> \<not> st_file_owned s)"

lemma kept_simps [simp]: "kept (Inl e) = None" "kept (Inr x) = ir_held x"
  by (simp_all add: kept_def)

definition idle :: "io_state \<Rightarrow> bool" where
  "idle s \<longleftrightarrow> \<not> st_task_held s \<and> \<not> st_bytes_held s \<and> \<not> st_file_owned s"

abbreviation "holds_slot s0 s \<equiv> flagged s0 s \<and> st_task_held s \<and> \<not> st_bytes_held s \<and> \<not> st_file_owned s"
abbreviation "holds_file w s0 s \<equiv> flagged s0 s \<and> st_task_held s \<and> st_bytes_held s \<and> st_file_owned s \<and> st_weight s = w"

lemma wp_terminal [io_wp_simps]:
  "io_wp R Q (terminal a outc op meta) s =
     R (Inr \<lparr>ir_outcome = outc, ir_effective_op = op, ir_meta = meta, ir_sniff = [], ir_checked_at = ia_now a, ir_held = None\<rparr>)
       (s\<lparr>st_task_held := False, st_tasks := st_tasks s - 1\<rparr>)"
  by (simp add: terminal_def io_wp_simps)


section \<open>The steps\<close>

text \<open>What the stage has observed when it goes on with the values \<open>meta\<close>.\<close>

definition saw :: "io_answers \<Rightarrow> pipeline_task \<Rightarrow> task_op \<Rightarrow> file_meta \<Rightarrow> bool" where
  "saw a t op meta \<longleftrightarrow> (\<exists>i. ia_lstat a = Inr i \<and> fi_regular i \<and> meta = metadata_from_info (t_path (pt_row t)) i) \<and>
     op = (if t_op (pt_row t) = TaskOpRemove then TaskOpUpsert else t_op (pt_row t))"

definition settled_at :: "io_config \<Rightarrow> io_answers \<Rightarrow> pipeline_task \<Rightarrow> file_meta \<Rightarrow> bool" where
  "settled_at c a t meta \<longleftrightarrow> (\<exists>i j. ia_lstat a = Inr i \<and> ia_relstat a = Inr j \<and> fi_regular i \<and> fi_regular j \<and>
     fi_size i = fi_size j \<and> fi_mtime_ns i = fi_mtime_ns j \<and> fi_inode i = fi_inode j \<and>
     fi_size j \<le> io_max_file_size c \<and> meta = metadata_from_info (t_path (pt_row t)) j)"

text \<open>A removal: nothing is there, or a removal meets something that is not a regular file.\<close>

definition gone :: "io_answers \<Rightarrow> pipeline_task \<Rightarrow> bool" where
  "gone a t \<longleftrightarrow> (\<exists>e. is_sentinel e ErrNotExist \<and> (ia_lstat a = Inl e \<or> ia_relstat a = Inl e)) \<or>
     (t_op (pt_row t) = TaskOpRemove \<and> (\<exists>i. ia_lstat a = Inr i \<and> \<not> fi_regular i))"

definition removal :: "io_answers \<Rightarrow> pipeline_task \<Rightarrow> io_result" where
  "removal a t = \<lparr>ir_outcome = OutcomeRemove, ir_effective_op = TaskOpRemove, ir_meta = path_only (t_path (pt_row t)),
     ir_sniff = [], ir_checked_at = ia_now a, ir_held = None\<rparr>"

lemma wp_lstat_or_gone:
  assumes "\<And>e s'. R (Inl e) s" and "\<And>e. r = Inl e \<Longrightarrow> is_sentinel e ErrNotExist \<Longrightarrow>
      R (Inr \<lparr>ir_outcome = OutcomeRemove, ir_effective_op = TaskOpRemove, ir_meta = path_only path,
     ir_sniff = [], ir_checked_at = ia_now a, ir_held = None\<rparr>) (s\<lparr>st_task_held := False, st_tasks := st_tasks s - 1\<rparr>)"
    and "\<And>i. r = Inr i \<Longrightarrow> Q i s"
  shows "io_wp R Q (lstat_or_gone a what path r) s"
  using assms by (auto simp: lstat_or_gone_def io_wp_simps split: sum.splits)

lemma wp_first_look:
  assumes "\<And>e. R (Inl e) s" and "gone a t \<Longrightarrow> R (Inr (removal a t)) (s\<lparr>st_task_held := False, st_tasks := st_tasks s - 1\<rparr>)"
    and "\<And>op meta. saw a t op meta \<Longrightarrow> Q (op, meta) s"
  shows "io_wp R Q (first_look a t) s"
  unfolding first_look_def Let_def io_wp_simps
proof (rule wp_lstat_or_gone)
  fix i assume i: "ia_lstat a = Inr i"
  have "gone a t" if "t_op (pt_row t) = TaskOpRemove" "\<not> fi_regular i" using that i by (auto simp: gone_def)
  then show "(if t_op (pt_row t) = TaskOpRemove \<and> \<not> fi_regular i
     then R (Inr \<lparr>ir_outcome = OutcomeRemove, ir_effective_op = TaskOpRemove, ir_meta = path_only (t_path (pt_row t)),
       ir_sniff = [], ir_checked_at = ia_now a, ir_held = None\<rparr>) (s\<lparr>st_task_held := False, st_tasks := st_tasks s - 1\<rparr>)
     else if \<not> fi_regular i then R (Inl (Wrapped [] (Leaf (IoFailure ErrNotRegular)))) s
     else Q (if t_op (pt_row t) = TaskOpRemove then TaskOpUpsert else t_op (pt_row t),
       metadata_from_info (t_path (pt_row t)) i) s)"
    using assms i by (auto simp: removal_def saw_def)
qed (use assms in \<open>auto simp: gone_def removal_def\<close>)

lemma wp_second_look:
  assumes "\<And>e. R (Inl e) s" and "gone a t \<Longrightarrow> R (Inr (removal a t)) (s\<lparr>st_task_held := False, st_tasks := st_tasks s - 1\<rparr>)"
    and "saw a t op first" and "\<And>meta. settled_at c a t meta \<Longrightarrow> Q meta s"
  shows "io_wp R Q (second_look c a t first) s"
proof -
  have "io_wp R (\<lambda>info. io_wp R Q (if \<not> fi_regular info then io_fail ErrNotRegular
     else let meta = metadata_from_info (t_path (pt_row t)) info in
       if \<not> same_tuple first meta then io_fail ErrUnsettled
       else if fm_size meta > io_max_file_size c then io_fail ErrFileTooLarge
       else (\<lambda>s. (Inr meta, s)))) (lstat_or_gone a ''recheck'' (t_path (pt_row t)) (ia_relstat a)) s"
  proof (rule wp_lstat_or_gone)
    fix j assume "ia_relstat a = Inr j"
    then show "io_wp R Q (if \<not> fi_regular j then io_fail ErrNotRegular
     else let meta = metadata_from_info (t_path (pt_row t)) j in
       if \<not> same_tuple first meta then io_fail ErrUnsettled
       else if fm_size meta > io_max_file_size c then io_fail ErrFileTooLarge
       else (\<lambda>s. (Inr meta, s))) s"
      using assms by (auto simp: io_wp_simps Let_def saw_def settled_at_def same_tuple_def metadata_from_info_def)
  qed (use assms in \<open>auto simp: gone_def removal_def\<close>)
  then show ?thesis using assms(1) by (simp add: second_look_def Let_def io_wp_simps split: option.splits)
qed

text \<open>The bytes that were read: the open file is the one that was observed, before and after hashing.\<close>

definition hashed :: "io_answers \<Rightarrow> pipeline_task \<Rightarrow> file_meta \<Rightarrow> int list \<Rightarrow> bool" where
  "hashed a t meta h \<longleftrightarrow> ia_hash a = Inr h \<and> (\<exists>i j. ia_stat a = Inr i \<and> ia_restat a = Inr j \<and>
     same_tuple meta (metadata_from_info (t_path (pt_row t)) i) \<and> same_tuple meta (metadata_from_info (t_path (pt_row t)) j))"

lemma wp_open_and_hash:
  assumes s: "holds_slot s0 s" and R: "\<And>e s'. flagged s0 s' \<Longrightarrow> R (Inl e) s'"
    and Q: "\<And>h s'. holds_file (byte_weight c (fm_size meta)) s0 s' \<Longrightarrow> hashed a t meta h \<Longrightarrow>
      Q (meta\<lparr>fm_sample_hash := h\<rparr>) s'"
  shows "io_wp R Q (open_and_hash c a t meta) s"
proof -
  let ?w = "byte_weight c (fm_size meta)"
  let ?s1 = "s\<lparr>st_bytes := st_bytes s + ?w, st_bytes_held := True, st_weight := ?w\<rparr>"
  let ?s2 = "?s1\<lparr>st_files := st_files s + 1, st_file_owned := True\<rparr>"
  have f: "flagged s0 s" "flagged s0 ?s1" "holds_file ?w s0 ?s2" using s by (auto simp: flagged_def)
  note r = R[OF f(1)] R[OF f(2)] R[of ?s2]
  have q: "Q (meta\<lparr>fm_sample_hash := h\<rparr>) ?s2" if "hashed a t meta h" for h by (rule Q[OF f(3) that])
  show ?thesis unfolding open_and_hash_def Let_def
    using r f(3) q by (auto simp: io_wp_simps hashed_def split: option.splits sum.splits)
qed

lemma wp_close_and_end:
  assumes s: "holds_file w s0 s" and R: "\<And>e s'. flagged s0 s' \<Longrightarrow> R (Inl e) s'"
    and Q: "\<And>s'. flagged s0 s' \<Longrightarrow> R (Inr \<lparr>ir_outcome = outc, ir_effective_op = op, ir_meta = meta, ir_sniff = [],
      ir_checked_at = ia_now a, ir_held = None\<rparr>) s'"
  shows "io_wp R P (close_and_end a what outc op meta) s"
proof -
  let ?s1 = "s\<lparr>st_file_owned := False, st_files := st_files s - 1\<rparr>"
  let ?s2 = "?s1\<lparr>st_bytes_held := False, st_bytes := st_bytes s - st_weight s\<rparr>"
  have "flagged s0 ?s1" "flagged s0 (?s2\<lparr>st_task_held := False, st_tasks := st_tasks s - 1\<rparr>)"
    using s by (auto simp: flagged_def)
  from R[OF this(1)] Q[OF this(2)] show ?thesis
    by (auto simp: close_and_end_def io_wp_simps release_bytes_def split: option.splits)
qed

definition extracted :: "io_config \<Rightarrow> io_answers \<Rightarrow> file_meta \<Rightarrow> string \<Rightarrow> io_result" where
  "extracted c a meta sniff = \<lparr>ir_outcome = OutcomeExtract, ir_effective_op = TaskOpUpsert, ir_meta = meta, ir_sniff = sniff,
     ir_checked_at = ia_now a, ir_held = Some (byte_weight c (fm_size meta))\<rparr>"

lemma wp_hand_over:
  assumes s: "holds_file (byte_weight c (fm_size meta)) s0 s" and R: "\<And>e. R (Inl e) s"
    and Q: "\<And>sniff s'. balanced s0 (Inr (extracted c a meta sniff)) s' \<Longrightarrow> R (Inr (extracted c a meta sniff)) s'"
  shows "io_wp R P (hand_over c a meta) s"
proof -
  let ?s1 = "s\<lparr>st_file_owned := False, st_bytes_held := False, st_task_held := False\<rparr>"
  have "balanced s0 (Inr (extracted c a meta sniff)) ?s1" for sniff
    using s by (simp add: balanced_def flagged_def extracted_def)
  from Q[OF this] show ?thesis using R
    by (auto simp: hand_over_def io_wp_simps extracted_def split: option.splits sum.splits)
qed

section \<open>A whole call\<close>

text \<open>What a result says of what was observed.\<close>

fun justified :: "io_config \<Rightarrow> io_answers \<Rightarrow> pipeline_task \<Rightarrow> app + io_result \<Rightarrow> bool" where
  "justified c a t (Inl e) = True"
| "justified c a t (Inr r) =
     (ir_held r = (if ir_outcome r = OutcomeExtract then Some (byte_weight c (fm_size (ir_meta r))) else None) \<and>
     (case ir_outcome r of
        OutcomeRemove \<Rightarrow> gone a t
      | OutcomeUnchanged \<Rightarrow> settled_at c a t (ir_meta r) \<and> t_op (pt_row t) \<in> {TaskOpUpsert, TaskOpRemove} \<and>
          indexed_row t (same_catalog_tuple (ir_meta r))
      | OutcomeMetadataOnly \<Rightarrow> (\<exists>meta h. settled_at c a t meta \<and> hashed a t meta h \<and>
          ir_meta r = meta\<lparr>fm_sample_hash := h\<rparr> \<and> t_op (pt_row t) \<in> {TaskOpUpsert, TaskOpRemove} \<and>
          indexed_row t (\<lambda>f. h = f_sample_hash f) \<and> \<not> indexed_row t (same_catalog_tuple meta))
      | OutcomeRelocate \<Rightarrow> (\<exists>meta h. settled_at c a t meta \<and> hashed a t meta h \<and>
          ir_meta r = meta\<lparr>fm_sample_hash := h\<rparr> \<and> t_op (pt_row t) = TaskOpRelocate \<and>
          indexed_row t (\<lambda>f. same_catalog_tuple meta f \<and> h = f_sample_hash f))
      | OutcomeExtract \<Rightarrow> (\<exists>meta h. settled_at c a t meta \<and> hashed a t meta h \<and> ir_meta r = meta\<lparr>fm_sample_hash := h\<rparr>)))"

lemma same_catalog_tuple_hash [simp]: "same_catalog_tuple (m\<lparr>fm_sample_hash := h\<rparr>) = same_catalog_tuple m"
  by (simp add: same_catalog_tuple_def fun_eq_iff)

definition io_post :: "io_config \<Rightarrow> io_answers \<Rightarrow> pipeline_task \<Rightarrow> io_state \<Rightarrow> app + io_result \<Rightarrow> io_state \<Rightarrow> bool" where
  "io_post c a t s r s' \<longleftrightarrow> balanced s r s' \<and> justified c a t r"

abbreviation "never \<equiv> (\<lambda>_ _. False)"

lemma io_post_error: "flagged s s' \<Longrightarrow> io_post c a t s (Inl e) s'"
  by (simp add: io_post_def balanced_def)

lemma wp_decide:
  assumes h: "holds_file (byte_weight c (fm_size meta)) s s'" "hashed a t meta h" "settled_at c a t meta"
    and op: "op = (if t_op (pt_row t) = TaskOpRemove then TaskOpUpsert else t_op (pt_row t))"
    and un: "\<not> (op = TaskOpUpsert \<and> indexed_row t (same_catalog_tuple meta))"
  shows "io_wp (io_post c a t s) never (decide c a t op (meta\<lparr>fm_sample_hash := h\<rparr>)) s'"
proof -
  let ?m = "meta\<lparr>fm_sample_hash := h\<rparr>"
  consider (relocate) "op = TaskOpRelocate" "indexed_row t (\<lambda>f. same_catalog_tuple meta f \<and> h = f_sample_hash f)"
    | (metadata) "op = TaskOpUpsert" "indexed_row t (\<lambda>f. h = f_sample_hash f)"
    | (hand) "\<not> (op = TaskOpRelocate \<and> indexed_row t (\<lambda>f. same_catalog_tuple meta f \<and> h = f_sample_hash f))"
      "\<not> (op = TaskOpUpsert \<and> indexed_row t (\<lambda>f. h = f_sample_hash f))" by blast
  then show ?thesis
  proof cases
    case relocate
    have "io_wp (io_post c a t s) never (close_and_end a ''close relocated'' OutcomeRelocate TaskOpRelocate ?m) s'"
      by (rule wp_close_and_end[where R = "io_post c a t s", OF h(1) io_post_error])
        (use relocate h op in \<open>auto simp: io_post_def balanced_def split: if_splits\<close>)
    then show ?thesis using relocate by (simp add: decide_def)
  next
    case metadata
    have "io_wp (io_post c a t s) never (close_and_end a ''close metadata-only'' OutcomeMetadataOnly TaskOpUpsert ?m) s'"
      by (rule wp_close_and_end[where R = "io_post c a t s", OF h(1) io_post_error])
        (use metadata h op un in \<open>auto simp: io_post_def balanced_def split: if_splits\<close>)
    then show ?thesis using metadata by (simp add: decide_def)
  next
    case hand
    have "holds_file (byte_weight c (fm_size ?m)) s s'" using h(1) by simp
    moreover have "justified c a t (Inr (extracted c a ?m sniff))" for sniff
      using h(2,3) by (auto simp: extracted_def)
    ultimately have "io_wp (io_post c a t s) never (hand_over c a ?m) s'"
      using io_post_error h(1) by (intro wp_hand_over) (auto simp: io_post_def)
    then show ?thesis using hand by (auto simp: decide_def)
  qed
qed

lemma wp_process_body:
  assumes s: "idle s"
  shows "io_wp (io_post c a t s) never (process_body c a t) s"
proof -
  let ?s1 = "s\<lparr>st_tasks := st_tasks s + 1, st_task_held := True\<rparr>"
  have s1: "holds_slot s ?s1" "flagged s s" using s by (auto simp: flagged_def idle_def)
  have rem: "io_post c a t s (Inr (removal a t)) (?s1\<lparr>st_task_held := False, st_tasks := st_tasks ?s1 - 1\<rparr>)" if "gone a t"
    using that s by (simp add: io_post_def balanced_def removal_def flagged_def idle_def)
  have err: "io_post c a t s (Inl e) ?s1" "io_post c a t s (Inl e) s" for e
    using io_post_error s1 by blast+
  have last: "io_wp (io_post c a t s) never
      (if op = TaskOpUpsert \<and> indexed_row t (same_catalog_tuple meta) then terminal a OutcomeUnchanged TaskOpUpsert meta
       else io_bind (open_and_hash c a t meta) (decide c a t op)) ?s1"
    if m: "settled_at c a t meta" and op: "op = (if t_op (pt_row t) = TaskOpRemove then TaskOpUpsert else t_op (pt_row t))" for op meta
  proof (cases "op = TaskOpUpsert \<and> indexed_row t (same_catalog_tuple meta)")
    case True
    then show ?thesis using m op s by (auto simp: io_wp_simps io_post_def balanced_def flagged_def idle_def split: if_splits)
  next
    case False
    have "io_wp (io_post c a t s) (\<lambda>m'. io_wp (io_post c a t s) never (decide c a t op m')) (open_and_hash c a t meta) ?s1"
    proof (rule wp_open_and_hash[where R = "io_post c a t s", OF s1(1) io_post_error])
      fix h s' assume "holds_file (byte_weight c (fm_size meta)) s s'" "hashed a t meta h"
      then show "io_wp (io_post c a t s) never (decide c a t op (meta\<lparr>fm_sample_hash := h\<rparr>)) s'"
        using m op False by (rule wp_decide)
    qed
    then show ?thesis unfolding if_not_P[OF False] io_wp_simps .
  qed
  have second: "io_wp (io_post c a t s) (\<lambda>meta. io_wp (io_post c a t s) never
      (if op = TaskOpUpsert \<and> indexed_row t (same_catalog_tuple meta) then terminal a OutcomeUnchanged TaskOpUpsert meta
       else io_bind (open_and_hash c a t meta) (decide c a t op))) (second_look c a t first) ?s1"
    if "saw a t op first" for op first
    by (rule wp_second_look[OF err(1) rem that]) (use that last in \<open>auto simp: saw_def\<close>)
  have "io_wp (io_post c a t s) (\<lambda>(op, first). io_wp (io_post c a t s) (\<lambda>meta. io_wp (io_post c a t s) never
      (if op = TaskOpUpsert \<and> indexed_row t (same_catalog_tuple meta) then terminal a OutcomeUnchanged TaskOpUpsert meta
       else io_bind (open_and_hash c a t meta) (decide c a t op))) (second_look c a t first)) (first_look a t) ?s1"
    by (rule wp_first_look[OF err(1) rem]) (use second in auto)
  then show ?thesis unfolding process_body_def
    using err by (auto simp: io_wp_simps case_prod_unfold split: option.splits)
qed

text \<open>C34: A call of \<open>Process\<close> gives back every task slot, byte and open file on every return, errors included,
  unless it hands an open file to extraction; then the one \<open>Close\<close> of the result gives them back.  The
  bytes of a call never exceed the byte budget.  And its outcome is what it observed: a removal found
  nothing (or a removal that met something that is not a file), an unchanged or metadata-only file was
  steady and agrees with the indexed catalog row in its tuple or its hash, a relocation agrees in both,
  and the file handed to extraction was the one observed before and after hashing.\<close>

theorem io_outcomes_are_justified:
  assumes "idle s" and "0 \<le> io_bytes_inflight c" and "process_io c a t s = (r, s')"
  shows "justified c a t r \<and>
    (case r of
       Inl e \<Rightarrow> (st_tasks s', st_bytes s', st_files s') = (st_tasks s, st_bytes s, st_files s)
     | Inr x \<Rightarrow> (case close_result x s' of (x', s'') \<Rightarrow>
         (st_tasks s'', st_bytes s'', st_files s'') = (st_tasks s, st_bytes s, st_files s) \<and>
         close_result x' s'' = (x', s''))) \<and>
    idle s' \<and> st_bytes s' \<le> st_bytes s + io_bytes_inflight c"
proof -
  obtain s1 where b: "process_body c a t s = (Inl r, s1)" "s' = deferred s1"
    using wp_process_body[OF assms(1), of c a t] assms(3)
    by (auto simp: process_io_def io_wp_def split: sum.splits prod.splits)
  have p: "balanced s r s1" "justified c a t r"
    using wp_process_body[OF assms(1), of c a t] b(1) by (simp_all add: io_wp_def io_post_def)
  have w: "w \<le> io_bytes_inflight c" if "kept r = Some w" for w
    using that p(2) by (cases r) (auto simp: byte_weight_def split: if_splits)
  show ?thesis
    using p w assms(2) unfolding b(2)
    by (cases r) (auto simp del: justified.simps simp: balanced_def flagged_def deferred_def Let_def close_result_def idle_def split: option.splits)
qed

text \<open>A text file that is new: nothing in the catalog, steady, five bytes.\<close>

definition example_info :: file_info where
  "example_info = \<lparr>fi_regular = True, fi_size = 5, fi_mtime_ns = 9, fi_inode = Some 3\<rparr>"

definition example_answers :: io_answers where
  "example_answers = \<lparr>ia_task_slot = None, ia_lstat = Inr example_info, ia_settle = None, ia_relstat = Inr example_info,
     ia_byte_slot = None, ia_open = None, ia_stat = Inr example_info, ia_hash = Inr [1], ia_restat = Inr example_info,
     ia_close = None, ia_read = (\<lambda>n. Inr (replicate n CHR ''a'')), ia_seek = None, ia_now = 100\<rparr>"

definition example_queued :: task where
  "example_queued = \<lparr>t_id = 1, t_file_id = None, t_path = ''/a'', t_path_key = ''/a'', t_op = TaskOpUpsert, t_old_path = None,
     t_old_path_key = None, t_generation = 1, t_state = TaskStateInFlight, t_priority = 5, t_attempts = 1, t_crash_count = 0,
     t_next_attempt_at = 0, t_last_error = None, t_created_at = 0, t_updated_at = 0, t_charge = 1, t_attempts_log = [],
     t_error_chain = []\<rparr>"

definition quiet :: io_state where
  "quiet = \<lparr>st_tasks = 2, st_bytes = 7, st_files = 1, st_task_held = False, st_bytes_held = False, st_file_owned = False,
     st_weight = 0\<rparr>"

lemma io_outcomes_are_justified_witness:
  "\<exists>x s'. process_io (default_io_config 4) example_answers (new_task example_queued None) quiet = (Inr x, s') \<and>
     ir_outcome x = OutcomeExtract \<and> (st_tasks s', st_bytes s', st_files s') = (3, 12, 2) \<and>
     (st_tasks (snd (close_result x s')), st_bytes (snd (close_result x s'))) = (2, 7)"
proof -
  let ?p = "process_io (default_io_config 4) example_answers (new_task example_queued None) quiet"
  have "(case ?p of (Inr x, s') \<Rightarrow> ir_outcome x = OutcomeExtract \<and> (st_tasks s', st_bytes s', st_files s') = (3, 12, 2) | _ \<Rightarrow> False)"
    by code_simp
  then obtain x s' where x: "?p = (Inr x, s')" "ir_outcome x = OutcomeExtract" "(st_tasks s', st_bytes s', st_files s') = (3, 12, 2)"
    by (auto split: prod.splits sum.splits)
  have "idle quiet" "0 \<le> io_bytes_inflight (default_io_config 4)" by (simp_all add: idle_def quiet_def default_io_config_def)
  from io_outcomes_are_justified[OF this x(1)] show ?thesis
    using x by (auto simp: quiet_def split: prod.splits)
qed

end
