(* ===== verification/Commit_Writer.thy ===== *)
theory Commit_Writer
  imports Pipeline
begin

text \<open>
  The commit writer, \<open>internal/index/writer.go\<close>, the mutations of \<open>internal/index/tantivy.go\<close> and the recorder
  of \<open>internal/pipeline/worker/recorder.go\<close>.

  The three collaborators of the writer act on a world of type \<open>'s\<close>, which other components may change
  while they run.  The loop of \<open>Run\<close> is a machine with one event per branch of its \<open>select\<close>; the
  events of \<open>submit\<close> are its admission, its channel send and its withdrawal.  \<open>cq_id\<close> stands for the result
  channel of a request.
\<close>

section \<open>Mutations and requests\<close>

record file_document =
  fd_file_id :: int
  fd_path :: string
  fd_filename :: string
  fd_kind :: string
  fd_content :: string
  fd_mtime_ns :: int
  fd_generation :: int
  fd_status :: string

datatype mutation_kind = MutationUpsertFile | MutationDeleteFile | MutationUnknown nat

record mutation =
  mu_kind :: mutation_kind
  mu_file_id :: int
  mu_generation :: int
  mu_file :: "file_document option"

record commit_op =
  co_task_id :: int
  co_file_id :: int
  co_generation :: int
  co_mutation :: mutation

record projection_op =
  po_file_id :: int
  po_generation :: int
  po_mutation :: mutation

record commit_receipt =
  rc_task_id :: int
  rc_file_id :: int
  rc_generation :: int
  rc_mutation :: mutation_kind
  rc_stale :: bool
  rc_committed :: bool

record commit_request =
  cq_id :: nat
  cq_task_id :: int
  cq_file_id :: int
  cq_generation :: int
  cq_mutation :: mutation
  cq_record :: bool

text \<open>A response is an error or \<open>CommitResult.Stale\<close>.\<close>

type_synonym commit_response = "app + bool"

definition validate_mutation :: "int \<Rightarrow> int \<Rightarrow> mutation \<Rightarrow> string \<Rightarrow> app option" where
  "validate_mutation file_id generation m what =
     (if file_id \<le> 0 \<or> generation < 1 then Some (Text (what @ '' operation has invalid file or generation''))
      else if mu_file_id m \<noteq> file_id \<or> mu_generation m \<noteq> generation
        then Some (Text ''commit operation and mutation do not match'')
      else case mu_kind m of
        MutationDeleteFile \<Rightarrow> if mu_file m \<noteq> None then Some (Text ''delete mutation must not carry a file document'') else None
      | MutationUpsertFile \<Rightarrow>
          (case mu_file m of
             None \<Rightarrow> Some (Text ''upsert mutation has a mismatched file document'')
           | Some d \<Rightarrow> if fd_file_id d \<noteq> file_id \<or> fd_generation d \<noteq> generation
               then Some (Text ''upsert mutation has a mismatched file document'') else None)
      | MutationUnknown _ \<Rightarrow> Some (Text ''commit operation has an unknown mutation kind''))"

definition validate_commit_op :: "commit_op \<Rightarrow> app option" where
  "validate_commit_op op =
     (if co_task_id op \<le> 0 then Some (Text ''commit operation has invalid task, file, or generation'')
      else validate_mutation (co_file_id op) (co_generation op) (co_mutation op) ''commit'')"

definition validate_projection_op :: "projection_op \<Rightarrow> app option" where
  "validate_projection_op op = validate_mutation (po_file_id op) (po_generation op) (po_mutation op) ''projection''"

definition commit_request_of :: "nat \<Rightarrow> commit_op \<Rightarrow> commit_request" where
  "commit_request_of n op = \<lparr>cq_id = n, cq_task_id = co_task_id op, cq_file_id = co_file_id op,
     cq_generation = co_generation op, cq_mutation = co_mutation op, cq_record = True\<rparr>"

definition projection_request_of :: "nat \<Rightarrow> projection_op \<Rightarrow> commit_request" where
  "projection_request_of n op = \<lparr>cq_id = n, cq_task_id = 0, cq_file_id = po_file_id op, cq_generation = po_generation op,
     cq_mutation = po_mutation op, cq_record = False\<rparr>"

section \<open>Configuration\<close>

record writer_config =
  wc_queue_capacity :: int
  wc_max_operations :: int
  wc_interval :: int
  wc_flush_timeout :: int

definition new_commit_writer :: "writer_config \<Rightarrow> string + writer_config" where
  "new_commit_writer c =
     (let c = (if wc_queue_capacity c = 0 then c\<lparr>wc_queue_capacity := 2048\<rparr> else c);
          c = (if wc_max_operations c = 0 then c\<lparr>wc_max_operations := 1000\<rparr> else c);
          c = (if wc_interval c = 0 then c\<lparr>wc_interval := 3 * 10 ^ 9\<rparr> else c);
          c = (if wc_flush_timeout c = 0 then c\<lparr>wc_flush_timeout := 30 * 10 ^ 9\<rparr> else c)
      in if wc_queue_capacity c < 1 \<or> wc_max_operations c < 1 \<or> wc_interval c < 0 \<or> wc_flush_timeout c \<le> 0
         then Inl ''invalid commit writer configuration'' else Inr c)"

section \<open>Flush\<close>

record 's writer_env =
  we_generations :: "int list \<Rightarrow> 's \<Rightarrow> app + (int \<rightharpoonup> int)"
  we_apply :: "mutation list \<Rightarrow> 's \<Rightarrow> app option \<times> 's"
  we_record :: "commit_receipt list \<Rightarrow> 's \<Rightarrow> app option \<times> 's"

definition request_files :: "commit_request list \<Rightarrow> int list" where
  "request_files rs = fold (\<lambda>r ids. if cq_file_id r \<in> set ids then ids else ids @ [cq_file_id r]) rs []"

definition stale :: "(int \<rightharpoonup> int) \<Rightarrow> commit_request \<Rightarrow> bool" where
  "stale current r \<longleftrightarrow> current (cq_file_id r) \<noteq> Some (cq_generation r)"

definition receipt_of :: "(int \<rightharpoonup> int) \<Rightarrow> commit_request \<Rightarrow> commit_receipt" where
  "receipt_of current r = \<lparr>rc_task_id = cq_task_id r, rc_file_id = cq_file_id r, rc_generation = cq_generation r,
     rc_mutation = mu_kind (cq_mutation r), rc_stale = stale current r, rc_committed = \<not> stale current r\<rparr>"

definition receipts :: "(int \<rightharpoonup> int) \<Rightarrow> commit_request list \<Rightarrow> commit_receipt list" where
  "receipts current rs = map (receipt_of current) (filter cq_record rs)"

text \<open>\<open>lastFresh\<close>: the position of the last request of each file that is not stale.\<close>

fun last_fresh :: "(int \<rightharpoonup> int) \<Rightarrow> nat \<Rightarrow> commit_request list \<Rightarrow> (int \<rightharpoonup> nat) \<Rightarrow> (int \<rightharpoonup> nat)" where
  "last_fresh current i [] m = m"
| "last_fresh current i (r # rs) m =
     last_fresh current (i + 1) rs (if stale current r then m else m(cq_file_id r \<mapsto> i))"

definition batch_mutations :: "(int \<rightharpoonup> int) \<Rightarrow> commit_request list \<Rightarrow> mutation list" where
  "batch_mutations current rs = (let last = last_fresh current 0 rs Map.empty in
     map (\<lambda>(i, r). cq_mutation r) (filter (\<lambda>(i, r). last (cq_file_id r) = Some i) (enumerate 0 rs)))"

definition finish_all :: "commit_request list \<Rightarrow> commit_response \<Rightarrow> (nat \<times> commit_response) list" where
  "finish_all rs response = map (\<lambda>r. (cq_id r, response)) rs"

definition record_failed :: "(int \<rightharpoonup> int) \<Rightarrow> app \<Rightarrow> commit_request \<Rightarrow> nat \<times> commit_response" where
  "record_failed current e r = (cq_id r, if cq_record r then Inl e else Inr (stale current r))"

definition flush :: "'s writer_env \<Rightarrow> commit_request list \<Rightarrow> 's \<Rightarrow> (nat \<times> commit_response) list \<times> 's" where
  "flush env rs s =
     (case we_generations env (request_files rs) s of
        Inl e \<Rightarrow> (finish_all rs (Inl (Wrapped ''read commit generations'' e)), s)
      | Inr current \<Rightarrow>
          (let ms = batch_mutations current rs in
           case (if ms \<noteq> [] then we_apply env ms s else (None, s)) of
             (Some e, s') \<Rightarrow> (finish_all rs (Inl e), s')
           | (None, s') \<Rightarrow>
               (case (if receipts current rs \<noteq> [] then we_record env (receipts current rs) s' else (None, s')) of
                  (Some e, s'') \<Rightarrow> (map (record_failed current (Wrapped ''record committed batch'' e)) rs, s'')
                | (None, s'') \<Rightarrow> (map (\<lambda>r. (cq_id r, Inr (stale current r))) rs, s''))))"

section \<open>The recorder\<close>

definition committed_task_of :: "int \<Rightarrow> commit_receipt \<Rightarrow> app + committed_task" where
  "committed_task_of now r =
     (let item = \<lparr>ct_task_id = rc_task_id r, ct_file_id = rc_file_id r, ct_generation = rc_generation r,
            ct_stale = rc_stale r, ct_status = FileStatusEmpty, ct_indexed_at = None\<rparr>
      in case rc_mutation r of
        MutationUpsertFile \<Rightarrow> Inr (item\<lparr>ct_status := FileStatusIndexed, ct_indexed_at := Some now\<rparr>)
      | MutationDeleteFile \<Rightarrow> Inr (item\<lparr>ct_status := FileStatusDeleted\<rparr>)
      | MutationUnknown _ \<Rightarrow> Inl (new_error Poison ''unknown committed mutation''))"

fun committed_tasks :: "int \<Rightarrow> commit_receipt list \<Rightarrow> app + committed_task list" where
  "committed_tasks now [] = Inr []"
| "committed_tasks now (r # rs) =
     (case committed_task_of now r of Inl e \<Rightarrow> Inl e | Inr c \<Rightarrow> map_sum id ((#) c) (committed_tasks now rs))"

definition record_committed :: "int \<Rightarrow> commit_receipt list \<Rightarrow> db \<Rightarrow> app option \<times> db" where
  "record_committed now rs db =
     (case committed_tasks now rs of
        Inl e \<Rightarrow> (Some e, db)
      | Inr items \<Rightarrow>
          (case complete_committed_batch now items db of
             (Inl e, db') \<Rightarrow> (Some (wrap_class Fatal (Wrapped ''record projection batch'' (Leaf (StoreFailure e)))), db')
           | (Inr _, db') \<Rightarrow> (None, db')))"

section \<open>The loop\<close>

datatype writer_phase = WriterIdle | WriterRunning | WriterDraining | WriterStopped

record writer =
  wr_phase :: writer_phase
  wr_accepting :: bool
  wr_sending :: "commit_request list"
  wr_queue :: "commit_request list"
  wr_batch :: "commit_request list"
  wr_timer :: bool

definition new_writer :: writer where
  "new_writer = \<lparr>wr_phase = WriterIdle, wr_accepting = True, wr_sending = [], wr_queue = [], wr_batch = [], wr_timer = False\<rparr>"

text \<open>With the world, the responses sent so far and, for the theorems, the requests the channel accepted.\<close>

record 's writer_sys =
  ws_writer :: writer
  ws_world :: 's
  ws_answers :: "(nat \<times> commit_response) list"
  ws_accepted :: "nat list"

datatype 's writer_event =
  Admit commit_request | Send commit_request | Withdraw commit_request
| Start | Receive | Tick | CancelRun | DrainOne | DrainEnd
| World "'s \<Rightarrow> 's"

definition flush_batch :: "'s writer_env \<Rightarrow> 's writer_sys \<Rightarrow> 's writer_sys" where
  "flush_batch env y =
     (let w = ws_writer y in
      if wr_batch w = [] then y
      else case flush env (wr_batch w) (ws_world y) of (answers, s) \<Rightarrow>
        y\<lparr>ws_writer := w\<lparr>wr_batch := [], wr_timer := False\<rparr>, ws_world := s, ws_answers := ws_answers y @ answers\<rparr>)"

definition receive :: "'s writer_env \<Rightarrow> writer_config \<Rightarrow> commit_request \<Rightarrow> 's writer_sys \<Rightarrow> 's writer_sys" where
  "receive env c r y =
     (let w = ws_writer y; batch = wr_batch w @ [r];
          w = w\<lparr>wr_queue := tl (wr_queue w), wr_batch := batch,
                wr_timer := (if length batch = 1 \<and> wc_interval c > 0 then True else wr_timer w)\<rparr>;
          y = y\<lparr>ws_writer := w\<rparr>
      in if int (length batch) \<ge> wc_max_operations c \<or> wc_interval c = 0 then flush_batch env y else y)"

fun writer_step :: "'s writer_env \<Rightarrow> writer_config \<Rightarrow> 's writer_event \<Rightarrow> 's writer_sys \<Rightarrow> 's writer_sys option" where
  "writer_step env c (Admit r) y =
     (let w = ws_writer y in
      if wr_accepting w then Some (y\<lparr>ws_writer := w\<lparr>wr_sending := wr_sending w @ [r]\<rparr>\<rparr>) else None)"
| "writer_step env c (Send r) y =
     (let w = ws_writer y in
      if r \<in> set (wr_sending w) \<and> int (length (wr_queue w)) < wc_queue_capacity c
      then Some (y\<lparr>ws_writer := w\<lparr>wr_sending := remove1 r (wr_sending w), wr_queue := wr_queue w @ [r]\<rparr>,
             ws_accepted := ws_accepted y @ [cq_id r]\<rparr>)
      else None)"
| "writer_step env c (Withdraw r) y =
     (let w = ws_writer y in
      if r \<in> set (wr_sending w) then Some (y\<lparr>ws_writer := w\<lparr>wr_sending := remove1 r (wr_sending w)\<rparr>\<rparr>) else None)"
| "writer_step env c Start y =
     (let w = ws_writer y in
      if wr_phase w = WriterIdle then Some (y\<lparr>ws_writer := w\<lparr>wr_phase := WriterRunning\<rparr>\<rparr>) else None)"
| "writer_step env c Receive y =
     (case wr_queue (ws_writer y) of
        [] \<Rightarrow> None
      | r # _ \<Rightarrow> if wr_phase (ws_writer y) = WriterRunning then Some (receive env c r y) else None)"
| "writer_step env c Tick y =
     (let w = ws_writer y in
      if wr_phase w = WriterRunning \<and> wr_timer w then Some (flush_batch env y) else None)"
| "writer_step env c CancelRun y =
     (let w = ws_writer y in
      if wr_phase w = WriterRunning
      then Some (y\<lparr>ws_writer := w\<lparr>wr_phase := WriterDraining, wr_accepting := False\<rparr>\<rparr>) else None)"
| "writer_step env c DrainOne y =
     (let w = ws_writer y in
      case wr_queue w of
        [] \<Rightarrow> None
      | r # q \<Rightarrow> if wr_phase w = WriterDraining
          then Some (y\<lparr>ws_writer := w\<lparr>wr_queue := q, wr_batch := wr_batch w @ [r]\<rparr>\<rparr>) else None)"
| "writer_step env c DrainEnd y =
     (let w = ws_writer y in
      if wr_phase w = WriterDraining \<and> wr_queue w = [] \<and> wr_sending w = []
      then Some ((flush_batch env y)\<lparr>ws_writer := (ws_writer (flush_batch env y))\<lparr>wr_phase := WriterStopped\<rparr>\<rparr>)
      else None)"
| "writer_step env c (World f) y = Some (y\<lparr>ws_world := f (ws_world y)\<rparr>)"

fun writer_run :: "'s writer_env \<Rightarrow> writer_config \<Rightarrow> 's writer_event list \<Rightarrow> 's writer_sys \<Rightarrow> 's writer_sys option" where
  "writer_run env c [] y = Some y"
| "writer_run env c (e # es) y = (case writer_step env c e y of None \<Rightarrow> None | Some y' \<Rightarrow> writer_run env c es y')"

definition start_writer :: "'s \<Rightarrow> 's writer_sys" where
  "start_writer s = \<lparr>ws_writer = new_writer, ws_world = s, ws_answers = [], ws_accepted = []\<rparr>"

end
