(* ===== verification/Text_Index.thy ===== *)
theory Text_Index
  imports Commit_Writer Search
begin

text \<open>
  The text index, \<open>internal/index/tantivy.go\<close>, over the third-party search library, which is an argument:
  its atomic commit of a batch of documents and deleted terms, its term lookup and its query.  A document
  is the list of its stored fields; numbers are stored as decimal terms.
\<close>

section \<open>Decimal numbers, \<open>strconv\<close>\<close>

definition digit :: "nat \<Rightarrow> char" where
  "digit n = char_of (48 + n)"

fun format_nat :: "nat \<Rightarrow> string" where
  "format_nat n = (if n < 10 then [digit n] else format_nat (n div 10) @ [digit (n mod 10)])"

declare format_nat.simps [simp del]

definition format_int :: "int \<Rightarrow> string" where
  "format_int i = (if i < 0 then CHR ''-'' # format_nat (nat (- i)) else format_nat (nat i))"

definition digit_value :: "char \<Rightarrow> nat option" where
  "digit_value c = (let n = of_char c :: nat in if 48 \<le> n \<and> n \<le> 57 then Some (n - 48) else None)"

fun parse_digits :: "nat \<Rightarrow> string \<Rightarrow> nat option" where
  "parse_digits n [] = Some n"
| "parse_digits n (c # cs) = (case digit_value c of None \<Rightarrow> None | Some d \<Rightarrow> parse_digits (10 * n + d) cs)"

text \<open>\<open>ParseInt(s, 10, 64)\<close>: an optional sign, digits, and the range of \<open>int64\<close>.\<close>

definition parse_int :: "string \<Rightarrow> int option" where
  "parse_int s =
     (let neg = (s \<noteq> [] \<and> hd s = CHR ''-'');
          ds = (if s \<noteq> [] \<and> (hd s = CHR ''-'' \<or> hd s = CHR ''+'') then tl s else s)
      in if ds = [] then None
         else case parse_digits 0 ds of
           None \<Rightarrow> None
         | Some n \<Rightarrow> (let i = (if neg then - int n else int n)
             in if - (2 ^ 63) \<le> i \<and> i < 2 ^ 63 then Some i else None))"

section \<open>Documents\<close>

type_synonym document = "(string \<times> string) list"

definition field_doc_type :: string where "field_doc_type = ''doc_type''"
definition field_file_id :: string where "field_file_id = ''file_id''"
definition doc_type_file :: string where "doc_type_file = ''file''"

text \<open>\<open>filepath.Base\<close> on a Unix system.\<close>

fun strip_slashes :: "string \<Rightarrow> string" where
  "strip_slashes [] = []"
| "strip_slashes (c # cs) = (if c = CHR ''/'' then strip_slashes cs else c # cs)"

definition base_name :: "string \<Rightarrow> string" where
  "base_name path =
     (if path = [] then ''.''
      else let r = takeWhile (\<lambda>c. c \<noteq> CHR ''/'') (strip_slashes (rev path))
           in if r = [] then ''/'' else rev r)"

definition file_fields :: "file_document \<Rightarrow> document" where
  "file_fields f =
     [(field_doc_type, doc_type_file), (field_file_id, format_int (fd_file_id f)),
      (''path'', fd_path f), (''path_text'', fd_path f),
      (''filename'', if fd_filename f = [] then base_name (fd_path f) else fd_filename f),
      (''kind'', fd_kind f), (''content'', fd_content f), (''mtime'', format_int (fd_mtime_ns f)),
      (''generation'', format_int (fd_generation f)), (''status'', fd_status f)]"

text \<open>The stored values a query returns; a missing one is the empty string of the decoded structure.\<close>

definition stored :: "document \<Rightarrow> string \<Rightarrow> string" where
  "stored d name = (case map_of d name of None \<Rightarrow> [] | Some v \<Rightarrow> v)"

definition decode_keyword_hit :: "document \<Rightarrow> 64 word \<Rightarrow> app + keyword_hit \<times> string" where
  "decode_keyword_hit d score =
     (case parse_int (stored d field_file_id) of
        None \<Rightarrow> Inl (Text ''parse file_id'')
      | Some i \<Rightarrow>
          (case parse_int (stored d ''mtime'') of
             None \<Rightarrow> Inl (Text ''parse mtime'')
           | Some m \<Rightarrow>
               (case parse_int (stored d ''generation'') of
                  None \<Rightarrow> Inl (Text ''parse generation'')
                | Some g \<Rightarrow>
                    Inr (\<lparr>kh_file_id = i, kh_path = stored d ''path'', kh_filename = stored d ''filename'',
                      kh_kind = stored d ''kind'', kh_content = stored d ''content'', kh_mtime_ns = m, kh_generation = g,
                      kh_status = stored d ''status'', kh_score = score\<rparr>, stored d field_doc_type))))"

definition document_of_hit :: "keyword_hit \<Rightarrow> file_document" where
  "document_of_hit h = \<lparr>fd_file_id = kh_file_id h, fd_path = kh_path h, fd_filename = kh_filename h, fd_kind = kh_kind h,
     fd_content = kh_content h, fd_mtime_ns = kh_mtime_ns h, fd_generation = kh_generation h, fd_status = kh_status h\<rparr>"

section \<open>The engine\<close>

record 'i native =
  nt_commit :: "document list \<Rightarrow> string \<Rightarrow> string list \<Rightarrow> 'i \<Rightarrow> app option \<times> 'i"
  nt_lookup :: "string \<Rightarrow> string \<Rightarrow> nat \<Rightarrow> 'i \<Rightarrow> app + document list"
  nt_search :: "string \<Rightarrow> nat \<Rightarrow> 'i \<Rightarrow> app + (document \<times> 64 word) list"

record 'i engine =
  en_index :: 'i
  en_closed :: bool

text \<open>The documents to add and the terms to delete.\<close>

fun collect_mutations :: "mutation list \<Rightarrow> app + document list \<times> string list" where
  "collect_mutations [] = Inr ([], [])"
| "collect_mutations (m # ms) =
     (if mu_file_id m \<le> 0 then Inl (Text ''mutation has invalid file ID'')
      else
        case mu_kind m of
          MutationDeleteFile \<Rightarrow> map_sum id (\<lambda>(docs, ids). (docs, format_int (mu_file_id m) # ids)) (collect_mutations ms)
        | MutationUpsertFile \<Rightarrow>
            (case mu_file m of
               None \<Rightarrow> Inl (Text ''mutation has a mismatched file document'')
             | Some d \<Rightarrow> if fd_file_id d \<noteq> mu_file_id m then Inl (Text ''mutation has a mismatched file document'')
                 else map_sum id (\<lambda>(docs, ids). (file_fields d # docs, format_int (mu_file_id m) # ids)) (collect_mutations ms))
        | MutationUnknown _ \<Rightarrow> Inl (Text ''mutation has unknown kind''))"

text \<open>\<open>ctx_err\<close> and \<open>late_err\<close> are \<open>ctx.Err()\<close> at the two ends.\<close>

definition engine_apply ::
    "'i native \<Rightarrow> app option \<Rightarrow> app option \<Rightarrow> mutation list \<Rightarrow> 'i engine \<Rightarrow> app option \<times> 'i engine" where
  "engine_apply nt ctx_err late_err ms e =
     (case ctx_err of
        Some err \<Rightarrow> (Some err, e)
      | None \<Rightarrow>
          if en_closed e then (Some (Text ''Tantivy engine is closed''), e)
          else case collect_mutations ms of
            Inl err \<Rightarrow> (Some err, e)
          | Inr (docs, ids) \<Rightarrow>
              if docs = [] \<and> ids = [] then (None, e)
              else case nt_commit nt docs field_file_id ids (en_index e) of
                (Some err, i) \<Rightarrow> (Some (Wrapped ''commit Tantivy batch'' err), e\<lparr>en_index := i\<rparr>)
              | (None, i) \<Rightarrow> (late_err, e\<lparr>en_index := i\<rparr>))"

text \<open>The first stored file document with the identifier.\<close>

fun first_file :: "int \<Rightarrow> document list \<Rightarrow> app + file_document" where
  "first_file i [] = Inl (Leaf ErrDocumentNotFound)"
| "first_file i (d # ds) =
     (case decode_keyword_hit d 0 of
        Inl e \<Rightarrow> Inl (Wrapped ''decode file document'' e)
      | Inr (h, t) \<Rightarrow> if t = doc_type_file \<and> kh_file_id h = i then Inr (document_of_hit h) else first_file i ds)"

definition get_file_document :: "'i native \<Rightarrow> app option \<Rightarrow> int \<Rightarrow> 'i engine \<Rightarrow> app + file_document" where
  "get_file_document nt ctx_err i e =
     (case ctx_err of
        Some err \<Rightarrow> Inl err
      | None \<Rightarrow>
          if i \<le> 0 then Inl (Leaf ErrDocumentNotFound)
          else if en_closed e then Inl (Text ''Tantivy engine is closed'')
          else case nt_lookup nt field_file_id (format_int i) 8 (en_index e) of
            Inl err \<Rightarrow> Inl (Wrapped ''find file document'' err)
          | Inr ds \<Rightarrow> first_file i ds)"

fun file_hits :: "(document \<times> 64 word) list \<Rightarrow> app + keyword_hit list" where
  "file_hits [] = Inr []"
| "file_hits ((d, score) # ds) =
     (case decode_keyword_hit d score of
        Inl e \<Rightarrow> Inl (Wrapped ''decode keyword result'' e)
      | Inr (h, t) \<Rightarrow> map_sum id (if t = doc_type_file then (#) h else id) (file_hits ds))"

definition search_keyword :: "'i native \<Rightarrow> app option \<Rightarrow> string \<Rightarrow> int \<Rightarrow> 'i engine \<Rightarrow> app + keyword_hit list" where
  "search_keyword nt ctx_err query limit e =
     (case ctx_err of
        Some err \<Rightarrow> Inl err
      | None \<Rightarrow>
          if query = [] then Inr []
          else
            let limit = (if limit \<le> 0 then 20 else limit); limit = (if limit > 1000 then 1000 else limit)
            in if en_closed e then Inl (Text ''Tantivy engine is closed'')
               else case nt_search nt query (nat limit) (en_index e) of
                 Inl err \<Rightarrow> Inl (Wrapped ''keyword search'' err)
               | Inr ds \<Rightarrow> file_hits ds)"

definition close_engine :: "'i engine \<Rightarrow> 'i engine" where
  "close_engine e = e\<lparr>en_closed := True\<rparr>"

section \<open>Laws of the encoding\<close>

lemma digit_value_digit: "n < 10 \<Longrightarrow> digit_value (digit n) = Some n"
  by (auto simp: digit_value_def digit_def of_char_of Let_def)

lemma parse_digits_append:
  "parse_digits n (cs @ ds) = (case parse_digits n cs of None \<Rightarrow> None | Some m \<Rightarrow> parse_digits m ds)"
  by (induction n cs rule: parse_digits.induct) (auto split: option.splits)

lemma parse_format_nat: "parse_digits 0 (format_nat n) = Some n"
proof (induction n rule: format_nat.induct)
  case (1 n)
  show ?case
  proof (cases "n < 10")
    case True
    then show ?thesis by (subst format_nat.simps) (simp add: digit_value_digit)
  next
    case False
    then show ?thesis using 1 by (subst format_nat.simps) (simp add: parse_digits_append digit_value_digit)
  qed
qed

lemma format_nat_digits: "\<exists>d ds. format_nat n = digit d # ds \<and> d < 10"
proof (induction n rule: format_nat.induct)
  case (1 n)
  show ?case
  proof (cases "n < 10")
    case True
    then show ?thesis by (subst format_nat.simps) auto
  next
    case False
    then show ?thesis using 1 by (subst format_nat.simps) auto
  qed
qed

definition int64 :: "int \<Rightarrow> bool" where
  "int64 i \<longleftrightarrow> - (2 ^ 63) \<le> i \<and> i < 2 ^ 63"

lemma digit_not_sign: "d < 10 \<Longrightarrow> digit d \<noteq> CHR ''-''" "d < 10 \<Longrightarrow> digit d \<noteq> CHR ''+''"
proof -
  assume d: "d < 10"
  have "of_char (digit d) = (48 + d :: nat)" using d by (simp add: digit_def)
  moreover have "of_char (CHR ''-'') = (45 :: nat)" "of_char (CHR ''+'') = (43 :: nat)" by (simp_all add: of_char_def)
  ultimately show "digit d \<noteq> CHR ''-''" "digit d \<noteq> CHR ''+''" by auto
qed

lemma parse_format_int: "int64 i \<Longrightarrow> parse_int (format_int i) = Some i"
proof -
  assume i: "int64 i"
  obtain d ds where d: "format_nat (nat i) = digit d # ds" "d < 10" using format_nat_digits by blast
  obtain e es where e: "format_nat (nat (- i)) = digit e # es" "e < 10" using format_nat_digits by blast
  have p: "parse_digits 0 (digit d # ds) = Some (nat i)" "parse_digits 0 (digit e # es) = Some (nat (- i))"
    using parse_format_nat d(1) e(1) by metis+
  show ?thesis
  proof (cases "i < 0")
    case True
    then show ?thesis using p(2) i unfolding format_int_def parse_int_def e(1) by (simp add: int64_def Let_def del: parse_digits.simps)
  next
    case False
    then show ?thesis using p(1) i digit_not_sign[OF d(2)] unfolding format_int_def parse_int_def d(1)
      by (simp add: int64_def Let_def del: parse_digits.simps)
  qed
qed

lemma format_nat_inj: "format_nat m = format_nat n \<Longrightarrow> m = n"
  by (metis option.inject parse_format_nat)

lemma format_nat_no_sign: "format_nat m \<noteq> CHR ''-'' # cs"
proof -
  obtain d ds where d: "format_nat m = digit d # ds" "d < 10" using format_nat_digits by blast
  show ?thesis unfolding d(1) using digit_not_sign(1)[OF d(2)] by (simp only: list.inject) blast
qed

lemma format_int_inj: "format_int i = format_int j \<longleftrightarrow> i = j"
proof
  assume eq: "format_int i = format_int j"
  consider (neg) "i < 0" "j < 0" | (left) "i < 0" "\<not> j < 0" | (right) "\<not> i < 0" "j < 0" | (pos) "\<not> i < 0" "\<not> j < 0"
    by blast
  then show "i = j"
  proof cases
    case neg
    then have "format_nat (nat (- i)) = format_nat (nat (- j))"
      using eq by (simp only: format_int_def if_True list.inject)
    from format_nat_inj[OF this] show ?thesis using neg by simp
  next
    case left
    then show ?thesis using eq format_nat_no_sign[of "nat j" "format_nat (nat (- i))"]
      by (simp only: format_int_def if_True if_False)
  next
    case right
    then show ?thesis using eq format_nat_no_sign[of "nat i" "format_nat (nat (- j))"]
      by (simp only: format_int_def if_True if_False)
  next
    case pos
    then have "format_nat (nat i) = format_nat (nat j)" using eq by (simp only: format_int_def if_False)
    from format_nat_inj[OF this] show ?thesis using pos by simp
  qed
qed simp

text \<open>A document whose numbers are \<open>int64\<close> and whose file name is given.\<close>

definition document_ok :: "file_document \<Rightarrow> bool" where
  "document_ok d \<longleftrightarrow> int64 (fd_file_id d) \<and> int64 (fd_mtime_ns d) \<and> int64 (fd_generation d) \<and> fd_filename d \<noteq> []"

lemma field_names:
  "map fst (file_fields d) = [''doc_type'', ''file_id'', ''path'', ''path_text'', ''filename'', ''kind'', ''content'',
     ''mtime'', ''generation'', ''status'']"
  by (simp only: file_fields_def field_doc_type_def field_file_id_def list.map fst_conv)

lemma stored_field: "(name, v) \<in> set (file_fields d) \<Longrightarrow> stored (file_fields d) name = v \<and> map_of (file_fields d) name = Some v"
proof -
  assume "(name, v) \<in> set (file_fields d)"
  moreover have "distinct (map fst (file_fields d))" unfolding field_names by code_simp
  ultimately show ?thesis by (simp add: stored_def)
qed

lemma decode_file_fields:
  assumes "document_ok d"
  shows "\<exists>h. decode_keyword_hit (file_fields d) score = Inr (h, doc_type_file) \<and> document_of_hit h = d \<and> kh_score h = score"
proof -
  have "fd_filename d \<noteq> []" using assms by (simp add: document_ok_def)
  then have fields: "set (file_fields d) =
    {(field_doc_type, doc_type_file), (field_file_id, format_int (fd_file_id d)), (''path'', fd_path d), (''path_text'', fd_path d),
     (''filename'', fd_filename d), (''kind'', fd_kind d), (''content'', fd_content d), (''mtime'', format_int (fd_mtime_ns d)),
     (''generation'', format_int (fd_generation d)), (''status'', fd_status d)}"
    by (simp only: file_fields_def list.set if_False)
  have s: "stored (file_fields d) name = v" if "(name, v) \<in> set (file_fields d)" for name v
    using stored_field[OF that] by simp
  have "stored (file_fields d) field_file_id = format_int (fd_file_id d)" by (rule s, unfold fields) ((rule insertI1 | rule insertI2)+)
  moreover have "stored (file_fields d) ''mtime'' = format_int (fd_mtime_ns d)" by (rule s, unfold fields) ((rule insertI1 | rule insertI2)+)
  moreover have "stored (file_fields d) ''generation'' = format_int (fd_generation d)" by (rule s, unfold fields) ((rule insertI1 | rule insertI2)+)
  moreover have "stored (file_fields d) field_doc_type = doc_type_file" by (rule s, unfold fields) ((rule insertI1 | rule insertI2)+)
  moreover have "stored (file_fields d) ''path'' = fd_path d" by (rule s, unfold fields) ((rule insertI1 | rule insertI2)+)
  moreover have "stored (file_fields d) ''filename'' = fd_filename d" by (rule s, unfold fields) ((rule insertI1 | rule insertI2)+)
  moreover have "stored (file_fields d) ''kind'' = fd_kind d" by (rule s, unfold fields) ((rule insertI1 | rule insertI2)+)
  moreover have "stored (file_fields d) ''content'' = fd_content d" by (rule s, unfold fields) ((rule insertI1 | rule insertI2)+)
  moreover have "stored (file_fields d) ''status'' = fd_status d" by (rule s, unfold fields) ((rule insertI1 | rule insertI2)+)
  moreover have "parse_int (format_int (fd_file_id d)) = Some (fd_file_id d)"
    "parse_int (format_int (fd_mtime_ns d)) = Some (fd_mtime_ns d)"
    "parse_int (format_int (fd_generation d)) = Some (fd_generation d)"
    using assms by (simp_all add: document_ok_def parse_format_int)
  ultimately show ?thesis
    by (simp only: decode_keyword_hit_def option.case) (simp add: document_of_hit_def)
qed

lemma file_fields_id: "map_of (file_fields d) field_file_id = Some (format_int (fd_file_id d))"
proof -
  have "(field_file_id, format_int (fd_file_id d)) \<in> set (file_fields d)"
    unfolding file_fields_def by (intro list.set_intros)
  from stored_field[OF this] show ?thesis by simp
qed

end
