(* ===== verification/Commit_Laws.thy ===== *)
theory Commit_Laws
  imports Commit_Writer Text_Index
begin

text \<open>
  Laws of \<open>Commit_Writer\<close>: which mutations a batch applies, what one flush does to the index and to the
  answers, and the invariant of the loop.  The collaborators of the writer are the interface
  \<open>commit_world\<close>.
\<close>

section \<open>The mutations of a batch\<close>

fun last_mutations :: "(int \<rightharpoonup> int) \<Rightarrow> commit_request list \<Rightarrow> mutation list" where
  "last_mutations current [] = []"
| "last_mutations current (r # rs) =
     (if \<not> stale current r \<and> (\<forall>q\<in>set rs. cq_file_id q = cq_file_id r \<longrightarrow> stale current q)
      then cq_mutation r # last_mutations current rs else last_mutations current rs)"

lemma last_fresh_cases:
  "if \<forall>q\<in>set rs. cq_file_id q = i \<longrightarrow> stale current q then last_fresh current k rs m i = m i
   else \<exists>n\<ge>k. last_fresh current k rs m i = Some n"
proof (induction rs arbitrary: k m)
  case (Cons r rs)
  let ?m = "if stale current r then m else m(cq_file_id r \<mapsto> k)"
  show ?case
  proof (cases "\<forall>q\<in>set rs. cq_file_id q = i \<longrightarrow> stale current q")
    case True
    then show ?thesis using Cons[of "k + 1" ?m] by auto
  next
    case False
    obtain n where "n \<ge> k + 1" "last_fresh current (k + 1) rs ?m i = Some n"
      using Cons[of "k + 1" ?m] unfolding if_not_P[OF False] by blast
    then show ?thesis using False by (auto intro!: exI[of _ n])
  qed
qed simp

lemma batch_mutations_from:
  assumes "\<forall>i n. m i = Some n \<longrightarrow> n < k"
  shows "map (\<lambda>(i, r). cq_mutation r) (filter (\<lambda>(i, r). last_fresh current k rs m (cq_file_id r) = Some i) (enumerate k rs)) =
    last_mutations current rs"
  using assms
proof (induction rs arbitrary: k m)
  case (Cons r rs)
  define m' where "m' = (if stale current r then m else m(cq_file_id r \<mapsto> k))"
  have step: "last_fresh current k (r # rs) m = last_fresh current (Suc k) rs m'" by (simp add: m'_def)
  have m: "\<forall>i n. m' i = Some n \<longrightarrow> n < Suc k" using Cons.prems by (auto simp: less_Suc_eq m'_def)
  have hd: "last_fresh current (Suc k) rs m' (cq_file_id r) = Some k \<longleftrightarrow>
      \<not> stale current r \<and> (\<forall>q\<in>set rs. cq_file_id q = cq_file_id r \<longrightarrow> stale current q)"
    using last_fresh_cases[of rs "cq_file_id r" current "Suc k" m'] Cons.prems
    by (auto simp: m'_def split: if_splits)
  show ?case unfolding step enumerate_simps using Cons.IH[OF m] hd by auto
qed simp

lemma batch_mutations_eq: "batch_mutations current rs = last_mutations current rs"
  unfolding batch_mutations_def Let_def by (rule batch_mutations_from) simp

text \<open>Requests as \<open>Submit\<close> lets them pass, with documents as the processor builds them.\<close>

definition mutation_ok :: "mutation \<Rightarrow> bool" where
  "mutation_ok m \<longleftrightarrow> (case mu_file m of None \<Rightarrow> True | Some d \<Rightarrow> document_ok d)"

definition request_ok :: "commit_request \<Rightarrow> bool" where
  "request_ok r \<longleftrightarrow> validate_mutation (cq_file_id r) (cq_generation r) (cq_mutation r) ''commit'' = None \<and>
     mutation_ok (cq_mutation r)"

definition document_of :: "mutation \<Rightarrow> file_document option" where
  "document_of m = (if mu_kind m = MutationDeleteFile then None else mu_file m)"

lemma request_okD:
  assumes "request_ok r"
  shows "mu_file_id (cq_mutation r) = cq_file_id r" "mu_generation (cq_mutation r) = cq_generation r"
    "document_of (cq_mutation r) = Some d \<Longrightarrow> fd_generation d = cq_generation r"
    "document_of (cq_mutation r) = Some d \<Longrightarrow> fd_file_id d = cq_file_id r"
  using assms by (auto simp: request_ok_def validate_mutation_def document_of_def
      split: if_splits mutation_kind.splits option.splits)

text \<open>What a batch of mutations makes of an index, and the last request of a file that is not stale.\<close>

definition applied :: "mutation list \<Rightarrow> (int \<Rightarrow> file_document option) \<Rightarrow> int \<Rightarrow> file_document option" where
  "applied ms f = fold (\<lambda>m f. f(mu_file_id m := document_of m)) ms f"

definition last_request :: "(int \<rightharpoonup> int) \<Rightarrow> commit_request list \<Rightarrow> int \<Rightarrow> commit_request option" where
  "last_request current rs i =
     (case filter (\<lambda>r. cq_file_id r = i \<and> \<not> stale current r) rs of [] \<Rightarrow> None | xs \<Rightarrow> Some (last xs))"

lemma last_request_Cons:
  "last_request current (r # rs) i =
    (case last_request current rs i of
       Some q \<Rightarrow> Some q
     | None \<Rightarrow> if cq_file_id r = i \<and> \<not> stale current r then Some r else None)"
  by (auto simp: last_request_def split: list.splits)

lemma last_request_None:
  "last_request current rs i = None \<longleftrightarrow> (\<forall>q\<in>set rs. cq_file_id q = i \<longrightarrow> stale current q)"
proof -
  have "filter (\<lambda>r. cq_file_id r = i \<and> \<not> stale current r) rs = [] \<longleftrightarrow> (\<forall>q\<in>set rs. cq_file_id q = i \<longrightarrow> stale current q)"
    by (auto simp: filter_empty_conv)
  then show ?thesis
    by (cases "filter (\<lambda>r. cq_file_id r = i \<and> \<not> stale current r) rs") (auto simp: last_request_def)
qed

lemma last_request_Some:
  assumes "last_request current rs i = Some r"
  shows "r \<in> set rs" "cq_file_id r = i" "current i = Some (cq_generation r)"
proof -
  obtain x xs where "filter (\<lambda>r. cq_file_id r = i \<and> \<not> stale current r) rs = x # xs" "r = last (x # xs)"
    using assms by (auto simp: last_request_def split: list.splits)
  then have "r \<in> set (filter (\<lambda>r. cq_file_id r = i \<and> \<not> stale current r) rs)" by (metis last_in_set list.distinct(1))
  then show "r \<in> set rs" "cq_file_id r = i" "current i = Some (cq_generation r)" by (auto simp: stale_def)
qed

lemma last_mutations_files:
  assumes "list_all request_ok rs" "m \<in> set (last_mutations current rs)"
  shows "\<exists>r\<in>set rs. m = cq_mutation r \<and> \<not> stale current r \<and> last_request current rs (mu_file_id m) = Some r"
  using assms
proof (induction rs)
  case (Cons r rs)
  let ?new = "\<not> stale current r \<and> (\<forall>q\<in>set rs. cq_file_id q = cq_file_id r \<longrightarrow> stale current q)"
  show ?case
  proof (cases "?new \<and> m = cq_mutation r")
    case True
    then have "last_request current rs (cq_file_id r) = None" by (simp add: last_request_None)
    moreover have "mu_file_id m = cq_file_id r" using True Cons.prems(1) by (simp add: request_okD(1))
    ultimately show ?thesis using True by (auto simp: last_request_Cons)
  next
    case False
    then obtain q where "q \<in> set rs" "m = cq_mutation q" "\<not> stale current q" "last_request current rs (mu_file_id m) = Some q"
      using Cons by (auto split: if_splits)
    then show ?thesis by (auto simp: last_request_Cons)
  qed
qed simp

lemma last_mutations_distinct:
  assumes "list_all request_ok rs"
  shows "distinct (map mu_file_id (last_mutations current rs))"
  using assms
proof (induction rs)
  case (Cons r rs)
  have "mu_file_id (cq_mutation r) \<notin> mu_file_id ` set (last_mutations current rs)"
    if "\<forall>q\<in>set rs. cq_file_id q = cq_file_id r \<longrightarrow> stale current q"
  proof
    assume "mu_file_id (cq_mutation r) \<in> mu_file_id ` set (last_mutations current rs)"
    then obtain m where m: "m \<in> set (last_mutations current rs)" "mu_file_id m = mu_file_id (cq_mutation r)" by auto
    obtain q where "q \<in> set rs" "last_request current rs (mu_file_id m) = Some q"
      using last_mutations_files[OF _ m(1)] Cons.prems by auto
    moreover have "last_request current rs (cq_file_id r) = None" using that by (simp add: last_request_None)
    ultimately show False using m(2) Cons.prems by (simp add: request_okD(1))
  qed
  then show ?case using Cons by simp
qed simp

lemma applied_other: "i \<notin> mu_file_id ` set ms \<Longrightarrow> applied ms f i = f i"
  by (induction ms arbitrary: f) (auto simp: applied_def)

lemma applied_last_mutations:
  assumes "list_all request_ok rs"
  shows "applied (last_mutations current rs) f i =
    (case last_request current rs i of None \<Rightarrow> f i | Some r \<Rightarrow> document_of (cq_mutation r))"
  using assms
proof (induction rs arbitrary: f)
  case (Cons r rs)
  let ?m = "cq_mutation r"
  have fid: "mu_file_id ?m = cq_file_id r" using Cons.prems by (simp add: request_okD(1))
  show ?case
  proof (cases "\<not> stale current r \<and> (\<forall>q\<in>set rs. cq_file_id q = cq_file_id r \<longrightarrow> stale current q)")
    case True
    then have "applied (last_mutations current (r # rs)) f i =
        applied (last_mutations current rs) (f(cq_file_id r := document_of ?m)) i"
      using fid by (simp add: applied_def)
    also have "\<dots> = (case last_request current rs i of None \<Rightarrow> (f(cq_file_id r := document_of ?m)) i
        | Some q \<Rightarrow> document_of (cq_mutation q))"
      using Cons by simp
    finally show ?thesis using True last_request_None[of current rs "cq_file_id r"]
      by (auto simp: last_request_Cons split: option.splits)
  next
    case False
    then show ?thesis using Cons last_request_None[of current rs i]
      by (auto simp: last_request_Cons split: option.splits)
  qed
qed (simp add: applied_def last_request_def)

section \<open>The collaborators as an interface\<close>

definition gens_le :: "(int \<Rightarrow> int option) \<Rightarrow> (int \<Rightarrow> int option) \<Rightarrow> bool" where
  "gens_le f g \<longleftrightarrow> (\<forall>i a. f i = Some a \<longrightarrow> (\<exists>b\<ge>a. g i = Some b))"

lemma gens_le_refl [simp]: "gens_le f f"
  by (simp add: gens_le_def)

lemma gens_le_trans: "gens_le f g \<Longrightarrow> gens_le g h \<Longrightarrow> gens_le f h"
  unfolding gens_le_def by (meson order.trans)

lemma gens_leD:
  assumes "gens_le f g" "f i = Some a"
  obtains b where "g i = Some b" "a \<le> b"
  using assms unfolding gens_le_def by blast

text \<open>Every document of the index carries a generation the catalog has reached.\<close>

definition index_behind :: "(int \<Rightarrow> file_document option) \<Rightarrow> (int \<Rightarrow> int option) \<Rightarrow> bool" where
  "index_behind f g \<longleftrightarrow> (\<forall>i d. f i = Some d \<longrightarrow> fd_file_id d = i \<and> (\<exists>a. g i = Some a \<and> fd_generation d \<le> a))"

lemma index_behind_mono: "index_behind f g \<Longrightarrow> gens_le g h \<Longrightarrow> index_behind f h"
  unfolding index_behind_def gens_le_def by (meson order.trans)

text \<open>No document is replaced by one of an older generation.\<close>

definition index_le :: "(int \<Rightarrow> file_document option) \<Rightarrow> (int \<Rightarrow> file_document option) \<Rightarrow> bool" where
  "index_le f g \<longleftrightarrow> (\<forall>i d e. f i = Some d \<longrightarrow> g i = Some e \<longrightarrow> fd_generation d \<le> fd_generation e)"

locale commit_world =
  fixes env :: "'s writer_env"
    and ix :: "'s \<Rightarrow> int \<Rightarrow> file_document option"
    and gen :: "'s \<Rightarrow> int \<Rightarrow> int option"
  assumes generations: "we_generations env ids s = Inr current \<Longrightarrow> i \<in> set ids \<Longrightarrow> current i = gen s i"
    and apply_gen: "we_apply env ms s = (r, s') \<Longrightarrow> gens_le (gen s) (gen s')"
    and apply_ix: "we_apply env ms s = (r, s') \<Longrightarrow> distinct (map mu_file_id ms) \<Longrightarrow> list_all mutation_ok ms \<Longrightarrow>
      ix s' = applied ms (ix s) \<or> (r \<noteq> None \<and> ix s' = ix s)"
    and record_frame: "we_record env rs s = (r, s') \<Longrightarrow> gens_le (gen s) (gen s') \<and> ix s' = ix s"
begin

text \<open>The index after a flush: as it was, or with the last fresh mutation of every file.\<close>

definition flushed :: "commit_request list \<Rightarrow> 's \<Rightarrow> 's \<Rightarrow> bool" where
  "flushed rs s s' \<longleftrightarrow> gens_le (gen s) (gen s') \<and>
     (ix s' = ix s \<or> (\<forall>i. ix s' i = (case last_request (gen s) rs i of None \<Rightarrow> ix s i | Some r \<Rightarrow> document_of (cq_mutation r))))"

end

lemma request_files_set: "set (request_files rs) = cq_file_id ` set rs"
proof -
  have "set (fold (\<lambda>r ids. if cq_file_id r \<in> set ids then ids else ids @ [cq_file_id r]) rs ids) = set ids \<union> cq_file_id ` set rs" for ids
    by (induction rs arbitrary: ids) auto
  then show ?thesis by (simp add: request_files_def)
qed

lemma last_request_cong:
  assumes "\<And>i. i \<in> cq_file_id ` set rs \<Longrightarrow> current i = g i"
  shows "last_request current rs i = last_request g rs i"
proof -
  have "filter (\<lambda>r. cq_file_id r = i \<and> \<not> stale current r) rs = filter (\<lambda>r. cq_file_id r = i \<and> \<not> stale g r) rs"
    by (rule filter_cong) (auto simp: stale_def assms)
  then show ?thesis by (simp add: last_request_def)
qed

lemma flush_answers: "map fst (fst (flush env rs s)) = map cq_id rs"
  by (auto simp: flush_def finish_all_def record_failed_def Let_def split: sum.splits prod.splits option.splits)

context commit_world
begin

lemma applied_batch:
  assumes "list_all request_ok rs" "we_generations env (request_files rs) s = Inr current"
  shows "applied (batch_mutations current rs) f i =
    (case last_request (gen s) rs i of None \<Rightarrow> f i | Some r \<Rightarrow> document_of (cq_mutation r))"
proof -
  have "current i = gen s i" if "i \<in> cq_file_id ` set rs" for i
    using generations[OF assms(2)] that by (simp add: request_files_set)
  from last_request_cong[OF this] show ?thesis
    by (simp add: batch_mutations_eq applied_last_mutations[OF assms(1)])
qed

lemma flush_flushed:
  assumes ok: "list_all request_ok rs"
  shows "flushed rs s (snd (flush env rs s))"
proof (cases "we_generations env (request_files rs) s")
  case (Inl e)
  then show ?thesis by (simp add: flush_def flushed_def)
next
  case (Inr current)
  let ?ms = "batch_mutations current rs"
  obtain r s1 where s1: "(if ?ms \<noteq> [] then we_apply env ?ms s else (None, s)) = (r, s1)" by (cases "?ms \<noteq> []") (auto intro: prod.exhaust)
  have dist: "distinct (map mu_file_id ?ms)" unfolding batch_mutations_eq by (rule last_mutations_distinct[OF ok])
  have mok: "list_all mutation_ok ?ms"
    using last_mutations_files[OF ok] ok unfolding batch_mutations_eq list_all_iff by (metis request_ok_def)
  have a: "gens_le (gen s) (gen s1)" "ix s1 = applied ?ms (ix s) \<or> ix s1 = ix s"
    using s1 apply_gen[of ?ms s r s1] apply_ix[of ?ms s r s1] dist mok by (auto split: if_splits)
  have f1: "flushed rs s s1"
    unfolding flushed_def using a applied_batch[OF ok Inr, of "ix s"] by auto
  show ?thesis
  proof (cases r)
    case (Some e)
    then show ?thesis using f1 s1 Inr by (simp add: flush_def Let_def)
  next
    case None
    let ?rc = "receipts current rs"
    obtain q s2 where s2: "(if ?rc \<noteq> [] then we_record env ?rc s1 else (None, s1)) = (q, s2)" by (cases "?rc \<noteq> []") (auto intro: prod.exhaust)
    have "gens_le (gen s1) (gen s2)" "ix s2 = ix s1"
      using s2 record_frame[of ?rc s1 q s2] by (auto split: if_splits)
    then have "flushed rs s s2" using f1 by (auto simp: flushed_def intro: gens_le_trans)
    moreover have "snd (flush env rs s) = s2"
      using None s1 s2 Inr by (cases q) (simp_all add: flush_def Let_def)
    ultimately show ?thesis by simp
  qed
qed

lemma flushed_new:
  assumes "flushed rs s s'" "list_all request_ok rs" "ix s' i = Some d"
  shows "ix s i = Some d \<or> fd_file_id d = i \<and> gen s i = Some (fd_generation d)"
proof -
  have "fd_file_id d = i \<and> gen s i = Some (fd_generation d)"
    if "last_request (gen s) rs i = Some r" "document_of (cq_mutation r) = Some d" for r
  proof -
    have "request_ok r" using last_request_Some(1)[OF that(1)] assms(2) by (simp add: list_all_iff)
    then show ?thesis using last_request_Some(2,3)[OF that(1)] request_okD(3,4)[OF _ that(2)] by simp
  qed
  moreover have "ix s' i = ix s i \<or> (\<exists>r. last_request (gen s) rs i = Some r \<and> document_of (cq_mutation r) = ix s' i)"
    using assms(1) unfolding flushed_def by (cases "last_request (gen s) rs i") auto
  ultimately show ?thesis using assms(3) by metis
qed

text \<open>What a later world owes to an earlier one: generations have not gone down, and a document that was not
  there carries a generation between the ones of the two worlds.\<close>

definition since :: "'s \<Rightarrow> 's \<Rightarrow> bool" where
  "since s0 s \<longleftrightarrow> gens_le (gen s0) (gen s) \<and>
     (\<forall>i d. ix s i = Some d \<longrightarrow> ix s0 i = Some d \<or>
       fd_file_id d = i \<and> (\<exists>b. gen s i = Some b \<and> fd_generation d \<le> b) \<and> (\<forall>a. gen s0 i = Some a \<longrightarrow> a \<le> fd_generation d))"

lemma since_refl: "since s s"
  by (simp add: since_def)

lemma sinceD:
  assumes "since s0 s" "ix s i = Some d"
  obtains (old) "ix s0 i = Some d"
    | (new) b where "fd_file_id d = i" "gen s i = Some b" "fd_generation d \<le> b"
      "\<And>a. gen s0 i = Some a \<Longrightarrow> a \<le> fd_generation d"
  using assms unfolding since_def by blast

text \<open>A step of the world: each document is an old one or has the generation of its time.\<close>

lemma since_step:
  assumes s: "since s0 s" and g: "gens_le (gen s) (gen s')"
    and new: "\<And>i d. ix s' i = Some d \<Longrightarrow> ix s i = Some d \<or> fd_file_id d = i \<and> gen s i = Some (fd_generation d)"
  shows "since s0 s'"
  unfolding since_def
proof (intro conjI allI impI)
  have g0: "gens_le (gen s0) (gen s)" using s by (simp add: since_def)
  show "gens_le (gen s0) (gen s')" by (rule gens_le_trans[OF g0 g])
  fix i d assume "ix s' i = Some d"
  from new[OF this] show "ix s0 i = Some d \<or> fd_file_id d = i \<and> (\<exists>b. gen s' i = Some b \<and> fd_generation d \<le> b) \<and>
      (\<forall>a. gen s0 i = Some a \<longrightarrow> a \<le> fd_generation d)"
  proof
    assume "ix s i = Some d"
    with s show ?thesis
    proof (cases rule: sinceD)
      case (new b)
      obtain b' where "gen s' i = Some b'" "b \<le> b'" by (rule gens_leD[OF g new(2)])
      then show ?thesis using new(1,3,4) by (auto intro: order.trans)
    qed simp
  next
    assume d: "fd_file_id d = i \<and> gen s i = Some (fd_generation d)"
    then obtain b where "gen s' i = Some b" "fd_generation d \<le> b" using gens_leD[OF g] by blast
    moreover have "a \<le> fd_generation d" if a: "gen s0 i = Some a" for a
    proof -
      obtain b where "gen s i = Some b" "a \<le> b" by (rule gens_leD[OF g0 a])
      then show ?thesis using d by simp
    qed
    ultimately show ?thesis using d by blast
  qed
qed

lemma since_frame: "since s0 s \<Longrightarrow> gens_le (gen s) (gen s') \<Longrightarrow> ix s' = ix s \<Longrightarrow> since s0 s'"
  by (rule since_step[of s0 s s']) (assumption, assumption, metis)

lemma since_flushed: "since s0 s \<Longrightarrow> flushed rs s s' \<Longrightarrow> list_all request_ok rs \<Longrightarrow> since s0 s'"
  by (rule since_step[of s0 s s']) (assumption, simp add: flushed_def, rule flushed_new)

lemma since_index:
  assumes s: "since s0 s" and b: "index_behind (ix s0) (gen s0)"
  shows "index_behind (ix s) (gen s)" "index_le (ix s0) (ix s)"
proof -
  have g: "gens_le (gen s0) (gen s)" using s by (simp add: since_def)
  have "fd_file_id d = i \<and> (\<exists>a. gen s i = Some a \<and> fd_generation d \<le> a)" if "ix s i = Some d" for i d
    using s that
  proof (cases rule: sinceD)
    case old
    then obtain a where a: "fd_file_id d = i" "gen s0 i = Some a" "fd_generation d \<le> a" using b by (auto simp: index_behind_def)
    obtain a' where "gen s i = Some a'" "a \<le> a'" by (rule gens_leD[OF g a(2)])
    then show ?thesis using a by auto
  qed auto
  then show "index_behind (ix s) (gen s)" by (simp add: index_behind_def)
  have "fd_generation d \<le> fd_generation e" if d: "ix s0 i = Some d" and e: "ix s i = Some e" for i d e
    using s e
  proof (cases rule: sinceD)
    case (new b')
    obtain a where "gen s0 i = Some a" "fd_generation d \<le> a" using b d by (auto simp: index_behind_def)
    then show ?thesis using new(4)[of a] by simp
  qed (use d in simp)
  then show "index_le (ix s0) (ix s)" unfolding index_le_def by blast
qed

section \<open>Runs of the loop\<close>

text \<open>Requests are validated before they are submitted, and the other components neither lower a generation nor
  touch the index.\<close>

fun fair_event :: "'s writer_event \<Rightarrow> bool" where
  "fair_event (Admit r) = request_ok r"
| "fair_event (World f) = (\<forall>s. gens_le (gen s) (gen (f s)) \<and> ix (f s) = ix s)"
| "fair_event _ = True"

definition requests_ok :: "'s writer_sys \<Rightarrow> bool" where
  "requests_ok y \<longleftrightarrow> list_all request_ok (wr_sending (ws_writer y)) \<and> list_all request_ok (wr_queue (ws_writer y)) \<and>
     list_all request_ok (wr_batch (ws_writer y))"

lemma flush_batch_since:
  assumes "requests_ok y" "since s0 (ws_world y)"
  shows "requests_ok (flush_batch env y)" "since s0 (ws_world (flush_batch env y))"
proof -
  have ok: "list_all request_ok (wr_batch (ws_writer y))" using assms(1) by (simp add: requests_ok_def)
  show "requests_ok (flush_batch env y)"
    using assms(1) by (simp add: requests_ok_def flush_batch_def Let_def split: prod.splits)
  have "since s0 (snd (flush env (wr_batch (ws_writer y)) (ws_world y)))"
    by (rule since_flushed[OF assms(2) flush_flushed[OF ok] ok])
  then show "since s0 (ws_world (flush_batch env y))"
    using assms(2) by (auto simp: flush_batch_def Let_def split: prod.splits)
qed

lemma step_since:
  assumes "requests_ok y" "since s0 (ws_world y)" "fair_event e" "writer_step env c e y = Some y'"
  shows "requests_ok y' \<and> since s0 (ws_world y')"
proof (cases e)
  case Receive
  then obtain r q where q: "wr_queue (ws_writer y) = r # q" "y' = receive env c r y"
    using assms(4) by (auto split: list.splits if_splits)
  let ?w = "(ws_writer y)\<lparr>wr_queue := q, wr_batch := wr_batch (ws_writer y) @ [r],
    wr_timer := (if length (wr_batch (ws_writer y) @ [r]) = 1 \<and> wc_interval c > 0 then True else wr_timer (ws_writer y))\<rparr>"
  have "requests_ok (y\<lparr>ws_writer := ?w\<rparr>)" "since s0 (ws_world (y\<lparr>ws_writer := ?w\<rparr>))"
    using assms(1,2) q(1) by (simp_all add: requests_ok_def)
  note flush_batch_since[OF this] this
  then show ?thesis unfolding q(2) receive_def Let_def q(1) list.sel by (simp split: if_split)
next
  case Tick
  then show ?thesis using assms flush_batch_since by (auto simp: Let_def split: if_splits)
next
  case DrainEnd
  then show ?thesis using assms flush_batch_since[OF assms(1,2)]
    by (auto simp: Let_def requests_ok_def split: if_splits)
next
  case (World f)
  then show ?thesis using assms by (auto simp: requests_ok_def intro: since_frame)
qed (use assms in \<open>auto simp: Let_def requests_ok_def list_all_iff split: if_splits list.splits dest: notin_set_remove1\<close>)

lemma run_since:
  assumes "writer_run env c es y = Some y'" "list_all fair_event es" "requests_ok y" "since s0 (ws_world y)"
  shows "requests_ok y' \<and> since s0 (ws_world y')"
  using assms
proof (induction es arbitrary: y)
  case (Cons e es)
  then obtain y1 where "writer_step env c e y = Some y1" "writer_run env c es y1 = Some y'" by (auto split: option.splits)
  then show ?case using Cons.prems(2-4) Cons.IH[of y1] step_since[of y s0 e c y1] by simp
qed simp

end

section \<open>Every accepted request is answered once\<close>

definition answered :: "'s writer_sys \<Rightarrow> bool" where
  "answered y \<longleftrightarrow> (let w = ws_writer y in
     map fst (ws_answers y) @ map cq_id (wr_batch w) @ map cq_id (wr_queue w) = ws_accepted y \<and>
     (wr_phase w \<in> {WriterDraining, WriterStopped} \<longrightarrow> \<not> wr_accepting w) \<and>
     (wr_phase w = WriterStopped \<longrightarrow> wr_batch w = [] \<and> wr_queue w = [] \<and> wr_sending w = []))"

lemma flush_batch_answers:
  "map fst (ws_answers (flush_batch env y)) = map fst (ws_answers y) @ map cq_id (wr_batch (ws_writer y))"
  "wr_batch (ws_writer (flush_batch env y)) = []" "wr_queue (ws_writer (flush_batch env y)) = wr_queue (ws_writer y)"
  "wr_sending (ws_writer (flush_batch env y)) = wr_sending (ws_writer y)"
  "wr_phase (ws_writer (flush_batch env y)) = wr_phase (ws_writer y)"
  "wr_accepting (ws_writer (flush_batch env y)) = wr_accepting (ws_writer y)"
  "ws_accepted (flush_batch env y) = ws_accepted y"
  using flush_answers[of env "wr_batch (ws_writer y)" "ws_world y"]
  by (auto simp: flush_batch_def Let_def split: prod.splits)

lemma answered_step: "answered y \<Longrightarrow> writer_step env c e y = Some y' \<Longrightarrow> answered y'"
proof (cases e)
  case Receive
  assume a: "answered y" "writer_step env c e y = Some y'"
  then obtain r q where q: "wr_queue (ws_writer y) = r # q" "wr_phase (ws_writer y) = WriterRunning" "y' = receive env c r y"
    using Receive by (auto split: list.splits if_splits)
  let ?w = "(ws_writer y)\<lparr>wr_queue := q, wr_batch := wr_batch (ws_writer y) @ [r],
    wr_timer := (if length (wr_batch (ws_writer y) @ [r]) = 1 \<and> wc_interval c > 0 then True else wr_timer (ws_writer y))\<rparr>"
  have "answered (y\<lparr>ws_writer := ?w\<rparr>)" using a(1) q(1,2) by (simp add: answered_def Let_def)
  moreover from this have "answered (flush_batch env (y\<lparr>ws_writer := ?w\<rparr>))"
    using q(2) by (simp add: answered_def Let_def flush_batch_answers)
  ultimately show ?thesis unfolding q(3) receive_def Let_def q(1) list.sel by (simp split: if_split)
qed (auto simp: answered_def Let_def flush_batch_answers split: if_splits list.splits)

lemma answered_run: "writer_run env c es y = Some y' \<Longrightarrow> answered y \<Longrightarrow> answered y'"
  by (induction es arbitrary: y) (auto split: option.splits intro: answered_step)

lemma answered_start: "answered (start_writer s)"
  by (simp add: answered_def start_writer_def new_writer_def)

lemma run_append: "writer_run env c (es @ fs) y = (case writer_run env c es y of None \<Rightarrow> None | Some z \<Rightarrow> writer_run env c fs z)"
  by (induction es arbitrary: y) (auto split: option.splits)

lemma drain_run:
  assumes "wr_phase (ws_writer y) = WriterDraining" "wr_sending (ws_writer y) = []"
  shows "\<exists>y'. writer_run env c (replicate (length (wr_queue (ws_writer y))) DrainOne @ [DrainEnd]) y = Some y' \<and>
    wr_phase (ws_writer y') = WriterStopped \<and> ws_accepted y' = ws_accepted y"
  using assms
proof (induction "length (wr_queue (ws_writer y))" arbitrary: y)
  case 0
  then show ?case by (simp add: Let_def flush_batch_answers)
next
  case (Suc n)
  then obtain r q where q: "wr_queue (ws_writer y) = r # q" "n = length q" by (cases "wr_queue (ws_writer y)") auto
  let ?y = "y\<lparr>ws_writer := (ws_writer y)\<lparr>wr_queue := q, wr_batch := wr_batch (ws_writer y) @ [r]\<rparr>\<rparr>"
  have "writer_step env c DrainOne y = Some ?y" using Suc.prems q(1) by (simp add: Let_def)
  moreover have "\<exists>y'. writer_run env c (replicate n DrainOne @ [DrainEnd]) ?y = Some y' \<and>
      wr_phase (ws_writer y') = WriterStopped \<and> ws_accepted y' = ws_accepted y"
    using Suc.hyps(1)[of ?y] Suc.prems q(2) by (simp del: writer_run.simps writer_step.simps)
  ultimately show ?case using q by simp
qed

end
