(* ===== verification/Commit_Store.thy ===== *)
theory Commit_Store
  imports Commit_Laws Invariants Scheduler_Store Store_Properties
begin

text \<open>
  The commit writer over the text index and the store: the world is the database and the engine, and the
  interface \<open>commit_world\<close> of the writer is discharged for it.  While the index commits, other components
  may write the database.
\<close>

section \<open>The world\<close>

record 'i text_world =
  tw_db :: db
  tw_engine :: "'i engine"

record text_ports =
  tp_now :: int
  tp_read_error :: "db \<Rightarrow> app option"
  tp_before :: "app option"
  tp_after :: "app option"
  tp_meanwhile :: "db \<Rightarrow> db"

definition text_env :: "'i native \<Rightarrow> text_ports \<Rightarrow> 'i text_world writer_env" where
  "text_env nt p = \<lparr>
     we_generations = (\<lambda>ids w. case tp_read_error p (tw_db w) of Some e \<Rightarrow> Inl e | None \<Rightarrow> Inr (current_generations (tw_db w) ids)),
     we_apply = (\<lambda>ms w. case engine_apply nt (tp_before p) (tp_after p) ms (tw_engine w) of
       (r, e) \<Rightarrow> (r, w\<lparr>tw_db := tp_meanwhile p (tw_db w), tw_engine := e\<rparr>)),
     we_record = (\<lambda>rs w. case record_committed (tp_now p) rs (tw_db w) of (r, db) \<Rightarrow> (r, w\<lparr>tw_db := db\<rparr>))\<rparr>"

definition db_generation :: "db \<Rightarrow> int \<Rightarrow> int option" where
  "db_generation db i = map_option f_generation (List.find (\<lambda>f. f_id f = i) (db_files db))"

definition text_generation :: "'i text_world \<Rightarrow> int \<Rightarrow> int option" where
  "text_generation w = db_generation (tw_db w)"

text \<open>The document of a file in a set of stored documents.\<close>

definition with_id :: "int \<Rightarrow> document \<Rightarrow> bool" where
  "with_id i d \<longleftrightarrow> map_of d field_file_id = Some (format_int i)"

definition indexed :: "document list \<Rightarrow> int \<Rightarrow> file_document option" where
  "indexed ds i = (case filter (with_id i) ds of
     [] \<Rightarrow> None
   | d # _ \<Rightarrow> (case decode_keyword_hit d 0 of Inr (h, _) \<Rightarrow> Some (document_of_hit h) | Inl _ \<Rightarrow> None))"

definition text_index :: "('i \<Rightarrow> document list) \<Rightarrow> 'i text_world \<Rightarrow> int \<Rightarrow> file_document option" where
  "text_index contents w = indexed (contents (en_index (tw_engine w)))"

text \<open>What the documentation of the library promises of a batch: on success the documents with one of the
  terms are gone and the new ones are there; on an error nothing or everything happened.\<close>

definition batch_result :: "document list \<Rightarrow> string list \<Rightarrow> document list \<Rightarrow> document list" where
  "batch_result docs ids old = filter (\<lambda>d. map_of d field_file_id \<notin> Some ` set ids) old @ docs"

definition native_batch :: "'i native \<Rightarrow> ('i \<Rightarrow> document list) \<Rightarrow> bool" where
  "native_batch nt contents \<longleftrightarrow> (\<forall>docs ids i. case nt_commit nt docs field_file_id ids i of (r, i') \<Rightarrow>
     contents i' = batch_result docs ids (contents i) \<or> r \<noteq> None \<and> contents i' = contents i)"

definition fair_ports :: "text_ports \<Rightarrow> bool" where
  "fair_ports p \<longleftrightarrow> (\<forall>db. gens_le (db_generation db) (db_generation (tp_meanwhile p db)) \<and>
     (db_wf db \<longrightarrow> db_wf (tp_meanwhile p db)))"

section \<open>The index after a batch\<close>

lemma collect_mutations_eq:
  "collect_mutations ms = Inr (docs, ids) \<Longrightarrow> ids = map (\<lambda>m. format_int (mu_file_id m)) ms \<and>
     docs = map file_fields (List.map_filter document_of ms) \<and>
     (\<forall>m\<in>set ms. \<forall>d. document_of m = Some d \<longrightarrow> fd_file_id d = mu_file_id m \<and> mu_file m = Some d)"
proof (induction ms arbitrary: docs ids)
  case (Cons m ms)
  then show ?case
    by (cases "collect_mutations ms")
      (auto simp: document_of_def List.map_filter_simps split: if_splits mutation_kind.splits option.splits)
qed (simp add: List.map_filter_simps)

definition mutation_at :: "mutation list \<Rightarrow> int \<Rightarrow> mutation option" where
  "mutation_at ms i = List.find (\<lambda>m. mu_file_id m = i) ms"

lemma applied_at:
  "distinct (map mu_file_id ms) \<Longrightarrow> applied ms f i = (case mutation_at ms i of None \<Rightarrow> f i | Some m \<Rightarrow> document_of m)"
proof (induction ms arbitrary: f)
  case (Cons m ms)
  have c: "applied (m # ms) f i = applied ms (f(mu_file_id m := document_of m)) i" by (simp add: applied_def)
  show ?case
  proof (cases "mu_file_id m = i")
    case True
    then have "i \<notin> mu_file_id ` set ms" using Cons.prems by auto
    then show ?thesis unfolding c using True by (simp add: applied_other mutation_at_def)
  next
    case False
    have "applied (m # ms) f i = (case mutation_at ms i of None \<Rightarrow> (f(mu_file_id m := document_of m)) i | Some m \<Rightarrow> document_of m)"
      unfolding c using Cons by simp
    then show ?thesis using False by (simp add: mutation_at_def split: option.splits)
  qed
qed (simp add: applied_def mutation_at_def)

lemma with_id_fields: "with_id i (file_fields d) \<longleftrightarrow> fd_file_id d = i"
  by (simp add: with_id_def file_fields_id format_int_inj)

lemma filter_new_documents:
  assumes "distinct (map mu_file_id ms)" "\<forall>m\<in>set ms. \<forall>d. document_of m = Some d \<longrightarrow> fd_file_id d = mu_file_id m"
  shows "filter (with_id i) (map file_fields (List.map_filter document_of ms)) =
    (case mutation_at ms i of None \<Rightarrow> [] | Some m \<Rightarrow> (case document_of m of None \<Rightarrow> [] | Some d \<Rightarrow> [file_fields d]))"
  using assms
proof (induction ms)
  case (Cons m ms)
  have "mutation_at ms i = None" if "mu_file_id m = i"
    using that Cons.prems(1) by (auto simp: mutation_at_def find_None_iff image_iff)
  then show ?case using Cons
    by (cases "document_of m") (auto simp: List.map_filter_simps mutation_at_def with_id_fields)
qed (simp add: List.map_filter_simps mutation_at_def)

lemma indexed_batch:
  assumes c: "collect_mutations ms = Inr (docs, ids)" and ms: "distinct (map mu_file_id ms)" "list_all mutation_ok ms"
  shows "indexed (batch_result docs ids old) = applied ms (indexed old)"
proof
  fix i
  note e = collect_mutations_eq[OF c]
  have ids: "format_int i \<in> set ids \<longleftrightarrow> mutation_at ms i \<noteq> None"
    using e by (auto simp: mutation_at_def find_None_iff format_int_inj)
  have "filter (with_id i) (filter (\<lambda>d. map_of d field_file_id \<notin> Some ` set ids) old) =
      (if format_int i \<in> set ids then [] else filter (with_id i) old)"
    by (auto simp: with_id_def filter_empty_conv intro!: filter_cong)
  moreover have "filter (with_id i) docs = (case mutation_at ms i of None \<Rightarrow> [] | Some m \<Rightarrow>
      (case document_of m of None \<Rightarrow> [] | Some d \<Rightarrow> [file_fields d]))"
    using e filter_new_documents[OF ms(1), of i] by auto
  ultimately have f: "filter (with_id i) (batch_result docs ids old) =
      (case mutation_at ms i of None \<Rightarrow> filter (with_id i) old | Some m \<Rightarrow>
        (case document_of m of None \<Rightarrow> [] | Some d \<Rightarrow> [file_fields d]))"
    using ids by (auto simp: batch_result_def split: option.splits)
  have ok: "document_ok d" if "mutation_at ms i = Some m" "document_of m = Some d" for m d
  proof -
    have "m \<in> set ms" using that(1) by (auto simp: mutation_at_def dest: find_SomeD)
    then show ?thesis using e that(2) ms(2) by (auto simp: list_all_iff mutation_ok_def split: option.splits)
  qed
  have "indexed (batch_result docs ids old) i = (case mutation_at ms i of None \<Rightarrow> indexed old i | Some m \<Rightarrow> document_of m)"
  proof (cases "mutation_at ms i")
    case None
    then show ?thesis by (simp add: indexed_def f)
  next
    case (Some m)
    show ?thesis
    proof (cases "document_of m")
      case None
      then show ?thesis using Some by (simp add: indexed_def f)
    next
      case d: (Some d)
      obtain h where "decode_keyword_hit (file_fields d) 0 = Inr (h, doc_type_file)" "document_of_hit h = d"
        using decode_file_fields[OF ok[OF Some d], of 0] by blast
      then show ?thesis using Some d by (simp add: indexed_def f)
    qed
  qed
  then show "indexed (batch_result docs ids old) i = applied ms (indexed old) i" by (simp add: applied_at[OF ms(1)])
qed

lemma engine_apply_index:
  assumes nt: "native_batch nt contents" and a: "engine_apply nt ctx_err late_err ms e = (r, e')"
    and ms: "distinct (map mu_file_id ms)" "list_all mutation_ok ms"
  shows "indexed (contents (en_index e')) = applied ms (indexed (contents (en_index e))) \<or>
    r \<noteq> None \<and> indexed (contents (en_index e')) = indexed (contents (en_index e))"
proof (cases "ctx_err \<noteq> None \<or> en_closed e \<or> (\<exists>err. collect_mutations ms = Inl err)")
  case True
  then have "r \<noteq> None" "e' = e" using a by (auto simp: engine_apply_def split: option.splits if_splits)
  then show ?thesis by simp
next
  case False
  then obtain docs ids where c: "collect_mutations ms = Inr (docs, ids)" by (cases "collect_mutations ms") auto
  have r: "engine_apply nt ctx_err late_err ms e = (if docs = [] \<and> ids = [] then (None, e)
      else case nt_commit nt docs field_file_id ids (en_index e) of
        (Some err, i) \<Rightarrow> (Some (Wrapped ''commit Tantivy batch'' err), e\<lparr>en_index := i\<rparr>)
      | (None, i) \<Rightarrow> (late_err, e\<lparr>en_index := i\<rparr>))"
    using False c by (simp add: engine_apply_def)
  show ?thesis
  proof (cases "docs = [] \<and> ids = []")
    case True
    then have "ms = []" using collect_mutations_eq[OF c] by simp
    moreover have "e' = e" using a True unfolding r by simp
    ultimately show ?thesis by (simp add: applied_def)
  next
    case ne: False
    obtain q i' where q: "nt_commit nt docs field_file_id ids (en_index e) = (q, i')" by fastforce
    have "contents i' = batch_result docs ids (contents (en_index e)) \<or> q \<noteq> None \<and> contents i' = contents (en_index e)"
      using nt[unfolded native_batch_def, rule_format, of docs ids "en_index e"] q by simp
    moreover have "e' = e\<lparr>en_index := i'\<rparr>" "q \<noteq> None \<longrightarrow> r \<noteq> None"
      using a unfolding r if_not_P[OF ne] q by (auto split: option.splits)
    ultimately show ?thesis using indexed_batch[OF c ms, of "contents (en_index e)"] by auto
  qed
qed

section \<open>The record of a batch\<close>

lemma gens_update:
  assumes "\<And>f. p f \<Longrightarrow> f_id (h f) = f_id f \<and> f_generation (h f) = f_generation f"
  shows "map_option f_generation (List.find (\<lambda>f. f_id f = i) (rows_update p h fs)) =
    map_option f_generation (List.find (\<lambda>f. f_id f = i) fs)"
  using assms by (induction fs) (auto simp: rows_update_def)

lemma keeps_generations:
  fixes g defines "I \<equiv> \<lambda>db. db_generation db = g"
  shows "keeps I (complete_committed_tx now item)"
proof -
  have task: "keeps I (put_tasks ts)" "keeps I (delete_tasks q)" "keeps I (delete_dead r)" for ts q r
    by (auto simp: keeps_def wp_def put_tasks_def delete_tasks_def delete_dead_def tx_bind_def tx_read_def tx_modify_def
        tx_return_def I_def db_generation_def)
  have files: "keeps I (update_files p h)"
    if "\<And>f. p f \<Longrightarrow> f_id (h f) = f_id f \<and> f_generation (h f) = f_generation f" for p h
    using gens_update[of p h] that
    by (auto simp: keeps_def wp_def update_files_def put_files_def tx_bind_def tx_read_def tx_return_def I_def
        db_generation_def fun_eq_iff)
  have md: "keeps I (mark_done_tx now i b)" for i b
    unfolding mark_done_tx_def task_for_transition_def find_task_def update_tasks_def require_changed_def tx_check_def
    by (intro keeps_intros task)
  show ?thesis
    unfolding complete_committed_tx_def Let_def update_file_status_def task_for_transition_def find_task_def find_file_def
      require_current_def tx_check_def
    by (intro keeps_intros files md) simp_all
qed

lemma keeps_committed_batch:
  "db_generation (snd (complete_committed_batch now items db)) = db_generation db"
proof -
  have "keeps (\<lambda>d. db_generation d = db_generation db) (tx_each (complete_committed_tx now) items)"
    by (intro keeps_each keeps_generations)
  from keeps_with_tx[OF this] show ?thesis by (simp add: complete_committed_batch_def)
qed

lemma transition_leased:
  assumes "transition (db_tasks db) t t' us" "t_state t' \<noteq> TaskStateInFlight" "db_tasks db' = us"
  shows "leased_ids db' \<subseteq> leased_ids db - {t_id t}"
  using assms by (fastforce simp: transition_def leased_ids_def)

lemma wp_committed_items:
  assumes "tx_inv db0 db"
  shows "wp (tx_each (complete_committed_tx now) items)
    (\<lambda>_ db'. tx_inv db0 db' \<and> leased_ids db' \<subseteq> leased_ids db - ct_task_id ` set items) (\<lambda>_. True) db"
  using assms
proof (induction items arbitrary: db)
  case (Cons item items)
  have "wp (complete_committed_tx now item) (\<lambda>_. wp (tx_each (complete_committed_tx now) items)
      (\<lambda>_ db'. tx_inv db0 db' \<and> leased_ids db' \<subseteq> leased_ids db - ct_task_id ` set (item # items)) (\<lambda>_. True)) (\<lambda>_. True) db"
  proof (rule wp_complete_committed_tx[OF Cons.prems])
    fix t us fs ds
    let ?db = "db\<lparr>db_files := fs, db_tasks := us, db_dead := ds\<rparr>"
    assume i: "tx_inv db0 ?db" and t: "transition (db_tasks db) t (t\<lparr>t_state := TaskStateDone, t_updated_at := now\<rparr>) us"
      "t_id t = ct_task_id item"
    have "leased_ids ?db \<subseteq> leased_ids db - {ct_task_id item}"
      using transition_leased[OF t(1), of ?db] t(2) by simp
    with Cons.IH[OF i] show "wp (tx_each (complete_committed_tx now) items)
      (\<lambda>_ db'. tx_inv db0 db' \<and> leased_ids db' \<subseteq> leased_ids db - ct_task_id ` set (item # items)) (\<lambda>_. True) ?db"
      by (elim wp_mono) auto
  qed simp
  then show ?case by (simp add: wp_simps)
qed (simp add: wp_simps)

lemma committed_tasks_ids:
  "committed_tasks now rs = Inr items \<Longrightarrow> map ct_task_id items = map rc_task_id rs"
proof (induction rs arbitrary: items)
  case (Cons r rs)
  then show ?case
    by (cases "committed_tasks now rs") (auto simp: committed_task_of_def Let_def split: sum.splits mutation_kind.splits)
qed simp

lemma record_committed_leased:
  assumes "db_wf db" "record_committed now rs db = (r, db')"
  shows "if r = None then leased_ids db' \<subseteq> leased_ids db - rc_task_id ` set rs else db' = db"
proof (cases "committed_tasks now rs")
  case (Inl e)
  then show ?thesis using assms(2) by (auto simp: record_committed_def)
next
  case (Inr items)
  have ids: "ct_task_id ` set items = rc_task_id ` set rs" using committed_tasks_ids[OF Inr] by (metis list.set_map)
  obtain q d where q: "complete_committed_batch now items db = (q, d)" by fastforce
  show ?thesis
  proof (cases q)
    case (Inl e)
    then have "d = db" using q with_tx_rollback[of "tx_each (complete_committed_tx now) items" db e]
      by (auto simp: complete_committed_batch_def split: if_splits)
    then show ?thesis using assms(2) Inr q Inl by (auto simp: record_committed_def)
  next
    case ok: (Inr u)
    have "leased_ids d \<subseteq> leased_ids db - ct_task_id ` set items"
    proof (cases "items = []")
      case False
      then have "tx_each (complete_committed_tx now) items db = Inr ((), d)"
        using q ok by (simp add: complete_committed_batch_def with_tx_commit)
      then show ?thesis using wp_committed_items[OF inv_refl[OF assms(1)], of now items] by (simp add: wp_def)
    qed (use q in \<open>auto simp: complete_committed_batch_def\<close>)
    then show ?thesis using assms(2) Inr q ok ids by (auto simp: record_committed_def)
  qed
qed

section \<open>The interface is provided\<close>

lemma text_commit_world:
  assumes nt: "native_batch nt contents" and p: "fair_ports p"
  shows "commit_world (text_env nt p) (text_index contents) text_generation"
proof
  fix ids w current i
  assume "we_generations (text_env nt p) ids w = Inr current" "i \<in> set ids"
  then show "current i = text_generation w i"
    by (auto simp: text_env_def text_generation_def db_generation_def current_generations_def split: option.splits)
next
  fix ms w r w' assume a: "we_apply (text_env nt p) ms w = (r, w')"
  then show "gens_le (text_generation w) (text_generation w')"
    using p by (auto simp: text_env_def text_generation_def fair_ports_def split: prod.splits)
  assume "distinct (map mu_file_id ms)" "list_all mutation_ok ms"
  then show "text_index contents w' = applied ms (text_index contents w) \<or>
      r \<noteq> None \<and> text_index contents w' = text_index contents w"
    using a engine_apply_index[OF nt, of "tp_before p" "tp_after p" ms "tw_engine w" r "tw_engine w'"]
    by (auto simp: text_env_def text_index_def split: prod.splits)
next
  fix rs w r w' assume "we_record (text_env nt p) rs w = (r, w')"
  then have w': "w' = w\<lparr>tw_db := snd (record_committed (tp_now p) rs (tw_db w))\<rparr>"
    by (auto simp: text_env_def split: prod.splits)
  have "db_generation (snd (record_committed (tp_now p) rs (tw_db w))) = db_generation (tw_db w)"
    using keeps_committed_batch by (auto simp: record_committed_def split: sum.splits prod.splits) (metis snd_conv)+
  then show "gens_le (text_generation w) (text_generation w') \<and> text_index contents w' = text_index contents w"
    by (simp add: w' text_generation_def text_index_def)
qed

text \<open>The library as its documentation describes it, over a list of documents.\<close>

definition document_library :: "document list native" where
  "document_library = \<lparr>nt_commit = (\<lambda>docs name ids i. (None, filter (\<lambda>d. map_of d name \<notin> Some ` set ids) i @ docs)),
     nt_lookup = (\<lambda>name v n i. Inr (take n (filter (\<lambda>d. map_of d name = Some v) i))),
     nt_search = (\<lambda>query n i. Inr [])\<rparr>"

lemma document_library_batch: "native_batch document_library id"
  by (simp add: native_batch_def document_library_def batch_result_def)

definition quiet_ports :: "int \<Rightarrow> text_ports" where
  "quiet_ports now = \<lparr>tp_now = now, tp_read_error = (\<lambda>db. None), tp_before = None, tp_after = None, tp_meanwhile = id\<rparr>"

lemma quiet_ports_fair: "fair_ports (quiet_ports now)"
  by (simp add: fair_ports_def quiet_ports_def)

interpretation quiet_index: commit_world "text_env document_library (quiet_ports now)" "text_index id" text_generation
  for now
  by (rule text_commit_world[OF document_library_batch quiet_ports_fair])

end
