(* ===== verification/Commit_Properties.thy ===== *)
theory Commit_Properties
  imports Commit_Store
begin

text \<open>
  What the commit writer promises: every accepted request is answered once, also across a shutdown; the
  index never goes back to an older generation; and no task is completed before its change is in the index.
\<close>

section \<open>Stored documents\<close>

text \<open>C33: A document that the writer adds is decoded to the same document: the decimal encoding of its
  identifier, time and generation is undone by \<open>decodeKeywordHit\<close> for all \<open>int64\<close> values.\<close>

theorem stored_documents_round_trip:
  assumes "document_ok d"
  shows "case decode_keyword_hit (file_fields d) score of
    Inl e \<Rightarrow> False | Inr (h, t) \<Rightarrow> t = doc_type_file \<and> document_of_hit h = d \<and> kh_score h = score"
  using decode_file_fields[OF assms, of score] by auto

definition example_document :: "int \<Rightarrow> int \<Rightarrow> file_document" where
  "example_document i g = \<lparr>fd_file_id = i, fd_path = ''/w/a'', fd_filename = ''a'', fd_kind = ''text'', fd_content = ''x'',
     fd_mtime_ns = - 7, fd_generation = g, fd_status = ''indexed''\<rparr>"

lemma example_document_ok: "int64 i \<Longrightarrow> int64 g \<Longrightarrow> document_ok (example_document i g)"
  by (simp add: document_ok_def example_document_def int64_def)

lemma stored_documents_round_trip_witness:
  "case decode_keyword_hit (file_fields (example_document 9223372036854775807 12)) 0 of
    Inl e \<Rightarrow> False | Inr (h, t) \<Rightarrow> fd_mtime_ns (document_of_hit h) = - 7 \<and> kh_file_id h = 9223372036854775807"
proof -
  have "document_ok (example_document 9223372036854775807 12)"
    by (rule example_document_ok) (simp_all add: int64_def)
  from stored_documents_round_trip[OF this, of 0] show ?thesis
    by (auto simp: document_of_hit_def example_document_def split: sum.splits)
qed

section \<open>Answers\<close>

text \<open>C32: In every run of the writer, whatever the index and the store answer, the requests that the channel
  accepted are the ones answered so far, the batch and the queue, in this order: no request is answered
  twice or lost.  A cancelled writer whose senders have finished or given up ends after taking what is
  left in the queue, and then every accepted request has its one answer.\<close>

theorem accepted_requests_are_answered:
  assumes "writer_run env c es (start_writer s) = Some y"
  shows "map fst (ws_answers y) @ map cq_id (wr_batch (ws_writer y)) @ map cq_id (wr_queue (ws_writer y)) = ws_accepted y \<and>
    (case wr_phase (ws_writer y) of
       WriterStopped \<Rightarrow> map fst (ws_answers y) = ws_accepted y
     | WriterDraining \<Rightarrow> (case wr_sending (ws_writer y) of
         [] \<Rightarrow> (case writer_run env c (replicate (length (wr_queue (ws_writer y))) DrainOne @ [DrainEnd]) y of
            None \<Rightarrow> False
          | Some z \<Rightarrow> wr_phase (ws_writer z) = WriterStopped \<and> map fst (ws_answers z) = ws_accepted y)
       | _ \<Rightarrow> True)
     | _ \<Rightarrow> True)"
proof -
  have a: "answered y" by (rule answered_run[OF assms answered_start])
  have stop: "map fst (ws_answers z) = ws_accepted z" if "answered z" "wr_phase (ws_writer z) = WriterStopped" for z
    using that by (auto simp: answered_def Let_def)
  have drain: "\<exists>z. writer_run env c (replicate (length (wr_queue (ws_writer y))) DrainOne @ [DrainEnd]) y = Some z \<and>
      wr_phase (ws_writer z) = WriterStopped \<and> map fst (ws_answers z) = ws_accepted y"
    if d: "wr_phase (ws_writer y) = WriterDraining" "wr_sending (ws_writer y) = []"
  proof -
    obtain z where z: "writer_run env c (replicate (length (wr_queue (ws_writer y))) DrainOne @ [DrainEnd]) y = Some z"
        "wr_phase (ws_writer z) = WriterStopped" "ws_accepted z = ws_accepted y"
      using drain_run[OF d, of env c] by blast
    then show ?thesis using stop[OF answered_run[OF z(1) a] z(2)] by auto
  qed
  have "map fst (ws_answers y) @ map cq_id (wr_batch (ws_writer y)) @ map cq_id (wr_queue (ws_writer y)) = ws_accepted y"
    using a by (simp add: answered_def Let_def)
  then show ?thesis using drain stop[OF a] by (auto split: writer_phase.splits list.splits)
qed

definition example_mutation :: "int \<Rightarrow> int \<Rightarrow> mutation" where
  "example_mutation i g = \<lparr>mu_kind = MutationUpsertFile, mu_file_id = i, mu_generation = g, mu_file = Some (example_document i g)\<rparr>"

definition example_request :: "nat \<Rightarrow> int \<Rightarrow> int \<Rightarrow> int \<Rightarrow> commit_request" where
  "example_request n t i g = \<lparr>cq_id = n, cq_task_id = t, cq_file_id = i, cq_generation = g, cq_mutation = example_mutation i g,
     cq_record = True\<rparr>"

lemma example_request_ok: "0 < i \<Longrightarrow> int64 i \<Longrightarrow> 0 < g \<Longrightarrow> int64 g \<Longrightarrow> request_ok (example_request n t i g)"
  using example_document_ok[of i g]
  by (simp add: request_ok_def validate_mutation_def example_request_def example_mutation_def mutation_ok_def example_document_def)

definition example_config :: writer_config where
  "example_config = \<lparr>wc_queue_capacity = 4, wc_max_operations = 2, wc_interval = 1, wc_flush_timeout = 1\<rparr>"

definition idle_env :: "unit writer_env" where
  "idle_env = \<lparr>we_generations = (\<lambda>ids s. Inr Map.empty), we_apply = (\<lambda>ms s. (None, s)), we_record = (\<lambda>rs s. (None, s))\<rparr>"

definition example_events :: "'s writer_event list" where
  "example_events = [Start] @ concat (map (\<lambda>n. [Admit (example_request n 1 7 1), Send (example_request n 1 7 1)]) [0, 1, 2]) @
     [Receive, Receive, CancelRun]"

lemma accepted_requests_are_answered_witness:
  "\<exists>y z. writer_run idle_env example_config example_events (start_writer ()) = Some y \<and> map fst (ws_answers y) = [0, 1] \<and>
     writer_run idle_env example_config [DrainOne, DrainEnd] y = Some z \<and> map fst (ws_answers z) = [0, 1, 2]"
proof -
  have "(case writer_run idle_env example_config example_events (start_writer ()) of None \<Rightarrow> False
    | Some y \<Rightarrow> wr_phase (ws_writer y) = WriterDraining \<and> wr_sending (ws_writer y) = [] \<and> length (wr_queue (ws_writer y)) = 1 \<and>
        map fst (ws_answers y) = [0, 1] \<and> ws_accepted y = [0, 1, 2])"
    by code_simp
  then obtain y where y: "writer_run idle_env example_config example_events (start_writer ()) = Some y"
      "wr_phase (ws_writer y) = WriterDraining" "wr_sending (ws_writer y) = []" "length (wr_queue (ws_writer y)) = 1"
      "map fst (ws_answers y) = [0, 1]" "ws_accepted y = [0, 1, 2]"
    by (auto split: option.splits)
  have "replicate 1 DrainOne @ [DrainEnd] = ([DrainOne, DrainEnd] :: unit writer_event list)" by simp
  then show ?thesis using accepted_requests_are_answered[OF y(1)] y by (auto split: option.splits simp del: writer_run.simps)
qed

section \<open>Order of generations\<close>

text \<open>C31: The index never goes back.  In every run of the writer over the store and an index library that keeps
  its documented promise, with any other writes to the database in between, also while the index commits,
  and any failures, every document of the index has a generation the catalog has reached, and no document
  is replaced by one of an older generation.\<close>

theorem index_never_goes_back:
  assumes "native_batch nt contents" and "fair_ports p"
    and "writer_run (text_env nt p) c es (start_writer w) = Some y"
    and "\<And>e. e \<in> set es \<Longrightarrow> (case e of Admit r \<Rightarrow> request_ok r
      | World f \<Rightarrow> (\<forall>v. gens_le (text_generation v) (text_generation (f v)) \<and> text_index contents (f v) = text_index contents v)
      | _ \<Rightarrow> True)"
    and "index_behind (text_index contents w) (text_generation w)"
  shows "index_behind (text_index contents (ws_world y)) (text_generation (ws_world y)) \<and>
    index_le (text_index contents w) (text_index contents (ws_world y))"
proof -
  note world = text_commit_world[OF assms(1,2)]
  let ?fair = "commit_world.fair_event (text_index contents) text_generation"
  have "?fair e" if "e \<in> set es" for e
    using assms(4)[OF that] by (cases e) (simp_all add: commit_world.fair_event.simps[OF world])
  then have "list_all ?fair es" by (simp add: list_all_iff)
  from commit_world.run_since[OF world assms(3) this]
  have "commit_world.since (text_index contents) text_generation w (ws_world y)"
    by (simp add: start_writer_def new_writer_def commit_world.requests_ok_def[OF world] commit_world.since_refl[OF world])
  from commit_world.since_index[OF world this assms(5)] show ?thesis by simp
qed

section \<open>Completion follows the index\<close>

text \<open>The index holds what the batch makes of it.\<close>

definition batch_in_index :: "('i \<Rightarrow> document list) \<Rightarrow> commit_request list \<Rightarrow> 'i text_world \<Rightarrow> 'i text_world \<Rightarrow> bool" where
  "batch_in_index contents rs w w' \<longleftrightarrow> text_index contents w' = (\<lambda>i. case last_request (text_generation w) rs i of
     None \<Rightarrow> text_index contents w i | Some r \<Rightarrow> document_of (cq_mutation r))"

lemma text_apply_index:
  assumes nt: "native_batch nt contents" and p: "fair_ports p" and ok: "list_all request_ok rs"
    and g: "tp_read_error p (tw_db w) = None"
  defines "current \<equiv> current_generations (tw_db w) (request_files rs)"
  assumes a: "(if batch_mutations current rs \<noteq> [] then we_apply (text_env nt p) (batch_mutations current rs) w else (None, w)) = (None, w1)"
  shows "batch_in_index contents rs w w1" "tw_db w1 \<in> {tw_db w, tp_meanwhile p (tw_db w)}"
proof -
  note world = text_commit_world[OF nt p]
  let ?ms = "batch_mutations current rs"
  have gens: "we_generations (text_env nt p) (request_files rs) w = Inr current"
    using g by (simp add: text_env_def current_def)
  have "mutation_ok m" if "m \<in> set ?ms" for m
    using last_mutations_files[OF ok, of m current] that ok
    by (auto simp: batch_mutations_eq list_all_iff request_ok_def)
  then have ms: "distinct (map mu_file_id ?ms)" "list_all mutation_ok ?ms"
    by (simp_all add: batch_mutations_eq last_mutations_distinct[OF ok] list_all_iff)
  have "text_index contents w1 = applied ?ms (text_index contents w)"
  proof (cases "?ms = []")
    case False
    then have "we_apply (text_env nt p) ?ms w = (None, w1)" using a by simp
    from commit_world.apply_ix[OF world this ms] show ?thesis by simp
  qed (use a in \<open>simp add: applied_def\<close>)
  then show "batch_in_index contents rs w w1"
    using commit_world.applied_batch[OF world ok gens, of "text_index contents w"] by (simp add: batch_in_index_def fun_eq_iff)
  show "tw_db w1 \<in> {tw_db w, tp_meanwhile p (tw_db w)}"
    using a by (auto simp: text_env_def split: if_splits prod.splits)
qed

lemma receipts_tasks: "rc_task_id ` set (receipts current rs) = cq_task_id ` {r \<in> set rs. cq_record r}"
  by (auto simp: receipts_def receipt_of_def image_image)


text \<open>A catalogued file under a lease, an event on every file between two batches.\<close>

definition example_world :: "document list text_world" where
  "example_world = \<lparr>tw_db = leased_db, tw_engine = \<lparr>en_index = [], en_closed = False\<rparr>\<rparr>"

definition touch_all :: "'i text_world \<Rightarrow> 'i text_world" where
  "touch_all w = w\<lparr>tw_db := (tw_db w)\<lparr>db_files := map (\<lambda>f. f\<lparr>f_generation := f_generation f + 1\<rparr>) (db_files (tw_db w))\<rparr>\<rparr>"

lemma touch_all_fair: "gens_le (text_generation v) (text_generation (touch_all v))" "text_index contents (touch_all v) = text_index contents v"
proof -
  have "List.find (\<lambda>f. f_id f = i) (map (\<lambda>f. f\<lparr>f_generation := f_generation f + 1\<rparr>) fs) =
      map_option (\<lambda>f. f\<lparr>f_generation := f_generation f + 1\<rparr>) (List.find (\<lambda>f. f_id f = i) fs)" for i and fs :: "catalog_file list"
    by (induction fs) auto
  then show "gens_le (text_generation v) (text_generation (touch_all v))"
    by (auto simp: gens_le_def text_generation_def db_generation_def touch_all_def)
  show "text_index contents (touch_all v) = text_index contents v" by (simp add: text_index_def touch_all_def)
qed

definition touched_run :: "document list text_world writer_event list" where
  "touched_run = [Start, Admit (example_request 0 1 1 1), Send (example_request 0 1 1 1), Receive, Tick, World touch_all,
     Admit (example_request 1 1 1 2), Send (example_request 1 1 1 2), Receive, CancelRun, DrainEnd]"

lemma touched_run_end:
  "(case writer_run (text_env document_library (quiet_ports 20)) example_config touched_run (start_writer example_world) of
      None \<Rightarrow> False
    | Some y \<Rightarrow> map fst (ws_answers y) = [0, 1] \<and> text_index id (ws_world y) 1 = Some (example_document 1 2) \<and>
        text_generation (ws_world y) 1 = Some 2)"
  by code_simp

lemma index_never_goes_back_witness:
  "\<exists>y. writer_run (text_env document_library (quiet_ports 20)) example_config touched_run (start_writer example_world) = Some y \<and>
     index_behind (text_index id (ws_world y)) (text_generation (ws_world y)) \<and>
     text_index id (ws_world y) 1 = Some (example_document 1 2) \<and> text_generation (ws_world y) 1 = Some 2"
proof -
  obtain y where y: "writer_run (text_env document_library (quiet_ports 20)) example_config touched_run (start_writer example_world) = Some y"
      "text_index id (ws_world y) 1 = Some (example_document 1 2)" "text_generation (ws_world y) 1 = Some 2"
    using touched_run_end by (auto split: option.splits)
  have fair: "case e of Admit r \<Rightarrow> request_ok r
      | World f \<Rightarrow> (\<forall>v. gens_le (text_generation v) (text_generation (f v)) \<and> text_index id (f v) = text_index id v)
      | _ \<Rightarrow> True" if "e \<in> set touched_run" for e
    using that by (auto simp: touched_run_def touch_all_fair intro!: example_request_ok) (simp_all add: int64_def)
  have "index_behind (text_index id example_world) (text_generation example_world)"
    by (simp add: index_behind_def text_index_def example_world_def indexed_def)
  from index_never_goes_back[OF document_library_batch quiet_ports_fair y(1) fair this]
  have "index_behind (text_index id (ws_world y)) (text_generation (ws_world y))" by simp
  then show ?thesis using y by blast
qed

definition example_answer :: "(nat \<times> commit_response) list \<times> document list text_world" where
  "example_answer = flush (text_env document_library (quiet_ports 20)) [example_request 0 1 1 1] example_world"


section \<open>A batch that races with an event\<close>

text \<open>
  One event between the generations and the record: \<open>/w/a\<close> and \<open>/w/b\<close> are leased and catalogued, an event on
  \<open>/w/a\<close> arrives while the index commits.  Then the record of the whole batch fails with
  \<open>ErrStaleGeneration\<close>, also for \<open>/w/b\<close>, whose generation nobody has changed, and which
  \<open>RetireTaskIfSuperseded\<close> does not retire.
\<close>

definition both_leased_db :: db where
  "both_leased_db = run_ops [OpEnqueueAndBump 10 (event_on ''/w/a''), OpEnqueueAndBump 10 (event_on ''/w/b''),
     OpClaim 4 11 ClaimAny, OpPrepareFile 12 1 (file_at ''/w/a'' 1), OpPrepareFile 12 2 (file_at ''/w/b'' 1)]"

definition racing_ports :: text_ports where
  "racing_ports = (quiet_ports 20)\<lparr>tp_meanwhile := (\<lambda>db. snd (enqueue_and_bump_generation 15 (event_on ''/w/a'') db))\<rparr>"

lemma one_event_fails_the_whole_batch:
  "(case flush (text_env document_library racing_ports) [example_request 0 1 1 1, example_request 1 2 2 1]
      \<lparr>tw_db = both_leased_db, tw_engine = \<lparr>en_index = [], en_closed = False\<rparr>\<rparr> of
    ([(_, Inl e), (_, Inl e')], w) \<Rightarrow> is_leaf e' (StoreFailure ErrStaleGeneration) \<and>
      db_generation (tw_db w) 1 = Some 2 \<and> db_generation (tw_db w) 2 = Some 1 \<and> 2 \<in> leased_ids (tw_db w) \<and>
      fst (retire_task_if_superseded 20 2 (tw_db w)) = Inr False
  | _ \<Rightarrow> False)"
  by code_simp

end
