(* ===== verification/Worker.thy ===== *)
theory Worker
  imports Io_Stage Text_Index Scheduler Store_Vectors
begin

text \<open>
  The indexing worker, \<open>internal/pipeline/worker/processor.go\<close>: it takes the leases of the scheduler, asks the
  IO stage what to do, extracts or embeds, submits the change to the commit writer, and turns every error
  into a retry, a dead letter, a retirement or the stop of the process.

  The interfaces of the file are the fields of \<open>worker_env\<close>, each a program over a world of type \<open>'s\<close>: it
  panics, fails or returns.  A failed call may have changed the world.  Observers, which only count, are
  left out; the texts and type names of errors in the stored histories are an argument.
\<close>

section \<open>Programs\<close>

datatype 'a answer = Panicked | Failed app | Returned 'a

type_synonym ('s, 'a) prog = "'s \<Rightarrow> 'a answer \<times> 's"

definition pr_return :: "'a \<Rightarrow> ('s, 'a) prog" where
  "pr_return x = (\<lambda>s. (Returned x, s))"

definition pr_fail :: "app \<Rightarrow> ('s, 'a) prog" where
  "pr_fail e = (\<lambda>s. (Failed e, s))"

definition pr_bind :: "('s, 'a) prog \<Rightarrow> ('a \<Rightarrow> ('s, 'b) prog) \<Rightarrow> ('s, 'b) prog" where
  "pr_bind m f = (\<lambda>s. case m s of (Panicked, s') \<Rightarrow> (Panicked, s') | (Failed e, s') \<Rightarrow> (Failed e, s') | (Returned x, s') \<Rightarrow> f x s')"

definition pr_read :: "('s \<Rightarrow> 'a) \<Rightarrow> ('s, 'a) prog" where
  "pr_read f = (\<lambda>s. (Returned (f s), s))"

definition pr_map_error :: "(app \<Rightarrow> app) \<Rightarrow> ('s, 'a) prog \<Rightarrow> ('s, 'a) prog" where
  "pr_map_error g m = (\<lambda>s. case m s of (Failed e, s') \<Rightarrow> (Failed (g e), s') | r \<Rightarrow> r)"

text \<open>The error as a value, for the calls whose error is inspected.\<close>

definition pr_attempt :: "('s, 'a) prog \<Rightarrow> ('s, app + 'a) prog" where
  "pr_attempt m = (\<lambda>s. case m s of
     (Panicked, s') \<Rightarrow> (Panicked, s') | (Failed e, s') \<Rightarrow> (Returned (Inl e), s') | (Returned x, s') \<Rightarrow> (Returned (Inr x), s'))"

section \<open>Dependencies and configuration\<close>

record 's worker_env =
  wk_file_by_id :: "int \<Rightarrow> ('s, catalog_file) prog"
  wk_file_by_path :: "string \<Rightarrow> ('s, catalog_file) prog"
  wk_prepare :: "int \<Rightarrow> catalog_file \<Rightarrow> ('s, catalog_file) prog"
  wk_relocate :: "int \<Rightarrow> int \<Rightarrow> string \<Rightarrow> ('s, catalog_file) prog"
  wk_expand :: "int \<Rightarrow> ('s, unit) prog"
  wk_mark_done :: "int \<Rightarrow> ('s, unit) prog"
  wk_retire :: "int \<Rightarrow> ('s, bool) prog"
  wk_mark_retry :: "int \<Rightarrow> int \<Rightarrow> string \<Rightarrow> ('s, unit) prog"
  wk_mark_dead :: "int \<Rightarrow> dead_letter_info \<Rightarrow> ('s, unit) prog"
  wk_io :: "pipeline_task \<Rightarrow> ('s, io_result option) prog"
  wk_close :: "io_result \<Rightarrow> 's \<Rightarrow> app option \<times> 's"
  wk_extract :: "string \<Rightarrow> io_result \<Rightarrow> ('s, doc) prog"
  wk_submit :: "commit_op \<Rightarrow> ('s, bool) prog"
  wk_document :: "int \<Rightarrow> ('s, file_document) prog"
  wk_match_image :: "string \<Rightarrow> string \<Rightarrow> bool"
  wk_image :: "io_result \<Rightarrow> ('s, frame) prog"
  wk_embed :: "int \<Rightarrow> frame list \<Rightarrow> ('s, embedding list) prog"
  wk_replace :: "int \<Rightarrow> int \<Rightarrow> vector list \<Rightarrow> ('s, unit) prog"
  wk_delete :: "int \<Rightarrow> int \<Rightarrow> ('s, unit) prog"
  wk_record_dead :: "(task \<Rightarrow> dead_letter_info \<Rightarrow> ('s, unit) prog) option"
  wk_complete :: "lease \<Rightarrow> 's \<Rightarrow> 's"
  wk_cancelled :: "'s \<Rightarrow> bool"
  wk_now :: "'s \<Rightarrow> int"
  wk_random :: "'s \<Rightarrow> random_value"
  wk_model_version :: "('s \<Rightarrow> string) option"

text \<open>\<open>ImageProcessor\<close>, \<open>ImageEmbedder\<close> and \<open>VectorProjector\<close> are present together or not at all.\<close>

record worker_config =
  pc_workers :: int
  pc_policy :: policy
  pc_commit_timeout :: int
  pc_extractor_version :: string
  pc_embed_model_version :: string
  pc_image_processor :: bool
  pc_image_embedder :: bool
  pc_vector_projector :: bool
  pc_windows :: bool
  pc_type_name :: "app \<Rightarrow> string"
  pc_message :: "app \<Rightarrow> string"

definition new_processor :: "worker_config \<Rightarrow> string + worker_config" where
  "new_processor c =
     (let c = (if pc_workers c = 0 then c\<lparr>pc_workers := 1\<rparr> else c)
      in if pc_workers c < 1 then Inl ''workers must be positive''
         else
           let configured = pc_image_processor c \<or> pc_image_embedder c \<or> pc_vector_projector c;
               complete = pc_image_processor c \<and> pc_image_embedder c \<and> pc_vector_projector c
           in if configured \<and> \<not> complete
              then Inl ''image processor, image embedder and vector projector must be configured together''
              else
                let c = (if po_base (pc_policy c) = 0 then c\<lparr>pc_policy := default_policy\<rparr> else c);
                    c = (if pc_commit_timeout c = 0 then c\<lparr>pc_commit_timeout := 30 * 10 ^ 9\<rparr> else c)
                in if pc_commit_timeout c < 0 then Inl ''commit timeout must be positive'' else Inr c)"

section \<open>Stages of errors\<close>

definition stage :: "string \<Rightarrow> ('s, 'a) prog \<Rightarrow> ('s, 'a) prog" where
  "stage name = pr_map_error (Staged name)"

definition store_call :: "('s, 'a) prog \<Rightarrow> ('s, 'a) prog" where
  "store_call = pr_map_error (\<lambda>e. Staged ''store'' (wrap_class Fatal e))"

definition error_stage :: "app \<Rightarrow> string" where
  "error_stage e =
     (case List.map_filter (\<lambda>n. case n of Staged s _ \<Rightarrow> Some s | _ \<Rightarrow> None) (chain e) of [] \<Rightarrow> ''unknown'' | s # _ \<Rightarrow> s)"

definition classify_io_error :: "app \<Rightarrow> app" where
  "classify_io_error e =
     (if is_leaf e (IoFailure ErrFileTooLarge) \<or> is_leaf e (IoFailure ErrNotRegular) \<or> is_leaf e (IoFailure ErrIoInvalidTask)
      then wrap_class Permanent e else e)"

definition classify_media_error :: "app \<Rightarrow> app" where
  "classify_media_error e =
     (if is_leaf e ErrUnsupportedImage \<or> is_leaf e ErrImageTooLarge \<or> is_leaf e ErrImagePanic \<or> is_leaf e ErrInvalidImageConfig
      then wrap_class Permanent e else e)"

definition classify_embed_error :: "app \<Rightarrow> app" where
  "classify_embed_error e =
     (if is_leaf e ErrInvalidResponse then wrap_class Permanent e
      else if is_leaf e ErrStaleModelResponse then wrap_class Transient e else e)"

definition classify_extract_error :: "app \<Rightarrow> app" where
  "classify_extract_error e = (if is_leaf e ErrExtractorPanic then wrap_class Permanent e else e)"

definition poison :: "string \<Rightarrow> string \<Rightarrow> ('s, 'a) prog" where
  "poison name message = pr_fail (Staged name (new_error Poison message))"

section \<open>Rows and documents\<close>

definition optional_string :: "string \<Rightarrow> string option" where
  "optional_string s = (if s = [] then None else Some s)"

definition file_from_result :: "pipeline_task \<Rightarrow> file_meta \<Rightarrow> doc \<Rightarrow> catalog_file" where
  "file_from_result t m d =
     \<lparr>f_id = 0, f_path = t_path (pt_row t), f_path_key = [], f_size = fm_size m, f_mtime_ns = fm_mtime_ns m, f_inode = fm_inode m,
      f_sample_hash = fm_sample_hash m, f_kind = doc_kind d, f_generation = pt_generation t, f_status = FileStatusPending,
      f_extractor_version = optional_string (doc_extractor_version d), f_embed_model_version = None, f_indexed_at_ms = None\<rparr>"

definition file_from_image_result :: "pipeline_task \<Rightarrow> file_meta \<Rightarrow> catalog_file" where
  "file_from_image_result t m =
     \<lparr>f_id = 0, f_path = t_path (pt_row t), f_path_key = [], f_size = fm_size m, f_mtime_ns = fm_mtime_ns m, f_inode = fm_inode m,
      f_sample_hash = fm_sample_hash m, f_kind = FileKindImage, f_generation = pt_generation t, f_status = FileStatusPending,
      f_extractor_version = None, f_embed_model_version = None, f_indexed_at_ms = None\<rparr>"

definition kind_string :: "file_kind \<Rightarrow> string" where
  "kind_string k = (case k of FileKindText \<Rightarrow> ''text'' | FileKindImage \<Rightarrow> ''image'' | FileKindVideo \<Rightarrow> ''video''
     | FileKindOther \<Rightarrow> ''other'' | FileKindInvalid s \<Rightarrow> s)"

definition document_for :: "catalog_file \<Rightarrow> string \<Rightarrow> string \<Rightarrow> file_document" where
  "document_for f kind content =
     \<lparr>fd_file_id = f_id f, fd_path = f_path f, fd_filename = base_name (f_path f), fd_kind = kind, fd_content = content,
      fd_mtime_ns = f_mtime_ns f, fd_generation = f_generation f, fd_status = ''indexed''\<rparr>"

definition validate_still_image_frame :: "frame \<Rightarrow> app option" where
  "validate_still_image_frame f =
     (if fr_index f \<noteq> 0 then Some (Text ''still-image frame index is not 0'')
      else if fr_ts f \<noteq> None then Some (Text ''still-image frame timestamp must be empty'')
      else if fr_jpeg f = [] then Some (Text ''normalized JPEG is empty'') else None)"

section \<open>Vectors of a response\<close>

definition response_error :: app where "response_error = Leaf ErrInvalidResponse"

definition embedding_ok :: "string \<Rightarrow> nat \<Rightarrow> int list \<Rightarrow> embedding \<Rightarrow> frame \<Rightarrow> bool" where
  "embedding_ok model dims seen e f \<longleftrightarrow>
     em_index e = fr_index f \<and> em_ts e = fr_ts f \<and> em_index e \<notin> set seen \<and> 0 \<le> em_index e \<and> em_index e < 2 ^ 16 \<and>
     (case em_ts e of None \<Rightarrow> True | Some t \<Rightarrow> 0 \<le> t) \<and> em_model e = model \<and> length (em_values e) = dims \<and>
     list_all finite32 (em_values e) \<and> unit_norm (em_values e)"

definition vector_of_embedding :: "int \<Rightarrow> string \<Rightarrow> embedding \<Rightarrow> vector" where
  "vector_of_embedding file_id model e = \<lparr>vc_file_id = file_id, vc_frame = em_index e, vc_frame_ts = em_ts e,
     vc_values = em_values e, vc_model = model\<rparr>"

fun collect_vectors :: "int \<Rightarrow> string \<Rightarrow> nat \<Rightarrow> int list \<Rightarrow> frame list \<Rightarrow> embedding list \<Rightarrow> app + vector list" where
  "collect_vectors file_id model dims seen (f # fs) (e # es) =
     (if embedding_ok model dims seen e f
      then map_sum id ((#) (vector_of_embedding file_id model e)) (collect_vectors file_id model dims (em_index e # seen) fs es)
      else Inl response_error)"
| "collect_vectors file_id model dims seen _ _ = Inr []"

definition vectors_from_embeddings :: "int \<Rightarrow> frame list \<Rightarrow> embedding list \<Rightarrow> app + vector list \<times> string" where
  "vectors_from_embeddings file_id frames es =
     (if length es \<noteq> length frames then Inl response_error
      else case es of
        [] \<Rightarrow> Inl response_error
      | e # _ \<Rightarrow>
          if \<not> trimmed_label (em_model e) then Inl response_error
          else if em_values e = [] then Inl response_error
          else map_sum id (\<lambda>vs. (vs, em_model e))
                 (collect_vectors file_id (em_model e) (length (em_values e)) [] frames es))"

section \<open>The steps of a task\<close>

definition lookup :: "('s, catalog_file) prog \<Rightarrow> ('s, catalog_file option) prog" where
  "lookup m = pr_bind (pr_attempt m) (\<lambda>r. case r of
     Inr f \<Rightarrow> pr_return (Some f)
   | Inl e \<Rightarrow> if is_leaf e (StoreFailure ErrNotFound) then pr_return None else pr_fail e)"

definition load_task :: "'s worker_env \<Rightarrow> task \<Rightarrow> ('s, pipeline_task) prog" where
  "load_task env row =
     pr_bind (lookup (case t_file_id row of
        Some i \<Rightarrow> wk_file_by_id env i
      | None \<Rightarrow> wk_file_by_path env (case t_old_path row of
          Some old \<Rightarrow> if t_op row = TaskOpRelocate then old else t_path row
        | None \<Rightarrow> t_path row)))
       (\<lambda>catalog. pr_return (new_task row catalog))"

definition submit_commit :: "'s worker_env \<Rightarrow> commit_op \<Rightarrow> ('s, unit) prog" where
  "submit_commit env op = pr_bind (stage ''tantivy_commit'' (wk_submit env op)) (\<lambda>_. pr_return ())"

definition commit :: "'s worker_env \<Rightarrow> int \<Rightarrow> catalog_file \<Rightarrow> file_document \<Rightarrow> ('s, unit) prog" where
  "commit env task_id f d = submit_commit env
     \<lparr>co_task_id = task_id, co_file_id = f_id f, co_generation = f_generation f,
      co_mutation = \<lparr>mu_kind = MutationUpsertFile, mu_file_id = f_id f, mu_generation = f_generation f, mu_file = Some d\<rparr>\<rparr>"

definition delete_vectors :: "'s worker_env \<Rightarrow> worker_config \<Rightarrow> int \<Rightarrow> int \<Rightarrow> ('s, unit) prog" where
  "delete_vectors env c file_id generation =
     (if pc_vector_projector c then stage ''vector'' (wk_delete env file_id generation) else pr_return ())"

definition expand_directory :: "'s worker_env \<Rightarrow> pipeline_task \<Rightarrow> ('s, unit) prog" where
  "expand_directory env t =
     store_call (pr_map_error (Wrapped ''expand directory task'') (wk_expand env (t_id (pt_row t))))"

definition remove_task :: "'s worker_env \<Rightarrow> worker_config \<Rightarrow> pipeline_task \<Rightarrow> ('s, unit) prog" where
  "remove_task env c t =
     (case pt_catalog t of
        None \<Rightarrow> store_call (wk_mark_done env (t_id (pt_row t)))
      | Some f \<Rightarrow>
          pr_bind (if t_file_id (pt_row t) = None
                   then store_call (wk_prepare env (t_id (pt_row t))
                          (f\<lparr>f_generation := pt_generation t, f_status := FileStatusPending\<rparr>))
                   else pr_return f) (\<lambda>f.
          pr_bind (delete_vectors env c (f_id f) (pt_generation t)) (\<lambda>_.
          submit_commit env \<lparr>co_task_id = t_id (pt_row t), co_file_id = f_id f, co_generation = pt_generation t,
            co_mutation = \<lparr>mu_kind = MutationDeleteFile, mu_file_id = f_id f, mu_generation = pt_generation t,
              mu_file = None\<rparr>\<rparr>)))"

text \<open>
  A consumer of the open reader, and then the handle is closed: explicitly, or by the deferred call when
  the consumer panics; a second \<open>Close\<close> of the handle does nothing.
\<close>

definition closing :: "'s worker_env \<Rightarrow> io_result \<Rightarrow> ('s, 'a) prog \<Rightarrow> ('s, (app + 'a) \<times> app option) prog" where
  "closing env r m = (\<lambda>s.
     case m s of
       (Panicked, s1) \<Rightarrow> (Panicked, snd (wk_close env r s1))
     | (Failed e, s1) \<Rightarrow> (case wk_close env r s1 of (q, s2) \<Rightarrow> (Returned (Inl e, q), s2))
     | (Returned x, s1) \<Rightarrow> (case wk_close env r s1 of (q, s2) \<Rightarrow> (Returned (Inr x, q), s2)))"

definition document_and_commit :: "'s worker_env \<Rightarrow> worker_config \<Rightarrow> pipeline_task \<Rightarrow> io_result \<Rightarrow> ('s, unit) prog" where
  "document_and_commit env c t r =
     pr_bind (closing env r (wk_extract env (t_path (pt_row t)) r)) (\<lambda>(d, closed).
     case d of
       Inl e \<Rightarrow> pr_fail (Staged ''extract'' (classify_extract_error e))
     | Inr d \<Rightarrow>
         (case closed of
            Some e \<Rightarrow> pr_fail (Staged ''io'' e)
          | None \<Rightarrow>
              pr_bind (store_call (wk_prepare env (t_id (pt_row t)) (file_from_result t (ir_meta r) d))) (\<lambda>f.
              pr_bind (delete_vectors env c (f_id f) (f_generation f)) (\<lambda>_.
              commit env (t_id (pt_row t)) f (document_for f (kind_string (f_kind f)) (doc_content d))))))"

definition image_and_commit :: "'s worker_env \<Rightarrow> pipeline_task \<Rightarrow> io_result \<Rightarrow> ('s, unit) prog" where
  "image_and_commit env t r =
     pr_bind (closing env r (wk_image env r)) (\<lambda>(x, closed).
     case x of
       Inl e \<Rightarrow> pr_fail (Staged ''media'' (classify_media_error e))
     | Inr frame \<Rightarrow>
         (case closed of
            Some e \<Rightarrow> pr_fail (Staged ''io'' e)
          | None \<Rightarrow>
         (case validate_still_image_frame frame of
            Some e \<Rightarrow> pr_fail (Staged ''media'' (wrap_class Permanent e))
          | None \<Rightarrow>
              pr_bind (store_call (wk_prepare env (t_id (pt_row t)) (file_from_image_result t (ir_meta r)))) (\<lambda>f.
              pr_bind (pr_map_error (\<lambda>e. Staged ''embed'' (classify_embed_error e))
                         (wk_embed env (t_id (pt_row t)) [frame])) (\<lambda>es.
              case vectors_from_embeddings (f_id f) [frame] es of
                Inl e \<Rightarrow> pr_fail (Staged ''embed'' (classify_embed_error e))
              | Inr (vectors, model) \<Rightarrow>
                  pr_bind (stage ''vector'' (wk_replace env (f_id f) (f_generation f) vectors)) (\<lambda>_.
                  commit env (t_id (pt_row t)) (f\<lparr>f_embed_model_version := optional_string model\<rparr>)
                    (document_for f (kind_string FileKindImage) [])))))))"

definition extract_and_commit :: "'s worker_env \<Rightarrow> worker_config \<Rightarrow> pipeline_task \<Rightarrow> io_result \<Rightarrow> ('s, unit) prog" where
  "extract_and_commit env c t r =
     (if pc_image_processor c \<and> wk_match_image env (t_path (pt_row t)) (ir_sniff r)
      then image_and_commit env t r else document_and_commit env c t r)"

definition force_extract :: "'s worker_env \<Rightarrow> worker_config \<Rightarrow> pipeline_task \<Rightarrow> ('s, unit) prog" where
  "force_extract env c t0 =
     (let t = t0\<lparr>pt_row := (pt_row t0)\<lparr>t_op := TaskOpUpsert\<rparr>, pt_catalog := None\<rparr> in
     pr_bind (pr_map_error (\<lambda>e. Staged ''io'' (classify_io_error e)) (wk_io env t)) (\<lambda>result.
     case result of
       None \<Rightarrow> poison ''io'' ''forced extraction returned a nil result''
     | Some r \<Rightarrow>
         (case ir_outcome r of
            OutcomeExtract \<Rightarrow> extract_and_commit env c t r
          | OutcomeRemove \<Rightarrow> remove_task env c t
          | _ \<Rightarrow> (\<lambda>s. poison ''io'' ''forced extraction did not return an extract result'' (snd (wk_close env r s))))))"

text \<open>The row that the fast path stores when the file did not move.\<close>

definition refreshed :: "pipeline_task \<Rightarrow> file_meta \<Rightarrow> catalog_file \<Rightarrow> catalog_file" where
  "refreshed t m f = f\<lparr>f_path := t_path (pt_row t), f_size := fm_size m, f_mtime_ns := fm_mtime_ns m, f_inode := fm_inode m,
     f_sample_hash := (if fm_sample_hash m \<noteq> [] then fm_sample_hash m else f_sample_hash f),
     f_generation := pt_generation t, f_status := FileStatusPending, f_indexed_at_ms := None\<rparr>"

definition fast_path :: "'s worker_env \<Rightarrow> worker_config \<Rightarrow> pipeline_task \<Rightarrow> io_result \<Rightarrow> ('s, unit) prog" where
  "fast_path env c t r =
     (case pt_catalog t of
        None \<Rightarrow> poison ''io'' ''fast path has no catalog snapshot''
      | Some f \<Rightarrow>
          pr_bind (pr_attempt (wk_document env (f_id f))) (\<lambda>found.
          case found of
            Inl e \<Rightarrow>
              if is_leaf e ErrDocumentNotFound then
                pr_bind (if ir_outcome r = OutcomeRelocate
                         then pr_bind (store_call (wk_relocate env (f_id f) (pt_generation t) (t_path (pt_row t)))) (\<lambda>moved.
                                pr_return (t\<lparr>pt_catalog := Some moved\<rparr>))
                         else pr_return t) (force_extract env c)
              else pr_fail (Staged ''tantivy_read'' e)
          | Inr d \<Rightarrow>
              pr_bind (store_call
                (if ir_outcome r = OutcomeRelocate
                 then pr_bind (wk_relocate env (f_id f) (pt_generation t) (t_path (pt_row t))) (\<lambda>moved.
                      wk_prepare env (t_id (pt_row t)) (moved\<lparr>f_status := FileStatusPending\<rparr>))
                 else wk_prepare env (t_id (pt_row t)) (refreshed t (ir_meta r) f))) (\<lambda>p.
              commit env (t_id (pt_row t)) p (document_for p (kind_string (f_kind p)) (fd_content d)))))"

text \<open>A removal or a move of a path that no row describes: a directory.\<close>

definition unknown_path :: "task_op \<Rightarrow> pipeline_task \<Rightarrow> bool" where
  "unknown_path op t \<longleftrightarrow> t_op (pt_row t) = op \<and> t_file_id (pt_row t) = None \<and> pt_catalog t = None"

definition follow_outcome :: "'s worker_env \<Rightarrow> worker_config \<Rightarrow> pipeline_task \<Rightarrow> io_result \<Rightarrow> ('s, unit) prog" where
  "follow_outcome env c t r =
     (case ir_outcome r of
        OutcomeExtract \<Rightarrow> extract_and_commit env c t r
      | OutcomeRemove \<Rightarrow>
          if unknown_path TaskOpRelocate t then expand_directory env t else remove_task env c t
      | _ \<Rightarrow> fast_path env c t r)"

definition process_task :: "'s worker_env \<Rightarrow> worker_config \<Rightarrow> pipeline_task \<Rightarrow> ('s, unit) prog" where
  "process_task env c t =
     (if (case pt_catalog t of Some f \<Rightarrow> f_generation f > pt_generation t | None \<Rightarrow> False)
      then store_call (wk_mark_done env (t_id (pt_row t)))
      else if unknown_path TaskOpRemove t then expand_directory env t
      else
        pr_bind (pr_attempt (wk_io env t)) (\<lambda>result.
        case result of
          Inl e \<Rightarrow>
            if unknown_path TaskOpRelocate t \<and> is_leaf e (IoFailure ErrNotRegular) then expand_directory env t
            else pr_fail (Staged ''io'' (classify_io_error e))
        | Inr None \<Rightarrow> poison ''io'' ''IO stage returned a nil result''
        | Inr (Some r) \<Rightarrow> follow_outcome env c t r))"

text \<open>A panic of any step is an error of class poison.\<close>

definition recovered :: "('s, 'a) prog \<Rightarrow> ('s, 'a) prog" where
  "recovered m = (\<lambda>s. case m s of
     (Panicked, s') \<Rightarrow> (Failed (Staged ''worker'' (wrap_class Poison (Text ''panic''))), s') | r \<Rightarrow> r)"

definition process_lease :: "'s worker_env \<Rightarrow> worker_config \<Rightarrow> lease \<Rightarrow> ('s, unit) prog" where
  "process_lease env c l = recovered (pr_bind (store_call (load_task env (ls_task l))) (process_task env c))"

section \<open>The end of a lease\<close>

text \<open>\<open>errors.Unwrap\<close> follows single wrappers.\<close>

fun unwrap_chain :: "app \<Rightarrow> app list" where
  "unwrap_chain (Classified c e) = Classified c e # unwrap_chain e"
| "unwrap_chain (Wrapped s e) = Wrapped s e # unwrap_chain e"
| "unwrap_chain (Staged s e) = Staged s e # unwrap_chain e"
| "unwrap_chain e = [e]"

definition error_chain_json :: "worker_config \<Rightarrow> app \<Rightarrow> history_text" where
  "error_chain_json c e = HistArray (map (\<lambda>n. ErrorEntry (pc_type_name c n) (pc_message c n)) (unwrap_chain e))"

definition attempts_json :: "worker_config \<Rightarrow> task \<Rightarrow> err_class \<Rightarrow> app \<Rightarrow> int \<Rightarrow> history_text" where
  "attempts_json c t class e now = HistArray [AttemptEntry (failure_attempts t) now (class_string class) (pc_message c e)]"

definition set_dead_letter_versions :: "string \<Rightarrow> string \<Rightarrow> string \<Rightarrow> dead_letter_info \<Rightarrow> dead_letter_info" where
  "set_dead_letter_versions name extractor model info =
     (if name = ''extract'' then info\<lparr>di_extractor_version := optional_string extractor\<rparr>
      else if name = ''embed'' \<or> name = ''vector'' then info\<lparr>di_embed_model_version := optional_string model\<rparr>
      else if name = ''worker'' \<or> name = ''unknown''
      then info\<lparr>di_extractor_version := optional_string extractor, di_embed_model_version := optional_string model\<rparr>
      else info)"

definition current_embed_model_version :: "'s worker_env \<Rightarrow> worker_config \<Rightarrow> 's \<Rightarrow> string" where
  "current_embed_model_version env c s =
     trim_space (case wk_model_version env of Some f \<Rightarrow> f s | None \<Rightarrow> pc_embed_model_version c)"

definition dead_letter_for :: "'s worker_env \<Rightarrow> worker_config \<Rightarrow> task \<Rightarrow> app \<Rightarrow> 's \<Rightarrow> dead_letter_info" where
  "dead_letter_for env c t e s =
     (let class = classify (pc_windows c) (Some e); name = error_stage e in
      set_dead_letter_versions name (pc_extractor_version c) (current_embed_model_version env c s)
        \<lparr>di_stage = name, di_error_class = class_string class, di_error_chain = error_chain_json c e,
         di_attempts_log = attempts_json c t class e (wk_now env s), di_extractor_version = None, di_embed_model_version = None\<rparr>)"

definition complete_lease :: "'s worker_env \<Rightarrow> lease \<Rightarrow> ('s, unit) prog" where
  "complete_lease env l = (\<lambda>s. (Returned (), wk_complete env l s))"

text \<open>A transition of the durable state; its failure stops the process.\<close>

definition transition_call :: "string \<Rightarrow> ('s, 'a) prog \<Rightarrow> ('s, 'a) prog" where
  "transition_call what = pr_map_error (\<lambda>e. Wrapped what (wrap_class Fatal e))"

definition retire_lease :: "'s worker_env \<Rightarrow> lease \<Rightarrow> app \<Rightarrow> ('s, unit) prog" where
  "retire_lease env l e =
     pr_bind (transition_call ''retire superseded task'' (wk_retire env (t_id (ls_task l)))) (\<lambda>retired.
     if retired then complete_lease env l
     else pr_fail (Wrapped ''stale task has no newer durable generation'' e))"

definition retry_lease :: "'s worker_env \<Rightarrow> worker_config \<Rightarrow> lease \<Rightarrow> app \<Rightarrow> ('s, unit) prog" where
  "retry_lease env c l e =
     (let attempts = failure_attempts (ls_task l) in
     pr_bind (pr_read (\<lambda>s. next_attempt (pc_policy c) (wk_random env s) (wk_now env s) (max (attempts - 1) 0))) (\<lambda>due.
     pr_bind (transition_call ''persist retry'' (wk_mark_retry env (t_id (ls_task l)) due (pc_message c e))) (\<lambda>_.
     complete_lease env l)))"

definition bury_lease :: "'s worker_env \<Rightarrow> worker_config \<Rightarrow> lease \<Rightarrow> app \<Rightarrow> ('s, unit) prog" where
  "bury_lease env c l e =
     pr_bind (pr_read (dead_letter_for env c (ls_task l) e)) (\<lambda>info.
     pr_bind (transition_call ''persist dead letter'' (wk_mark_dead env (t_id (ls_task l)) info)) (\<lambda>_.
     pr_bind (case wk_record_dead env of
                None \<Rightarrow> pr_return ()
              | Some record_dead \<Rightarrow> transition_call ''audit dead letter'' (record_dead (ls_task l) info)) (\<lambda>_.
     complete_lease env l)))"

definition settle_failure :: "'s worker_env \<Rightarrow> worker_config \<Rightarrow> lease \<Rightarrow> app \<Rightarrow> ('s, unit) prog" where
  "settle_failure env c l e =
     (if is_leaf e (StoreFailure ErrStaleGeneration) \<or> is_leaf e (StoreFailure ErrPathOwnership) then retire_lease env l e
      else
        let class = classify (pc_windows c) (Some e) in
        if class = Fatal then pr_fail (Wrapped ''fatal task'' e)
        else if class = Transient \<and> should_retry (pc_policy c) class (failure_attempts (ls_task l))
        then retry_lease env c l e
        else bury_lease env c l e)"

definition handle_lease :: "'s worker_env \<Rightarrow> worker_config \<Rightarrow> lease \<Rightarrow> ('s, unit) prog" where
  "handle_lease env c l =
     pr_bind (pr_attempt (process_lease env c l)) (\<lambda>r.
     case r of
       Inr _ \<Rightarrow> complete_lease env l
     | Inl e \<Rightarrow>
         if is_leaf e ErrWaiting then complete_lease env l
         else pr_bind (pr_read (wk_cancelled env)) (\<lambda>cancelled.
           if cancelled then pr_return () else settle_failure env c l e))"

section \<open>One worker of the pool\<close>

text \<open>What its \<open>select\<close> takes next.\<close>

datatype worker_event = GroupDone | InputClosed | Deliver lease

fun worker_loop :: "'s worker_env \<Rightarrow> worker_config \<Rightarrow> worker_event list \<Rightarrow> ('s, unit) prog" where
  "worker_loop env c [] = pr_return ()"
| "worker_loop env c (GroupDone # es) = pr_return ()"
| "worker_loop env c (InputClosed # es) = pr_return ()"
| "worker_loop env c (Deliver l # es) = pr_bind (handle_lease env c l) (\<lambda>_. worker_loop env c es)"

end
