(* ===== verification/Worker_Laws.thy ===== *)
theory Worker_Laws
  imports Worker
begin

text \<open>
  Laws of \<open>Worker\<close>: what a program may do is described by a triple of conditions on its three ends, and the
  collaborators by the interface \<open>lease_world\<close>.  In it every lease that is completed has left the in-flight
  state, and whatever the IO stage handed over has been given back, on every path and also on a panic.
\<close>

section \<open>Conditions on the ends of a program\<close>

definition pwp :: "('s, 'a) prog \<Rightarrow> ('a \<Rightarrow> 's \<Rightarrow> bool) \<Rightarrow> (app \<Rightarrow> 's \<Rightarrow> bool) \<Rightarrow> ('s \<Rightarrow> bool) \<Rightarrow> 's \<Rightarrow> bool" where
  "pwp m Q E P s \<longleftrightarrow> (case m s of (Returned x, s') \<Rightarrow> Q x s' | (Failed e, s') \<Rightarrow> E e s' | (Panicked, s') \<Rightarrow> P s')"

lemma pwp_return [simp]: "pwp (pr_return x) Q E P s = Q x s"
  by (simp add: pwp_def pr_return_def)

lemma pwp_fail [simp]: "pwp (pr_fail e) Q E P s = E e s"
  by (simp add: pwp_def pr_fail_def)

lemma pwp_poison [simp]: "pwp (poison n m) Q E P s = E (Staged n (new_error Poison m)) s"
  by (simp add: poison_def)

lemma pwp_read [simp]: "pwp (pr_read f) Q E P s = Q (f s) s"
  by (simp add: pwp_def pr_read_def)

lemma pwp_bind: "pwp (pr_bind m f) Q E P s = pwp m (\<lambda>x. pwp (f x) Q E P) E P s"
  by (auto simp: pwp_def pr_bind_def split: prod.splits answer.splits)

lemma pwp_map_error: "pwp (pr_map_error g m) Q E P s = pwp m Q (\<lambda>e. E (g e)) P s"
  by (auto simp: pwp_def pr_map_error_def split: prod.splits answer.splits)

lemma pwp_attempt: "pwp (pr_attempt m) Q E P s = pwp m (\<lambda>x. Q (Inr x)) (\<lambda>e. Q (Inl e)) P s"
  by (auto simp: pwp_def pr_attempt_def split: prod.splits answer.splits)

lemma pwp_recovered: "pwp (recovered m) Q E P s = pwp m Q E (E (Staged ''worker'' (wrap_class Poison (Text ''panic'')))) s"
  by (auto simp: pwp_def recovered_def split: prod.splits answer.splits)

lemma pwp_complete: "pwp (complete_lease env l) Q E P s = Q () (wk_complete env l s)"
  by (simp add: pwp_def complete_lease_def)

lemmas pwp_simps = pwp_bind pwp_map_error pwp_attempt pwp_recovered pwp_complete stage_def store_call_def transition_call_def

lemma pwp_mono:
  assumes "pwp m Q E P s" "\<And>x s. Q x s \<Longrightarrow> Q' x s" "\<And>e s. E e s \<Longrightarrow> E' e s" "\<And>s. P s \<Longrightarrow> P' s"
  shows "pwp m Q' E' P' s"
  using assms by (auto simp: pwp_def split: prod.splits answer.splits)

text \<open>A failure that says the task waits for a dependency.\<close>

abbreviation waiting :: "app \<Rightarrow> bool" where "waiting e \<equiv> is_leaf e ErrWaiting"

lemma waiting_simps [simp]:
  "waiting (classify_io_error e) = waiting e" "waiting (classify_media_error e) = waiting e"
  "waiting (classify_embed_error e) = waiting e" "waiting (classify_extract_error e) = waiting e"
  "\<not> waiting (new_error k m)" "\<not> waiting response_error"
  by (simp_all add: classify_io_error_def classify_media_error_def classify_embed_error_def classify_extract_error_def
      new_error_def response_error_def)

lemma collect_vectors_error: "collect_vectors i model dims seen fs es = Inl e \<Longrightarrow> e = response_error"
proof (induction i model dims seen fs es rule: collect_vectors.induct)
  case (1 i model dims seen f fs e' es)
  then show ?case by (cases "collect_vectors i model dims (em_index e' # seen) fs es") (auto split: if_splits)
qed auto

lemma vectors_error: "vectors_from_embeddings i fs es = Inl e \<Longrightarrow> e = response_error"
proof (cases "collect_vectors i (em_model (hd es)) (length (em_values (hd es))) [] fs es")
  case (Inl e')
  then show "vectors_from_embeddings i fs es = Inl e \<Longrightarrow> e = response_error"
    using collect_vectors_error[OF Inl] by (auto simp: vectors_from_embeddings_def split: if_splits list.splits)
qed (auto simp: vectors_from_embeddings_def split: if_splits list.splits)

lemma frame_error: "validate_still_image_frame f = Some e \<Longrightarrow> \<not> waiting e"
  by (auto simp: validate_still_image_frame_def split: if_splits)

section \<open>The collaborators as an interface\<close>

text \<open>A call that keeps what is handed out and what is completed, and does not say that the task waits.\<close>

definition frame_call :: "('s \<Rightarrow> bool) \<Rightarrow> ('s \<Rightarrow> int) \<Rightarrow> ('s \<Rightarrow> lease list) \<Rightarrow> ('s, 'a) prog \<Rightarrow> bool" where
  "frame_call ok held ended m \<longleftrightarrow> (\<forall>s. ok s \<longrightarrow> (case m s of (a, s') \<Rightarrow>
     ok s' \<and> held s' = held s \<and> ended s' = ended s \<and> (\<forall>e. a = Failed e \<longrightarrow> \<not> waiting e)))"

locale lease_world =
  fixes env :: "'s worker_env" and ok :: "'s \<Rightarrow> bool" and gone :: "int \<Rightarrow> 's \<Rightarrow> bool"
    and held :: "'s \<Rightarrow> int" and weight :: "io_result \<Rightarrow> int" and ended :: "'s \<Rightarrow> lease list"
  assumes file_by_id: "frame_call ok held ended (wk_file_by_id env i)"
    and file_by_path: "frame_call ok held ended (wk_file_by_path env p)"
    and prepare: "frame_call ok held ended (wk_prepare env i f)"
    and relocate: "frame_call ok held ended (wk_relocate env i g p)"
    and expand: "frame_call ok held ended (wk_expand env i)"
    and mark_done: "frame_call ok held ended (wk_mark_done env i)"
    and retire: "frame_call ok held ended (wk_retire env i)"
    and mark_retry: "frame_call ok held ended (wk_mark_retry env i due text)"
    and mark_dead: "frame_call ok held ended (wk_mark_dead env i info)"
    and extracting: "frame_call ok held ended (wk_extract env p r)"
    and submit: "frame_call ok held ended (wk_submit env op)"
    and document: "frame_call ok held ended (wk_document env i)"
    and image: "frame_call ok held ended (wk_image env r)"
    and replace: "frame_call ok held ended (wk_replace env i g vs)"
    and delete: "frame_call ok held ended (wk_delete env i g)"
    and record_dead: "wk_record_dead env = Some rec \<Longrightarrow> frame_call ok held ended (rec t info)"
    and expand_gone: "ok s \<Longrightarrow> wk_expand env i s = (Returned u, s') \<Longrightarrow> gone i s'"
    and mark_done_gone: "ok s \<Longrightarrow> wk_mark_done env i s = (Returned u, s') \<Longrightarrow> gone i s'"
    and retire_gone: "ok s \<Longrightarrow> wk_retire env i s = (Returned True, s') \<Longrightarrow> gone i s'"
    and mark_retry_gone: "ok s \<Longrightarrow> wk_mark_retry env i due text s = (Returned u, s') \<Longrightarrow> gone i s'"
    and mark_dead_gone: "ok s \<Longrightarrow> wk_mark_dead env i info s = (Returned u, s') \<Longrightarrow> gone i s'"
    and submit_gone: "ok s \<Longrightarrow> wk_submit env op s = (Returned b, s') \<Longrightarrow> gone (co_task_id op) s'"
    and record_dead_gone: "wk_record_dead env = Some rec \<Longrightarrow> ok s \<Longrightarrow> rec t info s = (a, s') \<Longrightarrow> gone i s \<Longrightarrow> gone i s'"
    and embed: "ok s \<Longrightarrow> wk_embed env i fs s = (ea, s') \<Longrightarrow>
      ok s' \<and> held s' = held s \<and> ended s' = ended s \<and> (\<forall>e. ea = Failed e \<longrightarrow> waiting e \<longrightarrow> gone i s')"
    and io: "ok s \<Longrightarrow> wk_io env pt s = (ia, s') \<Longrightarrow> ok s' \<and> ended s' = ended s \<and>
      (case ia of Returned (Some r) \<Rightarrow> held s' = held s + weight r \<and> (ir_outcome r \<noteq> OutcomeExtract \<longrightarrow> weight r = 0)
       | Failed e \<Rightarrow> held s' = held s \<and> \<not> waiting e | _ \<Rightarrow> held s' = held s)"
    and close: "ok s \<Longrightarrow> wk_close env r s = (q, s') \<Longrightarrow>
      ok s' \<and> held s' = held s - weight r \<and> ended s' = ended s \<and> (\<forall>e. q = Some e \<longrightarrow> \<not> waiting e)"
    and complete: "ok s \<Longrightarrow> ok (wk_complete env l s) \<and> held (wk_complete env l s) = held s \<and>
      ended (wk_complete env l s) = ended s @ [l] \<and> (gone i s \<longrightarrow> gone i (wk_complete env l s))"
begin

definition inv :: "int \<Rightarrow> lease list \<Rightarrow> 's \<Rightarrow> bool" where
  "inv h g s \<longleftrightarrow> ok s \<and> held s = h \<and> ended s = g"

lemma frame_callI:
  assumes "frame_call ok held ended m" "inv h g s" "\<And>x s'. inv h g s' \<Longrightarrow> m s = (Returned x, s') \<Longrightarrow> Q x s'"
    "\<And>e s'. inv h g s' \<Longrightarrow> \<not> waiting e \<Longrightarrow> E e s'" "\<And>s'. inv h g s' \<Longrightarrow> P s'"
  shows "pwp m Q E P s"
  using assms by (auto simp: frame_call_def pwp_def inv_def split: prod.splits answer.splits)

text \<open>A program that ends the life of the lease, or says why it could not.\<close>

definition settles :: "int \<Rightarrow> ('s, unit) prog \<Rightarrow> bool" where
  "settles i m \<longleftrightarrow> (\<forall>h g s. inv h g s \<longrightarrow>
     pwp m (\<lambda>_ s'. inv h g s' \<and> gone i s') (\<lambda>e s'. inv h g s' \<and> (waiting e \<longrightarrow> gone i s')) (inv h g) s)"

lemma settlesD: "settles i m \<Longrightarrow> inv h g s \<Longrightarrow>
    pwp m (\<lambda>_ s'. inv h g s' \<and> gone i s') (\<lambda>e s'. inv h g s' \<and> (waiting e \<longrightarrow> gone i s')) (inv h g) s"
  by (simp add: settles_def)

lemma inv_ok: "inv h g s \<Longrightarrow> ok s"
  by (simp add: inv_def)

lemma settles_submit: "settles (co_task_id op) (submit_commit env op)"
  unfolding settles_def Worker.submit_commit_def pwp_simps
  by (intro allI impI, rule frame_callI[OF submit]) (auto dest: submit_gone[OF inv_ok])

lemma settles_commit: "settles i (commit env i f d)"
  using settles_submit[of "\<lparr>co_task_id = i, co_file_id = f_id f, co_generation = f_generation f,
      co_mutation = \<lparr>mu_kind = MutationUpsertFile, mu_file_id = f_id f, mu_generation = f_generation f, mu_file = Some d\<rparr>\<rparr>"]
  by (simp add: commit_def)

lemma settles_mark_done: "settles i (store_call (wk_mark_done env i))"
  unfolding settles_def pwp_simps
  by (intro allI impI, rule frame_callI[OF mark_done]) (auto dest: mark_done_gone[OF inv_ok])

lemma settles_expand: "settles (t_id (pt_row t)) (expand_directory env t)"
  unfolding settles_def expand_directory_def pwp_simps
  by (intro allI impI, rule frame_callI[OF expand]) (auto dest: expand_gone[OF inv_ok])

lemma settles_delete_then: "settles i m \<Longrightarrow> settles i (pr_bind (delete_vectors env c f g) (\<lambda>_. m))"
  unfolding settles_def delete_vectors_def pwp_simps
  by (auto simp: pwp_map_error intro!: frame_callI[OF delete])

lemma settles_frame_then:
  assumes "frame_call ok held ended m" "\<And>x. settles i (f x)"
  shows "settles i (pr_bind (store_call m) f)"
  unfolding settles_def pwp_simps
  by (intro allI impI, rule frame_callI[OF assms(1)]) (auto intro: settlesD[OF assms(2)])

lemma settles_remove: "settles (t_id (pt_row t)) (remove_task env c t)"
proof (cases "pt_catalog t")
  case None
  then show ?thesis by (simp add: remove_task_def settles_mark_done)
next
  case (Some f)
  let ?op = "\<lambda>f. \<lparr>co_task_id = t_id (pt_row t), co_file_id = f_id f, co_generation = pt_generation t,
    co_mutation = \<lparr>mu_kind = MutationDeleteFile, mu_file_id = f_id f, mu_generation = pt_generation t, mu_file = None\<rparr>\<rparr>"
  have tail: "settles (t_id (pt_row t)) (pr_bind (delete_vectors env c (f_id f) (pt_generation t)) (\<lambda>_. submit_commit env (?op f)))" for f :: catalog_file
    by (rule settles_delete_then) (use settles_submit[of "?op f"] in simp)
  show ?thesis
  proof (cases "t_file_id (pt_row t)")
    case None
    then show ?thesis by (simp add: remove_task_def Some settles_frame_then[OF prepare tail])
  next
    case (Some i)
    have "pr_bind (pr_return f) k = k f" for k :: "catalog_file \<Rightarrow> ('s, unit) prog"
      by (simp add: pr_bind_def pr_return_def)
    then show ?thesis using tail[of f] Some \<open>pt_catalog t = Some f\<close> by (simp add: remove_task_def)
  qed
qed

text \<open>The handle is closed once, whatever the consumer does.\<close>

lemma closingI:
  assumes m: "frame_call ok held ended m" and s: "inv (h + weight r) g s"
    and Q: "\<And>x q s'. inv h g s' \<Longrightarrow> (\<And>e. x = Inl e \<Longrightarrow> \<not> waiting e) \<Longrightarrow> (\<And>e. q = Some e \<Longrightarrow> \<not> waiting e) \<Longrightarrow> Q (x, q) s'"
    and P: "\<And>s'. inv h g s' \<Longrightarrow> P s'"
  shows "pwp (closing env r m) Q E P s"
proof -
  obtain a s1 where a: "m s = (a, s1)" by fastforce
  obtain q s2 where q: "wk_close env r s1 = (q, s2)" by fastforce
  have s1: "inv (h + weight r) g s1" "a = Failed e \<Longrightarrow> \<not> waiting e" for e
    using m s a by (auto simp: frame_call_def inv_def)
  have s2: "inv h g s2" "q = Some e \<Longrightarrow> \<not> waiting e" for e
    using close[OF inv_ok[OF s1(1)] q] s1(1) by (auto simp: inv_def)
  show ?thesis
  proof (cases a)
    case (Failed e)
    then have "Q (Inl e, q) s2" by (intro Q[OF s2(1)]) (use s1(2) Failed s2(2) in auto)
    then show ?thesis using a q Failed by (simp add: pwp_def closing_def)
  next
    case (Returned x)
    have "Q (Inr x, q) s2" by (intro Q[OF s2(1)]) (use s2(2) in auto)
    then show ?thesis using a q Returned by (simp add: pwp_def closing_def)
  qed (use a q s2 P in \<open>simp add: pwp_def closing_def\<close>)
qed

text \<open>From an open result to the end of the lease.\<close>

definition consumes :: "io_result \<Rightarrow> int \<Rightarrow> ('s, unit) prog \<Rightarrow> bool" where
  "consumes r i m \<longleftrightarrow> (\<forall>h g s. inv (h + weight r) g s \<longrightarrow>
     pwp m (\<lambda>_ s'. inv h g s' \<and> gone i s') (\<lambda>e s'. inv h g s' \<and> (waiting e \<longrightarrow> gone i s')) (inv h g) s)"

lemma consumes_document: "consumes r (t_id (pt_row t)) (document_and_commit env c t r)"
proof -
  have rest: "settles (t_id (pt_row t)) (pr_bind (store_call (wk_prepare env (t_id (pt_row t)) (file_from_result t (ir_meta r) d)))
      (\<lambda>f. pr_bind (delete_vectors env c (f_id f) (f_generation f))
        (\<lambda>_. commit env (t_id (pt_row t)) f (document_for f (kind_string (f_kind f)) (doc_content d)))))" for d
    by (intro settles_frame_then[OF prepare] settles_delete_then settles_commit)
  show ?thesis
    unfolding consumes_def document_and_commit_def pwp_bind
    by (intro allI impI, rule closingI[OF extracting], assumption)
      (auto split: sum.splits option.splits intro!: settlesD[OF rest])
qed

lemma consumes_image: "consumes r (t_id (pt_row t)) (image_and_commit env t r)"
proof -
  let ?i = "t_id (pt_row t)"
  have replaced: "settles ?i (pr_bind (stage ''vector'' (wk_replace env j g vs)) (\<lambda>_. commit env ?i f d))" for j g vs f d
    unfolding settles_def pwp_simps
    by (intro allI impI, rule frame_callI[OF replace]) (auto intro: settlesD[OF settles_commit])
  define rest where "rest f es frames = (case vectors_from_embeddings (f_id f) frames es of
      Inl e \<Rightarrow> pr_fail (Staged ''embed'' (classify_embed_error e))
    | Inr (vectors, model) \<Rightarrow> pr_bind (stage ''vector'' (wk_replace env (f_id f) (f_generation f) vectors)) (\<lambda>_.
        commit env ?i (f\<lparr>f_embed_model_version := optional_string model\<rparr>) (document_for f (kind_string FileKindImage) [])))"
    for f es frames
  have rest: "settles ?i (rest f es frames)" for f es frames
  proof (cases "vectors_from_embeddings (f_id f) frames es")
    case (Inl e)
    then show ?thesis using vectors_error[OF Inl] by (simp add: rest_def settles_def)
  next
    case (Inr p)
    then show ?thesis using replaced by (cases p) (simp add: rest_def)
  qed
  have embedded: "settles ?i (pr_bind (pr_map_error (\<lambda>e. Staged ''embed'' (classify_embed_error e)) (wk_embed env ?i fs)) (\<lambda>es. rest f es fs))"
    for f fs
    unfolding settles_def pwp_simps
  proof (intro allI impI)
    fix h g s assume s: "inv h g s"
    obtain a s' where a: "wk_embed env ?i fs s = (a, s')" by fastforce
    have "inv h g s'" "a = Failed e \<Longrightarrow> waiting e \<Longrightarrow> gone ?i s'" for e
      using embed[OF inv_ok[OF s] a] s by (auto simp: inv_def)
    then show "pwp (wk_embed env ?i fs) (\<lambda>es. pwp (rest f es fs) (\<lambda>_ s'. inv h g s' \<and> gone ?i s')
        (\<lambda>e s'. inv h g s' \<and> (waiting e \<longrightarrow> gone ?i s')) (inv h g))
      (\<lambda>e s'. inv h g s' \<and> (waiting (Staged ''embed'' (classify_embed_error e)) \<longrightarrow> gone ?i s')) (inv h g) s"
      using a settlesD[OF rest] by (auto simp: pwp_def[of "wk_embed env ?i fs"] split: answer.splits)
  qed
  show ?thesis
    unfolding consumes_def image_and_commit_def rest_def[symmetric] pwp_bind[of "closing env r (wk_image env r)"]
    by (intro allI impI, rule closingI[OF image], assumption)
      (auto split: sum.splits option.splits dest: frame_error intro!: settlesD[OF settles_frame_then[OF prepare embedded]])
qed

lemma consumes_extract: "consumes r (t_id (pt_row t)) (extract_and_commit env c t r)"
  by (simp add: extract_and_commit_def consumes_document consumes_image)


lemma ioI:
  assumes s: "inv h g s"
    and Q: "\<And>r s'. inv (h + weight r) g s' \<Longrightarrow> (ir_outcome r \<noteq> OutcomeExtract \<Longrightarrow> inv h g s') \<Longrightarrow> Q (Some r) s'"
    and N: "\<And>s'. inv h g s' \<Longrightarrow> Q None s'"
    and E: "\<And>e s'. inv h g s' \<Longrightarrow> \<not> waiting e \<Longrightarrow> E e s'" and P: "\<And>s'. inv h g s' \<Longrightarrow> P s'"
  shows "pwp (wk_io env t) Q E P s"
proof -
  obtain a s' where a: "wk_io env t s = (a, s')" by fastforce
  note l = io[OF inv_ok[OF s] a]
  show ?thesis
  proof (cases a)
    case (Returned x)
    then show ?thesis using l s a N Q by (cases x) (auto simp: pwp_def inv_def)
  qed (use l s a E P in \<open>auto simp: pwp_def inv_def\<close>)
qed

lemma consumesD: "consumes r i m \<Longrightarrow> inv (h + weight r) g s \<Longrightarrow>
    pwp m (\<lambda>_ s'. inv h g s' \<and> gone i s') (\<lambda>e s'. inv h g s' \<and> (waiting e \<longrightarrow> gone i s')) (inv h g) s"
  by (simp add: consumes_def)

lemma settles_force_extract: "settles (t_id (pt_row t0)) (force_extract env c t0)"
proof -
  define t where "t = t0\<lparr>pt_row := (pt_row t0)\<lparr>t_op := TaskOpUpsert\<rparr>, pt_catalog := None\<rparr>"
  have i: "t_id (pt_row t0) = t_id (pt_row t)" by (simp add: t_def)
  have close_zero: "inv h g (snd (wk_close env r s))" if "inv h g s" "weight r = 0" for h g r s
    using close[OF inv_ok[OF that(1)], of r] that by (cases "wk_close env r s") (auto simp: inv_def)
  have zero: "weight r = 0" if "inv (h + weight r) g s" "inv h g s" for h g r s using that by (simp add: inv_def)
  show ?thesis
    unfolding settles_def force_extract_def t_def[symmetric] Let_def pwp_simps i
  proof (intro allI impI, rule ioI, assumption)
    fix h g s r s'
    let ?Q = "\<lambda>_ s'. inv h g s' \<and> gone (t_id (pt_row t)) s'" and ?E = "\<lambda>e s'. inv h g s' \<and> (waiting e \<longrightarrow> gone (t_id (pt_row t)) s')"
    let ?m = "poison ''io'' ''forced extraction did not return an extract result'' :: ('s, unit) prog"
    assume r: "inv (h + weight r) g s'" "ir_outcome r \<noteq> OutcomeExtract \<Longrightarrow> inv h g s'"
    have rest: "pwp (\<lambda>s. ?m (snd (wk_close env r s))) ?Q ?E (inv h g) s'" if "ir_outcome r \<noteq> OutcomeExtract"
      using close_zero[OF r(2)[OF that] zero[OF r(1) r(2)[OF that]]] by (simp add: pwp_def poison_def pr_fail_def)
    show "pwp (case Some r of None \<Rightarrow> poison ''io'' ''forced extraction returned a nil result''
        | Some r \<Rightarrow> (case ir_outcome r of OutcomeExtract \<Rightarrow> extract_and_commit env c t r | OutcomeRemove \<Rightarrow> remove_task env c t
          | _ \<Rightarrow> (\<lambda>s. ?m (snd (wk_close env r s))))) ?Q ?E (inv h g) s'"
      using consumesD[OF consumes_extract r(1)] settlesD[OF settles_remove r(2)] rest
      by (auto split: outcome.splits)
  qed auto
qed

lemma settles_fast_path: "settles (t_id (pt_row t)) (fast_path env c t r)"
proof (cases "pt_catalog t")
  case None
  then show ?thesis by (simp add: fast_path_def settles_def)
next
  case (Some f)
  let ?i = "t_id (pt_row t)"
  have forced: "settles ?i (force_extract env c (t\<lparr>pt_catalog := x\<rparr>))" for x
    using settles_force_extract[of "t\<lparr>pt_catalog := x\<rparr>"] by simp
  have "pwp (pr_bind (if ir_outcome r = OutcomeRelocate
        then pr_bind (store_call (wk_relocate env (f_id f) (pt_generation t) (t_path (pt_row t)))) (\<lambda>moved.
          pr_return (t\<lparr>pt_catalog := Some moved\<rparr>)) else pr_return t) (force_extract env c))
      (\<lambda>_ s'. inv h g s' \<and> gone ?i s') (\<lambda>e s'. inv h g s' \<and> (waiting e \<longrightarrow> gone ?i s')) (inv h g) s" if "inv h g s" for h g s
    using that settlesD[OF forced] settlesD[OF settles_force_extract[of t]]
    by (auto simp: pwp_simps intro!: frame_callI[OF relocate])
  note document_missing = this
  have prepared: "pwp (store_call (if ir_outcome r = OutcomeRelocate
        then pr_bind (wk_relocate env (f_id f) (pt_generation t) (t_path (pt_row t))) (\<lambda>moved.
          wk_prepare env ?i (moved\<lparr>f_status := FileStatusPending\<rparr>))
        else wk_prepare env ?i (refreshed t (ir_meta r) f))) (\<lambda>_. inv h g) (\<lambda>e s'. inv h g s' \<and> \<not> waiting e) (inv h g) s" if "inv h g s" for h g s
    using that by (auto simp: pwp_simps intro!: frame_callI[OF relocate] frame_callI[OF prepare])
  show ?thesis
    unfolding settles_def fast_path_def Some option.case pwp_bind[of "pr_attempt _"] pwp_attempt
  proof (intro allI impI, rule frame_callI[OF document], assumption, goal_cases)
    case (1 h g s d s')
    show ?case
      unfolding sum.case pwp_bind[of "store_call _"]
      by (rule pwp_mono[OF prepared[OF 1(2)]]) (auto intro: settlesD[OF settles_commit])
  qed (use document_missing in auto)
qed

lemma consumes_outcome: "consumes r (t_id (pt_row t)) (follow_outcome env c t r)"
  if "\<And>h g s. inv (h + weight r) g s \<Longrightarrow> ir_outcome r \<noteq> OutcomeExtract \<Longrightarrow> inv h g s"
  using that consumesD[OF consumes_extract] settlesD[OF settles_expand] settlesD[OF settles_remove] settlesD[OF settles_fast_path]
  by (auto simp: consumes_def follow_outcome_def split: outcome.splits)

lemma settles_observed:
  "settles (t_id (pt_row t)) (pr_bind (pr_attempt (wk_io env t)) (\<lambda>result. case result of
      Inl e \<Rightarrow> if unknown_path TaskOpRelocate t \<and> is_leaf e (IoFailure ErrNotRegular) then expand_directory env t
        else pr_fail (Staged ''io'' (classify_io_error e))
    | Inr None \<Rightarrow> poison ''io'' ''IO stage returned a nil result''
    | Inr (Some r) \<Rightarrow> follow_outcome env c t r))"
  unfolding settles_def pwp_bind pwp_attempt
proof (intro allI impI, rule ioI, assumption, goal_cases)
  case (1 h g s r s')
  have "weight r = 0" if "ir_outcome r \<noteq> OutcomeExtract" using 1(2) 1(3)[OF that] by (simp add: inv_def)
  then have "consumes r (t_id (pt_row t)) (follow_outcome env c t r)" by (intro consumes_outcome) simp
  from consumesD[OF this 1(2)] show ?case by simp
next
  case (3 h g s e s')
  then show ?case using settlesD[OF settles_expand[of t] 3(2)] by simp
qed simp_all

lemma settles_process_task: "settles (t_id (pt_row t)) (process_task env c t)"
  unfolding process_task_def using settles_observed settles_mark_done settles_expand
  by (simp split: if_split)

lemma settles_process_lease: "settles (t_id (ls_task l)) (process_lease env c l)"
proof -
  have l: "frame_call ok held ended (load_task env row)" for row
  proof -
    have look: "frame_call ok held ended (lookup m)" if "frame_call ok held ended m" for m :: "('s, catalog_file) prog"
      using that by (fastforce simp: frame_call_def lookup_def pr_bind_def pr_attempt_def pr_return_def pr_fail_def
          split: prod.splits answer.splits)
    have bind: "frame_call ok held ended (pr_bind m (\<lambda>x. pr_return (f x)))" if "frame_call ok held ended m"
      for m :: "('s, catalog_file option) prog" and f :: "catalog_file option \<Rightarrow> pipeline_task"
      using that by (fastforce simp: frame_call_def pr_bind_def pr_return_def split: prod.splits answer.splits)
    show ?thesis unfolding load_task_def
      by (intro bind look) (auto split: option.splits simp: file_by_id file_by_path)
  qed
  have row: "t_id (pt_row t) = t_id (ls_task l)" if "load_task env (ls_task l) s = (Returned t, s')" for t s s'
    using that by (auto simp: load_task_def lookup_def pr_bind_def pr_return_def new_task_def split: prod.splits answer.splits)
  show ?thesis
    unfolding settles_def process_lease_def pwp_simps
  proof (intro allI impI, rule frame_callI[OF l], assumption, goal_cases)
    case (1 h g s t s')
    have "pwp (process_task env c t) (\<lambda>_ s'. inv h g s' \<and> gone (t_id (ls_task l)) s')
        (\<lambda>e s'. inv h g s' \<and> (waiting e \<longrightarrow> gone (t_id (ls_task l)) s')) (inv h g) s'"
      using settlesD[OF settles_process_task[of t c] 1(2)] row[OF 1(3)] by simp
    then show ?case by (rule pwp_mono) auto
  qed auto
qed

section \<open>The end of a lease\<close>

text \<open>What \<open>handleLease\<close> leaves: the lease is completed and its task gone, or nothing was completed.\<close>

definition lease_end :: "int \<Rightarrow> lease list \<Rightarrow> lease \<Rightarrow> 's \<Rightarrow> bool" where
  "lease_end h g l s \<longleftrightarrow> inv h (g @ [l]) s \<and> gone (t_id (ls_task l)) s"

lemma completeI: "inv h g s \<Longrightarrow> gone (t_id (ls_task l)) s \<Longrightarrow> lease_end h g l (wk_complete env l s)"
  using complete[of s l] by (auto simp: lease_end_def inv_def)

lemma settle_failureI:
  assumes s: "inv h g s"
  shows "pwp (settle_failure env c l e) (\<lambda>_. lease_end h g l)
    (\<lambda>e' s'. inv h g s' \<and> (classify (pc_windows c) (Some e') = Fatal \<or>
       is_leaf e' (StoreFailure ErrStaleGeneration) \<or> is_leaf e' (StoreFailure ErrPathOwnership))) (inv h g) s"
proof -
  have wrapped: "classify w (Some (Wrapped what (wrap_class Fatal e'))) = Fatal" for w what and e' :: app
    by (simp add: classify_def explicit_class_def own_class_def wrap_class_def normalize_class_def valid_class_def List.map_filter_simps)
  have fatal: "classify w (Some (Wrapped what e')) = classify w (Some e')" for w what and e' :: app
    by (simp add: classify_def explicit_class_def own_class_def is_disk_full_def windows_disk_full_def is_errno_def
      is_sentinel_def List.map_filter_simps permanent_sentinels_def permanent_errnos_def cong: if_cong option.case_cong)
  let ?E = "\<lambda>e' s'. inv h g s' \<and> (classify (pc_windows c) (Some e') = Fatal \<or>
       is_leaf e' (StoreFailure ErrStaleGeneration) \<or> is_leaf e' (StoreFailure ErrPathOwnership))"
  have retired: "pwp (retire_lease env l e) (\<lambda>_. lease_end h g l) ?E (inv h g) s"
    if "is_leaf e (StoreFailure ErrStaleGeneration) \<or> is_leaf e (StoreFailure ErrPathOwnership)"
    unfolding retire_lease_def pwp_simps
  proof (rule frame_callI[OF retire s], goal_cases)
    case (1 x s')
    show ?case
    proof (cases x)
      case True
      then have "gone (t_id (ls_task l)) s'" using retire_gone[OF inv_ok[OF s]] 1(2) by simp
      then show ?thesis using True 1(1) by (simp add: pwp_complete completeI)
    qed (use 1 that in simp)
  qed (use that in \<open>auto simp: wrapped\<close>)
  have retried: "pwp (retry_lease env c l e) (\<lambda>_. lease_end h g l) ?E (inv h g) s"
    unfolding retry_lease_def Let_def pwp_simps pwp_read
    by (rule frame_callI[OF mark_retry s]) (auto simp: wrapped dest: mark_retry_gone[OF inv_ok[OF s]] intro: completeI)
  have buried: "pwp (bury_lease env c l e) (\<lambda>_. lease_end h g l) ?E (inv h g) s"
    unfolding bury_lease_def pwp_simps pwp_read
  proof (rule frame_callI[OF mark_dead s], goal_cases)
    case (1 x s')
    note gone = mark_dead_gone[OF inv_ok[OF s] 1(2)]
    show ?case
    proof (cases "wk_record_dead env")
      case None
      then show ?thesis using 1 gone by (simp add: completeI)
    next
      case (Some rd)
      show ?thesis unfolding Some option.case pwp_simps
        by (rule frame_callI[OF record_dead[OF Some] 1(1)])
          (auto simp: wrapped intro: completeI dest: record_dead_gone[OF Some inv_ok[OF 1(1)] _ gone])
    qed
  qed (auto simp: wrapped)
  show ?thesis using s retired retried buried by (simp add: settle_failure_def Let_def fatal)
qed

theorem handle_leaseI:
  assumes s: "inv h g s"
  shows "pwp (handle_lease env c l) (\<lambda>_ s'. lease_end h g l s' \<or> inv h g s' \<and> wk_cancelled env s')
    (\<lambda>e s'. inv h g s' \<and> (classify (pc_windows c) (Some e) = Fatal \<or>
       is_leaf e (StoreFailure ErrStaleGeneration) \<or> is_leaf e (StoreFailure ErrPathOwnership))) (inv h g) s"
  unfolding handle_lease_def pwp_bind pwp_attempt
  by (rule pwp_mono[OF settlesD[OF settles_process_lease s]])
    (auto simp: pwp_simps completeI intro: pwp_mono[OF settle_failureI])

end

end
