(* ===== verification/Worker_Store.thy ===== *)
theory Worker_Store
  imports Worker_Laws Commit_Store Io_Properties Store_Vectors_Laws
begin

text \<open>
  The worker over the store with its vector tables, the IO stage and the commit writer: one world of which
  the interface \<open>lease_world\<close> is discharged.  What lies outside the repository (extractors, image codec, the
  compute service, the approximate index, the filesystem) answers through \<open>node_ports\<close>.
\<close>

section \<open>The world\<close>

record 'i node =
  nd_store :: vdb
  nd_engine :: "'i engine"
  nd_io :: io_state
  nd_completed :: "lease list"

record node_ports =
  np_now :: int
  np_io_config :: io_config
  np_answers :: "pipeline_task \<Rightarrow> io_answers"
  np_close :: "app option"
  np_extract :: "string \<Rightarrow> io_result \<Rightarrow> doc answer"
  np_match :: "string \<Rightarrow> string \<Rightarrow> bool"
  np_image :: "io_result \<Rightarrow> frame answer"
  np_embed :: "int \<Rightarrow> frame list \<Rightarrow> embedding list option answer"
  np_projection :: "app option"
  np_text :: text_ports
  np_audit :: "(task \<Rightarrow> dead_letter_info \<Rightarrow> unit answer) option"
  np_cancelled :: bool
  np_random :: random_value

definition on_store :: "(db \<Rightarrow> (store_error + 'a) \<times> db) \<Rightarrow> ('i node, 'a) prog" where
  "on_store f = (\<lambda>s. case f (vd_db (nd_store s)) of
     (Inl e, d) \<Rightarrow> (Failed (Leaf (StoreFailure e)), s\<lparr>nd_store := (nd_store s)\<lparr>vd_db := d\<rparr>\<rparr>)
   | (Inr x, d) \<Rightarrow> (Returned x, s\<lparr>nd_store := (nd_store s)\<lparr>vd_db := d\<rparr>\<rparr>))"

definition reads_store :: "(db \<Rightarrow> store_error + 'a) \<Rightarrow> ('i node, 'a) prog" where
  "reads_store f = on_store (\<lambda>d. (f d, d))"

definition vector_failure :: "vector_error \<Rightarrow> app" where
  "vector_failure e = (case e of VectorStore e \<Rightarrow> Leaf (StoreFailure e) | _ \<Rightarrow> Text ''vectors'')"

text \<open>The durable half of the projector, and then the outcome of the approximate index.\<close>

definition on_vectors :: "app option \<Rightarrow> (vdb \<Rightarrow> (vector_error + 'a) \<times> vdb) \<Rightarrow> ('i node, unit) prog" where
  "on_vectors projection f = (\<lambda>s. case f (nd_store s) of
     (Inl e, v) \<Rightarrow> (Failed (vector_failure e), s\<lparr>nd_store := v\<rparr>)
   | (Inr _, v) \<Rightarrow> ((case projection of None \<Rightarrow> Returned () | Some e \<Rightarrow> Failed e), s\<lparr>nd_store := v\<rparr>))"

definition answers :: "'a answer \<Rightarrow> ('s, 'a) prog" where
  "answers a = (\<lambda>s. (a, s))"

definition stage_io :: "node_ports \<Rightarrow> pipeline_task \<Rightarrow> ('i node, io_result option) prog" where
  "stage_io p t = (\<lambda>s. case process_io (np_io_config p) (np_answers p t) t (nd_io s) of
     (Inl e, io) \<Rightarrow> (Failed e, s\<lparr>nd_io := io\<rparr>) | (Inr r, io) \<Rightarrow> (Returned (Some r), s\<lparr>nd_io := io\<rparr>))"

text \<open>A batch of one request: the writer may take more, with the same answer for each.\<close>

definition commit_now :: "'i native \<Rightarrow> node_ports \<Rightarrow> commit_op \<Rightarrow> ('i node, bool) prog" where
  "commit_now nt p op = (\<lambda>s.
     case validate_commit_op op of
       Some e \<Rightarrow> (Failed e, s)
     | None \<Rightarrow>
         (case flush (text_env nt (np_text p)) [commit_request_of 0 op] \<lparr>tw_db = vd_db (nd_store s), tw_engine = nd_engine s\<rparr> of
            (rs, w) \<Rightarrow>
              ((case rs of (_, Inr old) # _ \<Rightarrow> Returned old | (_, Inl e) # _ \<Rightarrow> Failed e | [] \<Rightarrow> Failed (Leaf ErrWriterStopped)),
               s\<lparr>nd_store := (nd_store s)\<lparr>vd_db := tw_db w\<rparr>, nd_engine := tw_engine w\<rparr>)))"

text \<open>The embedder parks the task when its dependency is down.\<close>

definition embed_or_park :: "node_ports \<Rightarrow> int \<Rightarrow> frame list \<Rightarrow> ('i node, embedding list) prog" where
  "embed_or_park p i frames =
     pr_bind (answers (np_embed p i frames)) (\<lambda>r. case r of
       Some es \<Rightarrow> pr_return es
     | None \<Rightarrow> pr_bind (on_store (mark_waiting_dep (np_now p) i ''compute unavailable'')) (\<lambda>_. pr_fail (Leaf ErrWaiting)))"

definition node_env :: "'i native \<Rightarrow> node_ports \<Rightarrow> 'i node worker_env" where
  "node_env nt p = \<lparr>
     wk_file_by_id = (\<lambda>i. reads_store (\<lambda>d. get_file_by_id d i)),
     wk_file_by_path = (\<lambda>path. reads_store (\<lambda>d. get_file_by_path d path)),
     wk_prepare = (\<lambda>i f. on_store (with_tx (prepare_file_for_task (np_now p) i f))),
     wk_relocate = (\<lambda>i g path. on_store (with_tx (relocate_file i g path))),
     wk_expand = (\<lambda>i. pr_bind (on_store (expand_directory_task (np_now p) i)) (\<lambda>_. pr_return ())),
     wk_mark_done = (\<lambda>i. on_store (mark_done (np_now p) i)),
     wk_retire = (\<lambda>i. on_store (retire_task_if_superseded (np_now p) i)),
     wk_mark_retry = (\<lambda>i due text. on_store (mark_retry (np_now p) i due text)),
     wk_mark_dead = (\<lambda>i info. on_store (mark_dead (np_now p) i info)),
     wk_io = stage_io p,
     wk_close = (\<lambda>r s. (np_close p, s\<lparr>nd_io := snd (close_result r (nd_io s))\<rparr>)),
     wk_extract = (\<lambda>path r. answers (np_extract p path r)),
     wk_submit = commit_now nt p,
     wk_document = (\<lambda>i s. case get_file_document nt None i (nd_engine s) of Inl e \<Rightarrow> (Failed e, s) | Inr d \<Rightarrow> (Returned d, s)),
     wk_match_image = np_match p,
     wk_image = (\<lambda>r. answers (np_image p r)),
     wk_embed = embed_or_park p,
     wk_replace = (\<lambda>i g vs. on_vectors (np_projection p)
       (replace_vectors_for_file_and_version (np_now p) i g (case vs of [] \<Rightarrow> [] | v # _ \<Rightarrow> vc_model v) vs)),
     wk_delete = (\<lambda>i g. on_vectors (np_projection p) (delete_vectors_for_file (np_now p) i g)),
     wk_record_dead = map_option (\<lambda>f t info. answers (f t info)) (np_audit p),
     wk_complete = (\<lambda>l s. s\<lparr>nd_completed := nd_completed s @ [l]\<rparr>),
     wk_cancelled = (\<lambda>s. np_cancelled p),
     wk_now = (\<lambda>s. np_now p),
     wk_random = (\<lambda>s. np_random p),
     wk_model_version = None\<rparr>"

text \<open>No collaborator but the embedder answers that a task waits, and other writers keep the tables well-formed.\<close>

definition quiet_answer :: "'a answer \<Rightarrow> bool" where
  "quiet_answer a \<longleftrightarrow> (case a of Failed e \<Rightarrow> \<not> waiting e | _ \<Rightarrow> True)"

definition quiet_result :: "app + 'a \<Rightarrow> bool" where
  "quiet_result r \<longleftrightarrow> (case r of Inl e \<Rightarrow> \<not> waiting e | _ \<Rightarrow> True)"

definition quiet_option :: "app option \<Rightarrow> bool" where
  "quiet_option r \<longleftrightarrow> (case r of Some e \<Rightarrow> \<not> waiting e | _ \<Rightarrow> True)"

definition quiet_answers :: "io_answers \<Rightarrow> bool" where
  "quiet_answers a \<longleftrightarrow> list_all quiet_option [ia_task_slot a, ia_settle a, ia_byte_slot a, ia_open a, ia_close a, ia_seek a] \<and>
     quiet_result (ia_lstat a) \<and> quiet_result (ia_relstat a) \<and> quiet_result (ia_stat a) \<and> quiet_result (ia_hash a) \<and>
     quiet_result (ia_restat a) \<and> (\<forall>n. quiet_result (ia_read a n))"

definition quiet_native :: "'i native \<Rightarrow> bool" where
  "quiet_native nt \<longleftrightarrow> (\<forall>docs f ids i. quiet_option (fst (nt_commit nt docs f ids i))) \<and>
     (\<forall>f v n i. quiet_result (nt_lookup nt f v n i))"

definition quiet_text :: "text_ports \<Rightarrow> bool" where
  "quiet_text p \<longleftrightarrow> (\<forall>d. quiet_option (tp_read_error p d)) \<and> quiet_option (tp_before p) \<and> quiet_option (tp_after p) \<and>
     (\<forall>d. db_wf d \<longrightarrow> db_wf (tp_meanwhile p d))"

definition fair_node :: "'i native \<Rightarrow> node_ports \<Rightarrow> bool" where
  "fair_node nt p \<longleftrightarrow> quiet_native nt \<and> (\<forall>t. quiet_answers (np_answers p t)) \<and> quiet_option (np_close p) \<and>
     (\<forall>path r. quiet_answer (np_extract p path r)) \<and> (\<forall>r. quiet_answer (np_image p r)) \<and>
     (\<forall>i fs. quiet_answer (np_embed p i fs)) \<and> quiet_option (np_projection p) \<and> quiet_text (np_text p) \<and>
     (\<forall>f t info. np_audit p = Some f \<longrightarrow> quiet_answer (f t info))"

section \<open>Exits of the store\<close>

lemma not_leased: "db_wf db \<Longrightarrow> u \<in> set (db_tasks db) \<Longrightarrow> t_state u \<noteq> TaskStateInFlight \<Longrightarrow> t_id u \<notin> leased_ids db"
  by (auto simp: leased_ids_def db_wf_def dest: tasks_wf_id)

lemma exit_not_leased:
  assumes "db_wf db" "with_tx body db = (Inr x, db')"
    and "wp body (\<lambda>x db'. tx_inv db db' \<and> (P x \<longrightarrow> (\<exists>u\<in>set (db_tasks db'). t_id u = i \<and> t_state u \<noteq> TaskStateInFlight))) (\<lambda>_. True) db"
    and "P x"
  shows "i \<notin> leased_ids db'"
proof -
  have "tx_inv db db' \<and> (P x \<longrightarrow> (\<exists>u\<in>set (db_tasks db'). t_id u = i \<and> t_state u \<noteq> TaskStateInFlight))"
    using with_tx_post[OF assms(3), of x] assms(2) by simp
  then show ?thesis using assms(4) not_leased by (auto simp: tx_inv_def)
qed

lemma leftI: "u \<in> set us \<Longrightarrow> t_id u = i \<Longrightarrow> t_state u = st \<Longrightarrow> st \<noteq> TaskStateInFlight \<Longrightarrow>
    \<exists>u\<in>set us. t_id u = i \<and> t_state u \<noteq> TaskStateInFlight"
  by auto

lemma transition_left: "transition ts t t' us \<Longrightarrow> t_state t' \<noteq> TaskStateInFlight \<Longrightarrow> \<exists>u\<in>set us. t_id u = t_id t \<and> t_state u \<noteq> TaskStateInFlight"
  by (auto simp: transition_def)

lemma exits_left:
  assumes w: "db_wf db"
  shows "mark_done now i db = (Inr u, db') \<Longrightarrow> i \<notin> leased_ids db'"
    and "mark_retry now i due err db = (Inr u, db') \<Longrightarrow> i \<notin> leased_ids db'"
    and "mark_dead now i info db = (Inr u, db') \<Longrightarrow> i \<notin> leased_ids db'"
    and "retire_task_if_superseded now i db = (Inr True, db') \<Longrightarrow> i \<notin> leased_ids db'"
    and "expand_directory_task now i db = (Inr x, db') \<Longrightarrow> i \<notin> leased_ids db'"
    and "mark_waiting_dep now i err db = (Inr u, db') \<Longrightarrow> i \<notin> leased_ids db'"
proof -
  note left = exit_not_leased[OF w, where P = "\<lambda>_. True", OF _ _ TrueI]
  note inv = inv_refl[OF w]
  show "i \<notin> leased_ids db'" if "mark_done now i db = (Inr u, db')"
    by (rule left[OF that[unfolded mark_done_def]]) (rule wp_mark_done_tx[OF inv], auto dest: transition_left)
  show "i \<notin> leased_ids db'" if "mark_retry now i due err db = (Inr u, db')"
    by (rule left[OF that[unfolded mark_retry_def]]) (rule wp_mark_retry_tx[OF inv], auto dest: transition_left)
  show "i \<notin> leased_ids db'" if "mark_dead now i info db = (Inr u, db')"
  proof (rule left)
    show "with_tx (mark_dead_tx now i info audit_source_pipeline) db = (Inr u, db')"
      using that by (simp add: mark_dead_def mark_dead_with_source_def split: if_splits)
  qed (rule wp_mark_dead_tx[OF inv], auto simp: died_def intro: leftI)
  show "i \<notin> leased_ids db'" if "retire_task_if_superseded now i db = (Inr True, db')"
    by (rule exit_not_leased[OF w that[unfolded retire_task_if_superseded_def], where P = "\<lambda>x. x", OF _ TrueI])
      (rule wp_retire_task_if_superseded_tx[OF inv], auto intro: leftI)
  show "i \<notin> leased_ids db'" if "expand_directory_task now i db = (Inr x, db')"
  proof (rule left)
    show "with_tx (expand_directory_task_tx now i) db = (Inr x, db')"
      using that by (simp add: expand_directory_task_def split: if_splits)
  qed (rule wp_expand_directory_task_tx[OF inv], auto simp: expanded_def intro: leftI)
  show "i \<notin> leased_ids db'" if "mark_waiting_dep now i err db = (Inr u, db')"
  proof (rule left)
    show "with_tx (mark_waiting_dep_batch_tx now [i] err) db = (Inr u, db')"
      using that by (simp add: mark_waiting_dep_def mark_waiting_dep_batch_def split: sum.splits if_splits)
  qed (rule wp_mark_waiting_dep_batch_tx[OF inv], auto intro: leftI)
qed

section \<open>Well-formed tables\<close>

lemma store_wf: "db_wf db \<Longrightarrow> admissible op \<Longrightarrow> db_wf (snd (run_op op db))"
  using run_op_safe by (auto simp: safe_result_def)

lemma store_calls_wf:
  assumes "db_wf db"
  shows "db_wf (snd (with_tx (prepare_file_for_task now i f) db))" "db_wf (snd (with_tx (relocate_file i g p) db))"
    "db_wf (snd (expand_directory_task now i db))" "db_wf (snd (mark_done now i db))"
    "db_wf (snd (retire_task_if_superseded now i db))" "db_wf (snd (mark_retry now i due err db))"
    "db_wf (snd (mark_dead now i info db))" "db_wf (snd (mark_waiting_dep now i err db))"
    "db_wf (snd (complete_committed_batch now items db))"
  using store_wf[OF assms, of "OpPrepareFile now i f"] store_wf[OF assms, of "OpRelocateFile i g p"]
    store_wf[OF assms, of "OpExpandDirectoryTask now i"] store_wf[OF assms, of "OpMarkDone now i"]
    store_wf[OF assms, of "OpRetireIfSuperseded now i"] store_wf[OF assms, of "OpMarkRetry now i due err"]
    store_wf[OF assms, of "OpMarkDead now i info audit_source_pipeline"] store_wf[OF assms, of "OpMarkWaitingDepBatch now [i] err"]
    store_wf[OF assms, of "OpCompleteCommittedBatch now items"]
  by (simp_all add: admissible_def Store_System.outcome_def mark_dead_def mark_waiting_dep_def)

lemma update_files_wf:
  assumes "db_wf db" "\<And>f. f_id (h f) = f_id f \<and> f_path_key (h f) = f_path_key f" "\<And>f. file_ok f \<Longrightarrow> file_ok (h f)"
  shows "wp (update_files p h) (\<lambda>_. db_wf) (\<lambda>_. True) db"
  using assms by (auto simp: wp_simps db_wf_def intro!: files_wf_update_frame dest: bspec simp: files_wf_def[of "db_files db"])

lemma keeps_db: "(\<And>v. vd_db (f v) = vd_db v) \<Longrightarrow> keeps (\<lambda>v. db_wf (vd_db v)) (tx_modify f)"
  by (intro keeps_modify) simp

lemma keeps_on_db_wf: "(\<And>d. db_wf d \<Longrightarrow> wp m (\<lambda>_. db_wf) (\<lambda>_. True) d) \<Longrightarrow> keeps (\<lambda>v. db_wf (vd_db v)) (on_db m)"
  by (fastforce simp: keeps_def wp_def on_db_def split: sum.splits)

lemma vectors_keep_wf:
  fixes I defines "I \<equiv> \<lambda>v. db_wf (vd_db v)"
  shows "keeps I (replace_vectors_body now i g vs)" "keeps I (delete_file_vectors now i)" "keeps I (set_file_model i g' m)"
    "keeps I (require_current_generation_tx i g)" "keeps I (on_db (require_changed n))"
proof -
  have fold: "vd_db (fold (\<lambda>r. append_change (f r)) rows v) = vd_db v" for f rows v
    by (induction rows arbitrary: v) (simp_all add: append_change_def)
  show delete: "keeps I (delete_file_vectors now i)"
    unfolding delete_file_vectors_def I_def by (intro keeps_intros keeps_db) (simp add: fold)
  show "keeps I (set_file_model i g' m)"
    unfolding set_file_model_def I_def by (intro keeps_on_db_wf update_files_wf) (auto simp: file_ok_def)
  have find: "wp (find_file q) (\<lambda>_. db_wf) (\<lambda>_. True) d" if "db_wf d" for q d using that by (simp add: find_file_def wp_simps)
  show gen: "keeps I (require_current_generation_tx i g)"
    unfolding require_current_generation_tx_def I_def by (intro keeps_intros keeps_on_db_wf find)
  show "keeps I (on_db (require_changed n))"
    unfolding I_def by (intro keeps_on_db_wf) (simp add: require_changed_def wp_simps)
  have contract: "keeps I (require_embed_model_contract_tx m d)" for m d
    unfolding require_embed_model_contract_tx_def establish_contract_def I_def by (intro keeps_intros keeps_db) simp_all
  have upsert: "keeps I (upsert_vector now v)" for v
    unfolding upsert_vector_def I_def by (intro keeps_db) (auto simp: Let_def append_change_def split: option.splits)
  show "keeps I (replace_vectors_body now i g vs)"
    unfolding replace_vectors_body_def require_vector_contracts_tx_def replace_vectors_tx_def put_vector_tx_def
    by (intro keeps_intros keeps_each gen contract delete upsert)
qed

section \<open>The IO stage\<close>

definition quiet_io :: "'a io \<Rightarrow> bool" where
  "quiet_io m \<longleftrightarrow> (\<forall>s. case m s of (Inl (Inl e), _) \<Rightarrow> \<not> waiting e | _ \<Rightarrow> True)"

lemma quiet_io_parts:
  "quiet_io (io_return (Inr r))" "quiet_io (io_do f)" "quiet_io (io_fail e)" "quiet_io (\<lambda>s. (Inr x, s))"
  "quiet_option q \<Longrightarrow> quiet_io (io_try w q)" "quiet_result g \<Longrightarrow> quiet_io (io_get w g)"
  "\<not> waiting e' \<Longrightarrow> quiet_io (io_return (Inl e'))"
  by (auto simp: quiet_io_def io_return_def io_do_def io_fail_def io_try_def io_get_def quiet_option_def quiet_result_def
      split: option.splits sum.splits)

lemma quiet_io_bind: "quiet_io m \<Longrightarrow> (\<And>x. quiet_io (f x)) \<Longrightarrow> quiet_io (io_bind m f)"
  by (fastforce simp: quiet_io_def io_bind_def split: prod.splits sum.splits)

lemma quiet_io_if: "(b \<Longrightarrow> quiet_io m) \<Longrightarrow> (\<not> b \<Longrightarrow> quiet_io n) \<Longrightarrow> quiet_io (if b then m else n)"
  by simp

lemmas quiet_io_intros = quiet_io_parts quiet_io_bind quiet_io_if

lemma quiet_terminal: "quiet_io (terminal a outc op meta)"
  unfolding terminal_def by (intro quiet_io_intros)

lemma quiet_lstat: "quiet_result r \<Longrightarrow> quiet_io (lstat_or_gone a what path r)"
  using quiet_terminal
  by (cases r) (auto simp: lstat_or_gone_def quiet_result_def intro!: quiet_io_parts(7) quiet_io_parts(4))

lemma quiet_process_body:
  assumes "quiet_answers a"
  shows "quiet_io (process_body c a t)"
proof -
  have q: "quiet_option (ia_task_slot a)" "quiet_option (ia_settle a)" "quiet_option (ia_byte_slot a)" "quiet_option (ia_open a)"
    "quiet_option (ia_close a)" "quiet_option (ia_seek a)" "quiet_result (ia_lstat a)" "quiet_result (ia_relstat a)"
    "quiet_result (ia_stat a)" "quiet_result (ia_hash a)" "quiet_result (ia_restat a)" "\<And>n. quiet_result (ia_read a n)"
    using assms by (simp_all add: quiet_answers_def)
  have sniff: "quiet_result (read_sniff a n m)" for n m
    using q(12) by (auto simp: read_sniff_def Let_def quiet_result_def)
  have first: "quiet_io (first_look a t)"
    unfolding first_look_def Let_def by (intro quiet_io_intros quiet_lstat quiet_terminal q)
  have second: "quiet_io (second_look c a t first)" for first
    unfolding second_look_def Let_def by (intro quiet_io_intros quiet_lstat q)
  have hash: "quiet_io (open_and_hash c a t meta)" for meta
    unfolding open_and_hash_def Let_def by (intro quiet_io_intros q)
  have close: "quiet_io (close_and_end a what outc op meta)" for what outc op meta
    unfolding close_and_end_def by (intro quiet_io_intros quiet_terminal q)
  have decide: "quiet_io (decide c a t op meta)" for op meta
    unfolding decide_def hand_over_def Let_def by (intro quiet_io_intros close sniff q)
  show ?thesis
    unfolding process_body_def
    by (intro quiet_io_intros q) (auto intro!: quiet_io_intros first second hash decide quiet_terminal split: prod.splits)
qed

text \<open>A counter of the stage and the part of it that a result keeps.\<close>

datatype counter = Tasks | Bytes | Files

definition count_of :: "counter \<Rightarrow> io_state \<Rightarrow> int" where
  "count_of k s = (case k of Tasks \<Rightarrow> st_tasks s | Bytes \<Rightarrow> st_bytes s | Files \<Rightarrow> st_files s)"

definition kept_by :: "counter \<Rightarrow> io_result \<Rightarrow> int" where
  "kept_by k r = (case ir_held r of None \<Rightarrow> 0 | Some w \<Rightarrow> (case k of Bytes \<Rightarrow> w | _ \<Rightarrow> 1))"

lemma process_io_counts:
  assumes "idle s" "process_io c a t s = (r, s')"
  shows "idle s'" "count_of k s' = count_of k s + (case r of Inl _ \<Rightarrow> 0 | Inr x \<Rightarrow> kept_by k x)"
    "r = Inr x \<Longrightarrow> ir_outcome x \<noteq> OutcomeExtract \<Longrightarrow> ir_held x = None"
proof -
  obtain s1 where b: "process_body c a t s = (Inl r, s1)" "s' = deferred s1"
    using wp_process_body[OF assms(1), of c a t] assms(2)
    by (auto simp: process_io_def io_wp_def split: sum.splits prod.splits)
  have p: "balanced s r s1" "justified c a t r"
    using wp_process_body[OF assms(1), of c a t] b(1) by (simp_all add: io_wp_def io_post_def)
  show "idle s'" "count_of k s' = count_of k s + (case r of Inl _ \<Rightarrow> 0 | Inr x \<Rightarrow> kept_by k x)"
    using p(1) unfolding b(2)
    by (cases r; cases k; auto simp: balanced_def flagged_def deferred_def Let_def idle_def count_of_def kept_by_def split: option.splits)+
  show "r = Inr x \<Longrightarrow> ir_outcome x \<noteq> OutcomeExtract \<Longrightarrow> ir_held x = None" using p(2) by simp
qed

lemma process_io_quiet: "quiet_answers a \<Longrightarrow> process_io c a t s = (Inl e, s') \<Longrightarrow> \<not> waiting e"
  using quiet_process_body[of a c t] by (auto simp: process_io_def quiet_io_def split: prod.splits sum.splits)

lemma close_counts: "count_of k (snd (close_result r s)) = count_of k s - kept_by k r" "idle s \<Longrightarrow> idle (snd (close_result r s))"
  by (cases k; auto simp: close_result_def count_of_def kept_by_def idle_def split: option.splits)+

section \<open>The commit writer\<close>

lemma record_committed_wf: "db_wf db \<Longrightarrow> db_wf (snd (record_committed now rs db))"
  using store_calls_wf(9) by (auto simp: record_committed_def split: sum.splits prod.splits) (metis snd_conv)+

lemma collect_mutations_quiet: "collect_mutations ms = Inl e \<Longrightarrow> \<not> waiting e"
proof (induction ms)
  case (Cons m ms)
  then show ?case by (cases "collect_mutations ms") (auto split: if_splits mutation_kind.splits option.splits)
qed simp

lemma engine_apply_quiet:
  assumes "quiet_native nt" "quiet_option x" "quiet_option y" "engine_apply nt x y ms e = (r, e')"
  shows "quiet_option r"
proof -
  have "quiet_option (fst (nt_commit nt docs f ids i))" for docs f ids i using assms(1) by (simp add: quiet_native_def)
  then have n: "nt_commit nt docs f ids i = (Some err, i') \<Longrightarrow> \<not> waiting err" for docs f ids i i' err
    by (metis fst_conv option.simps(5) quiet_option_def)
  show ?thesis using assms(2-4)
    by (auto simp: engine_apply_def quiet_option_def split: option.splits if_splits sum.splits prod.splits
        dest: collect_mutations_quiet n)
qed

lemma validate_commit_quiet: "validate_commit_op op = Some e \<Longrightarrow> \<not> waiting e"
  by (auto simp: validate_commit_op_def validate_mutation_def split: if_splits mutation_kind.splits option.splits)

lemma record_committed_quiet: "record_committed now rs db = (Some e, db') \<Longrightarrow> \<not> waiting e"
proof -
  have c: "committed_tasks now rs = Inl e' \<Longrightarrow> \<not> waiting e'" for e'
  proof (induction rs)
    case (Cons r rs)
    then show ?case
      by (cases "committed_tasks now rs") (auto simp: committed_task_of_def Let_def split: sum.splits mutation_kind.splits)
  qed simp
  show "record_committed now rs db = (Some e, db') \<Longrightarrow> \<not> waiting e"
    using c by (auto simp: record_committed_def split: sum.splits prod.splits)
qed

text \<open>A flush of one recorded request.\<close>

lemma flush_one:
  assumes nt: "quiet_native nt" and p: "quiet_text p" and wf: "db_wf (tw_db w)" and r: "cq_record r"
    and f: "flush (text_env nt p) [r] w = (rs, w')"
  shows "db_wf (tw_db w') \<and> (\<exists>a. rs = [(cq_id r, a)] \<and>
    (case a of Inl e \<Rightarrow> \<not> waiting e | Inr _ \<Rightarrow> cq_task_id r \<notin> leased_ids (tw_db w')))"
proof (cases "tp_read_error p (tw_db w)")
  case (Some e)
  moreover from Some have "\<not> waiting e" using p by (metis option.simps(5) quiet_option_def quiet_text_def)
  ultimately show ?thesis using f wf by (auto simp: flush_def text_env_def finish_all_def)
next
  case None
  define current where "current = current_generations (tw_db w) (request_files [r])"
  obtain e w1 where a: "(if batch_mutations current [r] \<noteq> [] then we_apply (text_env nt p) (batch_mutations current [r]) w else (None, w)) = (e, w1)"
    by fastforce
  have w1: "db_wf (tw_db w1)" "quiet_option e"
    using a wf p engine_apply_quiet[OF nt, of "tp_before p" "tp_after p"]
    by (auto simp: text_env_def quiet_text_def quiet_option_def split: if_splits prod.splits)
  have rec: "receipts current [r] = [receipt_of current r]" using r by (simp add: receipts_def)
  obtain e' d where d: "record_committed (tp_now p) [receipt_of current r] (tw_db w1) = (e', d)" by fastforce
  have w2: "db_wf d" using record_committed_wf[OF w1(1)] d by (metis snd_conv)
  have gone: "cq_task_id r \<notin> leased_ids d" if "e' = None"
    using record_committed_leased[OF w1(1) d] that by (auto simp: receipt_of_def)
  have "flush (text_env nt p) [r] w = (case e of
      Some e \<Rightarrow> ([(cq_id r, Inl e)], w1)
    | None \<Rightarrow> (case e' of Some e' \<Rightarrow> ([(cq_id r, Inl (Wrapped ''record committed batch'' e'))], w1\<lparr>tw_db := d\<rparr>)
        | None \<Rightarrow> ([(cq_id r, Inr (stale current r))], w1\<lparr>tw_db := d\<rparr>)))"
  proof -
    have gens: "we_generations (text_env nt p) (request_files [r]) w = Inr current" using None by (simp add: text_env_def current_def)
    have recd: "we_record (text_env nt p) (receipts current [r]) w1 = (e', w1\<lparr>tw_db := d\<rparr>)" using d by (simp add: text_env_def rec)
    show ?thesis unfolding flush_def gens sum.case Let_def a prod.case
      using recd rec r by (auto simp: finish_all_def record_failed_def split: option.splits)
  qed
  then show ?thesis using f w1 w2 gone record_committed_quiet[of "tp_now p" "[receipt_of current r]" "tw_db w1"] d
    by (auto simp: quiet_option_def split: option.splits)
qed

lemma commit_now_laws:
  assumes p: "fair_node nt p" and wf: "db_wf (vd_db (nd_store s))" and c: "commit_now nt p op s = (a, s')"
  shows "db_wf (vd_db (nd_store s')) \<and> nd_io s' = nd_io s \<and> nd_completed s' = nd_completed s \<and>
    (case a of Returned _ \<Rightarrow> co_task_id op \<notin> leased_ids (vd_db (nd_store s')) | Failed e \<Rightarrow> \<not> waiting e | Panicked \<Rightarrow> False)"
proof (cases "validate_commit_op op")
  case (Some e)
  then show ?thesis using c wf validate_commit_quiet by (auto simp: commit_now_def)
next
  case None
  let ?w = "\<lparr>tw_db = vd_db (nd_store s), tw_engine = nd_engine s\<rparr>"
  obtain rs w' where f: "flush (text_env nt (np_text p)) [commit_request_of 0 op] ?w = (rs, w')" by fastforce
  have "quiet_native nt" "quiet_text (np_text p)" using p by (simp_all add: fair_node_def)
  moreover have "db_wf (tw_db ?w)" "cq_record (commit_request_of 0 op)" using wf by (simp_all add: commit_request_of_def)
  ultimately obtain x where x: "db_wf (tw_db w')" "rs = [(cq_id (commit_request_of 0 op), x)]"
      "case x of Inl e \<Rightarrow> \<not> waiting e | Inr _ \<Rightarrow> cq_task_id (commit_request_of 0 op) \<notin> leased_ids (tw_db w')"
    using flush_one[OF _ _ _ _ f] by blast
  have "cq_task_id (commit_request_of 0 op) = co_task_id op" by (simp add: commit_request_of_def)
  note x = x[unfolded this]
  show ?thesis using c f x None by (cases x) (auto simp: commit_now_def)
qed

section \<open>The interface is provided\<close>

definition node_ok :: "'i node \<Rightarrow> bool" where
  "node_ok s \<longleftrightarrow> db_wf (vd_db (nd_store s)) \<and> idle (nd_io s)"

lemma frame_on_store:
  assumes "\<And>d. db_wf d \<Longrightarrow> db_wf (snd (f d))"
  shows "frame_call node_ok (\<lambda>s. count_of k (nd_io s)) nd_completed (on_store f)"
  unfolding frame_call_def
proof (intro allI impI)
  fix s assume "node_ok s"
  then show "case on_store f s of (a, s') \<Rightarrow> node_ok s' \<and> count_of k (nd_io s') = count_of k (nd_io s) \<and>
      nd_completed s' = nd_completed s \<and> (\<forall>e. a = Failed e \<longrightarrow> \<not> waiting e)"
    using assms[of "vd_db (nd_store s)"] by (auto simp: on_store_def node_ok_def split: prod.splits sum.splits)
qed

lemma frame_answers: "quiet_answer a \<Longrightarrow> frame_call ok held ended (answers a)"
  by (auto simp: frame_call_def answers_def quiet_answer_def)

lemma frame_on_vectors:
  assumes "\<And>v. db_wf (vd_db v) \<Longrightarrow> db_wf (vd_db (snd (f v)))" "quiet_option q"
  shows "frame_call node_ok (\<lambda>s. count_of k (nd_io s)) nd_completed (on_vectors q f)"
  unfolding frame_call_def
proof (intro allI impI)
  fix s assume "node_ok s"
  then show "case on_vectors q f s of (a, s') \<Rightarrow> node_ok s' \<and> count_of k (nd_io s') = count_of k (nd_io s) \<and>
      nd_completed s' = nd_completed s \<and> (\<forall>e. a = Failed e \<longrightarrow> \<not> waiting e)"
    using assms(1)[of "nd_store s"] assms(2)
    by (auto simp: on_vectors_def node_ok_def vector_failure_def quiet_option_def split: prod.splits sum.splits option.splits vector_error.splits)
qed

lemma vector_calls_wf:
  assumes "db_wf (vd_db v)"
  shows "db_wf (vd_db (snd (replace_vectors_for_file_and_version now i g m vs v)))" "db_wf (vd_db (snd (delete_vectors_for_file now i g v)))"
proof -
  note k = vectors_keep_wf
  have "keeps (\<lambda>v. db_wf (vd_db v)) (tx_bind (replace_vectors_body now i g vs) (\<lambda>_. tx_bind (set_file_model i (Some g) (Some m)) (\<lambda>n. on_db (require_changed n))))"
    by (intro keeps_intros k)
  from keeps_with_tx[OF this assms] show "db_wf (vd_db (snd (replace_vectors_for_file_and_version now i g m vs v)))"
    using assms by (simp add: replace_vectors_for_file_and_version_def split: sum.splits)
  have "keeps (\<lambda>v. db_wf (vd_db v)) (tx_bind (require_current_generation_tx i g) (\<lambda>_. tx_bind (delete_file_vectors now i) (\<lambda>count.
      tx_bind (set_file_model i (Some g) None) (\<lambda>_. tx_return count))))"
    by (intro keeps_intros k)
  from keeps_with_tx[OF this assms] show "db_wf (vd_db (snd (delete_vectors_for_file now i g v)))"
    using assms by (simp add: delete_vectors_for_file_def)
qed

lemma get_document_quiet:
  assumes "quiet_native nt" "get_file_document nt None i e = Inl err"
  shows "\<not> waiting err"
proof -
  have decode: "decode_keyword_hit d sc = Inl x \<Longrightarrow> \<not> waiting x" for d sc x
    by (auto simp: decode_keyword_hit_def split: option.splits)
  have first: "first_file i ds = Inl x \<Longrightarrow> \<not> waiting x" for ds x
    by (induction ds) (auto split: sum.splits if_splits dest: decode)
  have "quiet_result (nt_lookup nt f v n x)" for f v n x using assms(1) by (simp add: quiet_native_def)
  then have "nt_lookup nt f v n x = Inl y \<Longrightarrow> \<not> waiting y" for f v n x y by (metis quiet_result_def sum.case(1))
  then show ?thesis using assms(2) first by (auto simp: get_file_document_def split: if_splits sum.splits)
qed

lemma on_store_left:
  assumes "on_store f s = (Returned x, s')" "node_ok s" "\<And>d d'. db_wf d \<Longrightarrow> f d = (Inr x, d') \<Longrightarrow> i \<notin> leased_ids d'"
  shows "i \<notin> leased_ids (vd_db (nd_store s'))"
proof -
  obtain r d where r: "f (vd_db (nd_store s)) = (r, d)" by fastforce
  then have "r = Inr x" "vd_db (nd_store s') = d" using assms(1) by (auto simp: on_store_def split: sum.splits)
  moreover from this have "i \<notin> leased_ids d" using assms(2) r by (intro assms(3)) (auto simp: node_ok_def)
  ultimately show ?thesis by simp
qed

lemma frame_ignore: "frame_call ok held ended m \<Longrightarrow> frame_call ok held ended (pr_bind m (\<lambda>_. pr_return ()))"
  unfolding frame_call_def
proof (intro allI impI)
  fix s assume "\<forall>s. ok s \<longrightarrow> (case m s of (a, s') \<Rightarrow> ok s' \<and> held s' = held s \<and> ended s' = ended s \<and> (\<forall>e. a = Failed e \<longrightarrow> \<not> waiting e))" "ok s"
  moreover obtain a s' where "m s = (a, s')" by fastforce
  ultimately show "case pr_bind m (\<lambda>_. pr_return ()) s of (a, s') \<Rightarrow>
      ok s' \<and> held s' = held s \<and> ended s' = ended s \<and> (\<forall>e. a = Failed e \<longrightarrow> \<not> waiting e)"
    by (cases a) (auto simp: pr_bind_def pr_return_def dest!: spec[of _ s])
qed

lemma node_lease_world:
  fixes nt :: "'i native"
  assumes p: "fair_node nt p"
  shows "lease_world (node_env nt p) node_ok (\<lambda>i s. i \<notin> leased_ids (vd_db (nd_store s))) (\<lambda>s. count_of k (nd_io s)) (kept_by k) nd_completed"
proof -
  let ?f = "frame_call node_ok (\<lambda>s. count_of k (nd_io s)) nd_completed"
  have q: "quiet_native nt" "\<And>t. quiet_answers (np_answers p t)" "quiet_option (np_close p)" "\<And>path r. quiet_answer (np_extract p path r)"
    "\<And>r. quiet_answer (np_image p r)" "\<And>i fs. quiet_answer (np_embed p i fs)" "quiet_option (np_projection p)" "quiet_text (np_text p)"
    "\<And>f t info. np_audit p = Some f \<Longrightarrow> quiet_answer (f t info)"
    using p by (simp_all add: fair_node_def)
  note calls = frame_on_store store_calls_wf
  show ?thesis
  proof (unfold_locales, goal_cases)
    case (1 i) show ?case by (simp add: node_env_def reads_store_def frame_on_store)
  next
    case (2 path) show ?case by (simp add: node_env_def reads_store_def frame_on_store)
  next
    case (3 i f) show ?case by (simp add: node_env_def calls)
  next
    case (4 i g path) show ?case by (simp add: node_env_def calls)
  next
    case (5 i) show ?case by (simp add: node_env_def calls frame_ignore)
  next
    case (6 i) show ?case by (simp add: node_env_def calls)
  next
    case (7 i) show ?case by (simp add: node_env_def calls)
  next
    case (8 i due msg) show ?case by (simp add: node_env_def calls)
  next
    case (9 i info) show ?case by (simp add: node_env_def calls)
  next
    case (10 path r) show ?case by (simp add: node_env_def frame_answers q)
  next
    case (11 op)
    show ?case unfolding frame_call_def
    proof (intro allI impI)
      fix s :: "'i node" assume s: "node_ok s"
      obtain a s' where a: "commit_now nt p op s = (a, s')" by fastforce
      show "case wk_submit (node_env nt p) op s of (a, s') \<Rightarrow> node_ok s' \<and> count_of k (nd_io s') = count_of k (nd_io s) \<and>
          nd_completed s' = nd_completed s \<and> (\<forall>e. a = Failed e \<longrightarrow> \<not> waiting e)"
        using commit_now_laws[OF p _ a] s a by (auto simp: node_env_def node_ok_def)
    qed
  next
    case (12 i)
    show ?case by (auto simp: node_env_def frame_call_def dest: get_document_quiet[OF q(1)] split: sum.splits)
  next
    case (13 r) show ?case by (simp add: node_env_def frame_answers q)
  next
    case (14 i g vs) show ?case by (simp add: node_env_def frame_on_vectors vector_calls_wf q)
  next
    case (15 i g) show ?case by (simp add: node_env_def frame_on_vectors vector_calls_wf q)
  next
    case (16 rec t info) then show ?case using q(9) by (auto simp: node_env_def intro: frame_answers)
  next
    case (17 s i u s')
    then obtain x where "on_store (expand_directory_task (np_now p) i) s = (Returned x, s')"
      by (auto simp: node_env_def pr_bind_def pr_return_def split: prod.splits answer.splits)
    then show ?case by (rule on_store_left[OF _ 17(1)]) (rule exits_left(5))
  next
    case (18 s i u s')
    then have "on_store (mark_done (np_now p) i) s = (Returned u, s')" by (simp add: node_env_def)
    then show ?case by (rule on_store_left[OF _ 18(1)]) (rule exits_left(1))
  next
    case (19 s i s')
    then have "on_store (retire_task_if_superseded (np_now p) i) s = (Returned True, s')" by (simp add: node_env_def)
    then show ?case by (rule on_store_left[OF _ 19(1)]) (rule exits_left(4))
  next
    case (20 s i due msg u s')
    then have "on_store (mark_retry (np_now p) i due msg) s = (Returned u, s')" by (simp add: node_env_def)
    then show ?case by (rule on_store_left[OF _ 20(1)]) (rule exits_left(2))
  next
    case (21 s i info u s')
    then have "on_store (mark_dead (np_now p) i info) s = (Returned u, s')" by (simp add: node_env_def)
    then show ?case by (rule on_store_left[OF _ 21(1)]) (rule exits_left(3))
  next
    case (22 s op b s') then show ?case using commit_now_laws[OF p, of s op "Returned b" s'] by (simp add: node_env_def node_ok_def)
  next
    case (23 rec s t info a s' i) then show ?case by (auto simp: node_env_def answers_def)
  next
    case (24 s i fs ea s')
    obtain b d where b: "mark_waiting_dep (np_now p) i ''compute unavailable'' (vd_db (nd_store s)) = (b, d)" by fastforce
    have s: "db_wf (vd_db (nd_store s))" using 24(1) by (simp add: node_ok_def)
    have d: "db_wf d" using store_calls_wf(8)[OF s] b by (metis snd_conv)
    show ?case
    proof (cases "np_embed p i fs")
      case (Failed e)
      then show ?thesis using 24 q(6)[of i fs] by (auto simp: node_env_def embed_or_park_def pr_bind_def answers_def quiet_answer_def)
    next
      case (Returned x)
      then show ?thesis using 24 b d exits_left(6)[OF s]
        by (auto simp: node_env_def embed_or_park_def pr_bind_def answers_def pr_return_def pr_fail_def on_store_def node_ok_def
            split: option.splits sum.splits)
    qed (use 24 in \<open>auto simp: node_env_def embed_or_park_def pr_bind_def answers_def\<close>)
  next
    case (25 s pt ia s')
    obtain r io where r: "process_io (np_io_config p) (np_answers p pt) pt (nd_io s) = (r, io)" by fastforce
    have "idle (nd_io s)" using 25(1) by (simp add: node_ok_def)
    note l = process_io_counts[OF this r] process_io_quiet[OF q(2)]
    show ?case using 25 r l by (cases r) (auto simp: node_env_def stage_io_def node_ok_def kept_by_def)
  next
    case (26 s r q' s')
    then show ?case using close_counts(1)[of k r "nd_io s"] close_counts(2)[of "nd_io s" r] q(3) by (auto simp: node_env_def node_ok_def quiet_option_def)
  next
    case (27 s l i) then show ?case by (simp add: node_env_def node_ok_def)
  qed
qed

section \<open>A quiet node\<close>

text \<open>Every collaborator answers: one text extractor, no images, the documented text library.\<close>

definition quiet_node :: "int \<Rightarrow> io_answers \<Rightarrow> doc \<Rightarrow> node_ports" where
  "quiet_node now a doc = \<lparr>np_now = now, np_io_config = default_io_config 4, np_answers = (\<lambda>t. a), np_close = None,
     np_extract = (\<lambda>path r. Returned doc), np_match = (\<lambda>path sniff. False), np_image = (\<lambda>r. Panicked),
     np_embed = (\<lambda>i fs. Panicked), np_projection = None, np_text = quiet_ports now, np_audit = None,
     np_cancelled = False, np_random = NaN\<rparr>"

lemma quiet_node_fair: "quiet_answers a \<Longrightarrow> fair_node document_library (quiet_node now a doc)"
  by (auto simp: fair_node_def quiet_node_def document_library_def quiet_native_def quiet_text_def quiet_ports_def
      quiet_answer_def quiet_option_def quiet_result_def)

lemma example_answers_quiet: "quiet_answers example_answers"
  by (auto simp: quiet_answers_def example_answers_def quiet_option_def quiet_result_def)

interpretation quiet_node: lease_world "node_env document_library (quiet_node now example_answers doc)" node_ok
    "\<lambda>i s. i \<notin> leased_ids (vd_db (nd_store s))" "\<lambda>s. count_of k (nd_io s)" "kept_by k" nd_completed
  for now doc k
  by (rule node_lease_world[OF quiet_node_fair[OF example_answers_quiet]])

end
