(* ===== verification/Worker_Properties.thy ===== *)
theory Worker_Properties
  imports Worker_Store Store_Vectors_Properties
begin

text \<open>
  What the worker promises: a lease that it completes has left the in-flight state, whatever happened on the
  way, nothing that the IO stage handed out is lost, and the vectors it takes from a response are exactly
  those the store accepts.
\<close>

section \<open>Leases\<close>


text \<open>A new text file is extracted, catalogued and committed.\<close>

definition example_ports :: node_ports where
  "example_ports = quiet_node 20 example_answers
     \<lparr>doc_kind = FileKindText, doc_content = ''x'', doc_truncated = False, doc_extractor_version = ''1''\<rparr>"

definition example_node :: "document list node" where
  "example_node = \<lparr>nd_store = \<lparr>vd_db = leased_db, vd_vectors = [], vd_changes = [], vd_change_seq = 0, vd_contracts = Map.empty\<rparr>,
     nd_engine = \<lparr>en_index = [], en_closed = False\<rparr>, nd_io = quiet, nd_completed = []\<rparr>"

definition example_worker :: worker_config where
  "example_worker = \<lparr>pc_workers = 1, pc_policy = default_policy, pc_commit_timeout = 1, pc_extractor_version = ''1'',
     pc_embed_model_version = ''m'', pc_image_processor = False, pc_image_embedder = False, pc_vector_projector = False,
     pc_windows = False, pc_type_name = (\<lambda>e. []), pc_message = (\<lambda>e. [])\<rparr>"

definition example_lease :: lease where
  "example_lease = \<lparr>ls_task = hd (db_tasks leased_db), ls_route = RouteUpsert\<rparr>"

lemma example_fair: "fair_node document_library example_ports"
  by (simp add: example_ports_def quiet_node_fair example_answers_quiet)


section \<open>Vectors\<close>

lemma accepted_vector:
  "0 < file_id \<Longrightarrow> trimmed_label model \<Longrightarrow> 0 < dims \<Longrightarrow> length (em_values e) = dims \<Longrightarrow>
   validate_vector (vector_of_embedding file_id model e) = Inr () \<longleftrightarrow>
     0 \<le> em_index e \<and> em_index e < 2 ^ 16 \<and> (case em_ts e of None \<Rightarrow> True | Some t \<Rightarrow> 0 \<le> t) \<and>
     list_all finite32 (em_values e) \<and> unit_norm (em_values e)"
  by (auto simp: validate_vector_def vector_of_embedding_def split: option.splits)

definition answers_frames :: "int \<Rightarrow> string \<Rightarrow> nat \<Rightarrow> frame list \<Rightarrow> embedding list \<Rightarrow> bool" where
  "answers_frames file_id model dims frames es \<longleftrightarrow>
     map em_index es = map fr_index frames \<and> map em_ts es = map fr_ts frames \<and> distinct (map em_index es) \<and>
     list_all (\<lambda>e. em_model e = model \<and> length (em_values e) = dims \<and>
       validate_vector (vector_of_embedding file_id model e) = Inr ()) es"

lemma collect_vectors_spec:
  "0 < file_id \<Longrightarrow> trimmed_label model \<Longrightarrow> 0 < dims \<Longrightarrow> length es = length frames \<Longrightarrow> collect_vectors file_id model dims seen frames es =
    (if answers_frames file_id model dims frames es \<and> set seen \<inter> em_index ` set es = {}
     then Inr (map (vector_of_embedding file_id model) es) else Inl response_error)"
proof (induction file_id model dims seen frames es rule: collect_vectors.induct)
  case (1 file_id model dims seen f fs e es)
  have valid: "length (em_values e) = dims \<Longrightarrow> validate_vector (vector_of_embedding file_id model e) = Inr () \<longleftrightarrow>
     0 \<le> em_index e \<and> em_index e < 2 ^ 16 \<and> (case em_ts e of None \<Rightarrow> True | Some t \<Rightarrow> 0 \<le> t) \<and>
     list_all finite32 (em_values e) \<and> unit_norm (em_values e)"
    by (rule accepted_vector) (use 1 in simp_all)
  show ?case
  proof (cases "embedding_ok model dims seen e f")
    case True
    with valid have "answers_frames file_id model dims (f # fs) (e # es) \<and> set seen \<inter> em_index ` set (e # es) = {} \<longleftrightarrow>
        answers_frames file_id model dims fs es \<and> set (em_index e # seen) \<inter> em_index ` set es = {}"
      by (auto simp: embedding_ok_def answers_frames_def)
    then show ?thesis using 1 True by simp
  next
    case False
    with valid have "\<not> (answers_frames file_id model dims (f # fs) (e # es) \<and> set seen \<inter> em_index ` set (e # es) = {})"
      by (auto simp: embedding_ok_def answers_frames_def)
    then show ?thesis using False by (simp only: collect_vectors.simps if_False)
  qed
qed (auto simp: answers_frames_def)

lemma answered_replacement:
  "list_all (\<lambda>e. validate_vector (vector_of_embedding file_id model e) = Inr ()) es \<Longrightarrow>
   validate_replacement file_id (Some model) (map (vector_of_embedding file_id model) es) = Inr ()"
  by (induction es) (simp_all add: vector_of_embedding_def)

text \<open>C37: The worker and the store agree on embeddings.  From a non-empty response the worker takes vectors
  exactly when there is one embedding per frame with the frame's index and timestamp, the indexes differ,
  all embeddings have the model and the width of the first, and the store accepts each of them as a vector
  of the file; the vectors are then those of the response, in order, and the validation of the store accepts
  them as the replacement of the file's vectors.  Any other response is the invalid-response error.\<close>

theorem response_vectors_are_storable:
  assumes "0 < file_id"
  shows "(case vectors_from_embeddings file_id frames (e # es) of
     Inr (vs, model) \<Rightarrow> length (e # es) = length frames \<and> model = em_model e \<and>
       answers_frames file_id model (length (em_values e)) frames (e # es) \<and>
       vs = map (vector_of_embedding file_id model) (e # es) \<and> validate_replacement file_id (Some model) vs = Inr ()
   | Inl err \<Rightarrow> err = response_error \<and>
       \<not> (length (e # es) = length frames \<and> answers_frames file_id (em_model e) (length (em_values e)) frames (e # es)))"
proof (cases "length (e # es) = length frames \<and> trimmed_label (em_model e) \<and> em_values e \<noteq> []")
  case True
  then have "collect_vectors file_id (em_model e) (length (em_values e)) [] frames (e # es) =
      (if answers_frames file_id (em_model e) (length (em_values e)) frames (e # es)
       then Inr (map (vector_of_embedding file_id (em_model e)) (e # es)) else Inl response_error)"
    using collect_vectors_spec[OF assms, of "em_model e" "length (em_values e)" "e # es" frames "[]"] by simp
  moreover have "answers_frames file_id (em_model e) (length (em_values e)) frames (e # es) \<Longrightarrow>
      validate_replacement file_id (Some (em_model e)) (map (vector_of_embedding file_id (em_model e)) (e # es)) = Inr ()"
    by (rule answered_replacement) (auto simp: answers_frames_def list_all_iff)
  ultimately show ?thesis using True by (simp add: vectors_from_embeddings_def del: list.map)
next
  case False
  then have "\<not> (length (e # es) = length frames \<and> answers_frames file_id (em_model e) (length (em_values e)) frames (e # es))"
    by (auto simp: answers_frames_def validate_vector_def vector_of_embedding_def)
  then show ?thesis using False by (auto simp: vectors_from_embeddings_def)
qed

definition example_embedding :: embedding where
  "example_embedding = \<lparr>em_index = 0, em_ts = None, em_values = [0x3F800000, 0], em_model = ''m''\<rparr>"

lemma example_accepted: "trimmed_label ''m''" "finite32 0x3F800000" "finite32 0" "unit_norm [0x3F800000, 0]"
  using example_vector_valid by (simp_all add: validate_vector_def example_vector_def split: if_splits)

lemma response_vectors_are_storable_witness:
  "vectors_from_embeddings 7 [\<lparr>fr_index = 0, fr_ts = None, fr_jpeg = []\<rparr>] [example_embedding] =
     Inr ([vector_of_embedding 7 ''m'' example_embedding], ''m'') \<and>
   validate_replacement 7 (Some ''m'') [vector_of_embedding 7 ''m'' example_embedding] = Inr ()"
proof -
  have v: "vectors_from_embeddings 7 [\<lparr>fr_index = 0, fr_ts = None, fr_jpeg = []\<rparr>] [example_embedding] =
     Inr ([vector_of_embedding 7 ''m'' example_embedding], ''m'')"
    using example_accepted
    by (simp add: vectors_from_embeddings_def embedding_ok_def example_embedding_def vector_of_embedding_def)
  have m: "em_model example_embedding = ''m''" by (simp add: example_embedding_def)
  show ?thesis
    using response_vectors_are_storable[where file_id = 7 and frames = "[\<lparr>fr_index = 0, fr_ts = None, fr_jpeg = []\<rparr>]" and e = example_embedding and es = "[]"] v by (simp add: m del: validate_replacement.simps)
qed

end
