(* ===== verification/Vector_Index.thy ===== *)
theory Vector_Index
  imports Errclass Store_Vectors Search
begin

text \<open>
  The vector index, \<open>internal/index/vector.go\<close>: a rebuildable projection of the durable vectors into the graph
  of a third-party library, which is an argument, the log of changes it follows, its snapshots, and its
  single writer.

  The store is the model of \<open>Store_Vectors\<close>; each call of it, and each snapshot, consults a list of faults,
  so that any call may fail and any stream may break off.  The map from files to keys is only ever written
  and is left out.
\<close>

section \<open>Errors\<close>

datatype vector_leaf =
  VectorFailure vector_error
| ErrVectorWriterStopped
| ErrVectorModelMismatch
| ErrVectorDimensionMismatch
| ErrVectorSnapshotGap

type_synonym verr = "vector_leaf go_error"

definition no_vectors :: verr where "no_vectors = Leaf (VectorFailure (VectorStore ErrNotFound))"

section \<open>Keys\<close>

definition max_vector_file_id :: int where "max_vector_file_id = 2 ^ (64 - 16) - 1"

definition pack_vector_key :: "int \<Rightarrow> int \<Rightarrow> verr + 64 word" where
  "pack_vector_key file_id frame =
     (if file_id \<le> 0 \<or> file_id > max_vector_file_id then Inl (Text ''vector file ID is outside its range'')
      else if frame < 0 \<or> frame \<ge> 2 ^ 16 then Inl (Text ''vector frame index is outside its range'')
      else Inr (or (push_bit 16 (word_of_int file_id)) (word_of_int frame)))"

definition unpack_vector_key :: "64 word \<Rightarrow> int \<times> int" where
  "unpack_vector_key key = (sint (drop_bit 16 key), sint (and key (push_bit 16 1 - 1)))"

section \<open>Configuration\<close>

record index_config =
  vi_m :: int
  vi_ef_construction :: int
  vi_ef_search :: int
  vi_snapshot_path :: string
  vi_snapshot_interval :: int
  vi_snapshot_changes :: int
  vi_queue_capacity :: int
  vi_tombstone_threshold :: "rat option"  \<comment> \<open>None: not a number\<close>

definition ten_minutes :: int where "ten_minutes = 600 * 1000000000"

definition normalize_vector_index_config :: "index_config \<Rightarrow> string + index_config" where
  "normalize_vector_index_config c0 =
     (let c = c0\<lparr>vi_m := (if vi_m c0 = 0 then 16 else vi_m c0),
        vi_ef_construction := (if vi_ef_construction c0 = 0 then 200 else vi_ef_construction c0),
        vi_ef_search := (if vi_ef_search c0 = 0 then 64 else vi_ef_search c0),
        vi_snapshot_interval := (if vi_snapshot_interval c0 = 0 then ten_minutes else vi_snapshot_interval c0),
        vi_snapshot_changes := (if vi_snapshot_changes c0 = 0 then 5000 else vi_snapshot_changes c0),
        vi_queue_capacity := (if vi_queue_capacity c0 = 0 then 2048 else vi_queue_capacity c0),
        vi_tombstone_threshold := (if vi_tombstone_threshold c0 = Some 0 then Some (1 / 5) else vi_tombstone_threshold c0)\<rparr>
      in if vi_m c < 2 then Inl ''vector M must be at least 2''
         else if vi_ef_construction c < vi_m c then Inl ''vector ef_construction must be at least M''
         else if vi_ef_search c \<le> 0 then Inl ''vector ef_search must be positive''
         else if vi_snapshot_path c = [] then Inl ''vector snapshot path is empty''
         else if vi_snapshot_interval c \<le> 0 \<or> vi_snapshot_changes c \<le> 0 \<or> vi_queue_capacity c \<le> 0
         then Inl ''vector snapshot and queue limits must be positive''
         else case vi_tombstone_threshold c of
           None \<Rightarrow> Inl ''vector tombstone threshold must be between zero and one''
         | Some t \<Rightarrow> if t \<le> 0 \<or> t \<ge> 1 then Inl ''vector tombstone threshold must be between zero and one'' else Inr c)"

section \<open>The graph library\<close>

text \<open>
  What the code calls of \<open>hnsw.Graph\<close>.  \<open>an_add\<close> takes the search breadth and answers whether it returned;
  it may panic half way.  \<open>an_search\<close> may panic too.
\<close>

record ('g, 'p) ann =
  an_new :: "index_config \<Rightarrow> 'g"
  an_len :: "'g \<Rightarrow> nat"
  an_dims :: "'g \<Rightarrow> nat"
  an_find :: "'g \<Rightarrow> 64 word \<Rightarrow> 32 word list option"
  an_delete :: "'g \<Rightarrow> 64 word \<Rightarrow> bool \<times> 'g"
  an_add :: "int \<Rightarrow> 64 word \<Rightarrow> 32 word list \<Rightarrow> 'g \<Rightarrow> bool \<times> 'g"
  an_search :: "int \<Rightarrow> 'g \<Rightarrow> 32 word list \<Rightarrow> nat \<Rightarrow> (64 word \<times> 32 word list) list option"
  an_export :: "'g \<Rightarrow> verr + 'p"
  an_import :: "index_config \<Rightarrow> 'p \<Rightarrow> verr + 'g"

section \<open>State\<close>

record 'g vector_state =
  vs_graph :: 'g
  vs_ef :: int
  vs_model :: string
  vs_dims :: nat
  vs_revision :: int
  vs_tombstones :: "64 word list"
  vs_metadata :: "64 word \<Rightarrow> int option option"

record snapshot_header =
  sh_format :: nat
  sh_revision :: int
  sh_model :: string
  sh_dims :: nat
  sh_m :: int
  sh_ef_construction :: int
  sh_ef_search :: int
  sh_tombstones :: "64 word list"
  sh_empty :: bool

text \<open>What the snapshot path holds: nothing, something without a readable header, or a header with a payload,
  which may be missing, and which has the checksum of the header or not.\<close>

datatype 'p snapshot_file = NoSnapshot | Unreadable verr | Snapshot snapshot_header "'p option" bool

record ('g, 'p) vworld =
  vw_store :: vdb
  vw_state :: "'g vector_state"
  vw_since :: int
  vw_file :: "'p snapshot_file"
  vw_faults :: "(nat \<times> verr) option list"

section \<open>Calls of the store\<close>

definition next_fault :: "('g, 'p) vworld \<Rightarrow> (nat \<times> verr) option \<times> ('g, 'p) vworld" where
  "next_fault w = (case vw_faults w of [] \<Rightarrow> (None, w) | f # fs \<Rightarrow> (f, w\<lparr>vw_faults := fs\<rparr>))"

definition store_reads :: "(vdb \<Rightarrow> verr + 'a) \<Rightarrow> ('g, 'p) vworld \<Rightarrow> (verr + 'a) \<times> ('g, 'p) vworld" where
  "store_reads f w = (case next_fault w of (Some (_, e), w) \<Rightarrow> (Inl e, w) | (None, w) \<Rightarrow> (f (vw_store w), w))"

definition store_writes :: "(vdb \<Rightarrow> (vector_error + 'a) \<times> vdb) \<Rightarrow> ('g, 'p) vworld \<Rightarrow> (verr + 'a) \<times> ('g, 'p) vworld" where
  "store_writes f w = (case next_fault w of
     (Some (_, e), w) \<Rightarrow> (Inl e, w)
   | (None, w) \<Rightarrow> (case f (vw_store w) of (r, s) \<Rightarrow> (map_sum (\<lambda>e. Leaf (VectorFailure e)) id r, w\<lparr>vw_store := s\<rparr>)))"

text \<open>The rows a visitor is handed, and the error the stream ends with.\<close>

fun delivered :: "('r \<Rightarrow> vector_error + 'a) \<Rightarrow> 'r list \<Rightarrow> 'a list \<times> verr option" where
  "delivered scan [] = ([], None)"
| "delivered scan (r # rs) = (case scan r of
     Inl e \<Rightarrow> ([], Some (Leaf (VectorFailure e)))
   | Inr a \<Rightarrow> (case delivered scan rs of (xs, e) \<Rightarrow> (a # xs, e)))"

definition vectors_of_model :: "string \<Rightarrow> vdb \<Rightarrow> vector list \<times> verr option" where
  "vectors_of_model model s =
     (if model = [] then ([], Some (Leaf (VectorFailure (ErrVectorInvalid ''vector model version is empty''))))
      else delivered scan_vector (order_by frame_order (filter (\<lambda>r. vr_model r = model) (vd_vectors s))))"

definition changes_after :: "int \<Rightarrow> vdb \<Rightarrow> vector_change list \<times> verr option" where
  "changes_after after s =
     (if after < 0 then ([], Some (Leaf (VectorFailure (ErrVectorInvalid ''vector revision is negative''))))
      else delivered scan_change (order_by ch_revision (filter (\<lambda>c. ch_revision c > after) (vd_changes s))))"

definition store_stream :: "(vdb \<Rightarrow> 'a list \<times> verr option) \<Rightarrow> ('g, 'p) vworld \<Rightarrow> ('a list \<times> verr option) \<times> ('g, 'p) vworld" where
  "store_stream f w = (case next_fault w of
     (Some (n, e), w) \<Rightarrow> ((take n (fst (f (vw_store w))), Some e), w)
   | (None, w) \<Rightarrow> (f (vw_store w), w))"

fun visit :: "('a \<Rightarrow> 'x \<Rightarrow> verr option \<times> 'x) \<Rightarrow> 'a list \<Rightarrow> verr option \<Rightarrow> 'x \<Rightarrow> verr option \<times> 'x" where
  "visit f [] e x = (e, x)"
| "visit f (a # as) e x = (case f a x of (Some e', x') \<Rightarrow> (Some e', x') | (None, x') \<Rightarrow> visit f as e x')"

section \<open>Nodes\<close>

definition empty_vector_state :: "('g, 'p) ann \<Rightarrow> index_config \<Rightarrow> int \<Rightarrow> 'g vector_state" where
  "empty_vector_state lib c revision =
     \<lparr>vs_graph = an_new lib c, vs_ef = vi_ef_search c, vs_model = [], vs_dims = 0, vs_revision = revision,
      vs_tombstones = [], vs_metadata = Map.empty\<rparr>"

definition insert_node :: "('g, 'p) ann \<Rightarrow> 64 word \<Rightarrow> 32 word list \<Rightarrow> int \<Rightarrow> int \<Rightarrow> 'g vector_state \<Rightarrow> verr option \<times> 'g vector_state" where
  "insert_node lib key values construction restore st =
     (case an_add lib construction key values (vs_graph st) of
        (returned, g) \<Rightarrow> (if returned then None else Some (Text ''HNSW add panic''), st\<lparr>vs_graph := g, vs_ef := restore\<rparr>))"

definition add_hnsw_node :: "('g, 'p) ann \<Rightarrow> 64 word \<Rightarrow> 32 word list \<Rightarrow> int \<Rightarrow> int \<Rightarrow> 'g vector_state \<Rightarrow> verr option \<times> 'g vector_state" where
  "add_hnsw_node lib key values construction restore st =
     (if values = [] then (Some (Text ''empty vector''), st)
      else if an_dims lib (vs_graph st) \<noteq> 0 \<and> an_dims lib (vs_graph st) \<noteq> length values
      then (Some (Leaf ErrVectorDimensionMismatch), st)
      else case an_find lib (vs_graph st) key of
        None \<Rightarrow> insert_node lib key values construction restore st
      | Some _ \<Rightarrow> (case an_delete lib (vs_graph st) key of
          (False, g) \<Rightarrow> (Some (Text ''HNSW node disappeared while replacing it''), st\<lparr>vs_graph := g\<rparr>)
        | (True, g) \<Rightarrow> insert_node lib key values construction restore (st\<lparr>vs_graph := g\<rparr>)))"

section \<open>Rebuilding from the store\<close>

definition rebuild_one :: "('g, 'p) ann \<Rightarrow> index_config \<Rightarrow> vector \<Rightarrow> 'g vector_state \<Rightarrow> verr option \<times> 'g vector_state" where
  "rebuild_one lib c v st =
     (case pack_vector_key (vc_file_id v) (vc_frame v) of
        Inl e \<Rightarrow> (Some e, st)
      | Inr key \<Rightarrow>
          if vs_dims st \<noteq> 0 \<and> vs_dims st \<noteq> length (vc_values v)
          then (Some (Wrapped ''model dimensions'' (Leaf ErrVectorDimensionMismatch)), st)
          else
            (case add_hnsw_node lib key (vc_values v) (vi_ef_construction c) (vi_ef_construction c)
                (st\<lparr>vs_dims := length (vc_values v)\<rparr>) of
               (Some e, st) \<Rightarrow> (Some e, st)
             | (None, st) \<Rightarrow> (None, st\<lparr>vs_metadata := (vs_metadata st)(key \<mapsto> vc_frame_ts v)\<rparr>)))"

definition rebuild_model :: "('g, 'p) ann \<Rightarrow> index_config \<Rightarrow> string \<Rightarrow> ('g, 'p) vworld \<Rightarrow> verr option \<times> ('g, 'p) vworld" where
  "rebuild_model lib c model w =
     (case store_stream (vectors_of_model model) w of
        ((vs, e), w) \<Rightarrow>
          (case visit (rebuild_one lib c) vs e
              ((empty_vector_state lib c 0)\<lparr>vs_ef := vi_ef_construction c, vs_model := model\<rparr>) of
             (Some e, _) \<Rightarrow> (Some (Wrapped ''rebuild vector graph'' e), w)
           | (None, st) \<Rightarrow>
               (case store_reads (\<lambda>s. Inr (max_vector_revision s)) w of
                  (Inl e, w) \<Rightarrow> (Some e, w)
                | (Inr revision, w) \<Rightarrow> (None, w\<lparr>vw_state := st\<lparr>vs_ef := vi_ef_search c, vs_revision := revision\<rparr>\<rparr>))))"

definition latest_model :: "vdb \<Rightarrow> verr + string" where
  "latest_model s = map_sum (\<lambda>e. Leaf (VectorFailure e)) id (latest_vector_model_version s)"

definition rebuild_from_store :: "('g, 'p) ann \<Rightarrow> index_config \<Rightarrow> string \<Rightarrow> ('g, 'p) vworld \<Rightarrow> verr option \<times> ('g, 'p) vworld" where
  "rebuild_from_store lib c requested w =
     (if requested \<noteq> [] then rebuild_model lib c requested w
      else case store_reads latest_model w of
        (Inr model, w) \<Rightarrow> rebuild_model lib c model w
      | (Inl e, w) \<Rightarrow>
          if is_leaf e (VectorFailure (VectorStore ErrNotFound)) then
            (case store_reads (\<lambda>s. Inr (max_vector_revision s)) w of
               (Inl e, w) \<Rightarrow> (Some e, w)
             | (Inr revision, w) \<Rightarrow> (None, w\<lparr>vw_state := empty_vector_state lib c revision\<rparr>))
          else (Some (Wrapped ''select active vector model'' e), w))"

section \<open>Following the log\<close>

definition bury :: "('g, 'p) ann \<Rightarrow> 64 word \<Rightarrow> 'g vector_state \<Rightarrow> 'g vector_state" where
  "bury lib key st = st\<lparr>vs_tombstones := (if an_find lib (vs_graph st) key = None then vs_tombstones st else List.insert key (vs_tombstones st)),
     vs_metadata := (vs_metadata st)(key := None)\<rparr>"

definition apply_vector_change :: "('g, 'p) ann \<Rightarrow> index_config \<Rightarrow> vector_change \<Rightarrow> 'g vector_state \<Rightarrow> verr option \<times> 'g vector_state" where
  "apply_vector_change lib c change st =
     (case pack_vector_key (vx_file_id change) (vx_frame change) of
        Inl e \<Rightarrow> (Some e, st)
      | Inr key \<Rightarrow>
          (case vx_op change of
             VectorChangeUpsert \<Rightarrow>
               if vx_model change \<noteq> vs_model st then (Some (Leaf ErrVectorModelMismatch), st)
               else if vs_dims st \<noteq> 0 \<and> vs_dims st \<noteq> length (vx_values change) then (Some (Leaf ErrVectorDimensionMismatch), st)
               else
                 (case add_hnsw_node lib key (vx_values change) (vi_ef_construction c) (vi_ef_search c)
                     (st\<lparr>vs_dims := length (vx_values change)\<rparr>) of
                    (Some e, st) \<Rightarrow> (Some e, st)
                  | (None, st) \<Rightarrow> (None, st\<lparr>vs_tombstones := removeAll key (vs_tombstones st),
                      vs_metadata := (vs_metadata st)(key \<mapsto> vx_frame_ts change), vs_revision := vx_revision change\<rparr>))
           | VectorChangeDelete \<Rightarrow> (None, (bury lib key st)\<lparr>vs_revision := vx_revision change\<rparr>)))"

record 'g replay_run =
  rr_expected :: int
  rr_count :: int
  rr_switch :: string
  rr_active :: string
  rr_state :: "'g vector_state"

definition replay_one :: "('g, 'p) ann \<Rightarrow> index_config \<Rightarrow> vector_change \<Rightarrow> 'g replay_run \<Rightarrow> verr option \<times> 'g replay_run" where
  "replay_one lib c change r =
     (if vx_revision change \<noteq> rr_expected r then (Some (Leaf ErrVectorSnapshotGap), r)
      else
        let r = r\<lparr>rr_expected := rr_expected r + 1, rr_count := rr_count r + 1\<rparr> in
        if vx_op change = VectorChangeUpsert \<and> vx_model change \<noteq> rr_active r
        then (None, r\<lparr>rr_switch := vx_model change, rr_active := vx_model change\<rparr>)
        else if rr_switch r \<noteq> [] then (None, r)
        else case apply_vector_change lib c change (rr_state r) of (e, st) \<Rightarrow> (e, r\<lparr>rr_state := st\<rparr>))"

definition tombstone_ratio :: "('g, 'p) ann \<Rightarrow> 'g vector_state \<Rightarrow> rat" where
  "tombstone_ratio lib st = (if an_len lib (vs_graph st) = 0 then 0
     else of_nat (length (vs_tombstones st)) / of_nat (an_len lib (vs_graph st)))"

definition too_many_tombstones :: "('g, 'p) ann \<Rightarrow> index_config \<Rightarrow> 'g vector_state \<Rightarrow> bool" where
  "too_many_tombstones lib c st \<longleftrightarrow>
     (case vi_tombstone_threshold c of None \<Rightarrow> False | Some t \<Rightarrow> tombstone_ratio lib st > t) \<and> vs_model st \<noteq> []"

text \<open>What follows a complete replay: the switch of the model or the new revision, then the compaction.\<close>

definition finish_replay :: "('g, 'p) ann \<Rightarrow> index_config \<Rightarrow> int \<Rightarrow> 'g replay_run \<Rightarrow> ('g, 'p) vworld \<Rightarrow> (verr + int) \<times> ('g, 'p) vworld" where
  "finish_replay lib c durable r w =
     (case (if rr_switch r \<noteq> [] then rebuild_from_store lib c (rr_switch r) w
            else (None, w\<lparr>vw_state := (vw_state w)\<lparr>vs_revision := durable\<rparr>\<rparr>)) of
        (Some e, w) \<Rightarrow> (Inl e, w)
      | (None, w) \<Rightarrow>
          let w = w\<lparr>vw_since := vw_since w + rr_count r\<rparr> in
          if too_many_tombstones lib c (vw_state w) then
            (case rebuild_from_store lib c (vs_model (vw_state w)) w of
               (Some e, w) \<Rightarrow> (Inl e, w) | (None, w) \<Rightarrow> (Inr (rr_count r), w))
          else (Inr (rr_count r), w))"

definition replay_changes :: "('g, 'p) ann \<Rightarrow> index_config \<Rightarrow> ('g, 'p) vworld \<Rightarrow> (verr + int) \<times> ('g, 'p) vworld" where
  "replay_changes lib c w =
     (let start = vs_revision (vw_state w) in
     case store_reads (\<lambda>s. Inr (max_vector_revision s)) w of
       (Inl e, w) \<Rightarrow> (Inl e, w)
     | (Inr durable, w) \<Rightarrow>
         if durable < start then (Inl (Text ''snapshot revision exceeds durable revision''), w)
         else if durable = start then (Inr 0, w)
         else
           (case store_stream (changes_after start) w of
              ((cs, e), w) \<Rightarrow>
                (case visit (replay_one lib c) cs e
                    \<lparr>rr_expected = start + 1, rr_count = 0, rr_switch = [], rr_active = vs_model (vw_state w), rr_state = vw_state w\<rparr> of
                   (e, r) \<Rightarrow>
                     let w = w\<lparr>vw_state := rr_state r\<rparr> in
                     (case e of
                        Some e \<Rightarrow> (Inl e, w)
                      | None \<Rightarrow>
                          if rr_expected r - 1 \<noteq> durable then (Inl (Leaf ErrVectorSnapshotGap), w)
                          else finish_replay lib c durable r w))))"

section \<open>Requests\<close>

datatype vector_request =
  VectorReplace int int string "vector list"
| VectorDelete int int

text \<open>The requests \<open>Replace\<close> and \<open>Delete\<close> send.\<close>

definition replace_request :: "int \<Rightarrow> int \<Rightarrow> vector list \<Rightarrow> verr + vector_request" where
  "replace_request file_id generation vs =
     (case vs of [] \<Rightarrow> Inl (Text ''vector replacement is empty'') | v # _ \<Rightarrow> Inr (VectorReplace file_id generation (vc_model v) vs))"

definition write_truth :: "int \<Rightarrow> vector_request \<Rightarrow> ('g, 'p) vworld \<Rightarrow> (verr + unit) \<times> ('g, 'p) vworld" where
  "write_truth now q = (case q of
     VectorReplace i g model vs \<Rightarrow> store_writes (replace_vectors_for_file_and_version now i g model vs)
   | VectorDelete i g \<Rightarrow> store_writes (\<lambda>s. case delete_vectors_for_file now i g s of (r, s') \<Rightarrow> (map_sum id (\<lambda>_. ()) r, s')))"

definition request_model :: "vector_request \<Rightarrow> string" where
  "request_model q = (case q of VectorReplace i g model vs \<Rightarrow> model | VectorDelete i g \<Rightarrow> [])"

definition apply_request :: "('g, 'p) ann \<Rightarrow> index_config \<Rightarrow> int \<Rightarrow> vector_request \<Rightarrow> ('g, 'p) vworld \<Rightarrow> verr option \<times> ('g, 'p) vworld" where
  "apply_request lib c now q w =
     (case write_truth now q w of
        (Inl e, w) \<Rightarrow> (Some e, w)
      | (Inr _, w) \<Rightarrow>
          (case replay_changes lib c w of
             (Inr _, w) \<Rightarrow> (None, w)
           | (Inl e, w) \<Rightarrow>
               (case rebuild_from_store lib c (request_model q) w of
                  (Some e', w) \<Rightarrow> (Some (Joined [e, e']), w) | (None, w) \<Rightarrow> (None, w))))"

section \<open>Snapshots\<close>

definition snapshot_header_of :: "('g, 'p) ann \<Rightarrow> index_config \<Rightarrow> 'g vector_state \<Rightarrow> snapshot_header" where
  "snapshot_header_of lib c st =
     \<lparr>sh_format = 1, sh_revision = vs_revision st, sh_model = vs_model st, sh_dims = vs_dims st, sh_m = vi_m c,
      sh_ef_construction = vi_ef_construction c, sh_ef_search = vi_ef_search c,
      sh_tombstones = sort (vs_tombstones st), sh_empty = an_len lib (vs_graph st) = 0\<rparr>"

text \<open>The payload is written, then moved over the snapshot, and then the log is pruned.  A fault before the
  move leaves the old file; the empty graph has an empty payload, of which nothing is read.\<close>

definition snapshot_to :: "('g, 'p) ann \<Rightarrow> index_config \<Rightarrow> ('g, 'p) vworld \<Rightarrow> verr option \<times> ('g, 'p) vworld" where
  "snapshot_to lib c w =
     (let st = vw_state w; h = snapshot_header_of lib c st in
      case (if sh_empty h then Inr None else map_sum id Some (an_export lib (vs_graph st))) of
        Inl e \<Rightarrow> (Some (Wrapped ''export HNSW graph'' e), w)
      | Inr payload \<Rightarrow>
          (case next_fault w of
             (Some (_, e), w) \<Rightarrow> (Some e, w)
           | (None, w) \<Rightarrow>
               (case store_writes (prune_vector_changes_through (sh_revision h)) (w\<lparr>vw_file := Snapshot h payload True\<rparr>) of
                  (Inl e, w) \<Rightarrow> (Some (Wrapped ''prune snapshotted vector changes'' e), w)
                | (Inr _, w) \<Rightarrow> (None, w\<lparr>vw_since := 0\<rparr>))))"

definition load_one :: "vector \<Rightarrow> 'g vector_state \<Rightarrow> verr option \<times> 'g vector_state" where
  "load_one v st =
     (if length (vc_values v) \<noteq> vs_dims st then (Some (Wrapped ''snapshot dimensions'' (Leaf ErrVectorDimensionMismatch)), st)
      else case pack_vector_key (vc_file_id v) (vc_frame v) of
        Inl e \<Rightarrow> (Some e, st)
      | Inr key \<Rightarrow> (None, st\<lparr>vs_metadata := (vs_metadata st)(key \<mapsto> vc_frame_ts v)\<rparr>))"

text \<open>The graph of the payload.\<close>

definition import_graph :: "('g, 'p) ann \<Rightarrow> index_config \<Rightarrow> snapshot_header \<Rightarrow> 'p option \<Rightarrow> bool \<Rightarrow> verr + 'g" where
  "import_graph lib c h payload intact =
     (if sh_empty h then
        (if sh_model h \<noteq> [] \<or> sh_dims h \<noteq> 0 then Inl (Text ''empty vector snapshot has model metadata'')
         else if \<not> intact then Inl (Text ''vector snapshot checksum mismatch'') else Inr (an_new lib c))
      else case (case payload of None \<Rightarrow> Inl (Text ''unexpected EOF'') | Some p \<Rightarrow> an_import lib c p) of
        Inl e \<Rightarrow> Inl (Wrapped ''import HNSW graph'' e)
      | Inr g \<Rightarrow>
          if an_dims lib g \<noteq> sh_dims h then Inl (Text ''vector snapshot dimensions differ from the graph'')
          else if \<not> intact then Inl (Text ''vector snapshot checksum mismatch'') else Inr g)"

definition load_snapshot :: "('g, 'p) ann \<Rightarrow> index_config \<Rightarrow> ('g, 'p) vworld \<Rightarrow> (verr + 'g vector_state) \<times> ('g, 'p) vworld" where
  "load_snapshot lib c w =
     (case vw_file w of
        NoSnapshot \<Rightarrow> (Inl (Sentinel ErrNotExist), w)
      | Unreadable e \<Rightarrow> (Inl e, w)
      | Snapshot h payload intact \<Rightarrow>
          if sh_format h \<noteq> 1 \<or> sh_m h \<noteq> vi_m c \<or> sh_ef_construction h \<noteq> vi_ef_construction c \<or> sh_ef_search h \<noteq> vi_ef_search c
          then (Inl (Text ''vector snapshot configuration is incompatible''), w)
          else
            (case store_reads (\<lambda>s. Inr (max_vector_revision s)) w of
               (Inl e, w) \<Rightarrow> (Inl e, w)
             | (Inr durable, w) \<Rightarrow>
                 if sh_revision h < 0 \<or> sh_revision h > durable
                 then (Inl (Text ''vector snapshot revision is outside durable watermark''), w)
                 else
                   (case import_graph lib c h payload intact of
                      Inl e \<Rightarrow> (Inl e, w)
                    | Inr g \<Rightarrow>
                        let st = (empty_vector_state lib c (sh_revision h))\<lparr>vs_graph := g, vs_model := sh_model h, vs_dims := sh_dims h\<rparr> in
                        if list_ex (\<lambda>key. an_find lib g key = None) (sh_tombstones h)
                        then (Inl (Text ''vector snapshot tombstone is absent from graph''), w)
                        else
                          let st = st\<lparr>vs_tombstones := remdups (sh_tombstones h)\<rparr> in
                          if sh_model h = [] then (Inr st, w)
                          else
                            (case store_stream (vectors_of_model (sh_model h)) w of
                               ((vs, e), w) \<Rightarrow> (case visit load_one vs e st of (Some e, _) \<Rightarrow> (Inl e, w) | (None, st) \<Rightarrow> (Inr st, w))))))"

record vector_recovery =
  vy_imported :: bool
  vy_rebuilt :: bool
  vy_replayed :: int
  vy_snapshot_error :: "verr option"
  vy_revision :: int
  vy_model :: string
  vy_dims :: nat

text \<open>The state of the world before is that of a process that is gone.\<close>

definition open_vector_index ::
    "('g, 'p) ann \<Rightarrow> index_config \<Rightarrow> ('g, 'p) vworld \<Rightarrow> (verr + vector_recovery) \<times> ('g, 'p) vworld" where
  "open_vector_index lib c0 w =
     (case normalize_vector_index_config c0 of
        Inl e \<Rightarrow> (Inl (Text e), w)
      | Inr c \<Rightarrow>
          (let w = w\<lparr>vw_since := 0\<rparr>;
               report = (\<lambda>imported rebuilt replayed problem w.
                 (Inr \<lparr>vy_imported = imported, vy_rebuilt = rebuilt, vy_replayed = replayed, vy_snapshot_error = problem,
                    vy_revision = vs_revision (vw_state w), vy_model = vs_model (vw_state w), vy_dims = vs_dims (vw_state w)\<rparr>, w)) in
           case load_snapshot lib c w of
             (Inr st, w) \<Rightarrow>
               (case replay_changes lib c (w\<lparr>vw_state := st\<rparr>) of
                  (Inr n, w) \<Rightarrow> report True False n None w
                | (Inl e, w) \<Rightarrow>
                    (case rebuild_from_store lib c [] w of
                       (Some e', w) \<Rightarrow> (Inl (Joined [e, e']), w) | (None, w) \<Rightarrow> report True True 0 (Some e) w))
           | (Inl e, w) \<Rightarrow>
               (case rebuild_from_store lib c [] w of
                  (Some e', w) \<Rightarrow> (Inl e', w)
                | (None, w) \<Rightarrow> report False True 0 (if is_sentinel e ErrNotExist then None else Some e) w)))"

section \<open>The writer\<close>

text \<open>What the \<open>select\<close> of \<open>Run\<close> takes: a request, the timer, or the end of the context with the requests that
  are still in the channel.  The time is that of the store's clock.\<close>

datatype index_event = VectorRequest int vector_request | SnapshotTick | IndexCancelled "(int \<times> vector_request) list"

fun drain_requests :: "('g, 'p) ann \<Rightarrow> index_config \<Rightarrow> (int \<times> vector_request) list \<Rightarrow> ('g, 'p) vworld \<Rightarrow> verr option list \<times> ('g, 'p) vworld" where
  "drain_requests lib c [] w = ([], w)"
| "drain_requests lib c ((now, q) # qs) w =
     (case apply_request lib c now q w of (a, w) \<Rightarrow> (case drain_requests lib c qs w of (as, w) \<Rightarrow> (a # as, w)))"

text \<open>The answers, and what \<open>Run\<close> returns when it ends.\<close>

fun run_index :: "('g, 'p) ann \<Rightarrow> index_config \<Rightarrow> index_event list \<Rightarrow> ('g, 'p) vworld \<Rightarrow> verr option list \<times> verr option option \<times> ('g, 'p) vworld" where
  "run_index lib c [] w = ([], None, w)"
| "run_index lib c (VectorRequest now q # es) w =
     (case apply_request lib c now q w of
        (a, w) \<Rightarrow>
          (case (if a = None \<and> vw_since w \<ge> vi_snapshot_changes c then snapshot_to lib c w else (None, w)) of
             (Some e, w) \<Rightarrow> ([a], Some (Some e), w)
           | (None, w) \<Rightarrow> (case run_index lib c es w of (as, end, w) \<Rightarrow> (a # as, end, w))))"
| "run_index lib c (SnapshotTick # es) w =
     (case snapshot_to lib c w of (Some e, w) \<Rightarrow> ([], Some (Some e), w) | (None, w) \<Rightarrow> run_index lib c es w)"
| "run_index lib c (IndexCancelled qs # es) w =
     (case drain_requests lib c qs w of (as, w) \<Rightarrow> (case snapshot_to lib c w of (e, w) \<Rightarrow> (as, Some e, w)))"

section \<open>Search\<close>

text \<open>Float arithmetic that rounds is an argument: the division by the norm, and the inner product.\<close>

record float_ops =
  fp_normalize :: "32 word list \<Rightarrow> 32 word list"
  fp_inner :: "32 word list \<Rightarrow> 32 word list \<Rightarrow> 32 word"

definition normalize_query :: "float_ops \<Rightarrow> 32 word list \<Rightarrow> verr + 32 word list" where
  "normalize_query fp values =
     (if values = [] then Inl (Text ''query vector is empty'')
      else if \<not> list_all finite32 values then Inl (Text ''query vector contains a non-finite value'')
      else if norm_squared values = 0 then Inl (Text ''query vector has zero norm'')
      else Inr (fp_normalize fp values))"

definition top_k_limit :: "int \<Rightarrow> nat" where
  "top_k_limit top_k = (if top_k \<le> 0 then 20 else if top_k > 1000 then 1000 else nat top_k)"

definition hit_of_node :: "float_ops \<Rightarrow> 'g vector_state \<Rightarrow> 32 word list \<Rightarrow> 64 word \<times> 32 word list \<Rightarrow> vector_hit option" where
  "hit_of_node fp st query node =
     (if fst node \<in> set (vs_tombstones st) then None
      else case vs_metadata st (fst node) of
        None \<Rightarrow> None
      | Some ts \<Rightarrow> Some \<lparr>vh_key = fst node, vh_file_id = fst (unpack_vector_key (fst node)), vh_frame = snd (unpack_vector_key (fst node)),
          vh_frame_ts = ts, vh_score = fp_inner fp query (snd node), vh_model = vs_model st\<rparr>)"

definition search_vectors ::
    "('g, 'p) ann \<Rightarrow> float_ops \<Rightarrow> 32 word list \<Rightarrow> string \<Rightarrow> int \<Rightarrow> 'g vector_state \<Rightarrow> verr + vector_hit list" where
  "search_vectors lib fp values model top_k st =
     (if model = [] then Inl (Text ''query model version is empty'')
      else case normalize_query fp values of
        Inl e \<Rightarrow> Inl e
      | Inr query \<Rightarrow>
          if an_len lib (vs_graph st) = 0 then Inr []
          else if vs_model st \<noteq> model then Inl (Leaf ErrVectorModelMismatch)
          else if length query \<noteq> vs_dims st then Inl (Leaf ErrVectorDimensionMismatch)
          else
            let k = top_k_limit top_k; requested = min (k + length (vs_tombstones st)) (an_len lib (vs_graph st)) in
            (case an_search lib (vs_ef st) (vs_graph st) query requested of
               None \<Rightarrow> Inl (Text ''HNSW search panic'')
             | Some nodes \<Rightarrow> Inr (take k (List.map_filter (hit_of_node fp st query) nodes))))"

definition index_length :: "('g, 'p) ann \<Rightarrow> 'g vector_state \<Rightarrow> nat" where
  "index_length lib st = an_len lib (vs_graph st) - length (vs_tombstones st)"

end
