(* ===== verification/Vector_Index_Laws.thy ===== *)
theory Vector_Index_Laws
  imports Vector_Index Store_Vectors_Properties
begin

text \<open>
  What keeps the index in step with the store: the laws of the graph library as an interface, the relation
  between a state and the log it follows, and each operation against it.
\<close>

section \<open>Keys\<close>

lemma low_bits: "and k (push_bit 16 1 - 1) = take_bit 16 (k :: 64 word)"
  by (simp add: take_bit_eq_mask mask_eq_exp_minus_1 push_bit_eq_mult)

lemma pack_unpack:
  assumes "pack_vector_key i f = Inr k"
  shows "unpack_vector_key k = (i, f)"
proof -
  have b: "0 < i" "i < 2 ^ 48" "0 \<le> f" "f < 2 ^ 16" and k: "k = or (push_bit 16 (word_of_int i)) (word_of_int f)"
    using assms by (auto simp: pack_vector_key_def max_vector_file_id_def split: if_splits)
  have i: "bit i n \<Longrightarrow> n < 48" for n
    using b by (metis bit_take_bit_iff take_bit_int_eq_self_iff less_imp_le)
  have f: "bit f n \<Longrightarrow> n < 16" for n
    using b by (metis bit_take_bit_iff take_bit_int_eq_self_iff)
  have "drop_bit 16 k = (word_of_int i :: 64 word)"
    by (rule bit_word_eqI) (auto simp: k bit_simps dest: i f)
  moreover have "and k (push_bit 16 1 - 1) = (word_of_int f :: 64 word)"
    unfolding low_bits by (auto intro!: bit_word_eqI simp: k bit_simps dest: f)
  moreover have "sint (word_of_int i :: 64 word) = i" "sint (word_of_int f :: 64 word) = f"
    using b by (simp_all add: sint_sbintrunc' signed_take_bit_int_eq_self_iff)
  ultimately show ?thesis by (simp add: unpack_vector_key_def)
qed

lemma unpack_inj: "unpack_vector_key k = unpack_vector_key j \<Longrightarrow> k = j"
proof -
  assume "unpack_vector_key k = unpack_vector_key j"
  then have h: "drop_bit 16 k = drop_bit 16 j" "take_bit 16 k = take_bit 16 j"
    unfolding unpack_vector_key_def low_bits using word_eq_iff_signed[of "drop_bit 16 k" "drop_bit 16 j"] word_eq_iff_signed[of "take_bit 16 k" "take_bit 16 j"] by auto
  have "push_bit 16 (drop_bit 16 k) + take_bit 16 k = push_bit 16 (drop_bit 16 j) + take_bit 16 j" by (simp only: h)
  then show "k = j" by (simp only: bits_ident)
qed

lemma packed_iff: "pack_vector_key i f = Inr k \<Longrightarrow> unpack_vector_key j = (i, f) \<longleftrightarrow> j = k"
  using pack_unpack unpack_inj by metis

section \<open>The truth, and a state that shows it\<close>

text \<open>What an index of one model should show under a key.\<close>

definition truth :: "string \<Rightarrow> projection \<Rightarrow> 64 word \<Rightarrow> (32 word list \<times> int option) option" where
  "truth model p key = (case p (unpack_vector_key key) of
     None \<Rightarrow> None | Some (ts, values, m) \<Rightarrow> if m = model then Some (values, ts) else None)"

definition shows_node :: "('g, 'p) ann \<Rightarrow> 'g \<Rightarrow> 64 word set \<Rightarrow> 64 word \<Rightarrow> (32 word list \<times> int option) option \<Rightarrow> bool" where
  "shows_node lib g tombs key d \<longleftrightarrow> (case d of
     Some (values, ts) \<Rightarrow> an_find lib g key = Some values \<and> key \<notin> tombs
   | None \<Rightarrow> an_find lib g key = None \<or> key \<in> tombs)"

definition shows_key :: "('g, 'p) ann \<Rightarrow> 'g vector_state \<Rightarrow> 64 word \<Rightarrow> (32 word list \<times> int option) option \<Rightarrow> bool" where
  "shows_key lib st key d \<longleftrightarrow> shows_node lib (vs_graph st) (set (vs_tombstones st)) key d \<and> vs_metadata st key = map_option snd d"

text \<open>The index mirrors the store: it is at the last revision and shows the vectors of its model, no others.\<close>

definition mirrors :: "('g, 'p) ann \<Rightarrow> 'g vector_state \<Rightarrow> vdb \<Rightarrow> bool" where
  "mirrors lib st s \<longleftrightarrow> vs_revision st = vd_change_seq s \<and>
     (\<forall>key. shows_key lib st key (truth (vs_model st) (project (vd_vectors s)) key))"

text \<open>Behind the store: frames without a change after the revision are shown as they were at the revision.\<close>

definition pending :: "int \<Rightarrow> vdb \<Rightarrow> (int \<times> int) set" where
  "pending r s = (\<lambda>c. (ch_file_id c, ch_frame c)) ` {c \<in> set (vd_changes s). ch_revision c > r}"

definition follows :: "('g, 'p) ann \<Rightarrow> 'g vector_state \<Rightarrow> projection \<Rightarrow> vdb \<Rightarrow> bool" where
  "follows lib st p s \<longleftrightarrow> stream_inv (vs_revision st) p s \<and>
     (\<forall>key. unpack_vector_key key \<notin> pending (vs_revision st) s \<longrightarrow> shows_key lib st key (truth (vs_model st) p key))"

definition in_step :: "('g, 'p) ann \<Rightarrow> 'g vector_state \<Rightarrow> vdb \<Rightarrow> bool" where
  "in_step lib st s \<longleftrightarrow> (\<exists>p. follows lib st p s)"

lemma truth_cong: "p (unpack_vector_key key) = q (unpack_vector_key key) \<Longrightarrow> truth m p key = truth m q key"
  by (simp add: truth_def)

lemma mirrors_follows: "vectors_ok s \<Longrightarrow> mirrors lib st s \<Longrightarrow> in_step lib st s"
  using stream_inv_now[of s] by (auto simp: in_step_def follows_def mirrors_def vectors_ok_def)

lemma no_later_changes:
  "vec_wf s \<Longrightarrow> vd_change_seq s \<le> r \<Longrightarrow> filter (\<lambda>c. ch_revision c > r) (vd_changes s) = []"
  by (auto simp: vec_wf_def list_all_iff filter_empty_conv linorder_not_less intro: order_trans)

lemma caught_up:
  assumes "follows lib st p s" "filter (\<lambda>c. ch_revision c > vs_revision st) (vd_changes s) = []"
  shows "\<forall>key. shows_key lib st key (truth (vs_model st) (project (vd_vectors s)) key)"
proof -
  have "pending (vs_revision st) s = {}" using assms(2) by (auto simp: pending_def filter_empty_conv)
  moreover have "p = project (vd_vectors s)" using assms by (simp add: follows_def stream_inv_def replay_def)
  ultimately show ?thesis using assms(1) by (auto simp: follows_def)
qed

lemma untouched_keys:
  assumes "stream_inv r p s" "k \<notin> pending r s"
  shows "project (vd_vectors s) k = p k"
proof -
  have "fold apply_row cs q k = q k" if "k \<notin> (\<lambda>c. (ch_file_id c, ch_frame c)) ` set cs" for cs q
    using that by (induction cs arbitrary: q) (auto simp: apply_row_def split: vector_change_op.splits)
  from this[of "filter (\<lambda>c. ch_revision c > r) (vd_changes s)" p] show ?thesis
    using assms by (auto simp: stream_inv_def replay_def pending_def)
qed

section \<open>The library\<close>

locale ann_library =
  fixes lib :: "('g, 'p) ann"
  assumes new_empty: "an_find lib (an_new lib c) key = None"
    and delete_node: "an_delete lib g key = (b, g') \<Longrightarrow> (b \<longleftrightarrow> an_find lib g key \<noteq> None) \<and> an_find lib g' = (an_find lib g)(key := None)"
    and add_others: "an_find lib g key = None \<Longrightarrow> an_add lib ef key values g = (ok, g') \<Longrightarrow> key' \<noteq> key \<Longrightarrow> an_find lib g' key' = an_find lib g key'"
    and add_node: "an_find lib g key = None \<Longrightarrow> an_add lib ef key values g = (True, g') \<Longrightarrow> an_find lib g' key = Some values"
    and import_export: "an_export lib g = Inr payload \<Longrightarrow> an_import lib c payload = Inr g' \<Longrightarrow> an_find lib g' = an_find lib g"
    and len_nodes: "an_len lib g = card (dom (an_find lib g))" and finite_nodes: "finite (dom (an_find lib g))"
    and search_nodes: "an_search lib ef g query n = Some nodes \<Longrightarrow>
      distinct (map fst nodes) \<and> length nodes \<le> n \<and> (\<forall>x\<in>set nodes. an_find lib g (fst x) = Some (snd x))"
begin

lemma insert_node:
  assumes "an_find lib (vs_graph st) key = None" "insert_node lib key values construction restore st = (e, st')"
  shows "\<exists>g. st' = st\<lparr>vs_graph := g, vs_ef := restore\<rparr> \<and> (\<forall>j. j \<noteq> key \<longrightarrow> an_find lib g j = an_find lib (vs_graph st) j) \<and>
    (e = None \<longrightarrow> an_find lib g key = Some values)"
  using assms add_others[OF assms(1)] add_node[OF assms(1)] by (auto simp: insert_node_def split: prod.splits if_splits)

lemma add_hnsw_node:
  assumes "add_hnsw_node lib key values construction restore st = (e, st')"
  shows "\<exists>g ef. st' = st\<lparr>vs_graph := g, vs_ef := ef\<rparr> \<and> (\<forall>j. j \<noteq> key \<longrightarrow> an_find lib g j = an_find lib (vs_graph st) j) \<and>
    (e = None \<longrightarrow> an_find lib g key = Some values)"
proof -
  have same: "\<exists>g ef. st = st\<lparr>vs_graph := g, vs_ef := ef\<rparr> \<and> (\<forall>j. j \<noteq> key \<longrightarrow> an_find lib g j = an_find lib (vs_graph st) j)"
    by (intro exI[of _ "vs_graph st"] exI[of _ "vs_ef st"]) simp
  show ?thesis
  proof (cases "values = [] \<or> an_dims lib (vs_graph st) \<noteq> 0 \<and> an_dims lib (vs_graph st) \<noteq> length values")
    case True
    then show ?thesis using assms same by (auto simp: add_hnsw_node_def split: if_splits)
  next
    case False
    show ?thesis
    proof (cases "an_find lib (vs_graph st) key")
      case None
      then show ?thesis using assms False insert_node[OF None] by (fastforce simp: add_hnsw_node_def)
    next
      case (Some old)
      obtain b g where d: "an_delete lib (vs_graph st) key = (b, g)" by fastforce
      note l = delete_node[OF d]
      have b: "b" using l Some by simp
      have i: "insert_node lib key values construction restore (st\<lparr>vs_graph := g\<rparr>) = (e, st')"
        using assms False Some d b unfolding add_hnsw_node_def by (simp split: if_splits)
      have "an_find lib (vs_graph (st\<lparr>vs_graph := g\<rparr>)) key = None" using l by simp
      from insert_node[OF this i] show ?thesis using l by (auto intro: exI[of _ restore])
    qed
  qed
qed

end

section \<open>Rebuilding\<close>

text \<open>Rows and changes name a model.\<close>

definition labelled :: "vdb \<Rightarrow> bool" where
  "labelled s \<longleftrightarrow> list_all (\<lambda>r. vr_model r \<noteq> []) (vd_vectors s) \<and>
     list_all (\<lambda>c. ch_op c = VectorChangeUpsert \<longrightarrow> ch_model c \<noteq> Some []) (vd_changes s)"

definition vector_of_row :: "vector_row \<Rightarrow> vector" where
  "vector_of_row r = \<lparr>vc_file_id = vr_file_id r, vc_frame = vr_frame r, vc_frame_ts = vr_frame_ts r,
     vc_values = uint32s (vr_blob r), vc_model = vr_model r\<rparr>"

definition shown_vector :: "vector \<Rightarrow> (64 word \<Rightarrow> (32 word list \<times> int option) option) \<Rightarrow> 64 word \<Rightarrow> (32 word list \<times> int option) option" where
  "shown_vector v d = (\<lambda>key. if unpack_vector_key key = (vc_file_id v, vc_frame v) then Some (vc_values v, vc_frame_ts v) else d key)"

lemma delivered_rows: "list_all row_ok rs \<Longrightarrow> delivered scan_vector rs = (map vector_of_row rs, None)"
  by (induction rs) (simp_all add: scan_vector_ok vector_of_row_def)

lemma fold_shown:
  assumes "distinct (map key_of_row rs)"
  shows "fold shown_vector (map vector_of_row rs) d key =
    (case project rs (unpack_vector_key key) of Some (ts, values, m) \<Rightarrow> Some (values, ts) | None \<Rightarrow> d key)"
  using assms
proof (induction rs arbitrary: d)
  case (Cons r rs)
  then have "project rs (key_of_row r) = None" by (intro project_None) simp
  then show ?case using Cons
    by (auto simp: shown_vector_def vector_of_row_def key_of_row_def entry_of_row_def split: option.splits)
qed simp

lemma model_rows:
  assumes "vec_wf s" "vectors_of_model model s = (vs, None)"
  shows "fold shown_vector vs (\<lambda>_. None) key = truth model (project (vd_vectors s)) key \<and> model \<noteq> []"
proof -
  let ?f = "\<lambda>r. vr_model r = model"
  let ?rs = "order_by frame_order (filter ?f (vd_vectors s))"
  have d: "distinct (map key_of_row (vd_vectors s))" and ok: "list_all row_ok (vd_vectors s)" using assms(1) by (simp_all add: vec_wf_def)
  have set: "set ?rs = set (filter ?f (vd_vectors s))" by (simp add: order_by_def)
  have df: "distinct (map key_of_row (filter ?f (vd_vectors s)))" using d by (simp add: distinct_map_filter)
  then have d': "distinct (map key_of_row ?rs)" by (simp add: order_by_def distinct_map)
  have "list_all row_ok ?rs" using ok set by (simp add: list_all_iff)
  then have "vs = map vector_of_row ?rs" "model \<noteq> []"
    using assms(2) by (auto simp: vectors_of_model_def delivered_rows split: if_splits)
  moreover have "(case project ?rs k of Some (ts, values, m) \<Rightarrow> Some (values, ts) | None \<Rightarrow> None) =
      (case project (vd_vectors s) k of None \<Rightarrow> None | Some (ts, values, m) \<Rightarrow> if m = model then Some (values, ts) else None)" for k
  proof (cases "k \<in> key_of_row ` set (vd_vectors s)")
    case True
    then obtain r where r: "r \<in> set (vd_vectors s)" "k = key_of_row r" by blast
    show ?thesis
    proof (cases "vr_model r = model")
      case True
      then have x: "r \<in> set ?rs" using r set by simp
      show ?thesis using project_Some[OF d' x] project_Some[OF d r(1)] r(2) True by (simp add: entry_of_row_def)
    next
      case False
      have x: "k \<notin> key_of_row ` set ?rs"
      proof
        assume "k \<in> key_of_row ` set ?rs"
        then obtain q where "q \<in> set (vd_vectors s)" "vr_model q = model" "key_of_row q = key_of_row r" using r(2) set by auto
        moreover from this r(1) d have "q = r" by (auto dest: inj_onD simp: distinct_map)
        ultimately show False using False by simp
      qed
      show ?thesis using project_None[OF x] project_Some[OF d r(1)] r(2) False by (simp add: entry_of_row_def)
    qed
  next
    case False
    then have x: "k \<notin> key_of_row ` set ?rs" using set by auto
    show ?thesis using project_None[OF x] project_None[OF False] by simp
  qed
  ultimately show ?thesis by (simp add: fold_shown[OF d'] truth_def)
qed

text \<open>Calls of the store change nothing but the faults.\<close>

definition same_truth :: "('g, 'p) vworld \<Rightarrow> ('g, 'p) vworld \<Rightarrow> bool" where
  "same_truth w w' \<longleftrightarrow> vw_store w' = vw_store w \<and> vw_file w' = vw_file w"

definition called :: "('g, 'p) vworld \<Rightarrow> ('g, 'p) vworld \<Rightarrow> bool" where
  "called w w' \<longleftrightarrow> same_truth w w' \<and> vw_state w' = vw_state w \<and> vw_since w' = vw_since w"

lemma next_faultD: "next_fault w = (f, w') \<Longrightarrow> called w w'"
  by (auto simp: next_fault_def called_def same_truth_def split: list.splits)

lemma store_readsD: "store_reads f w = (r, w') \<Longrightarrow> called w w' \<and> (\<forall>x. r = Inr x \<longrightarrow> f (vw_store w) = Inr x)"
  by (auto simp: store_reads_def called_def same_truth_def split: prod.splits option.splits dest!: next_faultD)

lemma store_streamD: "store_stream f w = ((xs, e), w') \<Longrightarrow> called w w' \<and>
    (e = None \<longrightarrow> f (vw_store w) = (xs, None)) \<and> (\<exists>n. xs = take n (fst (f (vw_store w))))"
  by (auto simp: store_stream_def called_def same_truth_def split: prod.splits option.splits dest!: next_faultD intro: exI[of _ "length xs"])

lemma visit_error: "visit f xs (Some e) x = (r, x') \<Longrightarrow> r \<noteq> None"
  by (induction xs arbitrary: x) (auto split: prod.splits option.splits)

context ann_library
begin

lemma rebuild_one:
  assumes "rebuild_one lib c v st = (None, st')" "vs_tombstones st = []" "\<forall>key. shows_key lib st key (d key)"
  shows "vs_tombstones st' = [] \<and> vs_model st' = vs_model st \<and> (\<forall>key. shows_key lib st' key (shown_vector v d key))"
proof -
  obtain key where k: "pack_vector_key (vc_file_id v) (vc_frame v) = Inr key"
    using assms(1) by (auto simp: rebuild_one_def split: sum.splits)
  obtain e st1 where a: "add_hnsw_node lib key (vc_values v) (vi_ef_construction c) (vi_ef_construction c)
      (st\<lparr>vs_dims := length (vc_values v)\<rparr>) = (e, st1)" by fastforce
  have r: "e = None" "st' = st1\<lparr>vs_metadata := (vs_metadata st1)(key \<mapsto> vc_frame_ts v)\<rparr>"
    using assms(1) k a by (auto simp: rebuild_one_def split: if_splits option.splits)
  from add_hnsw_node[OF a] r(1) obtain g ef where st1: "st1 = st\<lparr>vs_dims := length (vc_values v), vs_graph := g, vs_ef := ef\<rparr>"
      "\<forall>j. j \<noteq> key \<longrightarrow> an_find lib g j = an_find lib (vs_graph st) j" "an_find lib g key = Some (vc_values v)" by auto
  have u: "unpack_vector_key j = (vc_file_id v, vc_frame v) \<longleftrightarrow> j = key" for j by (rule packed_iff[OF k])
  have "shows_key lib st' j (shown_vector v d j)" for j
    using assms(3)[THEN spec[of _ j]] assms(2) st1 r(2)
    by (cases "j = key"; cases "d j") (auto simp: shows_key_def shows_node_def shown_vector_def u)
  then show ?thesis using assms(2) st1 r(2) by simp
qed

lemma visit_rebuild:
  "visit (rebuild_one lib c) vs e st = (None, st') \<Longrightarrow> vs_tombstones st = [] \<Longrightarrow> \<forall>key. shows_key lib st key (d key) \<Longrightarrow>
   e = None \<and> vs_model st' = vs_model st \<and> (\<forall>key. shows_key lib st' key (fold shown_vector vs d key))"
proof (induction vs arbitrary: st d)
  case (Cons v vs)
  then obtain st1 where s: "rebuild_one lib c v st = (None, st1)" "visit (rebuild_one lib c) vs e st1 = (None, st')"
    by (auto split: prod.splits option.splits)
  from rebuild_one[OF s(1) Cons.prems(2,3)] Cons.IH[OF s(2), of "shown_vector v d"] show ?case by simp
qed auto

lemma empty_shows_nothing: "shows_key lib (empty_vector_state lib c r) key None"
  by (simp add: shows_key_def shows_node_def empty_vector_state_def new_empty)

lemma shows_key_fields [simp]:
  "shows_key lib (st\<lparr>vs_ef := x\<rparr>) = shows_key lib st" "shows_key lib (st\<lparr>vs_model := m\<rparr>) = shows_key lib st"
  "shows_key lib (st\<lparr>vs_revision := r\<rparr>) = shows_key lib st" "shows_key lib (st\<lparr>vs_dims := n\<rparr>) = shows_key lib st"
  by (simp_all add: shows_key_def fun_eq_iff)

text \<open>A rebuild gives a mirror of the model it was asked for, or changes nothing.\<close>

lemma rebuild_model:
  assumes ok: "vec_wf (vw_store w)" and r: "rebuild_model lib c model w = (e, w')"
  shows "same_truth w w' \<and> vw_since w' = vw_since w \<and>
    (if e = None then mirrors lib (vw_state w') (vw_store w) \<and> vs_model (vw_state w') = model else vw_state w' = vw_state w)"
proof -
  obtain vs e1 w1 where a: "store_stream (vectors_of_model model) w = ((vs, e1), w1)" by (metis surj_pair)
  from store_streamD[OF a] have w1: "called w w1" and e1: "e1 = None \<Longrightarrow> vectors_of_model model (vw_store w) = (vs, None)" by blast+
  let ?st = "(empty_vector_state lib c 0)\<lparr>vs_ef := vi_ef_construction c, vs_model := model\<rparr>"
  obtain e2 st where b: "visit (rebuild_one lib c) vs e1 ?st = (e2, st)" by fastforce
  show ?thesis
  proof (cases e2)
    case (Some x)
    then show ?thesis using r a b w1 by (auto simp: rebuild_model_def called_def)
  next
    case None
    obtain r2 w2 where d: "store_reads (\<lambda>s. Inr (max_vector_revision s)) w1 = (r2, w2)" by fastforce
    from store_readsD[OF d] w1 have w2: "called w w2" and r2: "\<And>x. r2 = Inr x \<Longrightarrow> x = max_vector_revision (vw_store w)"
      by (auto simp: called_def same_truth_def)
    have v: "e1 = None \<and> vs_model st = vs_model ?st \<and> (\<forall>key. shows_key lib st key (fold shown_vector vs (\<lambda>_. None) key))"
      by (rule visit_rebuild[OF b[unfolded None]]) (simp_all add: empty_shows_nothing, simp add: empty_vector_state_def)
    have m: "fold shown_vector vs (\<lambda>_. None) key = truth model (project (vd_vectors (vw_store w))) key" for key
      using model_rows[OF ok e1] v by blast
    show ?thesis
    proof (cases r2)
      case (Inl x)
      then show ?thesis using r a b None d w2 by (auto simp: rebuild_model_def called_def)
    next
      case (Inr x)
      then show ?thesis using r a b None d w2 v m r2[OF Inr]
        by (auto simp: rebuild_model_def mirrors_def max_vector_revision_def called_def same_truth_def)
    qed
  qed
qed

lemma empty_mirror:
  assumes "labelled s"
  shows "mirrors lib (empty_vector_state lib c (max_vector_revision s)) s"
proof -
  have "truth [] (project (vd_vectors s)) key = None" for key
    using assms by (auto simp: truth_def labelled_def list_all_iff project_find entry_of_row_def find_Some_iff split: option.splits)
  moreover have "vs_model (empty_vector_state lib c r) = []" "vs_revision (empty_vector_state lib c r) = r" for r
    by (simp_all add: empty_vector_state_def)
  ultimately show ?thesis using empty_shows_nothing by (simp add: mirrors_def max_vector_revision_def)
qed

lemma rebuild_from_store:
  assumes ok: "vec_wf (vw_store w)" "labelled (vw_store w)" and r: "rebuild_from_store lib c requested w = (e, w')"
  shows "same_truth w w' \<and> vw_since w' = vw_since w \<and>
    (if e = None then mirrors lib (vw_state w') (vw_store w) \<and> (requested \<noteq> [] \<longrightarrow> vs_model (vw_state w') = requested)
     else vw_state w' = vw_state w)"
proof (cases "requested = []")
  case False
  then show ?thesis using rebuild_model[OF ok(1), of c requested e w'] r by (auto simp: rebuild_from_store_def)
next
  case True
  obtain m w1 where a: "store_reads latest_model w = (m, w1)" by fastforce
  from store_readsD[OF a] have w1: "called w w1" by blast
  show ?thesis
  proof (cases m)
    case (Inr model)
    then have r': "rebuild_model lib c model w1 = (e, w')" using r True a by (simp add: rebuild_from_store_def)
    have "vec_wf (vw_store w1)" using ok w1 by (simp add: called_def same_truth_def)
    from rebuild_model[OF this r'] show ?thesis using w1 True by (auto simp: called_def same_truth_def split: if_splits)
  next
    case (Inl x)
    show ?thesis
    proof (cases "is_leaf x (VectorFailure (VectorStore ErrNotFound))")
      case False
      then show ?thesis using r True a Inl w1 by (auto simp: rebuild_from_store_def called_def)
    next
      case leaf: True
      obtain r2 w2 where d: "store_reads (\<lambda>s. Inr (max_vector_revision s)) w1 = (r2, w2)" by fastforce
      from store_readsD[OF d] w1 have w2: "called w w2" and r2: "\<And>x. r2 = Inr x \<Longrightarrow> x = max_vector_revision (vw_store w)"
        by (auto simp: called_def same_truth_def)
      show ?thesis
      proof (cases r2)
        case (Inl y)
        then show ?thesis using r True a \<open>m = Inl x\<close> leaf d w2 by (auto simp: rebuild_from_store_def called_def)
      next
        case (Inr y)
        then show ?thesis using r True a Inl leaf d w2 r2[OF Inr] empty_mirror[OF ok(2), of c]
          by (auto simp: rebuild_from_store_def called_def same_truth_def)
      qed
    qed
  qed
qed

end

section \<open>Following the log\<close>

definition scanned :: "change_row \<Rightarrow> vector_change" where
  "scanned c = projr (scan_change c)"

definition last_model :: "change_row list \<Rightarrow> string \<Rightarrow> string" where
  "last_model cs m = fold (\<lambda>c m. if ch_op c = VectorChangeUpsert then the (ch_model c) else m) cs m"

lemma scan_change_ok:
  assumes "change_ok c"
  shows "scan_change c = Inr (scanned c)" "vx_revision (scanned c) = ch_revision c" "vx_file_id (scanned c) = ch_file_id c"
    "vx_frame (scanned c) = ch_frame c" "vx_op (scanned c) = ch_op c"
    "ch_op c = VectorChangeUpsert \<Longrightarrow> vx_values (scanned c) = uint32s (the (ch_blob c)) \<and> vx_model (scanned c) = the (ch_model c) \<and>
      vx_frame_ts (scanned c) = ch_frame_ts c"
  using assms by (cases "ch_op c"; auto simp: scanned_def scan_change_def decode_vector_def change_ok_def Let_def split: option.splits)+

lemma delivered_changes: "list_all change_ok cs \<Longrightarrow> delivered scan_change cs = (map scanned cs, None)"
  by (induction cs) (simp_all add: scan_change_ok(1))

lemma filter_after_head:
  fixes f :: "'a \<Rightarrow> int"
  assumes "sorted_wrt (<) (map f xs)" "filter (\<lambda>x. f x > r) xs = y # ys"
  shows "filter (\<lambda>x. f x > f y) xs = ys \<and> f y > r"
proof -
  have y: "f y > r" using assms(2) by (metis filter_eq_ConsD)
  have "sorted_wrt (<) (map f (y # ys))" using assms unfolding assms(2)[symmetric] by (simp add: sorted_wrt_map sorted_wrt_filter)
  then have "filter (\<lambda>x. f x > f y) (y # ys) = ys" by (simp add: filter_id_conv)
  moreover have "filter (\<lambda>x. f x > f y) (filter (\<lambda>x. f x > r) xs) = filter (\<lambda>x. f x > f y) xs"
    using y by (auto simp: filter_filter intro!: filter_cong)
  ultimately show ?thesis using assms(2) y by simp
qed

lemma changes_after_rows:
  assumes "vec_wf s" "changes_after r s = (cs, None)"
  shows "cs = map scanned (filter (\<lambda>c. ch_revision c > r) (vd_changes s))"
proof -
  let ?cs = "filter (\<lambda>c. ch_revision c > r) (vd_changes s)"
  have "sorted_wrt (<) (map ch_revision ?cs)" using assms(1) by (simp add: vec_wf_def sorted_wrt_map sorted_wrt_filter)
  then have "order_by ch_revision ?cs = ?cs" by (simp add: order_by_def sort_key_id_if_sorted strict_sorted_iff)
  moreover have "list_all change_ok ?cs" using assms(1) by (auto simp: vec_wf_def list_all_iff)
  ultimately show ?thesis using assms(2) by (simp add: changes_after_def delivered_changes split: if_splits)
qed

text \<open>What is left of the log after one change.\<close>

lemma step_log:
  assumes "stream_inv r p s" "filter (\<lambda>c. ch_revision c > r) (vd_changes s) = c # cs"
  shows "stream_inv (ch_revision c) (apply_row c p) s" "filter (\<lambda>d. ch_revision d > ch_revision c) (vd_changes s) = cs"
    "pending r s = insert (ch_file_id c, ch_frame c) (pending (ch_revision c) s)" "change_ok c"
proof -
  have sorted: "sorted_wrt (<) (map ch_revision (vd_changes s))" using assms(1) by (simp add: stream_inv_def vec_wf_def)
  show rest: "filter (\<lambda>d. ch_revision d > ch_revision c) (vd_changes s) = cs" using filter_after_head[OF sorted assms(2)] by simp
  have "c \<in> set (filter (\<lambda>c. ch_revision c > r) (vd_changes s))" using assms(2) by simp
  then have c: "c \<in> set (vd_changes s)" by simp
  then show "change_ok c" using assms(1) by (auto simp: stream_inv_def vec_wf_def list_all_iff)
  show "stream_inv (ch_revision c) (apply_row c p) s"
    using assms c rest by (auto simp: stream_inv_def replay_def vec_wf_def list_all_iff)
  have later: "{d \<in> set (vd_changes s). ch_revision d > q} = set (filter (\<lambda>d. ch_revision d > q) (vd_changes s))" for q by auto
  show "pending r s = insert (ch_file_id c, ch_frame c) (pending (ch_revision c) s)"
    unfolding pending_def later assms(2) rest by simp
qed

context ann_library
begin

lemma apply_vector_change:
  assumes st: "follows lib st p s" and cs: "filter (\<lambda>c. ch_revision c > vs_revision st) (vd_changes s) = c # cs"
    and a: "apply_vector_change lib cfg (scanned c) st = (e, st')"
  shows "vs_model st' = vs_model st \<and> (e = None \<longrightarrow> vs_revision st' = ch_revision c \<and> follows lib st' (apply_row c p) s) \<and>
    (e \<noteq> None \<longrightarrow> follows lib st' p s)"
proof -
  have inv: "stream_inv (vs_revision st) p s" using st by (simp add: follows_def)
  note log = step_log[OF inv cs] and ok = scan_change_ok[OF step_log(4)[OF inv cs]]
  have shown: "shows_key lib st j (truth (vs_model st) p j)" if "unpack_vector_key j \<notin> pending (vs_revision st) s" for j
    using st that by (simp add: follows_def)
  show ?thesis
  proof (cases "pack_vector_key (ch_file_id c) (ch_frame c)")
    case (Inl x)
    then show ?thesis using a ok st by (auto simp: apply_vector_change_def)
  next
    case (Inr key)
    have u: "unpack_vector_key j = (ch_file_id c, ch_frame c) \<longleftrightarrow> j = key" for j by (rule packed_iff[OF Inr])
    have fresh: "apply_row c p (unpack_vector_key j) = p (unpack_vector_key j)" if "j \<noteq> key" for j
      using that u[of j] by (simp add: apply_row_def split: vector_change_op.splits)
    have advance: "follows lib st' (apply_row c p) s"
      if "vs_revision st' = ch_revision c" "vs_model st' = vs_model st"
        "\<And>j. j \<noteq> key \<Longrightarrow> shows_key lib st j = shows_key lib st' j" "shows_key lib st' key (truth (vs_model st) (apply_row c p) key)"
    proof -
      have "shows_key lib st' j (truth (vs_model st) (apply_row c p) j)" if "unpack_vector_key j \<notin> pending (ch_revision c) s" for j
      proof (cases "j = key")
        case False
        then have "unpack_vector_key j \<notin> pending (vs_revision st) s" using that u[of j] unfolding log(3) by simp
        then show ?thesis using shown[of j] \<open>\<And>j. j \<noteq> key \<Longrightarrow> shows_key lib st j = shows_key lib st' j\<close>[OF False] fresh[OF False]
          by (simp cong: truth_cong)
      qed (use \<open>shows_key lib st' key _\<close> in simp)
      then show ?thesis using that log(1) by (simp add: follows_def)
    qed
    show ?thesis
    proof (cases "ch_op c")
      case VectorChangeDelete
      then have r: "e = None" "st' = (bury lib key st)\<lparr>vs_revision := ch_revision c\<rparr>" using a Inr ok by (simp_all add: apply_vector_change_def)
      have "shows_key lib st j = shows_key lib st' j" if "j \<noteq> key" for j
        using that r(2) by (auto simp: shows_key_def shows_node_def bury_def fun_eq_iff split: option.splits)
      moreover have "truth (vs_model st) (apply_row c p) key = None"
        using VectorChangeDelete u[of key] by (simp add: truth_def apply_row_def)
      ultimately show ?thesis using r advance by (auto simp: shows_key_def shows_node_def bury_def)
    next
      case VectorChangeUpsert
      note v = ok(6)[OF VectorChangeUpsert]
      show ?thesis
      proof (cases "the (ch_model c) \<noteq> vs_model st \<or> vs_dims st \<noteq> 0 \<and> vs_dims st \<noteq> length (vx_values (scanned c))")
        case True
        then show ?thesis using a Inr ok v VectorChangeUpsert st by (auto simp: apply_vector_change_def split: if_splits)
      next
        case False
        obtain e1 st1 where n: "add_hnsw_node lib key (vx_values (scanned c)) (vi_ef_construction cfg) (vi_ef_search cfg)
            (st\<lparr>vs_dims := length (vx_values (scanned c))\<rparr>) = (e1, st1)" by fastforce
        from add_hnsw_node[OF n] obtain g ef where st1: "st1 = st\<lparr>vs_dims := length (vx_values (scanned c)), vs_graph := g, vs_ef := ef\<rparr>"
            "\<And>j. j \<noteq> key \<Longrightarrow> an_find lib g j = an_find lib (vs_graph st) j" "e1 = None \<Longrightarrow> an_find lib g key = Some (vx_values (scanned c))" by auto
        have r: "e = e1" "st' = (if e1 = None then st1\<lparr>vs_tombstones := removeAll key (vs_tombstones st1),
            vs_metadata := (vs_metadata st1)(key \<mapsto> vx_frame_ts (scanned c)), vs_revision := ch_revision c\<rparr> else st1)"
          using a Inr ok v VectorChangeUpsert False n by (auto simp: apply_vector_change_def split: if_splits option.splits)
        have others: "shows_key lib st j = shows_key lib st' j" if "j \<noteq> key" for j
          using that r(2) st1(1,2) by (auto simp: shows_key_def shows_node_def fun_eq_iff split: option.splits)
        show ?thesis
        proof (cases e1)
          case None
          have "truth (vs_model st) (apply_row c p) key = Some (vx_values (scanned c), vx_frame_ts (scanned c))"
            using VectorChangeUpsert u[of key] v False by (simp add: truth_def apply_row_def)
          then have "shows_key lib st' key (truth (vs_model st) (apply_row c p) key)"
            using r(2) st1 None by (simp add: shows_key_def shows_node_def)
          then show ?thesis using r st1(1) None advance others by simp
        next
          case (Some x)
          have "shows_key lib st' j (truth (vs_model st) p j)" if "unpack_vector_key j \<notin> pending (vs_revision st) s" for j
          proof -
            have "j \<noteq> key" using that u[of j] log(3) by auto
            then show ?thesis using others[of j] shown[OF that] by simp
          qed
          then show ?thesis using r st1(1) Some inv by (simp add: follows_def)
        qed
      qed
    qed
  qed
qed

lemma streamed_changes:
  assumes wf: "vec_wf (vw_store w)" and b: "store_stream (changes_after r) w = ((vs, e), w')"
  defines "cs \<equiv> filter (\<lambda>c. ch_revision c > r) (vd_changes (vw_store w))"
  shows "called w w' \<and> (\<exists>m. vs = map scanned (take m cs) \<and> (e = None \<longrightarrow> take m cs = cs))"
proof -
  from store_streamD[OF b] obtain n where w: "called w w'" and vs: "vs = take n (fst (changes_after r (vw_store w)))"
    "e = None \<longrightarrow> changes_after r (vw_store w) = (vs, None)" by blast
  have "\<exists>m. vs = map scanned (take m cs) \<and> (e = None \<longrightarrow> take m cs = cs)"
  proof (cases "changes_after r (vw_store w)")
    case (Pair x y)
    show ?thesis
    proof (cases y)
      case None
      then have x: "x = map scanned cs" using changes_after_rows[OF wf] Pair by (simp add: cs_def)
      show ?thesis
      proof (cases e)
        case None
        then have "vs = map scanned (take (length cs) cs)" using vs Pair x by simp
        then show ?thesis by (metis take_all_iff order_refl)
      qed (use vs Pair x in \<open>auto simp: take_map\<close>)
    next
      case (Some z)
      have "list_all change_ok (order_by ch_revision cs)" using wf by (auto simp: order_by_def vec_wf_def list_all_iff cs_def)
      then have "x = []" using Pair Some by (auto simp: changes_after_def delivered_changes cs_def split: if_splits)
      then show ?thesis using vs Pair Some by (auto intro: exI[of _ 0])
    qed
  qed
  then show ?thesis using w by blast
qed

text \<open>The visitor of a replay: in step until the model switches, and then idle.\<close>

definition replay_ok :: "'g replay_run \<Rightarrow> change_row list \<Rightarrow> vdb \<Rightarrow> bool" where
  "replay_ok r cs s \<longleftrightarrow> in_step lib (rr_state r) s \<and> (rr_switch r = [] \<longrightarrow> rr_active r = vs_model (rr_state r) \<and>
     filter (\<lambda>c. ch_revision c > vs_revision (rr_state r)) (vd_changes s) = cs) \<and> (rr_switch r \<noteq> [] \<longrightarrow> rr_switch r = rr_active r)"

lemma replay_one:
  assumes "replay_ok r (c # cs) s" "change_ok c" "ch_op c = VectorChangeUpsert \<Longrightarrow> ch_model c \<noteq> Some []"
    and o: "replay_one lib cfg (scanned c) r = (e, r')"
  shows "in_step lib (rr_state r') s \<and> (e = None \<longrightarrow> replay_ok r' cs s \<and> rr_active r' = last_model [c] (rr_active r))"
proof -
  note ok = scan_change_ok[OF assms(2)]
  have label: "ch_op c = VectorChangeUpsert \<Longrightarrow> the (ch_model c) \<noteq> []"
    using assms(2,3) by (auto simp: change_ok_def split: option.splits)
  have st: "in_step lib (rr_state r) s" using assms(1) by (simp add: replay_ok_def)
  show ?thesis
  proof (cases "vx_revision (scanned c) \<noteq> rr_expected r")
    case True
    then show ?thesis using o st by (auto simp: replay_one_def)
  next
    case False
    define r1 where "r1 = r\<lparr>rr_expected := rr_expected r + 1, rr_count := rr_count r + 1\<rparr>"
    have model: "ch_op c = VectorChangeUpsert \<Longrightarrow> vx_model (scanned c) = the (ch_model c)" using ok by blast
    have o1: "(if ch_op c = VectorChangeUpsert \<and> the (ch_model c) \<noteq> rr_active r
        then (None, r1\<lparr>rr_switch := the (ch_model c), rr_active := the (ch_model c)\<rparr>)
        else if rr_switch r \<noteq> [] then (None, r1)
        else case apply_vector_change lib cfg (scanned c) (rr_state r) of (e, st) \<Rightarrow> (e, r1\<lparr>rr_state := st\<rparr>)) = (e, r')"
      using o False ok(5) model by (cases "ch_op c") (simp_all add: replay_one_def Let_def r1_def cong: if_cong)
    have r1: "rr_state r1 = rr_state r" "rr_switch r1 = rr_switch r" "rr_active r1 = rr_active r" by (simp_all add: r1_def)
    show ?thesis
    proof (cases "ch_op c = VectorChangeUpsert \<and> the (ch_model c) \<noteq> rr_active r")
      case True
      then show ?thesis using o1 label st r1 by (auto simp: replay_ok_def last_model_def)
    next
      case same: False
      have active: "last_model [c] (rr_active r) = rr_active r" using same by (auto simp: last_model_def)
      have o2: "(if rr_switch r \<noteq> [] then (None, r1)
        else case apply_vector_change lib cfg (scanned c) (rr_state r) of (e, st) \<Rightarrow> (e, r1\<lparr>rr_state := st\<rparr>)) = (e, r')"
        using o1 same by presburger
      show ?thesis
      proof (cases "rr_switch r = []")
        case switched: False
        then show ?thesis using o2 st assms(1) active r1 by (auto simp: replay_ok_def)
      next
        case True
        have log: "filter (\<lambda>c. ch_revision c > vs_revision (rr_state r)) (vd_changes s) = c # cs" "rr_active r = vs_model (rr_state r)"
          using assms(1) True by (simp_all add: replay_ok_def)
        obtain p where p: "follows lib (rr_state r) p s" using st by (auto simp: in_step_def)
        then have inv: "stream_inv (vs_revision (rr_state r)) p s" by (simp add: follows_def)
        obtain e1 st1 where a: "apply_vector_change lib cfg (scanned c) (rr_state r) = (e1, st1)" by fastforce
        have r: "e = e1" "rr_state r' = st1" "rr_switch r' = []" "rr_active r' = rr_active r"
          using o2 True a r1 by auto
        from apply_vector_change[OF p log(1) a] show ?thesis
          using r log(2) active step_log(2)[OF inv log(1)] by (cases e1) (auto simp: replay_ok_def in_step_def)
      qed
    qed
  qed
qed

lemma visit_replay:
  "visit (replay_one lib cfg) (map scanned cs) e r = (e', r') \<Longrightarrow> replay_ok r (cs @ rest) s \<Longrightarrow> list_all change_ok cs \<Longrightarrow>
   \<forall>c\<in>set cs. ch_op c = VectorChangeUpsert \<longrightarrow> ch_model c \<noteq> Some [] \<Longrightarrow>
   in_step lib (rr_state r') s \<and> (e' = None \<longrightarrow> e = None \<and> replay_ok r' rest s \<and> rr_active r' = last_model cs (rr_active r))"
proof (induction cs arbitrary: r)
  case Nil
  then show ?case by (auto simp: replay_ok_def last_model_def)
next
  case (Cons c cs)
  obtain e1 r1 where o: "replay_one lib cfg (scanned c) r = (e1, r1)" by fastforce
  have "replay_ok r (c # cs @ rest) s" using Cons.prems(2) by simp
  from replay_one[OF this _ _ o] Cons.prems(3,4)
  have l: "in_step lib (rr_state r1) s" "e1 = None \<Longrightarrow> replay_ok r1 (cs @ rest) s \<and> rr_active r1 = last_model [c] (rr_active r)" by auto
  show ?case
  proof (cases e1)
    case None
    then show ?thesis using Cons.IH[of r1] Cons.prems o l by (simp add: last_model_def)
  qed (use Cons.prems(1) o l in auto)
qed

lemma finish_replay:
  assumes r: "replay_ok r [] (vw_store w)" "vw_state w = rr_state r" and d: "durable = max_vector_revision (vw_store w)"
    and ok: "vectors_ok (vw_store w)" "labelled (vw_store w)" and f: "finish_replay lib cfg durable r w = (x, w')"
  shows "same_truth w w' \<and> in_step lib (vw_state w') (vw_store w) \<and>
    (\<forall>n. x = Inr n \<longrightarrow> mirrors lib (vw_state w') (vw_store w) \<and> vs_model (vw_state w') = rr_active r)"
proof -
  have wf: "vec_wf (vw_store w)" using ok by (simp add: vectors_ok_def)
  note mirror = mirrors_follows[OF ok(1)]
  obtain e w1 where a: "(if rr_switch r \<noteq> [] then rebuild_from_store lib cfg (rr_switch r) w
      else (None, w\<lparr>vw_state := (vw_state w)\<lparr>vs_revision := durable\<rparr>\<rparr>)) = (e, w1)" by fastforce
  have w1: "same_truth w w1 \<and> (if e = None then mirrors lib (vw_state w1) (vw_store w) \<and> vs_model (vw_state w1) = rr_active r
      else vw_state w1 = vw_state w)"
  proof (cases "rr_switch r = []")
    case True
    obtain p where "follows lib (rr_state r) p (vw_store w)" using r(1) by (auto simp: replay_ok_def in_step_def)
    from caught_up[OF this] True r a d show ?thesis
      by (auto simp: replay_ok_def mirrors_def same_truth_def max_vector_revision_def)
  next
    case False
    then show ?thesis using rebuild_from_store[OF wf ok(2), of cfg "rr_switch r" e w1] a r(1) by (auto simp: replay_ok_def)
  qed
  show ?thesis
  proof (cases e)
    case (Some y)
    then show ?thesis using f a w1 r by (auto simp: finish_replay_def replay_ok_def)
  next
    case None
    define w2 where "w2 = w1\<lparr>vw_since := vw_since w1 + rr_count r\<rparr>"
    have w2: "same_truth w w2" "mirrors lib (vw_state w2) (vw_store w)" "vs_model (vw_state w2) = rr_active r" "vw_store w2 = vw_store w"
      using w1 None by (simp_all add: w2_def same_truth_def)
    have f2: "(if too_many_tombstones lib cfg (vw_state w2)
        then case rebuild_from_store lib cfg (vs_model (vw_state w2)) w2 of (Some e, w) \<Rightarrow> (Inl e, w) | (None, w) \<Rightarrow> (Inr (rr_count r), w)
        else (Inr (rr_count r), w2)) = (x, w')"
      using f None a by (simp add: finish_replay_def Let_def w2_def split: if_splits)
    show ?thesis
    proof (cases "too_many_tombstones lib cfg (vw_state w2)")
      case False
      then show ?thesis using f2 w2 mirror by auto
    next
      case True
      obtain e3 w3 where b: "rebuild_from_store lib cfg (vs_model (vw_state w2)) w2 = (e3, w3)" by fastforce
      have "vs_model (vw_state w2) \<noteq> []" using True by (simp add: too_many_tombstones_def)
      then show ?thesis using f2 True b w2 mirror rebuild_from_store[OF _ _ b] wf ok(2)
        by (cases e3) (auto simp: same_truth_def)
    qed
  qed
qed

lemma replay_changes:
  assumes st: "in_step lib (vw_state w) (vw_store w)" and ok: "vectors_ok (vw_store w)" "labelled (vw_store w)"
    and r: "replay_changes lib cfg w = (x, w')"
  shows "same_truth w w' \<and> in_step lib (vw_state w') (vw_store w) \<and> (\<forall>n. x = Inr n \<longrightarrow> mirrors lib (vw_state w') (vw_store w) \<and>
    vs_model (vw_state w') = last_model (filter (\<lambda>c. ch_revision c > vs_revision (vw_state w)) (vd_changes (vw_store w))) (vs_model (vw_state w)))"
proof -
  let ?s = "vw_store w" and ?start = "vs_revision (vw_state w)"
  let ?cs = "filter (\<lambda>c. ch_revision c > ?start) (vd_changes ?s)"
  have wf: "vec_wf ?s" using ok by (simp add: vectors_ok_def)
  obtain p where p: "follows lib (vw_state w) p ?s" using st by (auto simp: in_step_def)
  then have le: "?start \<le> vd_change_seq ?s" by (simp add: follows_def stream_inv_def)
  obtain d w1 where a: "store_reads (\<lambda>s. Inr (max_vector_revision s)) w = (d, w1)" by fastforce
  from store_readsD[OF a] have w1: "called w w1" and d: "\<And>y. d = Inr y \<Longrightarrow> y = vd_change_seq ?s" by (auto simp: max_vector_revision_def)
  show ?thesis
  proof (cases "d = Inr (vd_change_seq ?s) \<and> ?start < vd_change_seq ?s")
    case False
    have "mirrors lib (vw_state w) ?s \<and> last_model ?cs m = m" if "?start = vd_change_seq ?s" for m
    proof -
      have "?cs = []" using no_later_changes[OF wf, of ?start] that by simp
      then show ?thesis using caught_up[OF p] that by (simp add: mirrors_def last_model_def)
    qed
    note none = this
    show ?thesis
    proof (cases d)
      case (Inl y)
      then have "x = Inl y" "w' = w1" using r a by (simp_all add: replay_changes_def Let_def)
      then show ?thesis using w1 st by (simp add: called_def)
    next
      case (Inr y)
      then have "y = ?start" using False d le by fastforce
      then have "x = Inr 0" "w' = w1" using r a Inr by (simp_all add: replay_changes_def Let_def)
      then show ?thesis using none d[OF Inr] \<open>y = ?start\<close> w1 st by (simp add: called_def)
    qed
  next
    case True
    obtain vs e1 w2 where b: "store_stream (changes_after ?start) w1 = ((vs, e1), w2)" by (metis surj_pair)
    have s1: "vw_store w1 = ?s" "vw_state w1 = vw_state w" using w1 by (simp_all add: called_def same_truth_def)
    from streamed_changes[OF _ b] wf obtain m where w2: "called w1 w2" and m: "vs = map scanned (take m ?cs)" "e1 = None \<longrightarrow> take m ?cs = ?cs"
      unfolding s1 by blast
    let ?r = "\<lparr>rr_expected = ?start + 1, rr_count = 0, rr_switch = [], rr_active = vs_model (vw_state w), rr_state = vw_state w\<rparr>"
    obtain e2 r2 where c: "visit (replay_one lib cfg) vs e1 ?r = (e2, r2)" by fastforce
    have start: "replay_ok ?r (take m ?cs @ drop m ?cs) ?s" using st by (simp add: replay_ok_def)
    have rows: "list_all change_ok (take m ?cs)" "\<forall>c\<in>set (take m ?cs). ch_op c = VectorChangeUpsert \<longrightarrow> ch_model c \<noteq> Some []"
      using wf ok(2) by (auto simp: vec_wf_def labelled_def list_all_iff dest!: in_set_takeD)
    from visit_replay[OF c[unfolded m(1)] start rows]
    have v: "in_step lib (rr_state r2) ?s" "e2 = None \<Longrightarrow> e1 = None \<and> replay_ok r2 (drop m ?cs) ?s \<and> rr_active r2 = last_model (take m ?cs) (vs_model (vw_state w))"
      by auto
    have all: "drop m ?cs = []" "take m ?cs = ?cs" if "e1 = None"
      using m(2) that by (metis append_take_drop_id self_append_conv)+
    have s2: "vw_state w2 = vw_state w" using w2 s1 by (simp add: called_def)
    define w3 where "w3 = w2\<lparr>vw_state := rr_state r2\<rparr>"
    have w3: "same_truth w w3" "vw_store w3 = ?s" using w1 w2 by (simp_all add: w3_def called_def same_truth_def)
    have r3: "(case e2 of Some e \<Rightarrow> (Inl e, w3) | None \<Rightarrow>
        if rr_expected r2 - 1 \<noteq> vd_change_seq ?s then (Inl (Leaf ErrVectorSnapshotGap), w3) else finish_replay lib cfg (vd_change_seq ?s) r2 w3) = (x, w')"
      using r unfolding replay_changes_def Let_def a prod.case True[THEN conjunct1] sum.case s1 b s2 c w3_def
      using True by (cases e2) (simp_all split: if_splits)
    show ?thesis
    proof (cases "e2 = None \<and> rr_expected r2 - 1 = vd_change_seq ?s")
      case False
      then have "w' = w3" "x = Inl (case e2 of Some e \<Rightarrow> e | None \<Rightarrow> Leaf ErrVectorSnapshotGap)" using r3 by (auto split: option.splits)
      then show ?thesis using v(1) w3 by (simp add: w3_def)
    next
      case True
      have "finish_replay lib cfg (vd_change_seq ?s) r2 w3 = (x, w')" using r3 True by simp
      moreover have v2: "e1 = None" "replay_ok r2 [] ?s" "rr_active r2 = last_model ?cs (vs_model (vw_state w))"
        using v(2) True all by auto
      ultimately have "same_truth w3 w' \<and> in_step lib (vw_state w') (vw_store w3) \<and>
          (\<forall>n. x = Inr n \<longrightarrow> mirrors lib (vw_state w') (vw_store w3) \<and> vs_model (vw_state w') = rr_active r2)"
        using w3 ok by (intro finish_replay) (simp_all add: w3_def max_vector_revision_def)
      then show ?thesis unfolding w3(2) v2(3) using w3(1) by (simp add: same_truth_def)
    qed
  qed
qed

end

end
