(* ===== verification/Vector_Index_Store.thy ===== *)
theory Vector_Index_Store
  imports Vector_Index_Laws
begin

text \<open>
  The index over the store: the writes of the store keep the index in step, a replacement is the end of the
  log, and the invariant of the world that every operation of the index keeps, snapshots and restarts included.
\<close>

section \<open>Writes of the store\<close>

lemma kept_log: "kept_by_statements (\<lambda>s. C \<subseteq> set (vd_changes s))"
proof -
  let ?I = "\<lambda>s. C \<subseteq> set (vd_changes s)"
  have more: "set (vd_changes s) \<subseteq> set (vd_changes (fold (\<lambda>x. append_change (\<lambda>n. delete_change now n x)) gone s))" for now gone s
  proof (induction gone arbitrary: s)
    case (Cons x gone)
    have "set (vd_changes s) \<subseteq> set (vd_changes (append_change (\<lambda>n. delete_change now n x) s))" by (auto simp: append_change_def)
    then show ?case using Cons[of "append_change (\<lambda>n. delete_change now n x) s"] by (simp add: order_trans)
  qed simp
  have "?I (fold (\<lambda>x. append_change (\<lambda>n. delete_change now n x)) gone (s\<lparr>vd_vectors := rs\<rparr>))" if "?I s" for now gone s rs
    using that more[of "s\<lparr>vd_vectors := rs\<rparr>" now gone] by auto
  then have del: "keeps ?I (delete_file_vectors now i)" for now i
    by (auto simp: keeps_def delete_file_vectors_def wp_simps)
  have up: "keeps ?I (upsert_vector now v)" for now v
    unfolding upsert_vector_def by (rule keeps_modify) (auto simp: Let_def append_change_def split: option.splits)
  have req: "keeps ?I (require_embed_model_contract_tx m e)" for m e
    unfolding require_embed_model_contract_tx_def establish_contract_def
    by (intro keeps_intros keeps_modify) (auto split: option.splits intro!: keeps_intros keeps_modify)
  show ?thesis unfolding kept_by_statements_def put_vector_tx_def
    by (intro conjI allI impI keeps_intros del up req) simp
qed

lemma kept_labelled: "kept_by_statements labelled"
proof -
  have fold: "labelled (fold (\<lambda>x. append_change (\<lambda>n. delete_change now n x)) gone s)" if "labelled s" for now gone s
    using that by (induction gone arbitrary: s) (auto simp: labelled_def append_change_def delete_change_def)
  have "labelled (s\<lparr>vd_vectors := rows_delete q (vd_vectors s)\<rparr>)" if "labelled s" for s q
    using that by (auto simp: labelled_def rows_delete_def list_all_iff)
  then have del: "keeps labelled (delete_file_vectors now i)" for now i
    by (auto simp: keeps_def delete_file_vectors_def wp_simps intro: fold)
  have up: "keeps labelled (upsert_vector now v)" if "vc_model v \<noteq> []" for now v
    unfolding upsert_vector_def using that
    by (intro keeps_modify) (auto simp: Let_def append_change_def labelled_def row_of_def upsert_change_def rows_update_def list_all_iff
      split: option.splits if_splits)
  have req: "keeps labelled (require_embed_model_contract_tx m e)" for m e
    unfolding require_embed_model_contract_tx_def establish_contract_def
    by (intro keeps_intros keeps_modify) (auto simp: labelled_def split: option.splits intro!: keeps_intros keeps_modify)
  have put: "keeps labelled (put_vector_tx now v)" for now v
  proof (cases "validate_vector v")
    case (Inr u)
    then have "vc_model v \<noteq> []" by (auto simp: validate_vector_def trimmed_label_def trim_space_def split: if_splits)
    then show ?thesis unfolding put_vector_tx_def by (intro keeps_intros up req)
  qed (simp add: put_vector_tx_def keeps_def wp_simps)
  show ?thesis unfolding kept_by_statements_def by (intro conjI allI impI put del req) (simp add: labelled_def)
qed

text \<open>The writes the index makes, and those of other components.\<close>

lemma kept_by_truth_writes:
  assumes "kept_by_statements I" "I (vw_store w)" "write_truth now q w = (r, w')"
  shows "I (vw_store w') \<and> vw_state w' = vw_state w \<and> vw_file w' = vw_file w \<and> vw_since w' = vw_since w"
proof -
  note k = kept_writes[where I = I, OF assms(1)]
  have "I (snd (delete_vectors_for_file now i g s))" if "I s" for i g s by (rule k[OF that])
  then have d: "I (snd (case delete_vectors_for_file now i g s of (r, s') \<Rightarrow> (map_sum id (\<lambda>_. ()) r, s')))" if "I s" for i g s
    using that by (auto split: prod.splits) (metis snd_conv)
  have call: "I (vw_store w') \<and> vw_state w' = vw_state w \<and> vw_file w' = vw_file w \<and> vw_since w' = vw_since w"
    if "store_writes f w = (r, w')" "\<And>s. I s \<Longrightarrow> I (snd (f s))" for f
    using that(1) that(2)[of "vw_store w"] assms(2)
    by (auto simp: store_writes_def called_def same_truth_def split: prod.splits option.splits dest!: next_faultD)
  show ?thesis
  proof (cases q)
    case (VectorReplace i g model vs)
    then show ?thesis using assms(3) k(3) by (intro call) (auto simp: write_truth_def)
  next
    case (VectorDelete i g)
    then show ?thesis using assms(3) d by (intro call) (auto simp: write_truth_def)
  qed
qed

section \<open>A replacement is the end of the log\<close>

definition entry_of_vector :: "vector \<Rightarrow> int option \<times> 32 word list \<times> string" where
  "entry_of_vector v = (vc_frame_ts v, vc_values v, vc_model v)"

definition logged_last :: "string \<Rightarrow> vdb \<Rightarrow> bool" where
  "logged_last model s \<longleftrightarrow> vd_changes s \<noteq> [] \<and> ch_op (last (vd_changes s)) = VectorChangeUpsert \<and>
     ch_model (last (vd_changes s)) = Some model \<and> ch_revision (last (vd_changes s)) = vd_change_seq s"

definition replaced_so_far :: "int \<Rightarrow> projection \<Rightarrow> int \<Rightarrow> vector list \<Rightarrow> vector list \<Rightarrow> vdb \<Rightarrow> bool" where
  "replaced_so_far r p i vs rest s \<longleftrightarrow> stream_inv r p s \<and> (\<exists>pre. vs = pre @ rest \<and>
     (\<forall>v\<in>set pre. project (vd_vectors s) (i, vc_frame v) = Some (entry_of_vector v)) \<and>
     (pre \<noteq> [] \<longrightarrow> logged_last (vc_model (last pre)) s \<and> r < vd_change_seq s))"

lemma replaced_so_far_frame:
  "replaced_so_far r p i vs rest s \<Longrightarrow> vd_vectors s' = vd_vectors s \<Longrightarrow> vd_changes s' = vd_changes s \<Longrightarrow>
   vd_change_seq s' = vd_change_seq s \<Longrightarrow> stream_inv r p s' \<Longrightarrow> replaced_so_far r p i vs rest s'"
  by (simp add: replaced_so_far_def logged_last_def)

lemma wp_put_replaced:
  assumes s: "replaced_so_far r p i vs (v # rest) s" and vs: "\<forall>v\<in>set vs. vc_file_id v = i" "distinct (map vc_frame vs)"
  shows "wp (put_vector_tx now v) (\<lambda>_. replaced_so_far r p i vs rest) (\<lambda>_. True) s"
proof (cases "validate_vector v")
  case (Inr u)
  have inv: "stream_inv r p s" using s by (simp add: replaced_so_far_def)
  obtain pre where pre: "vs = pre @ v # rest" "\<forall>v\<in>set pre. project (vd_vectors s) (i, vc_frame v) = Some (entry_of_vector v)"
    using s by (auto simp: replaced_so_far_def)
  have up: "wp (upsert_vector now v) (\<lambda>_. replaced_so_far r p i vs rest) (\<lambda>_. True) s1"
    if s1: "stream_inv r p s1" "vd_contracts s1 (vc_model v) = Some (int (length (vc_values v)))" "vd_vectors s1 = vd_vectors s" for s1
  proof (rule wp_upsert_vector)
    show "distinct (map key_of_row (vd_vectors s1))" using s1(1) by (simp add: stream_inv_def vec_wf_def)
    show "validate_vector v = Inr ()" using Inr by simp
    fix s' assume u: "upserted now v s1 s'"
    have "stream_inv r p s'" by (rule stream_inv_upserted[OF s1(1) u s1(2)])
    moreover have "project (vd_vectors s') = (project (vd_vectors s))((i, vc_frame v) \<mapsto> entry_of_vector v)" "logged_last (vc_model v) s'"
      "r < vd_change_seq s'"
      using s1(1) u s1(3) pre(1) vs(1) by (auto simp: upserted_def entry_of_vector_def logged_last_def append_change_def upsert_change_def entry_of_row_def stream_inv_def)
    moreover have "vc_frame x \<noteq> vc_frame v" if "x \<in> set pre" for x
      using that vs(2) pre(1) by (auto simp: image_iff)
    ultimately show "replaced_so_far r p i vs rest s'"
      using pre by (auto simp: replaced_so_far_def intro!: exI[of _ "pre @ [v]"])
  qed
  have "wp (require_embed_model_contract_tx (vc_model v) (int (length (vc_values v))))
      (\<lambda>_. wp (upsert_vector now v) (\<lambda>_. replaced_so_far r p i vs rest) (\<lambda>_. True)) (\<lambda>_. True) s"
    by (rule wp_require_contract[OF inv]) (simp_all add: up)
  then show ?thesis using Inr by (simp add: put_vector_tx_def wp_simps)
qed (simp add: put_vector_tx_def wp_simps)

lemma replacement_is_logged:
  assumes inv: "stream_inv q p s" and r: "replace_vectors_for_file_and_version now i g model vs s = (Inr (), s')"
    and vs: "vs \<noteq> []" "distinct (map vc_frame vs)"
  shows "(\<forall>v\<in>set vs. vc_model v = model \<and> project (vd_vectors s') (i, vc_frame v) = Some (entry_of_vector v)) \<and>
    logged_last model s' \<and> q < vd_change_seq s' \<and> model \<noteq> []"
proof -
  let ?Q = "\<lambda>_ :: unit. replaced_so_far q p i vs []"
  have valid: "\<And>ws. validate_replacement i (Some model) ws = Inr () \<Longrightarrow>
      \<forall>v\<in>set ws. vc_file_id v = i \<and> vc_model v = model \<and> validate_vector v = Inr ()"
  proof -
    fix ws assume "validate_replacement i (Some model) ws = Inr ()"
    then show "\<forall>v\<in>set ws. vc_file_id v = i \<and> vc_model v = model \<and> validate_vector v = Inr ()"
      by (induction ws) (auto split: if_splits sum.splits)
  qed
  have tx: "fst (with_tx (tx_bind (replace_vectors_body now i g vs) (\<lambda>_.
        tx_bind (set_file_model i (Some g) (Some model)) (\<lambda>n. on_db (require_changed n)))) s) = Inr ()"
      "s' = snd (with_tx (tx_bind (replace_vectors_body now i g vs) (\<lambda>_.
        tx_bind (set_file_model i (Some g) (Some model)) (\<lambda>n. on_db (require_changed n)))) s)"
    and v: "validate_replacement i (Some model) vs = Inr ()" "trimmed_label model"
    using r by (auto simp: replace_vectors_for_file_and_version_def split: if_splits sum.splits)
  note v = valid[OF v(1)] v(2)
  have db: "wp (on_db m) (\<lambda>_. replaced_so_far q p i vs []) (\<lambda>_. True) t" if "replaced_so_far q p i vs [] t" for m :: "'b stx" and t
  proof -
    have inv: "stream_inv q p t" using that by (simp add: replaced_so_far_def)
    have "wp (on_db m) (\<lambda>_. stream_inv q p) (\<lambda>_. True) t" using keeps_on_db inv by (auto simp: keeps_def)
    then show ?thesis using replaced_so_far_frame[OF that] by (auto simp: wp_def on_db_def split: sum.splits)
  qed
  have same: "vs = [] @ vs" "\<forall>v\<in>set vs. vc_file_id v = i" using v(1) by auto
  have each: "wp (tx_each (put_vector_tx now) vs) ?Q (\<lambda>_. True) t" if "stream_inv q p t" for t
    by (rule wp_each_rest[where I = "replaced_so_far q p i vs"])
      (use that same vs(2) in \<open>auto simp: replaced_so_far_def[of _ _ _ _ vs] intro: wp_put_replaced\<close>)
  have replace: "wp (replace_vectors_tx now i vs) ?Q (\<lambda>_. True) t" if "stream_inv q p t" for t
  proof -
    have "wp (delete_file_vectors now i) (\<lambda>_. stream_inv q p) (\<lambda>_. True) t"
      using keeps_delete_file_vectors that by (auto simp: keeps_def)
    then show ?thesis unfolding replace_vectors_tx_def wp_bind by (rule wp_mono) (simp_all add: each)
  qed
  have pre: "wp (require_current_generation_tx i g) (\<lambda>_. stream_inv q p) (\<lambda>_. True) t"
      "wp (require_vector_contracts_tx vs) (\<lambda>_. stream_inv q p) (\<lambda>_. True) t" if "stream_inv q p t" for t
    using kept_statements[OF kept_stream_inv] that by (auto simp: keeps_def)
  have body: "wp (replace_vectors_body now i g vs) ?Q (\<lambda>_. True) s"
    unfolding replace_vectors_body_def wp_bind
    by (rule wp_mono[OF pre(1)[OF inv]]) (auto intro!: wp_mono[OF pre(2)] replace)
  have "wp (tx_bind (replace_vectors_body now i g vs) (\<lambda>_.
        tx_bind (set_file_model i (Some g) (Some model)) (\<lambda>n. on_db (require_changed n)))) ?Q (\<lambda>_. True) s"
    unfolding wp_bind set_file_model_def by (rule wp_mono[OF body]) (auto intro!: wp_mono[OF db] db)
  from with_tx_post[OF this tx(1)] have "replaced_so_far q p i vs [] s'" using tx(2) by simp
  moreover have "vc_model (last vs) = model" using v(1) vs(1) by simp
  moreover have "model \<noteq> []" using v(2) by (auto simp: trimmed_label_def trim_space_def)
  ultimately show ?thesis using vs(1) v(1) by (auto simp: replaced_so_far_def)
qed

section \<open>The invariant of the world\<close>

text \<open>A snapshot shows the frames without later changes; the metadata are not in it.\<close>

definition saved :: "('g, 'p) ann \<Rightarrow> 'p snapshot_file \<Rightarrow> vdb \<Rightarrow> bool" where
  "saved lib f s \<longleftrightarrow> (case f of
     Snapshot h payload intact \<Rightarrow> (\<exists>p. stream_inv (sh_revision h) p s \<and>
       (\<forall>c g key. import_graph lib c h payload intact = Inr g \<longrightarrow> unpack_vector_key key \<notin> pending (sh_revision h) s \<longrightarrow>
          shows_node lib g (set (sh_tombstones h)) key (truth (sh_model h) p key)))
   | _ \<Rightarrow> True)"

definition world_ok :: "('g, 'p) ann \<Rightarrow> ('g, 'p) vworld \<Rightarrow> bool" where
  "world_ok lib w \<longleftrightarrow> vectors_ok (vw_store w) \<and> labelled (vw_store w) \<and> in_step lib (vw_state w) (vw_store w) \<and>
     saved lib (vw_file w) (vw_store w)"

lemma pending_mono: "set (vd_changes s) \<subseteq> set (vd_changes s') \<Longrightarrow> pending r s \<subseteq> pending r s'"
  by (auto simp: pending_def)

lemma in_step_more:
  assumes "in_step lib st s" "\<And>r p. stream_inv r p s \<Longrightarrow> stream_inv r p s'" "set (vd_changes s) \<subseteq> set (vd_changes s')"
  shows "in_step lib st s'"
  using assms(1,2) pending_mono[OF assms(3)] unfolding in_step_def follows_def by blast

lemma saved_more:
  assumes "saved lib f s" "\<And>r p. stream_inv r p s \<Longrightarrow> stream_inv r p s'" "set (vd_changes s) \<subseteq> set (vd_changes s')"
  shows "saved lib f s'"
  using assms(1,2) pending_mono[OF assms(3)] unfolding saved_def by (cases f) (simp_all, blast)

lemma world_ok_truth_write:
  assumes w: "world_ok lib w" and q: "write_truth now q w = (r, w')"
  shows "world_ok lib w' \<and> vw_state w' = vw_state w"
proof -
  have inv: "stream_inv a p (vw_store w')" if "stream_inv a p (vw_store w)" for a p
    using kept_by_truth_writes[OF kept_stream_inv that q] by simp
  have log: "set (vd_changes (vw_store w)) \<subseteq> set (vd_changes (vw_store w'))"
    using kept_by_truth_writes[OF kept_log order_refl q] by simp
  have "vectors_ok (vw_store w')" using w inv by (auto simp: world_ok_def vectors_ok_eq)
  moreover have "labelled (vw_store w') \<and> vw_state w' = vw_state w \<and> vw_file w' = vw_file w"
    using kept_by_truth_writes[OF kept_labelled _ q] w by (simp add: world_ok_def)
  ultimately show ?thesis using w in_step_more[of lib "vw_state w", OF _ inv log] saved_more[of lib "vw_file w", OF _ inv log]
    by (simp add: world_ok_def)
qed

lemma world_ok_catalog: "world_ok lib w \<Longrightarrow> world_ok lib (w\<lparr>vw_store := (vw_store w)\<lparr>vd_db := d\<rparr>\<rparr>)"
proof -
  assume w: "world_ok lib w"
  let ?s = "(vw_store w)\<lparr>vd_db := d\<rparr>"
  have inv: "stream_inv a p ?s" if "stream_inv a p (vw_store w)" for a p
    using kept_stream_inv that by (simp add: kept_by_statements_def)
  then have "vectors_ok ?s" using w by (auto simp: world_ok_def vectors_ok_eq)
  moreover have "labelled ?s" using w by (simp add: world_ok_def labelled_def)
  ultimately show ?thesis using w in_step_more[of lib "vw_state w" "vw_store w" ?s, OF _ inv] saved_more[of lib "vw_file w" "vw_store w" ?s, OF _ inv]
    by (simp add: world_ok_def)
qed

lemma world_ok_same: "world_ok lib w \<Longrightarrow> same_truth w w' \<Longrightarrow> in_step lib (vw_state w') (vw_store w) \<Longrightarrow> world_ok lib w'"
  by (simp add: world_ok_def same_truth_def)

text \<open>Pruning below a revision is not seen from there.\<close>

lemma pruned:
  assumes "prune_vector_changes_through q s = (r, s')"
  shows "s' = s \<or> s' = s\<lparr>vd_changes := rows_delete (\<lambda>c. ch_revision c \<le> q) (vd_changes s)\<rparr>"
  using assms by (auto simp: prune_vector_changes_through_def with_tx_def tx_bind_def tx_read_def tx_modify_def tx_return_def split: if_splits)

lemma pending_pruned: "q \<le> r \<Longrightarrow> pending r (s\<lparr>vd_changes := rows_delete (\<lambda>c. ch_revision c \<le> q) (vd_changes s)\<rparr>) = pending r s"
  by (fastforce simp: pending_def rows_delete_def)

context ann_library
begin

lemma apply_request:
  assumes w: "world_ok lib w" and a: "apply_request lib cfg now q w = (e, w')"
  shows "world_ok lib w' \<and> (e = None \<longrightarrow> mirrors lib (vw_state w') (vw_store w') \<and>
    (\<exists>w1. write_truth now q w = (Inr (), w1) \<and> vw_store w' = vw_store w1 \<and>
      (vs_model (vw_state w') = last_model (filter (\<lambda>c. ch_revision c > vs_revision (vw_state w)) (vd_changes (vw_store w1))) (vs_model (vw_state w)) \<or>
       request_model q \<noteq> [] \<and> vs_model (vw_state w') = request_model q \<or> request_model q = [])))"
proof -
  obtain r w1 where t: "write_truth now q w = (r, w1)" by fastforce
  from world_ok_truth_write[OF w t] have w1: "world_ok lib w1" "vw_state w1 = vw_state w" by simp_all
  show ?thesis
  proof (cases r)
    case (Inl x)
    then show ?thesis using a t w1 by (auto simp: apply_request_def)
  next
    case (Inr u)
    obtain x w2 where b: "replay_changes lib cfg w1 = (x, w2)" by fastforce
    have ok: "in_step lib (vw_state w1) (vw_store w1)" "vectors_ok (vw_store w1)" "labelled (vw_store w1)"
      using w1 by (simp_all add: world_ok_def)
    note l = replay_changes[OF ok b]
    have w2: "world_ok lib w2" using world_ok_same[OF w1(1)] l by simp
    show ?thesis
    proof (cases x)
      case (Inr n)
      then show ?thesis using a t \<open>r = Inr u\<close> b l w2 w1(2) by (auto simp: apply_request_def same_truth_def)
    next
      case (Inl y)
      obtain z w3 where c: "rebuild_from_store lib cfg (request_model q) w2 = (z, w3)" by fastforce
      have s2: "vw_store w2 = vw_store w1" using l by (simp add: same_truth_def)
      have "vec_wf (vw_store w2)" "labelled (vw_store w2)" "vectors_ok (vw_store w2)" using ok s2 by (simp_all add: vectors_ok_def)
      note m = rebuild_from_store[OF this(1,2) c] and ok2 = this
      show ?thesis
      proof (cases z)
        case None
        then have "mirrors lib (vw_state w3) (vw_store w2)" using m by simp
        then have "world_ok lib w3" using m mirrors_follows[OF ok2(3)] by (intro world_ok_same[OF w2]) auto
        then show ?thesis using a t \<open>r = Inr u\<close> b Inl c None m s2 by (auto simp: apply_request_def same_truth_def)
      next
        case (Some k)
        then have "world_ok lib w3" using m w2 by (intro world_ok_same[OF w2]) (auto simp: world_ok_def)
        then show ?thesis using a t \<open>r = Inr u\<close> b Inl c Some by (auto simp: apply_request_def)
      qed
    qed
  qed
qed

lemma import_shows:
  assumes "import_graph lib c (snapshot_header_of lib c0 st) payload intact = Inr g"
    and "(if an_len lib (vs_graph st) = 0 then Inr None else map_sum id Some (an_export lib (vs_graph st))) = Inr payload"
  shows "an_find lib g = an_find lib (vs_graph st)"
proof (cases "an_len lib (vs_graph st) = 0")
  case True
  then have "an_find lib (vs_graph st) key = None" for key
    using len_nodes[of "vs_graph st"] finite_nodes[of "vs_graph st"] by (auto simp: domIff)
  then show ?thesis using assms True new_empty by (auto simp: import_graph_def snapshot_header_of_def split: if_splits)
next
  case False
  then obtain p where "payload = Some p" "an_export lib (vs_graph st) = Inr p"
    using assms(2) by (cases "an_export lib (vs_graph st)") auto
  then show ?thesis using assms(1) False import_export
    by (auto simp: import_graph_def snapshot_header_of_def split: if_splits sum.splits)
qed

lemma snapshot_to:
  assumes w: "world_ok lib w" and s: "snapshot_to lib cfg w = (e, w')"
  shows "world_ok lib w' \<and> vw_state w' = vw_state w"
proof -
  define st where "st = vw_state w"
  let ?h = "snapshot_header_of lib cfg st" and ?s = "vw_store w"
  define exported where "exported = (if an_len lib (vs_graph st) = 0 then Inr None else map_sum id Some (an_export lib (vs_graph st)))"
  have empty: "sh_empty ?h = (an_len lib (vs_graph st) = 0)" "sh_revision ?h = vs_revision st" "sh_model ?h = vs_model st"
    "set (sh_tombstones ?h) = set (vs_tombstones st)" by (simp_all add: snapshot_header_of_def)
  have s1: "(case exported of Inl e \<Rightarrow> (Some (Wrapped ''export HNSW graph'' e), w)
      | Inr payload \<Rightarrow> (case next_fault w of (Some (_, e), w) \<Rightarrow> (Some e, w)
         | (None, w) \<Rightarrow> (case store_writes (prune_vector_changes_through (sh_revision ?h)) (w\<lparr>vw_file := Snapshot ?h payload True\<rparr>) of
              (Inl e, w) \<Rightarrow> (Some (Wrapped ''prune snapshotted vector changes'' e), w)
            | (Inr _, w) \<Rightarrow> (None, w\<lparr>vw_since := 0\<rparr>)))) = (e, w')"
    using s unfolding snapshot_to_def Let_def st_def[symmetric] empty(1) exported_def[symmetric] .
  obtain p where p: "stream_inv (vs_revision st) p ?s"
      "\<forall>key. unpack_vector_key key \<notin> pending (vs_revision st) ?s \<longrightarrow> shows_key lib st key (truth (vs_model st) p key)"
    using w by (auto simp: world_ok_def in_step_def follows_def st_def)
  have ok: "in_step lib st s' \<and> saved lib (Snapshot ?h payload True) s' \<and> vectors_ok s' \<and> labelled s'"
    if "s' = ?s \<or> s' = ?s\<lparr>vd_changes := rows_delete (\<lambda>c. ch_revision c \<le> vs_revision st) (vd_changes ?s)\<rparr>" "exported = Inr payload" for s' payload
  proof -
    have "stream_inv (vs_revision st) p s'" "pending (vs_revision st) s' = pending (vs_revision st) ?s"
      using that(1) p(1) prune_below[OF p(1) order_refl] pending_pruned[OF order_refl] by auto
    moreover have "labelled s'" using that(1) w by (auto simp: world_ok_def labelled_def rows_delete_def list_all_iff)
    moreover have "shows_node lib g (set (vs_tombstones st)) key d"
      if "import_graph lib c ?h payload True = Inr g" "shows_key lib st key d" for c g key d
      using import_shows[OF that(1)] \<open>exported = Inr payload\<close> that(2) by (auto simp: exported_def shows_key_def shows_node_def split: option.splits)
    ultimately show ?thesis
      using p(2) unfolding in_step_def follows_def saved_def snapshot_file.case empty vectors_ok_eq by blast
  qed
  show ?thesis
  proof (cases exported)
    case (Inl x)
    then show ?thesis using s1 w by (simp add: st_def)
  next
    case (Inr payload)
    obtain f w1 where f: "next_fault w = (f, w1)" by fastforce
    from next_faultD[OF f] have w1: "vw_store w1 = ?s" "vw_file w1 = vw_file w" "vw_state w1 = st" by (auto simp: called_def same_truth_def st_def)
    show ?thesis
    proof (cases f)
      case (Some y)
      then show ?thesis using s1 Inr f w1 w by (cases y) (auto simp: world_ok_def st_def)
    next
      case None
      let ?w2 = "w1\<lparr>vw_file := Snapshot ?h payload True\<rparr>"
      obtain r w3 where r: "store_writes (prune_vector_changes_through (sh_revision ?h)) ?w2 = (r, w3)" by fastforce
      have "(vw_store w3 = ?s \<or> vw_store w3 = ?s\<lparr>vd_changes := rows_delete (\<lambda>c. ch_revision c \<le> vs_revision st) (vd_changes ?s)\<rparr>) \<and>
          vw_file w3 = Snapshot ?h payload True \<and> vw_state w3 = st"
        using r w1 unfolding empty(2) store_writes_def
        by (auto simp: called_def same_truth_def split: prod.splits option.splits dest!: next_faultD pruned)
      then have "world_ok lib w3 \<and> vw_state w3 = st" using ok[OF _ Inr, of "vw_store w3"] by (simp add: world_ok_def)
      then show ?thesis using s1 Inr f None r by (cases r) (auto simp: world_ok_def st_def)
    qed
  qed
qed

text \<open>Opening: the metadata of the snapshot are those of the present rows.\<close>

lemma visit_load:
  "visit load_one vs e st = (None, st') \<Longrightarrow> \<forall>key. vs_metadata st key = map_option snd (d key) \<Longrightarrow>
   e = None \<and> vs_graph st' = vs_graph st \<and> vs_tombstones st' = vs_tombstones st \<and> vs_model st' = vs_model st \<and>
   vs_revision st' = vs_revision st \<and> (\<forall>key. vs_metadata st' key = map_option snd (fold shown_vector vs d key))"
proof (induction vs arbitrary: st d)
  case (Cons v vs)
  obtain st1 where l: "load_one v st = (None, st1)" "visit load_one vs e st1 = (None, st')"
    using Cons.prems(1) by (auto split: prod.splits option.splits)
  then obtain k where k: "pack_vector_key (vc_file_id v) (vc_frame v) = Inr k"
      "st1 = st\<lparr>vs_metadata := (vs_metadata st)(k \<mapsto> vc_frame_ts v)\<rparr>" by (auto simp: load_one_def split: if_splits sum.splits)
  have "\<forall>key. vs_metadata st1 key = map_option snd (shown_vector v d key)"
    using Cons.prems(2) k(2) packed_iff[OF k(1)] by (simp add: shown_vector_def)
  from Cons.IH[OF l(2) this] show ?case using k(2) by simp
qed simp

lemma load_snapshot:
  assumes ok: "vectors_ok (vw_store w)" "labelled (vw_store w)" "saved lib (vw_file w) (vw_store w)"
    and l: "load_snapshot lib cfg w = (r, w')"
  shows "same_truth w w' \<and> (\<forall>st. r = Inr st \<longrightarrow> in_step lib st (vw_store w))"
proof (cases "vw_file w")
  case (Snapshot h payload intact)
  let ?s = "vw_store w"
  have wf: "vec_wf ?s" using ok by (simp add: vectors_ok_def)
  obtain d w1 where a: "store_reads (\<lambda>s. Inr (max_vector_revision s)) w = (d, w1)" by fastforce
  from store_readsD[OF a] have w1: "called w w1" by simp
  show ?thesis
  proof (cases "\<exists>g y. d = Inr y \<and> import_graph lib cfg h payload intact = Inr g \<and> \<not> list_ex (\<lambda>key. an_find lib g key = None) (sh_tombstones h)")
    case False
    then show ?thesis using l Snapshot a w1
      by (auto simp: load_snapshot_def called_def same_truth_def Let_def split: if_splits sum.splits)
  next
    case True
    then obtain g y where g: "d = Inr y" "import_graph lib cfg h payload intact = Inr g"
        "\<not> list_ex (\<lambda>key. an_find lib g key = None) (sh_tombstones h)" by blast
    obtain p where p: "stream_inv (sh_revision h) p ?s"
        "\<And>key. unpack_vector_key key \<notin> pending (sh_revision h) ?s \<Longrightarrow> shows_node lib g (set (sh_tombstones h)) key (truth (sh_model h) p key)"
      using ok(3) Snapshot g(2) by (auto simp: saved_def)
    define st0 where "st0 = (empty_vector_state lib cfg (sh_revision h))\<lparr>vs_graph := g, vs_model := sh_model h, vs_dims := sh_dims h,
      vs_tombstones := remdups (sh_tombstones h)\<rparr>"
    have st0: "vs_graph st0 = g" "vs_model st0 = sh_model h" "set (vs_tombstones st0) = set (sh_tombstones h)"
      "vs_revision st0 = sh_revision h" "vs_metadata st0 = Map.empty" by (simp_all add: st0_def empty_vector_state_def)
    have done_step: "in_step lib st ?s"
      if "vs_graph st = g" "vs_model st = sh_model h" "set (vs_tombstones st) = set (sh_tombstones h)" "vs_revision st = sh_revision h"
        "\<And>key. vs_metadata st key = map_option snd (truth (sh_model h) (project (vd_vectors ?s)) key)" for st
    proof -
      have "shows_key lib st key (truth (vs_model st) p key)" if "unpack_vector_key key \<notin> pending (vs_revision st) ?s" for key
      proof -
        have n: "unpack_vector_key key \<notin> pending (sh_revision h) ?s" using that \<open>vs_revision st = _\<close> by simp
        have "truth (sh_model h) (project (vd_vectors ?s)) key = truth (sh_model h) p key"
          by (rule truth_cong) (rule untouched_keys[OF p(1) n])
        then show ?thesis using p(2)[OF n] \<open>vs_graph st = g\<close> \<open>vs_model st = _\<close> \<open>set (vs_tombstones st) = _\<close>
            \<open>\<And>key. vs_metadata st key = _ key\<close>[of key] by (simp add: shows_key_def)
      qed
      then show ?thesis using p(1) \<open>vs_revision st = _\<close> unfolding in_step_def follows_def by auto
    qed
    show ?thesis
    proof (cases "sh_model h = []")
      case True
      have "truth [] (project (vd_vectors ?s)) key = None" for key
        using ok(2) by (auto simp: truth_def labelled_def list_all_iff project_find entry_of_row_def find_Some_iff split: option.splits)
      then have "in_step lib st0 ?s" using st0 True by (intro done_step) simp_all
      moreover have "same_truth w w' \<and> (\<forall>st. r = Inr st \<longrightarrow> st = st0)"
        using l Snapshot a w1 g True by (auto simp: load_snapshot_def called_def same_truth_def Let_def st0_def split: if_splits)
      ultimately show ?thesis by auto
    next
      case False
      obtain vs e w2 where b: "store_stream (vectors_of_model (sh_model h)) w1 = ((vs, e), w2)" by (metis surj_pair)
      obtain e2 st where c: "visit load_one vs e st0 = (e2, st)" by fastforce
      have s1: "vw_store w1 = ?s" using w1 by (simp add: called_def same_truth_def)
      from store_streamD[OF b] have w2: "called w1 w2" and e: "e = None \<Longrightarrow> vectors_of_model (sh_model h) ?s = (vs, None)"
        unfolding s1 by blast+
      have "same_truth w w' \<and> (\<forall>x. r = Inr x \<longrightarrow> e2 = None \<and> x = st)"
        using l Snapshot a w1 w2 g False b c
        by (auto simp: load_snapshot_def called_def same_truth_def Let_def st0_def split: if_splits option.splits)
      moreover have "in_step lib st ?s" if "e2 = None"
      proof -
        from visit_load[OF c[unfolded that], of "\<lambda>_. None"] st0 have v: "e = None" "vs_graph st = g" "vs_tombstones st = vs_tombstones st0"
            "vs_model st = sh_model h" "vs_revision st = sh_revision h" "\<And>key. vs_metadata st key = map_option snd (fold shown_vector vs (\<lambda>_. None) key)"
          by auto
        then show ?thesis using model_rows[OF wf e[OF v(1)]] st0 by (intro done_step) simp_all
      qed
      ultimately show ?thesis by auto
    qed
  qed
qed (use l in \<open>auto simp: load_snapshot_def same_truth_def\<close>)

lemma open_vector_index:
  assumes ok: "vectors_ok (vw_store w)" "labelled (vw_store w)" "saved lib (vw_file w) (vw_store w)"
    and l: "open_vector_index lib c0 w = (r, w')"
  shows "same_truth w w' \<and> (\<forall>y. r = Inr y \<longrightarrow> world_ok lib w' \<and> mirrors lib (vw_state w') (vw_store w'))"
proof (cases "normalize_vector_index_config c0")
  case (Inl x)
  then show ?thesis using l by (auto simp: open_vector_index_def same_truth_def)
next
  case (Inr c)
  define w0 where "w0 = w\<lparr>vw_since := 0\<rparr>"
  obtain x w1 where a: "load_snapshot lib c w0 = (x, w1)" by fastforce
  have s0: "same_truth w w0" "vw_store w0 = vw_store w" "vw_file w0 = vw_file w" by (simp_all add: w0_def same_truth_def)
  have w1: "same_truth w w1" "\<And>st. x = Inr st \<Longrightarrow> in_step lib st (vw_store w)"
    using load_snapshot[of w0 c x w1] ok a s0 by (simp_all add: same_truth_def)
  have rebuilt: "same_truth w w3 \<and> (z = None \<longrightarrow> world_ok lib w3 \<and> mirrors lib (vw_state w3) (vw_store w3))"
    if "rebuild_from_store lib c [] w2 = (z, w3)" "same_truth w w2" for w2 z w3
  proof -
    have s: "vw_store w2 = vw_store w" using that(2) by (simp add: same_truth_def)
    have "vec_wf (vw_store w2)" "labelled (vw_store w2)" using ok s by (simp_all add: vectors_ok_def)
    from rebuild_from_store[OF this that(1)] have t: "same_truth w w3" "z = None \<Longrightarrow> mirrors lib (vw_state w3) (vw_store w)"
      using that(2) s by (auto simp: same_truth_def)
    then show ?thesis using mirrors_follows[OF ok(1)] ok by (auto simp: world_ok_def same_truth_def)
  qed
  show ?thesis
  proof (cases x)
    case (Inl e)
    obtain z w3 where b: "rebuild_from_store lib c [] w1 = (z, w3)" by fastforce
    show ?thesis using rebuilt[OF b w1(1)] l Inr a Inl b
      by (cases z) (auto simp: open_vector_index_def Let_def w0_def)
  next
    case (Inr st)
    define w2 where "w2 = w1\<lparr>vw_state := st\<rparr>"
    have s2: "same_truth w w2" "vw_store w2 = vw_store w" "vw_state w2 = st" using w1(1) by (simp_all add: w2_def same_truth_def)
    obtain y w3 where b: "replay_changes lib c w2 = (y, w3)" by fastforce
    have "in_step lib (vw_state w2) (vw_store w2)" "vectors_ok (vw_store w2)" "labelled (vw_store w2)"
      using w1(2)[OF Inr] ok s2 by simp_all
    note m = replay_changes[OF this b]
    have s3: "same_truth w w3" using m s2 by (auto simp: same_truth_def)
    show ?thesis
    proof (cases y)
      case (Inl e)
      obtain z w4 where d: "rebuild_from_store lib c [] w3 = (z, w4)" by fastforce
      show ?thesis using rebuilt[OF d s3] l \<open>normalize_vector_index_config c0 = Inr c\<close> a \<open>x = Inr st\<close> b Inl d
        by (cases z) (auto simp: open_vector_index_def Let_def w0_def w2_def)
    next
      case (Inr n)
      have "world_ok lib w3 \<and> mirrors lib (vw_state w3) (vw_store w3)" using m s2 s3 Inr ok by (auto simp: world_ok_def same_truth_def)
      then show ?thesis using l \<open>normalize_vector_index_config c0 = Inr c\<close> a \<open>x = Inr st\<close> b Inr s3
        by (auto simp: open_vector_index_def Let_def w0_def w2_def)
    qed
  qed
qed

end

end
