(* ===== verification/Vector_Index_Properties.thy ===== *)
theory Vector_Index_Properties
  imports Vector_Index_Store
begin

text \<open>
  What the vector index promises: an acknowledged request and every start leave a mirror of the durable vectors
  of the active model, in every life of the index, and a search answers with vectors of the store only.
\<close>

section \<open>A library of the interface\<close>

text \<open>The library over a list of nodes, the newest first.\<close>

definition node_list :: "((64 word \<times> 32 word list) list, (64 word \<times> 32 word list) list) ann" where
  "node_list = \<lparr>an_new = (\<lambda>c. []), an_len = (\<lambda>g. length (remdups (map fst g))),
     an_dims = (\<lambda>g. case g of [] \<Rightarrow> 0 | n # _ \<Rightarrow> length (snd n)), an_find = map_of,
     an_delete = (\<lambda>g key. (map_of g key \<noteq> None, filter (\<lambda>n. fst n \<noteq> key) g)),
     an_add = (\<lambda>ef key values g. (True, (key, values) # g)),
     an_search = (\<lambda>ef g query n. Some (map (\<lambda>key. (key, the (map_of g key))) (take n (remdups (map fst g))))),
     an_export = Inr, an_import = (\<lambda>c p. Inr p)\<rparr>"

lemma map_of_filter_other: "map_of (filter (\<lambda>n. fst n \<noteq> key) g) = (map_of g)(key := None)"
  by (induction g) (auto simp: fun_eq_iff)

interpretation node_list: ann_library node_list
proof (unfold_locales, goal_cases)
  case (6 g)
  have "dom (map_of g) = fst ` set g" by (rule dom_map_of_conv_image_fst)
  then show ?case by (simp add: node_list_def card_set[symmetric] distinct_card[symmetric])
next
  case (8 ef g query n nodes)
  have "the (map_of g k) = v" if "map_of g k = Some v" for k v using that by simp
  moreover have "k \<in> fst ` set g \<Longrightarrow> \<exists>v. map_of g k = Some v" for k by (metis domD dom_map_of_conv_image_fst)
  ultimately show ?case using 8
    by (auto simp: node_list_def comp_def dest!: in_set_takeD)
qed (auto simp: node_list_def map_of_filter_other)

section \<open>The lives of an index\<close>

text \<open>
  The first start, with a normalised configuration, on tables as writes leave them and without a snapshot; then requests, snapshots, writes of
  the rest of the database, and any faults of the store at any time; and a restart at any moment, with the
  snapshot as it is, lost or damaged.
\<close>

inductive index_reaches :: "('g, 'p) ann \<Rightarrow> index_config \<Rightarrow> ('g, 'p) vworld \<Rightarrow> bool" for lib c where
  first_start: "normalize_vector_index_config c = Inr c \<Longrightarrow> vectors_ok (vw_store w) \<Longrightarrow> labelled (vw_store w) \<Longrightarrow> vw_file w = NoSnapshot \<Longrightarrow>
    open_vector_index lib c w = (Inr y, w') \<Longrightarrow> index_reaches lib c w'"
| request: "index_reaches lib c w \<Longrightarrow> apply_request lib c now q w = (e, w') \<Longrightarrow> index_reaches lib c w'"
| snapshot: "index_reaches lib c w \<Longrightarrow> snapshot_to lib c w = (e, w') \<Longrightarrow> index_reaches lib c w'"
| catalog: "index_reaches lib c w \<Longrightarrow> index_reaches lib c (w\<lparr>vw_store := (vw_store w)\<lparr>vd_db := d\<rparr>\<rparr>)"
| faults: "index_reaches lib c w \<Longrightarrow> index_reaches lib c (w\<lparr>vw_faults := fs\<rparr>)"
| restart: "index_reaches lib c w \<Longrightarrow> f \<in> {vw_file w, NoSnapshot, Unreadable err} \<Longrightarrow>
    open_vector_index lib c (w\<lparr>vw_file := f, vw_faults := fs, vw_state := st\<rparr>) = (Inr y, w') \<Longrightarrow> index_reaches lib c w'"

lemma reaches_ok:
  assumes "ann_library lib" "index_reaches lib c w"
  shows "world_ok lib w"
  using assms(2)
proof induction
  case (first_start w y w')
  then show ?case using ann_library.open_vector_index[OF assms(1), of w c "Inr y" w'] by (simp add: saved_def)
next
  case (request w now q e w')
  then show ?case using ann_library.apply_request[OF assms(1)] by blast
next
  case (snapshot w e w')
  then show ?case using ann_library.snapshot_to[OF assms(1)] by blast
next
  case (catalog w d)
  then show ?case by (simp add: world_ok_catalog)
next
  case (faults w fs)
  then show ?case by (simp add: world_ok_def)
next
  case (restart w f err fs st y w')
  have "saved lib f (vw_store w)" using restart by (auto simp: world_ok_def saved_def)
  then show ?case using restart ann_library.open_vector_index[OF assms(1) _ _ _ restart(3)] by (simp add: world_ok_def)
qed

text \<open>C38: The index is a mirror of the durable vectors.  In every life of the index, whatever calls of the store
  failed and streams broke off before, after a request that is answered without an error, and after
  every start that succeeds, from the snapshot, from the log or from the tables, the index is at the last
  revision and shows exactly the stored vectors of its model, values and timestamps, and no others.\<close>

theorem index_mirrors_the_store:
  assumes "ann_library lib" and "index_reaches lib c w"
    and "apply_request lib c now q w = (None, w') \<or>
      f \<in> {vw_file w, NoSnapshot, Unreadable err} \<and>
      open_vector_index lib c (w\<lparr>vw_file := f, vw_faults := fs, vw_state := st\<rparr>) = (Inr y, w')"
  shows "mirrors lib (vw_state w') (vw_store w')"
proof -
  have ok: "world_ok lib w" by (rule reaches_ok[OF assms(1,2)])
  from assms(3) show ?thesis
  proof
    assume "apply_request lib c now q w = (None, w')"
    then show ?thesis using ann_library.apply_request[OF assms(1) ok] by blast
  next
    assume r: "f \<in> {vw_file w, NoSnapshot, Unreadable err} \<and>
      open_vector_index lib c (w\<lparr>vw_file := f, vw_faults := fs, vw_state := st\<rparr>) = (Inr y, w')"
    then have "saved lib f (vw_store w)" using ok by (auto simp: world_ok_def saved_def)
    then show ?thesis using ok r ann_library.open_vector_index[OF assms(1) _ _ _ r[THEN conjunct2]] by (simp add: world_ok_def)
  qed
qed

text \<open>The last change of the log decides the model.\<close>

lemma logged_last_model:
  assumes "logged_last m s" "stream_inv r p s" "r < vd_change_seq s"
  shows "last_model (filter (\<lambda>c. ch_revision c > r) (vd_changes s)) m0 = m"
proof -
  obtain cs c where c: "vd_changes s = cs @ [c]" using assms(1) by (metis logged_last_def rev_exhaust)
  then show ?thesis using assms by (simp add: logged_last_def last_model_def)
qed

text \<open>C39: An acknowledged replacement can be searched.  When a replacement of the vectors of a file, with one
  vector per frame, is answered without an error, in any life of the index, the active model is that of
  the vectors, and each of them is shown under its key with its values and its timestamp.\<close>

theorem acknowledged_vectors_are_shown:
  assumes "ann_library lib" and "index_reaches lib c w"
    and "replace_request i generation vs = Inr q" and "distinct (map vc_frame vs)"
    and "apply_request lib c now q w = (None, w')" and "v \<in> set vs" and "pack_vector_key i (vc_frame v) = Inr key"
  shows "vs_model (vw_state w') = vc_model v \<and> shows_key lib (vw_state w') key (Some (vc_values v, vc_frame_ts v))"
proof -
  have ok: "world_ok lib w" by (rule reaches_ok[OF assms(1,2)])
  obtain m where q: "q = VectorReplace i generation m vs" and vs: "vs \<noteq> []"
    using assms(3) by (auto simp: replace_request_def split: list.splits)
  from ann_library.apply_request[OF assms(1) ok assms(5)] obtain w1 where
    mirror: "mirrors lib (vw_state w') (vw_store w')" and w1: "write_truth now q w = (Inr (), w1)" "vw_store w' = vw_store w1" and
    model: "vs_model (vw_state w') = last_model (filter (\<lambda>c. ch_revision c > vs_revision (vw_state w)) (vd_changes (vw_store w1))) (vs_model (vw_state w)) \<or>
      request_model q \<noteq> [] \<and> vs_model (vw_state w') = request_model q \<or> request_model q = []" by auto
  from w1(1) obtain s where r: "replace_vectors_for_file_and_version now i generation m vs (vw_store w) = (Inr (), s)" "vw_store w1 = s"
    by (auto simp: write_truth_def q store_writes_def called_def same_truth_def split: prod.splits option.splits dest!: next_faultD)
      (metis Inr_Inl_False id_apply map_sum.simps sum.exhaust sum.inject(2))+
  obtain p where p: "stream_inv (vs_revision (vw_state w)) p (vw_store w)" using ok by (auto simp: world_ok_def in_step_def follows_def)
  note l = replacement_is_logged[OF p r(1) vs assms(4)]
  have inv: "stream_inv (vs_revision (vw_state w)) p s" using kept_by_truth_writes[OF kept_stream_inv p w1(1)] r(2) by simp
  have m: "vs_model (vw_state w') = m"
    using model l logged_last_model[OF _ inv] r(2) by (auto simp: q request_model_def)
  have "truth m (project (vd_vectors s)) key = Some (vc_values v, vc_frame_ts v)"
    using l assms(6) pack_unpack[OF assms(7)] by (auto simp: truth_def entry_of_vector_def)
  then show ?thesis using mirror m l assms(6) w1(2) r(2) unfolding mirrors_def by metis
qed

section \<open>Search\<close>

lemma map_filter_keys:
  assumes "distinct (map fst nodes)" "\<And>n h. f n = Some h \<Longrightarrow> key_of h = fst n"
  shows "distinct (map key_of (List.map_filter f nodes))"
    "key_of ` set (List.map_filter f nodes) = {k. \<exists>n\<in>set nodes. fst n = k \<and> f n \<noteq> None}"
proof -
  have key: "key_of (the (f n)) = fst n" if "f n \<noteq> None" for n using that assms(2) by auto
  have "map key_of (List.map_filter f nodes) = map fst (filter (\<lambda>n. f n \<noteq> None) nodes)"
    by (simp add: List.map_filter_def key)
  then show "distinct (map key_of (List.map_filter f nodes))" using assms(1) by (simp add: distinct_map_filter)
  have "key_of ` set (List.map_filter f nodes) = fst ` set (filter (\<lambda>n. f n \<noteq> None) nodes)"
    by (simp add: List.map_filter_def image_image key cong: image_cong_simp)
  then show "key_of ` set (List.map_filter f nodes) = {k. \<exists>n\<in>set nodes. fst n = k \<and> f n \<noteq> None}" by auto
qed

lemma hit_of_nodeD: "hit_of_node fp st query n = Some h \<Longrightarrow> vh_key h = fst n"
  by (auto simp: hit_of_node_def split: if_splits option.splits)

text \<open>The keys of the vectors that the index should show.\<close>

definition shown_keys :: "string \<Rightarrow> vdb \<Rightarrow> 64 word set" where
  "shown_keys model s = {key. truth model (project (vd_vectors s)) key \<noteq> None}"

lemma hit_iff_shown:
  assumes "mirrors lib st s" "an_find lib (vs_graph st) (fst n) = Some (snd n)"
  shows "hit_of_node fp st query n \<noteq> None \<longleftrightarrow> fst n \<in> shown_keys (vs_model st) s"
  using assms by (cases "truth (vs_model st) (project (vd_vectors s)) (fst n)")
    (auto simp: mirrors_def shows_key_def shows_node_def hit_of_node_def shown_keys_def dest!: spec[of _ "fst n"])

text \<open>Tombstones do not starve an answer: among as many nodes as are asked for there are enough live ones.\<close>

lemma enough_live_nodes:
  fixes live :: "'k set"
  assumes "finite graph" "found \<subseteq> graph" "live \<subseteq> graph" "graph - live \<subseteq> set tombs" "card found = min (k + length tombs) (card graph)"
  shows "min k (card (found \<inter> live)) = min k (card live)"
proof (cases "card graph \<le> k + length tombs")
  case True
  then have "found = graph" using assms by (metis card_subset_eq min_absorb2)
  then show ?thesis using assms(3) by (simp add: Int_absorb1)
next
  case False
  then have "card found = k + length tombs" using assms(5) by simp
  moreover have "card (found - live) \<le> length tombs"
  proof -
    have "card (found - live) \<le> card (set tombs)" using assms(2,4) by (intro card_mono) auto
    then show ?thesis using card_length[of tombs] by simp
  qed
  moreover have fin: "finite found" "finite live" using assms(1-3) by (auto intro: finite_subset)
  moreover have "card found = card (found \<inter> live) + card (found - live)"
    using card_Un_disjoint[of "found \<inter> live" "found - live"] fin(1) by (simp add: Int_Diff_disjoint Un_Diff_Int Int_Diff_Un)
  ultimately have "k \<le> card (found \<inter> live)" by simp
  moreover have "card (found \<inter> live) \<le> card live" using fin(2) by (intro card_mono) auto
  ultimately show ?thesis by simp
qed

text \<open>C40: A search answers with stored vectors.  On a mirror of the store the hits are of different keys, at most
  as many as asked for, and each is a stored vector of the model of the query, with its timestamp, scored by
  the inner product with the normalised query; and when the library returns as many nodes as it is asked for,
  tombstones do not shorten the answer: it has the asked number of hits, or every vector of the model.\<close>

theorem search_answers_with_stored_vectors:
  assumes "ann_library lib" and "vectors_ok s" and "mirrors lib st s"
    and "search_vectors lib fp values model top_k st = Inr hits"
  shows "distinct (map vh_key hits) \<and> length hits \<le> top_k_limit top_k \<and>
    (\<forall>h\<in>set hits. \<exists>v. get_vector (vh_file_id h) (vh_frame h) s = Inr v \<and> vc_model v = model \<and> vh_model h = model \<and>
       vh_frame_ts h = vc_frame_ts v \<and> vh_score h = fp_inner fp (fp_normalize fp values) (vc_values v)) \<and>
    ((\<forall>ef query n nodes. an_search lib ef (vs_graph st) query n = Some nodes \<longrightarrow> length nodes = min n (an_len lib (vs_graph st))) \<longrightarrow>
       length hits = min (top_k_limit top_k) (card (shown_keys (vs_model st) s)))"
proof -
  let ?k = "top_k_limit top_k" and ?g = "vs_graph st" and ?T = "vs_tombstones st"
  define live where "live = shown_keys (vs_model st) s"
  have shown: "shows_key lib st key (truth (vs_model st) (project (vd_vectors s)) key)" for key
    using assms(3) by (simp add: mirrors_def)
  have fin: "finite (dom (an_find lib ?g))" and len: "an_len lib ?g = card (dom (an_find lib ?g))"
    using ann_library.finite_nodes[OF assms(1)] ann_library.len_nodes[OF assms(1)] by blast+
  have dom: "live \<subseteq> dom (an_find lib ?g)" "dom (an_find lib ?g) - live \<subseteq> set ?T"
    using shown by (force simp: live_def shown_keys_def shows_key_def shows_node_def split: option.splits)+
  obtain query where query: "normalize_query fp values = Inr query" "query = fp_normalize fp values"
    using assms(4) by (auto simp: search_vectors_def normalize_query_def split: if_splits)
  show ?thesis
  proof (cases "an_len lib ?g = 0")
    case True
    then have "live = {}" using dom(1) fin len by auto
    moreover have "hits = []" using True assms(4) query(1) by (simp add: search_vectors_def split: if_splits)
    ultimately show ?thesis by (simp add: live_def)
  next
    case False
    let ?n = "min (?k + length ?T) (an_len lib ?g)"
    obtain nodes where nodes: "an_search lib (vs_ef st) ?g query ?n = Some nodes" and model: "vs_model st = model"
      and hits: "hits = take ?k (List.map_filter (hit_of_node fp st query) nodes)"
      using False assms(4) query(1) by (auto simp: search_vectors_def Let_def split: if_splits option.splits)
    let ?hs = "List.map_filter (hit_of_node fp st query) nodes"
    have l: "distinct (map fst nodes)" "\<forall>x\<in>set nodes. an_find lib ?g (fst x) = Some (snd x)"
      using ann_library.search_nodes[OF assms(1) nodes] by simp_all
    have key: "hit_of_node fp st query n = Some h \<Longrightarrow> vh_key h = fst n" for n h by (rule hit_of_nodeD)
    note keys = map_filter_keys[OF l(1), of "hit_of_node fp st query" vh_key, OF key]
    have found: "vh_key ` set ?hs = fst ` set nodes \<inter> live"
    proof -
      have "vh_key ` set ?hs = {k. \<exists>n\<in>set nodes. fst n = k \<and> hit_of_node fp st query n \<noteq> None}" by (rule keys(2))
      also have "\<dots> = {k. \<exists>n\<in>set nodes. fst n = k \<and> fst n \<in> live}"
        using l(2) hit_iff_shown[OF assms(3)] unfolding live_def by blast
      finally show ?thesis by auto
    qed
    have "length ?hs = card (vh_key ` set ?hs)" using distinct_card[OF keys(1)] by simp
    then have count: "length ?hs = card (fst ` set nodes \<inter> live)" unfolding found .
    have stored: "\<exists>v. get_vector (vh_file_id h) (vh_frame h) s = Inr v \<and> vc_model v = model \<and> vh_model h = model \<and>
        vh_frame_ts h = vc_frame_ts v \<and> vh_score h = fp_inner fp (fp_normalize fp values) (vc_values v)" if "h \<in> set hits" for h
    proof -
      have "h \<in> set ?hs" using that hits by (metis in_set_takeD)
      then obtain n where n: "n \<in> set nodes" "hit_of_node fp st query n = Some h" by (auto simp: List.map_filter_def)
      then obtain ts where h: "vs_metadata st (fst n) = Some ts" "vh_file_id h = fst (unpack_vector_key (fst n))"
          "vh_frame h = snd (unpack_vector_key (fst n))" "vh_frame_ts h = ts" "vh_score h = fp_inner fp query (snd n)" "vh_model h = vs_model st"
        by (auto simp: hit_of_node_def split: if_splits option.splits)
      have d: "an_find lib ?g (fst n) = Some (snd n)" using l(2) n(1) by blast
      obtain vals where t: "truth (vs_model st) (project (vd_vectors s)) (fst n) = Some (vals, ts)"
        using shown[of "fst n"] h(1) by (cases "truth (vs_model st) (project (vd_vectors s)) (fst n)") (auto simp: shows_key_def)
      then have "vals = snd n" using shown[of "fst n"] d by (simp add: shows_key_def shows_node_def)
      then have "project (vd_vectors s) (vh_file_id h, vh_frame h) = Some (ts, snd n, model)"
        using t model h(2,3) by (auto simp: truth_def split: option.splits if_splits)
      then show ?thesis
        using get_vector_project[of s "vh_file_id h" "vh_frame h"] assms(2) h model query(2) by (simp add: vectors_ok_def)
    qed
    have "length hits = min ?k (card live)"
      if exact: "\<forall>ef query n nodes. an_search lib ef ?g query n = Some nodes \<longrightarrow> length nodes = min n (an_len lib ?g)"
    proof -
      have "length nodes = ?n" using exact nodes by fastforce
      then have "card (fst ` set nodes) = min (?k + length ?T) (card (dom (an_find lib ?g)))" using distinct_card[OF l(1)] len by simp
      moreover have "fst ` set nodes \<subseteq> dom (an_find lib ?g)" using l(2) by (auto simp: domIff)
      ultimately have "min ?k (card (fst ` set nodes \<inter> live)) = min ?k (card live)"
        using enough_live_nodes[OF fin _ dom] by blast
      then show ?thesis using hits count by (simp add: min.commute)
    qed
    moreover have "distinct (map vh_key hits)" unfolding hits using keys(1) by (simp add: take_map[symmetric] distinct_take)
    ultimately show ?thesis using stored hits unfolding live_def by simp
  qed
qed

section \<open>An emptied index\<close>

text \<open>The snapshot of an index whose last vector was deleted names a model, and is refused by the next start
  as a damaged one.\<close>

lemma snapshot_of_an_emptied_index_is_refused:
  assumes "an_len lib (vs_graph (vw_state w)) = 0" and "vs_model (vw_state w) \<noteq> []"
    and "snapshot_to lib c w = (None, w')" and "vw_faults w = []" and "0 \<le> vs_revision (vw_state w)"
    and "vs_revision (vw_state w) \<le> vd_change_seq (vw_store w)"
  shows "fst (load_snapshot lib c w') = Inl (Text ''empty vector snapshot has model metadata'')"
  using assms by (auto simp: snapshot_to_def snapshot_header_of_def load_snapshot_def import_graph_def next_fault_def store_reads_def
      store_writes_def max_vector_revision_def prune_vector_changes_through_def with_tx_def tx_bind_def tx_read_def tx_modify_def
      tx_return_def Let_def split: prod.splits if_splits)

section \<open>A small index\<close>

definition example_index_config :: index_config where
  "example_index_config = \<lparr>vi_m = 16, vi_ef_construction = 200, vi_ef_search = 64, vi_snapshot_path = ''s'',
     vi_snapshot_interval = 1, vi_snapshot_changes = 2, vi_queue_capacity = 4, vi_tombstone_threshold = Some (1 / 5)\<rparr>"

definition example_life :: "((64 word \<times> 32 word list) list, (64 word \<times> 32 word list) list) vworld" where
  "example_life = \<lparr>vw_store = example_vdb, vw_state = empty_vector_state node_list example_index_config 0, vw_since = 0,
     vw_file = NoSnapshot, vw_faults = []\<rparr>"

definition example_opened :: "((64 word \<times> 32 word list) list, (64 word \<times> 32 word list) list) vworld" where
  "example_opened = snd (open_vector_index node_list example_index_config example_life)"

definition example_replace :: vector_request where
  "example_replace = VectorReplace 7 3 ''m'' [example_vector 0 0x3F800000]"

definition example_acknowledged :: "((64 word \<times> 32 word list) list, (64 word \<times> 32 word list) list) vworld" where
  "example_acknowledged = snd (apply_request node_list example_index_config 5000 example_replace example_opened)"

lemma example_labelled: "labelled example_vdb"
  by (simp add: labelled_def example_vdb_def empty_vdb_def)

lemma example_opened: "\<exists>y. open_vector_index node_list example_index_config example_life = (Inr y, example_opened)"
proof -
  have "\<not> isl (fst (open_vector_index node_list example_index_config example_life))" by code_simp
  then show ?thesis
    by (cases "fst (open_vector_index node_list example_index_config example_life)") (auto simp: example_opened_def prod_eq_iff)
qed

lemma example_reached: "index_reaches node_list example_index_config example_opened"
proof -
  obtain y where "open_vector_index node_list example_index_config example_life = (Inr y, example_opened)" using example_opened by blast
  moreover have "normalize_vector_index_config example_index_config = Inr example_index_config"
    by (simp add: normalize_vector_index_config_def example_index_config_def)
  ultimately show ?thesis using example_vdb_ok example_labelled
    by (intro index_reaches.first_start[where w = example_life and y = y]) (simp_all add: example_life_def)
qed

definition example_written :: vdb where
  "example_written =
     (let row = row_of 1 (example_vector 0 0x3F800000) in
      example_vdb\<lparr>vd_db := (vd_db example_vdb)\<lparr>db_files := [example_row\<lparr>f_embed_model_version := Some ''m''\<rparr>]\<rparr>,
        vd_vectors := [row], vd_changes := [upsert_change 5000 1 row], vd_change_seq := 1, vd_contracts := [''m'' \<mapsto> 2]\<rparr>)"

lemma example_replaced:
  "replace_vectors_for_file_and_version 5000 7 3 ''m'' [example_vector 0 0x3F800000] example_vdb = (Inr (), example_written)"
proof -
  have v: "vc_file_id (example_vector 0 0x3F800000) = 7" "vc_model (example_vector 0 0x3F800000) = ''m''"
    "length (vc_values (example_vector 0 0x3F800000)) = 2" by (simp_all add: example_vector_def)
  have "trimmed_label ''m''" by code_simp
  then show ?thesis
    by (simp add: replace_vectors_for_file_and_version_def v example_vector_valid replace_vectors_body_def replace_vectors_tx_def
        delete_file_vectors_def set_file_model_def update_files_def require_changed_def with_tx_def tx_bind_def require_current_generation_tx_def on_db_def
        require_vector_contracts_tx_def rows_delete_def rows_update_def
        find_file_def tx_read_def tx_return_def tx_fail_def tx_modify_def tx_lift_def tx_check_def example_vdb_def empty_vdb_def
        empty_db_def example_row_def put_vector_tx_def require_embed_model_contract_tx_def
        establish_contract_def upsert_vector_def append_change_def next_rowid_def put_files_def files_wf_def file_ok_def Let_def example_written_def row_of_def)
qed

text \<open>After the write the index replays one change, switches the model and is rebuilt.\<close>

definition example_after_write :: "((64 word \<times> 32 word list) list, (64 word \<times> 32 word list) list) vworld" where
  "example_after_write = example_opened\<lparr>vw_store := example_written\<rparr>"

lemma example_replay: "fst (replay_changes node_list example_index_config example_after_write) = Inr 1"
  by code_simp

lemma example_write: "write_truth 5000 example_replace example_opened = (Inr (), example_after_write)"
proof -
  have s: "vw_store example_opened = example_vdb"
    using node_list.open_vector_index[of example_life] example_opened example_vdb_ok example_labelled
    by (auto simp: example_life_def saved_def same_truth_def)
  have "vw_faults example_opened = []" by code_simp
  then show ?thesis
    by (simp add: write_truth_def example_replace_def store_writes_def next_fault_def s example_replaced example_after_write_def)
qed

lemma example_answer_none:
  "apply_request node_list example_index_config 5000 example_replace example_opened = (None, example_acknowledged)"
proof -
  have "fst (apply_request node_list example_index_config 5000 example_replace example_opened) = None"
    using example_write example_replay by (auto simp: apply_request_def split: prod.splits)
  then show ?thesis by (simp add: example_acknowledged_def prod_eq_iff)
qed

lemma example_shown:
  "mirrors node_list (vw_state example_acknowledged) (vw_store example_acknowledged)" "vectors_ok (vw_store example_acknowledged)"
    "vs_model (vw_state example_acknowledged) = ''m''"
proof -
  note ok = reaches_ok[OF node_list.ann_library_axioms example_reached]
  show "mirrors node_list (vw_state example_acknowledged) (vw_store example_acknowledged)" "vectors_ok (vw_store example_acknowledged)"
    using node_list.apply_request[OF ok example_answer_none] by (simp_all add: world_ok_def)
  have "example_acknowledged = snd (replay_changes node_list example_index_config example_after_write)"
    using example_write example_replay by (auto simp: example_acknowledged_def apply_request_def split: prod.splits)
  moreover have "vs_model (vw_state (snd (replay_changes node_list example_index_config example_after_write))) = ''m''" by code_simp
  ultimately show "vs_model (vw_state example_acknowledged) = ''m''" by simp
qed

lemma index_mirrors_the_store_witness:
  "mirrors node_list (vw_state example_acknowledged) (vw_store example_acknowledged)"
  by (rule index_mirrors_the_store[OF node_list.ann_library_axioms example_reached disjI1[OF example_answer_none]])

lemma acknowledged_vectors_are_shown_witness:
  "vs_model (vw_state example_acknowledged) = ''m'' \<and>
   shows_key node_list (vw_state example_acknowledged) (7 * 2 ^ 16) (Some ([0x3F800000, 0], None))"
proof -
  have r: "replace_request 7 3 [example_vector 0 0x3F800000] = Inr example_replace"
    by (simp add: replace_request_def example_replace_def example_vector_def)
  have k: "pack_vector_key 7 (vc_frame (example_vector 0 0x3F800000)) = Inr (7 * 2 ^ 16)" by code_simp
  from acknowledged_vectors_are_shown[OF node_list.ann_library_axioms example_reached r _ example_answer_none _ k]
  show ?thesis by (simp add: example_vector_def)
qed

definition example_floats :: float_ops where
  "example_floats = \<lparr>fp_normalize = (\<lambda>vs. vs), fp_inner = (\<lambda>x y. 0x3F800000)\<rparr>"

definition example_hits :: "vector_hit list" where
  "example_hits = [\<lparr>vh_key = 7 * 2 ^ 16, vh_file_id = 7, vh_frame = 0, vh_frame_ts = None, vh_score = 0x3F800000, vh_model = ''m''\<rparr>]"

lemma search_answers_with_stored_vectors_witness:
  "search_vectors node_list example_floats [0x3F800000, 0] ''m'' 5 (vw_state example_acknowledged) = Inr example_hits \<and>
   card (shown_keys ''m'' (vw_store example_acknowledged)) = 1"
proof -
  let ?w = "example_acknowledged" and ?s = "vw_state example_acknowledged"
  have w: "?w = snd (replay_changes node_list example_index_config example_after_write)"
    using example_write example_replay by (auto simp: example_acknowledged_def apply_request_def split: prod.splits)
  have a: "search_vectors node_list example_floats [0x3F800000, 0] ''m'' 5 ?s = Inr example_hits"
  proof -
    let ?v = "vw_state (snd (replay_changes node_list example_index_config example_after_write))"
    have "float32_value 0 = 0" by (simp add: float32_value_def Let_def)
    then have "norm_squared [0x3F800000, 0] = 1" by (simp add: norm_squared_def float_one)
    moreover have "list_all finite32 [0x3F800000, 0]" by code_simp
    ultimately have q: "normalize_query example_floats [0x3F800000, 0] = Inr [0x3F800000, 0]"
      by (simp add: normalize_query_def example_floats_def)
    have parts: "an_len node_list (vs_graph ?v) = 1" "vs_dims ?v = 2" "vs_tombstones ?v = []" "vs_model ?v = ''m''"
      "an_search node_list (vs_ef ?v) (vs_graph ?v) [0x3F800000, 0] (Suc 0) = Some [(7 * 2 ^ 16, [0x3F800000, 0])]"
      "hit_of_node example_floats ?v [0x3F800000, 0] (458752, [0x3F800000, 0]) = Some (hd example_hits)"
      by code_simp+
    show ?thesis
      unfolding w search_vectors_def q sum.case Let_def parts(1-4)
      by (simp add: top_k_limit_def parts(5,6) List.map_filter_simps) (simp add: example_hits_def)
  qed
  have exact: "\<forall>ef query n nodes. an_search node_list ef (vs_graph ?s) query n = Some nodes \<longrightarrow> length nodes = min n (an_len node_list (vs_graph ?s))"
    by (auto simp: node_list_def min.commute)
  from search_answers_with_stored_vectors[OF node_list.ann_library_axioms example_shown(2,1) a] exact
  have "length example_hits = min (top_k_limit 5) (card (shown_keys ''m'' (vw_store ?w)))" by (simp add: example_shown(3))
  then show ?thesis using a by (simp add: example_hits_def top_k_limit_def)
qed

text \<open>Such an index: its only vector is deleted, the tombstone is compacted away, and the snapshot is refused.\<close>

lemma emptied_index_starts_with_a_damaged_snapshot:
  "(let w = snd (replay_changes node_list example_index_config example_after_write);
        w = snd (apply_request node_list example_index_config 6000 (VectorDelete 7 3) w);
        w = snd (snapshot_to node_list example_index_config w)
    in case fst (open_vector_index node_list example_index_config w) of
      Inr y \<Rightarrow> vy_snapshot_error y = Some (Text ''empty vector snapshot has model metadata'') | Inl e \<Rightarrow> False)"
  by code_simp

end
