(* ===== verification/Spec2Isabelle.thy ===== *)
theory Spec2Isabelle
  imports Store_Properties Scheduler_Properties Breaker_Properties Controller_Properties Debounce_Properties Search_Properties Store_Upgrade_Properties Io_Properties Commit_Properties Worker_Properties Vector_Index_Properties
begin

text \<open>
  The index node of Ferret, \<open>src/packages/index-node\<close>: a service that keeps a search index over directories of
  a machine.  Paths below are relative to \<open>src/packages/index-node/internal\<close>.

  \<^bold>\<open>How the program works.\<close>  File-system events are coalesced by the debouncer and written as tasks into a SQLite
  database, which also holds the catalog of files, the vectors of images, dead letters and an audit outbox.  The
  scheduler claims pending tasks, keeps those with overlapping paths apart and hands each one out as a lease.  A
  worker asks the IO stage what happened to the file, extracts a document or has an image embedded, and submits
  the change to the commit writer, which applies batches to the text index and completes the tasks of the batch
  in the database.  Vectors go to the database and from its change stream to the vector index.  Failures are
  classified: a task is retried after a backoff, buried as a dead letter, or parked while the embedding dependency
  is down, which a circuit breaker and its controller decide.  Search ranks both indexes and joins them with the
  catalog.

  \<^bold>\<open>Which theory models what.\<close>  Every definition of a component theory translates the function, method or type of the
  same name in the file named here; the theories \<open>_Laws\<close> and \<open>_Store\<close> beside it hold its lemmas and the
  interpretation of its interfaces over the other components, \<open>_Properties\<close> its theorems and runs.

  \<^item> \<open>Prelude\<close>, \<open>Invariants\<close>, \<open>Paths\<close>, \<open>Text\<close>: transactions as a state monad with errors and its weakest
    preconditions, tables as lists of rows, \<open>filepath.Clean\<close>, \<open>Rel\<close> and \<open>Join\<close>, \<open>strings.TrimSpace\<close>, UTF-8, IEEE
    bit patterns, and the keys of \<open>store/pathkey.go\<close>.
  \<^item> \<open>Store_Model\<close>, \<open>Store_Catalog\<close>, \<open>Store_Queue\<close>, \<open>Store_Dead\<close>, \<open>Store_Expand\<close>, \<open>Store_Recovery\<close>: the database and the
    writes and reads of \<open>store/models.go\<close>, \<open>catalog.go\<close>, \<open>catalog_identity.go\<close>, \<open>taskqueue.go\<close>, \<open>supersede.go\<close>,
    \<open>deadletter.go\<close>, \<open>audit_outbox.go\<close>, \<open>directory.go\<close>, \<open>reconcile_enqueue.go\<close> and the recovery of \<open>store.go\<close>.
    \<open>Store_System\<close> collects the writes in one type of operations, so that the invariant is proved once for all.
  \<^item> \<open>Store_Vectors\<close>, \<open>Store_Upgrade\<close>: \<open>store/vectors.go\<close> with the triggers of migration 0005, \<open>model_upgrade.go\<close>,
    \<open>media_backfill.go\<close>.
  \<^item> \<open>Scheduler\<close>: \<open>scheduler/scheduler.go\<close>.  \<open>Debounce\<close>: \<open>debounce/debounce.go\<close>.
  \<^item> \<open>Breaker\<close>, \<open>Controller\<close>, \<open>Controller_Steps\<close>: \<open>pipeline/embed/breaker.go\<close> and \<open>controller.go\<close>, the handlers first run
    without interruption and then cut at every point where another goroutine may run.
  \<^item> \<open>Errclass\<close>: \<open>errclass/errclass.go\<close>.  \<open>Pipeline\<close>, \<open>Io_Stage\<close>: \<open>pipeline/task.go\<close> and \<open>pipeline/iostage/io.go\<close>.
  \<^item> \<open>Worker\<close>: \<open>pipeline/worker/processor.go\<close>.
  \<^item> \<open>Text_Index\<close>, \<open>Commit_Writer\<close>: \<open>index/tantivy.go\<close>, \<open>index/writer.go\<close> and \<open>pipeline/worker/recorder.go\<close>.
  \<^item> \<open>Vector_Index\<close>: \<open>index/vector.go\<close>.  \<open>Search\<close>: \<open>index/search.go\<close>.

  \<^bold>\<open>State and operations.\<close>  A row or a struct is a record, an enumeration a datatype, a sentinel error a constructor of
  \<open>store_error\<close> or of the error tree of \<open>Errclass\<close>.  A write of the store is a value of type \<open>tx\<close>, and \<open>with_tx\<close> is
  the boundary that commits or rolls back.  Goroutines are steps of a relation or of a function on the state that
  they share, cut where a lock is released or a channel is used; a channel is a list.  Collaborators that the code
  reaches through an interface are locales (\<open>work_source\<close>, \<open>waiting_source\<close>, \<open>commit_world\<close>, \<open>lease_world\<close>,
  \<open>ann_library\<close>, \<open>store_transaction\<close> and others), whose lemmas are proved under the laws of the interface and used
  through an interpretation on the models of the components that implement it.  The wall clock, random numbers, the
  iteration order of Go maps, answers of the file system and failures of calls are arguments.

  \<^bold>\<open>What the lemmas show.\<close>  For the store: well-formed tables, no lost row and no lowered generation under any
  sequence of writes, rollback, and what each of the transitions of a task does.  For the scheduler: path scopes
  mean what they should, leases in flight never overlap, none is stranded, the loop ends, retries get their share.
  For the breaker and its controller: one probe, the threshold, and that no parked task is forgotten under any
  interleaving.  For the debouncer: coalescing is the net effect of a history, and shutdown loses nothing.  For the
  indexes: the commit writer answers every request once, never moves a document back and completes a task only after
  the index has it; the vector index is a mirror of the stored vectors after every answered request and every start;
  a search ends, ranks by reciprocal rank and is complete unless it says otherwise.  For the worker and the IO
  stage: every outcome is justified by what was observed, every lease that is completed has left the in-flight
  state, and every slot, byte and open file is given back, also on a panic.

  \<^bold>\<open>Integers, bounds and fuel.\<close>  Identifiers, generations, times in nanoseconds and sizes are \<open>int\<close>; where the code can
  reach the end of \<open>int64\<close> the model has its check or writes the wrap-around out, and epochs and bit patterns are words.
  Loops whose end depends on data carry fuel: one unit per round of full batches in the drain loop, per pending task
  in the scheduler, per row in the stream of pages, per doubling of the window in search; the theorems on
  termination state that this fuel gives a result, and no theorem speaks of the value without fuel.

  \<^bold>\<open>Idealisations.\<close>  A transaction is atomic and SQLite executes a statement as its text says.  Scores, backoffs and
  scheduling credit are exact rationals, not float64.  The search library, the graph library, image and document
  codecs, the compute service and the file system are arguments, with the documented behaviour that the code relies
  on as hypotheses of a locale.  Message texts are kept only where the program reads or stores them.
  \<^bold>\<open>Not modelled.\<close>  Opening and closing the database, its DSN, pragmas, write gate and schema migrations
  (\<open>store/store.go\<close>, \<open>pathkey.go\<close>): calls of the SQLite driver.  Notes (\<open>store/notes.go\<close>).  The batcher, client
  and transport of embeddings (\<open>pipeline/embed\<close>): timers and network calls over generated gRPC code.  The
  reliability manager, the maintenance service, the reconcile scanner and the watch manager.
  Extraction and image codecs (\<open>pipeline/extract\<close>, \<open>pipeline/media\<close>): subprocesses and pixel libraries.  Configuration,
  the command line, lifecycle, instance lock, logs, metrics, file identities (\<open>config\<close>, \<open>cli\<close>, \<open>lifecycle\<close>,
  \<open>instance\<close>, \<open>obs\<close>, \<open>fsmeta\<close>): parsing by libraries, terminal output, system calls and the wiring of the
  components.
\<close>

end
